(* ===== verification/Prelude.thy ===== *)
theory Prelude
  imports Main "HOL-Library.AList"
begin

text \<open>
  Shared ground of the development: the fact collections the component theories extend, the
  JavaScript string operations the sources use, and the insertion-ordered \<open>Map\<close> of ECMAScript.

  Conventions. A \<open>string\<close> holds one character per UTF-16 code unit, so the model speaks of
  strings whose code units are below 256. A point in time is the number of milliseconds since
  the epoch (\<open>Date.now()\<close>, \<open>Date#getTime()\<close>); where the sources carry the same instant as
  an ISO string the model carries the number, since the strings are only ever produced by
  \<open>toISOString\<close> and read back by \<open>new Date\<close>. The clock, random numbers and fresh UUIDs are
  arguments of the operation that reads them.
\<close>

named_theorems jsmap_simps \<open>lookup laws of ECMAScript maps\<close>
named_theorems guard_defs \<open>unfoldings of request guards\<close>
named_theorems invar_intros \<open>preservation of component invariants\<close>

type_synonym time = int

section \<open>Errors as values\<close>

text \<open>A call that may throw is a sum: \<open>Inl\<close> the thrown error, \<open>Inr\<close> the returned value.\<close>

definition is_ok :: "'e + 'a \<Rightarrow> bool" where
  "is_ok r = (case r of Inl _ \<Rightarrow> False | Inr _ \<Rightarrow> True)"

lemma is_ok_simps [simp]: "\<not> is_ok (Inl e)" "is_ok (Inr v)"
  by (simp_all add: is_ok_def)

lemma is_ok_obtain: "is_ok r \<Longrightarrow> \<exists>v. r = Inr v"
  by (cases r) simp_all

text \<open>\<open>a ?? b\<close>: the left operand unless it is absent.\<close>

definition coalesce :: "'a option \<Rightarrow> 'a \<Rightarrow> 'a" where
  "coalesce a b = (case a of None \<Rightarrow> b | Some x \<Rightarrow> x)"

lemma coalesce_simps [simp]: "coalesce None b = b" "coalesce (Some x) b = x"
  by (simp_all add: coalesce_def)

section \<open>Characters and strings\<close>

definition char_code :: "char \<Rightarrow> nat" where
  "char_code c = of_char c"

definition is_digit_char :: "char \<Rightarrow> bool" where
  "is_digit_char c = (48 \<le> char_code c \<and> char_code c \<le> 57)"

definition is_upper_char :: "char \<Rightarrow> bool" where
  "is_upper_char c = (65 \<le> char_code c \<and> char_code c \<le> 90)"

definition is_lower_char :: "char \<Rightarrow> bool" where
  "is_lower_char c = (97 \<le> char_code c \<and> char_code c \<le> 122)"

definition is_hex_char :: "char \<Rightarrow> bool" where
  "is_hex_char c = (is_digit_char c \<or> (65 \<le> char_code c \<and> char_code c \<le> 70)
     \<or> (97 \<le> char_code c \<and> char_code c \<le> 102))"

definition is_alnum_char :: "char \<Rightarrow> bool" where
  "is_alnum_char c = (is_digit_char c \<or> is_upper_char c \<or> is_lower_char c)"

text \<open>The alphabet of StrKey texts, \<open>[A-Z2-7]\<close>.\<close>

definition is_base32_char :: "char \<Rightarrow> bool" where
  "is_base32_char c = (is_upper_char c \<or> (50 \<le> char_code c \<and> char_code c \<le> 55))"

text \<open>ECMAScript white space and line terminators among the first 256 code units.\<close>

definition is_js_space :: "char \<Rightarrow> bool" where
  "is_js_space c = (char_code c \<in> {9, 10, 11, 12, 13, 32, 160})"

definition js_trim :: "string \<Rightarrow> string" where
  "js_trim s = rev (dropWhile is_js_space (rev (dropWhile is_js_space s)))"

text \<open>\<open>toLowerCase\<close> on the same range: ASCII and Latin-1 capitals move up by 32.\<close>

definition lower_char :: "char \<Rightarrow> char" where
  "lower_char c =
     (let n = char_code c in
      if (65 \<le> n \<and> n \<le> 90) \<or> (192 \<le> n \<and> n \<le> 222 \<and> n \<noteq> 215)
      then char_of (n + 32) else c)"

definition js_lower :: "string \<Rightarrow> string" where
  "js_lower s = map lower_char s"

definition js_starts_with :: "string \<Rightarrow> string \<Rightarrow> bool" where
  "js_starts_with p s = (take (length p) s = p)"

text \<open>\<open>s.includes(needle)\<close>.\<close>

fun js_includes :: "string \<Rightarrow> string \<Rightarrow> bool" where
  "js_includes needle [] = (needle = [])"
| "js_includes needle (c # cs) =
     (js_starts_with needle (c # cs) \<or> js_includes needle cs)"

lemma js_starts_with_append: "js_starts_with p s \<longleftrightarrow> (\<exists>t. s = p @ t)"
  by (metis append_eq_conv_conj append_take_drop_id js_starts_with_def)

lemma js_includes_iff: "js_includes needle s \<longleftrightarrow> (\<exists>a b. s = a @ needle @ b)"
proof (induction s)
  case Nil
  then show ?case by auto
next
  case (Cons c cs)
  have "(\<exists>a b. c # cs = a @ needle @ b) \<longleftrightarrow>
      (\<exists>b. c # cs = needle @ b) \<or> (\<exists>a b. cs = a @ needle @ b)"
    by (metis append_Cons append_Nil neq_Nil_conv list.sel(3))
  with Cons show ?case by (simp add: js_starts_with_append)
qed

lemma js_trim_Nil [simp]: "js_trim [] = []"
  by (simp add: js_trim_def)

text \<open>Decimal rendering of numbers in template literals.\<close>

definition digit_char :: "nat \<Rightarrow> char" where
  "digit_char d = char_of (48 + d)"

fun show_nat :: "nat \<Rightarrow> string" where
  "show_nat n = (if n < 10 then [digit_char n] else show_nat (n div 10) @ [digit_char (n mod 10)])"

declare show_nat.simps [simp del]

definition show_int :: "int \<Rightarrow> string" where
  "show_int i = (if i < 0 then ''-'' @ show_nat (nat (- i)) else show_nat (nat i))"

section \<open>The ECMAScript Map\<close>

text \<open>
  A \<open>Map\<close> iterates in insertion order; \<open>set\<close> on a present key keeps its place, on an absent
  key appends. That is the association list of \<open>HOL-Library.AList\<close> with distinct keys.
\<close>

type_synonym ('k, 'v) jsmap = "('k \<times> 'v) list"

definition map_get :: "('k, 'v) jsmap \<Rightarrow> 'k \<Rightarrow> 'v option" where
  "map_get m k = map_of m k"

definition map_has :: "('k, 'v) jsmap \<Rightarrow> 'k \<Rightarrow> bool" where
  "map_has m k = (map_of m k \<noteq> None)"

definition map_set :: "'k \<Rightarrow> 'v \<Rightarrow> ('k, 'v) jsmap \<Rightarrow> ('k, 'v) jsmap" where
  "map_set k v m = AList.update k v m"

definition map_delete :: "'k \<Rightarrow> ('k, 'v) jsmap \<Rightarrow> ('k, 'v) jsmap" where
  "map_delete k m = filter (\<lambda>(k', _). k' \<noteq> k) m"

definition map_values :: "('k, 'v) jsmap \<Rightarrow> 'v list" where
  "map_values m = map snd m"

definition map_keys :: "('k, 'v) jsmap \<Rightarrow> 'k list" where
  "map_keys m = map fst m"

definition map_wf :: "('k, 'v) jsmap \<Rightarrow> bool" where
  "map_wf m = distinct (map fst m)"

lemma map_get_Nil [jsmap_simps, simp]: "map_get [] k = None"
  by (simp add: map_get_def)

lemma map_has_get: "map_has m k \<longleftrightarrow> map_get m k \<noteq> None"
  by (simp add: map_has_def map_get_def)

lemma map_get_set [jsmap_simps]: "map_get (map_set k v m) k' = (if k' = k then Some v else map_get m k')"
  by (simp add: map_get_def map_set_def update_conv')

lemma map_get_delete [jsmap_simps]: "map_get (map_delete k m) k' = (if k' = k then None else map_get m k')"
  by (induction m) (auto simp: map_get_def map_delete_def)

lemma map_wf_Nil [simp]: "map_wf []"
  by (simp add: map_wf_def)

lemma map_wf_set [invar_intros]: "map_wf m \<Longrightarrow> map_wf (map_set k v m)"
  by (simp add: map_wf_def map_set_def distinct_update)

lemma map_wf_filter [invar_intros]: "map_wf m \<Longrightarrow> map_wf (filter P m)"
  by (simp add: map_wf_def distinct_map_filter)

lemma map_wf_delete [invar_intros]: "map_wf m \<Longrightarrow> map_wf (map_delete k m)"
  by (simp add: map_delete_def map_wf_filter)

lemma map_get_in: "map_wf m \<Longrightarrow> map_get m k = Some v \<longleftrightarrow> (k, v) \<in> set m"
  by (simp add: map_wf_def map_get_def)

lemma map_get_filter:
  "map_wf m \<Longrightarrow> map_get (filter P m) k =
     (case map_get m k of None \<Rightarrow> None | Some v \<Rightarrow> if P (k, v) then Some v else None)"
proof (induction m)
  case Nil
  then show ?case by simp
next
  case (Cons p m)
  obtain a b where [simp]: "p = (a, b)" by fastforce
  from Cons have wf: "map_wf m" and a: "a \<notin> fst ` set m" by (auto simp: map_wf_def)
  from a have none: "map_of m a = None" by (simp add: map_of_eq_None_iff)
  with a have none': "map_of (filter P m) a = None"
    by (auto simp: map_of_eq_None_iff)
  show ?case using Cons.IH [OF wf] none none' by (auto simp: map_get_def split: option.splits)
qed

lemma map_all_iff:
  "map_wf m \<Longrightarrow> list_all P m \<longleftrightarrow> (\<forall>k v. map_get m k = Some v \<longrightarrow> P (k, v))"
  by (auto simp: list_all_iff map_get_in)

lemma map_values_iff: "map_wf m \<Longrightarrow> v \<in> set (map_values m) \<longleftrightarrow> (\<exists>k. map_get m k = Some v)"
  by (force simp: map_values_def map_get_in)

text \<open>Rewriting every value in place.\<close>

lemma map_keys_mapval: "map fst (map (\<lambda>(k, v). (k, f v)) m) = map fst m"
  by (induction m) auto

lemma map_wf_mapval: "map_wf (map (\<lambda>(k, v). (k, f v)) m) = map_wf m"
  by (simp only: map_wf_def map_keys_mapval)

lemma map_get_mapval: "map_get (map (\<lambda>(k, v). (k, f v)) m) k = map_option f (map_get m k)"
  by (induction m) (auto simp: map_get_def)

text \<open>
  The interface of a keyed store, for the components that only need its lookup behaviour; the
  ordered map above provides it.
\<close>

locale keyed_store =
  fixes lookup :: "'m \<Rightarrow> 'k \<Rightarrow> 'v option"
    and insert :: "'k \<Rightarrow> 'v \<Rightarrow> 'm \<Rightarrow> 'm"
    and remove :: "'k \<Rightarrow> 'm \<Rightarrow> 'm"
    and good :: "'m \<Rightarrow> bool"
  assumes lookup_insert: "good m \<Longrightarrow> lookup (insert k v m) k' = (if k' = k then Some v else lookup m k')"
    and lookup_remove: "good m \<Longrightarrow> lookup (remove k m) k' = (if k' = k then None else lookup m k')"
    and good_insert: "good m \<Longrightarrow> good (insert k v m)"
    and good_remove: "good m \<Longrightarrow> good (remove k m)"
begin

lemma insert_then_lookup: "good m \<Longrightarrow> lookup (insert k v m) k = Some v"
  by (simp add: lookup_insert)

lemma insert_frame: "good m \<Longrightarrow> k' \<noteq> k \<Longrightarrow> lookup (insert k v m) k' = lookup m k'"
  by (simp add: lookup_insert)

lemma remove_absent: "good m \<Longrightarrow> lookup m k = None \<Longrightarrow> lookup (remove k m) = lookup m"
  by (rule ext) (simp add: lookup_remove)

lemma remove_insert: "good m \<Longrightarrow> lookup (remove k (insert k v m)) = lookup (remove k m)"
  by (rule ext) (simp add: lookup_remove lookup_insert good_insert)

end

interpretation jm: keyed_store map_get map_set map_delete map_wf
  by unfold_locales (auto simp: jsmap_simps intro: invar_intros)

end
