(* ===== verification/JsNumber.thy ===== *)
theory JsNumber
  imports Complex_Main Prelude "HOL-Library.Log_Nat"
begin

text \<open>
  The Number type of ECMAScript: IEEE 754 binary64 values, as exact rationals with the three
  special values. A sum of two numbers is the exact sum rounded to nearest, ties to even, with
  overflow to an infinity. Negative zero is not kept apart from zero: the comparisons and the
  renderings the sources use do not distinguish the two. Integer-valued quantities the sources
  guard with \<open>int()\<close> schemas are modelled as \<open>int\<close> elsewhere; this theory serves the amounts,
  which may be fractional.
\<close>

datatype number = Fin rat | PosInf | NegInf | NaN

section \<open>Binary exponents\<close>

definition pow2 :: "int \<Rightarrow> rat" where
  "pow2 e = (if 0 \<le> e then 2 ^ nat e else 1 / 2 ^ nat (- e))"

lemma pow2_pos [simp]: "0 < pow2 e"
  by (simp add: pow2_def)

lemma pow2_nonzero [simp]: "pow2 e \<noteq> 0"
  using pow2_pos [of e] by linarith

lemma pow2_0 [simp]: "pow2 0 = 1"
  by (simp add: pow2_def)

lemma pow2_Suc: "pow2 (e + 1) = 2 * pow2 e"
proof (cases "0 \<le> e")
  case True
  then have "nat (e + 1) = Suc (nat e)" by simp
  with True show ?thesis by (simp add: pow2_def)
next
  case False
  then have "nat (- e) = Suc (nat (- (e + 1)))" by simp
  with False show ?thesis by (cases "e = -1") (auto simp: pow2_def field_simps)
qed

lemma pow2_add_nat: "pow2 (e + int n) = pow2 e * 2 ^ n"
proof (induction n)
  case 0
  then show ?case by simp
next
  case (Suc n)
  have "pow2 (e + int (Suc n)) = pow2 ((e + int n) + 1)" by (simp add: algebra_simps)
  also have "\<dots> = 2 * (pow2 e * 2 ^ n)" by (simp only: pow2_Suc Suc)
  finally show ?case by (simp add: algebra_simps)
qed

lemma pow2_mono: "a \<le> b \<Longrightarrow> pow2 a \<le> pow2 b"
proof -
  assume "a \<le> b"
  then have "pow2 b = pow2 a * 2 ^ nat (b - a)" using pow2_add_nat [of a "nat (b - a)"] by simp
  moreover have "pow2 a * 1 \<le> pow2 a * 2 ^ nat (b - a)"
    by (rule mult_left_mono) (simp_all add: less_imp_le)
  ultimately show ?thesis by simp
qed

lemma pow2_less_iff: "pow2 a < pow2 b \<longleftrightarrow> a < b"
proof
  show "pow2 a < pow2 b \<Longrightarrow> a < b" using pow2_mono [of b a] by linarith
  assume "a < b"
  then have "pow2 (a + 1) \<le> pow2 b" by (intro pow2_mono) simp
  then show "pow2 a < pow2 b" using pow2_Suc [of a] pow2_pos [of a] by linarith
qed

lemma pow2_diff: "pow2 (a - b) = pow2 a / pow2 b"
proof (cases "b \<le> a")
  case True
  then have "pow2 a = pow2 b * 2 ^ nat (a - b)" using pow2_add_nat [of b "nat (a - b)"] by simp
  with True show ?thesis by (simp add: pow2_def)
next
  case False
  then have "pow2 b = pow2 a * 2 ^ nat (b - a)" using pow2_add_nat [of a "nat (b - a)"] by simp
  with False show ?thesis by (simp add: pow2_def)
qed

lemma pow2_of_nat: "pow2 (int n) = 2 ^ n"
  by (simp add: pow2_def)

text \<open>The binary exponent of a positive rational: \<open>2^e \<le> x < 2^(e+1)\<close>.\<close>

definition ilog2 :: "rat \<Rightarrow> int" where
  "ilog2 x = (case quotient_of x of (p, q) \<Rightarrow>
     let e = int (floorlog 2 (nat p)) - int (floorlog 2 (nat q))
     in if pow2 e \<le> x then e else e - 1)"

lemma ilog2_bounds:
  assumes "0 < x"
  shows "pow2 (ilog2 x) \<le> x" and "x < pow2 (ilog2 x + 1)"
proof -
  obtain p q where pq: "quotient_of x = (p, q)" by fastforce
  then have q0: "0 < q" by (rule quotient_of_denom_pos)
  have x: "x = of_int p / of_int q" using quotient_of_div [OF pq] .
  with assms q0 have p0: "0 < p" by (simp add: zero_less_divide_iff)
  define a b where "a = nat p" and "b = nat q"
  have ab: "0 < a" "0 < b" using p0 q0 by (simp_all add: a_def b_def)
  have x': "x = of_nat a / of_nat b" using x p0 q0 by (simp add: a_def b_def)
  define la lb where "la = floorlog 2 a" and "lb = floorlog 2 b"
  have A: "2 ^ (la - 1) \<le> a" "a < 2 ^ la" using floorlog_bounds [of a 2] ab by (simp_all add: la_def)
  have B: "2 ^ (lb - 1) \<le> b" "b < 2 ^ lb" using floorlog_bounds [of b 2] ab by (simp_all add: lb_def)
  have l1: "1 \<le> la" "1 \<le> lb" using A(2) B(2) ab by (cases la; cases lb; simp)+
  have "(of_nat (2 ^ (la - 1)) :: rat) \<le> of_nat a" "(of_nat a :: rat) < of_nat (2 ^ la)"
       "(of_nat (2 ^ (lb - 1)) :: rat) \<le> of_nat b" "(of_nat b :: rat) < of_nat (2 ^ lb)"
    using A B by (simp_all only: of_nat_le_iff of_nat_less_iff)
  then have A': "pow2 (int la - 1) \<le> of_nat a" "of_nat a < pow2 (int la)"
    and B': "pow2 (int lb - 1) \<le> of_nat b" "of_nat b < pow2 (int lb)"
    using l1 by (simp_all add: pow2_def nat_diff_distrib')
  have b0: "(0::rat) < of_nat b" using ab by simp
  define e where "e = int la - int lb"
  have up: "x < pow2 (e + 1)"
  proof -
    have "x < pow2 (int la) / of_nat b" using A'(2) b0 x' by (simp add: divide_strict_right_mono)
    also have "\<dots> \<le> pow2 (int la) / pow2 (int lb - 1)"
      using B'(1) by (intro divide_left_mono mult_pos_pos b0 pow2_pos) (simp_all add: less_imp_le)
    also have "\<dots> = pow2 (e + 1)" by (simp add: e_def pow2_diff [symmetric] algebra_simps)
    finally show ?thesis .
  qed
  have lo: "pow2 (e - 1) \<le> x"
  proof -
    have "pow2 (e - 1) = pow2 (int la - 1) / pow2 (int lb)"
      by (simp add: e_def pow2_diff [symmetric] algebra_simps)
    also have "\<dots> \<le> pow2 (int la - 1) / of_nat b"
      using B'(2) by (intro divide_left_mono mult_pos_pos b0 pow2_pos) (simp_all add: less_imp_le)
    also have "\<dots> \<le> x" using A'(1) b0 x' by (simp add: divide_right_mono less_imp_le)
    finally show ?thesis .
  qed
  have il: "ilog2 x = (if pow2 e \<le> x then e else e - 1)"
    by (simp add: ilog2_def pq e_def la_def lb_def a_def b_def Let_def)
  show "pow2 (ilog2 x) \<le> x" using il lo by simp
  show "x < pow2 (ilog2 x + 1)" using il up by (simp split: if_splits)
qed

lemma ilog2_mono: "0 < x \<Longrightarrow> x \<le> y \<Longrightarrow> ilog2 x \<le> ilog2 y"
proof -
  assume "0 < x" "x \<le> y"
  then have "pow2 (ilog2 x) < pow2 (ilog2 y + 1)"
    using ilog2_bounds [of x] ilog2_bounds [of y] by linarith
  then show ?thesis by (simp add: pow2_less_iff)
qed

section \<open>Rounding to nearest, ties to even\<close>

definition round_even :: "rat \<Rightarrow> int" where
  "round_even q = (let f = \<lfloor>q\<rfloor>; d = q - of_int f in
     if d < 1/2 then f else if 1/2 < d then f + 1 else if even f then f else f + 1)"

lemma round_even_int [simp]: "round_even (of_int n) = n"
  by (simp add: round_even_def)

lemma round_even_floor: "round_even q \<in> {\<lfloor>q\<rfloor>, \<lfloor>q\<rfloor> + 1}"
  by (simp add: round_even_def Let_def)

lemma round_even_mono: "x \<le> y \<Longrightarrow> round_even x \<le> round_even y"
proof (cases "\<lfloor>x\<rfloor> = \<lfloor>y\<rfloor>")
  case True
  assume "x \<le> y"
  with True show ?thesis by (auto simp: round_even_def Let_def)
next
  case False
  assume "x \<le> y"
  with False have "\<lfloor>x\<rfloor> + 1 \<le> \<lfloor>y\<rfloor>" using floor_mono [of x y] by linarith
  then show ?thesis using round_even_floor [of x] round_even_floor [of y] by auto
qed

text \<open>The spacing of binary64 values around \<open>x\<close>: 52 fraction bits, subnormals at \<open>2^-1074\<close>.\<close>

definition ulp_exp :: "rat \<Rightarrow> int" where
  "ulp_exp x = max (ilog2 x - 52) (- 1074)"

definition round_mag :: "rat \<Rightarrow> rat" where
  "round_mag x = (if x = 0 then 0
     else of_int (round_even (x / pow2 (ulp_exp x))) * pow2 (ulp_exp x))"

definition f64 :: "rat \<Rightarrow> number" where
  "f64 x = (let r = round_mag \<bar>x\<bar> in
     if r \<ge> pow2 1024 then (if x < 0 then NegInf else PosInf)
     else Fin (if x < 0 then - r else r))"

lemma round_mag_0 [simp]: "round_mag 0 = 0"
  by (simp add: round_mag_def)

lemma round_even_nonneg: "0 \<le> q \<Longrightarrow> 0 \<le> round_even q"
  using round_even_mono [of 0 q] round_even_int [of 0] by simp

lemma round_mag_nonneg: "0 \<le> x \<Longrightarrow> 0 \<le> round_mag x"
  by (simp add: round_mag_def round_even_nonneg mult_nonneg_nonneg less_imp_le [OF pow2_pos])

lemma pow2_quot: "pow2 (e + int n) / pow2 e = 2 ^ n"
  by (simp add: pow2_add_nat)

text \<open>Within one binade rounding is monotone; a binade's bounds are fixed points.\<close>

lemma round_mag_le_next:
  assumes "0 < x" shows "round_mag x \<le> pow2 (ulp_exp x + 53) \<and> (ulp_exp x = ilog2 x - 52 \<longrightarrow> pow2 (ilog2 x) \<le> round_mag x)"
proof
  let ?u = "ulp_exp x"
  have "x < pow2 (ilog2 x + 1)" using ilog2_bounds(2) [OF assms] .
  also have "\<dots> \<le> pow2 (?u + 53)" by (intro pow2_mono) (simp add: ulp_exp_def)
  finally have "x / pow2 ?u \<le> pow2 (?u + 53) / pow2 ?u" by (simp add: divide_right_mono less_imp_le)
  also have "\<dots> = of_int (2 ^ 53)" using pow2_quot [of ?u 53] by simp
  finally have "round_even (x / pow2 ?u) \<le> 2 ^ 53"
    using round_even_mono round_even_int by metis
  then have "(of_int (round_even (x / pow2 ?u)) :: rat) \<le> of_int (2 ^ 53)" by (simp only: of_int_le_iff)
  then have "of_int (round_even (x / pow2 ?u)) * pow2 ?u \<le> 2 ^ 53 * pow2 ?u"
    by (simp add: mult_right_mono less_imp_le)
  also have "\<dots> = pow2 (?u + 53)" using pow2_add_nat [of ?u 53] by (simp add: mult.commute)
  finally show "round_mag x \<le> pow2 (?u + 53)" using assms by (simp add: round_mag_def)
  show "?u = ilog2 x - 52 \<longrightarrow> pow2 (ilog2 x) \<le> round_mag x"
  proof
    assume u: "?u = ilog2 x - 52"
    have "of_int (2 ^ 52) = pow2 (ilog2 x) / pow2 ?u"
      using pow2_quot [of "ilog2 x - 52" 52] u by simp
    also have "\<dots> \<le> x / pow2 ?u"
      using ilog2_bounds(1) [OF assms] by (simp add: divide_right_mono less_imp_le)
    finally have "2 ^ 52 \<le> round_even (x / pow2 ?u)"
      using round_even_mono round_even_int by metis
    then have "(of_int (2 ^ 52) :: rat) \<le> of_int (round_even (x / pow2 ?u))" by (simp only: of_int_le_iff)
    then have "2 ^ 52 * pow2 ?u \<le> of_int (round_even (x / pow2 ?u)) * pow2 ?u"
      by (simp add: mult_right_mono less_imp_le)
    moreover have "pow2 (ilog2 x) = 2 ^ 52 * pow2 ?u"
      using pow2_add_nat [of ?u 52] u by (simp add: mult.commute)
    ultimately show "pow2 (ilog2 x) \<le> round_mag x" using assms by (simp add: round_mag_def)
  qed
qed

lemma round_mag_mono:
  assumes "0 \<le> x" "x \<le> y" shows "round_mag x \<le> round_mag y"
proof (cases "x = 0")
  case True
  with assms show ?thesis by (simp add: round_mag_nonneg)
next
  case False
  with assms have x: "0 < x" and y: "0 < y" by linarith+
  have ule: "ulp_exp x \<le> ulp_exp y" using ilog2_mono [OF x assms(2)] by (simp add: ulp_exp_def)
  show ?thesis
  proof (cases "ulp_exp x = ulp_exp y")
    case True
    have "round_even (x / pow2 (ulp_exp y)) \<le> round_even (y / pow2 (ulp_exp y))"
      using assms(2) by (intro round_even_mono divide_right_mono) (simp_all add: less_imp_le)
    with True x y show ?thesis by (simp add: round_mag_def mult_right_mono less_imp_le)
  next
    case False
    with ule have lt: "ulp_exp x < ulp_exp y" by simp
    then have uy: "ulp_exp y = ilog2 y - 52" by (simp add: ulp_exp_def max_def split: if_splits)
    have "round_mag x \<le> pow2 (ulp_exp x + 53)" using round_mag_le_next [OF x] by simp
    also have "\<dots> \<le> pow2 (ilog2 y)" using lt uy by (intro pow2_mono) simp
    also have "\<dots> \<le> round_mag y" using round_mag_le_next [OF y] uy by simp
    finally show ?thesis .
  qed
qed

text \<open>Integers of magnitude below \<open>2^53\<close> are represented exactly.\<close>

lemma round_mag_int:
  assumes "0 \<le> n" "n < 2 ^ 53" shows "round_mag (of_int n) = of_int n"
proof (cases "n = 0")
  case True
  then show ?thesis by simp
next
  case False
  with assms have n: "(0::rat) < of_int n" by simp
  have "(of_int n :: rat) < of_int (2 ^ 53)" using assms(2) by (simp only: of_int_less_iff)
  then have "pow2 (ilog2 (of_int n)) < pow2 53"
    using ilog2_bounds(1) [OF n] by (simp add: pow2_def)
  then have u: "ulp_exp (of_int n) \<le> 0" by (simp add: pow2_less_iff ulp_exp_def)
  define k where "k = nat (- ulp_exp (of_int n))"
  have "(of_int n :: rat) / pow2 (ulp_exp (of_int n)) = of_int (n * 2 ^ k)"
    using u by (simp add: pow2_def k_def)
  then have "round_mag (of_int n) = of_int (n * 2 ^ k) * pow2 (ulp_exp (of_int n))"
    using n by (simp only: round_mag_def round_even_int) simp
  also have "\<dots> = of_int n" using u by (simp add: pow2_def k_def)
  finally show ?thesis .
qed

lemma round_mag_le_int:
  assumes "0 \<le> x" "x \<le> of_int n" "n < 2 ^ 53" shows "round_mag x \<le> of_int n"
proof -
  have "0 \<le> (of_int n :: rat)" using assms(1,2) by (rule order_trans)
  then have "0 \<le> n" by simp
  then have "round_mag (of_int n) = of_int n" using assms(3) by (rule round_mag_int)
  with round_mag_mono [OF assms(1,2)] show ?thesis by simp
qed

lemma f64_bounded:
  assumes "\<bar>x\<bar> \<le> of_int n" "n < 2 ^ 53" shows "\<exists>y. f64 x = Fin y \<and> \<bar>y\<bar> \<le> of_int n \<and> (0 \<le> x \<longrightarrow> 0 \<le> y)"
proof -
  let ?r = "round_mag \<bar>x\<bar>"
  have r: "0 \<le> ?r" "?r \<le> of_int n" using assms by (simp_all add: round_mag_nonneg round_mag_le_int)
  have "(of_int n :: rat) < of_int (2 ^ 53)" using assms(2) by (simp only: of_int_less_iff)
  also have "(of_int (2 ^ 53) :: rat) = pow2 53" by (simp add: pow2_def)
  also have "\<dots> \<le> pow2 1024" by (intro pow2_mono) simp
  finally have "\<not> pow2 1024 \<le> ?r" using r by simp
  then have "f64 x = Fin (if x < 0 then - ?r else ?r)" by (simp add: f64_def Let_def)
  with r show ?thesis by auto
qed

section \<open>Arithmetic and comparison\<close>

fun num_add :: "number \<Rightarrow> number \<Rightarrow> number" where
  "num_add (Fin x) (Fin y) = f64 (x + y)"
| "num_add NaN _ = NaN"
| "num_add _ NaN = NaN"
| "num_add PosInf NegInf = NaN"
| "num_add NegInf PosInf = NaN"
| "num_add PosInf _ = PosInf"
| "num_add _ PosInf = PosInf"
| "num_add NegInf _ = NegInf"
| "num_add _ NegInf = NegInf"

text \<open>\<open><\<close> is false as soon as one side is NaN; \<open>>\<close> and \<open><=\<close> are given by it.\<close>

fun num_less :: "number \<Rightarrow> number \<Rightarrow> bool" where
  "num_less (Fin x) (Fin y) = (x < y)"
| "num_less NegInf (Fin _) = True"
| "num_less NegInf PosInf = True"
| "num_less (Fin _) PosInf = True"
| "num_less _ _ = False"

definition num_leq :: "number \<Rightarrow> number \<Rightarrow> bool" where
  "num_leq a b = (num_less a b \<or> (a = b \<and> a \<noteq> NaN))"

fun num_is_finite :: "number \<Rightarrow> bool" where
  "num_is_finite (Fin _) = True"
| "num_is_finite _ = False"

lemma num_is_finite_iff: "num_is_finite a \<longleftrightarrow> (\<exists>x. a = Fin x)"
  by (cases a) simp_all

lemma f64_int: "\<bar>n\<bar> < 2 ^ 53 \<Longrightarrow> f64 (of_int n) = Fin (of_int n)"
proof -
  assume n: "\<bar>n\<bar> < 2 ^ 53"
  have r: "round_mag \<bar>of_int n\<bar> = of_int \<bar>n\<bar>"
    using round_mag_int [of "\<bar>n\<bar>"] n by simp
  have "(of_int \<bar>n\<bar> :: rat) < of_int (2 ^ 53)" using n by (simp only: of_int_less_iff)
  also have "(of_int (2 ^ 53) :: rat) = pow2 53" by (simp add: pow2_def)
  also have "\<dots> \<le> pow2 1024" by (intro pow2_mono) simp
  finally have "\<not> pow2 1024 \<le> (of_int \<bar>n\<bar> :: rat)" by simp
  with r show ?thesis by (simp add: f64_def Let_def)
qed

lemma num_add_safe_int:
  "\<bar>a + b\<bar> < 2 ^ 53 \<Longrightarrow> num_add (Fin (of_int a)) (Fin (of_int b)) = Fin (of_int (a + b))"
  using f64_int [of "a + b"] by simp

text \<open>Addition of a non-negative left operand is monotone in a non-negative right operand.\<close>

lemma num_add_mono_right:
  assumes "0 \<le> t" "0 \<le> b" "b \<le> a"
  shows "num_leq (num_add (Fin t) (Fin b)) (num_add (Fin t) (Fin a))"
proof -
  have m: "round_mag (t + b) \<le> round_mag (t + a)"
    using assms by (intro round_mag_mono) simp_all
  have "\<not> t + b < 0" "\<not> t + a < 0" "\<bar>t + b\<bar> = t + b" "\<bar>t + a\<bar> = t + a"
    using assms by linarith+
  with m show ?thesis by (auto simp: f64_def Let_def num_leq_def)
qed

lemma num_less_leq_trans: "num_leq a b \<Longrightarrow> num_less l a \<Longrightarrow> num_less l b"
  by (cases a; cases b; cases l) (auto simp: num_leq_def)

section \<open>Products, extrema, rounding\<close>

fun num_mul :: "number \<Rightarrow> number \<Rightarrow> number" where
  "num_mul (Fin x) (Fin y) = f64 (x * y)"
| "num_mul NaN _ = NaN"
| "num_mul _ NaN = NaN"
| "num_mul (Fin x) i = (if x = 0 then NaN else if (x < 0) = (i = PosInf) then NegInf else PosInf)"
| "num_mul i (Fin y) = (if y = 0 then NaN else if (y < 0) = (i = PosInf) then NegInf else PosInf)"
| "num_mul PosInf PosInf = PosInf"
| "num_mul NegInf NegInf = PosInf"
| "num_mul PosInf NegInf = NegInf"
| "num_mul NegInf PosInf = NegInf"

definition num_min :: "number \<Rightarrow> number \<Rightarrow> number" where
  "num_min a b = (if a = NaN \<or> b = NaN then NaN else if num_less b a then b else a)"

definition num_max :: "number \<Rightarrow> number \<Rightarrow> number" where
  "num_max a b = (if a = NaN \<or> b = NaN then NaN else if num_less a b then b else a)"

text \<open>\<open>Math.round\<close>: to the nearest integer, halves up.\<close>

fun math_round :: "number \<Rightarrow> number" where
  "math_round (Fin x) = Fin (of_int \<lfloor>x + 1 / 2\<rfloor>)"
| "math_round n = n"

definition whole :: "int \<Rightarrow> number" where
  "whole n = Fin (of_int n)"

fun num_neg :: "number \<Rightarrow> number" where
  "num_neg (Fin x) = Fin (- x)"
| "num_neg PosInf = NegInf"
| "num_neg NegInf = PosInf"
| "num_neg NaN = NaN"

definition num_abs :: "number \<Rightarrow> number" where
  "num_abs a = (if num_less a (whole 0) then num_neg a else a)"

text \<open>Division; a zero divisor counts as a positive one.\<close>

fun num_div :: "number \<Rightarrow> number \<Rightarrow> number" where
  "num_div (Fin x) (Fin y) =
     (if y = 0 then (if x = 0 then NaN else if 0 < x then PosInf else NegInf) else f64 (x / y))"
| "num_div PosInf (Fin y) = (if y < 0 then NegInf else PosInf)"
| "num_div NegInf (Fin y) = (if y < 0 then PosInf else NegInf)"
| "num_div (Fin _) PosInf = Fin 0"
| "num_div (Fin _) NegInf = Fin 0"
| "num_div _ _ = NaN"

lemma num_mul_commute: "num_mul (Fin x) y = num_mul y (Fin x)"
  by (cases y) (simp_all add: mult.commute)

end
