(* ===== verification/RelayErrors.thy ===== *)
theory RelayErrors
  imports Prelude
begin

text \<open>
  The error vocabulary of the relayer: the stable codes of \<open>types/errorCodes.ts\<close>, the error
  classes of \<open>packages/stellar/src/errors.ts\<close> as one datatype of thrown values, the two
  classifiers \<open>services/mapSimulationError.ts\<close> and \<open>services/mapSubmissionError.ts\<close>, and the
  sanitiser \<open>utils/errorSanitizer.ts\<close> that keeps SQL text out of client envelopes. The lemmas
  give the codes each classifier can produce, the precedence between the two, and that the
  sanitiser's output matches none of its patterns.
\<close>

section \<open>Codes\<close>

datatype relay_code =
    INVALID_SIGNATURE | SESSION_KEY_EXPIRED | NONCE_REPLAY | GAS_LIMIT_EXCEEDED
  | SIMULATION_FAILED | POLICY_DENIED | RPC_DOWN | UNAUTHORIZED | INTERNAL_ERROR
  | TRANSFER_LIMIT_EXCEEDED

fun code_name :: "relay_code \<Rightarrow> string" where
  "code_name INVALID_SIGNATURE = ''INVALID_SIGNATURE''"
| "code_name SESSION_KEY_EXPIRED = ''SESSION_KEY_EXPIRED''"
| "code_name NONCE_REPLAY = ''NONCE_REPLAY''"
| "code_name GAS_LIMIT_EXCEEDED = ''GAS_LIMIT_EXCEEDED''"
| "code_name SIMULATION_FAILED = ''SIMULATION_FAILED''"
| "code_name POLICY_DENIED = ''POLICY_DENIED''"
| "code_name RPC_DOWN = ''RPC_DOWN''"
| "code_name UNAUTHORIZED = ''UNAUTHORIZED''"
| "code_name INTERNAL_ERROR = ''INTERNAL_ERROR''"
| "code_name TRANSFER_LIMIT_EXCEEDED = ''TRANSFER_LIMIT_EXCEEDED''"

definition RELAY_ERROR_CODES :: "relay_code list" where
  "RELAY_ERROR_CODES = [INVALID_SIGNATURE, SESSION_KEY_EXPIRED, NONCE_REPLAY, GAS_LIMIT_EXCEEDED,
     SIMULATION_FAILED, POLICY_DENIED, RPC_DOWN, UNAUTHORIZED, INTERNAL_ERROR,
     TRANSFER_LIMIT_EXCEEDED]"

definition isRelayErrorCode :: "string \<Rightarrow> bool" where
  "isRelayErrorCode s = (s \<in> set (map code_name RELAY_ERROR_CODES))"

record relay_error =
  err_code :: relay_code
  err_message :: string

definition relay_err :: "relay_code \<Rightarrow> string \<Rightarrow> relay_error" where
  "relay_err c m = \<lparr>err_code = c, err_message = m\<rparr>"

lemma relay_err_simps [simp]: "err_code (relay_err c m) = c" "err_message (relay_err c m) = m"
  by (simp_all add: relay_err_def)

section \<open>Thrown values\<close>

text \<open>
  What a \<open>catch\<close> may receive. The classes of the stellar package keep the fields the classifiers
  read; \<open>JsError\<close> is any other instance of \<open>Error\<close> (name, message, \<open>code\<close> property);
  \<open>ThrownObject\<close> a non-error object with a string \<open>message\<close> and \<open>ThrownOther\<close> anything else,
  both with their \<open>String()\<close> rendering.
\<close>

datatype thrown =
    SimulationFailedError string
  | TransactionError string "string option" "string option" "string list option" "int option"
  | NetworkError string "int option" "bool option"
  | AccountNotFoundError string
  | RetryExhaustedError nat
  | JsError string string "string option"
  | ThrownString string
  | ThrownObject string string
  | ThrownOther string

text \<open>\<open>error instanceof Error ? error.message\<close>, absent when the value is no error.\<close>

fun errorMessage :: "thrown \<Rightarrow> string option" where
  "errorMessage (SimulationFailedError m) = Some m"
| "errorMessage (TransactionError m _ _ _ _) = Some m"
| "errorMessage (NetworkError m _ _) = Some m"
| "errorMessage (AccountNotFoundError k) = Some (''Account not found: '' @ k)"
| "errorMessage (RetryExhaustedError n) = Some (''Retry exhausted after '' @ show_nat n @ '' attempts'')"
| "errorMessage (JsError _ m _) = Some m"
| "errorMessage _ = None"

text \<open>\<open>extractMessage\<close>: also strings and objects with a string \<open>message\<close>.\<close>

fun extractMessage :: "thrown \<Rightarrow> string option" where
  "extractMessage (ThrownString s) = Some s"
| "extractMessage (ThrownObject m _) = Some m"
| "extractMessage e = errorMessage e"

text \<open>\<open>err instanceof Error ? err.message : String(err)\<close>.\<close>

definition thrown_text :: "thrown \<Rightarrow> string" where
  "thrown_text e = (case e of
       ThrownString s \<Rightarrow> s | ThrownObject _ s \<Rightarrow> s | ThrownOther s \<Rightarrow> s
     | _ \<Rightarrow> coalesce (errorMessage e) [])"

section \<open>Classifiers\<close>

definition gas_haystack :: "string \<Rightarrow> bool" where
  "gas_haystack h = (js_includes ''resource'' h \<or> js_includes ''budget exceeded'' h
     \<or> js_includes ''out of gas'' h)"

definition sim_haystack :: "string \<Rightarrow> bool" where
  "sim_haystack h = (js_includes ''simulation'' h \<or> js_includes ''simulate'' h
     \<or> js_includes ''host_function_failed'' h \<or> js_includes ''invokehostfunction'' h
     \<or> js_includes ''insufficient balance'' h)"

definition mapSimulationError :: "thrown \<Rightarrow> relay_error option" where
  "mapSimulationError e = (case extractMessage e of
       None \<Rightarrow> None
     | Some m \<Rightarrow>
         if m = [] then None
         else let haystack = js_lower m in
           if gas_haystack haystack then Some (relay_err GAS_LIMIT_EXCEEDED m)
           else if sim_haystack haystack then Some (relay_err SIMULATION_FAILED m)
           else None)"

definition submission_code :: "string \<Rightarrow> relay_code" where
  "submission_code code =
     (if js_includes ''fee'' code \<or> js_includes ''resource'' code \<or> js_includes ''insufficient'' code
         \<or> code = ''tx_insufficient_fee'' then GAS_LIMIT_EXCEEDED
      else if js_includes ''failed'' code \<or> js_includes ''bad'' code \<or> js_includes ''malformed'' code
         \<or> js_includes ''invalid'' code then SIMULATION_FAILED
      else INTERNAL_ERROR)"

fun mapSubmissionError :: "thrown \<Rightarrow> relay_error" where
  "mapSubmissionError (SimulationFailedError m) = relay_err SIMULATION_FAILED m"
| "mapSubmissionError (TransactionError m rc _ _ _) =
     relay_err (submission_code (coalesce (map_option js_lower rc) [])) m"
| "mapSubmissionError (NetworkError m _ _) = relay_err RPC_DOWN m"
| "mapSubmissionError e =
     relay_err INTERNAL_ERROR (coalesce (errorMessage e) ''Transaction submission failed'')"

text \<open>The composition of the service's \<open>catch\<close> block.\<close>

definition classify_failure :: "thrown \<Rightarrow> relay_error" where
  "classify_failure e = coalesce (mapSimulationError e) (mapSubmissionError e)"

section \<open>Horizon payloads and the canonical shape\<close>

text \<open>
  The parts of a Horizon error response the constructor reads; a missing enclosing object is the
  absence of all fields in it. An operation result code that is not a string is \<open>None\<close>;
  \<open>hz_ops\<close> is absent when \<open>operations\<close> is no array.
\<close>

record horizon_payload =
  hz_status :: "int option"
  hz_message :: "string option"
  hz_transaction :: "string option"
  hz_ops :: "string option list option"
  hz_extras_xdr :: "string option"
  hz_data_xdr :: "string option"

definition truthy_str :: "string option \<Rightarrow> bool" where
  "truthy_str s = (case s of None \<Rightarrow> False | Some t \<Rightarrow> t \<noteq> [])"

definition fromHorizonError :: "horizon_payload option \<Rightarrow> thrown option" where
  "fromHorizonError err = (case err of None \<Rightarrow> None | Some p \<Rightarrow>
     let resultCode = hz_transaction p;
         opCodes = map_option (List.map_filter id) (hz_ops p);
         resultXdr = (case hz_extras_xdr p of None \<Rightarrow> hz_data_xdr p | Some x \<Rightarrow> Some x)
     in if \<not> truthy_str resultCode \<and> coalesce opCodes [] = [] \<and> \<not> truthy_str resultXdr then None
        else Some (TransactionError (coalesce (hz_message p) ''Transaction submission failed'')
               resultCode resultXdr opCodes (hz_status p)))"

record canonical_error =
  ce_code :: string
  ce_message :: string
  ce_name :: "string option"
  ce_xdr :: "string option"

fun toCanonicalError :: "thrown \<Rightarrow> canonical_error" where
  "toCanonicalError (SimulationFailedError m) =
     \<lparr>ce_code = ''SimulationFailedError'', ce_message = m, ce_name = Some ''SimulationFailedError'', ce_xdr = None\<rparr>"
| "toCanonicalError (TransactionError m rc xdr _ _) =
     \<lparr>ce_code = coalesce rc ''TransactionError'', ce_message = m, ce_name = Some ''TransactionError'', ce_xdr = xdr\<rparr>"
| "toCanonicalError (NetworkError m _ _) =
     \<lparr>ce_code = ''NetworkError'', ce_message = m, ce_name = Some ''NetworkError'', ce_xdr = None\<rparr>"
| "toCanonicalError (AccountNotFoundError k) =
     \<lparr>ce_code = ''AccountNotFoundError'', ce_message = ''Account not found: '' @ k,
      ce_name = Some ''AccountNotFoundError'', ce_xdr = None\<rparr>"
| "toCanonicalError (RetryExhaustedError n) =
     \<lparr>ce_code = ''RetryExhaustedError'', ce_message = ''Retry exhausted after '' @ show_nat n @ '' attempts'',
      ce_name = Some ''RetryExhaustedError'', ce_xdr = None\<rparr>"
| "toCanonicalError (JsError name m code) =
     \<lparr>ce_code = coalesce code ''STELLAR_ERROR'', ce_message = m, ce_name = Some name, ce_xdr = None\<rparr>"
| "toCanonicalError (ThrownString s) =
     \<lparr>ce_code = ''STELLAR_ERROR'', ce_message = s, ce_name = None, ce_xdr = None\<rparr>"
| "toCanonicalError (ThrownObject _ s) =
     \<lparr>ce_code = ''STELLAR_ERROR'', ce_message = s, ce_name = None, ce_xdr = None\<rparr>"
| "toCanonicalError (ThrownOther s) =
     \<lparr>ce_code = ''STELLAR_ERROR'', ce_message = s, ce_name = None, ce_xdr = None\<rparr>"

section \<open>The sanitiser\<close>

text \<open>
  The three regular expressions are searched case-insensitively. For
  \<open>/word\s+\S[\s\S]*\sdoes not exist/\<close>: after an occurrence of the word, one or more white space
  characters, one other character, and then, anywhere behind it, a white space character
  followed by the fixed text.
\<close>

definition INTERNAL_STORAGE_ERROR :: string where
  "INTERNAL_STORAGE_ERROR = ''Internal storage error''"

fun space_then :: "string \<Rightarrow> string \<Rightarrow> bool" where
  "space_then p [] = False"
| "space_then p (c # cs) = ((is_js_space c \<and> js_starts_with p cs) \<or> space_then p cs)"

definition missing_tail :: "string \<Rightarrow> bool" where
  "missing_tail s = (case s of [] \<Rightarrow> False | c # _ \<Rightarrow> is_js_space c
     \<and> space_then ''does not exist'' (tl (dropWhile is_js_space s)))"

fun find_after :: "(string \<Rightarrow> bool) \<Rightarrow> string \<Rightarrow> string \<Rightarrow> bool" where
  "find_after P w [] = (w = [] \<and> P [])"
| "find_after P w (c # cs) =
     ((js_starts_with w (c # cs) \<and> P (drop (length w) (c # cs))) \<or> find_after P w cs)"

definition is_word_char :: "char \<Rightarrow> bool" where
  "is_word_char c = (is_alnum_char c \<or> c = CHR ''_'')"

definition word_boundary :: "string \<Rightarrow> bool" where
  "word_boundary s = (case s of [] \<Rightarrow> True | c # _ \<Rightarrow> \<not> is_word_char c)"

definition sql_detail :: "string \<Rightarrow> bool" where
  "sql_detail m = (let s = js_lower m in
     find_after missing_tail ''relation'' s \<or> find_after missing_tail ''column'' s
     \<or> find_after word_boundary ''syntax error at'' s)"

definition sanitizeErrorMessage :: "string \<Rightarrow> string" where
  "sanitizeErrorMessage m = (if sql_detail m then INTERNAL_STORAGE_ERROR else m)"

section \<open>Lemmas\<close>

lemma code_name_inj: "code_name a = code_name b \<longleftrightarrow> a = b"
  by (cases a; cases b) simp_all

lemma RELAY_ERROR_CODES_complete: "set RELAY_ERROR_CODES = UNIV" "distinct RELAY_ERROR_CODES"
proof -
  show "set RELAY_ERROR_CODES = UNIV"
  proof (rule UNIV_eq_I [symmetric])
    fix c show "c \<in> set RELAY_ERROR_CODES" by (cases c) (simp_all add: RELAY_ERROR_CODES_def)
  qed
qed (simp add: RELAY_ERROR_CODES_def)

lemma isRelayErrorCode_iff: "isRelayErrorCode s \<longleftrightarrow> (\<exists>c. s = code_name c)"
  by (auto simp: isRelayErrorCode_def RELAY_ERROR_CODES_complete)

lemma mapSimulationError_code:
  "mapSimulationError e = Some r \<Longrightarrow> err_code r \<in> {GAS_LIMIT_EXCEEDED, SIMULATION_FAILED}"
  by (auto simp: mapSimulationError_def Let_def split: option.splits if_splits)

lemma mapSimulationError_message:
  "mapSimulationError e = Some r \<Longrightarrow> extractMessage e = Some (err_message r)"
  by (auto simp: mapSimulationError_def Let_def split: option.splits if_splits)

lemma submission_code_range: "submission_code c \<in> {GAS_LIMIT_EXCEEDED, SIMULATION_FAILED, INTERNAL_ERROR}"
  by (simp add: submission_code_def)

lemma mapSubmissionError_code:
  "err_code (mapSubmissionError e) \<in> {GAS_LIMIT_EXCEEDED, SIMULATION_FAILED, RPC_DOWN, INTERNAL_ERROR}"
  using submission_code_range by (cases e) auto

lemma classify_failure_code:
  "err_code (classify_failure e) \<in> {GAS_LIMIT_EXCEEDED, SIMULATION_FAILED, RPC_DOWN, INTERNAL_ERROR}"
  using mapSimulationError_code [of e] mapSubmissionError_code [of e]
  by (cases "mapSimulationError e") (auto simp: classify_failure_def)

lemma classify_failure_network:
  "err_code (classify_failure (NetworkError m st rt)) = RPC_DOWN \<longleftrightarrow>
     \<not> gas_haystack (js_lower m) \<and> \<not> sim_haystack (js_lower m)"
  by (auto simp: classify_failure_def mapSimulationError_def gas_haystack_def sim_haystack_def
      js_lower_def Let_def)

lemma classify_failure_simulation:
  "err_code (classify_failure (SimulationFailedError m)) =
     (if gas_haystack (js_lower m) then GAS_LIMIT_EXCEEDED else SIMULATION_FAILED)"
  by (auto simp: classify_failure_def mapSimulationError_def gas_haystack_def sim_haystack_def
      js_lower_def Let_def)

lemma storage_error_clean: "\<not> sql_detail INTERNAL_STORAGE_ERROR"
  by code_simp

lemma sanitize_clean: "\<not> sql_detail (sanitizeErrorMessage m)"
  by (simp add: sanitizeErrorMessage_def storage_error_clean)

lemma sanitize_idem: "sanitizeErrorMessage (sanitizeErrorMessage m) = sanitizeErrorMessage m"
  by (simp add: sanitizeErrorMessage_def storage_error_clean)

text \<open>The shape of a missing-relation report, wherever it stands in the message.\<close>

lemma space_then_iff: "space_then p s \<longleftrightarrow> (\<exists>a c b. s = a @ c # p @ b \<and> is_js_space c)"
proof (induction s)
  case Nil
  then show ?case by simp
next
  case (Cons x xs)
  have "(\<exists>a c b. x # xs = a @ c # p @ b \<and> is_js_space c) \<longleftrightarrow>
     (\<exists>b. xs = p @ b) \<and> is_js_space x \<or> (\<exists>a c b. xs = a @ c # p @ b \<and> is_js_space c)"
    (is "?l \<longleftrightarrow> ?r")
  proof
    assume ?l
    then obtain a c b where "x # xs = a @ c # p @ b" "is_js_space c" by blast
    then show ?r by (cases a) auto
  next
    assume ?r
    then show ?l
    proof
      assume "(\<exists>b. xs = p @ b) \<and> is_js_space x"
      then obtain b where "x # xs = [] @ x # p @ b" "is_js_space x" by auto
      then show ?l by blast
    next
      assume "\<exists>a c b. xs = a @ c # p @ b \<and> is_js_space c"
      then obtain a c b where "x # xs = (x # a) @ c # p @ b" "is_js_space c" by auto
      then show ?l by blast
    qed
  qed
  with Cons show ?case by (auto simp: js_starts_with_append)
qed

lemma find_after_append: "P r \<Longrightarrow> find_after P w (a @ w @ r)"
proof (induction a)
  case Nil
  show ?case
  proof (cases "w @ r")
    case Nil
    with \<open>P r\<close> show ?thesis by simp
  next
    case (Cons c cs)
    then have "js_starts_with w (c # cs)" "drop (length w) (c # cs) = r"
      by (simp_all add: js_starts_with_append exI flip: Cons)
    with \<open>P r\<close> Cons show ?thesis by simp
  qed
qed simp

section \<open>Properties\<close>

text \<open>
  The service's classification of a failure: resource words win over simulation words, both win
  over the class of the error, and only then does the class decide. The result is always one of
  four codes, and the message is the thrown one whenever there is one.
\<close>

theorem failure_classification:
  "err_code (classify_failure e) =
     (let h = js_lower (coalesce (extractMessage e) []) in
      if gas_haystack h then GAS_LIMIT_EXCEEDED
      else if sim_haystack h then SIMULATION_FAILED
      else case e of
          SimulationFailedError _ \<Rightarrow> SIMULATION_FAILED
        | TransactionError _ rc _ _ _ \<Rightarrow> submission_code (coalesce (map_option js_lower rc) [])
        | NetworkError _ _ _ \<Rightarrow> RPC_DOWN
        | _ \<Rightarrow> INTERNAL_ERROR)
   \<and> err_code (classify_failure e) \<in> {GAS_LIMIT_EXCEEDED, SIMULATION_FAILED, RPC_DOWN, INTERNAL_ERROR}"
proof
  have empty: "\<not> gas_haystack []" "\<not> sim_haystack []"
    by (simp_all add: gas_haystack_def sim_haystack_def)
  show "err_code (classify_failure e) =
     (let h = js_lower (coalesce (extractMessage e) []) in
      if gas_haystack h then GAS_LIMIT_EXCEEDED
      else if sim_haystack h then SIMULATION_FAILED
      else case e of
          SimulationFailedError _ \<Rightarrow> SIMULATION_FAILED
        | TransactionError _ rc _ _ _ \<Rightarrow> submission_code (coalesce (map_option js_lower rc) [])
        | NetworkError _ _ _ \<Rightarrow> RPC_DOWN
        | _ \<Rightarrow> INTERNAL_ERROR)"
    by (cases e) (auto simp: classify_failure_def mapSimulationError_def Let_def js_lower_def empty
        split: if_splits)
qed (rule classify_failure_code)

text \<open>
  No text matching one of the SQL patterns leaves the sanitiser, text that matches none is
  unchanged, and sanitising twice is sanitising once. In particular a missing-relation report is
  replaced wherever it stands in the message.
\<close>

theorem sanitizer_contract:
  "\<not> sql_detail (sanitizeErrorMessage m)
   \<and> sanitizeErrorMessage m = (if sql_detail m then INTERNAL_STORAGE_ERROR else m)
   \<and> sanitizeErrorMessage (sanitizeErrorMessage m) = sanitizeErrorMessage m
   \<and> sql_detail (before @ ''relation'' @ '' '' @ CHR ''x'' # name @ '' does not exist'' @ after)"
proof (intro conjI)
  have t: "missing_tail ('' x'' @ js_lower name @ '' does not exist'' @ js_lower after)"
  proof -
    have "space_then ''does not exist'' (js_lower name @ '' does not exist'' @ js_lower after)"
      unfolding space_then_iff
      by (rule exI [of _ "js_lower name"], rule exI [of _ "CHR '' ''"], rule exI [of _ "js_lower after"])
         (simp add: is_js_space_def char_code_def)
    then show ?thesis by (simp add: missing_tail_def is_js_space_def char_code_def)
  qed
  have "js_lower (before @ ''relation'' @ '' '' @ CHR ''x'' # name @ '' does not exist'' @ after)
      = js_lower before @ ''relation'' @ ('' x'' @ js_lower name @ '' does not exist'' @ js_lower after)"
    by (simp add: js_lower_def lower_char_def char_code_def)
  with find_after_append [of missing_tail, OF t, of "''relation''" "js_lower before"]
  show "sql_detail (before @ ''relation'' @ '' '' @ CHR ''x'' # name @ '' does not exist'' @ after)"
    by (simp add: sql_detail_def Let_def)
qed (rule sanitize_clean, rule sanitizeErrorMessage_def, rule sanitize_idem)

end
