(* ===== verification/TransferPolicy.thy ===== *)
theory TransferPolicy
  imports JsNumber RelayErrors
begin

text \<open>
  The daily-limit and step-up policy: \<open>packages/types/src/transfer-policy.ts\<close> with its schema,
  and the relayer's use of it, \<open>services/relayer/src/validation/transferPolicy.ts\<close>. Amounts
  are binary64 numbers, NaN and the infinities included. A message is its template: literal text
  and interpolated numbers in order.
\<close>

datatype msg_part = Txt string | Num number

type_synonym msg_template = "msg_part list"

record transfer_policy =
  dailyLimit :: number
  stepUpThreshold :: number

text \<open>
  The schema: numbers that are not negative (which excludes NaN but not infinity), with the
  threshold at most the limit.
\<close>

definition policy_schema_ok :: "transfer_policy \<Rightarrow> bool" where
  "policy_schema_ok p = (num_leq (Fin 0) (dailyLimit p) \<and> num_leq (Fin 0) (stepUpThreshold p)
     \<and> num_leq (stepUpThreshold p) (dailyLimit p))"

definition DEFAULT_TRANSFER_POLICY :: transfer_policy where
  "DEFAULT_TRANSFER_POLICY = \<lparr>dailyLimit = Fin 1000, stepUpThreshold = Fin 250\<rparr>"

datatype policy_action = Allow | StepUp | Block

definition DEFAULT_POLICY_ASSET_CODE :: string where
  "DEFAULT_POLICY_ASSET_CODE = ''XLM''"

definition policy_unit :: "string \<Rightarrow> string" where
  "policy_unit assetCode = (if js_trim assetCode = [] then DEFAULT_POLICY_ASSET_CODE else js_trim assetCode)"

definition validateTransferPolicy ::
  "number \<Rightarrow> number \<Rightarrow> transfer_policy option \<Rightarrow> string option \<Rightarrow> policy_action \<times> msg_template" where
  "validateTransferPolicy amount todayTotal policyArg assetCode =
     (let policy = coalesce policyArg DEFAULT_TRANSFER_POLICY;
          unit = policy_unit (coalesce assetCode DEFAULT_POLICY_ASSET_CODE)
      in if \<not> num_is_finite amount \<or> num_leq amount (Fin 0)
         then (Block, [Txt ''Transfer amount must be greater than zero.''])
         else if \<not> num_is_finite todayTotal \<or> num_less todayTotal (Fin 0)
         then (Block, [Txt ''Invalid daily total value.''])
         else if num_less (dailyLimit policy) (num_add todayTotal amount)
         then (Block, [Txt ''Transfer exceeds daily limit of '', Num (dailyLimit policy),
                Txt ('' '' @ unit @ ''. Reduce the amount or wait until tomorrow.'')])
         else if num_less (stepUpThreshold policy) amount
         then (StepUp, [Txt ''This transfer exceeds your step-up threshold of '', Num (stepUpThreshold policy),
                Txt ('' '' @ unit @ '' and requires additional confirmation.'')])
         else (Allow, [Txt ''Transfer is within policy limits.'']))"

section \<open>The relayer's constraints\<close>

text \<open>\<open>/^[a-zA-Z0-9]{1,12}$/\<close> and the two native names.\<close>

definition validateAssetCode :: "string \<Rightarrow> bool" where
  "validateAssetCode code =
     (if code = [] then False
      else if code = ''XLM'' \<or> code = ''native'' then True
      else 1 \<le> length code \<and> length code \<le> 12 \<and> list_all is_alnum_char code)"

record policy_context =
  pc_amount :: number
  pc_todayTotal :: number
  pc_policy :: transfer_policy
  pc_assetCode :: "string option"
  pc_stepUpConfirmed :: "bool option"

record policy_verdict =
  pv_valid :: bool
  pv_error :: "(relay_code \<times> msg_template) option"
  pv_requiresStepUp :: "bool option"

definition validateTransferPolicyConstraints :: "policy_context \<Rightarrow> policy_verdict" where
  "validateTransferPolicyConstraints c =
     (case validateTransferPolicy (pc_amount c) (pc_todayTotal c) (Some (pc_policy c)) (pc_assetCode c) of
        (Block, m) \<Rightarrow> \<lparr>pv_valid = False, pv_error = Some (POLICY_DENIED, m), pv_requiresStepUp = None\<rparr>
      | (StepUp, m) \<Rightarrow>
          if pc_stepUpConfirmed c = Some True
          then \<lparr>pv_valid = True, pv_error = None, pv_requiresStepUp = None\<rparr>
          else \<lparr>pv_valid = False, pv_error = Some (POLICY_DENIED, m), pv_requiresStepUp = Some True\<rparr>
      | (Allow, m) \<Rightarrow> \<lparr>pv_valid = True, pv_error = None, pv_requiresStepUp = None\<rparr>)"

section \<open>Lemmas\<close>

definition policy_action_of :: "number \<Rightarrow> number \<Rightarrow> transfer_policy \<Rightarrow> policy_action" where
  "policy_action_of amount today policy = fst (validateTransferPolicy amount today (Some policy) None)"

lemma action_asset_irrelevant:
  "fst (validateTransferPolicy a t (Some p) c) = policy_action_of a t p"
  by (simp add: policy_action_of_def validateTransferPolicy_def Let_def)

lemma action_not_block:
  "policy_action_of a t p \<noteq> Block \<longleftrightarrow>
     (\<exists>x y. a = Fin x \<and> 0 < x \<and> t = Fin y \<and> 0 \<le> y \<and> \<not> num_less (dailyLimit p) (num_add t a))"
  by (cases a; cases t)
     (auto simp: policy_action_of_def validateTransferPolicy_def Let_def num_leq_def not_le not_less)

lemma action_allow:
  "policy_action_of a t p = Allow \<longleftrightarrow>
     policy_action_of a t p \<noteq> Block \<and> \<not> num_less (stepUpThreshold p) a"
  by (auto simp: policy_action_of_def validateTransferPolicy_def Let_def)

lemma action_stepup:
  "policy_action_of a t p = StepUp \<longleftrightarrow>
     policy_action_of a t p \<noteq> Block \<and> num_less (stepUpThreshold p) a"
  by (auto simp: policy_action_of_def validateTransferPolicy_def Let_def)

lemma constraints_valid:
  "pv_valid (validateTransferPolicyConstraints c) \<longleftrightarrow>
     (case policy_action_of (pc_amount c) (pc_todayTotal c) (pc_policy c) of
        Allow \<Rightarrow> True | StepUp \<Rightarrow> pc_stepUpConfirmed c = Some True | Block \<Rightarrow> False)"
proof -
  obtain a m where v: "validateTransferPolicy (pc_amount c) (pc_todayTotal c) (Some (pc_policy c)) (pc_assetCode c) = (a, m)"
    by fastforce
  then have "policy_action_of (pc_amount c) (pc_todayTotal c) (pc_policy c) = a"
    using action_asset_irrelevant [of "pc_amount c" "pc_todayTotal c" "pc_policy c" "pc_assetCode c"] by simp
  with v show ?thesis by (cases a) (simp_all add: validateTransferPolicyConstraints_def)
qed

lemma constraints_error:
  "pv_valid (validateTransferPolicyConstraints c) \<longleftrightarrow> pv_error (validateTransferPolicyConstraints c) = None"
  by (auto simp: validateTransferPolicyConstraints_def split: prod.splits policy_action.splits if_splits)

text \<open>Sums of finite non-negative numbers respect the order of the right operand.\<close>

lemma daily_check_antimono:
  assumes "0 \<le> t" "0 < b" "b \<le> a" "\<not> num_less l (num_add (Fin t) (Fin a))"
  shows "\<not> num_less l (num_add (Fin t) (Fin b))"
  using assms num_add_mono_right [of t b a] num_less_leq_trans by (meson less_imp_le)

lemma smaller_not_blocked:
  assumes "policy_action_of (Fin a) t p \<noteq> Block" "0 < b" "b \<le> a"
  shows "policy_action_of (Fin b) t p \<noteq> Block"
  using assms daily_check_antimono by (auto simp: action_not_block)

section \<open>Properties\<close>

text \<open>
  The verdict of the transfer policy, on every branch: a transfer is not blocked exactly when
  the amount is a positive finite number, the day's total a non-negative finite number, and their
  binary64 sum does not exceed the daily limit; what is not blocked needs the step-up exactly when
  the amount exceeds the threshold. The asset code never matters.
\<close>

theorem transfer_policy_verdict:
  "fst (validateTransferPolicy amount today (Some policy) asset) =
     (case (amount, today) of
        (Fin x, Fin y) \<Rightarrow>
          if x \<le> 0 \<or> y < 0 \<or> num_less (dailyLimit policy) (num_add today amount) then Block
          else if num_less (stepUpThreshold policy) amount then StepUp else Allow
      | _ \<Rightarrow> Block)"
  by (cases amount; cases today)
     (auto simp: validateTransferPolicy_def Let_def num_leq_def)

text \<open>
  Reducing the amount never turns an admissible transfer into a blocked one, in spite of the
  rounding of the sum.
\<close>

theorem smaller_transfer_not_blocked:
  assumes "fst (validateTransferPolicy (Fin a) today (Some policy) asset) \<noteq> Block" "0 < b" "b \<le> a"
  shows "fst (validateTransferPolicy (Fin b) today (Some policy) asset) \<noteq> Block"
  using smaller_not_blocked [of a today policy b] assms by (simp add: action_asset_irrelevant)

lemma default_policy_hundred:
  "fst (validateTransferPolicy (Fin 100) (Fin 300) (Some DEFAULT_TRANSFER_POLICY) asset) = Allow"
proof -
  have "num_add (Fin 300) (Fin 100) = Fin 400" using num_add_safe_int [of 300 100] by simp
  then show ?thesis
    by (simp add: validateTransferPolicy_def Let_def num_leq_def DEFAULT_TRANSFER_POLICY_def
        del: num_add.simps)
qed

theorem smaller_transfer_not_blocked_witness:
  "fst (validateTransferPolicy (Fin 60) (Fin 300) (Some DEFAULT_TRANSFER_POLICY) (Some ''USDC'')) \<noteq> Block"
  by (rule smaller_transfer_not_blocked [of 100]) (simp_all add: default_policy_hundred)

text \<open>
  The relayer's gate: a transfer over the threshold passes only with the confirmation flag set
  to true, a blocked one never, and every refusal carries POLICY_DENIED.
\<close>

theorem policy_gate:
  "pv_valid (validateTransferPolicyConstraints c) =
     (case fst (validateTransferPolicy (pc_amount c) (pc_todayTotal c) (Some (pc_policy c)) (pc_assetCode c)) of
        Allow \<Rightarrow> True | StepUp \<Rightarrow> pc_stepUpConfirmed c = Some True | Block \<Rightarrow> False)
   \<and> map_option fst (pv_error (validateTransferPolicyConstraints c)) =
       (if pv_valid (validateTransferPolicyConstraints c) then None else Some POLICY_DENIED)"
  by (auto simp: validateTransferPolicyConstraints_def split: prod.splits policy_action.splits)

end
