(* ===== verification/NonceStore.thy ===== *)
theory NonceStore
  imports RelayErrors
begin

text \<open>
  \<open>services/relayer/src/store/nonceStore.ts\<close>: the in-memory replay guard. The state is the
  two-level map \<open>seen\<close> (session key to nonce to expiry); every operation first evicts the expired
  nonces of the key it works on. The locale \<open>replay_guard\<close> is the contract the relay service
  relies on (the \<open>NonceStore\<close> interface of the source with its promises); the memory store
  provides it.
\<close>

type_synonym nonce = int
type_synonym nonce_store = "(string, (nonce, time) jsmap) jsmap"

definition NONCE_TTL_MS :: time where
  "NONCE_TTL_MS = 5 * 60 * 1000"

definition nonce_unexpired :: "time \<Rightarrow> nonce \<times> time \<Rightarrow> bool" where
  "nonce_unexpired now p = (\<not> now > snd p)"

definition evictExpired :: "time \<Rightarrow> string \<Rightarrow> nonce_store \<Rightarrow> nonce_store" where
  "evictExpired now key seen = (case map_get seen key of
       None \<Rightarrow> seen
     | Some keyStore \<Rightarrow>
         let keyStore' = filter (nonce_unexpired now) keyStore
         in if keyStore' = [] then map_delete key seen else map_set key keyStore' seen)"

definition nonce_replay_error :: thrown where
  "nonce_replay_error = JsError ''Error'' ''Nonce already used'' None"

definition assertFresh :: "time \<Rightarrow> string \<Rightarrow> nonce \<Rightarrow> nonce_store \<Rightarrow> (thrown + unit) \<times> nonce_store" where
  "assertFresh now key nonce seen =
     (let seen' = evictExpired now key seen in
      case map_get seen' key of
        Some keyStore \<Rightarrow> if map_has keyStore nonce then (Inl nonce_replay_error, seen') else (Inr (), seen')
      | None \<Rightarrow> (Inr (), seen'))"

text \<open>\<open>track\<close> reads the clock twice: in the eviction and for the new expiry.\<close>

definition trackNonce :: "time \<Rightarrow> time \<Rightarrow> time \<Rightarrow> string \<Rightarrow> nonce \<Rightarrow> nonce_store \<Rightarrow> nonce_store" where
  "trackNonce ttlMs now now' key nonce seen =
     (let seen' = evictExpired now key seen;
          keyStore = coalesce (map_get seen' key) []
      in map_set key (map_set nonce (now' + ttlMs) keyStore) seen')"

definition nonceSize :: "time \<Rightarrow> string \<Rightarrow> nonce_store \<Rightarrow> nat \<times> nonce_store" where
  "nonceSize now key seen =
     (let seen' = evictExpired now key seen in (coalesce (map_option length (map_get seen' key)) 0, seen'))"

definition nonceClearExpired :: "time \<Rightarrow> nonce_store \<Rightarrow> nonce_store" where
  "nonceClearExpired now seen =
     filter (\<lambda>(k, ks). ks \<noteq> []) (map (\<lambda>(k, ks). (k, filter (nonce_unexpired now) ks)) seen)"

section \<open>Invariant and the logical view\<close>

definition nonce_wf :: "nonce_store \<Rightarrow> bool" where
  "nonce_wf seen = (map_wf seen \<and> list_all (\<lambda>(k, ks). map_wf ks \<and> ks \<noteq> []) seen)"

definition nonce_expiry :: "nonce_store \<Rightarrow> string \<Rightarrow> nonce \<Rightarrow> time option" where
  "nonce_expiry seen key n = (case map_get seen key of None \<Rightarrow> None | Some ks \<Rightarrow> map_get ks n)"

definition nonce_live :: "nonce_store \<Rightarrow> time \<Rightarrow> string \<Rightarrow> nonce \<Rightarrow> bool" where
  "nonce_live seen t key n = (case nonce_expiry seen key n of None \<Rightarrow> False | Some e \<Rightarrow> t \<le> e)"

lemma nonce_wf_map: "nonce_wf seen \<Longrightarrow> map_wf seen"
  by (simp add: nonce_wf_def)

lemma nonce_wf_inner: "nonce_wf seen \<Longrightarrow> map_get seen k = Some ks \<Longrightarrow> map_wf ks \<and> ks \<noteq> []"
  by (auto simp: nonce_wf_def map_get_in list_all_iff)

lemma nonce_wf_set:
  "nonce_wf seen \<Longrightarrow> map_wf ks \<Longrightarrow> ks \<noteq> [] \<Longrightarrow> nonce_wf (map_set k ks seen)"
proof -
  assume wf: "nonce_wf seen" and ks: "map_wf ks" "ks \<noteq> []"
  have m: "map_wf (map_set k ks seen)" using wf by (simp add: nonce_wf_map map_wf_set)
  have "map_wf v \<and> v \<noteq> []" if "(k', v) \<in> set (map_set k ks seen)" for k' v
  proof -
    have "map_get (map_set k ks seen) k' = Some v" using that m by (simp add: map_get_in)
    then show ?thesis using ks nonce_wf_inner [OF wf] by (auto simp: jsmap_simps split: if_splits)
  qed
  with m show ?thesis by (auto simp: nonce_wf_def list_all_iff)
qed

lemma nonce_wf_delete: "nonce_wf seen \<Longrightarrow> nonce_wf (map_delete k seen)"
  by (auto simp: nonce_wf_def list_all_iff map_wf_delete) (auto simp: map_delete_def)

lemma evict_wf [invar_intros]: "nonce_wf seen \<Longrightarrow> nonce_wf (evictExpired now k seen)"
  by (auto simp: evictExpired_def Let_def nonce_wf_delete dest: nonce_wf_inner
      intro!: nonce_wf_set map_wf_filter split: option.splits)

lemma evict_expiry:
  assumes "nonce_wf seen"
  shows "nonce_expiry (evictExpired now k seen) k' n =
    (if k' = k then (case nonce_expiry seen k n of None \<Rightarrow> None | Some e \<Rightarrow> if now > e then None else Some e)
     else nonce_expiry seen k' n)"
proof (cases "map_get seen k")
  case None
  then show ?thesis by (simp add: evictExpired_def nonce_expiry_def)
next
  case (Some ks)
  with assms have ks: "map_wf ks" by (simp add: nonce_wf_inner)
  have f: "map_get (filter (nonce_unexpired now) ks) n =
      (case map_get ks n of None \<Rightarrow> None | Some e \<Rightarrow> if now > e then None else Some e)"
    by (simp add: map_get_filter [OF ks] nonce_unexpired_def split: option.splits)
  show ?thesis
  proof (cases "filter (nonce_unexpired now) ks = []")
    case True
    have "map_get (filter (nonce_unexpired now) ks) n = None" unfolding True by simp
    with True Some f show ?thesis
      by (auto simp: evictExpired_def nonce_expiry_def jsmap_simps Let_def split: option.splits if_splits)
  next
    case False
    with Some f show ?thesis by (simp add: evictExpired_def nonce_expiry_def jsmap_simps Let_def)
  qed
qed

lemma evict_live: "nonce_wf seen \<Longrightarrow> now \<le> t \<Longrightarrow>
   nonce_live (evictExpired now k seen) t k' n = nonce_live seen t k' n"
  by (auto simp: nonce_live_def evict_expiry split: option.splits)

lemma evict_present: "nonce_wf seen \<Longrightarrow>
   nonce_expiry (evictExpired now k seen) k n \<noteq> None \<longleftrightarrow> nonce_live seen now k n"
  by (auto simp: nonce_live_def evict_expiry split: option.splits)

lemma assertFresh_expiry: "assertFresh now k n seen =
   (if nonce_expiry (evictExpired now k seen) k n = None then Inr () else Inl nonce_replay_error,
    evictExpired now k seen)"
  by (auto simp: assertFresh_def nonce_expiry_def map_has_get Let_def split: option.splits)

lemma assertFresh_result: "nonce_wf seen \<Longrightarrow>
   fst (assertFresh now k n seen) = (if nonce_live seen now k n then Inl nonce_replay_error else Inr ())"
  using evict_present [of seen now k n] by (auto simp: assertFresh_expiry)

lemma assertFresh_state: "snd (assertFresh now k n seen) = evictExpired now k seen"
  by (simp add: assertFresh_expiry)

lemma assertFresh_pair: "nonce_wf seen \<Longrightarrow> assertFresh now k n seen =
   (if nonce_live seen now k n then Inl nonce_replay_error else Inr (), evictExpired now k seen)"
  using assertFresh_result [of seen now k n] assertFresh_state [of now k n seen]
  by (simp add: prod_eq_iff)

lemma track_wf [invar_intros]: "nonce_wf seen \<Longrightarrow> nonce_wf (trackNonce ttl now now' k n seen)"
proof -
  assume "nonce_wf seen"
  then have wf: "nonce_wf (evictExpired now k seen)" by (rule evict_wf)
  have "map_wf (coalesce (map_get (evictExpired now k seen) k) [])"
    using nonce_wf_inner [OF wf] by (cases "map_get (evictExpired now k seen) k") auto
  then have "map_wf (map_set n (now' + ttl) (coalesce (map_get (evictExpired now k seen) k) []))"
    by (rule map_wf_set)
  moreover have "map_set n (now' + ttl) (coalesce (map_get (evictExpired now k seen) k) []) \<noteq> []"
    using map_get_set [of n "now' + ttl" "coalesce (map_get (evictExpired now k seen) k) []" n]
    by (metis map_get_Nil option.distinct(1))
  ultimately show ?thesis using wf by (simp add: trackNonce_def Let_def nonce_wf_set)
qed

lemma track_expiry: "nonce_expiry (trackNonce ttl now now' k n seen) k' n' =
   (if k' = k \<and> n' = n then Some (now' + ttl) else nonce_expiry (evictExpired now k seen) k' n')"
  by (cases "map_get (evictExpired now k seen) k")
     (auto simp: trackNonce_def nonce_expiry_def jsmap_simps Let_def split: option.splits)

lemma track_live: "nonce_wf seen \<Longrightarrow> now \<le> t \<Longrightarrow>
   nonce_live (trackNonce ttl now now' k n seen) t k' n' =
     (if k' = k \<and> n' = n then t \<le> now' + ttl else nonce_live seen t k' n')"
  using evict_live [of seen now t k k' n'] by (auto simp: nonce_live_def track_expiry)

lemma clear_lookup: "map_wf seen \<Longrightarrow> map_get (nonceClearExpired now seen) k =
   (case map_get seen k of None \<Rightarrow> None
    | Some ks \<Rightarrow> if filter (nonce_unexpired now) ks = [] then None else Some (filter (nonce_unexpired now) ks))"
proof -
  let ?g = "\<lambda>(k, ks). (k, filter (nonce_unexpired now) ks)"
  assume wf: "map_wf seen"
  then have wf': "map_wf (map ?g seen)" by (simp only: map_wf_mapval)
  show ?thesis
    by (auto simp: nonceClearExpired_def map_get_filter [OF wf'] map_get_mapval split: option.splits)
qed

lemma clear_wf [invar_intros]: "nonce_wf seen \<Longrightarrow> nonce_wf (nonceClearExpired now seen)"
proof -
  assume wf: "nonce_wf seen"
  then have "map_wf (nonceClearExpired now seen)"
    unfolding nonceClearExpired_def
    by (intro map_wf_filter) (simp only: map_wf_mapval nonce_wf_map)
  then show ?thesis
    using wf by (auto simp: nonce_wf_def nonceClearExpired_def list_all_iff intro: map_wf_filter)
qed

lemma clear_live: "nonce_wf seen \<Longrightarrow> now \<le> t \<Longrightarrow>
   nonce_live (nonceClearExpired now seen) t k n = nonce_live seen t k n"
proof -
  assume wf: "nonce_wf seen" and t: "now \<le> t"
  show ?thesis
  proof (cases "map_get seen k")
    case None
    then show ?thesis using wf by (simp add: nonce_live_def nonce_expiry_def clear_lookup nonce_wf_map)
  next
    case (Some ks)
    with wf have ks: "map_wf ks" by (simp add: nonce_wf_inner)
    have "nonce_expiry (nonceClearExpired now seen) k n = map_get (filter (nonce_unexpired now) ks) n"
      using wf Some by (auto simp: nonce_expiry_def clear_lookup nonce_wf_map)
    then show ?thesis using Some t
      by (auto simp: nonce_live_def nonce_expiry_def map_get_filter [OF ks] nonce_unexpired_def split: option.splits)
  qed
qed

section \<open>The contract\<close>

text \<open>
  \<open>live s t k n\<close>: at time \<open>t\<close> the nonce counts as used. The laws speak about times that are not
  before the operation, which is all a caller with a monotone clock can observe.
\<close>

locale replay_guard =
  fixes live :: "'s \<Rightarrow> time \<Rightarrow> string \<Rightarrow> nonce \<Rightarrow> bool"
    and check :: "time \<Rightarrow> string \<Rightarrow> nonce \<Rightarrow> 's \<Rightarrow> (thrown + unit) \<times> 's"
    and record_nonce :: "time \<Rightarrow> time \<Rightarrow> string \<Rightarrow> nonce \<Rightarrow> 's \<Rightarrow> 's"
    and sweep :: "time \<Rightarrow> 's \<Rightarrow> 's"
    and ok :: "'s \<Rightarrow> bool"
    and ttl :: time
  assumes check_result: "ok s \<Longrightarrow> is_ok (fst (check now k n s)) \<longleftrightarrow> \<not> live s now k n"
    and check_frame: "ok s \<Longrightarrow> now \<le> t \<Longrightarrow> live (snd (check now k n s)) t k' n' = live s t k' n'"
    and record_live: "ok s \<Longrightarrow> now \<le> t \<Longrightarrow> live (record_nonce now now' k n s) t k' n' =
          (if k' = k \<and> n' = n then t \<le> now' + ttl else live s t k' n')"
    and sweep_live: "ok s \<Longrightarrow> now \<le> t \<Longrightarrow> live (sweep now s) t k' n' = live s t k' n'"
    and ok_check: "ok s \<Longrightarrow> ok (snd (check now k n s))"
    and ok_record: "ok s \<Longrightarrow> ok (record_nonce now now' k n s)"
    and ok_sweep: "ok s \<Longrightarrow> ok (sweep now s)"
begin

lemma tracked_is_rejected:
  "ok s \<Longrightarrow> now \<le> t \<Longrightarrow> t \<le> now' + ttl \<Longrightarrow>
     \<not> is_ok (fst (check t k n (record_nonce now now' k n s)))"
  by (simp add: check_result ok_record record_live)

lemma expired_is_fresh:
  "ok s \<Longrightarrow> now \<le> t \<Longrightarrow> now' + ttl < t \<Longrightarrow>
     is_ok (fst (check t k n (record_nonce now now' k n s)))"
  by (simp add: check_result ok_record record_live)

text \<open>Keys do not interfere: recording one pair leaves the verdict on every other pair.\<close>

lemma other_pairs_unaffected:
  "ok s \<Longrightarrow> now \<le> t \<Longrightarrow> (k', n') \<noteq> (k, n) \<Longrightarrow>
     is_ok (fst (check t k' n' (record_nonce now now' k n s))) = is_ok (fst (check t k' n' s))"
  by (auto simp: check_result ok_record record_live)

end

interpretation memory_nonces: replay_guard nonce_live assertFresh "trackNonce ttl" nonceClearExpired nonce_wf ttl
  for ttl
proof
qed (auto simp: assertFresh_result assertFresh_state evict_live track_live clear_live
    intro: evict_wf track_wf clear_wf)

section \<open>Runs of operations\<close>

text \<open>A history of calls, each with the clock reading it saw; the outcome of every check.\<close>

datatype nonce_op = OpCheck time string nonce | OpTrack time string nonce | OpSweep time

fun op_time :: "nonce_op \<Rightarrow> time" where
  "op_time (OpCheck t _ _) = t"
| "op_time (OpTrack t _ _) = t"
| "op_time (OpSweep t) = t"

fun run_nonce_op :: "time \<Rightarrow> nonce_op \<Rightarrow> nonce_store \<Rightarrow> nonce_store" where
  "run_nonce_op ttl (OpCheck t k n) s = snd (assertFresh t k n s)"
| "run_nonce_op ttl (OpTrack t k n) s = trackNonce ttl t t k n s"
| "run_nonce_op ttl (OpSweep t) s = nonceClearExpired t s"

definition run_nonce_ops :: "time \<Rightarrow> nonce_op list \<Rightarrow> nonce_store \<Rightarrow> nonce_store" where
  "run_nonce_ops ttl ops s = fold (run_nonce_op ttl) ops s"

lemma run_op_wf: "nonce_wf s \<Longrightarrow> nonce_wf (run_nonce_op ttl p s)"
  by (cases p) (auto simp: assertFresh_state intro: evict_wf track_wf clear_wf)

lemma run_ops_wf: "nonce_wf s \<Longrightarrow> nonce_wf (run_nonce_ops ttl ops s)"
  unfolding run_nonce_ops_def by (induction ops arbitrary: s) (auto intro: run_op_wf)

lemma run_op_live: "nonce_wf s \<Longrightarrow> op_time p \<le> t \<Longrightarrow>
   nonce_live (run_nonce_op ttl p s) t k n =
     (case p of OpTrack u k' n' \<Rightarrow> if k' = k \<and> n' = n then t \<le> u + ttl else nonce_live s t k n
      | _ \<Rightarrow> nonce_live s t k n)"
  by (cases p) (auto simp: assertFresh_state evict_live track_live clear_live)

text \<open>The time the pair was last tracked, read off the history.\<close>

fun last_tracked :: "string \<Rightarrow> nonce \<Rightarrow> nonce_op list \<Rightarrow> time option" where
  "last_tracked k n [] = None"
| "last_tracked k n (p # ps) = (case last_tracked k n ps of Some u \<Rightarrow> Some u
     | None \<Rightarrow> (case p of OpTrack u k' n' \<Rightarrow> if k' = k \<and> n' = n then Some u else None | _ \<Rightarrow> None))"

lemma run_ops_live: "nonce_wf s \<Longrightarrow> list_all (\<lambda>p. op_time p \<le> t) ops \<Longrightarrow>
   nonce_live (run_nonce_ops ttl ops s) t k n =
     (case last_tracked k n ops of Some u \<Rightarrow> t \<le> u + ttl | None \<Rightarrow> nonce_live s t k n)"
proof (induction ops arbitrary: s)
  case Nil
  then show ?case by (simp add: run_nonce_ops_def)
next
  case (Cons p ps)
  then have "nonce_live (run_nonce_ops ttl ps (run_nonce_op ttl p s)) t k n =
     (case last_tracked k n ps of Some u \<Rightarrow> t \<le> u + ttl | None \<Rightarrow> nonce_live (run_nonce_op ttl p s) t k n)"
    by (intro Cons.IH run_op_wf) simp_all
  with Cons.prems show ?case
    by (auto simp: run_nonce_ops_def run_op_live split: option.splits nonce_op.splits)
qed

section \<open>Properties\<close>

text \<open>
  C32. The replay window: after any history of checks, recordings and sweeps on a new store, seen at
  a time not before any of them, a nonce is refused exactly when it was recorded for that session
  key at most the time-to-live ago; recordings of other keys or nonces never matter.
\<close>

theorem nonce_replay_window:
  assumes "list_all (\<lambda>p. op_time p \<le> t) ops"
  shows "fst (assertFresh t key n (run_nonce_ops ttl ops [])) =
    (case last_tracked key n ops of
       None \<Rightarrow> Inr () | Some u \<Rightarrow> if t \<le> u + ttl then Inl nonce_replay_error else Inr ())"
proof -
  have wf: "nonce_wf ([] :: nonce_store)" by (simp add: nonce_wf_def)
  have "\<not> nonce_live [] t key n" by (simp add: nonce_live_def nonce_expiry_def)
  with run_ops_live [OF wf assms] show ?thesis
    by (auto simp: assertFresh_result run_ops_wf wf split: option.splits)
qed

theorem nonce_replay_window_witness:
  "fst (assertFresh 300500 ''k'' 7 (run_nonce_ops NONCE_TTL_MS
      [OpTrack 500 ''k'' 7, OpTrack 600 ''k'' 8, OpSweep 700] [])) = Inl nonce_replay_error"
  by (subst nonce_replay_window) (simp_all add: NONCE_TTL_MS_def)

text \<open>
  Every operation keeps the store well formed: no session key occurs twice, no nonce occurs
  twice under a key, and no key is kept with an empty table, so the store does not grow with keys
  whose nonces have all expired.
\<close>

theorem nonce_store_invariant:
  "nonce_wf (run_nonce_ops ttl ops [])
   \<and> (\<forall>now. map_get (snd (nonceSize now key (run_nonce_ops ttl ops []))) key = None
        \<longleftrightarrow> fst (nonceSize now key (run_nonce_ops ttl ops [])) = 0)"
proof
  have wf: "nonce_wf ([] :: nonce_store)" by (simp add: nonce_wf_def)
  show r: "nonce_wf (run_nonce_ops ttl ops [])" by (rule run_ops_wf [OF wf])
  show "\<forall>now. map_get (snd (nonceSize now key (run_nonce_ops ttl ops []))) key = None
        \<longleftrightarrow> fst (nonceSize now key (run_nonce_ops ttl ops [])) = 0"
    using nonce_wf_inner [OF evict_wf [OF r]]
    by (fastforce simp: nonceSize_def Let_def coalesce_def split: option.splits)
qed

end
