(* ===== verification/Idempotency.thy ===== *)
theory Idempotency
  imports Prelude
begin

text \<open>
  \<open>services/relayer/src/store/idempotency.ts\<close> and \<open>middleware/idempotency.ts\<close>: the response cache
  and the middleware that replays from it. A body is of any type. The locale \<open>response_cache\<close> is
  the store contract (\<open>IdempotencyStoreContract\<close>) under which the replay guarantee is proved;
  the memory store provides it.
\<close>

record 'b response =
  statusCode :: int
  resp_body :: 'b

record 'b idem_entry =
  ie_response :: "'b response"
  ie_expiresAt :: time

type_synonym 'b idem_store = "(string, 'b idem_entry) jsmap"

definition IDEMPOTENCY_TTL_MS :: time where
  "IDEMPOTENCY_TTL_MS = 5 * 60 * 1000"

section \<open>The store\<close>

definition idem_get :: "time \<Rightarrow> string \<Rightarrow> 'b idem_store \<Rightarrow> 'b response option \<times> 'b idem_store" where
  "idem_get now key store = (case map_get store key of
       None \<Rightarrow> (None, store)
     | Some entry \<Rightarrow> if now > ie_expiresAt entry then (None, map_delete key store)
                    else (Some (ie_response entry), store))"

definition idem_set :: "time \<Rightarrow> time \<Rightarrow> string \<Rightarrow> 'b response \<Rightarrow> 'b idem_store \<Rightarrow> 'b idem_store" where
  "idem_set ttlMs now key response store =
     map_set key \<lparr>ie_response = response, ie_expiresAt = now + ttlMs\<rparr> store"

definition idem_size :: "time \<Rightarrow> 'b idem_store \<Rightarrow> nat" where
  "idem_size now store = length (filter (\<lambda>e. ie_expiresAt e > now) (map_values store))"

definition idem_clearExpired :: "time \<Rightarrow> 'b idem_store \<Rightarrow> 'b idem_store" where
  "idem_clearExpired now store = filter (\<lambda>(k, e). \<not> ie_expiresAt e \<le> now) store"

section \<open>The middleware\<close>

text \<open>A header is absent, one string, or an array of strings.\<close>

datatype header = HAbsent | HString string | HArray "string list"

datatype 'b idem_decision = PassThrough | Replay "'b response" | Intercept string

definition idem_begin :: "time \<Rightarrow> header \<Rightarrow> 'b idem_store \<Rightarrow> 'b idem_decision \<times> 'b idem_store" where
  "idem_begin now rawKey store = (case rawKey of
       HString raw \<Rightarrow>
         if js_trim raw = [] then (PassThrough, store)
         else (case idem_get now (js_trim raw) store of
             (Some cached, store') \<Rightarrow> (Replay cached, store')
           | (None, store') \<Rightarrow> (Intercept (js_trim raw), store'))
     | _ \<Rightarrow> (PassThrough, store))"

text \<open>The replaced \<open>res.json\<close>: only successful responses are kept.\<close>

definition idem_finish :: "time \<Rightarrow> time \<Rightarrow> string \<Rightarrow> 'b response \<Rightarrow> 'b idem_store \<Rightarrow> 'b idem_store" where
  "idem_finish ttlMs now key r store =
     (if statusCode r \<ge> 200 \<and> statusCode r < 300 then idem_set ttlMs now key r store else store)"

text \<open>
  One request run to its end: the answer the client gets, whether the handler ran, and the store.
  The handler answers at \<open>done\<close>.
\<close>

definition idem_request ::
  "time \<Rightarrow> time \<Rightarrow> time \<Rightarrow> header \<Rightarrow> 'b response \<Rightarrow> 'b idem_store \<Rightarrow> 'b response \<times> bool \<times> 'b idem_store" where
  "idem_request ttlMs start answered rawKey handler store = (case idem_begin start rawKey store of
       (PassThrough, store') \<Rightarrow> (handler, True, store')
     | (Replay r, store') \<Rightarrow> (r, False, store')
     | (Intercept key, store') \<Rightarrow> (handler, True, idem_finish ttlMs answered key handler store'))"

section \<open>Lemmas on the store\<close>

definition idem_cached :: "'b idem_store \<Rightarrow> time \<Rightarrow> string \<Rightarrow> 'b response option" where
  "idem_cached store t key = (case map_get store key of
       None \<Rightarrow> None | Some e \<Rightarrow> if t \<le> ie_expiresAt e then Some (ie_response e) else None)"

lemma idem_get_result: "fst (idem_get now key store) = idem_cached store now key"
  by (simp add: idem_get_def idem_cached_def split: option.splits)

lemma idem_get_frame: "now \<le> t \<Longrightarrow> idem_cached (snd (idem_get now key store)) t k = idem_cached store t k"
  by (auto simp: idem_get_def idem_cached_def jsmap_simps split: option.splits)

lemma idem_set_cached: "idem_cached (idem_set ttl now key r store) t k =
   (if k = key then (if t \<le> now + ttl then Some r else None) else idem_cached store t k)"
  by (simp add: idem_set_def idem_cached_def jsmap_simps)

lemma idem_clear_cached: "map_wf store \<Longrightarrow> now < t \<Longrightarrow>
   idem_cached (idem_clearExpired now store) t k = idem_cached store t k"
  by (auto simp: idem_clearExpired_def idem_cached_def map_get_filter split: option.splits)

lemma idem_wf [invar_intros]:
  "map_wf store \<Longrightarrow> map_wf (snd (idem_get now key store))"
  "map_wf store \<Longrightarrow> map_wf (idem_set ttl now key r store)"
  "map_wf store \<Longrightarrow> map_wf (idem_clearExpired now store)"
  by (auto simp: idem_get_def idem_set_def idem_clearExpired_def
      intro: map_wf_set map_wf_delete map_wf_filter split: option.splits)

section \<open>The contract and the replay guarantee\<close>

locale response_cache =
  fixes cached :: "'s \<Rightarrow> time \<Rightarrow> string \<Rightarrow> 'b response option"
    and get_resp :: "time \<Rightarrow> string \<Rightarrow> 's \<Rightarrow> 'b response option \<times> 's"
    and set_resp :: "time \<Rightarrow> string \<Rightarrow> 'b response \<Rightarrow> 's \<Rightarrow> 's"
    and ttl :: time
    and good :: "'s \<Rightarrow> bool"
  assumes get_value: "good s \<Longrightarrow> fst (get_resp now k s) = cached s now k"
    and get_frame: "good s \<Longrightarrow> now \<le> t \<Longrightarrow> cached (snd (get_resp now k s)) t k' = cached s t k'"
    and set_value: "good s \<Longrightarrow> cached (set_resp now k r s) t k' =
          (if k' = k then (if t \<le> now + ttl then Some r else None) else cached s t k')"
    and good_get: "good s \<Longrightarrow> good (snd (get_resp now k s))"
    and good_set: "good s \<Longrightarrow> good (set_resp now k r s)"
begin

lemma set_then_get: "good s \<Longrightarrow> t \<le> now + ttl \<Longrightarrow> fst (get_resp t k (set_resp now k r s)) = Some r"
  by (simp add: get_value good_set set_value)

lemma set_then_late_get: "good s \<Longrightarrow> now + ttl < t \<Longrightarrow> fst (get_resp t k (set_resp now k r s)) = None"
  by (simp add: get_value good_set set_value)

lemma get_twice: "good s \<Longrightarrow> now \<le> t \<Longrightarrow>
   fst (get_resp t k (snd (get_resp now k' s))) = fst (get_resp t k s)"
  by (simp add: get_value good_get get_frame)

end

interpretation memory_cache: response_cache idem_cached idem_get "idem_set ttl" ttl map_wf
  for ttl
  by unfold_locales (auto simp: idem_get_result idem_get_frame idem_set_cached intro: idem_wf)

section \<open>Lemmas on the middleware\<close>

lemma idem_begin_string: "js_trim raw \<noteq> [] \<Longrightarrow>
   idem_begin now (HString raw) store =
     (case idem_cached store now (js_trim raw) of Some r \<Rightarrow> Replay r | None \<Rightarrow> Intercept (js_trim raw),
      snd (idem_get now (js_trim raw) store))"
  by (auto simp: idem_begin_def idem_get_def idem_cached_def split: option.splits)

lemma idem_request_live:
  "js_trim raw \<noteq> [] \<Longrightarrow> idem_cached store now (js_trim raw) = Some r \<Longrightarrow>
     idem_request ttl now d (HString raw) handler store = (r, False, snd (idem_get now (js_trim raw) store))"
  by (simp add: idem_request_def idem_begin_string)

lemma idem_request_fresh:
  "js_trim raw \<noteq> [] \<Longrightarrow> idem_cached store now (js_trim raw) = None \<Longrightarrow>
     idem_request ttl now d (HString raw) handler store =
       (handler, True, idem_finish ttl d (js_trim raw) handler (snd (idem_get now (js_trim raw) store)))"
  by (simp add: idem_request_def idem_begin_string)

text \<open>What a request leaves cached, at any time not before its start.\<close>

lemma idem_request_cached:
  assumes "start \<le> t"
  shows "idem_cached (snd (snd (idem_request ttl start d h handler store))) t k =
    (case h of HString raw \<Rightarrow>
       if js_trim raw = k \<and> k \<noteq> [] \<and> idem_cached store start k = None
          \<and> 200 \<le> statusCode handler \<and> statusCode handler < 300
       then (if t \<le> d + ttl then Some handler else None) else idem_cached store t k
     | _ \<Rightarrow> idem_cached store t k)"
proof (cases h)
  case (HString raw)
  show ?thesis
  proof (cases "js_trim raw = []")
    case True
    with HString show ?thesis by (auto simp: idem_request_def idem_begin_def)
  next
    case False
    with HString assms show ?thesis
      by (cases "idem_cached store start (js_trim raw)")
         (auto simp: idem_request_live idem_request_fresh idem_finish_def idem_get_frame idem_set_cached)
  qed
qed (simp_all add: idem_request_def idem_begin_def)

text \<open>A history of requests, each with its start, the time of its answer, header and the answer
  its handler would give.\<close>

type_synonym 'b idem_call = "time \<times> time \<times> header \<times> 'b response"

fun idem_run :: "time \<Rightarrow> 'b idem_call list \<Rightarrow> 'b idem_store \<Rightarrow> 'b idem_store" where
  "idem_run ttl [] store = store"
| "idem_run ttl ((start, d, h, ans) # cs) store =
     idem_run ttl cs (snd (snd (idem_request ttl start d h ans store)))"

lemma idem_run_keeps:
  assumes "idem_cached store t k = Some r" "list_all (\<lambda>(start, d, h, ans). start \<le> t) cs"
  shows "idem_cached (idem_run ttl cs store) t k = Some r"
  using assms
proof (induction cs arbitrary: store)
  case Nil
  then show ?case by simp
next
  case (Cons c cs)
  obtain start d h ans where [simp]: "c = (start, d, h, ans)" by (cases c) auto
  have s: "start \<le> t" using Cons.prems by simp
  have "idem_cached store start k \<noteq> None"
    using Cons.prems(1) s by (auto simp: idem_cached_def split: option.splits if_splits)
  then have "idem_cached (snd (snd (idem_request ttl start d h ans store))) t k = Some r"
    using Cons.prems(1) by (auto simp: idem_request_cached [OF s] split: header.splits)
  with Cons show ?case by simp
qed

lemma success_replayed:
  assumes "idem_cached store start (js_trim raw) = None" "js_trim raw \<noteq> []"
    and "200 \<le> statusCode ok" "statusCode ok < 300"
    and "start \<le> t" "t \<le> answered + ttl" "list_all (\<lambda>(s, d, h, ans). s \<le> t) calls"
    and "js_trim raw' = js_trim raw"
  shows "\<exists>store'. idem_request ttl t d (HString raw') other
      (idem_run ttl calls (snd (snd (idem_request ttl start answered (HString raw) ok store))))
    = (ok, False, store')"
proof -
  let ?s = "snd (snd (idem_request ttl start answered (HString raw) ok store))"
  have "idem_cached ?s t (js_trim raw) = Some ok"
    using assms by (auto simp: idem_request_cached [OF assms(5)])
  then have "idem_cached (idem_run ttl calls ?s) t (js_trim raw') = Some ok"
    using idem_run_keeps assms(7,8) by metis
  with assms(2,8) show ?thesis by (simp add: idem_request_live)
qed

section \<open>Properties\<close>

text \<open>
  C34. Deterministic replay: once a keyed request has been answered with success, every request whose
  header trims to the same key and that starts within the time-to-live gets that very response and
  does not reach the handler, whatever other requests were served in between.
\<close>

theorem idempotent_replay:
  assumes "idem_cached store start (js_trim raw) = None" "js_trim raw \<noteq> []"
    and "200 \<le> statusCode ok" "statusCode ok < 300"
    and "start \<le> t" "t \<le> answered + ttl" "list_all (\<lambda>(s, d, h, ans). s \<le> t) calls"
    and "js_trim raw' = js_trim raw"
  shows "\<exists>store'. idem_request ttl t d (HString raw') other
      (idem_run ttl calls (snd (snd (idem_request ttl start answered (HString raw) ok store))))
    = (ok, False, store')"
  using assms by (rule success_replayed)

theorem idempotent_replay_witness:
  "\<exists>store'. idem_request 300000 200 250 (HString ''  k1'') \<lparr>statusCode = 200, resp_body = ''second''\<rparr>
      (idem_run 300000 [(50, 60, HString ''k2'', \<lparr>statusCode = 200, resp_body = ''x''\<rparr>)]
        (snd (snd (idem_request 300000 10 20 (HString ''k1'') \<lparr>statusCode = 201, resp_body = ''first''\<rparr> []))))
    = (\<lparr>statusCode = 201, resp_body = ''first''\<rparr>, False, store')"
proof -
  have tr: "js_trim ''  k1'' = ''k1''" "js_trim ''k1'' = ''k1''" by code_simp+
  show ?thesis
    by (rule idempotent_replay) (simp_all add: tr idem_cached_def)
qed

text \<open>
  A response that is not a success leaves nothing behind: the cache answers every later lookup as
  if the request had not been made, so a retry with the same key reaches the handler again.
\<close>

theorem failed_response_not_cached:
  assumes "\<not> (200 \<le> statusCode bad \<and> statusCode bad < 300)" "start \<le> t"
  shows "idem_cached (snd (snd (idem_request ttl start answered h bad store))) t k = idem_cached store t k"
  by (auto simp: idem_request_cached [OF assms(2)] assms(1) split: header.splits)

theorem failed_response_not_cached_witness:
  "idem_cached (snd (snd (idem_request 300000 10 20 (HString ''k1'')
      \<lparr>statusCode = 422, resp_body = ''no''\<rparr> []))) 30 ''k1'' = None"
  by (subst failed_response_not_cached) (simp_all add: idem_cached_def)

text \<open>
  At the last millisecond of its life an entry is still replayed, while the size, which is
  meant to count the live entries, leaves it out and the sweep deletes it.
\<close>

theorem expiry_boundary_disagreement:
  "fst (idem_get (now + ttl) key (idem_set ttl now key r [])) = Some r
   \<and> idem_size (now + ttl) (idem_set ttl now key r []) = 0
   \<and> idem_clearExpired (now + ttl) (idem_set ttl now key r []) = []"
  by (simp add: idem_get_result idem_set_cached)
     (simp add: idem_set_def idem_size_def idem_clearExpired_def map_values_def map_set_def)

end
