(* ===== verification/Codec.thy ===== *)
theory Codec
  imports Prelude
begin

text \<open>
  Text encodings shared by the payload builders and the crypto package: lowercase hex of byte
  strings, UTF-8 of code units below 256, and the JSON text of strings and integers as
  \<open>JSON.stringify\<close> writes it. The lemmas show that each is injective, in the form "a value and
  the text after it can both be read back", which composes along a concatenation.
\<close>

type_synonym byte = nat

definition bytes_ok :: "byte list \<Rightarrow> bool" where
  "bytes_ok bs = list_all (\<lambda>b. b < 256) bs"

lemma bytes_ok_simps [simp]:
  "bytes_ok []" "bytes_ok (b # bs) = (b < 256 \<and> bytes_ok bs)" "bytes_ok (as @ bs) = (bytes_ok as \<and> bytes_ok bs)"
  by (simp_all add: bytes_ok_def)

section \<open>Hex\<close>

definition hex_digit :: "nat \<Rightarrow> char" where
  "hex_digit d = (if d < 10 then char_of (48 + d) else char_of (87 + d))"

text \<open>\<open>b.toString(16).padStart(2, '0')\<close>.\<close>

definition hex_byte :: "byte \<Rightarrow> string" where
  "hex_byte b = [hex_digit (b div 16), hex_digit (b mod 16)]"

definition hex_of :: "byte list \<Rightarrow> string" where
  "hex_of bs = concat (map hex_byte bs)"

text \<open>\<open>parseInt(c, 16)\<close> of one character; absent for NaN.\<close>

definition hex_val :: "char \<Rightarrow> nat option" where
  "hex_val c = (let n = char_code c in
     if 48 \<le> n \<and> n \<le> 57 then Some (n - 48)
     else if 65 \<le> n \<and> n \<le> 70 then Some (n - 55)
     else if 97 \<le> n \<and> n \<le> 102 then Some (n - 87) else None)"

lemma hex_of_simps [simp]: "hex_of [] = []" "hex_of (b # bs) = hex_byte b @ hex_of bs"
    "hex_of (as @ bs) = hex_of as @ hex_of bs"
  by (simp_all add: hex_of_def)

lemma length_hex_of [simp]: "length (hex_of bs) = 2 * length bs"
  by (induction bs) (simp_all add: hex_byte_def)

lemma char_code_char_of: "n < 256 \<Longrightarrow> char_code (char_of n) = n"
  by (simp add: char_code_def of_char_of)

lemma hex_val_digit: "d < 16 \<Longrightarrow> hex_val (hex_digit d) = Some d"
  by (auto simp: hex_val_def hex_digit_def char_code_char_of Let_def)

lemma is_hex_digit: "d < 16 \<Longrightarrow> is_hex_char (hex_digit d)"
  by (auto simp: is_hex_char_def is_digit_char_def hex_digit_def char_code_char_of)

lemma hex_val_is_hex: "(\<exists>v. hex_val c = Some v) \<longleftrightarrow> is_hex_char c"
  by (auto simp: hex_val_def is_hex_char_def is_digit_char_def Let_def)

lemma hex_val_less: "hex_val c = Some v \<Longrightarrow> v < 16"
  by (auto simp: hex_val_def Let_def split: if_splits)

lemma hex_digit_inj: "a < 16 \<Longrightarrow> b < 16 \<Longrightarrow> hex_digit a = hex_digit b \<Longrightarrow> a = b"
  by (metis hex_val_digit option.inject)

lemma hex_byte_inj: "a < 256 \<Longrightarrow> b < 256 \<Longrightarrow> hex_byte a = hex_byte b \<Longrightarrow> a = b"
proof -
  assume "a < 256" "b < 256" and e: "hex_byte a = hex_byte b"
  then have "a div 16 = b div 16" "a mod 16 = b mod 16"
    by (auto simp: hex_byte_def intro!: hex_digit_inj)
  then show "a = b" by (metis div_mult_mod_eq)
qed

lemma hex_of_inj: "bytes_ok as \<Longrightarrow> bytes_ok bs \<Longrightarrow> hex_of as = hex_of bs \<Longrightarrow> as = bs"
proof (induction as arbitrary: bs)
  case Nil
  then show ?case by (cases bs) (simp_all add: hex_byte_def)
next
  case (Cons a as)
  then obtain b bs' where [simp]: "bs = b # bs'" by (cases bs) (auto simp: hex_byte_def)
  from Cons.prems have "hex_byte a = hex_byte b" "hex_of as = hex_of bs'"
    by (auto simp: hex_byte_def)
  with Cons show ?case by (auto dest: hex_byte_inj)
qed

section \<open>UTF-8\<close>

definition utf8_char :: "char \<Rightarrow> byte list" where
  "utf8_char c = (let n = char_code c in if n < 128 then [n] else [192 + n div 64, 128 + n mod 64])"

definition utf8 :: "string \<Rightarrow> byte list" where
  "utf8 s = concat (map utf8_char s)"

lemma char_code_less: "char_code c < 256"
  unfolding char_code_def by (cases c) (simp add: of_char_Char split: bool.splits)

lemma char_code_inj: "char_code a = char_code b \<Longrightarrow> a = b"
  unfolding char_code_def by simp

lemma utf8_simps [simp]: "utf8 [] = []" "utf8 (c # cs) = utf8_char c @ utf8 cs"
  by (simp_all add: utf8_def)

lemma utf8_bytes_ok: "bytes_ok (utf8 s)"
proof (induction s)
  case (Cons c s)
  have "char_code c < 256" by (rule char_code_less)
  with Cons show ?case by (auto simp: utf8_char_def Let_def)
qed simp

lemma utf8_char_prefix_free:
  assumes "utf8_char a @ r = utf8_char b @ r'" shows "a = b \<and> r = r'"
proof -
  have l: "char_code a < 256" "char_code b < 256" by (rule char_code_less)+
  have "char_code a = char_code b"
  proof (cases "char_code a < 128"; cases "char_code b < 128")
    assume "\<not> char_code a < 128" "\<not> char_code b < 128"
    with assms have "char_code a div 64 = char_code b div 64" "char_code a mod 64 = char_code b mod 64"
      by (auto simp: utf8_char_def Let_def)
    then show ?thesis by (metis div_mult_mod_eq)
  qed (use assms in \<open>auto simp: utf8_char_def Let_def\<close>)
  with assms show ?thesis using char_code_inj by auto
qed

lemma utf8_inj: "utf8 s = utf8 t \<Longrightarrow> s = t"
proof (induction s arbitrary: t)
  case Nil
  then show ?case by (cases t) (auto simp: utf8_char_def Let_def split: if_splits)
next
  case (Cons c s)
  then obtain d t' where [simp]: "t = d # t'"
    by (cases t) (auto simp: utf8_char_def Let_def split: if_splits)
  from Cons.prems have "c = d \<and> utf8 s = utf8 t'" by (intro utf8_char_prefix_free) simp
  with Cons.IH show ?case by simp
qed

section \<open>JSON text\<close>

text \<open>
  \<open>QuoteJSONString\<close>: the two-character escapes, \<open>\u00xx\<close> for the other control characters,
  everything else as it is.
\<close>

definition json_escape :: "char \<Rightarrow> string" where
  "json_escape c =
     (if c = CHR 0x22 then [CHR 0x5C, CHR 0x22]
      else if c = CHR 0x5C then [CHR 0x5C, CHR 0x5C]
      else if c = CHR 0x08 then [CHR 0x5C, CHR ''b'']
      else if c = CHR 0x0C then [CHR 0x5C, CHR ''f'']
      else if c = CHR 0x0A then [CHR 0x5C, CHR ''n'']
      else if c = CHR 0x0D then [CHR 0x5C, CHR ''r'']
      else if c = CHR 0x09 then [CHR 0x5C, CHR ''t'']
      else if char_code c < 32 then [CHR 0x5C, CHR ''u'', CHR ''0'', CHR ''0''] @ hex_byte (char_code c)
      else [c])"

definition json_string :: "string \<Rightarrow> string" where
  "json_string s = CHR 0x22 # concat (map json_escape s) @ [CHR 0x22]"

text \<open>An integer of magnitude below \<open>10^21\<close>, which is written without an exponent.\<close>

definition json_int :: "int \<Rightarrow> string" where
  "json_int i = show_int i"

text \<open>The member \<open>"name":value\<close> of an object.\<close>

definition json_member :: "string \<Rightarrow> string \<Rightarrow> string" where
  "json_member name val = json_string name @ '':'' @ val"

lemma quote_code: "char_code CHR 0x22 = 34" "char_code CHR 0x5C = 92"
  by (simp_all add: char_code_def)

text \<open>Reading one escaped character back, with the text behind it.\<close>

definition json_unescape :: "string \<Rightarrow> char \<times> string" where
  "json_unescape s =
     (if hd s \<noteq> CHR 0x5C then (hd s, tl s)
      else if s ! 1 = CHR ''b'' then (CHR 0x08, drop 2 s)
      else if s ! 1 = CHR ''f'' then (CHR 0x0C, drop 2 s)
      else if s ! 1 = CHR ''n'' then (CHR 0x0A, drop 2 s)
      else if s ! 1 = CHR ''r'' then (CHR 0x0D, drop 2 s)
      else if s ! 1 = CHR ''t'' then (CHR 0x09, drop 2 s)
      else if s ! 1 = CHR ''u'' then (char_of (16 * the (hex_val (s ! 4)) + the (hex_val (s ! 5))), drop 6 s)
      else (s ! 1, drop 2 s))"

lemma json_unescape_control:
  "char_code c < 32 \<Longrightarrow>
     json_unescape ([CHR 0x5C, CHR ''u'', CHR ''0'', CHR ''0''] @ hex_byte (char_code c) @ r) = (c, r)"
proof -
  assume "char_code c < 32"
  then have "char_code c div 16 < 16" "char_code c mod 16 < 16" by auto
  then have "16 * the (hex_val (hex_digit (char_code c div 16))) + the (hex_val (hex_digit (char_code c mod 16))) = char_code c"
    by (simp add: hex_val_digit)
  moreover have "char_of (char_code c) = c" by (simp add: char_code_def)
  ultimately show ?thesis by (simp add: json_unescape_def hex_byte_def)
qed

lemma json_unescape_escape: "json_unescape (json_escape c @ r) = (c, r)"
proof (cases "c \<in> {CHR 0x22, CHR 0x5C, CHR 0x08, CHR 0x0C, CHR 0x0A, CHR 0x0D, CHR 0x09}")
  case True
  then show ?thesis by (elim insertE) (simp_all add: json_escape_def json_unescape_def)
next
  case False
  then have "json_escape c = (if char_code c < 32
      then [CHR 0x5C, CHR ''u'', CHR ''0'', CHR ''0''] @ hex_byte (char_code c) else [c])"
    by (simp add: json_escape_def)
  with False show ?thesis using json_unescape_control [of c r]
    by (simp add: json_unescape_def)
qed

lemma json_escape_prefix_free:
  assumes "json_escape a @ r = json_escape b @ r'" shows "a = b \<and> r = r'"
proof -
  have "(a, r) = json_unescape (json_escape a @ r)" by (rule json_unescape_escape [symmetric])
  also have "\<dots> = json_unescape (json_escape b @ r')" by (rule arg_cong [OF assms])
  also have "\<dots> = (b, r')" by (rule json_unescape_escape)
  finally show ?thesis by simp
qed

lemma json_escape_not_quote: "json_escape a @ r \<noteq> CHR 0x22 # r'"
  by (auto simp: json_escape_def)

lemma json_string_prefix_free:
  "json_string s @ r = json_string t @ r' \<Longrightarrow> s = t \<and> r = r'"
proof -
  have "concat (map json_escape s) @ CHR 0x22 # r = concat (map json_escape t) @ CHR 0x22 # r'
      \<Longrightarrow> s = t \<and> r = r'"
  proof (induction s arbitrary: t)
    case Nil
    show ?case
    proof (cases t)
      case (Cons b t')
      with Nil have "json_escape b @ concat (map json_escape t') @ CHR 0x22 # r' = CHR 0x22 # r" by simp
      then show ?thesis using json_escape_not_quote by blast
    qed (use Nil in simp)
  next
    case (Cons a s)
    show ?case
    proof (cases t)
      case Nil
      with Cons.prems have "json_escape a @ concat (map json_escape s) @ CHR 0x22 # r = CHR 0x22 # r'" by simp
      then show ?thesis using json_escape_not_quote by blast
    next
      case (Cons b t')
      with Cons.prems have "a = b \<and> concat (map json_escape s) @ CHR 0x22 # r = concat (map json_escape t') @ CHR 0x22 # r'"
        by (intro json_escape_prefix_free) simp
      with Cons.IH [of t'] Cons show ?thesis by simp
    qed
  qed
  then show "json_string s @ r = json_string t @ r' \<Longrightarrow> s = t \<and> r = r'"
    by (simp add: json_string_def)
qed

text \<open>Decimal digits, read back.\<close>

definition read_digits :: "string \<Rightarrow> nat" where
  "read_digits s = foldl (\<lambda>n c. 10 * n + (char_code c - 48)) 0 s"

lemma digit_char_digit: "d < 10 \<Longrightarrow> is_digit_char (digit_char d) \<and> char_code (digit_char d) = 48 + d"
  by (simp add: digit_char_def is_digit_char_def char_code_char_of)

lemma show_nat_digits: "list_all is_digit_char (show_nat n)"
proof (induction n rule: show_nat.induct)
  case (1 n)
  then show ?case by (subst show_nat.simps) (auto simp: digit_char_digit)
qed

lemma read_show_nat: "read_digits (show_nat n) = n"
proof (induction n rule: show_nat.induct)
  case (1 n)
  show ?case
  proof (cases "n < 10")
    case True
    then show ?thesis by (subst show_nat.simps) (simp add: read_digits_def digit_char_digit)
  next
    case False
    with 1 have "read_digits (show_nat (n div 10)) = n div 10" by simp
    with False show ?thesis
      by (subst show_nat.simps) (simp add: read_digits_def digit_char_digit)
  qed
qed

lemma show_nat_inj: "show_nat m = show_nat n \<Longrightarrow> m = n"
  by (metis read_show_nat)

lemma digits_then_stop:
  "list_all P s \<Longrightarrow> list_all P t \<Longrightarrow> \<not> P c \<Longrightarrow> s @ c # r = t @ c # r' \<Longrightarrow> s = t \<and> r = r'"
proof (induction s arbitrary: t)
  case Nil
  then show ?case by (cases t) auto
next
  case (Cons a s)
  then show ?case by (cases t) auto
qed

lemma show_int_nonneg: "0 \<le> i \<Longrightarrow> show_int i = show_nat (nat i)"
  by (simp add: show_int_def)

lemma json_int_prefix_free:
  assumes "0 \<le> i" "0 \<le> j" "json_int i @ CHR '','' # r = json_int j @ CHR '','' # r'"
  shows "i = j \<and> r = r'"
proof -
  have "\<not> is_digit_char CHR '',''" by (simp add: is_digit_char_def char_code_def)
  then have "show_nat (nat i) = show_nat (nat j) \<and> r = r'"
    using assms show_nat_digits by (intro digits_then_stop) (auto simp: json_int_def show_int_nonneg)
  then have "nat i = nat j \<and> r = r'" using show_nat_inj by blast
  with assms(1,2) show ?thesis by (simp add: eq_nat_nat_iff)
qed

section \<open>Positional numerals\<close>

text \<open>The number a list of digits denotes, most significant digit first.\<close>

definition numeral_of :: "nat \<Rightarrow> nat list \<Rightarrow> nat" where
  "numeral_of base ds = foldl (\<lambda>n d. n * base + d) 0 ds"

lemma numeral_of_Nil [simp]: "numeral_of base [] = 0"
  by (simp add: numeral_of_def)

lemma numeral_of_snoc [simp]: "numeral_of base (ds @ [d]) = numeral_of base ds * base + d"
  by (simp add: numeral_of_def)

lemma foldl_numeral: "foldl (\<lambda>n d. n * base + d) k ds = k * base ^ length ds + numeral_of base ds"
proof (induction ds arbitrary: k rule: rev_induct)
  case (snoc d ds)
  then show ?case by (simp add: algebra_simps)
qed simp

lemma numeral_of_Cons: "numeral_of base (d # ds) = d * base ^ length ds + numeral_of base ds"
  using foldl_numeral [of base d ds] by (simp add: numeral_of_def)

lemma numeral_of_append: "numeral_of base (as @ bs) = numeral_of base as * base ^ length bs + numeral_of base bs"
  using foldl_numeral [of base "numeral_of base as" bs] by (simp add: numeral_of_def)

lemma numeral_of_less: "list_all (\<lambda>d. d < base) ds \<Longrightarrow> numeral_of base ds < base ^ length ds"
proof (induction ds rule: rev_induct)
  case (snoc d ds)
  then have d: "d < base" and n: "numeral_of base ds + 1 \<le> base ^ length ds" by simp_all
  have "numeral_of base (ds @ [d]) < (numeral_of base ds + 1) * base" using d by simp
  also have "\<dots> \<le> base ^ length ds * base" by (rule mult_le_mono1 [OF n])
  finally show ?case by (simp add: mult.commute)
qed simp

lemma numeral_of_inj:
  "length as = length bs \<Longrightarrow> list_all (\<lambda>d. d < base) as \<Longrightarrow> list_all (\<lambda>d. d < base) bs \<Longrightarrow>
     numeral_of base as = numeral_of base bs \<Longrightarrow> as = bs"
proof (induction as arbitrary: bs rule: rev_induct)
  case Nil
  then show ?case by simp
next
  case (snoc a as)
  from snoc.prems(1) obtain bs' b where [simp]: "bs = bs' @ [b]" by (cases bs rule: rev_cases) auto
  from snoc.prems have ab: "a < base" "b < base" by simp_all
  from snoc.prems(4) have e: "numeral_of base as * base + a = numeral_of base bs' * base + b" by simp
  then have "(numeral_of base as * base + a) mod base = (numeral_of base bs' * base + b) mod base" by simp
  with ab have "a = b" by simp
  with e ab have "numeral_of base as = numeral_of base bs'" by simp
  with snoc \<open>a = b\<close> show ?case by simp
qed

lemma js_trim_inner:
  assumes "s \<noteq> []" "\<not> is_js_space (hd s)" "\<not> is_js_space (last s)" shows "js_trim s = s"
proof -
  have "dropWhile is_js_space s = s" using assms(1,2) by (cases s) simp_all
  moreover have "dropWhile is_js_space (rev s) = rev s"
    using assms(1,3) by (cases s rule: rev_cases) simp_all
  ultimately show ?thesis by (simp add: js_trim_def)
qed

text \<open>The shape of a public key in StrKey: \<open>/^G[A-Z2-7]{55}$/\<close>.\<close>

definition is_strkey_text :: "string \<Rightarrow> bool" where
  "is_strkey_text s = (case s of [] \<Rightarrow> False | c # r \<Rightarrow> c = CHR ''G'' \<and> length r = 55
     \<and> list_all (\<lambda>d. is_upper_char d \<or> (50 \<le> char_code d \<and> char_code d \<le> 55)) r)"

end
