(* ===== verification/StrKey.thy ===== *)
theory StrKey
  imports Codec "HOL-Library.Word"
begin

text \<open>
  \<open>services/relayer/src/services/ed25519SignatureService.ts\<close>: the StrKey encoding of a raw Ed25519
  key (CRC-16/XModem, base 32 on 32-bit integers) and the signature check built on it. The curve
  arithmetic belongs to \<open>@stellar/stellar-sdk\<close> and is a parameter. The lemmas show that the base-32
  loop writes exactly the base-32 numeral of its input, so the encoding is injective and has the
  fixed shape of a StrKey.
\<close>

unbundle bit_operations_syntax

section \<open>CRC\<close>

definition crc_bit :: "32 word \<Rightarrow> 32 word" where
  "crc_bit crc = (if crc AND 0x8000 \<noteq> 0 then push_bit 1 crc XOR 0x1021 else push_bit 1 crc) AND 0xffff"

definition crc_byte :: "32 word \<Rightarrow> byte \<Rightarrow> 32 word" where
  "crc_byte crc b = (crc_bit ^^ 8) (crc XOR push_bit 8 (of_nat b))"

definition crc16xmodem :: "byte list \<Rightarrow> 32 word" where
  "crc16xmodem buf = foldl crc_byte 0 buf"

section \<open>Base 32\<close>

definition BASE32_ALPHABET :: string where
  "BASE32_ALPHABET = ''ABCDEFGHIJKLMNOPQRSTUVWXYZ234567''"

text \<open>The inner \<open>while\<close> loop: digits out as long as five bits are pending.\<close>

fun b32_drain :: "nat \<Rightarrow> 32 word \<Rightarrow> nat list \<times> nat" where
  "b32_drain bits val =
     (if bits \<ge> 5
      then (case b32_drain (bits - 5) val of
              (ds, bits') \<Rightarrow> (unat (drop_bit (bits - 5) val AND 0x1f) # ds, bits'))
      else ([], bits))"

declare b32_drain.simps [simp del]

fun b32_digits :: "byte list \<Rightarrow> nat \<Rightarrow> 32 word \<Rightarrow> nat list" where
  "b32_digits [] bits val =
     (if bits > 0 then [unat (push_bit (5 - bits) val AND 0x1f)] else [])"
| "b32_digits (b # bs) bits val =
     (let val' = push_bit 8 val OR of_nat b in
      case b32_drain (bits + 8) val' of (ds, bits') \<Rightarrow> ds @ b32_digits bs bits' val')"

definition base32Encode :: "byte list \<Rightarrow> string" where
  "base32Encode bs = map (\<lambda>d. BASE32_ALPHABET ! d) (b32_digits bs 0 0)"

definition encodeEd25519PublicKey :: "byte list \<Rightarrow> string" where
  "encodeEd25519PublicKey rawBytes =
     (let payload = (48 :: byte) # rawBytes;
          checksum = unat (crc16xmodem payload);
          checksumBuf = [checksum mod 256, checksum div 256]
      in base32Encode (payload @ checksumBuf))"

section \<open>The signature service\<close>

text \<open>\<open>Buffer.from(s, 'hex')\<close>: pairs of hex digits up to the first pair that is none.\<close>

fun buffer_from_hex :: "string \<Rightarrow> byte list" where
  "buffer_from_hex (a # b # cs) =
     (case (hex_val a, hex_val b) of
        (Some x, Some y) \<Rightarrow> (16 * x + y) # buffer_from_hex cs
      | _ \<Rightarrow> [])"
| "buffer_from_hex _ = []"

text \<open>
  \<open>from_public_key\<close> and \<open>kp_verify\<close> are \<open>Keypair.fromPublicKey\<close> and \<open>Keypair#verify\<close> of the SDK;
  \<open>None\<close> is a throw, which the method turns into \<open>false\<close>.
\<close>

definition sig_verify ::
  "(string \<Rightarrow> 'kp option) \<Rightarrow> ('kp \<Rightarrow> byte list \<Rightarrow> byte list \<Rightarrow> bool option)
     \<Rightarrow> string \<Rightarrow> string \<Rightarrow> string \<Rightarrow> bool" where
  "sig_verify from_public_key kp_verify publicKey payload signature =
     (let pubKeyBytes = buffer_from_hex publicKey;
          sigBytes = buffer_from_hex signature;
          msgBytes = utf8 payload
      in if length pubKeyBytes \<noteq> 32 then False
         else if length sigBytes \<noteq> 64 then False
         else case from_public_key (encodeEd25519PublicKey pubKeyBytes) of
                None \<Rightarrow> False
              | Some kp \<Rightarrow> coalesce (kp_verify kp msgBytes sigBytes) False)"

section \<open>Lemmas\<close>

lemma and_1f: "unat (w AND 0x1f :: 32 word) = unat w mod 32"
proof -
  have "w AND 0x1f = take_bit 5 w" by (simp add: take_bit_eq_mask mask_eq_exp_minus_1)
  then have "unat (w AND 0x1f) = unat (take_bit 5 w)" by (rule arg_cong)
  also have "\<dots> = take_bit 5 (unat w)" by (rule unsigned_take_bit_eq)
  finally show ?thesis by (simp add: take_bit_eq_mod)
qed

text \<open>The pending bits of a step: the low \<open>bits\<close> of the accumulator.\<close>

definition pending :: "nat \<Rightarrow> 32 word \<Rightarrow> nat" where
  "pending bits val = unat val mod 2 ^ bits"

lemma pending_less: "pending bits val < 2 ^ bits"
  by (simp add: pending_def)

lemma byte_high_bits: "(b :: nat) < 256 \<Longrightarrow> 8 \<le> n \<Longrightarrow> \<not> bit b n"
proof -
  assume "b < 256" "8 \<le> n"
  moreover have "(2 :: nat) ^ 8 \<le> 2 ^ n" by (rule power_increasing) (use \<open>8 \<le> n\<close> in simp_all)
  ultimately have "b div 2 ^ n = 0" by simp
  then show ?thesis by (simp add: bit_iff_odd)
qed

lemma pending_shift:
  assumes b: "b < 256" and bits: "bits \<le> 4"
  shows "pending (bits + 8) (push_bit 8 val OR of_nat b) = pending bits val * 256 + b"
proof -
  have "push_bit 8 val OR of_nat b = push_bit 8 val + of_nat b"
    by (rule disjunctive_add [symmetric]) (use byte_high_bits [OF b] in \<open>auto simp: bit_simps not_le\<close>)
  moreover have "unat (of_nat b :: 32 word) = b" using b by (simp add: unat_of_nat)
  ultimately have u: "unat (push_bit 8 val OR of_nat b) = (unat val * 256 + b) mod 2 ^ 32"
    by (simp add: push_bit_eq_mult unat_word_ariths mod_simps mult.commute)
  have d: "(2 :: nat) ^ (bits + 8) dvd 2 ^ 32" using bits by (intro le_imp_power_dvd) simp
  have "pending (bits + 8) (push_bit 8 val OR of_nat b) = (unat val * 256 + b) mod (256 * 2 ^ bits)"
    unfolding pending_def u mod_mod_cancel [OF d] by (simp add: power_add mult.commute)
  also have "\<dots> = 256 * ((unat val * 256 + b) div 256 mod 2 ^ bits) + (unat val * 256 + b) mod 256"
    by (rule mod_mult2_eq)
  also have "\<dots> = pending bits val * 256 + b" using b by (simp add: pending_def)
  finally show ?thesis .
qed

lemma pending_digit:
  assumes "5 \<le> bits"
  shows "unat (drop_bit (bits - 5) val AND 0x1f) = pending bits val div 2 ^ (bits - 5)"
    and "pending (bits - 5) val = pending bits val mod 2 ^ (bits - 5)"
proof -
  have unat_self: "take_bit 32 (unat val) = unat val"
  proof (rule take_bit_nat_eq_self)
    have "unat val < 2 ^ LENGTH(32)" by (rule unsigned_less)
    then show "unat val < 2 ^ 32" by simp
  qed
  have e: "(2 :: nat) ^ bits = 2 ^ (bits - 5) * 32"
    using assms power_add [of "2 :: nat" "bits - 5" 5] by simp
  have "pending bits val = 2 ^ (bits - 5) * (unat val div 2 ^ (bits - 5) mod 32) + unat val mod 2 ^ (bits - 5)"
    unfolding pending_def e by (rule mod_mult2_eq)
  moreover have "unat val mod 2 ^ (bits - 5) < 2 ^ (bits - 5)" by simp
  ultimately have q: "pending bits val div 2 ^ (bits - 5) = unat val div 2 ^ (bits - 5) mod 32"
    and r: "pending bits val mod 2 ^ (bits - 5) = unat val mod 2 ^ (bits - 5)"
    by (simp_all add: div_add1_eq)
  show "unat (drop_bit (bits - 5) val AND 0x1f) = pending bits val div 2 ^ (bits - 5)"
    unfolding q and_1f unsigned_drop_bit_eq by (simp add: drop_bit_eq_div unat_self)
  show "pending (bits - 5) val = pending bits val mod 2 ^ (bits - 5)" unfolding r by (simp add: pending_def)
qed

lemma pending_last:
  assumes "0 < bits" "bits \<le> 4"
  shows "unat (push_bit (5 - bits) val AND 0x1f) = pending bits val * 2 ^ (5 - bits)"
proof -
  have d: "(32 :: nat) dvd 2 ^ 32" by simp
  have e: "(32 :: nat) = 2 ^ (5 - bits) * 2 ^ bits"
    using assms power_add [of "2 :: nat" "5 - bits" bits] by simp
  have "bits \<in> {1, 2, 3, 4}" using assms by auto
  then have "unat (push_bit (5 - bits) val) = unat val * 2 ^ (5 - bits) mod 2 ^ 32"
    by (auto simp: push_bit_eq_mult unat_word_ariths)
  then have "unat (push_bit (5 - bits) val AND 0x1f) = unat val * 2 ^ (5 - bits) mod 32"
    by (simp only: and_1f mod_mod_cancel [OF d])
  also have "\<dots> = 2 ^ (5 - bits) * (unat val mod 2 ^ bits)"
    by (subst e) (simp add: mult.commute mult_mod_right)
  finally show ?thesis by (simp add: pending_def mult.commute)
qed

text \<open>Draining keeps the number written so far followed by the pending bits.\<close>

lemma b32_drain_spec:
  assumes "b32_drain bits val = (ds, bits')"
  shows "bits' = bits mod 5 \<and> length ds = bits div 5 \<and> list_all (\<lambda>d. d < 32) ds \<and>
    numeral_of 32 ds * 2 ^ bits' + pending bits' val = pending bits val"
  using assms
proof (induction bits val arbitrary: ds bits' rule: b32_drain.induct)
  case (1 bits val)
  show ?case
  proof (cases "5 \<le> bits")
    case False
    with 1 show ?thesis by (simp add: b32_drain.simps [of bits])
  next
    case True
    obtain es where es: "b32_drain (bits - 5) val = (es, bits')"
        "ds = unat (drop_bit (bits - 5) val AND 0x1f) # es"
      using 1(2) True by (subst (asm) b32_drain.simps) (auto split: prod.splits)
    define d where "d = pending bits val div 2 ^ (bits - 5)"
    have ds: "ds = d # es" using es pending_digit(1) [OF True] by (simp add: d_def)
    have IH: "bits' = (bits - 5) mod 5" "length es = (bits - 5) div 5" "list_all (\<lambda>d. d < 32) es"
        "numeral_of 32 es * 2 ^ bits' + pending bits' val = pending (bits - 5) val"
      using 1(1) [OF True es(1)] by auto
    have m: "bits' = bits mod 5" "length ds = bits div 5"
      using IH(1,2) True ds by (simp_all add: le_mod_geq le_div_geq)
    have "(32 :: nat) ^ length es * 2 ^ bits' = 2 ^ (5 * length es + bits')"
      by (simp add: power_add power_mult)
    also have "5 * length es + bits' = bits - 5" using IH(1,2) by simp
    finally have p: "(32 :: nat) ^ length es * 2 ^ bits' = 2 ^ (bits - 5)" .
    have "(2 :: nat) ^ bits = 2 ^ (bits - 5) * 32" using True power_add [of "2 :: nat" "bits - 5" 5] by simp
    then have d32: "d < 32" using pending_less [of bits val] by (simp add: d_def div_less_iff_less_mult mult.commute)
    have "numeral_of 32 ds * 2 ^ bits' + pending bits' val
        = d * (32 ^ length es * 2 ^ bits') + (numeral_of 32 es * 2 ^ bits' + pending bits' val)"
      by (simp add: ds numeral_of_Cons algebra_simps)
    also have "\<dots> = d * 2 ^ (bits - 5) + pending bits val mod 2 ^ (bits - 5)"
      by (simp only: p IH(4) pending_digit(2) [OF True])
    also have "\<dots> = pending bits val" by (simp only: d_def div_mult_mod_eq)
    finally show ?thesis using m d32 IH(3) ds by simp
  qed
qed

definition b32_pad :: "nat \<Rightarrow> nat" where
  "b32_pad n = (5 - n mod 5) mod 5"

lemma b32_pad_round: "(n + 4) div 5 * 5 = n + b32_pad n"
proof -
  define q r where "q = n div 5" and "r = n mod 5"
  have n: "n = 5 * q + r" by (simp add: q_def r_def)
  have "r < 5" by (simp add: r_def)
  then have "r \<in> {0, 1, 2, 3, 4}" by auto
  then show ?thesis unfolding n b32_pad_def by auto
qed

lemma b32_digits_spec:
  assumes "bytes_ok bs" "bits \<le> 4"
  shows "length (b32_digits bs bits val) = (bits + 8 * length bs + 4) div 5 \<and>
    list_all (\<lambda>d. d < 32) (b32_digits bs bits val) \<and>
    numeral_of 32 (b32_digits bs bits val) =
      (pending bits val * 256 ^ length bs + numeral_of 256 bs) * 2 ^ b32_pad (bits + 8 * length bs)"
  using assms
proof (induction bs arbitrary: bits val)
  case Nil
  then have "bits \<in> {0, 1, 2, 3, 4}" by auto
  then show ?case using Nil pending_less [of bits val] pending_last [of bits val]
    by (auto simp: b32_pad_def numeral_of_Cons pending_def)
next
  case (Cons b bs)
  define val' where "val' = push_bit 8 val OR of_nat b"
  obtain ds bits' where dr: "b32_drain (bits + 8) val' = (ds, bits')" by fastforce
  note D = b32_drain_spec [OF dr]
  have b: "b < 256" and ok: "bytes_ok bs" using Cons.prems by simp_all
  have ps: "pending (bits + 8) val' = pending bits val * 256 + b"
    unfolding val'_def using b Cons.prems by (intro pending_shift)
  have "bits' \<le> 4" using D by (simp add: less_Suc_eq_le [symmetric])
  note IH = Cons.IH [OF ok this, of val']
  let ?tl = "b32_digits bs bits' val'"
  have dg: "b32_digits (b # bs) bits val = ds @ ?tl" by (simp add: val'_def [symmetric] dr)
  have mod_eq: "(bits' + 8 * length bs) mod 5 = (bits + 8 * length (b # bs)) mod 5"
    using D by (simp add: mod_simps algebra_simps)
  then have pad: "b32_pad (bits' + 8 * length bs) = b32_pad (bits + 8 * length (b # bs))"
    by (simp add: b32_pad_def)
  have tot: "bits + 8 = 5 * length ds + bits'" using D by simp
  then have len: "length ds + (bits' + 8 * length bs + 4) div 5 = (bits + 8 * length (b # bs) + 4) div 5"
    by simp
  let ?t = "bits' + 8 * length bs"
  have ltl: "length ?tl * 5 = ?t + b32_pad ?t" using IH b32_pad_round [of ?t] by (metis (no_types))
  have p32: "(32 :: nat) ^ length ?tl = 2 ^ bits' * 256 ^ length bs * 2 ^ b32_pad ?t"
  proof -
    have "(32 :: nat) ^ length ?tl = 2 ^ (length ?tl * 5)" by (subst mult.commute) (simp add: power_mult)
    also have "\<dots> = 2 ^ bits' * 256 ^ length bs * 2 ^ b32_pad ?t"
      unfolding ltl by (simp add: power_add power_mult)
    finally show ?thesis .
  qed
  have "numeral_of 32 (ds @ ?tl) =
      ((numeral_of 32 ds * 2 ^ bits' + pending bits' val') * 256 ^ length bs + numeral_of 256 bs) * 2 ^ b32_pad ?t"
  proof -
    have n: "numeral_of 32 ?tl = (pending bits' val' * 256 ^ length bs + numeral_of 256 bs) * 2 ^ b32_pad ?t"
      using IH by blast
    show ?thesis unfolding numeral_of_append p32 n by (simp only: algebra_simps)
  qed
  also have "\<dots> = ((pending bits val * 256 + b) * 256 ^ length bs + numeral_of 256 bs) * 2 ^ b32_pad ?t"
  proof -
    have "numeral_of 32 ds * 2 ^ bits' + pending bits' val' = pending bits val * 256 + b"
      using D unfolding ps by blast
    then show ?thesis by (rule arg_cong)
  qed
  also have "\<dots> = (pending bits val * 256 ^ length (b # bs) + numeral_of 256 (b # bs)) * 2 ^ b32_pad (bits + 8 * length (b # bs))"
    unfolding pad by (simp add: numeral_of_Cons algebra_simps)
  finally show ?case using IH D len unfolding dg by simp
qed

lemma alphabet_distinct: "distinct BASE32_ALPHABET" "length BASE32_ALPHABET = 32"
  by (simp_all add: BASE32_ALPHABET_def)

lemma base32_inj:
  assumes "bytes_ok as" "bytes_ok bs" "length as = length bs" "base32Encode as = base32Encode bs"
  shows "as = bs"
proof -
  note A = b32_digits_spec [OF assms(1), of 0 0] and B = b32_digits_spec [OF assms(2), of 0 0]
  have "map (\<lambda>d. BASE32_ALPHABET ! d) (b32_digits as 0 0) = map (\<lambda>d. BASE32_ALPHABET ! d) (b32_digits bs 0 0)"
    using assms(4) by (simp add: base32Encode_def)
  moreover have "inj_on (\<lambda>d. BASE32_ALPHABET ! d) {..<32}"
    using alphabet_distinct by (intro inj_onI) (simp add: nth_eq_iff_index_eq)
  ultimately have "b32_digits as 0 0 = b32_digits bs 0 0"
    using A B by (elim inj_on_map_eq_map [THEN iffD1, rotated]) (auto simp: list_all_iff elim: inj_on_subset)
  then have "numeral_of 256 as = numeral_of 256 bs" using A B assms(3) by (simp add: pending_def)
  with assms show ?thesis by (intro numeral_of_inj [of as bs 256]) (simp_all add: bytes_ok_def)
qed

lemma base32_length: "bytes_ok bs \<Longrightarrow> length (base32Encode bs) = (8 * length bs + 4) div 5"
  using b32_digits_spec [of bs 0 0] by (simp add: base32Encode_def)

section \<open>The encoding of a key\<close>

lemma crc_byte_bound: "unat (crc_byte crc b) < 65536"
proof -
  have "crc_byte crc b = crc_bit ((crc_bit ^^ 7) (crc XOR push_bit 8 (of_nat b)))"
    by (simp add: crc_byte_def numeral_eq_Suc)
  moreover have "unat (crc_bit w) < 65536" for w
  proof -
    have "(x :: 32 word) AND 0xffff = take_bit 16 x" for x
      by (simp add: take_bit_eq_mask mask_eq_exp_minus_1)
    then have "unat (crc_bit w) = take_bit 16 (unat (if w AND 0x8000 \<noteq> 0 then push_bit 1 w XOR 0x1021 else push_bit 1 w))"
      unfolding crc_bit_def by (simp only: unsigned_take_bit_eq)
    then show ?thesis by (simp add: take_bit_eq_mod)
  qed
  ultimately show ?thesis by simp
qed

lemma crc16_bound: "unat (crc16xmodem buf) < 65536"
proof (cases buf rule: rev_cases)
  case (snoc ys y)
  then show ?thesis using crc_byte_bound by (simp add: crc16xmodem_def)
qed (simp add: crc16xmodem_def)

text \<open>The 16-bit checksum in little-endian order.\<close>

definition strkey_payload :: "byte list \<Rightarrow> byte list" where
  "strkey_payload raw = (48 # raw) @ [unat (crc16xmodem (48 # raw)) mod 256, unat (crc16xmodem (48 # raw)) div 256]"

lemma encode_payload: "encodeEd25519PublicKey raw = base32Encode (strkey_payload raw)"
  by (simp add: encodeEd25519PublicKey_def strkey_payload_def Let_def)

lemma strkey_payload_ok: "bytes_ok raw \<Longrightarrow> bytes_ok (strkey_payload raw)"
  using crc16_bound [of "48 # raw"] by (simp add: strkey_payload_def div_less_iff_less_mult)

lemma strkey_length: "bytes_ok raw \<Longrightarrow> length raw = 32 \<Longrightarrow> length (encodeEd25519PublicKey raw) = 56"
  by (simp add: encode_payload base32_length strkey_payload_ok) (simp add: strkey_payload_def)

lemma strkey_inj:
  "bytes_ok a \<Longrightarrow> bytes_ok b \<Longrightarrow> length a = length b \<Longrightarrow>
     encodeEd25519PublicKey a = encodeEd25519PublicKey b \<Longrightarrow> a = b"
proof -
  assume A: "bytes_ok a" "bytes_ok b" "length a = length b" "encodeEd25519PublicKey a = encodeEd25519PublicKey b"
  then have "strkey_payload a = strkey_payload b"
    by (intro base32_inj strkey_payload_ok) (simp_all add: encode_payload strkey_payload_def)
  then show "a = b" by (simp add: strkey_payload_def)
qed

lemma strkey_first: "bytes_ok raw \<Longrightarrow> hd (encodeEd25519PublicKey raw) = CHR ''G''"
proof -
  have dr: "b32_drain 8 48 = ([6], 3)" by code_simp
  show ?thesis
    by (simp add: encode_payload strkey_payload_def base32Encode_def dr BASE32_ALPHABET_def)
qed

lemma buffer_from_hex_ok: "bytes_ok (buffer_from_hex s)"
  by (induction s rule: buffer_from_hex.induct) (auto split: option.splits dest!: hex_val_less)

lemma buffer_from_hex_of: "bytes_ok bs \<Longrightarrow> buffer_from_hex (hex_of bs) = bs"
proof (induction bs)
  case (Cons b bs)
  then have "b div 16 < 16" "b mod 16 < 16" by (auto simp: div_less_iff_less_mult)
  with Cons show ?case by (simp add: hex_byte_def hex_val_digit)
qed simp

text \<open>A well-formed hex string is read to its end.\<close>

lemma buffer_from_hex_length:
  "list_all is_hex_char s \<Longrightarrow> length (buffer_from_hex s) = length s div 2"
proof (induction s rule: buffer_from_hex.induct)
  case (1 a b cs)
  then have "is_hex_char a" "is_hex_char b" by simp_all
  then obtain x y where "hex_val a = Some x" "hex_val b = Some y"
    unfolding hex_val_is_hex [symmetric] by blast
  with 1 show ?case by simp
qed simp_all

section \<open>Properties\<close>

text \<open>
  The base-32 loop on 32-bit integers, whose accumulator overflows, computes the base-32
  numeral of its input shifted to a multiple of five bits; so nothing is lost to the wrap-around,
  and the output has \<open>\<lceil>8n/5\<rceil>\<close> digits.
\<close>

theorem base32_is_numeral:
  assumes "bytes_ok bs"
  shows "numeral_of 32 (b32_digits bs 0 0) = numeral_of 256 bs * 2 ^ b32_pad (8 * length bs)
    \<and> list_all (\<lambda>d. d < 32) (b32_digits bs 0 0)
    \<and> length (base32Encode bs) = (8 * length bs + 4) div 5"
  using b32_digits_spec [OF assms, of 0 0] by (simp add: pending_def base32_length assms)

theorem base32_is_numeral_witness:
  "numeral_of 32 (b32_digits [255, 254, 253, 252, 251, 250] 0 0)
     = numeral_of 256 [255, 254, 253, 252, 251, 250] * 2 ^ b32_pad 48"
  using base32_is_numeral [of "[255, 254, 253, 252, 251, 250]"] by simp

text \<open>
  The encoding of a raw key is a StrKey: 56 characters starting with G, and two different
  32-byte keys never share one, so the key pair the verification runs on is the requested one.
\<close>

theorem strkey_faithful:
  assumes "bytes_ok a" "bytes_ok b" "length a = 32" "length b = 32"
  shows "length (encodeEd25519PublicKey a) = 56 \<and> hd (encodeEd25519PublicKey a) = CHR ''G''
    \<and> (encodeEd25519PublicKey a = encodeEd25519PublicKey b \<longleftrightarrow> a = b)"
  using assms strkey_length strkey_first strkey_inj by auto

theorem strkey_faithful_witness:
  "length (encodeEd25519PublicKey (replicate 32 7)) = 56 \<and> hd (encodeEd25519PublicKey (replicate 32 7)) = CHR ''G''
    \<and> (encodeEd25519PublicKey (replicate 32 7) = encodeEd25519PublicKey (replicate 32 8)
         \<longleftrightarrow> replicate 32 (7 :: nat) = replicate 32 8)"
  by (rule strkey_faithful) (simp_all add: bytes_ok_def list_all_iff)

end
