(* ===== verification/CanonicalPayload.thy ===== *)
theory CanonicalPayload
  imports StrKey RelayErrors
begin

text \<open>
  The signed payload, on both sides of the wire: the relayer's builder
  (\<open>services/relayer/src/payload/builder.ts\<close>), the client's port of it
  (\<open>packages/core-sdk/src/relay-payload.ts\<close>) and the wallet's signing handler
  (\<open>apps/extension-wallet/src/background/handlers/sign-relay-payload.ts\<close>). The lemmas show that the
  two builders write the same text, that the text determines all six fields, and that what the
  wallet signs is what the relayer's signature service verifies.
\<close>

record canonical_input =
  ci_sessionKey :: string
  ci_operation :: string
  ci_nonce :: int
  ci_to :: string
  ci_amount :: string
  ci_asset :: string

text \<open>\<open>JSON.stringify\<close> of the ordered literal.\<close>

definition payload_json :: "canonical_input \<Rightarrow> string" where
  "payload_json i = ''{'' @ json_member ''sessionKey'' (json_string (ci_sessionKey i))
     @ '','' @ json_member ''operation'' (json_string (ci_operation i))
     @ '','' @ json_member ''nonce'' (json_int (ci_nonce i))
     @ '','' @ json_member ''to'' (json_string (ci_to i))
     @ '','' @ json_member ''amount'' (json_string (ci_amount i))
     @ '','' @ json_member ''asset'' (json_string (ci_asset i)) @ ''}''"

definition buildCanonicalPayload :: "canonical_input \<Rightarrow> string" where
  "buildCanonicalPayload i = hex_of (utf8 (payload_json i))"

text \<open>\<open>createHash('sha256')\<close> is a parameter: bytes to bytes.\<close>

definition hashPayload :: "(byte list \<Rightarrow> byte list) \<Rightarrow> string \<Rightarrow> string" where
  "hashPayload sha256 payload = hex_of (sha256 (buffer_from_hex payload))"

section \<open>The client's port\<close>

definition bytesToHex :: "byte list \<Rightarrow> string" where
  "bytesToHex bytes = foldl (\<lambda>hex b. hex @ hex_byte b) [] bytes"

definition buildRelayCanonicalPayload :: "canonical_input \<Rightarrow> string" where
  "buildRelayCanonicalPayload i = bytesToHex (utf8 (payload_json i))"

record relay_parameters =
  rp_to :: string
  rp_amount :: string
  rp_asset :: string
  rp_accountAddress :: "string option"

record signed_payload =
  sp_sessionKey :: string
  sp_operation :: string
  sp_parameters :: relay_parameters
  sp_signature :: string
  sp_nonce :: int

text \<open>
  The signer is an argument: from operation, nonce, destination, amount and asset to a session key
  and a signature, or an error it throws. \<open>opts.asset\<close> falls back with \<open>??\<close>,
  \<open>opts.accountAddress\<close> is kept when truthy.
\<close>

type_synonym relay_signer = "string \<Rightarrow> int \<Rightarrow> string \<Rightarrow> string \<Rightarrow> string \<Rightarrow> thrown + (string \<times> string)"

definition buildSignedRelayPayload ::
  "time \<Rightarrow> relay_signer \<Rightarrow> string \<Rightarrow> string \<Rightarrow> string option \<Rightarrow> string option \<Rightarrow> thrown + signed_payload" where
  "buildSignedRelayPayload now signer dest amount asset_opt account_opt =
     (let nonce = now mod 1000000; asset = coalesce asset_opt ''XLM'' in
      case signer ''relay_execute'' nonce dest amount asset of
        Inl e \<Rightarrow> Inl e
      | Inr (sessionKey, signature) \<Rightarrow>
          Inr \<lparr>sp_sessionKey = sessionKey, sp_operation = ''relay_execute'',
               sp_parameters = \<lparr>rp_to = dest, rp_amount = amount, rp_asset = asset,
                 rp_accountAddress = (if truthy_str account_opt then account_opt else None)\<rparr>,
               sp_signature = signature, sp_nonce = nonce\<rparr>)"

section \<open>The wallet's handler\<close>

text \<open>
  \<open>unlocked\<close> is the session state; the key pair is given by its raw public key and its signing
  function (\<open>Keypair#sign\<close> of the SDK).
\<close>

definition signRelayPayload ::
  "bool \<Rightarrow> byte list \<Rightarrow> (byte list \<Rightarrow> byte list) \<Rightarrow> relay_signer" where
  "signRelayPayload unlocked rawPublicKey sign operation nonce dest amount asset =
     (if operation = [] then Inl (JsError ''Error'' ''Invalid operation'' None)
      else if \<not> unlocked then Inl (JsError ''Error'' ''Wallet is locked'' None)
      else let sessionKey = bytesToHex rawPublicKey;
               payloadHex = buildRelayCanonicalPayload \<lparr>ci_sessionKey = sessionKey,
                 ci_operation = operation, ci_nonce = nonce, ci_to = dest, ci_amount = amount,
                 ci_asset = asset\<rparr>
           in Inr (sessionKey, bytesToHex (sign (utf8 payloadHex))))"

section \<open>Lemmas\<close>

lemma bytesToHex_hex_of: "bytesToHex bs = hex_of bs"
proof -
  have "foldl (\<lambda>hex b. hex @ hex_byte b) acc bs = acc @ hex_of bs" for acc
    by (induction bs arbitrary: acc) simp_all
  then show ?thesis by (simp add: bytesToHex_def)
qed

lemma builders_agree: "buildRelayCanonicalPayload i = buildCanonicalPayload i"
  by (simp add: buildRelayCanonicalPayload_def buildCanonicalPayload_def bytesToHex_hex_of)

lemma json_member_string_prefix:
  "json_member n (json_string s) @ r = json_member n (json_string t) @ r' \<Longrightarrow> s = t \<and> r = r'"
  by (auto simp: json_member_def dest!: json_string_prefix_free)

lemma json_member_string_inj:
  "json_member n (json_string s) = json_member n (json_string t) \<Longrightarrow> s = t"
  using json_member_string_prefix [of n s "[]" t "[]"] by simp

lemma json_member_int_prefix:
  "0 \<le> i \<Longrightarrow> 0 \<le> j \<Longrightarrow> json_member n (json_int i) @ CHR '','' # r = json_member n (json_int j) @ CHR '','' # r'
     \<Longrightarrow> i = j \<and> r = r'"
  using json_int_prefix_free [of i j r r'] by (simp add: json_member_def)

lemma payload_json_inj:
  assumes "0 \<le> ci_nonce i" "0 \<le> ci_nonce j" "payload_json i = payload_json j"
  shows "i = (j :: canonical_input)"
proof -
  have 1: "ci_sessionKey i = ci_sessionKey j"
    and e1: "json_member ''operation'' (json_string (ci_operation i)) @ CHR '','' #
       json_member ''nonce'' (json_int (ci_nonce i)) @ CHR '','' #
       json_member ''to'' (json_string (ci_to i)) @ CHR '','' #
       json_member ''amount'' (json_string (ci_amount i)) @ CHR '','' #
       json_member ''asset'' (json_string (ci_asset i)) @ ''}''
     = json_member ''operation'' (json_string (ci_operation j)) @ CHR '','' #
       json_member ''nonce'' (json_int (ci_nonce j)) @ CHR '','' #
       json_member ''to'' (json_string (ci_to j)) @ CHR '','' #
       json_member ''amount'' (json_string (ci_amount j)) @ CHR '','' #
       json_member ''asset'' (json_string (ci_asset j)) @ ''}''"
    using assms(3) unfolding payload_json_def by (auto dest!: json_member_string_prefix)
  note e2 = json_member_string_prefix [OF e1]
  then have "ci_nonce i = ci_nonce j \<and>
     json_member ''to'' (json_string (ci_to i)) @ CHR '','' #
       json_member ''amount'' (json_string (ci_amount i)) @ CHR '','' #
       json_member ''asset'' (json_string (ci_asset i)) @ ''}''
     = json_member ''to'' (json_string (ci_to j)) @ CHR '','' #
       json_member ''amount'' (json_string (ci_amount j)) @ CHR '','' #
       json_member ''asset'' (json_string (ci_asset j)) @ ''}''"
    using assms(1,2) by (intro json_member_int_prefix [where n = "''nonce''"]) simp_all
  then have "ci_nonce i = ci_nonce j \<and> ci_to i = ci_to j \<and> ci_amount i = ci_amount j \<and> ci_asset i = ci_asset j"
    by (auto dest!: json_member_string_prefix json_member_string_inj)
  with 1 e2 show ?thesis by (simp add: canonical_input.equality)
qed

lemma payload_inj:
  "0 \<le> ci_nonce i \<Longrightarrow> 0 \<le> ci_nonce j \<Longrightarrow> buildCanonicalPayload i = buildCanonicalPayload j \<Longrightarrow>
     i = (j :: canonical_input)"
  unfolding buildCanonicalPayload_def
  by (drule hex_of_inj [OF utf8_bytes_ok utf8_bytes_ok], drule utf8_inj, rule payload_json_inj)

text \<open>The wallet's answer passes the relayer's check when the SDK's pair is an Ed25519 pair.\<close>

lemma wallet_signature_verifies:
  assumes "bytes_ok raw" "length raw = 32"
    and "\<And>m. bytes_ok (sign m)" "\<And>m. length (sign m) = 64"
    and "from_public_key (encodeEd25519PublicKey raw) = Some kp"
    and "\<And>m. kp_verify kp m (sign m) = Some True"
    and "signRelayPayload unlocked raw sign operation nonce dest amount asset = Inr (sk, sg)"
  shows "sk = hex_of raw \<and> sig_verify from_public_key kp_verify sk
      (buildCanonicalPayload \<lparr>ci_sessionKey = sk, ci_operation = operation, ci_nonce = nonce,
         ci_to = dest, ci_amount = amount, ci_asset = asset\<rparr>) sg"
proof -
  let ?i = "\<lparr>ci_sessionKey = hex_of raw, ci_operation = operation, ci_nonce = nonce,
     ci_to = dest, ci_amount = amount, ci_asset = asset\<rparr>"
  have "(sk, sg) = (hex_of raw, hex_of (sign (utf8 (buildCanonicalPayload ?i))))"
    using assms(7)
    by (simp only: signRelayPayload_def Let_def bytesToHex_hex_of builders_agree sum.inject split: if_splits) auto
  then have r: "sk = hex_of raw" "sg = hex_of (sign (utf8 (buildCanonicalPayload ?i)))" by blast+
  have "buffer_from_hex sk = raw" "buffer_from_hex sg = sign (utf8 (buildCanonicalPayload ?i))"
    unfolding r using assms(1,3) by (simp_all only: buffer_from_hex_of)
  with assms(2,4,5,6) show ?thesis unfolding r by (simp add: sig_verify_def Let_def)
qed

section \<open>Properties\<close>

text \<open>
  C12. The signed text binds every field: the client's and the relayer's builder write the same
  string for the same input, and two inputs with the same string agree in all six fields.
\<close>

theorem payload_binds_all_fields:
  assumes "0 \<le> ci_nonce i" "0 \<le> ci_nonce j"
  shows "buildRelayCanonicalPayload i = buildCanonicalPayload j \<longleftrightarrow> i = j"
  using payload_inj [OF assms] by (auto simp: builders_agree)

theorem payload_binds_all_fields_witness:
  "buildRelayCanonicalPayload \<lparr>ci_sessionKey = ''ab'', ci_operation = ''relay_execute'', ci_nonce = 1,
      ci_to = ''G'', ci_amount = ''1'', ci_asset = ''0''\<rparr>
   \<noteq> buildCanonicalPayload \<lparr>ci_sessionKey = ''ab'', ci_operation = ''relay_execute'', ci_nonce = 1,
      ci_to = ''G'', ci_amount = ''10'', ci_asset = []\<rparr>"
  by (subst payload_binds_all_fields) simp_all

text \<open>
  C10. From the wallet to the relayer: for any key pair whose SDK verification accepts its own
  signatures, the session key and signature the unlocked wallet returns pass the relayer's signature
  check over the payload the relayer rebuilds from the request.
\<close>

theorem wallet_to_relayer:
  assumes "bytes_ok raw" "length raw = 32"
    and "\<And>m. bytes_ok (sign m)" "\<And>m. length (sign m) = 64"
    and "from_public_key (encodeEd25519PublicKey raw) = Some kp"
    and "\<And>m. kp_verify kp m (sign m) = Some True"
    and "signRelayPayload True raw sign operation nonce dest amount asset = Inr (sk, sg)"
  shows "sig_verify from_public_key kp_verify sk
      (buildCanonicalPayload \<lparr>ci_sessionKey = sk, ci_operation = operation, ci_nonce = nonce,
         ci_to = dest, ci_amount = amount, ci_asset = asset\<rparr>) sg"
  by (rule conjunct2, rule wallet_signature_verifies [of raw sign from_public_key kp kp_verify True])
     (fact assms)+

definition toy_sign :: "byte list \<Rightarrow> byte list" where
  "toy_sign m = replicate 64 (length m mod 256)"

theorem wallet_to_relayer_witness:
  "\<exists>sk sg. signRelayPayload True (replicate 32 7) toy_sign ''relay_execute'' 5 ''G'' ''10'' ''XLM'' = Inr (sk, sg)
     \<and> sig_verify Some (\<lambda>k m s. Some (s = toy_sign m)) sk
        (buildCanonicalPayload \<lparr>ci_sessionKey = sk, ci_operation = ''relay_execute'', ci_nonce = 5,
           ci_to = ''G'', ci_amount = ''10'', ci_asset = ''XLM''\<rparr>) sg"
proof -
  obtain sk sg where r: "signRelayPayload True (replicate 32 7) toy_sign ''relay_execute'' 5 ''G'' ''10'' ''XLM'' = Inr (sk, sg)"
    by (simp add: signRelayPayload_def Let_def)
  have "sig_verify Some (\<lambda>k m s. Some (s = toy_sign m)) sk
      (buildCanonicalPayload \<lparr>ci_sessionKey = sk, ci_operation = ''relay_execute'', ci_nonce = 5,
         ci_to = ''G'', ci_amount = ''10'', ci_asset = ''XLM''\<rparr>) sg"
    by (rule wallet_to_relayer [OF _ _ _ _ _ _ r]) (simp_all add: bytes_ok_def toy_sign_def list_all_iff)
  with r show ?thesis by blast
qed

end
