(* ===== verification/JobQueue.thy ===== *)
theory JobQueue
  imports Prelude JsNumber
begin

text \<open>
  \<open>services/relayer/src/queue\<close>: the in-memory job queue (\<open>JobQueue.ts\<close>, \<open>types.ts\<close>) with duplicate
  suppression, FIFO dequeue, acknowledgement and retry with jittered backoff (\<open>backoff.ts\<close>). UUIDs,
  clock readings and random numbers are arguments. The locale \<open>work_queue\<close> is what a worker relies
  on; the invariant says that no idempotency key has two live jobs.
\<close>

datatype job_status = JPending | JProcessing | JCompleted | JFailed | JDead

record 'p job =
  job_id :: string
  job_key :: string
  job_type :: string
  job_payload :: 'p
  job_requestId :: "string option"
  job_status :: job_status
  job_attempts :: int
  job_maxAttempts :: int
  job_createdAt :: time
  job_updatedAt :: time
  job_retryAfter :: "time option"
  job_lastError :: "string option"

record 'p job_queue =
  jq_jobs :: "(string, 'p job) jsmap"
  jq_index :: "(string, string) jsmap"

record 'p enqueue_options =
  eo_key :: string
  eo_type :: string
  eo_payload :: 'p
  eo_maxAttempts :: "int option"
  eo_requestId :: "string option"

definition DEFAULT_MAX_ATTEMPTS :: int where
  "DEFAULT_MAX_ATTEMPTS = 5"

definition empty_queue :: "'p job_queue" where
  "empty_queue = \<lparr>jq_jobs = [], jq_index = []\<rparr>"

definition isTerminal :: "job_status \<Rightarrow> bool" where
  "isTerminal s = (s = JCompleted \<or> s = JDead)"

section \<open>Backoff\<close>

text \<open>\<open>rnd\<close> is the value of \<open>Math.random()\<close>; the product is rounded before \<open>Math.floor\<close>.\<close>

definition computeBackoffMs :: "rat \<Rightarrow> nat \<Rightarrow> int \<Rightarrow> int \<Rightarrow> int" where
  "computeBackoffMs rnd attempt baseMs capMs =
     (let exponential = min capMs (baseMs * 2 ^ attempt)
      in case f64 (rnd * of_int exponential) of Fin x \<Rightarrow> \<lfloor>x\<rfloor> | _ \<Rightarrow> 0)"

definition nextRetryAfter :: "rat \<Rightarrow> nat \<Rightarrow> time \<Rightarrow> time" where
  "nextRetryAfter rnd attempt now = now + computeBackoffMs rnd attempt 1000 60000"

section \<open>Operations\<close>

text \<open>The object literal of a fresh job; \<open>requestId\<close> is kept when truthy.\<close>

definition new_job :: "string \<Rightarrow> time \<Rightarrow> 'p enqueue_options \<Rightarrow> 'p job" where
  "new_job uuid now opts =
     \<lparr>job_id = uuid, job_key = eo_key opts, job_type = eo_type opts, job_payload = eo_payload opts,
      job_requestId = (if eo_requestId opts = Some [] then None else eo_requestId opts),
      job_status = JPending, job_attempts = 0,
      job_maxAttempts = coalesce (eo_maxAttempts opts) DEFAULT_MAX_ATTEMPTS,
      job_createdAt = now, job_updatedAt = now, job_retryAfter = None, job_lastError = None\<rparr>"

text \<open>The job the index leads to, when the key is known and the id truthy.\<close>

definition getByIdempotencyKey :: "string \<Rightarrow> 'p job_queue \<Rightarrow> 'p job option" where
  "getByIdempotencyKey key q = (case map_get (jq_index q) key of
       None \<Rightarrow> None | Some i \<Rightarrow> if i = [] then None else map_get (jq_jobs q) i)"

definition insert_job :: "'p job \<Rightarrow> 'p job_queue \<Rightarrow> 'p job_queue" where
  "insert_job j q = q\<lparr>jq_jobs := map_set (job_id j) j (jq_jobs q),
     jq_index := map_set (job_key j) (job_id j) (jq_index q)\<rparr>"

definition jq_enqueue :: "string \<Rightarrow> time \<Rightarrow> 'p enqueue_options \<Rightarrow> 'p job_queue \<Rightarrow> 'p job \<times> 'p job_queue" where
  "jq_enqueue uuid now opts q =
     (case getByIdempotencyKey (eo_key opts) q of
        Some existing \<Rightarrow>
          if \<not> isTerminal (job_status existing) then (existing, q)
          else (new_job uuid now opts, insert_job (new_job uuid now opts) q)
      | None \<Rightarrow> (new_job uuid now opts, insert_job (new_job uuid now opts) q))"

definition job_eligible :: "time \<Rightarrow> 'p job \<Rightarrow> bool" where
  "job_eligible now j = (job_status j = JPending
     \<and> (case job_retryAfter j of None \<Rightarrow> True | Some r \<Rightarrow> \<not> r > now))"

definition jq_update :: "string \<Rightarrow> ('p job \<Rightarrow> 'p job) \<Rightarrow> 'p job_queue \<Rightarrow> 'p job_queue" where
  "jq_update i patch q = (case map_get (jq_jobs q) i of
       None \<Rightarrow> q | Some j \<Rightarrow> q\<lparr>jq_jobs := map_set i (patch j) (jq_jobs q)\<rparr>)"

text \<open>The first of the eligible jobs in a stable sort by creation time.\<close>

definition jq_candidate :: "time \<Rightarrow> 'p job_queue \<Rightarrow> 'p job option" where
  "jq_candidate now q = (case sort_key job_createdAt (filter (job_eligible now) (map_values (jq_jobs q))) of
       [] \<Rightarrow> None | j # _ \<Rightarrow> Some j)"

text \<open>The patches given to \<open>update\<close>.\<close>

definition start_patch :: "time \<Rightarrow> 'p job \<Rightarrow> 'p job" where
  "start_patch now j = j\<lparr>job_status := JProcessing, job_updatedAt := now\<rparr>"

definition complete_patch :: "time \<Rightarrow> 'p job \<Rightarrow> 'p job" where
  "complete_patch now j = j\<lparr>job_status := JCompleted, job_updatedAt := now\<rparr>"

definition bury_patch :: "int \<Rightarrow> string \<Rightarrow> time \<Rightarrow> 'p job \<Rightarrow> 'p job" where
  "bury_patch attempts err now j = j\<lparr>job_status := JDead, job_attempts := attempts,
     job_lastError := Some err, job_updatedAt := now\<rparr>"

definition retry_patch :: "rat \<Rightarrow> int \<Rightarrow> string \<Rightarrow> time \<Rightarrow> 'p job \<Rightarrow> 'p job" where
  "retry_patch rnd attempts err now j = j\<lparr>job_status := JPending, job_attempts := attempts,
     job_lastError := Some err, job_retryAfter := Some (nextRetryAfter rnd (nat attempts) now),
     job_updatedAt := now\<rparr>"

definition jq_dequeue :: "time \<Rightarrow> time \<Rightarrow> 'p job_queue \<Rightarrow> 'p job option \<times> 'p job_queue" where
  "jq_dequeue now now' q = (case jq_candidate now q of
       None \<Rightarrow> (None, q)
     | Some c \<Rightarrow> let q' = jq_update (job_id c) (start_patch now') q
                 in (map_get (jq_jobs q') (job_id c), q'))"

definition jq_ack :: "time \<Rightarrow> string \<Rightarrow> 'p job_queue \<Rightarrow> 'p job_queue" where
  "jq_ack now i q = jq_update i (complete_patch now) q"

definition jq_nack :: "rat \<Rightarrow> time \<Rightarrow> string \<Rightarrow> string \<Rightarrow> 'p job_queue \<Rightarrow> 'p job_queue" where
  "jq_nack rnd now i err q = (case map_get (jq_jobs q) i of
       None \<Rightarrow> q
     | Some job \<Rightarrow>
         let attempts = job_attempts job + 1 in
         if attempts \<ge> job_maxAttempts job then jq_update i (bury_patch attempts err now) q
         else jq_update i (retry_patch rnd attempts err now) q)"

definition jq_getById :: "string \<Rightarrow> 'p job_queue \<Rightarrow> 'p job option" where
  "jq_getById i q = map_get (jq_jobs q) i"

definition getDeadLetterJobs :: "'p job_queue \<Rightarrow> 'p job list" where
  "getDeadLetterJobs q = filter (\<lambda>j. job_status j = JDead) (map_values (jq_jobs q))"

definition jq_size :: "'p job_queue \<Rightarrow> nat" where
  "jq_size q = length (jq_jobs q)"

section \<open>Backoff bounds\<close>

lemma backoff_bounds:
  assumes "0 \<le> rnd" "rnd < 1" "0 \<le> baseMs" "0 \<le> capMs" "capMs < 2 ^ 53"
  shows "0 \<le> computeBackoffMs rnd attempt baseMs capMs"
    and "computeBackoffMs rnd attempt baseMs capMs \<le> min capMs (baseMs * 2 ^ attempt)"
proof -
  define e where "e = min capMs (baseMs * 2 ^ attempt)"
  have e: "0 \<le> e" "e < 2 ^ 53" using assms by (simp_all add: e_def min_less_iff_disj)
  have p: "0 \<le> rnd * of_int e" "rnd * of_int e \<le> of_int e"
    using assms e mult_right_mono [of rnd 1 "of_int e"] by simp_all
  have r: "0 \<le> round_mag (rnd * of_int e)" "round_mag (rnd * of_int e) \<le> of_int e"
    using p e by (simp_all add: round_mag_nonneg round_mag_le_int)
  have "(of_int e :: rat) < of_int (2 ^ 53)" using e by (simp only: of_int_less_iff)
  also have "(of_int (2 ^ 53) :: rat) = pow2 53" by (simp add: pow2_def)
  also have "\<dots> \<le> pow2 1024" by (intro pow2_mono) simp
  finally have "\<not> pow2 1024 \<le> round_mag (rnd * of_int e)" using r by simp
  then have f: "f64 (rnd * of_int e) = Fin (round_mag (rnd * of_int e))"
    using p by (simp add: f64_def Let_def not_less)
  have c: "computeBackoffMs rnd attempt baseMs capMs = \<lfloor>round_mag (rnd * of_int e)\<rfloor>"
    by (simp add: computeBackoffMs_def e_def [symmetric] f)
  show "0 \<le> computeBackoffMs rnd attempt baseMs capMs" using r by (simp add: c)
  have "\<lfloor>round_mag (rnd * of_int e)\<rfloor> \<le> \<lfloor>(of_int e :: rat)\<rfloor>" using r by (intro floor_mono)
  then show "computeBackoffMs rnd attempt baseMs capMs \<le> min capMs (baseMs * 2 ^ attempt)"
    by (simp add: c e_def)
qed

section \<open>Invariant\<close>

text \<open>
  Every job is filed under its id, every index entry leads to a job of that key, and a job that is
  not finished is the one its key leads to.
\<close>

definition job_ok :: "'p job_queue \<Rightarrow> string \<times> 'p job \<Rightarrow> bool" where
  "job_ok q = (\<lambda>(i, j). job_id j = i \<and> i \<noteq> [] \<and> job_status j \<noteq> JFailed \<and> 0 \<le> job_attempts j
     \<and> job_attempts j \<le> max 1 (job_maxAttempts j)
     \<and> (job_status j = JDead \<or> job_attempts j = 0 \<or> job_attempts j < job_maxAttempts j)
     \<and> (isTerminal (job_status j) \<or> map_get (jq_index q) (job_key j) = Some i))"

definition index_ok :: "'p job_queue \<Rightarrow> string \<times> string \<Rightarrow> bool" where
  "index_ok q = (\<lambda>(k, i). case map_get (jq_jobs q) i of None \<Rightarrow> False | Some j \<Rightarrow> job_key j = k)"

definition jq_wf :: "'p job_queue \<Rightarrow> bool" where
  "jq_wf q = (map_wf (jq_jobs q) \<and> map_wf (jq_index q)
     \<and> list_all (job_ok q) (jq_jobs q) \<and> list_all (index_ok q) (jq_index q))"

lemma jq_wf_iff: "jq_wf q \<longleftrightarrow> map_wf (jq_jobs q) \<and> map_wf (jq_index q)
     \<and> (\<forall>i j. map_get (jq_jobs q) i = Some j \<longrightarrow> job_ok q (i, j))
     \<and> (\<forall>k i. map_get (jq_index q) k = Some i \<longrightarrow> index_ok q (k, i))"
  by (auto simp: jq_wf_def map_all_iff)

lemma jq_wf_maps: "jq_wf q \<Longrightarrow> map_wf (jq_jobs q)" "jq_wf q \<Longrightarrow> map_wf (jq_index q)"
  by (simp_all add: jq_wf_def)

lemma jq_wf_job: "jq_wf q \<Longrightarrow> map_get (jq_jobs q) i = Some j \<Longrightarrow> job_ok q (i, j)"
  by (simp add: jq_wf_iff)

lemma jq_wf_index: "jq_wf q \<Longrightarrow> map_get (jq_index q) k = Some i \<Longrightarrow>
   \<exists>j. map_get (jq_jobs q) i = Some j \<and> job_key j = k"
proof -
  assume "jq_wf q" "map_get (jq_index q) k = Some i"
  then have "index_ok q (k, i)" by (simp add: jq_wf_iff)
  then show ?thesis by (auto simp: index_ok_def split: option.splits)
qed

lemma jq_wf_empty: "jq_wf empty_queue"
  by (simp add: jq_wf_def empty_queue_def)

text \<open>Two live jobs never share an idempotency key.\<close>

lemma live_unique:
  "jq_wf q \<Longrightarrow> map_get (jq_jobs q) i = Some a \<Longrightarrow> map_get (jq_jobs q) i' = Some b \<Longrightarrow>
     job_key a = job_key b \<Longrightarrow> \<not> isTerminal (job_status a) \<Longrightarrow> \<not> isTerminal (job_status b) \<Longrightarrow> i = i'"
  using jq_wf_job [of q i a] jq_wf_job [of q i' b] by (auto simp: job_ok_def)

lemma update_jobs: "map_get (jq_jobs (jq_update i f q)) i' =
   (if i' = i then map_option f (map_get (jq_jobs q) i) else map_get (jq_jobs q) i')"
  by (auto simp: jq_update_def jsmap_simps split: option.splits)

lemma update_index [simp]: "jq_index (jq_update i f q) = jq_index q"
  by (simp add: jq_update_def split: option.splits)

lemma update_wf:
  assumes wf: "jq_wf q"
    and f: "\<And>j. map_get (jq_jobs q) i = Some j \<Longrightarrow> job_key (f j) = job_key j \<and> job_ok q (i, f j)"
  shows "jq_wf (jq_update i f q)"
proof -
  have "map_wf (jq_jobs (jq_update i f q))"
    using jq_wf_maps [OF wf] by (simp add: jq_update_def map_wf_set split: option.splits)
  moreover have "job_ok (jq_update i f q) (i', j)" if "map_get (jq_jobs (jq_update i f q)) i' = Some j" for i' j
    using that f wf by (auto simp: update_jobs job_ok_def split: if_splits dest!: jq_wf_job)
  moreover have "index_ok (jq_update i f q) (k, i')" if "map_get (jq_index q) k = Some i'" for k i'
    using jq_wf_index [OF wf that] f by (auto simp: index_ok_def update_jobs split: option.splits)
  ultimately show ?thesis using jq_wf_maps [OF wf] by (simp add: jq_wf_iff)
qed

lemma lookup_key_job: "jq_wf q \<Longrightarrow> getByIdempotencyKey k q = Some j \<Longrightarrow>
   map_get (jq_jobs q) (job_id j) = Some j \<and> job_key j = k"
proof -
  assume wf: "jq_wf q" and "getByIdempotencyKey k q = Some j"
  then obtain i where i: "map_get (jq_index q) k = Some i" "map_get (jq_jobs q) i = Some j"
    by (auto simp: getByIdempotencyKey_def split: option.splits if_splits)
  then show ?thesis using jq_wf_index [OF wf i(1)] jq_wf_job [OF wf i(2)] by (auto simp: job_ok_def)
qed

lemma live_found: "jq_wf q \<Longrightarrow> map_get (jq_jobs q) i = Some j \<Longrightarrow> \<not> isTerminal (job_status j) \<Longrightarrow>
   getByIdempotencyKey (job_key j) q = Some j"
  by (auto simp: getByIdempotencyKey_def job_ok_def dest: jq_wf_job)

lemma insert_job_wf:
  assumes wf: "jq_wf q" and fresh: "map_get (jq_jobs q) (job_id j) = None"
    and none: "\<And>j'. getByIdempotencyKey (job_key j) q = Some j' \<Longrightarrow> isTerminal (job_status j')"
    and j: "job_id j \<noteq> []" "job_status j = JPending" "job_attempts j = 0"
  shows "jq_wf (insert_job j q)"
proof -
  have get: "map_get (jq_jobs (insert_job j q)) i = (if i = job_id j then Some j else map_get (jq_jobs q) i)"
    and idx: "map_get (jq_index (insert_job j q)) k = (if k = job_key j then Some (job_id j) else map_get (jq_index q) k)" for i k
    by (simp_all add: insert_job_def jsmap_simps)
  have "job_ok (insert_job j q) (i, j')" if "map_get (jq_jobs (insert_job j q)) i = Some j'" for i j'
  proof (cases "i = job_id j")
    case True
    with that have jj: "j' = j" by (simp add: get)
    show ?thesis unfolding jj using j True by (simp add: job_ok_def idx le_max_iff_disj)
  next
    case False
    with that have old: "map_get (jq_jobs q) i = Some j'" by (simp add: get)
    have "isTerminal (job_status j')" if "job_key j' = job_key j"
      using live_found [OF wf old] none that by fastforce
    then show ?thesis using jq_wf_job [OF wf old] by (auto simp: job_ok_def idx)
  qed
  moreover have "index_ok (insert_job j q) (k, i)" if "map_get (jq_index (insert_job j q)) k = Some i" for k i
    using that jq_wf_index [OF wf] fresh by (fastforce simp: index_ok_def get idx split: if_splits option.splits)
  moreover have "map_wf (jq_jobs (insert_job j q))" "map_wf (jq_index (insert_job j q))"
    using wf by (simp_all add: insert_job_def map_wf_set jq_wf_maps)
  ultimately show ?thesis by (simp add: jq_wf_iff)
qed

lemma enqueue_wf [invar_intros]:
  "jq_wf q \<Longrightarrow> map_get (jq_jobs q) uuid = None \<Longrightarrow> uuid \<noteq> [] \<Longrightarrow> jq_wf (snd (jq_enqueue uuid now opts q))"
  by (auto simp: jq_enqueue_def new_job_def intro!: insert_job_wf split: option.splits)

lemma candidate_some:
  assumes "jq_wf q" "jq_candidate now q = Some c"
  shows "map_get (jq_jobs q) (job_id c) = Some c" "job_eligible now c"
    "\<And>i j. map_get (jq_jobs q) i = Some j \<Longrightarrow> job_eligible now j \<Longrightarrow> job_createdAt c \<le> job_createdAt j"
proof -
  let ?l = "filter (job_eligible now) (map_values (jq_jobs q))"
  have l: "\<exists>r. sort_key job_createdAt ?l = c # r"
    using assms(2) by (auto simp: jq_candidate_def split: list.splits)
  then obtain r where r: "sort_key job_createdAt ?l = c # r" by blast
  then have "c \<in> set ?l" by (metis list.set_intros(1) set_sort)
  then obtain i where i: "map_get (jq_jobs q) i = Some c" and e: "job_eligible now c"
    by (auto simp: map_values_iff [OF jq_wf_maps(1) [OF assms(1)]])
  then have "job_id c = i" using jq_wf_job [OF assms(1) i] by (simp add: job_ok_def)
  with i e show "map_get (jq_jobs q) (job_id c) = Some c" "job_eligible now c" by simp_all
  fix i j assume "map_get (jq_jobs q) i = Some j" "job_eligible now j"
  then have "j \<in> set (sort_key job_createdAt ?l)"
    by (auto simp: map_values_iff [OF jq_wf_maps(1) [OF assms(1)]])
  moreover have "sorted (map job_createdAt (sort_key job_createdAt ?l))" by (rule sorted_sort_key)
  ultimately show "job_createdAt c \<le> job_createdAt j" unfolding r by auto
qed

lemma candidate_none: "jq_wf q \<Longrightarrow> jq_candidate now q = None \<longleftrightarrow>
   (\<forall>i j. map_get (jq_jobs q) i = Some j \<longrightarrow> \<not> job_eligible now j)"
proof -
  assume wf: "jq_wf q"
  have "jq_candidate now q = None \<longleftrightarrow> sort_key job_createdAt (filter (job_eligible now) (map_values (jq_jobs q))) = []"
    by (simp add: jq_candidate_def split: list.splits)
  also have "\<dots> \<longleftrightarrow> filter (job_eligible now) (map_values (jq_jobs q)) = []"
    by (metis set_empty set_sort)
  also have "\<dots> \<longleftrightarrow> (\<forall>j \<in> set (map_values (jq_jobs q)). \<not> job_eligible now j)"
    by (simp add: filter_empty_conv)
  finally show ?thesis by (auto simp: map_values_iff [OF jq_wf_maps(1) [OF wf]])
qed

lemma dequeue_some:
  assumes "jq_wf q" "jq_candidate now q = Some c"
  shows "jq_dequeue now now' q = (Some (start_patch now' c),
     jq_update (job_id c) (start_patch now') q)"
  using candidate_some(1) [OF assms] assms(2) by (simp add: jq_dequeue_def update_jobs Let_def)

lemma dequeue_none: "jq_candidate now q = None \<Longrightarrow> jq_dequeue now now' q = (None, q)"
  by (simp add: jq_dequeue_def)

lemma patch_frame [simp]:
  "job_id (start_patch t j) = job_id j" "job_key (start_patch t j) = job_key j"
  "job_status (start_patch t j) = JProcessing" "job_attempts (start_patch t j) = job_attempts j"
  "job_maxAttempts (start_patch t j) = job_maxAttempts j"
  "job_id (complete_patch t j) = job_id j" "job_key (complete_patch t j) = job_key j"
  "job_status (complete_patch t j) = JCompleted" "job_attempts (complete_patch t j) = job_attempts j"
  "job_maxAttempts (complete_patch t j) = job_maxAttempts j"
  "job_id (bury_patch n e t j) = job_id j" "job_key (bury_patch n e t j) = job_key j"
  "job_status (bury_patch n e t j) = JDead" "job_attempts (bury_patch n e t j) = n"
  "job_maxAttempts (bury_patch n e t j) = job_maxAttempts j"
  "job_id (retry_patch r n e t j) = job_id j" "job_key (retry_patch r n e t j) = job_key j"
  "job_status (retry_patch r n e t j) = JPending" "job_attempts (retry_patch r n e t j) = n"
  "job_maxAttempts (retry_patch r n e t j) = job_maxAttempts j"
  by (simp_all add: start_patch_def complete_patch_def bury_patch_def retry_patch_def)

lemma dequeue_wf [invar_intros]: "jq_wf q \<Longrightarrow> jq_wf (snd (jq_dequeue now now' q))"
proof (cases "jq_candidate now q")
  case (Some c)
  assume wf: "jq_wf q"
  note C = candidate_some [OF wf Some]
  have "job_status c = JPending" using C(2) by (simp add: job_eligible_def)
  moreover have "job_ok q (job_id c, c)" using wf C(1) by (rule jq_wf_job)
  ultimately have "job_ok q (job_id c, start_patch now' c)"
    by (simp add: job_ok_def isTerminal_def)
  then have "job_ok q (job_id c, start_patch now' j)" if "map_get (jq_jobs q) (job_id c) = Some j" for j
    using that C(1) by simp
  then show ?thesis unfolding dequeue_some [OF wf Some] by (auto intro: update_wf [OF wf])
qed (simp add: dequeue_none)

text \<open>The ids handed out and not yet acknowledged. \<open>jq_ack\<close> and \<open>jq_nack\<close> themselves, like the source, take any id.\<close>

definition in_processing :: "'p job_queue \<Rightarrow> string \<Rightarrow> bool" where
  "in_processing q i = (case map_get (jq_jobs q) i of None \<Rightarrow> False | Some j \<Rightarrow> job_status j = JProcessing)"

lemma in_processing_job:
  "jq_wf q \<Longrightarrow> in_processing q i \<Longrightarrow> \<exists>j. map_get (jq_jobs q) i = Some j \<and> job_status j = JProcessing
     \<and> job_id j = i \<and> i \<noteq> [] \<and> 0 \<le> job_attempts j \<and> map_get (jq_index q) (job_key j) = Some i
     \<and> (job_attempts j = 0 \<or> job_attempts j < job_maxAttempts j)"
  by (auto simp: in_processing_def job_ok_def isTerminal_def split: option.splits dest: jq_wf_job)

lemma ack_wf [invar_intros]:
  assumes wf: "jq_wf q" and p: "in_processing q i" shows "jq_wf (jq_ack now i q)"
  unfolding jq_ack_def
proof (rule update_wf [OF wf], intro conjI)
  fix j assume "map_get (jq_jobs q) i = Some j"
  with in_processing_job [OF wf p] show "job_ok q (i, complete_patch now j)"
    by (auto simp: job_ok_def isTerminal_def le_max_iff_disj)
qed simp

lemma nack_wf [invar_intros]:
  assumes wf: "jq_wf q" and p: "in_processing q i" shows "jq_wf (jq_nack rnd now i err q)"
proof -
  obtain j where j: "map_get (jq_jobs q) i = Some j" and J: "job_id j = i" "i \<noteq> []"
    "0 \<le> job_attempts j" "map_get (jq_index q) (job_key j) = Some i"
    "job_attempts j = 0 \<or> job_attempts j < job_maxAttempts j"
    using in_processing_job [OF wf p] by blast
  let ?n = "job_attempts j + 1"
  have eq: "jq_nack rnd now i err q = (if ?n \<ge> job_maxAttempts j then jq_update i (bury_patch ?n err now) q
      else jq_update i (retry_patch rnd ?n err now) q)"
    by (simp add: jq_nack_def j Let_def)
  have "job_ok q (i, bury_patch ?n err now j)"
    using J by (auto simp: job_ok_def isTerminal_def le_max_iff_disj)
  moreover have "?n < job_maxAttempts j \<Longrightarrow> job_ok q (i, retry_patch rnd ?n err now j)"
    using J by (auto simp: job_ok_def le_max_iff_disj)
  ultimately show ?thesis unfolding eq using j by (auto intro!: update_wf [OF wf])
qed

text \<open>What a negative acknowledgement does to its job.\<close>

lemma nack_job: "map_get (jq_jobs q) i = Some j \<Longrightarrow>
   map_get (jq_jobs (jq_nack rnd now i err q)) i = Some (
     if job_attempts j + 1 \<ge> job_maxAttempts j then bury_patch (job_attempts j + 1) err now j
     else retry_patch rnd (job_attempts j + 1) err now j)"
  by (simp add: jq_nack_def Let_def update_jobs)

lemma nack_other: "i' \<noteq> i \<Longrightarrow> map_get (jq_jobs (jq_nack rnd now i err q)) i' = map_get (jq_jobs q) i'"
  by (auto simp: jq_nack_def Let_def update_jobs split: option.splits)

lemma ack_jobs: "map_get (jq_jobs (jq_ack now i q)) i' =
   (if i' = i then map_option (complete_patch now) (map_get (jq_jobs q) i)
    else map_get (jq_jobs q) i')"
  by (simp add: jq_ack_def update_jobs)

section \<open>The contract of a worker\<close>

locale work_queue =
  fixes outstanding :: "'q \<Rightarrow> string \<Rightarrow> bool"
    and take :: "'q \<Rightarrow> string option \<times> 'q"
    and done_ok :: "string \<Rightarrow> 'q \<Rightarrow> 'q"
    and done_err :: "string \<Rightarrow> 'q \<Rightarrow> 'q"
    and good :: "'q \<Rightarrow> bool"
  assumes take_some: "good q \<Longrightarrow> fst (take q) = Some i \<Longrightarrow> \<not> outstanding q i \<and>
        (\<forall>i'. outstanding (snd (take q)) i' = (i' = i \<or> outstanding q i'))"
    and take_none: "good q \<Longrightarrow> fst (take q) = None \<Longrightarrow> snd (take q) = q"
    and ok_out: "good q \<Longrightarrow> outstanding (done_ok i q) i' = (i' \<noteq> i \<and> outstanding q i')"
    and err_out: "good q \<Longrightarrow> outstanding q i \<Longrightarrow> outstanding (done_err i q) i' = (i' \<noteq> i \<and> outstanding q i')"
    and good_take: "good q \<Longrightarrow> good (snd (take q))"
    and good_ok: "good q \<Longrightarrow> outstanding q i \<Longrightarrow> good (done_ok i q)"
    and good_err: "good q \<Longrightarrow> outstanding q i \<Longrightarrow> good (done_err i q)"
begin

text \<open>A list of ids that is exactly the outstanding ones stays so along the three calls.\<close>

definition tracks :: "string list \<Rightarrow> 'q \<Rightarrow> bool" where
  "tracks l q = (good q \<and> distinct l \<and> (\<forall>i. outstanding q i = (i \<in> set l)))"

lemma tracks_take: "tracks l q \<Longrightarrow> fst (take q) = Some i \<Longrightarrow> tracks (i # l) (snd (take q))"
  using take_some [of q i] good_take [of q] by (auto simp: tracks_def)

lemma tracks_ok: "tracks l q \<Longrightarrow> i \<in> set l \<Longrightarrow> tracks (remove1 i l) (done_ok i q)"
  using good_ok [of q i] ok_out [of q i] by (auto simp: tracks_def)

lemma tracks_err: "tracks l q \<Longrightarrow> i \<in> set l \<Longrightarrow> tracks (remove1 i l) (done_err i q)"
  using good_err [of q i] err_out [of q i] by (auto simp: tracks_def)

lemma tracks_empty: "tracks [] q \<Longrightarrow> \<not> outstanding q i"
  by (simp add: tracks_def)

end

lemma dequeue_processing:
  assumes wf: "jq_wf q" and d: "fst (jq_dequeue now now' q) = Some j"
  shows "\<not> in_processing q (job_id j)" "job_status j = JProcessing"
    "map_get (jq_jobs (snd (jq_dequeue now now' q))) (job_id j) = Some j"
    "in_processing (snd (jq_dequeue now now' q)) i = (i = job_id j \<or> in_processing q i)"
proof -
  obtain c where c: "jq_candidate now q = Some c"
    using d by (cases "jq_candidate now q") (auto simp: dequeue_none)
  note C = candidate_some(1,2) [OF wf c] and D = dequeue_some [OF wf c, of now']
  have j: "j = start_patch now' c" using d by (simp add: D)
  show "\<not> in_processing q (job_id j)" "job_status j = JProcessing"
    using C by (auto simp: j in_processing_def job_eligible_def)
  show "map_get (jq_jobs (snd (jq_dequeue now now' q))) (job_id j) = Some j"
    using C by (simp add: D j update_jobs)
  show "in_processing (snd (jq_dequeue now now' q)) i = (i = job_id j \<or> in_processing q i)"
    using C by (auto simp: D j in_processing_def update_jobs)
qed

interpretation memory_queue: work_queue in_processing
    "\<lambda>q. (map_option job_id (fst (jq_dequeue now now' q)), snd (jq_dequeue now now' q))"
    "jq_ack t" "\<lambda>i. jq_nack rnd t i err" jq_wf
  for now now' t rnd err
proof
  fix q :: "'a job_queue" and i i'
  assume wf: "jq_wf q"
  show "fst (map_option job_id (fst (jq_dequeue now now' q)), snd (jq_dequeue now now' q)) = Some i \<Longrightarrow>
    \<not> in_processing q i \<and> (\<forall>i'. in_processing (snd (map_option job_id (fst (jq_dequeue now now' q)),
        snd (jq_dequeue now now' q))) i' = (i' = i \<or> in_processing q i'))"
    using dequeue_processing [OF wf] by auto
  show "fst (map_option job_id (fst (jq_dequeue now now' q)), snd (jq_dequeue now now' q)) = None \<Longrightarrow>
    snd (map_option job_id (fst (jq_dequeue now now' q)), snd (jq_dequeue now now' q)) = q"
    by (cases "jq_candidate now q") (simp_all add: dequeue_none dequeue_some [OF wf])
  show "in_processing (jq_ack t i q) i' = (i' \<noteq> i \<and> in_processing q i')"
    by (auto simp: in_processing_def ack_jobs split: option.splits)
  show "in_processing q i \<Longrightarrow> in_processing (jq_nack rnd t i err q) i' = (i' \<noteq> i \<and> in_processing q i')"
    by (cases "i' = i") (auto simp: in_processing_def nack_other nack_job split: option.splits)
  show "jq_wf (snd (map_option job_id (fst (jq_dequeue now now' q)), snd (jq_dequeue now now' q)))"
    using wf by (simp add: dequeue_wf)
  show "in_processing q i \<Longrightarrow> jq_wf (jq_ack t i q)" by (rule ack_wf [OF wf])
  show "in_processing q i \<Longrightarrow> jq_wf (jq_nack rnd t i err q)" by (rule nack_wf [OF wf])
qed

section \<open>Histories\<close>

text \<open>
  Reachable queues with the log of ids handed out: any caller enqueues, any worker dequeues, and a
  job that is being processed is acknowledged one way or the other.
\<close>

inductive jq_reach :: "'p job_queue \<Rightarrow> string list \<Rightarrow> bool" where
  reach_empty: "jq_reach empty_queue []"
| reach_enqueue: "jq_reach q l \<Longrightarrow> uuid \<noteq> [] \<Longrightarrow> map_get (jq_jobs q) uuid = None \<Longrightarrow> uuid \<notin> set l \<Longrightarrow>
    jq_reach (snd (jq_enqueue uuid now opts q)) l"
| reach_dequeue: "jq_reach q l \<Longrightarrow> jq_dequeue now now' q = (Some j, q') \<Longrightarrow> jq_reach q' (job_id j # l)"
| reach_ack: "jq_reach q l \<Longrightarrow> in_processing q i \<Longrightarrow> jq_reach (jq_ack now i q) l"
| reach_nack: "jq_reach q l \<Longrightarrow> in_processing q i \<Longrightarrow> jq_reach (jq_nack rnd now i err q) l"

definition deliveries :: "'p job \<Rightarrow> nat" where
  "deliveries j = nat (job_attempts j) + (if job_status j \<in> {JProcessing, JCompleted} then 1 else 0)"

lemma enqueue_jobs: "jq_wf q \<Longrightarrow> map_get (jq_jobs q) uuid = None \<Longrightarrow>
   map_get (jq_jobs (snd (jq_enqueue uuid now opts q))) i = Some j \<Longrightarrow>
     map_get (jq_jobs q) i = Some j \<or> (i = uuid \<and> j = new_job uuid now opts)"
  by (auto simp: jq_enqueue_def insert_job_def jsmap_simps new_job_def split: option.splits if_splits)

lemma enqueue_keeps_processing: "jq_wf q \<Longrightarrow> map_get (jq_jobs q) uuid = None \<Longrightarrow>
   in_processing (snd (jq_enqueue uuid now opts q)) i = in_processing q i"
  by (auto simp: in_processing_def jq_enqueue_def insert_job_def jsmap_simps new_job_def split: option.splits)

lemma reach_wf: "jq_reach q l \<Longrightarrow> jq_wf q"
proof (induction rule: jq_reach.induct)
  case (reach_dequeue q l now now' j q')
  then show ?case using dequeue_wf [of q now now'] by simp
next
  case (reach_nack q l i rnd now err)
  then show ?case by (intro nack_wf)
qed (auto intro: jq_wf_empty enqueue_wf ack_wf)

lemma reach_count: "jq_reach q l \<Longrightarrow>
   (\<forall>i j. map_get (jq_jobs q) i = Some j \<longrightarrow> count_list l i = deliveries j)"
proof (induction rule: jq_reach.induct)
  case reach_empty
  then show ?case by (simp add: empty_queue_def)
next
  case (reach_enqueue q l uuid now opts)
  have "count_list l uuid = 0" using reach_enqueue.hyps(4) by (simp add: count_list_0_iff)
  then have "count_list l i = deliveries j"
    if "map_get (jq_jobs (snd (jq_enqueue uuid now opts q))) i = Some j" for i j
    using enqueue_jobs [OF reach_wf [OF reach_enqueue.hyps(1)] reach_enqueue.hyps(3) that] reach_enqueue.IH
    by (auto simp: new_job_def deliveries_def)
  then show ?case by blast
next
  case (reach_dequeue q l now now' j q')
  note wf = reach_wf [OF reach_dequeue.hyps(1)]
  obtain c where c: "jq_candidate now q = Some c"
    using reach_dequeue.hyps(2) by (cases "jq_candidate now q") (auto simp: dequeue_none)
  note C = candidate_some(1,2) [OF wf c]
  have "j = start_patch now' c"
    "q' = jq_update (job_id c) (start_patch now') q"
    using reach_dequeue.hyps(2) by (simp_all add: dequeue_some [OF wf c])
  with C reach_dequeue.IH show ?case by (auto simp: update_jobs deliveries_def job_eligible_def)
next
  case (reach_ack q l i now)
  then show ?case by (auto simp: ack_jobs in_processing_def deliveries_def)
next
  case (reach_nack q l i rnd now err)
  then obtain j where j: "map_get (jq_jobs q) i = Some j" "job_status j = JProcessing"
    by (auto simp: in_processing_def split: option.splits)
  have "0 \<le> job_attempts j" using jq_wf_job [OF reach_wf [OF reach_nack.hyps(1)] j(1)] by (simp add: job_ok_def)
  then have "count_list l i' = deliveries j'" if "map_get (jq_jobs (jq_nack rnd now i err q)) i' = Some j'" for i' j'
    using that reach_nack.IH j by (cases "i' = i") (auto simp: nack_job nack_other deliveries_def nat_add_distrib split: if_splits)
  then show ?case by blast
qed

lemma reach_bounded: "jq_reach q l \<Longrightarrow> map_get (jq_jobs q) i = Some j \<Longrightarrow>
   count_list l i \<le> nat (max 1 (job_maxAttempts j))"
proof -
  assume r: "jq_reach q l" and i: "map_get (jq_jobs q) i = Some j"
  then have "count_list l i = deliveries j" using reach_count by blast
  moreover have "job_ok q (i, j)" using reach_wf [OF r] i by (rule jq_wf_job)
  ultimately show ?thesis by (auto simp: deliveries_def job_ok_def nat_le_iff max_def split: if_splits)
qed

text \<open>
  The same histories as single steps, with the deliveries that still wait for their answer beside the
  log. \<open>ack\<close> and \<open>nack\<close> of a delivery are called once, as \<open>dequeue\<close> asks of its caller: an id is
  answered when it is open. That an open id is one in processing is proved, not assumed.
\<close>

inductive jq_step :: "'p job_queue \<times> string list \<times> string list \<Rightarrow> 'p job_queue \<times> string list \<times> string list \<Rightarrow> bool" where
  step_enqueue: "uuid \<noteq> [] \<Longrightarrow> map_get (jq_jobs q) uuid = None \<Longrightarrow> uuid \<notin> set l \<Longrightarrow>
    jq_step (q, l, d) (snd (jq_enqueue uuid now opts q), l, d)"
| step_dequeue: "jq_dequeue now now' q = (Some j, q') \<Longrightarrow> jq_step (q, l, d) (q', job_id j # l, job_id j # d)"
| step_ack: "i \<in> set d \<Longrightarrow> jq_step (q, l, d) (jq_ack now i q, l, remove1 i d)"
| step_nack: "i \<in> set d \<Longrightarrow> jq_step (q, l, d) (jq_nack rnd now i err q, l, remove1 i d)"

lemma history_step:
  assumes "jq_step (q, l, d) (q', l', d')" "jq_reach q l" "memory_queue.tracks d q"
  shows "jq_reach q' l' \<and> memory_queue.tracks d' q'"
  using assms(1)
proof cases
  case (step_enqueue uuid now opts)
  have "in_processing q' i = in_processing q i" for i
    using step_enqueue(4) enqueue_keeps_processing [OF reach_wf [OF assms(2)] step_enqueue(5)] step_enqueue(1) by simp
  with step_enqueue assms show ?thesis
    by (auto simp: memory_queue.tracks_def intro: reach_enqueue enqueue_wf reach_wf)
next
  case (step_dequeue now now' j)
  then show ?thesis
    using assms memory_queue.tracks_take [of d q now now' "job_id j"] by (auto intro: reach_dequeue)
next
  case (step_ack i now)
  then show ?thesis
    using assms memory_queue.tracks_ok [of d q i now] by (auto simp: memory_queue.tracks_def intro: reach_ack)
next
  case (step_nack i rnd now err)
  then show ?thesis
    using assms memory_queue.tracks_err [of d q i rnd now err] by (auto simp: memory_queue.tracks_def intro: reach_nack)
qed

lemma history_reach: "jq_step\<^sup>*\<^sup>* (empty_queue, [], []) (q, l, d) \<Longrightarrow> jq_reach q l \<and> memory_queue.tracks d q"
proof (induction "(q, l, d)" arbitrary: q l d rule: rtranclp_induct)
  case base
  then show ?case
    by (simp add: reach_empty memory_queue.tracks_def jq_wf_empty in_processing_def) (simp add: empty_queue_def)
next
  case (step y)
  obtain q0 l0 d0 where "y = (q0, l0, d0)" by (metis prod_cases3)
  with step show ?case using history_step by blast
qed

text \<open>A finished job stays as it is and is not handed out again.\<close>

lemma terminal_step:
  assumes "jq_step (q, l, d) (q', l', d')" "jq_reach q l \<and> memory_queue.tracks d q"
    and "map_get (jq_jobs q) i = Some j" "isTerminal (job_status j)"
  shows "map_get (jq_jobs q') i = Some j \<and> count_list l' i = count_list l i"
proof -
  have wf: "jq_wf q" using assms(2) reach_wf by blast
  have "\<not> in_processing q i" using assms(3,4) by (auto simp: in_processing_def isTerminal_def)
  then have i: "i \<notin> set d" using assms(2) by (simp add: memory_queue.tracks_def)
  from assms(1) show ?thesis
  proof cases
    case (step_enqueue uuid now opts)
    then show ?thesis using assms(3) by (auto simp: jq_enqueue_def insert_job_def jsmap_simps new_job_def split: option.splits)
  next
    case (step_dequeue now now' k)
    then obtain c where c: "jq_candidate now q = Some c"
      by (cases "jq_candidate now q") (auto simp: dequeue_none)
    have "job_status c = JPending" "map_get (jq_jobs q) (job_id c) = Some c"
      using candidate_some(1,2) [OF wf c] by (simp_all add: job_eligible_def)
    then have "job_id c \<noteq> i" using assms(3,4) by (auto simp: isTerminal_def)
    then show ?thesis using step_dequeue dequeue_some [OF wf c, of now'] assms(3) by (auto simp: update_jobs)
  next
    case (step_ack k now)
    then show ?thesis using i assms(3) by (auto simp: ack_jobs)
  next
    case (step_nack k rnd now err)
    then have "i \<noteq> k" using i by auto
    with step_nack show ?thesis using assms(3) by (simp add: nack_other)
  qed
qed

lemma terminal_kept:
  assumes "jq_step\<^sup>*\<^sup>* (q, l, d) (q', l', d')" "jq_reach q l \<and> memory_queue.tracks d q"
    and "map_get (jq_jobs q) i = Some j" "isTerminal (job_status j)"
  shows "(jq_reach q' l' \<and> memory_queue.tracks d' q') \<and> map_get (jq_jobs q') i = Some j \<and> count_list l' i = count_list l i"
  using assms(1)
proof (induction "(q', l', d')" arbitrary: q' l' d' rule: rtranclp_induct)
  case base
  then show ?case using assms by simp
next
  case (step y)
  obtain q0 l0 d0 where y: "y = (q0, l0, d0)" by (metis prod_cases3)
  note IH = step.hyps(3) [OF y]
  from step.hyps(2) have s: "jq_step (q0, l0, d0) (q', l', d')" by (simp add: y)
  show ?case
    using history_step [OF s] terminal_step [OF s _ _ assms(4)] IH by simp
qed

section \<open>Properties\<close>

text \<open>
  In every reachable queue the structure is sound and no two unfinished jobs share an
  idempotency key: a duplicate submission is answered with the job already there.
\<close>

theorem queue_suppresses_duplicates:
  assumes "jq_reach q l" "map_get (jq_jobs q) i = Some j" "\<not> isTerminal (job_status j)"
    and "eo_key opts = job_key j"
  shows "jq_enqueue uuid now opts q = (j, q)
    \<and> (\<forall>i' j'. map_get (jq_jobs q) i' = Some j' \<and> job_key j' = job_key j \<and> i' \<noteq> i \<longrightarrow> isTerminal (job_status j'))"
proof -
  note wf = reach_wf [OF assms(1)]
  have "jq_enqueue uuid now opts q = (j, q)"
    using live_found [OF wf assms(2,3)] assms(3,4) by (simp add: jq_enqueue_def)
  with live_unique [OF wf _ assms(2)] assms(3) show ?thesis by blast
qed

definition demo_options :: "string \<Rightarrow> int \<Rightarrow> nat enqueue_options" where
  "demo_options k m = \<lparr>eo_key = k, eo_type = ''relay_execute'', eo_payload = 0, eo_maxAttempts = Some m, eo_requestId = None\<rparr>"

definition demo_queue :: "nat job_queue" where
  "demo_queue = snd (jq_enqueue ''u1'' 10 (demo_options ''k'' 2) empty_queue)"

lemma demo_reach: "jq_reach demo_queue []"
  unfolding demo_queue_def by (intro reach_enqueue reach_empty) (simp_all add: empty_queue_def)

lemma demo_lookup: "map_get (jq_jobs demo_queue) ''u1'' = Some (new_job ''u1'' 10 (demo_options ''k'' 2))"
  by (simp add: demo_queue_def demo_options_def jq_enqueue_def getByIdempotencyKey_def empty_queue_def
      insert_job_def new_job_def jsmap_simps)

theorem queue_suppresses_duplicates_witness:
  "jq_enqueue ''u2'' 20 (demo_options ''k'' 9) demo_queue = (new_job ''u1'' 10 (demo_options ''k'' 2), demo_queue)"
proof -
  have "\<not> isTerminal (job_status (new_job ''u1'' 10 (demo_options ''k'' 2)))"
    "eo_key (demo_options ''k'' 9) = job_key (new_job ''u1'' 10 (demo_options ''k'' 2))"
    by (simp_all add: new_job_def isTerminal_def demo_options_def)
  from queue_suppresses_duplicates [OF demo_reach demo_lookup this] show ?thesis by blast
qed

text \<open>
  C26. Over a whole history in which every delivery is answered at most once, no job is handed to a
  worker more often than its attempt limit (once when the limit is below one); and a job that was
  completed or dead-lettered stays exactly as it is, and is never handed out again, however the
  history goes on: later submissions, deliveries, acknowledgements and failures, in any order.
\<close>

theorem queue_bounded_deliveries:
  assumes "jq_step\<^sup>*\<^sup>* (empty_queue, [], []) (q, l, d)" "map_get (jq_jobs q) i = Some j"
  shows "count_list l i \<le> nat (max 1 (job_maxAttempts j))
    \<and> (isTerminal (job_status j) \<longrightarrow>
         (\<forall>q' l' d'. jq_step\<^sup>*\<^sup>* (q, l, d) (q', l', d') \<longrightarrow>
            map_get (jq_jobs q') i = Some j \<and> count_list l' i = count_list l i))"
proof -
  note h = history_reach [OF assms(1)]
  have "count_list l i \<le> nat (max 1 (job_maxAttempts j))" using h assms(2) by (intro reach_bounded) simp_all
  moreover have "map_get (jq_jobs q') i = Some j \<and> count_list l' i = count_list l i"
    if "isTerminal (job_status j)" "jq_step\<^sup>*\<^sup>* (q, l, d) (q', l', d')" for q' l' d'
    using terminal_kept [OF that(2) h assms(2) that(1)] by simp
  ultimately show ?thesis by blast
qed

text \<open>The demo job taken by a worker and completed, then submitted again under its key.\<close>

theorem queue_bounded_deliveries_witness:
  "count_list [''u1''] ''u1'' \<le> nat (max 1 2)
    \<and> map_get (jq_jobs (snd (jq_enqueue ''u2'' 20 (demo_options ''k'' 2) (jq_ack 12 ''u1'' (snd (jq_dequeue 10 11 demo_queue)))))) ''u1''
        = Some (complete_patch 12 (start_patch 11 (new_job ''u1'' 10 (demo_options ''k'' 2))))"
proof -
  let ?j = "new_job ''u1'' 10 (demo_options ''k'' 2)"
  have q: "jq_jobs demo_queue = [(''u1'', ?j)]"
    by (simp add: demo_queue_def demo_options_def jq_enqueue_def getByIdempotencyKey_def empty_queue_def
      insert_job_def new_job_def map_set_def)
  have c: "jq_candidate 10 demo_queue = Some ?j"
    by (simp add: jq_candidate_def q map_values_def job_eligible_def new_job_def)
  note d = dequeue_some [OF reach_wf [OF demo_reach] c, of 11]
  have e: "jq_step (empty_queue, [], []) (demo_queue, [], [])"
    unfolding demo_queue_def by (rule step_enqueue) (simp_all add: empty_queue_def)
  have t: "jq_step (demo_queue, [], []) (snd (jq_dequeue 10 11 demo_queue), [''u1''], [''u1''])"
    using step_dequeue [of 10 11 demo_queue "start_patch 11 ?j" "snd (jq_dequeue 10 11 demo_queue)" "[]" "[]"] d
    by (simp add: new_job_def)
  have a: "jq_step (snd (jq_dequeue 10 11 demo_queue), [''u1''], [''u1''])
      (jq_ack 12 ''u1'' (snd (jq_dequeue 10 11 demo_queue)), [''u1''], [])"
    using step_ack [of "''u1''" "[''u1'']" "snd (jq_dequeue 10 11 demo_queue)" "[''u1'']" 12] by simp
  have r: "jq_step\<^sup>*\<^sup>* (empty_queue, [], []) (jq_ack 12 ''u1'' (snd (jq_dequeue 10 11 demo_queue)), [''u1''], [])"
    using e t a by (meson converse_rtranclp_into_rtranclp r_into_rtranclp)
  let ?q = "jq_ack 12 ''u1'' (snd (jq_dequeue 10 11 demo_queue))"
  have g: "map_get (jq_jobs ?q) ''u1'' = Some (complete_patch 12 (start_patch 11 ?j))"
    using demo_lookup d by (simp add: ack_jobs update_jobs) (simp add: new_job_def)
  have "map_get (jq_jobs ?q) ''u2'' = None"
    using d by (simp add: ack_jobs update_jobs) (simp add: q new_job_def map_get_def)
  then have e': "jq_step\<^sup>*\<^sup>* (?q, [''u1''], []) (snd (jq_enqueue ''u2'' 20 (demo_options ''k'' 2) ?q), [''u1''], [])"
    by (intro r_into_rtranclp step_enqueue) simp_all
  have "isTerminal (job_status (complete_patch 12 (start_patch 11 ?j)))" by (simp add: isTerminal_def)
  with queue_bounded_deliveries [OF r g] e' show ?thesis by (auto simp: new_job_def demo_options_def)
qed

text \<open>
  The proviso of one answer per delivery is needed: \<open>nack\<close> does not look at the status, so a second
  answer after a completion, with attempts left, puts the finished job back among the pending ones,
  and once its retry time has come it is eligible again.
\<close>

theorem late_nack_reopens:
  assumes "map_get (jq_jobs q) i = Some j" "job_status j = JCompleted" "job_attempts j + 1 < job_maxAttempts j"
  shows "\<exists>j'. map_get (jq_jobs (jq_nack rnd now i err q)) i = Some j' \<and> job_status j' = JPending
    \<and> job_eligible (nextRetryAfter rnd (nat (job_attempts j + 1)) now) j'"
  using assms by (simp add: nack_job job_eligible_def) (simp add: retry_patch_def)

theorem late_nack_reopens_witness:
  "\<exists>j'. map_get (jq_jobs (jq_nack 0 13 ''u1'' ''late'' (jq_ack 12 ''u1'' demo_queue))) ''u1'' = Some j' \<and> job_status j' = JPending"
proof -
  have "map_get (jq_jobs (jq_ack 12 ''u1'' demo_queue)) ''u1'' = Some (complete_patch 12 (new_job ''u1'' 10 (demo_options ''k'' 2)))"
    using demo_lookup by (simp add: ack_jobs)
  from late_nack_reopens [OF this, of 0 13 "''late''"] show ?thesis
    by (auto simp: new_job_def demo_options_def)
qed

text \<open>
  Dequeue serves an eligible job with the smallest creation time, marks exactly that one as
  processing, and finds nothing only when no job is eligible.
\<close>

theorem dequeue_first_in_first_out:
  assumes "jq_reach q l"
  shows "case fst (jq_dequeue now now' q) of
      None \<Rightarrow> snd (jq_dequeue now now' q) = q
        \<and> (\<forall>i j. map_get (jq_jobs q) i = Some j \<longrightarrow> \<not> job_eligible now j)
    | Some j \<Rightarrow> job_status j = JProcessing \<and> \<not> in_processing q (job_id j)
        \<and> (\<forall>i. in_processing (snd (jq_dequeue now now' q)) i = (i = job_id j \<or> in_processing q i))
        \<and> (\<forall>i j'. map_get (jq_jobs q) i = Some j' \<and> job_eligible now j' \<longrightarrow> job_createdAt j \<le> job_createdAt j')"
proof (cases "jq_candidate now q")
  case None
  then show ?thesis using candidate_none [OF reach_wf [OF assms]] by (simp add: dequeue_none)
next
  case (Some c)
  note wf = reach_wf [OF assms]
  have d: "fst (jq_dequeue now now' q) = Some (start_patch now' c)" by (simp add: dequeue_some [OF wf Some])
  have "job_createdAt (start_patch now' c) = job_createdAt c" by (simp add: start_patch_def)
  then show ?thesis
    using dequeue_processing [OF wf d] candidate_some(3) [OF wf Some] unfolding d by auto
qed

theorem dequeue_first_in_first_out_witness:
  "fst (jq_dequeue 10 11 demo_queue) \<noteq> None"
proof -
  have "job_eligible 10 (new_job ''u1'' 10 (demo_options ''k'' 2))"
    by (simp add: job_eligible_def new_job_def)
  with demo_lookup dequeue_first_in_first_out [OF demo_reach, of 10 11] show ?thesis
    by (cases "fst (jq_dequeue 10 11 demo_queue)") auto
qed

text \<open>
  The jittered delay stays within \<open>[0, min(cap, base * 2^attempt)]\<close> for every value the random
  source can return, rounding of the product included.
\<close>

theorem backoff_within_cap:
  assumes "0 \<le> rnd" "rnd < 1"
  shows "now \<le> nextRetryAfter rnd attempt now
    \<and> nextRetryAfter rnd attempt now \<le> now + min 60000 (1000 * 2 ^ attempt)"
  using backoff_bounds [of rnd 1000 60000 attempt] assms by (simp add: nextRetryAfter_def)

theorem backoff_within_cap_witness:
  "nextRetryAfter (1 / 2) 3 100 \<le> 100 + min 60000 (1000 * 2 ^ 3)"
  using backoff_within_cap [of "1 / 2" 100 3] by simp

end
