(* ===== verification/QueueWorker.thy ===== *)
theory QueueWorker
  imports JobQueue RelayErrors
begin

text \<open>
  \<open>services/relayer/src/workers/QueueWorker.ts\<close>: the polling worker over the in-memory queue. The
  asynchronous code is cut at its \<open>await\<close>s into steps: one turn of the \<open>poll\<close> loop (dequeue and
  start of a job), and the settling of one running job. Which job settles next, the outcome of its
  handler and the enqueues of other callers are free. The invariant ties the worker's counters to the
  queue: the jobs being processed are exactly the running ones, so none is lost.
\<close>

record worker_stats =
  ws_processed :: nat
  ws_succeeded :: nat
  ws_failed :: nat
  ws_deadLettered :: nat

record 'p worker =
  w_running :: bool
  w_activeJobs :: int
  w_concurrency :: int
  w_handlers :: "string list"
  w_stats :: worker_stats
  w_queue :: "'p job_queue"
  w_inflight :: "'p job list"

text \<open>
  \<open>w_inflight\<close> is the set of \<open>finish\<close> closures not yet settled, each with its captured job;
  \<open>w_handlers\<close> the job types a handler is registered for.
\<close>

definition DEFAULT_CONCURRENCY :: int where
  "DEFAULT_CONCURRENCY = 1"

definition new_worker :: "int option \<Rightarrow> string list \<Rightarrow> 'p job_queue \<Rightarrow> 'p worker" where
  "new_worker conc hs q = \<lparr>w_running = False, w_activeJobs = 0,
     w_concurrency = coalesce conc DEFAULT_CONCURRENCY, w_handlers = hs,
     w_stats = \<lparr>ws_processed = 0, ws_succeeded = 0, ws_failed = 0, ws_deadLettered = 0\<rparr>,
     w_queue = q, w_inflight = []\<rparr>"

definition worker_start :: "'p worker \<Rightarrow> 'p worker" where
  "worker_start w = (if w_running w then w else w\<lparr>w_running := True\<rparr>)"

definition worker_stop :: "'p worker \<Rightarrow> 'p worker" where
  "worker_stop w = w\<lparr>w_running := False\<rparr>"

text \<open>One turn of the \<open>while\<close> loop of \<open>poll\<close>; \<open>None\<close> when the loop ends.\<close>

definition poll_turn :: "time \<Rightarrow> time \<Rightarrow> 'p worker \<Rightarrow> 'p worker option" where
  "poll_turn now now' w =
     (if w_running w \<and> w_activeJobs w < w_concurrency w
      then (case jq_dequeue now now' (w_queue w) of
              (None, q) \<Rightarrow> None
            | (Some j, q) \<Rightarrow> Some (w\<lparr>w_activeJobs := w_activeJobs w + 1,
                w_stats := (w_stats w)\<lparr>ws_processed := ws_processed (w_stats w) + 1\<rparr>,
                w_queue := q, w_inflight := j # w_inflight w\<rparr>))
      else None)"

text \<open>The message the \<open>catch\<close> hands to \<open>nack\<close>; a missing handler throws as well.\<close>

definition job_failure :: "string list \<Rightarrow> 'p job \<Rightarrow> thrown option \<Rightarrow> string option" where
  "job_failure hs j outcome =
     (if job_type j \<notin> set hs then Some (''No handler registered for job type '' @ [CHR 0x22] @ job_type j @ [CHR 0x22])
      else map_option thrown_text outcome)"

text \<open>\<open>finish\<close> after the handler has settled: \<open>outcome\<close> is what it threw, if anything.\<close>

definition finish_job :: "rat \<Rightarrow> time \<Rightarrow> thrown option \<Rightarrow> 'p job \<Rightarrow> 'p worker \<Rightarrow> 'p worker" where
  "finish_job rnd now outcome j w =
     (case job_failure (w_handlers w) j outcome of
        None \<Rightarrow> w\<lparr>w_queue := jq_ack now (job_id j) (w_queue w),
                 w_stats := (w_stats w)\<lparr>ws_succeeded := ws_succeeded (w_stats w) + 1\<rparr>,
                 w_activeJobs := w_activeJobs w - 1, w_inflight := remove1 j (w_inflight w)\<rparr>
      | Some err \<Rightarrow>
          let q = jq_nack rnd now (job_id j) err (w_queue w);
              dead = (case jq_getById (job_id j) q of Some j' \<Rightarrow> job_status j' = JDead | None \<Rightarrow> False)
          in w\<lparr>w_queue := q,
               w_stats := (w_stats w)\<lparr>ws_failed := ws_failed (w_stats w) + 1,
                  ws_deadLettered := ws_deadLettered (w_stats w) + (if dead then 1 else 0)\<rparr>,
               w_activeJobs := w_activeJobs w - 1, w_inflight := remove1 j (w_inflight w)\<rparr>)"

section \<open>Steps\<close>

inductive worker_step :: "'p worker \<Rightarrow> 'p worker \<Rightarrow> bool" where
  step_start: "worker_step w (worker_start w)"
| step_stop: "worker_step w (worker_stop w)"
| step_poll: "poll_turn now now' w = Some w' \<Longrightarrow> worker_step w w'"
| step_finish: "j \<in> set (w_inflight w) \<Longrightarrow> worker_step w (finish_job rnd now outcome j w)"
| step_submit: "uuid \<noteq> [] \<Longrightarrow> map_get (jq_jobs (w_queue w)) uuid = None \<Longrightarrow>
    worker_step w (w\<lparr>w_queue := snd (jq_enqueue uuid now opts (w_queue w))\<rparr>)"

inductive_cases worker_stepE: "worker_step w w'"

inductive worker_reach :: "int option \<Rightarrow> string list \<Rightarrow> 'p worker \<Rightarrow> bool" for conc hs where
  wreach_init: "worker_reach conc hs (new_worker conc hs empty_queue)"
| wreach_step: "worker_reach conc hs w \<Longrightarrow> worker_step w w' \<Longrightarrow> worker_reach conc hs w'"

section \<open>Invariant\<close>

definition worker_ok :: "'p worker \<Rightarrow> bool" where
  "worker_ok w = (jq_wf (w_queue w) \<and> distinct (map job_id (w_inflight w))
     \<and> (\<forall>i. in_processing (w_queue w) i = (i \<in> set (map job_id (w_inflight w))))
     \<and> w_activeJobs w = int (length (w_inflight w))
     \<and> w_activeJobs w \<le> max 0 (w_concurrency w)
     \<and> int (ws_processed (w_stats w)) = int (ws_succeeded (w_stats w)) + int (ws_failed (w_stats w)) + w_activeJobs w
     \<and> ws_deadLettered (w_stats w) \<le> ws_failed (w_stats w))"

lemma worker_ok_tracks: "worker_ok w \<Longrightarrow> memory_queue.tracks (map job_id (w_inflight w)) (w_queue w)"
  unfolding memory_queue.tracks_def by (simp add: worker_ok_def)

lemma empty_processing: "\<not> in_processing empty_queue i"
  by (simp add: in_processing_def empty_queue_def)

lemma worker_ok_init: "worker_ok (new_worker conc hs empty_queue)"
  by (simp add: worker_ok_def new_worker_def jq_wf_empty empty_processing)

lemma enqueue_processing: "jq_wf q \<Longrightarrow> map_get (jq_jobs q) uuid = None \<Longrightarrow>
   in_processing (snd (jq_enqueue uuid now opts q)) i = in_processing q i"
  by (auto simp: jq_enqueue_def insert_job_def new_job_def in_processing_def jsmap_simps split: option.splits)

lemma poll_ok:
  assumes ok: "worker_ok w" and p: "poll_turn now now' w = Some w'" shows "worker_ok w'"
proof -
  obtain j q where d: "jq_dequeue now now' (w_queue w) = (Some j, q)"
    and room: "w_activeJobs w < w_concurrency w"
    and w': "w' = w\<lparr>w_activeJobs := w_activeJobs w + 1,
                w_stats := (w_stats w)\<lparr>ws_processed := ws_processed (w_stats w) + 1\<rparr>,
                w_queue := q, w_inflight := j # w_inflight w\<rparr>"
    using p by (auto simp: poll_turn_def split: if_splits prod.splits option.splits)
  have "memory_queue.tracks (job_id j # map job_id (w_inflight w)) q"
    using memory_queue.tracks_take [OF worker_ok_tracks [OF ok], of now now' "job_id j"] by (simp add: d)
  with ok room show ?thesis unfolding w' memory_queue.tracks_def worker_ok_def by auto
qed

lemma inflight_ids: "distinct (map job_id l) \<Longrightarrow> j \<in> set l \<Longrightarrow> map job_id (remove1 j l) = remove1 (job_id j) (map job_id l)"
proof (induction l)
  case (Cons a l)
  show ?case
  proof (cases "a = j")
    case False
    with Cons.prems have "j \<in> set l" "job_id a \<noteq> job_id j" by auto
    with Cons False show ?thesis by simp
  qed simp
qed simp

lemma finish_ok:
  assumes ok: "worker_ok w" and j: "j \<in> set (w_inflight w)"
  shows "worker_ok (finish_job rnd now outcome j w)"
proof -
  have ids: "map job_id (remove1 j (w_inflight w)) = remove1 (job_id j) (map job_id (w_inflight w))"
    using ok j by (intro inflight_ids) (simp_all add: worker_ok_def)
  have mem: "job_id j \<in> set (map job_id (w_inflight w))" using j by simp
  have len: "int (length (remove1 j (w_inflight w))) = w_activeJobs w - 1"
  proof -
    have "length (remove1 j (w_inflight w)) + 1 = length (w_inflight w)"
      using j length_pos_if_in_set [OF j] by (simp add: length_remove1)
    then have "int (length (remove1 j (w_inflight w))) + 1 = int (length (w_inflight w))" by linarith
    with ok show ?thesis by (simp add: worker_ok_def)
  qed
  note T = worker_ok_tracks [OF ok]
  show ?thesis
  proof (cases "job_failure (w_handlers w) j outcome")
    case None
    have "memory_queue.tracks (remove1 (job_id j) (map job_id (w_inflight w))) (jq_ack now (job_id j) (w_queue w))"
      by (rule memory_queue.tracks_ok [OF T mem])
    with ok len None show ?thesis
      unfolding finish_job_def memory_queue.tracks_def worker_ok_def ids [symmetric] by auto
  next
    case (Some err)
    have "memory_queue.tracks (remove1 (job_id j) (map job_id (w_inflight w)))
        (jq_nack rnd now (job_id j) err (w_queue w))"
      by (rule memory_queue.tracks_err [OF T mem])
    with ok len Some show ?thesis
      unfolding finish_job_def memory_queue.tracks_def worker_ok_def ids [symmetric] Let_def by auto
  qed
qed

lemma step_ok: "worker_step w w' \<Longrightarrow> worker_ok w \<Longrightarrow> worker_ok w'"
proof (induction rule: worker_step.induct)
  case (step_poll now now' w w')
  show ?case by (rule poll_ok [OF step_poll(2,1)])
next
  case (step_finish j w rnd now outcome)
  show ?case by (rule finish_ok [OF step_finish(2,1)])
next
  case (step_submit uuid w now opts)
  then have "jq_wf (snd (jq_enqueue uuid now opts (w_queue w)))"
    by (intro enqueue_wf) (simp_all add: worker_ok_def)
  with step_submit show ?case by (simp add: worker_ok_def enqueue_processing)
qed (simp_all add: worker_start_def worker_stop_def worker_ok_def)

lemma reach_ok: "worker_reach conc hs w \<Longrightarrow> worker_ok w"
proof (induction rule: worker_reach.induct)
  case wreach_init
  show ?case by (rule worker_ok_init)
next
  case (wreach_step w w')
  show ?case by (rule step_ok [OF wreach_step.hyps(2) wreach_step.IH])
qed

lemma poll_conc: "poll_turn now now' w = Some w' \<Longrightarrow> w_concurrency w' = w_concurrency w"
  by (auto simp: poll_turn_def split: if_splits prod.splits option.splits)

lemma step_conc: "worker_step w w' \<Longrightarrow> w_concurrency w' = w_concurrency w"
proof (induction rule: worker_step.induct)
  case (step_poll now now' w w')
  then show ?case by (rule poll_conc)
qed (auto simp: worker_start_def worker_stop_def finish_job_def Let_def split: option.splits)

lemma reach_conc: "worker_reach conc hs w \<Longrightarrow> w_concurrency w = coalesce conc DEFAULT_CONCURRENCY"
  by (induction rule: worker_reach.induct) (auto simp: new_worker_def step_conc)

section \<open>Properties\<close>

text \<open>
  In every reachable state of the worker: at most the configured number of jobs run at a time;
  the queue's processing jobs are exactly the running ones, so a job that is neither finished nor
  running is always pending and none is lost; every started job is counted once as succeeded, failed
  or still running. When nothing runs, no job is left in processing.
\<close>

theorem worker_loses_no_job:
  assumes "worker_reach conc hs w"
  shows "w_activeJobs w \<le> max 0 (coalesce conc DEFAULT_CONCURRENCY)
    \<and> (\<forall>i. in_processing (w_queue w) i = (i \<in> job_id ` set (w_inflight w)))
    \<and> int (ws_processed (w_stats w)) = int (ws_succeeded (w_stats w)) + int (ws_failed (w_stats w)) + w_activeJobs w
    \<and> ws_deadLettered (w_stats w) \<le> ws_failed (w_stats w)
    \<and> (w_activeJobs w = 0 \<longrightarrow> \<not> in_processing (w_queue w) i)"
  using reach_ok [OF assms] reach_conc [OF assms] by (auto simp: worker_ok_def)

definition demo_worker :: "nat worker" where
  "demo_worker = (worker_start (new_worker None [''relay_execute''] empty_queue))\<lparr>w_queue := demo_queue\<rparr>"

lemma demo_worker_reach: "worker_reach None [''relay_execute''] demo_worker"
proof -
  let ?w0 = "new_worker None [''relay_execute''] empty_queue :: nat worker"
  have "worker_step (worker_start ?w0) ((worker_start ?w0)\<lparr>w_queue := snd (jq_enqueue ''u1'' 10
      (demo_options ''k'' 2) (w_queue (worker_start ?w0)))\<rparr>)"
    by (rule step_submit) (simp_all add: worker_start_def new_worker_def empty_queue_def)
  moreover have "(worker_start ?w0)\<lparr>w_queue := snd (jq_enqueue ''u1'' 10
      (demo_options ''k'' 2) (w_queue (worker_start ?w0)))\<rparr> = demo_worker"
    by (simp add: demo_worker_def demo_queue_def worker_start_def new_worker_def)
  ultimately show ?thesis
    using wreach_step [OF wreach_step [OF wreach_init step_start], of None "[''relay_execute'']"] by simp
qed

theorem worker_loses_no_job_witness:
  "w_activeJobs demo_worker \<le> 1 \<and> \<not> in_processing (w_queue demo_worker) ''u1''"
  using worker_loses_no_job [OF demo_worker_reach, of "''u1''"]
  by (simp add: demo_worker_def worker_start_def new_worker_def DEFAULT_CONCURRENCY_def)
end
