(* ===== verification/RelayService.thy ===== *)
theory RelayService
  imports TransferPolicy NonceStore CanonicalPayload
begin

text \<open>
  \<open>services/relayer/src/services/relayService.ts\<close> with the two handlers that expose it
  (\<open>handlers/executeRelay.ts\<close>, \<open>handlers/validateRelay.ts\<close>) and the health checks
  (\<open>routes/health.ts\<close>). What the service is given is an environment record: the signature check, the
  on-chain key lookup, the submitter, and how a number is rendered in a message. Logging, metrics and
  tracing are left out. The asynchronous \<open>executeRelay\<close> is cut at the \<open>await\<close> of the key lookup, which
  gives the step relation of the last section.
\<close>

section \<open>Requests, environment, results\<close>

text \<open>An entry of \<open>parameters\<close>: the service asks only whether it is a string.\<close>

datatype param = PStr string | POther

record policy_input =
  pi_policy :: transfer_policy
  pi_amount :: number
  pi_todayTotal :: number
  pi_assetCode :: "string option"
  pi_stepUpConfirmed :: "bool option"

record relay_request =
  rq_sessionKey :: string
  rq_operation :: string
  rq_parameters :: "(string, param) jsmap"
  rq_signature :: string
  rq_nonce :: int
  rq_transferPolicy :: "policy_input option"

record submitter =
  sb_simulate :: "string \<Rightarrow> thrown + (string \<times> int)"
  sb_submit :: "string \<Rightarrow> thrown + string"

record 'k relay_env =
  re_verify :: "string \<Rightarrow> string \<Rightarrow> string \<Rightarrow> bool"
  re_getSessionKey :: "param option \<Rightarrow> string \<Rightarrow> thrown + 'k option"
  re_useMock :: bool
  re_submitter :: "submitter option"
  re_show :: "number \<Rightarrow> string"

record validation_result =
  vr_valid :: bool
  vr_error :: "relay_error option"
  vr_requiresStepUp :: "bool option"

record execute_response =
  xr_success :: bool
  xr_transactionId :: "string option"
  xr_error :: "relay_error option"
  xr_gasUsed :: int

definition render_message :: "(number \<Rightarrow> string) \<Rightarrow> msg_template \<Rightarrow> string" where
  "render_message sh t = concat (map (\<lambda>p. case p of Txt s \<Rightarrow> s | Num x \<Rightarrow> sh x) t)"

definition invalid_with :: "relay_code \<Rightarrow> string \<Rightarrow> validation_result" where
  "invalid_with c m = \<lparr>vr_valid = False, vr_error = Some (relay_err c m), vr_requiresStepUp = None\<rparr>"

definition valid_result :: validation_result where
  "valid_result = \<lparr>vr_valid = True, vr_error = None, vr_requiresStepUp = None\<rparr>"

definition failed_with :: "relay_code \<Rightarrow> string \<Rightarrow> execute_response" where
  "failed_with c m = \<lparr>xr_success = False, xr_transactionId = None, xr_error = Some (relay_err c m), xr_gasUsed = 0\<rparr>"

section \<open>Helpers of the class\<close>

definition validateSessionKey :: "string \<Rightarrow> string option" where
  "validateSessionKey key =
     (if length key = 64 \<and> list_all is_hex_char key then None
      else Some ''sessionKey must be a 64-char hex-encoded Ed25519 public key'')"

definition str_param :: "(string, param) jsmap \<Rightarrow> string \<Rightarrow> string" where
  "str_param ps k = (case map_get ps k of Some (PStr s) \<Rightarrow> s | _ \<Rightarrow> [])"

definition request_input :: "relay_request \<Rightarrow> int \<Rightarrow> canonical_input" where
  "request_input r signedNonce =
     \<lparr>ci_sessionKey = rq_sessionKey r, ci_operation = rq_operation r, ci_nonce = signedNonce,
      ci_to = str_param (rq_parameters r) ''to'', ci_amount = str_param (rq_parameters r) ''amount'',
      ci_asset = str_param (rq_parameters r) ''asset''\<rparr>"

definition canonicalPayload :: "relay_request \<Rightarrow> int \<Rightarrow> string" where
  "canonicalPayload r signedNonce = buildCanonicalPayload (request_input r signedNonce)"

definition extractSignedTransactionXdr :: "relay_request \<Rightarrow> string option" where
  "extractSignedTransactionXdr r = (case map_get (rq_parameters r) ''signedTransactionXdr'' of
       Some (PStr s) \<Rightarrow> if js_trim s = [] then None else Some (js_trim s)
     | _ \<Rightarrow> None)"

definition ascii_upper :: "string \<Rightarrow> string" where
  "ascii_upper s = map (\<lambda>c. if is_lower_char c then char_of (char_code c - 32) else c) s"

definition mockTxId :: "byte list \<Rightarrow> string" where
  "mockTxId rnd = ascii_upper (hex_of rnd)"

section \<open>validateRelay\<close>

text \<open>Up to the first \<open>await\<close>: the format guards and the replay check, which evicts as it looks.\<close>

definition validate_entry ::
  "time \<Rightarrow> relay_request \<Rightarrow> nonce_store option \<Rightarrow> validation_result option \<times> nonce_store option" where
  "validate_entry now r ns =
     (case validateSessionKey (rq_sessionKey r) of
        Some m \<Rightarrow> (Some (invalid_with INVALID_SIGNATURE m), ns)
      | None \<Rightarrow>
        if rq_nonce r < 0 then (Some (invalid_with NONCE_REPLAY ''Nonce must be non-negative''), ns)
        else case ns of
          None \<Rightarrow> (None, None)
        | Some s \<Rightarrow> (case assertFresh now (rq_sessionKey r) (rq_nonce r) s of
            (Inl e, s') \<Rightarrow> (Some (invalid_with NONCE_REPLAY (coalesce (errorMessage e) ''Nonce already used'')), Some s')
          | (Inr _, s') \<Rightarrow> (None, Some s')))"

definition policy_ctx :: "policy_input \<Rightarrow> policy_context" where
  "policy_ctx p = \<lparr>pc_amount = pi_amount p, pc_todayTotal = pi_todayTotal p, pc_policy = pi_policy p,
     pc_assetCode = pi_assetCode p, pc_stepUpConfirmed = pi_stepUpConfirmed p\<rparr>"

definition policy_outcome :: "(number \<Rightarrow> string) \<Rightarrow> policy_input option \<Rightarrow> validation_result" where
  "policy_outcome sh pol = (case pol of
       None \<Rightarrow> valid_result
     | Some p \<Rightarrow>
         let v = validateTransferPolicyConstraints (policy_ctx p)
         in if \<not> pv_valid v \<or> pv_requiresStepUp v = Some True
            then \<lparr>vr_valid = False,
                  vr_error = Some (case pv_error v of
                     Some (c, m) \<Rightarrow> relay_err c (render_message sh m)
                   | None \<Rightarrow> relay_err POLICY_DENIED ''This transfer requires additional confirmation.''),
                  vr_requiresStepUp = pv_requiresStepUp v\<rparr>
            else valid_result)"

text \<open>From the key lookup on: nothing here touches the service's state.\<close>

definition validate_rest :: "'k relay_env \<Rightarrow> int option \<Rightarrow> relay_request \<Rightarrow> validation_result" where
  "validate_rest env signedNonce r =
     (case re_getSessionKey env (map_get (rq_parameters r) ''accountAddress'') (rq_sessionKey r) of
        Inl e \<Rightarrow> invalid_with INVALID_SIGNATURE
          (''Session key verification unavailable: '' @ coalesce (errorMessage e) ''Unable to verify session key on chain'')
      | Inr None \<Rightarrow> invalid_with INVALID_SIGNATURE ''Session key not found on chain''
      | Inr (Some key) \<Rightarrow>
          if \<not> re_verify env (rq_sessionKey r) (canonicalPayload r (coalesce signedNonce (rq_nonce r))) (rq_signature r)
          then invalid_with INVALID_SIGNATURE ''Signature verification failed''
          else policy_outcome (re_show env) (rq_transferPolicy r))"

definition validateRelay ::
  "'k relay_env \<Rightarrow> time \<Rightarrow> int option \<Rightarrow> relay_request \<Rightarrow> nonce_store option \<Rightarrow> validation_result \<times> nonce_store option" where
  "validateRelay env now signedNonce r ns = (case validate_entry now r ns of
       (Some res, ns') \<Rightarrow> (res, ns')
     | (None, ns') \<Rightarrow> (validate_rest env signedNonce r, ns'))"

section \<open>executeRelay\<close>

text \<open>The submission part: simulate, then submit what was assembled; a throw of either is classified.\<close>

definition submit_relay :: "'k relay_env \<Rightarrow> byte list \<Rightarrow> relay_request \<Rightarrow> execute_response" where
  "submit_relay env rnd r =
     (if re_useMock env
      then \<lparr>xr_success = True, xr_transactionId = Some (mockTxId rnd), xr_error = None, xr_gasUsed = 0\<rparr>
      else case re_submitter env of
        None \<Rightarrow> failed_with INTERNAL_ERROR ''Transaction submitter is not configured''
      | Some sb \<Rightarrow> (case extractSignedTransactionXdr r of
          None \<Rightarrow> failed_with INTERNAL_ERROR ''Missing required parameter: signedTransactionXdr''
        | Some xdr \<Rightarrow> (case sb_simulate sb xdr of
            Inl e \<Rightarrow> \<lparr>xr_success = False, xr_transactionId = None, xr_error = Some (classify_failure e), xr_gasUsed = 0\<rparr>
          | Inr (assembled, gas) \<Rightarrow> (case sb_submit sb assembled of
              Inl e \<Rightarrow> \<lparr>xr_success = False, xr_transactionId = None, xr_error = Some (classify_failure e), xr_gasUsed = 0\<rparr>
            | Inr hash \<Rightarrow> \<lparr>xr_success = True, xr_transactionId = Some hash, xr_error = None, xr_gasUsed = gas\<rparr>))))"

text \<open>After validation: refuse, or record the nonce and submit.\<close>

definition execute_rest ::
  "'k relay_env \<Rightarrow> time \<Rightarrow> time \<Rightarrow> time \<Rightarrow> byte list \<Rightarrow> validation_result \<Rightarrow> relay_request
     \<Rightarrow> nonce_store option \<Rightarrow> execute_response \<times> nonce_store option" where
  "execute_rest env ttl now now' rnd v r ns =
     (if \<not> vr_valid v \<or> vr_requiresStepUp v = Some True
      then (\<lparr>xr_success = False, xr_transactionId = None,
             xr_error = Some (coalesce (vr_error v)
               (relay_err POLICY_DENIED ''This transfer requires additional confirmation.'')),
             xr_gasUsed = 0\<rparr>, ns)
      else (submit_relay env rnd r,
            map_option (trackNonce ttl now now' (rq_sessionKey r) (rq_nonce r)) ns))"

definition executeRelay ::
  "'k relay_env \<Rightarrow> time \<Rightarrow> time \<Rightarrow> time \<Rightarrow> time \<Rightarrow> byte list \<Rightarrow> int option \<Rightarrow> relay_request
     \<Rightarrow> nonce_store option \<Rightarrow> execute_response \<times> nonce_store option" where
  "executeRelay env ttl t0 t1 t2 rnd signedNonce r ns =
     (case validateRelay env t0 signedNonce r ns of
        (v, ns') \<Rightarrow> execute_rest env ttl t1 t2 rnd v r ns')"

section \<open>The handlers\<close>

definition sanitize_error :: "relay_error option \<Rightarrow> relay_error option" where
  "sanitize_error e = map_option (\<lambda>x. x\<lparr>err_message := sanitizeErrorMessage (err_message x)\<rparr>) e"

text \<open>
  What the service call of the execute handler ends in: a response, or a throw. A throw whose text
  is clean is passed on to the framework (\<open>Inl\<close>).
\<close>

definition executeRelayHandler :: "thrown + execute_response \<Rightarrow> thrown + (int \<times> execute_response)" where
  "executeRelayHandler outcome = (case outcome of
       Inl e \<Rightarrow>
         let raw = thrown_text e; clean = sanitizeErrorMessage raw
         in if clean = raw then Inl e else Inr (500, failed_with INTERNAL_ERROR clean)
     | Inr resp \<Rightarrow>
         let resp' = (if xr_success resp then resp else resp\<lparr>xr_error := sanitize_error (xr_error resp)\<rparr>)
         in Inr (if xr_success resp' then 200 else 422, resp'))"

definition validateRelayHandler :: "validation_result \<Rightarrow> int \<times> validation_result" where
  "validateRelayHandler v =
     (let v' = (if vr_valid v then v else v\<lparr>vr_error := sanitize_error (vr_error v)\<rparr>)
      in (if vr_valid v' then 200 else 422, v'))"

section \<open>Health\<close>

record dep_status =
  ds_ok :: bool
  ds_message :: "string option"
  ds_latencyMs :: "int option"

definition dep_up :: "string option \<Rightarrow> int option \<Rightarrow> dep_status" where
  "dep_up m l = \<lparr>ds_ok = True, ds_message = m, ds_latencyMs = l\<rparr>"

definition dep_down :: "string \<Rightarrow> int option \<Rightarrow> dep_status" where
  "dep_down m l = \<lparr>ds_ok = False, ds_message = Some m, ds_latencyMs = l\<rparr>"

text \<open>What the service object holds besides the environment: whether a queue and a store were given,
  and whether a signature service was given and has a probe.\<close>

record service_parts =
  svc_queue :: bool
  svc_store :: bool
  svc_signature :: bool
  svc_probe :: bool

definition resolveRpcStatus :: "'k relay_env \<Rightarrow> dep_status" where
  "resolveRpcStatus env = (if re_useMock env then dep_up (Some ''Mock submission mode'') (Some 12)
     else if re_submitter env = None then dep_down ''Transaction submitter is not configured'' None
     else dep_up None None)"

definition resolveSignatureServiceStatus :: "service_parts \<Rightarrow> dep_status" where
  "resolveSignatureServiceStatus sp = (if \<not> svc_signature sp then dep_down ''Signature service is not configured'' None
     else if \<not> svc_probe sp then dep_up (Some ''Health check not implemented'') None
     else dep_up None None)"

record health_report =
  hr_ok :: bool
  hr_uptime :: int
  hr_queue :: dep_status
  hr_rpc :: dep_status
  hr_storage :: dep_status
  hr_signature :: dep_status
  hr_database :: "dep_status option"

definition health :: "'k relay_env \<Rightarrow> service_parts \<Rightarrow> time \<Rightarrow> time \<Rightarrow> health_report" where
  "health env sp startTime now =
     (let q = (if svc_queue sp then dep_up None None else dep_down ''Queue not initialized'' None);
          r = resolveRpcStatus env;
          st = (if svc_store sp then dep_up None None else dep_down ''Storage not initialized'' None);
          sg = resolveSignatureServiceStatus sp
      in \<lparr>hr_ok = (ds_ok q \<and> ds_ok r \<and> ds_ok st \<and> ds_ok sg), hr_uptime = (now - startTime) div 1000,
          hr_queue = q, hr_rpc = r, hr_storage = st, hr_signature = sg, hr_database = None\<rparr>)"

text \<open>\<open>probe\<close> is the outcome of the submitter's \<open>isHealthy\<close>: a throw, or health and latency.\<close>

definition checkRpcHealth :: "'k relay_env \<Rightarrow> thrown + (bool \<times> int option) \<Rightarrow> dep_status" where
  "checkRpcHealth env probe =
     (if re_useMock env then dep_up (Some ''Mock submission mode'') (Some 12)
      else if re_submitter env = None then dep_down ''Transaction submitter is not configured'' None
      else case probe of
          Inr (healthy, l) \<Rightarrow> if healthy then dep_up None l else dep_down ''Soroban RPC unreachable'' l
        | Inl _ \<Rightarrow> dep_down ''Soroban RPC health check failed'' None)"

text \<open>\<open>race\<close> is what settles first, the probe or the timer's rejection; \<open>elapsed\<close> the time it took.\<close>

definition checkSignatureServiceHealth :: "service_parts \<Rightarrow> thrown + (bool \<times> int option) \<Rightarrow> int \<Rightarrow> dep_status" where
  "checkSignatureServiceHealth sp race elapsed =
     (if \<not> svc_probe sp then dep_up (Some ''Health check not implemented'') None
      else case race of
          Inr (healthy, l) \<Rightarrow>
            if healthy then dep_up None (Some (coalesce l elapsed))
            else dep_down ''Signature service unreachable'' (Some (coalesce l elapsed))
        | Inl e \<Rightarrow> dep_down (''Signature service health check failed: ''
            @ coalesce (errorMessage e) ''Unknown error'') None)"

text \<open>\<open>db\<close>: no pool, or the outcome of the ping (\<open>Inl\<close> its error text, empty when it has none) and its time.\<close>

definition database_status :: "(string + unit) \<times> int \<Rightarrow> dep_status" where
  "database_status d = (case d of
       (Inr _, l) \<Rightarrow> dep_up None (Some l)
     | (Inl m, l) \<Rightarrow> dep_down (if m = [] then ''Database query failed'' else m) (Some l))"

definition healthHandler ::
  "'k relay_env \<Rightarrow> service_parts \<Rightarrow> time \<Rightarrow> time \<Rightarrow> thrown + (bool \<times> int option)
     \<Rightarrow> thrown + (bool \<times> int option) \<Rightarrow> int \<Rightarrow> ((string + unit) \<times> int) option \<Rightarrow> int \<times> health_report" where
  "healthHandler env sp startTime now rpc_probe sig_race elapsed db =
     (let h = health env sp startTime now;
          rpc = checkRpcHealth env rpc_probe;
          sg = checkSignatureServiceHealth sp sig_race elapsed;
          d = map_option database_status db;
          up = (ds_ok (hr_queue h) \<and> ds_ok rpc \<and> ds_ok (hr_storage h) \<and> ds_ok sg
             \<and> (case d of None \<Rightarrow> True | Some x \<Rightarrow> ds_ok x))
      in (if up then 200 else 503, h\<lparr>hr_ok := up, hr_rpc := rpc, hr_signature := sg, hr_database := d\<rparr>))"

section \<open>Lemmas\<close>

lemma dep_simps [simp]: "ds_ok (dep_up m l)" "\<not> ds_ok (dep_down m' l)"
  by (simp_all add: dep_up_def dep_down_def)

lemma result_simps [simp]: "vr_valid valid_result" "\<not> vr_valid (invalid_with c m)"
  "vr_error valid_result = None" "vr_error (invalid_with c m) = Some (relay_err c m)"
  "vr_requiresStepUp valid_result = None" "vr_requiresStepUp (invalid_with c m) = None"
  "\<not> xr_success (failed_with c m)" "xr_error (failed_with c m) = Some (relay_err c m)"
  by (simp_all add: valid_result_def invalid_with_def failed_with_def)

definition policy_passes :: "policy_input option \<Rightarrow> bool" where
  "policy_passes pol = (case pol of None \<Rightarrow> True | Some p \<Rightarrow>
     (case policy_action_of (pi_amount p) (pi_todayTotal p) (pi_policy p) of
        Allow \<Rightarrow> True | StepUp \<Rightarrow> pi_stepUpConfirmed p = Some True | Block \<Rightarrow> False))"

lemma policy_outcome_valid: "vr_valid (policy_outcome sh pol) = policy_passes pol"
proof (cases pol)
  case (Some p)
  have "pv_valid (validateTransferPolicyConstraints (policy_ctx p)) \<Longrightarrow>
      pv_requiresStepUp (validateTransferPolicyConstraints (policy_ctx p)) = None"
    by (auto simp: validateTransferPolicyConstraints_def split: prod.splits policy_action.splits if_splits)
  moreover have "pv_valid (validateTransferPolicyConstraints (policy_ctx p)) = policy_passes (Some p)"
    by (simp add: constraints_valid policy_passes_def policy_ctx_def split: policy_action.split)
  ultimately show ?thesis using Some by (simp add: policy_outcome_def Let_def)
qed (simp add: policy_outcome_def policy_passes_def)

lemma policy_outcome_shape:
  "if vr_valid (policy_outcome sh pol) then policy_outcome sh pol = valid_result
   else \<exists>e. vr_error (policy_outcome sh pol) = Some e \<and> err_code e = POLICY_DENIED"
proof (cases pol)
  case (Some p)
  let ?v = "validateTransferPolicyConstraints (policy_ctx p)"
  have "\<forall>c m. pv_error ?v = Some (c, m) \<longrightarrow> c = POLICY_DENIED"
    by (auto simp: validateTransferPolicyConstraints_def split: prod.splits policy_action.splits if_splits)
  with Some show ?thesis by (auto simp: policy_outcome_def Let_def split: option.splits)
qed (simp add: policy_outcome_def)

text \<open>The part of the verdict that does not depend on the replay store.\<close>

definition request_authentic :: "'k relay_env \<Rightarrow> int option \<Rightarrow> relay_request \<Rightarrow> bool" where
  "request_authentic env sn r \<longleftrightarrow>
     (\<exists>key. re_getSessionKey env (map_get (rq_parameters r) ''accountAddress'') (rq_sessionKey r) = Inr (Some key))
     \<and> re_verify env (rq_sessionKey r) (canonicalPayload r (coalesce sn (rq_nonce r))) (rq_signature r)"

lemma validate_rest_valid:
  "vr_valid (validate_rest env sn r) \<longleftrightarrow> request_authentic env sn r \<and> policy_passes (rq_transferPolicy r)"
  by (auto simp: validate_rest_def request_authentic_def policy_outcome_valid split: sum.splits option.splits)

lemma validate_rest_shape:
  "if vr_valid (validate_rest env sn r) then validate_rest env sn r = valid_result
   else \<exists>e. vr_error (validate_rest env sn r) = Some e \<and> err_code e \<in> {INVALID_SIGNATURE, POLICY_DENIED}"
  using policy_outcome_shape [of "re_show env" "rq_transferPolicy r"]
  by (auto simp: validate_rest_def split: sum.splits option.splits if_splits)

definition store_ok :: "nonce_store option \<Rightarrow> bool" where
  "store_ok ns = (case ns of None \<Rightarrow> True | Some s \<Rightarrow> nonce_wf s)"

definition replayed :: "nonce_store option \<Rightarrow> time \<Rightarrow> relay_request \<Rightarrow> bool" where
  "replayed ns t r = (case ns of None \<Rightarrow> False | Some s \<Rightarrow> nonce_live s t (rq_sessionKey r) (rq_nonce r))"

lemma validate_entry_spec:
  "store_ok ns \<Longrightarrow> validate_entry now r ns =
     (if validateSessionKey (rq_sessionKey r) \<noteq> None
      then (Some (invalid_with INVALID_SIGNATURE ''sessionKey must be a 64-char hex-encoded Ed25519 public key''), ns)
      else if rq_nonce r < 0 then (Some (invalid_with NONCE_REPLAY ''Nonce must be non-negative''), ns)
      else (if replayed ns now r then Some (invalid_with NONCE_REPLAY ''Nonce already used'') else None,
            map_option (evictExpired now (rq_sessionKey r)) ns))"
  by (auto simp: validate_entry_def validateSessionKey_def store_ok_def replayed_def assertFresh_pair
      nonce_replay_error_def split: option.splits)

lemma store_ok_evict: "store_ok ns \<Longrightarrow> store_ok (map_option (evictExpired t k) ns)"
  by (auto simp: store_ok_def intro: evict_wf split: option.splits)

lemma store_ok_track: "store_ok ns \<Longrightarrow> store_ok (map_option (trackNonce ttl t t' k n) ns)"
  by (auto simp: store_ok_def intro: track_wf split: option.splits)

lemma replayed_evict: "store_ok ns \<Longrightarrow> now \<le> t \<Longrightarrow>
   replayed (map_option (evictExpired now k) ns) t r = replayed ns t r"
  by (auto simp: store_ok_def replayed_def evict_live split: option.splits)

lemma replayed_track: "store_ok ns \<Longrightarrow> ns \<noteq> None \<Longrightarrow> now \<le> t \<Longrightarrow>
   replayed (map_option (trackNonce ttl now now' k n) ns) t r =
     (if rq_sessionKey r = k \<and> rq_nonce r = n then t \<le> now' + ttl else replayed ns t r)"
  by (auto simp: store_ok_def replayed_def track_live split: option.splits)

lemma validateRelay_valid:
  "store_ok ns \<Longrightarrow> vr_valid (fst (validateRelay env now sn r ns)) \<longleftrightarrow>
     validateSessionKey (rq_sessionKey r) = None \<and> 0 \<le> rq_nonce r \<and> \<not> replayed ns now r
     \<and> request_authentic env sn r \<and> policy_passes (rq_transferPolicy r)"
  by (auto simp: validateRelay_def validate_entry_spec validate_rest_valid)

lemma validateRelay_store:
  "store_ok ns \<Longrightarrow> snd (validateRelay env now sn r ns) =
     (if validateSessionKey (rq_sessionKey r) \<noteq> None \<or> rq_nonce r < 0 then ns
      else map_option (evictExpired now (rq_sessionKey r)) ns)"
  by (auto simp: validateRelay_def validate_entry_spec)

lemma validateRelay_shape:
  "store_ok ns \<Longrightarrow> if vr_valid (fst (validateRelay env now sn r ns))
     then fst (validateRelay env now sn r ns) = valid_result
     else \<exists>e. vr_error (fst (validateRelay env now sn r ns)) = Some e
        \<and> err_code e \<in> {INVALID_SIGNATURE, NONCE_REPLAY, POLICY_DENIED}"
  using validate_rest_shape [of env sn r] by (auto simp: validateRelay_def validate_entry_spec)

lemma validateRelay_replayed:
  "store_ok ns \<Longrightarrow> validateSessionKey (rq_sessionKey r) = None \<Longrightarrow> 0 \<le> rq_nonce r \<Longrightarrow> replayed ns now r \<Longrightarrow>
     fst (validateRelay env now sn r ns) = invalid_with NONCE_REPLAY ''Nonce already used''"
  by (simp add: validateRelay_def validate_entry_spec)

lemma execute_rest_refuse: "\<not> vr_valid v \<Longrightarrow> vr_error v = Some e \<Longrightarrow>
   execute_rest env ttl t1 t2 rnd v r ns =
     (\<lparr>xr_success = False, xr_transactionId = None, xr_error = Some e, xr_gasUsed = 0\<rparr>, ns)"
  by (simp add: execute_rest_def)

lemma execute_rest_valid: "execute_rest env ttl t1 t2 rnd valid_result r ns =
   (submit_relay env rnd r, map_option (trackNonce ttl t1 t2 (rq_sessionKey r) (rq_nonce r)) ns)"
  by (simp add: execute_rest_def)

lemma executeRelay_cases:
  "store_ok ns \<Longrightarrow> executeRelay env ttl t0 t1 t2 rnd sn r ns =
     (if vr_valid (fst (validateRelay env t0 sn r ns))
      then (submit_relay env rnd r,
            map_option (trackNonce ttl t1 t2 (rq_sessionKey r) (rq_nonce r)) (snd (validateRelay env t0 sn r ns)))
      else (\<lparr>xr_success = False, xr_transactionId = None,
             xr_error = vr_error (fst (validateRelay env t0 sn r ns)), xr_gasUsed = 0\<rparr>,
            snd (validateRelay env t0 sn r ns)))"
  using validateRelay_shape [of ns env t0 sn r]
  by (auto simp: executeRelay_def execute_rest_valid execute_rest_refuse
      split: prod.splits if_splits)

lemma executeRelay_store_ok: "store_ok ns \<Longrightarrow> store_ok (snd (executeRelay env ttl t0 t1 t2 rnd sn r ns))"
  by (simp add: executeRelay_cases validateRelay_store store_ok_track store_ok_evict)

text \<open>Which codes a submission can end with.\<close>

lemma submit_relay_codes: "xr_error (submit_relay env rnd r) = Some e \<Longrightarrow>
   err_code e \<in> {GAS_LIMIT_EXCEEDED, SIMULATION_FAILED, RPC_DOWN, INTERNAL_ERROR}"
  using classify_failure_code
  by (auto simp: submit_relay_def failed_with_def split: if_splits option.splits sum.splits prod.splits)

lemma submit_relay_success: "xr_success (submit_relay env rnd r) = (xr_error (submit_relay env rnd r) = None)"
  by (simp add: submit_relay_def failed_with_def split: option.splits sum.splits prod.splits)

section \<open>Interleavings\<close>

text \<open>
  Between the replay check and the recording of the nonce the request waits for the on-chain lookup.
  \<open>RBegin\<close> runs a request to that wait, \<open>RFinish\<close> resumes a waiting one; other requests may run in
  between. The state is the replay store, the waiting requests and the answers given so far.
\<close>

datatype relay_event = RBegin time relay_request | RFinish time relay_request

type_synonym relay_sys = "nonce_store \<times> relay_request list \<times> (relay_request \<times> execute_response) list"

definition relay_begin :: "'k relay_env \<Rightarrow> time \<Rightarrow> time \<Rightarrow> byte list \<Rightarrow> relay_request \<Rightarrow> relay_sys \<Rightarrow> relay_sys" where
  "relay_begin env ttl now rnd r sys = (case sys of (s, waiting, answers) \<Rightarrow>
     (case validate_entry now r (Some s) of
        (Some v, ns) \<Rightarrow> (coalesce ns s, waiting, answers @ [(r, fst (execute_rest env ttl now now rnd v r ns))])
      | (None, ns) \<Rightarrow> (coalesce ns s, waiting @ [r], answers)))"

definition relay_finish :: "'k relay_env \<Rightarrow> time \<Rightarrow> time \<Rightarrow> byte list \<Rightarrow> relay_request \<Rightarrow> relay_sys \<Rightarrow> relay_sys" where
  "relay_finish env ttl now rnd r sys = (case sys of (s, waiting, answers) \<Rightarrow>
     if r \<in> set waiting
     then (case execute_rest env ttl now now rnd (validate_rest env None r) r (Some s) of
             (resp, ns) \<Rightarrow> (coalesce ns s, remove1 r waiting, answers @ [(r, resp)]))
     else sys)"

fun relay_event_step :: "'k relay_env \<Rightarrow> time \<Rightarrow> byte list \<Rightarrow> relay_event \<Rightarrow> relay_sys \<Rightarrow> relay_sys" where
  "relay_event_step env ttl rnd (RBegin t r) sys = relay_begin env ttl t rnd r sys"
| "relay_event_step env ttl rnd (RFinish t r) sys = relay_finish env ttl t rnd r sys"

definition relay_run :: "'k relay_env \<Rightarrow> time \<Rightarrow> byte list \<Rightarrow> relay_event list \<Rightarrow> relay_sys \<Rightarrow> relay_sys" where
  "relay_run env ttl rnd evs sys = fold (relay_event_step env ttl rnd) evs sys"

lemma relay_run_simps [simp]:
  "relay_run env ttl rnd [] sys = sys"
  "relay_run env ttl rnd (e # es) sys = relay_run env ttl rnd es (relay_event_step env ttl rnd e sys)"
  by (simp_all add: relay_run_def)

lemma relay_begin_waits:
  assumes "nonce_wf s" "validateSessionKey (rq_sessionKey r) = None" "0 \<le> rq_nonce r"
    and "\<not> nonce_live s t (rq_sessionKey r) (rq_nonce r)"
  shows "relay_begin env ttl t rnd r (s, w, a) = (evictExpired t (rq_sessionKey r) s, w @ [r], a)"
  using assms validate_entry_spec [of "Some s" t r]
  by (simp add: relay_begin_def store_ok_def replayed_def)

lemma relay_finish_submits:
  assumes "r \<in> set w" "request_authentic env None r" "policy_passes (rq_transferPolicy r)"
  shows "relay_finish env ttl t rnd r (s, w, a) =
    (trackNonce ttl t t (rq_sessionKey r) (rq_nonce r) s, remove1 r w, a @ [(r, submit_relay env rnd r)])"
proof -
  have "validate_rest env None r = valid_result"
    using assms(2,3) validate_rest_shape [of env None r] validate_rest_valid [of env None r] by simp
  with assms(1) show ?thesis by (simp add: relay_finish_def execute_rest_valid)
qed

text \<open>
  What the requests of other callers do to the replay store, cut at the same \<open>await\<close>: the entry of a
  call of \<open>validateRelay\<close> or \<open>executeRelay\<close>, the rest of an \<open>executeRelay\<close> (under the environment it
  meets, its on-chain lookup included), and the sweep. A list of them is any traffic, overlapping or not.
\<close>

datatype 'k relay_op =
    Entry time relay_request
  | Resume "'k relay_env" time time "byte list" "int option" relay_request
  | Sweep time

fun run_relay_op :: "time \<Rightarrow> 'k relay_op \<Rightarrow> nonce_store option \<Rightarrow> nonce_store option" where
  "run_relay_op ttl (Entry t r) ns = snd (validate_entry t r ns)"
| "run_relay_op ttl (Resume env t t' rnd sn r) ns =
     snd (execute_rest env ttl t t' rnd (validate_rest env sn r) r ns)"
| "run_relay_op ttl (Sweep t) ns = map_option (nonceClearExpired t) ns"

definition run_relay_ops :: "time \<Rightarrow> 'k relay_op list \<Rightarrow> nonce_store option \<Rightarrow> nonce_store option" where
  "run_relay_ops ttl ops ns = fold (run_relay_op ttl) ops ns"

text \<open>The clock readings of the traffic lie between two times.\<close>

fun op_within :: "time \<Rightarrow> time \<Rightarrow> 'k relay_op \<Rightarrow> bool" where
  "op_within lo hi (Entry t r) = (lo \<le> t \<and> t \<le> hi)"
| "op_within lo hi (Resume env t t' rnd sn r) = (lo \<le> t \<and> t \<le> t' \<and> t' \<le> hi)"
| "op_within lo hi (Sweep t) = (lo \<le> t \<and> t \<le> hi)"

text \<open>A whole call is its entry, followed by the rest when the entry lets it through.\<close>

lemma executeRelay_ops: "snd (executeRelay env ttl t0 t1 t2 rnd sn r ns) =
   run_relay_ops ttl (if fst (validate_entry t0 r ns) = None
     then [Entry t0 r, Resume env t1 t2 rnd sn r] else [Entry t0 r]) ns"
proof -
  obtain o' ns' where e: "validate_entry t0 r ns = (o', ns')" by (cases "validate_entry t0 r ns")
  have "\<not> vr_valid v" if "o' = Some v" for v
    using e that by (auto simp: validate_entry_def split: option.splits prod.splits sum.splits if_splits)
  with e show ?thesis
    by (auto simp: executeRelay_def validateRelay_def run_relay_ops_def execute_rest_def split: option.splits)
qed

lemma validate_rest_step: "validate_rest env sn r = valid_result \<or> \<not> vr_valid (validate_rest env sn r)"
  using validate_rest_shape [of env sn r] by (auto split: if_splits)

lemma relay_op_ok:
  assumes "store_ok ns" "ns \<noteq> None"
  shows "store_ok (run_relay_op ttl p ns) \<and> run_relay_op ttl p ns \<noteq> None"
proof (cases p)
  case (Entry t r)
  with assms show ?thesis by (simp add: validate_entry_spec store_ok_evict)
next
  case (Resume env t t' rnd sn r)
  with assms validate_rest_step [of env sn r] show ?thesis
    by (auto simp: execute_rest_valid execute_rest_def [of _ _ _ _ _ "validate_rest env sn r"] store_ok_track)
next
  case (Sweep t)
  with assms show ?thesis by (auto simp: store_ok_def intro: clear_wf split: option.splits)
qed

text \<open>A nonce recorded at \<open>lo\<close> or later is still refused at \<open>t\<close>, within the time-to-live of \<open>lo\<close>.\<close>

lemma relay_op_replayed:
  assumes "store_ok ns" "ns \<noteq> None" "op_within lo t p" "t \<le> lo + ttl" "replayed ns t r"
  shows "replayed (run_relay_op ttl p ns) t r"
proof (cases p)
  case (Entry u r')
  with assms show ?thesis by (simp add: validate_entry_spec replayed_evict)
next
  case (Resume env u u' rnd sn r')
  with assms validate_rest_step [of env sn r'] show ?thesis
    by (auto simp: execute_rest_valid execute_rest_def [of _ _ _ _ _ "validate_rest env sn r'"] replayed_track)
next
  case (Sweep u)
  with assms show ?thesis by (auto simp: store_ok_def replayed_def clear_live split: option.splits)
qed

lemma relay_ops_replayed:
  assumes "store_ok ns" "ns \<noteq> None" "list_all (op_within lo t) ops" "t \<le> lo + ttl" "replayed ns t r"
  shows "store_ok (run_relay_ops ttl ops ns) \<and> replayed (run_relay_ops ttl ops ns) t r"
  using assms
proof (induction ops arbitrary: ns)
  case Nil
  then show ?case by (simp add: run_relay_ops_def)
next
  case (Cons p ops)
  then show ?case
    using relay_op_ok [of ns ttl p] relay_op_replayed [of ns lo t p ttl r] by (simp add: run_relay_ops_def)
qed

section \<open>From the client to the service\<close>

text \<open>The JSON body of a signed payload, as the route receives it.\<close>

definition wire_request :: "signed_payload \<Rightarrow> relay_request" where
  "wire_request p = \<lparr>rq_sessionKey = sp_sessionKey p, rq_operation = sp_operation p,
     rq_parameters = [(''to'', PStr (rp_to (sp_parameters p))), (''amount'', PStr (rp_amount (sp_parameters p))),
        (''asset'', PStr (rp_asset (sp_parameters p)))]
        @ (case rp_accountAddress (sp_parameters p) of None \<Rightarrow> [] | Some a \<Rightarrow> [(''accountAddress'', PStr a)]),
     rq_signature = sp_signature p, rq_nonce = sp_nonce p, rq_transferPolicy = None\<rparr>"

lemma hex_key_valid: "bytes_ok raw \<Longrightarrow> length raw = 32 \<Longrightarrow> validateSessionKey (hex_of raw) = None"
proof -
  assume "bytes_ok raw" "length raw = 32"
  moreover have "list_all is_hex_char (hex_of bs)" if "bytes_ok bs" for bs
    using that by (induction bs) (auto simp: hex_byte_def is_hex_digit div_less_iff_less_mult)
  ultimately show ?thesis by (simp add: validateSessionKey_def)
qed

section \<open>Properties\<close>

text \<open>
  C13. What the relayer requires of a request: it validates exactly when the session key is 64 hex
  digits, the nonce is non-negative and not recorded within the time-to-live, the key is found on
  chain, the signature verifies over the payload rebuilt from the request, and the transfer policy
  passes. No other path leads to a positive verdict.
\<close>

theorem validate_relay_exact:
  assumes "nonce_wf s"
  shows "vr_valid (fst (validateRelay env now sn r (Some s))) \<longleftrightarrow>
     length (rq_sessionKey r) = 64 \<and> list_all is_hex_char (rq_sessionKey r)
     \<and> 0 \<le> rq_nonce r \<and> \<not> nonce_live s now (rq_sessionKey r) (rq_nonce r)
     \<and> (\<exists>key. re_getSessionKey env (map_get (rq_parameters r) ''accountAddress'') (rq_sessionKey r) = Inr (Some key))
     \<and> re_verify env (rq_sessionKey r)
         (buildCanonicalPayload (request_input r (coalesce sn (rq_nonce r)))) (rq_signature r)
     \<and> (\<forall>p. rq_transferPolicy r = Some p \<longrightarrow> pv_valid (validateTransferPolicyConstraints (policy_ctx p)))"
proof -
  have "policy_passes (rq_transferPolicy r) \<longleftrightarrow>
      (\<forall>p. rq_transferPolicy r = Some p \<longrightarrow> pv_valid (validateTransferPolicyConstraints (policy_ctx p)))"
    by (auto simp: policy_passes_def constraints_valid policy_ctx_def split: option.splits policy_action.splits)
  then show ?thesis
    using assms by (auto simp: validateRelay_valid store_ok_def replayed_def validateSessionKey_def
        request_authentic_def canonicalPayload_def)
qed

definition demo_env :: "bool \<Rightarrow> int relay_env" where
  "demo_env mock = \<lparr>re_verify = (\<lambda>k p sg. sg = ''good''), re_getSessionKey = (\<lambda>a k. if a = None then Inr None else Inr (Some 0)),
     re_useMock = mock, re_submitter = Some \<lparr>sb_simulate = (\<lambda>x. Inl (NetworkError ''down'' None None)), sb_submit = (\<lambda>x. Inr x)\<rparr>,
     re_show = (\<lambda>x. [])\<rparr>"

definition demo_request :: relay_request where
  "demo_request = \<lparr>rq_sessionKey = replicate 64 (CHR ''a''), rq_operation = ''relay_execute'',
     rq_parameters = [(''accountAddress'', PStr ''C1''), (''signedTransactionXdr'', PStr ''AAAA'')],
     rq_signature = ''good'', rq_nonce = 7, rq_transferPolicy = None\<rparr>"

lemma demo_key: "list_all is_hex_char (rq_sessionKey demo_request)" "length (rq_sessionKey demo_request) = 64"
  by (simp_all add: demo_request_def list_all_iff is_hex_char_def is_digit_char_def char_code_def)

lemma demo_authentic: "request_authentic (demo_env m) sn demo_request" "policy_passes (rq_transferPolicy demo_request)"
  by (simp_all add: request_authentic_def demo_env_def demo_request_def map_get_def policy_passes_def)

theorem validate_relay_exact_witness:
  "vr_valid (fst (validateRelay (demo_env True) 10 None demo_request (Some [])))"
proof -
  have wf: "nonce_wf []" by (simp add: nonce_wf_def)
  show ?thesis
    by (subst validate_relay_exact [OF wf])
       (use demo_key in \<open>simp add: demo_env_def demo_request_def map_get_def nonce_live_def nonce_expiry_def\<close>)
qed

text \<open>
  C38. Replays in sequence: once the execution of a request has passed validation and recorded its
  nonce, every later execution of a request with the same session key and nonce within the
  time-to-live is refused with NONCE_REPLAY and not submitted, whatever other traffic (calls of both
  routes for any keys and nonces, overlapping or not, and sweeps) the service has seen in between.
  This holds whatever became of the first submission, so the nonce of a request that failed for a
  transient reason is spent as well.
\<close>

theorem sequential_replay_refused:
  assumes "nonce_wf s" "vr_valid (fst (validateRelay env t0 sn r (Some s)))" "t0 \<le> t1" "t1 \<le> t" "t \<le> t2 + ttl"
    and "list_all (op_within t2 t) ops"
    and "rq_sessionKey r' = rq_sessionKey r" "rq_nonce r' = rq_nonce r"
  shows "fst (executeRelay env' ttl t u1 u2 rnd' sn' r'
      (run_relay_ops ttl ops (snd (executeRelay env ttl t0 t1 t2 rnd sn r (Some s)))))
    = failed_with NONCE_REPLAY ''Nonce already used''"
proof -
  have ok: "store_ok (Some s)" using assms(1) by (simp add: store_ok_def)
  let ?ns = "snd (executeRelay env ttl t0 t1 t2 rnd sn r (Some s))"
  have f: "validateSessionKey (rq_sessionKey r) = None" "0 \<le> rq_nonce r"
    using assms(2) by (simp_all add: validateRelay_valid [OF ok])
  have ns: "?ns = map_option (trackNonce ttl t1 t2 (rq_sessionKey r) (rq_nonce r))
      (map_option (evictExpired t0 (rq_sessionKey r)) (Some s))"
    using assms(2) f by (simp add: executeRelay_cases [OF ok] validateRelay_store [OF ok])
  then have "replayed ?ns t r'" using assms replayed_track [OF store_ok_evict [OF ok]] by simp
  moreover have "?ns \<noteq> None" by (simp add: ns)
  ultimately have later: "store_ok (run_relay_ops ttl ops ?ns)" "replayed (run_relay_ops ttl ops ?ns) t r'"
    using relay_ops_replayed [OF executeRelay_store_ok [OF ok] _ assms(6,5)] by blast+
  then have "fst (validateRelay env' t sn' r' (run_relay_ops ttl ops ?ns)) = invalid_with NONCE_REPLAY ''Nonce already used''"
    using f assms(7,8) by (intro validateRelay_replayed) simp_all
  then show ?thesis by (simp add: executeRelay_cases [OF later(1)] failed_with_def)
qed

text \<open>Between the two, another nonce of the same key is used and another key is validated.\<close>

theorem sequential_replay_refused_witness:
  "fst (executeRelay (demo_env False) 300000 60 61 62 [] None demo_request
      (run_relay_ops 300000 [Entry 31 (demo_request\<lparr>rq_nonce := 8\<rparr>),
          Resume (demo_env True) 32 33 [] None (demo_request\<lparr>rq_nonce := 8\<rparr>),
          Entry 40 (demo_request\<lparr>rq_sessionKey := replicate 64 (CHR ''b'')\<rparr>), Sweep 50]
        (snd (executeRelay (demo_env False) 300000 10 20 30 [] None demo_request (Some [])))))
    = failed_with NONCE_REPLAY ''Nonce already used''"
proof (rule sequential_replay_refused)
  show "nonce_wf []" by (simp add: nonce_wf_def)
  then show "vr_valid (fst (validateRelay (demo_env False) 10 None demo_request (Some [])))"
    using demo_key demo_authentic by (simp add: validateRelay_valid store_ok_def replayed_def validateSessionKey_def
        nonce_live_def nonce_expiry_def) (simp add: demo_request_def)
qed simp_all

text \<open>
  Replays in parallel: the check and the recording are separated by the wait for the on-chain
  lookup. Two requests that are both checked before either resumes are both submitted, although they
  carry the same session key and nonce.
\<close>

theorem concurrent_replay_submitted_twice:
  assumes "nonce_wf s" "validateSessionKey (rq_sessionKey r) = None" "0 \<le> rq_nonce r"
    and "\<not> nonce_live s t (rq_sessionKey r) (rq_nonce r)"
    and "request_authentic env None r" "policy_passes (rq_transferPolicy r)" "t \<le> t'"
  shows "snd (snd (relay_run env ttl rnd [RBegin t r, RBegin t' r, RFinish u r, RFinish u' r] (s, [], [])))
    = [(r, submit_relay env rnd r), (r, submit_relay env rnd r)]"
proof -
  have "\<not> nonce_live s t' (rq_sessionKey r) (rq_nonce r)"
    using assms(4,7) by (auto simp: nonce_live_def split: option.splits)
  then have "\<not> nonce_live (evictExpired t (rq_sessionKey r) s) t' (rq_sessionKey r) (rq_nonce r)"
    using assms(1,7) by (simp add: evict_live)
  with assms show ?thesis
    by (simp add: relay_begin_waits evict_wf relay_finish_submits)
qed

theorem concurrent_replay_submitted_twice_witness:
  "map (xr_success \<circ> snd) (snd (snd (relay_run (demo_env True) 300000 []
      [RBegin 1 demo_request, RBegin 2 demo_request, RFinish 3 demo_request, RFinish 4 demo_request] ([], [], []))))
    = [True, True]"
proof -
  have "validateSessionKey (rq_sessionKey demo_request) = None" using demo_key by (simp add: validateSessionKey_def)
  then show ?thesis
    using demo_authentic
    by (subst concurrent_replay_submitted_twice)
       (auto simp: nonce_wf_def nonce_live_def nonce_expiry_def submit_relay_def demo_env_def demo_request_def)
qed

text \<open>
  The codes a client can see from an execution. A key that was found on chain is accepted
  whatever it holds, so SESSION_KEY_EXPIRED is never among them.
\<close>

theorem execute_error_codes:
  assumes "nonce_wf s" "xr_error (fst (executeRelay env ttl t0 t1 t2 rnd sn r (Some s))) = Some e"
  shows "err_code e \<in> {INVALID_SIGNATURE, NONCE_REPLAY, POLICY_DENIED, GAS_LIMIT_EXCEEDED, SIMULATION_FAILED,
    RPC_DOWN, INTERNAL_ERROR} \<and> err_code e \<noteq> SESSION_KEY_EXPIRED"
proof -
  have ok: "store_ok (Some s)" using assms(1) by (simp add: store_ok_def)
  show ?thesis
    using assms(2) validateRelay_shape [OF ok, of env t0 sn r] submit_relay_codes [of env rnd r e]
    by (auto simp: executeRelay_cases [OF ok] split: if_splits)
qed

theorem execute_error_codes_witness:
  "err_code (relay_err NONCE_REPLAY ''Nonce must be non-negative'') \<noteq> SESSION_KEY_EXPIRED"
proof -
  let ?r = "demo_request\<lparr>rq_nonce := -1\<rparr>"
  have "xr_error (fst (executeRelay (demo_env True) 300000 1 2 3 [] None ?r (Some [])))
      = Some (relay_err NONCE_REPLAY ''Nonce must be non-negative'')"
    using demo_key by (simp add: executeRelay_def validateRelay_def validate_entry_def validateSessionKey_def
        execute_rest_refuse)
  from execute_error_codes [OF _ this] show ?thesis by (simp add: nonce_wf_def)
qed

text \<open>
  End to end: the body the client builds with the unlocked wallet as its signer validates at the
  relayer unless its nonce was recorded within the time-to-live, for every key pair whose SDK
  verification accepts its own signatures and that is registered on chain.
\<close>

theorem wallet_request_accepted:
  assumes "bytes_ok raw" "length raw = 32"
    and "\<And>m. bytes_ok (sign m)" "\<And>m. length (sign m) = 64"
    and "from_public_key (encodeEd25519PublicKey raw) = Some kp"
    and "\<And>m. kp_verify kp m (sign m) = Some True"
    and "buildSignedRelayPayload clock (signRelayPayload True raw sign) dest amount asset account = Inr p"
    and "re_verify env = sig_verify from_public_key kp_verify"
    and "\<And>a. re_getSessionKey env a (hex_of raw) = Inr (Some key)" "nonce_wf s"
  shows "vr_valid (fst (validateRelay env now None (wire_request p) (Some s)))
    \<longleftrightarrow> \<not> nonce_live s now (hex_of raw) (clock mod 1000000)"
proof -
  obtain sg where sg: "signRelayPayload True raw sign ''relay_execute'' (clock mod 1000000) dest amount (coalesce asset ''XLM'')
      = Inr (hex_of raw, sg)"
    by (simp add: signRelayPayload_def Let_def bytesToHex_hex_of)
  have p: "sp_sessionKey p = hex_of raw" "sp_signature p = sg" "sp_nonce p = clock mod 1000000"
      "sp_operation p = ''relay_execute''" "rp_to (sp_parameters p) = dest" "rp_amount (sp_parameters p) = amount"
      "rp_asset (sp_parameters p) = coalesce asset ''XLM''"
    using assms(7) by (auto simp: buildSignedRelayPayload_def Let_def sg)
  have pay: "request_input (wire_request p) (clock mod 1000000) =
      \<lparr>ci_sessionKey = hex_of raw, ci_operation = ''relay_execute'', ci_nonce = clock mod 1000000,
       ci_to = dest, ci_amount = amount, ci_asset = coalesce asset ''XLM''\<rparr>"
    by (simp add: request_input_def wire_request_def p str_param_def map_get_def)
  have "sig_verify from_public_key kp_verify (hex_of raw)
      (buildCanonicalPayload (request_input (wire_request p) (clock mod 1000000))) sg"
    unfolding pay
    by (rule conjunct2, rule wallet_signature_verifies [of raw sign from_public_key kp kp_verify True]) (fact assms sg)+
  then have "request_authentic env None (wire_request p)"
    using assms(8,9) by (simp add: request_authentic_def canonicalPayload_def wire_request_def p)
  moreover have "policy_passes (rq_transferPolicy (wire_request p))"
    by (simp add: policy_passes_def wire_request_def)
  moreover have "rq_sessionKey (wire_request p) = hex_of raw" "rq_nonce (wire_request p) = clock mod 1000000"
    by (simp_all add: wire_request_def p)
  ultimately show ?thesis
    using assms(10) hex_key_valid [OF assms(1,2)] by (simp add: validateRelay_valid store_ok_def replayed_def)
qed

theorem wallet_request_accepted_witness:
  "\<exists>p. buildSignedRelayPayload 1700000000123 (signRelayPayload True (replicate 32 7) toy_sign) ''G'' ''10'' None (Some ''C1'') = Inr p
    \<and> vr_valid (fst (validateRelay ((demo_env True)\<lparr>re_verify := sig_verify Some (\<lambda>k m sg. Some (sg = toy_sign m)),
          re_getSessionKey := \<lambda>a k. Inr (Some 0)\<rparr>) 5 None (wire_request p) (Some [])))"
proof -
  let ?env = "(demo_env True)\<lparr>re_verify := sig_verify Some (\<lambda>k m sg. Some (sg = toy_sign m)),
          re_getSessionKey := \<lambda>a k. Inr (Some 0)\<rparr>"
  obtain p where p: "buildSignedRelayPayload 1700000000123 (signRelayPayload True (replicate 32 7) toy_sign)
      ''G'' ''10'' None (Some ''C1'') = Inr p"
    by (simp add: buildSignedRelayPayload_def signRelayPayload_def Let_def)
  have "vr_valid (fst (validateRelay ?env 5 None (wire_request p) (Some [])))
      \<longleftrightarrow> \<not> nonce_live [] 5 (hex_of (replicate 32 7)) (1700000000123 mod 1000000)"
    by (rule wallet_request_accepted [OF _ _ _ _ _ _ p])
       (simp_all add: bytes_ok_def toy_sign_def list_all_iff nonce_wf_def)
  with p show ?thesis by (auto simp: nonce_live_def nonce_expiry_def)
qed

text \<open>
  What the execute handler sends: status 200 exactly for success, otherwise 422, or 500 for a
  throw whose text had to be hidden; and no error text it sends matches an SQL pattern, whatever the
  service answered or threw.
\<close>

theorem execute_handler_hides_sql:
  assumes "executeRelayHandler outcome = Inr (status, resp)"
  shows "(status = 200 \<longleftrightarrow> xr_success resp) \<and> status \<in> {200, 422, 500}
    \<and> (\<forall>e. \<not> xr_success resp \<and> xr_error resp = Some e \<longrightarrow> \<not> sql_detail (err_message e))"
proof -
  have c: "\<not> sql_detail (err_message e)" if "sanitize_error x = Some e" for x e
    using that sanitize_clean by (auto simp: sanitize_error_def)
  show ?thesis
  proof (cases outcome)
    case (Inl t)
    with assms show ?thesis
      using sanitize_clean by (auto simp: executeRelayHandler_def Let_def split: if_splits)
  next
    case (Inr r)
    with assms c show ?thesis by (auto simp: executeRelayHandler_def Let_def split: if_splits)
  qed
qed

theorem execute_handler_hides_sql_witness:
  "executeRelayHandler (Inl (JsError ''error'' ''relation used_nonces does not exist'' None))
     = Inr (500, failed_with INTERNAL_ERROR INTERNAL_STORAGE_ERROR)
   \<and> \<not> sql_detail INTERNAL_STORAGE_ERROR"
proof -
  have "sanitizeErrorMessage ''relation used_nonces does not exist'' = INTERNAL_STORAGE_ERROR"
    by code_simp
  moreover have "INTERNAL_STORAGE_ERROR \<noteq> ''relation used_nonces does not exist''"
    by (simp add: INTERNAL_STORAGE_ERROR_def)
  ultimately have h: "executeRelayHandler (Inl (JsError ''error'' ''relation used_nonces does not exist'' None))
     = Inr (500, failed_with INTERNAL_ERROR INTERNAL_STORAGE_ERROR)"
    by (simp add: executeRelayHandler_def thrown_text_def Let_def)
  with execute_handler_hides_sql [OF h] show ?thesis by (simp add: failed_with_def relay_err_def)
qed

text \<open>
  The health route answers 200 exactly when every part is up: queue and store given, the RPC
  probe positive (or mock mode), the signature probe positive or absent, and the database ping, when
  there is a pool, successful.
\<close>

theorem health_route_status:
  "fst (healthHandler env sp startTime now rpc sig elapsed db) =
     (if svc_queue sp \<and> svc_store sp
        \<and> (re_useMock env \<or> (re_submitter env \<noteq> None \<and> (\<exists>l. rpc = Inr (True, l))))
        \<and> (svc_probe sp \<longrightarrow> (\<exists>l. sig = Inr (True, l)))
        \<and> (\<forall>m l. db \<noteq> Some (Inl m, l)) then 200 else 503)
   \<and> (hr_ok (snd (healthHandler env sp startTime now rpc sig elapsed db))
        \<longleftrightarrow> fst (healthHandler env sp startTime now rpc sig elapsed db) = 200)"
proof -
  have r: "ds_ok (checkRpcHealth env rpc) \<longleftrightarrow>
      re_useMock env \<or> (re_submitter env \<noteq> None \<and> (\<exists>l. rpc = Inr (True, l)))"
    by (auto simp: checkRpcHealth_def split: sum.splits prod.splits if_splits)
  have g: "ds_ok (checkSignatureServiceHealth sp sig elapsed) \<longleftrightarrow> (svc_probe sp \<longrightarrow> (\<exists>l. sig = Inr (True, l)))"
    by (auto simp: checkSignatureServiceHealth_def split: sum.splits prod.splits if_splits)
  have d: "(case map_option database_status db of None \<Rightarrow> True | Some x \<Rightarrow> ds_ok x) \<longleftrightarrow> (\<forall>m l. db \<noteq> Some (Inl m, l))"
    by (auto simp: database_status_def split: option.splits sum.splits prod.splits)
  have q: "ds_ok (hr_queue (health env sp startTime now)) = svc_queue sp"
    "ds_ok (hr_storage (health env sp startTime now)) = svc_store sp"
    by (simp_all add: health_def Let_def)
  show ?thesis unfolding healthHandler_def Let_def r g d q by simp
qed

end
