(* ===== verification/ScheduleUtils.thy ===== *)
theory ScheduleUtils
  imports Prelude
begin

text \<open>
  \<open>services/relayer/src/scheduler/schedule-utils.ts\<close>: the recurrence of scheduled transfers on the UTC
  calendar. The first section is the calendar of ECMAScript dates (days since the epoch, year, month
  and day, and the setters with their carry); points in time stay inside the range of \<open>Date\<close>. The
  lemmas show that a recurrence moves strictly forward, by one day, seven days, or to the clamped day
  of the following month.
\<close>

section \<open>The UTC calendar\<close>

definition msPerDay :: int where
  "msPerDay = 86400000"

definition leap_year :: "int \<Rightarrow> bool" where
  "leap_year y = (y mod 4 = 0 \<and> (y mod 100 \<noteq> 0 \<or> y mod 400 = 0))"

text \<open>Days from the epoch to the first of January.\<close>

definition year_start :: "int \<Rightarrow> int" where
  "year_start y = 365 * (y - 1970) + (y - 1969) div 4 - (y - 1901) div 100 + (y - 1601) div 400"

definition year_of_day :: "int \<Rightarrow> int" where
  "year_of_day d = (let y = 1970 + (400 * d) div 146097 in
     if d < year_start y then y - 1 else if year_start (y + 1) \<le> d then y + 1 else y)"

definition month_lengths :: "int \<Rightarrow> int list" where
  "month_lengths y = [31, if leap_year y then 29 else 28, 31, 30, 31, 30, 31, 31, 30, 31, 30, 31]"

fun find_month :: "int list \<Rightarrow> int \<Rightarrow> nat \<times> int" where
  "find_month [] d = (0, d)"
| "find_month (l # ls) d = (if d < l then (0, d) else case find_month ls (d - l) of (m, r) \<Rightarrow> (Suc m, r))"

definition days_before :: "int list \<Rightarrow> nat \<Rightarrow> int" where
  "days_before ls m = sum_list (take m ls)"

text \<open>\<open>MakeDay\<close>: a month outside 0..11 carries into the year, the day is added as it is.\<close>

definition make_day :: "int \<Rightarrow> int \<Rightarrow> int \<Rightarrow> int" where
  "make_day y m dt = (let ym = y + m div 12; mn = nat (m mod 12) in
     year_start ym + days_before (month_lengths ym) mn + dt - 1)"

definition day_of :: "time \<Rightarrow> int" where
  "day_of t = t div msPerDay"

definition utc_full_year :: "time \<Rightarrow> int" where
  "utc_full_year t = year_of_day (day_of t)"

definition month_and_day :: "time \<Rightarrow> nat \<times> int" where
  "month_and_day t = find_month (month_lengths (utc_full_year t)) (day_of t - year_start (utc_full_year t))"

definition utc_month :: "time \<Rightarrow> int" where
  "utc_month t = int (fst (month_and_day t))"

definition utc_date :: "time \<Rightarrow> int" where
  "utc_date t = snd (month_and_day t) + 1"

definition make_time :: "int \<Rightarrow> time \<Rightarrow> time" where
  "make_time day t = day * msPerDay + t mod msPerDay"

definition set_utc_date :: "int \<Rightarrow> time \<Rightarrow> time" where
  "set_utc_date dt t = make_time (make_day (utc_full_year t) (utc_month t) dt) t"

definition set_utc_month :: "int \<Rightarrow> time \<Rightarrow> time" where
  "set_utc_month m t = make_time (make_day (utc_full_year t) m (utc_date t)) t"

text \<open>\<open>Date.UTC\<close>, which reads the years 0 to 99 as 1900 to 1999.\<close>

definition date_UTC :: "int \<Rightarrow> int \<Rightarrow> int \<Rightarrow> time" where
  "date_UTC y m dt = make_day (if 0 \<le> y \<and> y \<le> 99 then 1900 + y else y) m dt * msPerDay"

section \<open>Recurrence\<close>

datatype frequency = Once | Daily | Weekly | Monthly

definition daysInUTCMonth :: "int \<Rightarrow> int \<Rightarrow> int" where
  "daysInUTCMonth year month = utc_date (date_UTC year (month + 1) 0)"

definition addOneUTCMonthClamped :: "time \<Rightarrow> time" where
  "addOneUTCMonthClamped date =
     (let originalDay = utc_date date;
          targetYear = utc_full_year date;
          targetMonth = utc_month date + 1;
          targetMonthLastDay = daysInUTCMonth targetYear targetMonth
      in set_utc_date (min originalDay targetMonthLastDay) (set_utc_month targetMonth (set_utc_date 1 date)))"

definition computeNextRunAt :: "time \<Rightarrow> frequency \<Rightarrow> time option \<Rightarrow> time option" where
  "computeNextRunAt start freq endAt = (case freq of
       Once \<Rightarrow> None
     | _ \<Rightarrow>
         let next_run = (case freq of
               Daily \<Rightarrow> set_utc_date (utc_date start + 1) start
             | Weekly \<Rightarrow> set_utc_date (utc_date start + 7) start
             | _ \<Rightarrow> addOneUTCMonthClamped start)
         in case endAt of
              Some e \<Rightarrow> if next_run > e then None else Some next_run
            | None \<Rightarrow> Some next_run)"

definition isDue :: "time \<Rightarrow> time \<Rightarrow> bool" where
  "isDue nextRunAt now = (nextRunAt \<le> now)"

fun formatFrequencyLabel :: "frequency \<Rightarrow> string" where
  "formatFrequencyLabel Once = ''One-time''"
| "formatFrequencyLabel Daily = ''Daily''"
| "formatFrequencyLabel Weekly = ''Weekly''"
| "formatFrequencyLabel Monthly = ''Monthly''"

section \<open>Years\<close>

lemma year_start_400:
  "400 * year_start y = 146097 * (y - 1970) + 193 - 100 * ((y - 1969) mod 4)
     + 4 * ((y - 1901) mod 100) - (y - 1601) mod 400"
proof -
  define a b c where "a = (y - 1969) div 4" and "b = (y - 1901) div 100" and "c = (y - 1601) div 400"
  define r4 r100 r400 where "r4 = (y - 1969) mod 4" and "r100 = (y - 1901) mod 100" and "r400 = (y - 1601) mod 400"
  have "4 * a + r4 = y - 1969" "100 * b + r100 = y - 1901" "400 * c + r400 = y - 1601"
    unfolding a_def b_def c_def r4_def r100_def r400_def by (rule mult_div_mod_eq)+
  then have r: "r4 = y - 1969 - 4 * a" "r100 = y - 1901 - 100 * b" "r400 = y - 1601 - 400 * c" by linarith+
  have "400 * (365 * (y - 1970) + a - b + c) = 146097 * (y - 1970) + 193 - 100 * r4 + 4 * r100 - r400"
    unfolding r by (simp add: algebra_simps)
  then show ?thesis by (simp only: year_start_def a_def b_def c_def r4_def r100_def r400_def)
qed

lemma year_start_bounds:
  "146097 * (y - 1970) - 506 \<le> 400 * year_start y" "400 * year_start y \<le> 146097 * (y - 1970) + 589"
proof -
  have "0 \<le> (y - 1969) mod 4" "(y - 1969) mod 4 \<le> 3" "0 \<le> (y - 1901) mod 100" "(y - 1901) mod 100 \<le> 99"
    "0 \<le> (y - 1601) mod 400" "(y - 1601) mod 400 \<le> 399"
    using pos_mod_bound [of 4 "y - 1969"] pos_mod_bound [of 100 "y - 1901"] pos_mod_bound [of 400 "y - 1601"]
    by simp_all
  then show "146097 * (y - 1970) - 506 \<le> 400 * year_start y" "400 * year_start y \<le> 146097 * (y - 1970) + 589"
    unfolding year_start_400 by linarith+
qed

lemma div_step: "(0::int) < k \<Longrightarrow> (x + 1) div k = x div k + (if (x + 1) mod k = 0 then 1 else 0)"
proof -
  assume k: "0 < k"
  define q r where "q = x div k" and "r = x mod k"
  have x: "x = r + k * q" by (simp add: q_def r_def)
  have r: "0 \<le> r" "r < k" using k by (simp_all add: r_def)
  show ?thesis
  proof (cases "r = k - 1")
    case True
    then have "x + 1 = k * (q + 1)" using x by (simp add: algebra_simps)
    then show ?thesis using k by (simp add: q_def [symmetric])
  next
    case False
    with r have s: "0 \<le> r + 1" "r + 1 < k" by simp_all
    have e: "x + 1 = (r + 1) + k * q" using x by simp
    have "(x + 1) div k = q" "(x + 1) mod k = r + 1"
      unfolding e using s k by (simp_all add: div_pos_pos_trivial mod_pos_pos_trivial)
    with r show ?thesis by (simp add: q_def [symmetric])
  qed
qed

lemma year_start_Suc: "year_start (y + 1) = year_start y + (if leap_year y then 366 else 365)"
proof -
  define p4 p100 p400 :: int where "p4 = (if y mod 4 = 0 then 1 else 0)"
    and "p100 = (if y mod 100 = 0 then 1 else 0)" and "p400 = (if y mod 400 = 0 then 1 else 0)"
  have sh: "y - 1969 + 1 = y + 4 * (- 492)" "y - 1901 + 1 = y + 100 * (- 19)" "y - 1601 + 1 = y + 400 * (- 4)"
    by simp_all
  have m: "(y - 1969 + 1) mod 4 = 0 \<longleftrightarrow> y mod 4 = 0" "(y - 1901 + 1) mod 100 = 0 \<longleftrightarrow> y mod 100 = 0"
    "(y - 1601 + 1) mod 400 = 0 \<longleftrightarrow> y mod 400 = 0"
    unfolding sh mod_mult_self2 by (rule refl)+
  have e: "y + 1 - 1969 = y - 1969 + 1" "y + 1 - 1901 = y - 1901 + 1" "y + 1 - 1601 = y - 1601 + 1" by simp_all
  have d: "(y + 1 - 1969) div 4 = (y - 1969) div 4 + p4" "(y + 1 - 1901) div 100 = (y - 1901) div 100 + p100"
    "(y + 1 - 1601) div 400 = (y - 1601) div 400 + p400"
    unfolding e p4_def p100_def p400_def m [symmetric] by (rule div_step; simp)+
  have ring: "365 * (y + 1 - 1970) + (a + p) - (b + q) + (c + r) = 365 * (y - 1970) + a - b + c + 365 + p - q + r"
    for a b c p q r :: int by simp
  have "year_start (y + 1) = year_start y + 365 + p4 - p100 + p400"
    unfolding year_start_def d by (rule ring)
  moreover have "y mod 400 = 0 \<Longrightarrow> y mod 100 = 0" "y mod 100 = 0 \<Longrightarrow> y mod 4 = 0"
    by (auto simp: mod_eq_0_iff_dvd intro: dvd_trans [of 100 400] dvd_trans [of 4 100])
  ultimately show ?thesis
    by (cases "y mod 4 = 0"; cases "y mod 100 = 0"; cases "y mod 400 = 0")
       (simp_all add: leap_year_def p4_def p100_def p400_def)
qed

lemma year_start_less: "y < z \<Longrightarrow> year_start y < year_start z"
proof -
  have step: "year_start x < year_start (x + 1)" for x by (simp add: year_start_Suc)
  have "year_start y < year_start (y + 1 + int n)" for n
  proof (induction n)
    case 0
    show ?case using step [of y] by simp
  next
    case (Suc n)
    have "y + 1 + int (Suc n) = (y + 1 + int n) + 1" by simp
    then show ?case using Suc step [of "y + 1 + int n"] by (simp only:)
  qed
  from this [of "nat (z - y - 1)"] show "y < z \<Longrightarrow> year_start y < year_start z" by simp
qed

lemma year_of_day_spec: "year_start (year_of_day d) \<le> d" "d < year_start (year_of_day d + 1)"
proof -
  define y where "y = 1970 + (400 * d) div 146097"
  have dm: "146097 * ((400 * d) div 146097) \<le> 400 * d" "400 * d < 146097 * ((400 * d) div 146097) + 146097"
    using pos_mod_bound [of 146097 "400 * d"] pos_mod_sign [of 146097 "400 * d"]
      mult_div_mod_eq [of 146097 "400 * d"] by linarith+
  have lo: "year_start (y - 1) \<le> d" using year_start_bounds(2) [of "y - 1"] dm by (simp add: y_def)
  have hi: "d < year_start (y + 2)" using year_start_bounds(1) [of "y + 2"] dm by (simp add: y_def)
  have e: "year_of_day d = (if d < year_start y then y - 1 else if year_start (y + 1) \<le> d then y + 1 else y)"
    by (simp add: year_of_day_def y_def Let_def)
  show "year_start (year_of_day d) \<le> d" "d < year_start (year_of_day d + 1)"
    using lo hi unfolding e by (auto simp: add.assoc)
qed

lemma year_of_day_unique: "year_start y \<le> d \<Longrightarrow> d < year_start (y + 1) \<Longrightarrow> year_of_day d = y"
proof (rule ccontr)
  assume A: "year_start y \<le> d" "d < year_start (y + 1)" "year_of_day d \<noteq> y"
  then consider "year_of_day d + 1 \<le> y" | "y + 1 \<le> year_of_day d" by linarith
  then show False
  proof cases
    case 1
    then have "year_start (year_of_day d + 1) \<le> year_start y"
      using year_start_less [of "year_of_day d + 1" y] by (cases "year_of_day d + 1 = y") auto
    with A year_of_day_spec [of d] show False by linarith
  next
    case 2
    then have "year_start (y + 1) \<le> year_start (year_of_day d)"
      using year_start_less [of "y + 1" "year_of_day d"] by (cases "y + 1 = year_of_day d") auto
    with A year_of_day_spec [of d] show False by linarith
  qed
qed

section \<open>Months and days\<close>

lemma month_lengths_props:
  "length (month_lengths y) = 12" "sum_list (month_lengths y) = (if leap_year y then 366 else 365)"
  "list_all (\<lambda>l. 28 \<le> l \<and> l \<le> 31) (month_lengths y)"
  by (simp_all add: month_lengths_def)

lemma month_length_bounds: "m < 12 \<Longrightarrow> 28 \<le> month_lengths y ! m \<and> month_lengths y ! m \<le> 31"
  using month_lengths_props(1,3) [of y] by (simp add: list_all_length)

lemma find_month_index:
  "list_all (\<lambda>l. 0 \<le> l) ls \<Longrightarrow> m < length ls \<Longrightarrow> 0 \<le> r \<Longrightarrow> r < ls ! m \<Longrightarrow> find_month ls (days_before ls m + r) = (m, r)"
proof (induction ls arbitrary: m)
  case (Cons l ls)
  show ?case
  proof (cases m)
    case 0
    with Cons.prems show ?thesis by (simp add: days_before_def)
  next
    case (Suc k)
    have "0 \<le> sum_list (take k ls)"
      using Cons.prems(1) by (intro sum_list_nonneg) (auto simp: list_all_iff dest: in_set_takeD)
    with Suc Cons show ?thesis by (simp add: days_before_def)
  qed
qed simp

lemma find_month_range:
  "0 \<le> d \<Longrightarrow> d < sum_list ls \<Longrightarrow> (case find_month ls d of (m, r) \<Rightarrow>
     m < length ls \<and> 0 \<le> r \<and> r < ls ! m \<and> d = days_before ls m + r)"
proof (induction ls arbitrary: d)
  case (Cons l ls)
  show ?case
  proof (cases "d < l")
    case False
    with Cons.IH [of "d - l"] Cons.prems show ?thesis
      by (auto simp: days_before_def split: prod.splits)
  qed (use Cons.prems in \<open>simp add: days_before_def\<close>)
qed simp

text \<open>A calendar date: year, month 0..11, day 1..length of the month.\<close>

definition civil_ok :: "int \<Rightarrow> int \<Rightarrow> int \<Rightarrow> bool" where
  "civil_ok y m dt = (0 \<le> m \<and> m < 12 \<and> 1 \<le> dt \<and> dt \<le> month_lengths y ! nat m)"

lemma make_day_plain: "0 \<le> m \<Longrightarrow> m < 12 \<Longrightarrow>
   make_day y m dt = year_start y + days_before (month_lengths y) (nat m) + dt - 1"
  by (simp add: make_day_def Let_def div_pos_pos_trivial)

lemma make_day_carry: "make_day y m dt = make_day (y + m div 12) (m mod 12) dt"
  by (simp add: make_day_def Let_def)

lemma make_day_shift: "make_day y m dt = make_day y m d' + (dt - d')"
  by (simp add: make_day_def Let_def)

lemma days_before_Suc: "m < length ls \<Longrightarrow> days_before ls (Suc m) = days_before ls m + ls ! m"
  by (simp add: days_before_def take_Suc_conv_app_nth)

lemma days_before_nonneg: "0 \<le> days_before (month_lengths y) m"
  using month_lengths_props(3) [of y] unfolding days_before_def
  by (intro sum_list_nonneg) (auto simp: list_all_iff dest!: in_set_takeD)

lemma days_before_year: "days_before (month_lengths y) 12 = (if leap_year y then 366 else 365)"
  using month_lengths_props [of y] by (simp add: days_before_def)

lemma make_day_next_month: "0 \<le> m \<Longrightarrow> m < 12 \<Longrightarrow>
   make_day y (m + 1) 1 = make_day y m 1 + month_lengths y ! nat m"
proof -
  assume m: "0 \<le> m" "m < 12"
  have step: "days_before (month_lengths y) (nat (m + 1)) = days_before (month_lengths y) (nat m) + month_lengths y ! nat m"
    using m month_lengths_props(1) [of y] days_before_Suc [of "nat m" "month_lengths y"] by (simp add: nat_add_distrib)
  show ?thesis
  proof (cases "m = 11")
    case True
    have "make_day y (m + 1) 1 = year_start (y + 1)" by (simp add: True make_day_def days_before_def)
    also have "\<dots> = year_start y + days_before (month_lengths y) 12" by (simp add: year_start_Suc days_before_year)
    also have "\<dots> = make_day y m 1 + month_lengths y ! nat m" using step m by (simp add: True make_day_plain)
    finally show ?thesis .
  next
    case False
    with m step show ?thesis by (simp add: make_day_plain)
  qed
qed

lemma days_before_bound:
  assumes "m < 12" "dt \<le> month_lengths y ! m"
  shows "days_before (month_lengths y) m + dt \<le> (if leap_year y then 366 else 365)"
proof -
  have "month_lengths y = take m (month_lengths y) @ month_lengths y ! m # drop (Suc m) (month_lengths y)"
    using assms(1) month_lengths_props(1) [of y] by (intro id_take_nth_drop) simp
  then have "sum_list (month_lengths y) = days_before (month_lengths y) m + month_lengths y ! m
      + sum_list (drop (Suc m) (month_lengths y))"
    unfolding days_before_def by (metis add.assoc sum_list.Cons sum_list_append)
  moreover have "0 \<le> sum_list (drop (Suc m) (month_lengths y))"
    using month_lengths_props(3) [of y] by (intro sum_list_nonneg) (auto simp: list_all_iff dest!: in_set_dropD)
  ultimately show ?thesis using assms(2) month_lengths_props(2) [of y] by linarith
qed

text \<open>Reading back the date a day was made from.\<close>

lemma civil_of_make_day:
  assumes "civil_ok y m dt"
  shows "year_of_day (make_day y m dt) = y"
    and "find_month (month_lengths y) (make_day y m dt - year_start y) = (nat m, dt - 1)"
proof -
  have m: "0 \<le> m" "m < 12" and d: "1 \<le> dt" "dt \<le> month_lengths y ! nat m"
    using assms by (simp_all add: civil_ok_def)
  have D: "make_day y m dt - year_start y = days_before (month_lengths y) (nat m) + (dt - 1)"
    using m by (simp add: make_day_plain)
  have n: "nat m < 12" using m by simp
  show "year_of_day (make_day y m dt) = y"
    using D d days_before_nonneg [of y "nat m"] days_before_bound [OF n d(2)]
    by (intro year_of_day_unique) (simp_all add: year_start_Suc split: if_splits)
  have "list_all (\<lambda>l. 0 \<le> l) (month_lengths y)" by (simp add: month_lengths_def)
  then show "find_month (month_lengths y) (make_day y m dt - year_start y) = (nat m, dt - 1)"
    unfolding D using d n month_lengths_props(1) [of y] by (intro find_month_index) simp_all
qed

lemma civil_of_day:
  "civil_ok (utc_full_year t) (utc_month t) (utc_date t)
   \<and> make_day (utc_full_year t) (utc_month t) (utc_date t) = day_of t"
proof -
  let ?y = "utc_full_year t" and ?d = "day_of t - year_start (utc_full_year t)"
  have "0 \<le> ?d" "?d < sum_list (month_lengths ?y)"
    using year_of_day_spec [of "day_of t"] by (simp_all add: utc_full_year_def year_start_Suc month_lengths_props split: if_splits)
  from find_month_range [OF this] show ?thesis
    by (auto simp: civil_ok_def utc_month_def utc_date_def month_and_day_def make_day_plain month_lengths_props
        split: prod.splits)
qed

section \<open>Times\<close>

lemma day_of_make_time [simp]: "day_of (make_time day t) = day" "make_time day t mod msPerDay = t mod msPerDay"
  by (simp_all add: day_of_def make_time_def msPerDay_def div_add1_eq)

lemma make_time_day_of: "make_time (day_of t) t = t"
  by (simp add: make_time_def day_of_def)

lemma make_time_diff: "make_time (day_of t + k) t = t + k * msPerDay"
  using make_time_day_of [of t] by (simp add: make_time_def algebra_simps)

lemma set_utc_date_shift: "set_utc_date dt t = t + (dt - utc_date t) * msPerDay"
proof -
  have "make_day (utc_full_year t) (utc_month t) dt = day_of t + (dt - utc_date t)"
    using civil_of_day [of t] make_day_shift [of "utc_full_year t" "utc_month t" dt "utc_date t"] by simp
  then show ?thesis by (simp add: set_utc_date_def make_time_diff)
qed

lemma civil_of_time:
  assumes "civil_ok y m dt" "day_of t = make_day y m dt"
  shows "utc_full_year t = y \<and> utc_month t = m \<and> utc_date t = dt"
  using assms civil_of_make_day [OF assms(1)]
  by (simp add: utc_full_year_def utc_month_def utc_date_def month_and_day_def civil_ok_def)

lemma make_time_make_time: "make_time d (make_time d' t) = make_time d t"
  by (simp add: make_time_def msPerDay_def)

text \<open>The year and month behind a month number with carry.\<close>

definition next_ym :: "time \<Rightarrow> int \<times> int" where
  "next_ym t = (utc_full_year t + (utc_month t + 1) div 12, (utc_month t + 1) mod 12)"

definition month_length :: "int \<Rightarrow> int \<Rightarrow> int" where
  "month_length y m = month_lengths y ! nat m"

lemma month_length_range: "0 \<le> m \<Longrightarrow> m < 12 \<Longrightarrow> 28 \<le> month_length y m \<and> month_length y m \<le> 31"
  using month_length_bounds [of "nat m" y] by (simp add: month_length_def)

lemma carry_next: "((M :: int) + 1) div 12 = M div 12 + (M mod 12 + 1) div 12"
  "(M + 1) mod 12 = (M mod 12 + 1) mod 12"
  by (simp_all add: div_add1_eq [of M 1 12] mod_add_left_eq)

lemma days_in_next_month:
  assumes "100 \<le> utc_full_year t"
  shows "daysInUTCMonth (utc_full_year t) (utc_month t + 1) = month_length (fst (next_ym t)) (snd (next_ym t))"
proof -
  let ?y = "utc_full_year t" and ?m = "utc_month t + 1"
  define y' m' where "y' = ?y + ?m div 12" and "m' = ?m mod 12"
  have m': "0 \<le> m'" "m' < 12" by (simp_all add: m'_def)
  have "make_day ?y (?m + 1) 0 = make_day y' (m' + 1) 0"
  proof -
    define M where "M = ?m"
    have "make_day ?y (M + 1) 0 = make_day (?y + M div 12) (M mod 12 + 1) 0"
      unfolding make_day_carry [of ?y "M + 1"] make_day_carry [of "?y + M div 12" "M mod 12 + 1"] carry_next [of M]
      by (simp only: add.assoc)
    then show ?thesis by (simp only: M_def y'_def m'_def)
  qed
  also have "\<dots> = make_day y' (m' + 1) 1 - 1" using make_day_shift [of y' "m' + 1" 0 1] by simp
  also have "\<dots> = make_day y' m' (month_length y' m')"
    using make_day_next_month [OF m'] make_day_shift [of y' m' "month_length y' m'" 1] by (simp add: month_length_def)
  finally have D: "make_day ?y (?m + 1) 0 = make_day y' m' (month_length y' m')" .
  have ok: "civil_ok y' m' (month_length y' m')"
    using m' month_length_range [OF m', of y'] by (simp add: civil_ok_def month_length_def)
  have d: "day_of (date_UTC ?y (?m + 1) 0) = make_day y' m' (month_length y' m')"
    using assms D by (simp add: date_UTC_def day_of_def msPerDay_def)
  from civil_of_time [OF ok d] show ?thesis
    by (simp add: daysInUTCMonth_def next_ym_def y'_def [symmetric] m'_def [symmetric])
qed

text \<open>One month on: the day of the following month, clamped, at the same time of day.\<close>

lemma add_month_day:
  assumes "100 \<le> utc_full_year t"
  shows "addOneUTCMonthClamped t = make_time (make_day (fst (next_ym t)) (snd (next_ym t))
      (min (utc_date t) (month_length (fst (next_ym t)) (snd (next_ym t))))) t"
proof -
  let ?y = "utc_full_year t" and ?m = "utc_month t"
  obtain y' m' where ym: "next_ym t = (y', m')" by fastforce
  then have y': "y' = ?y + (?m + 1) div 12" and m': "m' = (?m + 1) mod 12" "0 \<le> m'" "m' < 12"
    by (auto simp: next_ym_def)
  have ok: "civil_ok ?y ?m 1" using civil_of_day [of t] by (simp add: civil_ok_def)
  define t1 where "t1 = set_utc_date 1 t"
  have t1: "t1 = make_time (make_day ?y ?m 1) t" by (simp add: t1_def set_utc_date_def)
  then have c1: "utc_full_year t1 = ?y" "utc_date t1 = 1" using civil_of_time [OF ok, of t1] by simp_all
  define t2 where "t2 = set_utc_month (?m + 1) t1"
  have t2: "t2 = make_time (make_day y' m' 1) t"
    unfolding t2_def set_utc_month_def c1 unfolding t1 make_time_make_time y' m'(1)
    by (simp only: make_day_carry [of ?y "?m + 1" 1])
  have ok2: "civil_ok y' m' 1"
    using m'(2,3) month_length_range [OF m'(2,3), of y'] by (simp add: civil_ok_def month_length_def)
  then have c2: "utc_full_year t2 = y'" "utc_month t2 = m'" using civil_of_time [OF ok2, of t2] t2 by simp_all
  have "addOneUTCMonthClamped t = set_utc_date (min (utc_date t) (month_length y' m')) t2"
    using days_in_next_month [OF assms] by (simp add: addOneUTCMonthClamped_def Let_def ym t1_def t2_def)
  also have "\<dots> = make_time (make_day y' m' (min (utc_date t) (month_length y' m'))) t"
    unfolding set_utc_date_def c2 unfolding t2 make_time_make_time by (rule refl)
  finally show ?thesis by (simp add: ym)
qed

lemma add_month_civil:
  assumes "100 \<le> utc_full_year t"
  shows "utc_full_year (addOneUTCMonthClamped t) = fst (next_ym t)
    \<and> utc_month (addOneUTCMonthClamped t) = snd (next_ym t)
    \<and> utc_date (addOneUTCMonthClamped t) = min (utc_date t) (month_length (fst (next_ym t)) (snd (next_ym t)))
    \<and> addOneUTCMonthClamped t mod msPerDay = t mod msPerDay"
proof -
  obtain y' m' where ym: "next_ym t = (y', m')" by fastforce
  then have m': "0 \<le> m'" "m' < 12" by (auto simp: next_ym_def)
  have "1 \<le> utc_date t" using civil_of_day [of t] by (simp add: civil_ok_def)
  then have "civil_ok y' m' (min (utc_date t) (month_length y' m'))"
    using m' month_length_range [OF m', of y'] by (simp add: civil_ok_def month_length_def)
  from civil_of_time [OF this, of "addOneUTCMonthClamped t"] show ?thesis
    by (simp add: add_month_day [OF assms] ym)
qed

text \<open>The step in days: between 28 and 31.\<close>

lemma add_month_bounds:
  assumes "100 \<le> utc_full_year t"
  shows "t + 28 * msPerDay \<le> addOneUTCMonthClamped t" "addOneUTCMonthClamped t \<le> t + 31 * msPerDay"
proof -
  let ?y = "utc_full_year t" and ?m = "utc_month t" and ?d = "utc_date t"
  obtain y' m' where ym: "next_ym t = (y', m')" by fastforce
  then have y': "y' = ?y + (?m + 1) div 12" and m': "m' = (?m + 1) mod 12" "0 \<le> m'" "m' < 12"
    by (auto simp: next_ym_def)
  have c: "0 \<le> ?m" "?m < 12" "1 \<le> ?d" "?d \<le> month_length ?y ?m" "make_day ?y ?m ?d = day_of t"
    using civil_of_day [of t] by (simp_all add: civil_ok_def month_length_def)
  define l l' where "l = month_length ?y ?m" and "l' = month_length y' m'"
  have b: "28 \<le> l" "l \<le> 31" "28 \<le> l'" "l' \<le> 31"
    using month_length_bounds [of "nat ?m" ?y] month_length_bounds [of "nat m'" y'] c m'
    by (simp_all add: l_def l'_def month_length_def)
  have "make_day y' m' 1 = make_day ?y ?m 1 + l"
    using make_day_next_month [OF c(1,2), of ?y] make_day_carry [of ?y "?m + 1" 1] by (simp add: l_def month_length_def y' m'(1))
  then have "make_day y' m' (min ?d l') = day_of t + (l + min ?d l' - ?d)"
    using make_day_shift [of y' m' "min ?d l'" 1] make_day_shift [of ?y ?m ?d 1] c(5) by simp
  then have e: "addOneUTCMonthClamped t = t + (l + min ?d l' - ?d) * msPerDay"
    by (simp add: add_month_day [OF assms] ym l'_def [symmetric] make_time_diff)
  have "28 \<le> l + min ?d l' - ?d" "l + min ?d l' - ?d \<le> 31" using b c(4) by (auto simp: min_def l_def [symmetric])
  then show "t + 28 * msPerDay \<le> addOneUTCMonthClamped t" "addOneUTCMonthClamped t \<le> t + 31 * msPerDay"
    unfolding e by (simp_all add: msPerDay_def)
qed

section \<open>Properties\<close>

text \<open>
  The next run lies strictly after the start, one day, seven days or a month later at the same
  time of day; a monthly run falls on the same day of the following month, or on its last day when
  the month is shorter. There is none for a one-time schedule or past the end.
\<close>

theorem next_run_recurrence:
  assumes "100 \<le> utc_full_year t"
  shows "case computeNextRunAt t freq endAt of
      Some n \<Rightarrow> freq \<noteq> Once \<and> t < n \<and> n mod msPerDay = t mod msPerDay \<and> (\<forall>e. endAt = Some e \<longrightarrow> n \<le> e)
        \<and> (freq = Daily \<longrightarrow> n = t + msPerDay) \<and> (freq = Weekly \<longrightarrow> n = t + 7 * msPerDay)
        \<and> (freq = Monthly \<longrightarrow> (utc_full_year n, utc_month n) = next_ym t
             \<and> utc_date n = min (utc_date t) (month_length (utc_full_year n) (utc_month n)))
    | None \<Rightarrow> freq = Once \<or> endAt \<noteq> None"
proof -
  have day: "set_utc_date (utc_date t + k) t = t + k * msPerDay" for k by (simp add: set_utc_date_shift)
  have tod: "(t + k * msPerDay) mod msPerDay = t mod msPerDay" for k by simp
  have pos: "0 < msPerDay" by (simp add: msPerDay_def)
  note M = add_month_civil [OF assms] add_month_bounds [OF assms]
  show ?thesis
  proof (cases freq)
    case Monthly
    have "t < addOneUTCMonthClamped t" using M(2) pos by simp
    with M(1) Monthly show ?thesis
      by (auto simp: computeNextRunAt_def Let_def prod_eq_iff split: option.splits)
  qed (use pos tod [of 7] tod [of 1] in \<open>auto simp: computeNextRunAt_def Let_def day split: option.splits\<close>)
qed

text \<open>The thirty-first of January 2023 leads to the twenty-eighth of February.\<close>

theorem next_run_recurrence_witness:
  "utc_date 1675166400000 = 31 \<and> computeNextRunAt 1675166400000 Monthly None = Some 1677585600000
   \<and> utc_date 1677585600000 = 28 \<and> 1675166400000 < (1677585600000 :: int)"
proof -
  have v: "utc_full_year 1675166400000 = 2023" "utc_date 1675166400000 = 31" "utc_date 1677585600000 = 28"
    "computeNextRunAt 1675166400000 Monthly None = Some 1677585600000"
    by code_simp+
  then have "100 \<le> utc_full_year 1675166400000" by simp
  from next_run_recurrence [OF this, of Monthly None] v show ?thesis by simp
qed

text \<open>
  The helper takes months counted from zero, as \<open>getUTCMonth\<close> does; read with months counted from
  one, as its comment says, it would give 31 days for the argument 1.
\<close>

theorem days_in_month_zero_indexed:
  "daysInUTCMonth 2023 0 = 31 \<and> daysInUTCMonth 2023 1 = 28 \<and> daysInUTCMonth 2024 1 = 29 \<and> daysInUTCMonth 2023 11 = 31"
  by code_simp

end
