(* ===== verification/Scheduler.thy ===== *)
theory Scheduler
  imports ScheduleUtils RelayService JobQueue
begin

text \<open>
  \<open>services/relayer/src/scheduler\<close>: the in-memory store of scheduled transfers
  (\<open>ScheduledTransferStore.ts\<close>), the service that runs them (\<open>ScheduledTransferService.ts\<close>) and the
  route handlers (\<open>handlers.ts\<close>). Each operation is defined as it runs with nothing in between; the
  step relation of the section on interleavings cuts the asynchronous ones at their \<open>await\<close>s: pause
  and cancel between the status check and the write, a run between lease, answer, log entry, update
  and release. UUIDs, random numbers and clock readings are arguments.
\<close>

section \<open>Data\<close>

datatype transfer_status = TActive | TPaused | TCancelled | TCompleted | TFailed

record relay_payload =
  pl_sessionKey :: string
  pl_operation :: string
  pl_parameters :: "(string, param) jsmap"
  pl_signature :: string
  pl_nonce :: int

record transfer =
  tf_id :: string
  tf_accountId :: string
  tf_callerId :: string
  tf_to :: string
  tf_amount :: string
  tf_asset :: string
  tf_frequency :: frequency
  tf_status :: transfer_status
  tf_startAt :: time
  tf_nextRunAt :: time
  tf_endAt :: "time option"
  tf_note :: "string option"
  tf_userApprovedAt :: time
  tf_relayPayload :: relay_payload
  tf_consecutiveFailures :: int
  tf_createdAt :: time
  tf_updatedAt :: time
  tf_lastExecutionAt :: "time option"

record execution_log =
  lg_id :: string
  lg_transferId :: string
  lg_executedAt :: time
  lg_success :: bool
  lg_transactionId :: "string option"
  lg_error :: "string option"

record create_input =
  cr_accountAddress :: string
  cr_to :: string
  cr_amount :: string
  cr_asset :: string
  cr_frequency :: frequency
  cr_startAt :: time
  cr_endAt :: "time option"
  cr_note :: "string option"
  cr_relayPayload :: relay_payload

record transfer_store =
  ts_transfers :: "(string, transfer) jsmap"
  ts_executions :: "(string, execution_log list) jsmap"
  ts_accountIndex :: "(string, string list) jsmap"
  ts_processing :: "string list"

definition empty_transfers :: transfer_store where
  "empty_transfers = \<lparr>ts_transfers = [], ts_executions = [], ts_accountIndex = [], ts_processing = []\<rparr>"

section \<open>The store\<close>

definition accountKey :: "string \<Rightarrow> string \<Rightarrow> string" where
  "accountKey accountAddress callerId = callerId @ '':'' @ accountAddress"

definition new_transfer :: "string \<Rightarrow> time \<Rightarrow> create_input \<Rightarrow> string \<Rightarrow> transfer" where
  "new_transfer uuid now inp callerId =
     \<lparr>tf_id = uuid, tf_accountId = cr_accountAddress inp, tf_callerId = callerId, tf_to = cr_to inp,
      tf_amount = cr_amount inp, tf_asset = cr_asset inp, tf_frequency = cr_frequency inp,
      tf_status = TActive, tf_startAt = cr_startAt inp, tf_nextRunAt = cr_startAt inp,
      tf_endAt = cr_endAt inp, tf_note = cr_note inp, tf_userApprovedAt = now,
      tf_relayPayload = cr_relayPayload inp, tf_consecutiveFailures = 0,
      tf_createdAt = now, tf_updatedAt = now, tf_lastExecutionAt = None\<rparr>"

text \<open>\<open>Set#add\<close> on an insertion-ordered set.\<close>

definition set_add :: "'a \<Rightarrow> 'a list \<Rightarrow> 'a list" where
  "set_add x xs = (if x \<in> set xs then xs else xs @ [x])"

definition ts_create :: "string \<Rightarrow> time \<Rightarrow> create_input \<Rightarrow> string \<Rightarrow> transfer_store \<Rightarrow> transfer \<times> transfer_store" where
  "ts_create uuid now inp callerId st =
     (let t = new_transfer uuid now inp callerId;
          k = accountKey (cr_accountAddress inp) callerId;
          ids = coalesce (map_get (ts_accountIndex st) k) []
      in (t, st\<lparr>ts_transfers := map_set uuid t (ts_transfers st),
                ts_executions := map_set uuid [] (ts_executions st),
                ts_accountIndex := map_set k (set_add uuid ids) (ts_accountIndex st)\<rparr>))"

definition ts_listByAccount :: "string \<Rightarrow> string \<Rightarrow> transfer_store \<Rightarrow> transfer list" where
  "ts_listByAccount accountAddress callerId st =
     (case map_get (ts_accountIndex st) (accountKey accountAddress callerId) of
        None \<Rightarrow> []
      | Some ids \<Rightarrow> sort_key (\<lambda>t. - tf_createdAt t) (List.map_filter (map_get (ts_transfers st)) ids))"

definition ts_getById :: "string \<Rightarrow> transfer_store \<Rightarrow> transfer option" where
  "ts_getById i st = map_get (ts_transfers st) i"

definition ts_getByIdForCaller :: "string \<Rightarrow> string \<Rightarrow> transfer_store \<Rightarrow> transfer option" where
  "ts_getByIdForCaller i callerId st = (case map_get (ts_transfers st) i of
       None \<Rightarrow> None | Some t \<Rightarrow> if tf_callerId t \<noteq> callerId then None else Some t)"

definition ts_tryAcquire :: "string \<Rightarrow> transfer_store \<Rightarrow> bool \<times> transfer_store" where
  "ts_tryAcquire i st =
     (if i \<in> set (ts_processing st) then (False, st)
      else case map_get (ts_transfers st) i of
        None \<Rightarrow> (False, st)
      | Some t \<Rightarrow> if tf_status t \<noteq> TActive then (False, st)
                  else (True, st\<lparr>ts_processing := set_add i (ts_processing st)\<rparr>))"

definition ts_release :: "string \<Rightarrow> transfer_store \<Rightarrow> transfer_store" where
  "ts_release i st = st\<lparr>ts_processing := filter (\<lambda>j. j \<noteq> i) (ts_processing st)\<rparr>"

definition ts_isProcessing :: "string \<Rightarrow> transfer_store \<Rightarrow> bool" where
  "ts_isProcessing i st = (i \<in> set (ts_processing st))"

definition ts_patch :: "string \<Rightarrow> (transfer \<Rightarrow> transfer) \<Rightarrow> transfer_store \<Rightarrow> transfer option \<times> transfer_store" where
  "ts_patch i f st = (case map_get (ts_transfers st) i of
       None \<Rightarrow> (None, st)
     | Some t \<Rightarrow> (Some (f t), st\<lparr>ts_transfers := map_set i (f t) (ts_transfers st)\<rparr>))"

definition ts_updateStatus :: "time \<Rightarrow> string \<Rightarrow> transfer_status \<Rightarrow> transfer_store \<Rightarrow> transfer option \<times> transfer_store" where
  "ts_updateStatus clk i s st = ts_patch i (\<lambda>t. t\<lparr>tf_status := s, tf_updatedAt := clk\<rparr>) st"

record run_patch =
  rp_status :: transfer_status
  rp_nextRunAt :: time
  rp_lastExecutionAt :: time
  rp_failures :: int

definition apply_run_patch :: "run_patch \<Rightarrow> time \<Rightarrow> transfer \<Rightarrow> transfer" where
  "apply_run_patch p clk t = t\<lparr>tf_status := rp_status p, tf_nextRunAt := rp_nextRunAt p,
     tf_lastExecutionAt := Some (rp_lastExecutionAt p), tf_consecutiveFailures := rp_failures p,
     tf_updatedAt := clk\<rparr>"

definition ts_updateAfterExecution :: "time \<Rightarrow> string \<Rightarrow> run_patch \<Rightarrow> transfer_store \<Rightarrow> transfer option \<times> transfer_store" where
  "ts_updateAfterExecution clk i p st = ts_patch i (apply_run_patch p clk) st"

definition transfer_due :: "time \<Rightarrow> transfer_store \<Rightarrow> transfer \<Rightarrow> bool" where
  "transfer_due now st t = (tf_status t = TActive \<and> tf_id t \<notin> set (ts_processing st) \<and> tf_nextRunAt t \<le> now)"

definition ts_listDue :: "time \<Rightarrow> transfer_store \<Rightarrow> transfer list" where
  "ts_listDue now st = filter (transfer_due now st) (map_values (ts_transfers st))"

definition ts_appendExecution :: "execution_log \<Rightarrow> transfer_store \<Rightarrow> transfer_store" where
  "ts_appendExecution lg st = st\<lparr>ts_executions := map_set (lg_transferId lg)
     (lg # coalesce (map_get (ts_executions st) (lg_transferId lg)) []) (ts_executions st)\<rparr>"

definition ts_listExecutions :: "string \<Rightarrow> transfer_store \<Rightarrow> execution_log list" where
  "ts_listExecutions i st = coalesce (map_get (ts_executions st) i) []"

definition ts_size :: "transfer_store \<Rightarrow> nat" where
  "ts_size st = length (ts_transfers st)"

section \<open>The service\<close>

definition MAX_CONSECUTIVE_FAILURES :: int where
  "MAX_CONSECUTIVE_FAILURES = 5"

text \<open>
  The status checks of \<open>pause\<close> and \<open>cancel\<close>. Each operation awaits the read before it writes; \<open>sv_pause\<close>
  and \<open>sv_cancel\<close> are the calls that meet no other one at that point.
\<close>

definition pause_allowed :: "string \<Rightarrow> string \<Rightarrow> transfer_store \<Rightarrow> bool" where
  "pause_allowed i callerId st = (case ts_getByIdForCaller i callerId st of
       None \<Rightarrow> False | Some t \<Rightarrow> tf_status t = TActive)"

definition sv_pause :: "time \<Rightarrow> string \<Rightarrow> string \<Rightarrow> transfer_store \<Rightarrow> transfer option \<times> transfer_store" where
  "sv_pause clk i callerId st =
     (if \<not> pause_allowed i callerId st then (None, st) else ts_updateStatus clk i TPaused st)"

definition cancel_allowed :: "string \<Rightarrow> string \<Rightarrow> transfer_store \<Rightarrow> bool" where
  "cancel_allowed i callerId st = (case ts_getByIdForCaller i callerId st of
       None \<Rightarrow> False | Some t \<Rightarrow> tf_status t \<notin> {TCancelled, TCompleted, TFailed})"

definition sv_cancel :: "time \<Rightarrow> string \<Rightarrow> string \<Rightarrow> transfer_store \<Rightarrow> transfer option \<times> transfer_store" where
  "sv_cancel clk i callerId st =
     (if \<not> cancel_allowed i callerId st then (None, st) else ts_updateStatus clk i TCancelled st)"

definition sv_listExecutions :: "string \<Rightarrow> string \<Rightarrow> transfer_store \<Rightarrow> execution_log list" where
  "sv_listExecutions i callerId st = (case ts_getByIdForCaller i callerId st of
       None \<Rightarrow> [] | Some t \<Rightarrow> ts_listExecutions i st)"

text \<open>
  The request of one run, from the approved payload and the number of runs before it, and the nonce
  the signature covers when it is another one.
\<close>

definition run_request :: "transfer \<Rightarrow> nat \<Rightarrow> relay_request \<times> int option" where
  "run_request t priors =
     (let approvedNonce = pl_nonce (tf_relayPayload t); nonce = approvedNonce + int priors
      in (\<lparr>rq_sessionKey = pl_sessionKey (tf_relayPayload t), rq_operation = pl_operation (tf_relayPayload t),
           rq_parameters = pl_parameters (tf_relayPayload t), rq_signature = pl_signature (tf_relayPayload t),
           rq_nonce = nonce, rq_transferPolicy = None\<rparr>,
          if nonce = approvedNonce then None else Some approvedNonce))"

definition run_patch_of :: "rat \<Rightarrow> time \<Rightarrow> transfer \<Rightarrow> bool \<Rightarrow> run_patch" where
  "run_patch_of rnd now t ok =
     (if \<not> ok then
        let consecutiveFailures = tf_consecutiveFailures t + 1 in
        if tf_frequency t = Once
        then \<lparr>rp_status = TCompleted, rp_nextRunAt = tf_nextRunAt t, rp_lastExecutionAt = now, rp_failures = consecutiveFailures\<rparr>
        else if consecutiveFailures \<ge> MAX_CONSECUTIVE_FAILURES
        then \<lparr>rp_status = TFailed, rp_nextRunAt = tf_nextRunAt t, rp_lastExecutionAt = now, rp_failures = consecutiveFailures\<rparr>
        else \<lparr>rp_status = TActive, rp_nextRunAt = nextRetryAfter rnd (nat (consecutiveFailures - 1)) now,
              rp_lastExecutionAt = now, rp_failures = consecutiveFailures\<rparr>
      else case computeNextRunAt now (tf_frequency t) (tf_endAt t) of
        Some n \<Rightarrow> \<lparr>rp_status = TActive, rp_nextRunAt = n, rp_lastExecutionAt = now, rp_failures = 0\<rparr>
      | None \<Rightarrow> \<lparr>rp_status = TCompleted, rp_nextRunAt = tf_nextRunAt t, rp_lastExecutionAt = now, rp_failures = 0\<rparr>)"

text \<open>The rest of \<open>executeTransfer\<close>, with the snapshot \<open>t\<close> taken before the call: the log entry, then the update.\<close>

definition run_log :: "string \<Rightarrow> time \<Rightarrow> transfer \<Rightarrow> execute_response \<Rightarrow> execution_log" where
  "run_log uuid now t resp = \<lparr>lg_id = uuid, lg_transferId = tf_id t, lg_executedAt = now,
     lg_success = xr_success resp, lg_transactionId = xr_transactionId resp,
     lg_error = map_option err_message (xr_error resp)\<rparr>"

definition finish_transfer ::
  "string \<Rightarrow> rat \<Rightarrow> time \<Rightarrow> time \<Rightarrow> transfer \<Rightarrow> execute_response \<Rightarrow> transfer_store \<Rightarrow> transfer_store" where
  "finish_transfer uuid rnd clk now t resp st =
     snd (ts_updateAfterExecution clk (tf_id t) (run_patch_of rnd now t (xr_success resp))
       (ts_appendExecution (run_log uuid now t resp) st))"

text \<open>
  One transfer of a pass: the lease, the relay call (which may throw), the update, the release. The
  relay carries its own state; \<open>inp\<close> supplies the fresh id, the random number and the clock. This is
  the pass with no request of the API between its awaits.
\<close>

type_synonym 'r relay_call = "relay_request \<Rightarrow> int option \<Rightarrow> 'r \<Rightarrow> (thrown + execute_response) \<times> 'r"

type_synonym run_inputs = "string \<Rightarrow> string \<times> rat \<times> time"

definition process_one ::
  "'r relay_call \<Rightarrow> run_inputs \<Rightarrow> time \<Rightarrow> transfer \<Rightarrow> nat \<times> 'r \<times> transfer_store \<Rightarrow> nat \<times> 'r \<times> transfer_store" where
  "process_one relay inp now t acc = (case acc of (n, r, st) \<Rightarrow>
     if \<not> isDue (tf_nextRunAt t) now then acc
     else case ts_tryAcquire (tf_id t) st of
       (False, _) \<Rightarrow> acc
     | (True, st1) \<Rightarrow>
         (case run_request t (length (ts_listExecutions (tf_id t) st1)) of
            (req, signedNonce) \<Rightarrow>
              (case relay req signedNonce r of
                 (Inl _, r') \<Rightarrow> (n, r', ts_release (tf_id t) st1)
               | (Inr resp, r') \<Rightarrow>
                   (case inp (tf_id t) of (uuid, rnd, clk) \<Rightarrow>
                      (n + 1, r', ts_release (tf_id t) (finish_transfer uuid rnd clk now t resp st1))))))"

definition processDueTransfers ::
  "'r relay_call \<Rightarrow> run_inputs \<Rightarrow> time \<Rightarrow> 'r \<Rightarrow> transfer_store \<Rightarrow> nat \<times> 'r \<times> transfer_store" where
  "processDueTransfers relay inp now r st = fold (process_one relay inp now) (ts_listDue now st) (0, r, st)"

text \<open>The read of the Postgres store over the same log, newest first: at most fifty rows.\<close>

definition pg_listExecutions :: "execution_log list \<Rightarrow> execution_log list" where
  "pg_listExecutions logs = take 50 logs"

section \<open>Handlers\<close>

datatype 'a reply = Reply int 'a | ErrorReply int string string

definition listTransfersHandler :: "string option \<Rightarrow> string \<Rightarrow> transfer_store \<Rightarrow> transfer list reply" where
  "listTransfersHandler accountAddress callerId st = (case accountAddress of
       None \<Rightarrow> ErrorReply 400 ''VALIDATION_ERROR'' ''accountAddress query parameter is required''
     | Some a \<Rightarrow> Reply 200 (ts_listByAccount a callerId st))"

definition getTransferHandler :: "string \<Rightarrow> string \<Rightarrow> transfer_store \<Rightarrow> transfer reply" where
  "getTransferHandler i callerId st = (case ts_getByIdForCaller i callerId st of
       None \<Rightarrow> ErrorReply 404 ''NOT_FOUND'' ''Scheduled transfer not found''
     | Some t \<Rightarrow> Reply 200 t)"

definition createTransferHandler :: "string \<Rightarrow> time \<Rightarrow> create_input \<Rightarrow> string \<Rightarrow> transfer_store \<Rightarrow> transfer reply \<times> transfer_store" where
  "createTransferHandler uuid now inp callerId st = (case ts_create uuid now inp callerId st of
       (t, st') \<Rightarrow> (Reply 201 t, st'))"

definition pauseTransferHandler :: "time \<Rightarrow> string \<Rightarrow> string \<Rightarrow> transfer_store \<Rightarrow> transfer reply \<times> transfer_store" where
  "pauseTransferHandler clk i callerId st = (case sv_pause clk i callerId st of
       (None, st') \<Rightarrow> (ErrorReply 422 ''INVALID_STATE'' ''Scheduled transfer cannot be paused'', st')
     | (Some t, st') \<Rightarrow> (Reply 200 t, st'))"

definition cancelTransferHandler :: "time \<Rightarrow> string \<Rightarrow> string \<Rightarrow> transfer_store \<Rightarrow> transfer reply \<times> transfer_store" where
  "cancelTransferHandler clk i callerId st = (case sv_cancel clk i callerId st of
       (None, st') \<Rightarrow> (ErrorReply 422 ''INVALID_STATE'' ''Scheduled transfer cannot be cancelled'', st')
     | (Some t, st') \<Rightarrow> (Reply 200 t, st'))"

definition listExecutionsHandler :: "string \<Rightarrow> string \<Rightarrow> transfer_store \<Rightarrow> execution_log list reply" where
  "listExecutionsHandler i callerId st = (case ts_getByIdForCaller i callerId st of
       None \<Rightarrow> ErrorReply 404 ''NOT_FOUND'' ''Scheduled transfer not found''
     | Some t \<Rightarrow> Reply 200 (sv_listExecutions (tf_id t) callerId st))"

section \<open>Invariant\<close>

definition transfer_ok :: "string \<times> transfer \<Rightarrow> bool" where
  "transfer_ok = (\<lambda>(i, t). tf_id t = i \<and> 0 \<le> tf_consecutiveFailures t
     \<and> tf_consecutiveFailures t \<le> MAX_CONSECUTIVE_FAILURES
     \<and> (tf_status t = TActive \<longrightarrow> tf_consecutiveFailures t < MAX_CONSECUTIVE_FAILURES))"

definition index_entry_ok :: "transfer_store \<Rightarrow> string \<times> string list \<Rightarrow> bool" where
  "index_entry_ok st = (\<lambda>(k, ids). list_all (\<lambda>i. case map_get (ts_transfers st) i of
      None \<Rightarrow> False | Some t \<Rightarrow> accountKey (tf_accountId t) (tf_callerId t) = k) ids)"

definition ts_wf :: "transfer_store \<Rightarrow> bool" where
  "ts_wf st = (map_wf (ts_transfers st) \<and> map_wf (ts_executions st) \<and> map_wf (ts_accountIndex st)
     \<and> list_all transfer_ok (ts_transfers st) \<and> list_all (index_entry_ok st) (ts_accountIndex st))"

lemma ts_wf_iff: "ts_wf st \<longleftrightarrow> map_wf (ts_transfers st) \<and> map_wf (ts_executions st) \<and> map_wf (ts_accountIndex st)
     \<and> (\<forall>i t. map_get (ts_transfers st) i = Some t \<longrightarrow> transfer_ok (i, t))
     \<and> (\<forall>k ids. map_get (ts_accountIndex st) k = Some ids \<longrightarrow> index_entry_ok st (k, ids))"
  by (auto simp: ts_wf_def map_all_iff)

lemma ts_wf_transfer: "ts_wf st \<Longrightarrow> map_get (ts_transfers st) i = Some t \<Longrightarrow> transfer_ok (i, t)"
  by (simp add: ts_wf_iff)

lemma ts_wf_empty: "ts_wf empty_transfers"
  by (simp add: ts_wf_def empty_transfers_def)

lemma patch_get: "map_get (ts_transfers (snd (ts_patch i f st))) j =
   (if j = i then map_option f (map_get (ts_transfers st) i) else map_get (ts_transfers st) j)"
  by (auto simp: ts_patch_def jsmap_simps split: option.splits)

lemma patch_rest [simp]: "ts_executions (snd (ts_patch i f st)) = ts_executions st"
  "ts_accountIndex (snd (ts_patch i f st)) = ts_accountIndex st"
  "ts_processing (snd (ts_patch i f st)) = ts_processing st"
  by (simp_all add: ts_patch_def split: option.splits)

lemma patch_wf:
  assumes wf: "ts_wf st"
    and f: "\<And>t. map_get (ts_transfers st) i = Some t \<Longrightarrow> transfer_ok (i, f t)
       \<and> tf_accountId (f t) = tf_accountId t \<and> tf_callerId (f t) = tf_callerId t"
  shows "ts_wf (snd (ts_patch i f st))"
proof -
  have "map_wf (ts_transfers (snd (ts_patch i f st)))"
    using wf by (auto simp: ts_patch_def ts_wf_def map_wf_set split: option.splits)
  moreover have "index_entry_ok (snd (ts_patch i f st)) (k, ids)" if "index_entry_ok st (k, ids)" for k ids
    using that f by (fastforce simp: index_entry_ok_def patch_get list_all_iff split: option.splits)
  moreover have "transfer_ok (j, t)" if "map_get (ts_transfers (snd (ts_patch i f st))) j = Some t" for j t
    using that f ts_wf_transfer [OF wf] by (auto simp: patch_get split: if_splits)
  ultimately show ?thesis using wf by (simp add: ts_wf_iff)
qed

lemma release_wf [invar_intros]: "ts_wf st \<Longrightarrow> ts_wf (ts_release i st)"
  by (simp add: ts_wf_def ts_release_def index_entry_ok_def)

lemma acquire_wf [invar_intros]: "ts_wf st \<Longrightarrow> ts_wf (snd (ts_tryAcquire i st))"
  by (simp add: ts_wf_def ts_tryAcquire_def index_entry_ok_def split: option.splits)

lemma append_wf [invar_intros]: "ts_wf st \<Longrightarrow> ts_wf (ts_appendExecution lg st)"
  by (simp add: ts_wf_def ts_appendExecution_def index_entry_ok_def map_wf_set)

lemma create_wf [invar_intros]:
  assumes wf: "ts_wf st" and fresh: "map_get (ts_transfers st) uuid = None"
  shows "ts_wf (snd (ts_create uuid now inp c st))"
proof -
  let ?st = "snd (ts_create uuid now inp c st)" and ?t = "new_transfer uuid now inp c"
  have g: "map_get (ts_transfers ?st) i = (if i = uuid then Some ?t else map_get (ts_transfers st) i)" for i
    by (simp add: ts_create_def Let_def jsmap_simps)
  have "transfer_ok (i, t)" if "map_get (ts_transfers ?st) i = Some t" for i t
    using that ts_wf_transfer [OF wf] by (auto simp: g transfer_ok_def new_transfer_def MAX_CONSECUTIVE_FAILURES_def split: if_splits)
  moreover have "index_entry_ok ?st (k, ids)" if k: "map_get (ts_accountIndex ?st) k = Some ids" for k ids
  proof -
    have old: "index_entry_ok st (k', ids')" if "map_get (ts_accountIndex st) k' = Some ids'" for k' ids'
      using that wf by (simp add: ts_wf_iff)
    have keep: "list_all (\<lambda>i. case map_get (ts_transfers ?st) i of None \<Rightarrow> False
        | Some t \<Rightarrow> accountKey (tf_accountId t) (tf_callerId t) = k) ids'"
      if "map_get (ts_accountIndex st) k = Some ids'" for ids'
      using old [OF that] fresh by (fastforce simp: index_entry_ok_def g list_all_iff split: option.splits)
    show ?thesis
    proof (cases "k = accountKey (cr_accountAddress inp) c")
      case True
      have "ids = set_add uuid (coalesce (map_get (ts_accountIndex st) k) [])"
        using k True by (simp add: ts_create_def Let_def jsmap_simps)
      then show ?thesis
        using keep True by (cases "map_get (ts_accountIndex st) k")
          (auto simp: index_entry_ok_def set_add_def g new_transfer_def list_all_iff split: if_splits)
    next
      case False
      then have "map_get (ts_accountIndex st) k = Some ids"
        using k by (simp add: ts_create_def Let_def jsmap_simps)
      from keep [OF this] show ?thesis by (simp add: index_entry_ok_def)
    qed
  qed
  moreover have "map_wf (ts_transfers ?st)" "map_wf (ts_executions ?st)" "map_wf (ts_accountIndex ?st)"
    using wf by (simp_all add: ts_create_def Let_def ts_wf_def map_wf_set)
  ultimately show ?thesis by (simp add: ts_wf_iff)
qed

section \<open>The patch of a run\<close>

lemma run_patch_simps:
  "run_patch_of rnd now t False = (if tf_frequency t = Once
     then \<lparr>rp_status = TCompleted, rp_nextRunAt = tf_nextRunAt t, rp_lastExecutionAt = now, rp_failures = tf_consecutiveFailures t + 1\<rparr>
     else if tf_consecutiveFailures t + 1 \<ge> MAX_CONSECUTIVE_FAILURES
     then \<lparr>rp_status = TFailed, rp_nextRunAt = tf_nextRunAt t, rp_lastExecutionAt = now, rp_failures = tf_consecutiveFailures t + 1\<rparr>
     else \<lparr>rp_status = TActive, rp_nextRunAt = nextRetryAfter rnd (nat (tf_consecutiveFailures t)) now,
           rp_lastExecutionAt = now, rp_failures = tf_consecutiveFailures t + 1\<rparr>)"
  "run_patch_of rnd now t True = (case computeNextRunAt now (tf_frequency t) (tf_endAt t) of
        Some n \<Rightarrow> \<lparr>rp_status = TActive, rp_nextRunAt = n, rp_lastExecutionAt = now, rp_failures = 0\<rparr>
      | None \<Rightarrow> \<lparr>rp_status = TCompleted, rp_nextRunAt = tf_nextRunAt t, rp_lastExecutionAt = now, rp_failures = 0\<rparr>)"
  by (simp_all add: run_patch_of_def Let_def)

lemma run_patch_status: "rp_status (run_patch_of rnd now t ok) \<in> {TActive, TCompleted, TFailed}"
  by (cases ok) (auto simp: run_patch_simps split: option.splits)

lemma run_patch_failures:
  "rp_failures (run_patch_of rnd now t ok) = (if ok then 0 else tf_consecutiveFailures t + 1)"
  by (cases ok) (auto simp: run_patch_simps split: option.splits)

lemma apply_run_patch_ok:
  assumes "transfer_ok (i, t)" "transfer_ok (i, s)" "tf_status s = TActive" "tf_id t = tf_id s"
  shows "transfer_ok (i, apply_run_patch (run_patch_of rnd now s ok) clk t)"
  using assms
  by (cases ok) (auto simp: transfer_ok_def apply_run_patch_def run_patch_simps MAX_CONSECUTIVE_FAILURES_def split: option.splits)

lemma apply_patch_frame [simp]: "tf_accountId (apply_run_patch p clk t) = tf_accountId t"
  "tf_callerId (apply_run_patch p clk t) = tf_callerId t" "tf_id (apply_run_patch p clk t) = tf_id t"
  "tf_status (apply_run_patch p clk t) = rp_status p" "tf_nextRunAt (apply_run_patch p clk t) = rp_nextRunAt p"
  "tf_consecutiveFailures (apply_run_patch p clk t) = rp_failures p"
  by (simp_all add: apply_run_patch_def)

lemma append_transfers [simp]: "ts_transfers (ts_appendExecution lg st) = ts_transfers st"
  "ts_processing (ts_appendExecution lg st) = ts_processing st"
  by (simp_all add: ts_appendExecution_def)

lemma finish_get: "map_get (ts_transfers (finish_transfer uuid rnd clk now t resp st)) j =
   (if j = tf_id t then map_option (apply_run_patch (run_patch_of rnd now t (xr_success resp)) clk)
      (map_get (ts_transfers st) (tf_id t)) else map_get (ts_transfers st) j)"
  by (simp add: finish_transfer_def ts_updateAfterExecution_def patch_get)

lemma finish_logs: "ts_listExecutions j (finish_transfer uuid rnd clk now t resp st) =
   (if j = tf_id t then run_log uuid now t resp # ts_listExecutions j st else ts_listExecutions j st)"
  by (simp add: finish_transfer_def ts_updateAfterExecution_def ts_listExecutions_def ts_appendExecution_def
      run_log_def jsmap_simps)

lemma finish_processing [simp]: "ts_processing (finish_transfer uuid rnd clk now t resp st) = ts_processing st"
  by (simp add: finish_transfer_def ts_updateAfterExecution_def)

lemma update_run_wf:
  assumes "ts_wf st" "transfer_ok (tf_id t, t)" "tf_status t = TActive"
  shows "ts_wf (snd (ts_updateAfterExecution clk (tf_id t) (run_patch_of rnd now t ok) st))"
  unfolding ts_updateAfterExecution_def
proof (rule patch_wf [OF assms(1)])
  fix s assume "map_get (ts_transfers st) (tf_id t) = Some s"
  then have "transfer_ok (tf_id t, s)" using ts_wf_transfer [OF assms(1)] by simp
  moreover from this have "tf_id s = tf_id t" by (simp add: transfer_ok_def)
  ultimately show "transfer_ok (tf_id t, apply_run_patch (run_patch_of rnd now t ok) clk s)
    \<and> tf_accountId (apply_run_patch (run_patch_of rnd now t ok) clk s) = tf_accountId s
    \<and> tf_callerId (apply_run_patch (run_patch_of rnd now t ok) clk s) = tf_callerId s"
    using assms(2,3) by (simp add: apply_run_patch_ok)
qed

section \<open>Interleavings\<close>

text \<open>
  The service as a system of steps, one for each piece of code between two \<open>await\<close>s that touches the
  shared store: a creation; the check of a pause or cancel and, later, its write; the start of a pass
  (the snapshot \<open>listDue\<close> takes); and for each transfer of a snapshot the lease, the answer of the relay
  with the log entry, the update, and the release, which also follows a throw of the call. The number
  of log entries a run reads after its lease cannot change while it holds it. Several passes may be
  open at once, as with two instances or an extra \<open>tick()\<close>.
\<close>

text \<open>Where a run in flight stands: the relay is being asked; the log entry is written; the update is, or the call threw.\<close>

datatype run_phase = Asked | Logged bool | Settled

record sched =
  sc_store :: transfer_store
  sc_listed :: "(time \<times> transfer) list"
  sc_flight :: "(time \<times> transfer \<times> run_phase) list"
  sc_writes :: "(string \<times> transfer_status) list"

inductive sched_step :: "sched \<Rightarrow> sched \<Rightarrow> bool" where
  st_create: "map_get (ts_transfers (sc_store s)) uuid = None \<Longrightarrow>
    sched_step s (s\<lparr>sc_store := snd (createTransferHandler uuid clk inp c (sc_store s))\<rparr>)"
| st_pause: "pause_allowed i c (sc_store s) \<Longrightarrow> sched_step s (s\<lparr>sc_writes := (i, TPaused) # sc_writes s\<rparr>)"
| st_cancel: "cancel_allowed i c (sc_store s) \<Longrightarrow> sched_step s (s\<lparr>sc_writes := (i, TCancelled) # sc_writes s\<rparr>)"
| st_write: "(i, v) \<in> set (sc_writes s) \<Longrightarrow>
    sched_step s (s\<lparr>sc_store := snd (ts_updateStatus clk i v (sc_store s)), sc_writes := remove1 (i, v) (sc_writes s)\<rparr>)"
| st_pass: "sched_step s (s\<lparr>sc_listed := sc_listed s @ map (Pair now) (ts_listDue now (sc_store s))\<rparr>)"
| st_lease: "(now, t) \<in> set (sc_listed s) \<Longrightarrow> isDue (tf_nextRunAt t) now \<Longrightarrow>
    ts_tryAcquire (tf_id t) (sc_store s) = (True, st) \<Longrightarrow>
    sched_step s (s\<lparr>sc_store := st, sc_listed := remove1 (now, t) (sc_listed s), sc_flight := (now, t, Asked) # sc_flight s\<rparr>)"
| st_skip: "(now, t) \<in> set (sc_listed s) \<Longrightarrow>
    \<not> isDue (tf_nextRunAt t) now \<or> \<not> fst (ts_tryAcquire (tf_id t) (sc_store s)) \<Longrightarrow>
    sched_step s (s\<lparr>sc_listed := remove1 (now, t) (sc_listed s)\<rparr>)"
| st_answer: "(now, t, Asked) \<in> set (sc_flight s) \<Longrightarrow>
    sched_step s (s\<lparr>sc_store := ts_appendExecution (run_log uuid now t resp) (sc_store s),
       sc_flight := (now, t, Logged (xr_success resp)) # remove1 (now, t, Asked) (sc_flight s)\<rparr>)"
| st_update: "(now, t, Logged ok) \<in> set (sc_flight s) \<Longrightarrow>
    sched_step s (s\<lparr>sc_store := snd (ts_updateAfterExecution clk (tf_id t) (run_patch_of rnd now t ok) (sc_store s)),
       sc_flight := (now, t, Settled) # remove1 (now, t, Logged ok) (sc_flight s)\<rparr>)"
| st_throw: "(now, t, Asked) \<in> set (sc_flight s) \<Longrightarrow>
    sched_step s (s\<lparr>sc_flight := (now, t, Settled) # remove1 (now, t, Asked) (sc_flight s)\<rparr>)"
| st_release: "(now, t, Settled) \<in> set (sc_flight s) \<Longrightarrow>
    sched_step s (s\<lparr>sc_store := ts_release (tf_id t) (sc_store s), sc_flight := remove1 (now, t, Settled) (sc_flight s)\<rparr>)"

definition sched_start :: sched where
  "sched_start = \<lparr>sc_store = empty_transfers, sc_listed = [], sc_flight = [], sc_writes = []\<rparr>"

definition flight_id :: "time \<times> transfer \<times> run_phase \<Rightarrow> string" where
  "flight_id x = tf_id (fst (snd x))"

definition flight_ids :: "sched \<Rightarrow> string list" where
  "flight_ids s = map flight_id (sc_flight s)"

definition snapshot_ok :: "time \<times> transfer \<Rightarrow> bool" where
  "snapshot_ok = (\<lambda>(now, t). transfer_ok (tf_id t, t) \<and> tf_status t = TActive)"

text \<open>A run that has yet to write its update runs a transfer that no other run has settled.\<close>

definition flight_ok :: "transfer_store \<Rightarrow> time \<times> transfer \<times> run_phase \<Rightarrow> bool" where
  "flight_ok st = (\<lambda>(now, t, p). snapshot_ok (now, t) \<and> (\<exists>t'. map_get (ts_transfers st) (tf_id t) = Some t'
     \<and> (p \<noteq> Settled \<longrightarrow> tf_status t' \<in> {TActive, TPaused, TCancelled})))"

definition sched_inv :: "sched \<Rightarrow> bool" where
  "sched_inv s = (ts_wf (sc_store s) \<and> list_all snapshot_ok (sc_listed s) \<and> list_all (flight_ok (sc_store s)) (sc_flight s)
     \<and> distinct (flight_ids s) \<and> set (flight_ids s) = set (ts_processing (sc_store s))
     \<and> list_all (\<lambda>w. snd w \<in> {TPaused, TCancelled}) (sc_writes s))"

lemma release_get [simp]: "ts_transfers (ts_release i st) = ts_transfers st"
  "set (ts_processing (ts_release i st)) = set (ts_processing st) - {i}"
  "ts_executions (ts_release i st) = ts_executions st" "ts_accountIndex (ts_release i st) = ts_accountIndex st"
  by (auto simp: ts_release_def)

lemma acquire_cases: "ts_tryAcquire i st = (True, st') \<Longrightarrow>
   (\<exists>t. map_get (ts_transfers st) i = Some t \<and> tf_status t = TActive) \<and> i \<notin> set (ts_processing st)
   \<and> st' = st\<lparr>ts_processing := set_add i (ts_processing st)\<rparr>"
  by (auto simp: ts_tryAcquire_def split: if_splits option.splits)

lemma set_set_add [simp]: "set (set_add x xs) = insert x (set xs)"
  by (auto simp: set_add_def)

lemma update_get: "map_get (ts_transfers (snd (ts_updateStatus clk i s st))) j =
    (if j = i then map_option (\<lambda>t. t\<lparr>tf_status := s, tf_updatedAt := clk\<rparr>) (map_get (ts_transfers st) i)
     else map_get (ts_transfers st) j)"
  "ts_processing (snd (ts_updateStatus clk i s st)) = ts_processing st"
  by (simp_all add: ts_updateStatus_def patch_get)

lemma update_run_get: "map_get (ts_transfers (snd (ts_updateAfterExecution clk i p st))) j =
    (if j = i then map_option (apply_run_patch p clk) (map_get (ts_transfers st) i) else map_get (ts_transfers st) j)"
  "ts_processing (snd (ts_updateAfterExecution clk i p st)) = ts_processing st"
  by (simp_all add: ts_updateAfterExecution_def patch_get)

text \<open>What a pause or cancel that meets no other call does to the store: nothing, or the status of one live transfer.\<close>

lemma allowed_iff:
  "pause_allowed i c st \<longleftrightarrow> (\<exists>t. map_get (ts_transfers st) i = Some t \<and> tf_callerId t = c \<and> tf_status t = TActive)"
  "cancel_allowed i c st \<longleftrightarrow> (\<exists>t. map_get (ts_transfers st) i = Some t \<and> tf_callerId t = c \<and> tf_status t \<in> {TActive, TPaused})"
proof -
  have "s \<in> {TActive, TPaused}" if "s \<notin> {TCancelled, TCompleted, TFailed}" for s
    using that by (cases s) auto
  then show "pause_allowed i c st \<longleftrightarrow> (\<exists>t. map_get (ts_transfers st) i = Some t \<and> tf_callerId t = c \<and> tf_status t = TActive)"
    "cancel_allowed i c st \<longleftrightarrow> (\<exists>t. map_get (ts_transfers st) i = Some t \<and> tf_callerId t = c \<and> tf_status t \<in> {TActive, TPaused})"
    by (auto simp: pause_allowed_def cancel_allowed_def ts_getByIdForCaller_def split: option.splits)
qed

lemma handler_effect:
  "snd (pauseTransferHandler clk i c st) = (if pause_allowed i c st then snd (ts_updateStatus clk i TPaused st) else st)"
  "snd (cancelTransferHandler clk i c st) = (if cancel_allowed i c st then snd (ts_updateStatus clk i TCancelled st) else st)"
  by (auto simp: pauseTransferHandler_def cancelTransferHandler_def sv_pause_def sv_cancel_def split: prod.splits option.splits)

lemma create_get: "map_get (ts_transfers (snd (createTransferHandler uuid now inp c st))) i =
    (if i = uuid then Some (new_transfer uuid now inp c) else map_get (ts_transfers st) i)"
  "ts_processing (snd (createTransferHandler uuid now inp c st)) = ts_processing st"
  by (simp_all add: createTransferHandler_def ts_create_def Let_def jsmap_simps)

text \<open>The frame of a call of the API: the leases stay, and a status only changes to paused or cancelled.\<close>

definition user_frame :: "transfer_store \<Rightarrow> transfer_store \<Rightarrow> bool" where
  "user_frame st st' \<longleftrightarrow> ts_wf st' \<and> ts_processing st' = ts_processing st
     \<and> (\<forall>i t. map_get (ts_transfers st) i = Some t \<longrightarrow>
          (\<exists>t'. map_get (ts_transfers st') i = Some t' \<and> (tf_status t' = tf_status t \<or> tf_status t' \<in> {TPaused, TCancelled})))"

lemma write_frame:
  assumes "ts_wf st" "v \<in> {TPaused, TCancelled}"
  shows "user_frame st (snd (ts_updateStatus clk i v st))"
proof -
  have "ts_wf (snd (ts_updateStatus clk i v st))"
    unfolding ts_updateStatus_def
    using assms ts_wf_transfer [OF assms(1), of i] by (intro patch_wf) (auto simp: transfer_ok_def)
  then show ?thesis using assms(2) by (auto simp: user_frame_def update_get)
qed

lemma create_frame:
  assumes "ts_wf st" "map_get (ts_transfers st) uuid = None"
  shows "user_frame st (snd (createTransferHandler uuid clk inp c st))"
  using assms(2) create_wf [OF assms, of clk inp c]
  by (auto simp: user_frame_def createTransferHandler_def create_get ts_create_def Let_def jsmap_simps)

lemma inv_user:
  assumes "sched_inv s" "user_frame (sc_store s) st"
  shows "sched_inv (s\<lparr>sc_store := st\<rparr>)"
proof -
  have "flight_ok st x" if "flight_ok (sc_store s) x" for x
    using that assms(2) by (fastforce simp: flight_ok_def user_frame_def)
  with assms show ?thesis by (auto simp: sched_inv_def user_frame_def flight_ids_def list_all_iff)
qed

lemma inv_pass:
  assumes "sched_inv s"
  shows "sched_inv (s\<lparr>sc_listed := sc_listed s @ map (Pair now) (ts_listDue now (sc_store s))\<rparr>)"
proof -
  have wf: "ts_wf (sc_store s)" using assms by (simp add: sched_inv_def)
  have "snapshot_ok (now, t)" if t: "t \<in> set (ts_listDue now (sc_store s))" for t
  proof -
    obtain i where "map_get (ts_transfers (sc_store s)) i = Some t"
      using t wf by (auto simp: ts_listDue_def map_values_iff ts_wf_iff)
    from ts_wf_transfer [OF wf this] show ?thesis
      using t by (auto simp: snapshot_ok_def transfer_ok_def ts_listDue_def transfer_due_def)
  qed
  then have "list_all snapshot_ok (map (Pair now) (ts_listDue now (sc_store s)))" by (simp add: list_all_iff)
  with assms show ?thesis by (simp add: sched_inv_def flight_ids_def)
qed

lemma inv_lease:
  assumes "sched_inv s" "(now, t) \<in> set (sc_listed s)" "ts_tryAcquire (tf_id t) (sc_store s) = (True, st)"
  shows "sched_inv (s\<lparr>sc_store := st, sc_listed := remove1 (now, t) (sc_listed s), sc_flight := (now, t, Asked) # sc_flight s\<rparr>)"
proof -
  from acquire_cases [OF assms(3)] obtain t' where a: "map_get (ts_transfers (sc_store s)) (tf_id t) = Some t'"
    "tf_status t' = TActive" "tf_id t \<notin> set (ts_processing (sc_store s))"
    "st = (sc_store s)\<lparr>ts_processing := set_add (tf_id t) (ts_processing (sc_store s))\<rparr>" by blast
  moreover have "ts_wf st" using acquire_wf [of "sc_store s" "tf_id t"] assms by (simp add: sched_inv_def)
  moreover have "flight_ok st x \<longleftrightarrow> flight_ok (sc_store s) x" for x by (simp add: flight_ok_def a(4))
  moreover have "flight_ok (sc_store s) (now, t, Asked)"
    using assms(1,2) a(1,2) by (auto simp: flight_ok_def sched_inv_def list_all_iff)
  ultimately show ?thesis
    using assms(1,2) set_remove1_subset [of "(now, t)" "sc_listed s"]
    by (auto simp: sched_inv_def flight_ids_def flight_id_def list_all_iff)
qed

text \<open>The ids in flight when an entry is replaced by a later phase of the same run, or removed.\<close>

lemma remove1_ids:
  assumes "x \<in> set fl" "distinct (map flight_id fl)"
  shows "distinct (map flight_id (remove1 x fl)) \<and> set (map flight_id (remove1 x fl)) = set (map flight_id fl) - {flight_id x}"
proof -
  have "\<exists>a b. fl = a @ x # b \<and> remove1 x fl = a @ b"
    using assms(1) by (meson in_set_conv_decomp_first remove1_split)
  then obtain a b where "fl = a @ x # b" "remove1 x fl = a @ b" by blast
  with assms(2) show ?thesis by (simp only:) (fastforce simp: image_iff)
qed

lemma flight_remove:
  assumes "sched_inv s" "(now, t, p) \<in> set (sc_flight s)"
  shows "distinct (map flight_id (remove1 (now, t, p) (sc_flight s)))"
    and "flight_id ` set (remove1 (now, t, p) (sc_flight s)) = set (ts_processing (sc_store s)) - {tf_id t}"
    and "tf_id t \<in> set (ts_processing (sc_store s))"
    and "x \<in> set (remove1 (now, t, p) (sc_flight s)) \<Longrightarrow> x \<in> set (sc_flight s) \<and> flight_id x \<noteq> tf_id t"
proof -
  have d: "distinct (map flight_id (sc_flight s))" "flight_id ` set (sc_flight s) = set (ts_processing (sc_store s))"
    using assms(1) by (simp_all add: sched_inv_def flight_ids_def)
  note r = remove1_ids [OF assms(2) d(1)]
  then show "distinct (map flight_id (remove1 (now, t, p) (sc_flight s)))" by blast
  show i: "flight_id ` set (remove1 (now, t, p) (sc_flight s)) = set (ts_processing (sc_store s)) - {tf_id t}"
    using r d(2) by (simp add: flight_id_def [of "(now, t, p)"])
  show "tf_id t \<in> set (ts_processing (sc_store s))"
    using assms(2) unfolding d(2) [symmetric] by (force simp: flight_id_def)
  show "x \<in> set (sc_flight s) \<and> flight_id x \<noteq> tf_id t" if "x \<in> set (remove1 (now, t, p) (sc_flight s))"
    using that i set_remove1_subset [of "(now, t, p)" "sc_flight s"] by blast
qed

text \<open>A run moves to its next phase, with what it does to its own transfer.\<close>

lemma inv_phase:
  assumes "sched_inv s" "(now, t, p) \<in> set (sc_flight s)" "ts_wf st" "ts_processing st = ts_processing (sc_store s)"
    and other: "\<And>j. j \<noteq> tf_id t \<Longrightarrow> map_get (ts_transfers st) j = map_get (ts_transfers (sc_store s)) j"
    and own: "flight_ok (sc_store s) (now, t, p) \<Longrightarrow> flight_ok st (now, t, p')"
  shows "sched_inv (s\<lparr>sc_store := st, sc_flight := (now, t, p') # remove1 (now, t, p) (sc_flight s)\<rparr>)"
proof -
  note r = flight_remove [OF assms(1,2)]
  have all: "flight_ok (sc_store s) x" if "x \<in> set (sc_flight s)" for x
    using that assms(1) by (simp add: sched_inv_def list_all_iff)
  have "flight_ok st x" if "x \<in> set (remove1 (now, t, p) (sc_flight s))" for x
    using r(4) [OF that] all [of x] by (auto simp: flight_ok_def flight_id_def other)
  then show ?thesis
    using assms(1,3,4) r(1-3) own [OF all [OF assms(2)]]
    by (auto simp: sched_inv_def flight_ids_def flight_id_def [of "(now, t, p')"] list_all_iff)
qed

lemma inv_release:
  assumes "sched_inv s" "(now, t, Settled) \<in> set (sc_flight s)"
  shows "sched_inv (s\<lparr>sc_store := ts_release (tf_id t) (sc_store s), sc_flight := remove1 (now, t, Settled) (sc_flight s)\<rparr>)"
proof -
  note r = flight_remove [OF assms]
  have "flight_ok (ts_release (tf_id t) (sc_store s)) x" if "x \<in> set (remove1 (now, t, Settled) (sc_flight s))" for x
    using r(4) [OF that] assms(1) by (auto simp: sched_inv_def list_all_iff flight_ok_def)
  then show ?thesis
    using assms(1) r(1,2) by (auto simp: sched_inv_def flight_ids_def list_all_iff release_wf)
qed

lemma inv_write:
  assumes "sched_inv s" "(i, v) \<in> set (sc_writes s)"
  shows "sched_inv (s\<lparr>sc_store := snd (ts_updateStatus clk i v (sc_store s)), sc_writes := remove1 (i, v) (sc_writes s)\<rparr>)"
proof -
  have "v \<in> {TPaused, TCancelled}" "ts_wf (sc_store s)" using assms by (auto simp: sched_inv_def list_all_iff)
  then have "sched_inv (s\<lparr>sc_store := snd (ts_updateStatus clk i v (sc_store s))\<rparr>)"
    using assms(1) by (intro inv_user write_frame)
  then show ?thesis
    using set_remove1_subset [of "(i, v)" "sc_writes s"] by (auto simp: sched_inv_def flight_ids_def list_all_iff)
qed

lemma inv_step: "sched_step s s' \<Longrightarrow> sched_inv s \<Longrightarrow> sched_inv s'"
proof (induction rule: sched_step.induct)
  case (st_create s uuid clk inp c) then show ?case by (intro inv_user create_frame) (simp_all add: sched_inv_def)
next
  case (st_skip now t s) then show ?case
    using set_remove1_subset [of "(now, t)" "sc_listed s"] by (auto simp: sched_inv_def flight_ids_def list_all_iff)
next
  case (st_answer now t s resp uuid) then show ?case
    by (intro inv_phase) (auto simp: sched_inv_def append_wf flight_ok_def)
next
  case (st_update now t ok s clk rnd)
  then have "flight_ok (sc_store s) (now, t, Logged ok)" by (auto simp: sched_inv_def list_all_iff)
  with st_update show ?case
    by (intro inv_phase) (auto simp: sched_inv_def update_run_get flight_ok_def snapshot_ok_def intro!: update_run_wf)
next
  case (st_throw now t s)
  then have "sched_inv (s\<lparr>sc_store := sc_store s, sc_flight := (now, t, Settled) # remove1 (now, t, Asked) (sc_flight s)\<rparr>)"
    by (intro inv_phase) (auto simp: sched_inv_def flight_ok_def)
  then show ?case by simp
next
  case (st_pause i c s) then show ?case by (simp add: sched_inv_def flight_ids_def)
next
  case (st_cancel i c s) then show ?case by (simp add: sched_inv_def flight_ids_def)
qed (simp_all add: inv_pass inv_lease inv_release inv_write)

lemma inv_start: "sched_inv sched_start"
  by (simp add: sched_inv_def sched_start_def flight_ids_def ts_wf_empty) (simp add: empty_transfers_def)

lemma inv_reach: "sched_step\<^sup>*\<^sup>* s s' \<Longrightarrow> sched_inv s \<Longrightarrow> sched_inv s'"
  by (induction rule: rtranclp_induct) (auto intro: inv_step)

lemma inv_reachable: "sched_step\<^sup>*\<^sup>* sched_start s \<Longrightarrow> sched_inv s"
  by (rule inv_reach [OF _ inv_start])

text \<open>
  A settled transfer: its status is final, no run of it has its update before it, and no pause or
  cancel of it that passed its check has its write before it.
\<close>

definition settled :: "string \<Rightarrow> transfer_status \<Rightarrow> sched \<Rightarrow> bool" where
  "settled i v s \<longleftrightarrow> (\<exists>t. map_get (ts_transfers (sc_store s)) i = Some t \<and> tf_status t = v)
     \<and> (\<forall>now t p. (now, t, p) \<in> set (sc_flight s) \<longrightarrow> tf_id t = i \<longrightarrow> p = Settled) \<and> i \<notin> fst ` set (sc_writes s)"

lemma settled_step:
  "sched_step s s' \<Longrightarrow> v \<in> {TCancelled, TCompleted, TFailed} \<Longrightarrow> settled i v s \<Longrightarrow> settled i v s'"
proof (induction rule: sched_step.induct)
  case (st_create s uuid clk inp c) then show ?case by (auto simp: settled_def create_get)
next
  case (st_pause j c s) then show ?case by (auto simp: settled_def allowed_iff)
next
  case (st_cancel j c s) then show ?case by (auto simp: settled_def allowed_iff)
next
  case (st_write j w s clk)
  then have "j \<noteq> i" by (force simp: settled_def)
  with st_write show ?case using set_remove1_subset [of "(j, w)" "sc_writes s"] by (fastforce simp: settled_def update_get)
next
  case (st_lease now t s st)
  from acquire_cases [OF st_lease(3)] st_lease show ?case by (auto simp: settled_def)
next
  case (st_answer now t s resp uuid)
  then have "tf_id t \<noteq> i" by (force simp: settled_def)
  with st_answer show ?case using set_remove1_subset [of "(now, t, Asked)" "sc_flight s"] by (auto simp: settled_def)
next
  case (st_update now t ok s clk rnd)
  then have "tf_id t \<noteq> i" by (force simp: settled_def)
  with st_update show ?case
    using set_remove1_subset [of "(now, t, Logged ok)" "sc_flight s"] by (auto simp: settled_def update_run_get)
next
  case (st_throw now t s) then show ?case
    using set_remove1_subset [of "(now, t, Asked)" "sc_flight s"] by (auto simp: settled_def)
next
  case (st_release now t s) then show ?case
    using set_remove1_subset [of "(now, t, Settled)" "sc_flight s"] by (auto simp: settled_def)
qed (auto simp: settled_def)

text \<open>
  Steps in which no pause is written over a transfer that was settled after the pause checked it. A
  paused transfer then has fewer failures than the limit.
\<close>

definition orderly_step :: "sched \<Rightarrow> sched \<Rightarrow> bool" where
  "orderly_step s s' \<longleftrightarrow> sched_step s s' \<and> (\<forall>i t t'. map_get (ts_transfers (sc_store s)) i = Some t
     \<and> map_get (ts_transfers (sc_store s')) i = Some t' \<and> tf_status t' = TPaused \<longrightarrow> tf_status t \<in> {TActive, TPaused})"

definition paused_ok :: "sched \<Rightarrow> bool" where
  "paused_ok s \<longleftrightarrow> (\<forall>i t. map_get (ts_transfers (sc_store s)) i = Some t \<and> tf_status t = TPaused \<longrightarrow>
     tf_consecutiveFailures t < MAX_CONSECUTIVE_FAILURES)"

lemma paused_origin: "sched_step s s' \<Longrightarrow> map_get (ts_transfers (sc_store s')) i = Some t' \<Longrightarrow> tf_status t' = TPaused \<Longrightarrow>
   \<exists>t. map_get (ts_transfers (sc_store s)) i = Some t \<and> tf_consecutiveFailures t = tf_consecutiveFailures t'"
proof (induction rule: sched_step.induct)
  case (st_create s uuid clk inp c) then show ?case by (auto simp: create_get new_transfer_def split: if_splits)
next
  case (st_write j w s clk) then show ?case by (auto simp: update_get split: if_splits)
next
  case (st_lease now t s st) then show ?case using acquire_cases [OF st_lease(3)] by auto
next
  case (st_update now t ok s clk rnd) then show ?case
    using run_patch_status [of rnd now t ok] by (auto simp: update_run_get split: if_splits)
qed auto

lemma paused_reachable: "orderly_step\<^sup>*\<^sup>* sched_start s \<Longrightarrow> sched_inv s \<and> paused_ok s"
proof (induction rule: rtranclp_induct)
  case base
  show ?case using inv_start by (simp add: paused_ok_def sched_start_def empty_transfers_def)
next
  case (step s s')
  have "tf_consecutiveFailures t' < MAX_CONSECUTIVE_FAILURES"
    if t': "map_get (ts_transfers (sc_store s')) i = Some t'" "tf_status t' = TPaused" for i t'
  proof -
    obtain t where t: "map_get (ts_transfers (sc_store s)) i = Some t" "tf_consecutiveFailures t = tf_consecutiveFailures t'"
      using paused_origin [of s s' i t'] t' step.hyps(2) unfolding orderly_step_def by blast
    then have "tf_status t \<in> {TActive, TPaused}" using step.hyps(2) t' by (auto simp: orderly_step_def)
    moreover have "transfer_ok (i, t)" using step.IH t(1) by (auto simp: sched_inv_def intro: ts_wf_transfer)
    ultimately have "tf_consecutiveFailures t < MAX_CONSECUTIVE_FAILURES"
      using step.IH t(1) unfolding paused_ok_def by (auto simp: transfer_ok_def)
    then show ?thesis by (simp add: t(2))
  qed
  then show ?case using step inv_step by (auto simp: paused_ok_def orderly_step_def)
qed

text \<open>The handlers as runs of the relation: a call that meets no other one is its check, then its write, in order.\<close>

lemma pause_orderly: "orderly_step\<^sup>*\<^sup>* s (s\<lparr>sc_store := snd (pauseTransferHandler clk i c (sc_store s))\<rparr>)"
proof (cases "pause_allowed i c (sc_store s)")
  case True
  let ?s = "s\<lparr>sc_writes := (i, TPaused) # sc_writes s\<rparr>"
  have "orderly_step s ?s" using st_pause [OF True] by (auto simp: orderly_step_def)
  moreover have "orderly_step ?s (s\<lparr>sc_store := snd (pauseTransferHandler clk i c (sc_store s))\<rparr>)"
    using st_write [of i TPaused ?s clk] True
    by (auto simp: orderly_step_def handler_effect update_get allowed_iff split: if_splits)
  ultimately show ?thesis by (meson converse_rtranclp_into_rtranclp r_into_rtranclp)
qed (simp add: handler_effect)

lemma cancel_orderly: "orderly_step\<^sup>*\<^sup>* s (s\<lparr>sc_store := snd (cancelTransferHandler clk i c (sc_store s))\<rparr>)"
proof (cases "cancel_allowed i c (sc_store s)")
  case True
  let ?s = "s\<lparr>sc_writes := (i, TCancelled) # sc_writes s\<rparr>"
  have "orderly_step s ?s" using st_cancel [OF True] by (auto simp: orderly_step_def)
  moreover have "orderly_step ?s (s\<lparr>sc_store := snd (cancelTransferHandler clk i c (sc_store s))\<rparr>)"
    using st_write [of i TCancelled ?s clk] True
    by (auto simp: orderly_step_def handler_effect update_get split: if_splits)
  ultimately show ?thesis by (meson converse_rtranclp_into_rtranclp r_into_rtranclp)
qed (simp add: handler_effect)

lemma orderly_run: "orderly_step\<^sup>*\<^sup>* s s' \<Longrightarrow> sched_step\<^sup>*\<^sup>* s s'"
  by (rule rtranclp_mono [THEN predicate2D]) (auto simp: orderly_step_def)

section \<open>One pass\<close>

definition pass_request :: "transfer_store \<Rightarrow> transfer \<Rightarrow> relay_request \<times> int option" where
  "pass_request st t = run_request t (length (ts_listExecutions (tf_id t) st))"

text \<open>
  The calls a pass makes, transfer by transfer, with the requests built from the store it started
  from: each transfer with the answer or throw of its call, and the relay's last state.
\<close>

fun pass_calls :: "'r relay_call \<Rightarrow> transfer_store \<Rightarrow> transfer list \<Rightarrow> 'r \<Rightarrow> (transfer \<times> (thrown + execute_response)) list \<times> 'r" where
  "pass_calls relay st [] r = ([], r)"
| "pass_calls relay st (t # ts) r =
     (case relay (fst (pass_request st t)) (snd (pass_request st t)) r of (a, r') \<Rightarrow>
       (case pass_calls relay st ts r' of (as, r'') \<Rightarrow> ((t, a) # as, r'')))"

text \<open>What is left of the store's state for a transfer the pass has yet to reach.\<close>

definition untouched :: "transfer_store \<Rightarrow> transfer_store \<Rightarrow> string \<Rightarrow> bool" where
  "untouched st st' i \<longleftrightarrow> map_get (ts_transfers st') i = map_get (ts_transfers st) i
     \<and> ts_listExecutions i st' = ts_listExecutions i st"

text \<open>What the pass should leave of a transfer it ran.\<close>

definition run_outcome :: "run_inputs \<Rightarrow> time \<Rightarrow> transfer_store \<Rightarrow> transfer_store \<Rightarrow> transfer \<Rightarrow> thrown + execute_response \<Rightarrow> bool" where
  "run_outcome inp now st st' t a = (case a of
       Inl _ \<Rightarrow> map_get (ts_transfers st') (tf_id t) = Some t
         \<and> ts_listExecutions (tf_id t) st' = ts_listExecutions (tf_id t) st
     | Inr resp \<Rightarrow> (case inp (tf_id t) of (uuid, rnd, clk) \<Rightarrow>
         map_get (ts_transfers st') (tf_id t) = Some (apply_run_patch (run_patch_of rnd now t (xr_success resp)) clk t)
         \<and> ts_listExecutions (tf_id t) st' = run_log uuid now t resp # ts_listExecutions (tf_id t) st))"

lemma release_logs [simp]: "ts_listExecutions j (ts_release i st) = ts_listExecutions j st"
  "ts_listExecutions j (st\<lparr>ts_processing := p\<rparr>) = ts_listExecutions j st"
  by (simp_all add: ts_listExecutions_def ts_release_def)

lemma finish_frame [simp]: "ts_processing (finish_transfer uuid rnd clk now t resp st) = ts_processing st"
  "ts_accountIndex (finish_transfer uuid rnd clk now t resp st) = ts_accountIndex st"
  by (simp_all add: finish_transfer_def ts_updateAfterExecution_def ts_appendExecution_def)

lemma finish_lease: "finish_transfer uuid rnd clk now t resp (st\<lparr>ts_processing := p\<rparr>)
   = (finish_transfer uuid rnd clk now t resp st)\<lparr>ts_processing := p\<rparr>"
  by (simp add: finish_transfer_def ts_updateAfterExecution_def ts_appendExecution_def ts_patch_def split: option.splits)

lemma lease_given_back: "i \<notin> set (ts_processing st) \<Longrightarrow>
   ts_release i (st\<lparr>ts_processing := set_add i (ts_processing st)\<rparr>) = st"
  by (cases st) (auto simp: ts_release_def set_add_def filter_id_conv)

lemma process_one_due:
  assumes "transfer_due now st t" "map_get (ts_transfers st) (tf_id t) = Some t"
    and call: "relay (fst (pass_request st t)) (snd (pass_request st t)) r = (a, r1)"
    and one: "process_one relay inp now t (n, r, st) = (n1, r', st1)"
  shows "n1 = n + (if is_ok a then 1 else 0)" "r' = r1" "run_outcome inp now st st1 t a"
    "ts_processing st1 = ts_processing st" "ts_accountIndex st1 = ts_accountIndex st"
    "\<And>j. j \<noteq> tf_id t \<Longrightarrow> untouched st st1 j"
proof -
  obtain uuid rnd clk where i: "inp (tf_id t) = (uuid, rnd, clk)" by (metis prod_cases3)
  have free: "tf_id t \<notin> set (ts_processing st)" and due: "isDue (tf_nextRunAt t) now"
    using assms(1) by (simp_all add: transfer_due_def isDue_def)
  let ?st = "st\<lparr>ts_processing := set_add (tf_id t) (ts_processing st)\<rparr>"
  have acq: "ts_tryAcquire (tf_id t) st = (True, ?st)"
    using assms(1,2) by (simp add: ts_tryAcquire_def transfer_due_def)
  have fin: "ts_release (tf_id t) (finish_transfer uuid rnd clk now t resp ?st) = finish_transfer uuid rnd clk now t resp st" for resp
    using lease_given_back [of "tf_id t" "finish_transfer uuid rnd clk now t resp st"] free by (simp add: finish_lease)
  obtain req sn where q: "pass_request st t = (req, sn)" by (cases "pass_request st t")
  then have q': "run_request t (length (ts_listExecutions (tf_id t) st)) = (req, sn)"
    by (simp add: pass_request_def)
  have res: "(n1, r', st1) = (case a of Inl e \<Rightarrow> (n, r1, st) | Inr resp \<Rightarrow> (n + 1, r1, finish_transfer uuid rnd clk now t resp st))"
    using one call unfolding process_one_def
    by (simp add: due acq q q' i fin lease_given_back [OF free] split: sum.splits)
  then show "n1 = n + (if is_ok a then 1 else 0)" "r' = r1"
    "ts_processing st1 = ts_processing st" "ts_accountIndex st1 = ts_accountIndex st"
    by (simp_all split: sum.splits)
  show "run_outcome inp now st st1 t a"
    using res assms(2) by (simp add: run_outcome_def i finish_get finish_logs split: sum.splits)
  show "untouched st st1 j" if "j \<noteq> tf_id t" for j
    using res that by (simp add: untouched_def finish_get finish_logs split: sum.splits)
qed

lemma untouched_due: "untouched st st' (tf_id t) \<Longrightarrow> ts_processing st' = ts_processing st \<Longrightarrow>
   transfer_due now st' t = transfer_due now st t"
  "untouched st st' (tf_id t) \<Longrightarrow> pass_request st' t = pass_request st t"
  by (simp_all add: untouched_def transfer_due_def pass_request_def)

lemma untouched_trans: "untouched a b i \<Longrightarrow> untouched b c i \<Longrightarrow> untouched a c i"
  by (simp add: untouched_def)

lemma outcome_before: "untouched st st1 (tf_id t) \<Longrightarrow> run_outcome inp now st1 st' t a = run_outcome inp now st st' t a"
  by (simp add: run_outcome_def untouched_def split: sum.splits prod.splits)

lemma outcome_after: "untouched st1 st' (tf_id t) \<Longrightarrow> run_outcome inp now st st1 t a \<Longrightarrow> run_outcome inp now st st' t a"
  by (simp add: run_outcome_def untouched_def split: sum.splits prod.splits)

lemma pass_calls_cong: "(\<And>t. t \<in> set ts \<Longrightarrow> pass_request st' t = pass_request st t) \<Longrightarrow>
   pass_calls relay st' ts r = pass_calls relay st ts r"
  by (induction ts arbitrary: r) (simp_all split: prod.splits)

lemma pass_calls_fst: "map fst (fst (pass_calls relay st ts r)) = ts"
  by (induction ts arbitrary: r) (simp_all split: prod.splits, metis fst_conv)

lemma pass_list:
  assumes "distinct (map tf_id ts)" "\<forall>t \<in> set ts. transfer_due now st t \<and> map_get (ts_transfers st) (tf_id t) = Some t"
    and "pass_calls relay st ts r = (as, r')" "fold (process_one relay inp now) ts (n, r, st) = (n', r'', st')"
  shows "n' = n + length (filter (is_ok \<circ> snd) as) \<and> r'' = r'
     \<and> ts_processing st' = ts_processing st \<and> ts_accountIndex st' = ts_accountIndex st
     \<and> (\<forall>(t, a) \<in> set as. run_outcome inp now st st' t a)
     \<and> (\<forall>i. i \<notin> tf_id ` set ts \<longrightarrow> untouched st st' i)"
  using assms
proof (induction ts arbitrary: n r st as)
  case Nil then show ?case by (simp add: untouched_def)
next
  case (Cons t ts)
  obtain a r1 where call: "relay (fst (pass_request st t)) (snd (pass_request st t)) r = (a, r1)"
    by fastforce
  obtain as1 where rest: "pass_calls relay st ts r1 = (as1, r')" "as = (t, a) # as1"
    using Cons.prems(3) by (auto simp: call split: prod.splits)
  obtain n1 r2 st1 where one: "process_one relay inp now t (n, r, st) = (n1, r2, st1)"
    by (metis prod_cases3)
  have t: "transfer_due now st t" "map_get (ts_transfers st) (tf_id t) = Some t" using Cons.prems(2) by simp_all
  note o = process_one_due [where relay = relay, OF t call one]
  have ut: "untouched st st1 (tf_id s)" if "s \<in> set ts" for s
    using that Cons.prems(1) by (intro o(6)) (auto simp: image_iff)
  have "\<forall>s \<in> set ts. transfer_due now st1 s \<and> map_get (ts_transfers st1) (tf_id s) = Some s"
    using Cons.prems(2) ut untouched_due(1) [OF ut o(4)] by (simp add: untouched_def)
  moreover have "pass_calls relay st1 ts r1 = (as1, r')"
    using pass_calls_cong [of ts st1 st relay r1, OF untouched_due(2) [OF ut]] rest(1) by (rule trans)
  moreover have "fold (process_one relay inp now) ts (n1, r1, st1) = (n', r'', st')"
    using Cons.prems(4) by (simp add: one o(2))
  ultimately have IH: "n' = n1 + length (filter (is_ok \<circ> snd) as1)" "r'' = r'"
      "ts_processing st' = ts_processing st1" "ts_accountIndex st' = ts_accountIndex st1"
      "\<And>s b. (s, b) \<in> set as1 \<Longrightarrow> run_outcome inp now st1 st' s b"
      "\<And>i. i \<notin> tf_id ` set ts \<Longrightarrow> untouched st1 st' i"
    using Cons.IH [of st1 r1 as1 n1] Cons.prems(1) by (auto simp: comp_def)
  have mem: "s \<in> set ts" if "(s, b) \<in> set as1" for s b
    using that pass_calls_fst [of relay st ts r1] rest(1) by (force simp: image_iff)
  have "run_outcome inp now st st' s b" if "(s, b) \<in> set as1" for s b
    using IH(5) [OF that] outcome_before [OF ut [OF mem [OF that]]] by simp
  moreover have "run_outcome inp now st st' t a"
    using outcome_after [OF IH(6) o(3)] Cons.prems(1) by (auto simp: image_iff)
  moreover have "untouched st st' i" if "i \<notin> tf_id ` set (t # ts)" for i
    using that o(6) [of i] IH(6) [of i] untouched_trans by auto
  ultimately show ?case using IH(1-4) o(1,4,5) rest(2) by (auto simp: comp_def)
qed

lemma due_list:
  assumes "ts_wf st"
  shows "distinct (map tf_id (ts_listDue now st))"
    and "\<forall>t \<in> set (ts_listDue now st). transfer_due now st t \<and> map_get (ts_transfers st) (tf_id t) = Some t"
proof -
  have wf: "map_wf (ts_transfers st)" using assms by (simp add: ts_wf_def)
  have ids: "tf_id t = i" if "(i, t) \<in> set (ts_transfers st)" for i t
    using that assms by (auto simp: ts_wf_def list_all_iff transfer_ok_def)
  have "map tf_id (map_values (ts_transfers st)) = map fst (ts_transfers st)"
    using ids by (auto simp: map_values_def)
  then show "distinct (map tf_id (ts_listDue now st))"
    using wf by (simp add: ts_listDue_def distinct_map_filter map_wf_def)
  show "\<forall>t \<in> set (ts_listDue now st). transfer_due now st t \<and> map_get (ts_transfers st) (tf_id t) = Some t"
    using wf ids by (auto simp: ts_listDue_def map_values_def map_get_in)
qed

section \<open>Properties\<close>

lemma colon_split: "CHR '':'' \<notin> set c \<Longrightarrow> CHR '':'' \<notin> set c' \<Longrightarrow> accountKey a c = accountKey a' c' \<Longrightarrow> c = c' \<and> a = a'"
proof (induction c arbitrary: c')
  case Nil then show ?case by (cases c') (auto simp: accountKey_def)
next
  case (Cons x c) then show ?case by (cases c') (auto simp: accountKey_def)
qed

lemma list_entries:
  assumes "ts_wf st" "t \<in> set (ts_listByAccount a c st)"
  shows "accountKey (tf_accountId t) (tf_callerId t) = accountKey a c \<and> map_get (ts_transfers st) (tf_id t) = Some t"
proof -
  obtain ids where ids: "map_get (ts_accountIndex st) (accountKey a c) = Some ids"
    using assms(2) by (cases "map_get (ts_accountIndex st) (accountKey a c)") (simp_all add: ts_listByAccount_def)
  then obtain i where "i \<in> set ids" "map_get (ts_transfers st) i = Some t"
    using assms(2) by (auto simp: ts_listByAccount_def List.map_filter_def)
  note g = ids this
  have "index_entry_ok st (accountKey a c, ids)" using g(1) assms(1) by (simp add: ts_wf_iff)
  moreover have "tf_id t = i" using ts_wf_transfer [OF assms(1) g(3)] by (simp add: transfer_ok_def)
  ultimately show ?thesis using g(2,3) by (fastforce simp: index_entry_ok_def list_all_iff)
qed

definition demo_payload :: relay_payload where
  "demo_payload = \<lparr>pl_sessionKey = replicate 64 (CHR ''a''), pl_operation = ''relay_execute'',
     pl_parameters = [(''accountAddress'', PStr ''C1'')], pl_signature = ''good'', pl_nonce = 7\<rparr>"

definition demo_input :: create_input where
  "demo_input = \<lparr>cr_accountAddress = ''C1'', cr_to = ''G1'', cr_amount = ''10'', cr_asset = ''XLM'', cr_frequency = Daily,
     cr_startAt = 1000, cr_endAt = None, cr_note = None, cr_relayPayload = demo_payload\<rparr>"

definition demo_tf :: transfer where
  "demo_tf = new_transfer ''t1'' 500 demo_input ''alice''"

definition demo_store :: transfer_store where
  "demo_store = snd (createTransferHandler ''t1'' 500 demo_input ''alice'' empty_transfers)"

definition ok_response :: execute_response where
  "ok_response = \<lparr>xr_success = True, xr_transactionId = Some ''TX'', xr_error = None, xr_gasUsed = 0\<rparr>"

definition demo_sched :: sched where
  "demo_sched = sched_start\<lparr>sc_store := demo_store\<rparr>"

lemma demo_get: "map_get (ts_transfers demo_store) i = (if i = ''t1'' then Some demo_tf else None)"
  by (simp add: demo_store_def create_get demo_tf_def empty_transfers_def)

lemma demo_tf_simps: "tf_id demo_tf = ''t1''" "tf_status demo_tf = TActive" "tf_callerId demo_tf = ''alice''"
  "tf_nextRunAt demo_tf = 1000" "tf_frequency demo_tf = Daily" "tf_endAt demo_tf = None"
  "tf_relayPayload demo_tf = demo_payload"
  by (simp_all add: demo_tf_def new_transfer_def demo_input_def)

lemma demo_transfers: "ts_transfers demo_store = [(''t1'', demo_tf)]"
  by (simp add: demo_store_def createTransferHandler_def ts_create_def Let_def demo_tf_def empty_transfers_def map_set_def)

lemma demo_processing: "ts_processing demo_store = []"
  by (simp add: demo_store_def create_get empty_transfers_def)

lemma demo_wf: "ts_wf demo_store"
proof -
  have "map_get (ts_transfers empty_transfers) ''t1'' = None" by (simp add: empty_transfers_def)
  from create_wf [OF ts_wf_empty this] show ?thesis
    by (simp add: demo_store_def createTransferHandler_def split_def)
qed

lemma cancel_live:
  assumes "map_get (ts_transfers st) i = Some t" "tf_callerId t = c" "tf_status t \<in> {TActive, TPaused}"
  shows "cancelTransferHandler clk i c st =
    (Reply 200 (t\<lparr>tf_status := TCancelled, tf_updatedAt := clk\<rparr>), snd (ts_updateStatus clk i TCancelled st))"
  using assms by (auto simp: cancelTransferHandler_def sv_cancel_def allowed_iff ts_updateStatus_def ts_patch_def)

lemma sched_demo_reach: "sched_step\<^sup>*\<^sup>* sched_start demo_sched"
  unfolding demo_sched_def demo_store_def
  using st_create [of sched_start "''t1''" 500 demo_input "''alice''"]
  by (simp add: sched_start_def empty_transfers_def r_into_rtranclp)

lemma demo_next: "computeNextRunAt 2000 Daily None = Some (2000 + msPerDay)"
  by (simp add: computeNextRunAt_def set_utc_date_shift)

text \<open>
  C35. What leases guarantee: in every reachable state, with the calls cut at their awaits, each
  transfer is in flight at most once, one that is in flight cannot be leased again and is not listed
  as due, and failure counts stay between zero and five, below five for a transfer that is still
  active, and for a paused one unless a pause was written over a run that had ended in between.
\<close>

theorem sched_reachable_safe:
  assumes "sched_step\<^sup>*\<^sup>* sched_start s"
  shows "distinct (flight_ids s)
    \<and> (\<forall>i \<in> set (flight_ids s). fst (ts_tryAcquire i (sc_store s)) = False
         \<and> (\<forall>now. i \<notin> tf_id ` set (ts_listDue now (sc_store s))))
    \<and> (\<forall>i t. ts_getById i (sc_store s) = Some t \<longrightarrow> 0 \<le> tf_consecutiveFailures t
         \<and> tf_consecutiveFailures t \<le> MAX_CONSECUTIVE_FAILURES
         \<and> (tf_status t = TActive \<or> tf_status t = TPaused \<and> orderly_step\<^sup>*\<^sup>* sched_start s \<longrightarrow>
              tf_consecutiveFailures t < MAX_CONSECUTIVE_FAILURES))"
proof -
  have inv: "sched_inv s" using assms by (rule inv_reachable)
  then have "fst (ts_tryAcquire i (sc_store s)) = False \<and> (\<forall>now. i \<notin> tf_id ` set (ts_listDue now (sc_store s)))"
    if "i \<in> set (flight_ids s)" for i
    using that by (auto simp: sched_inv_def ts_tryAcquire_def ts_listDue_def transfer_due_def)
  moreover have "transfer_ok (i, t)" if "ts_getById i (sc_store s) = Some t" for i t
    using that inv by (auto simp: sched_inv_def ts_getById_def intro: ts_wf_transfer)
  moreover have "tf_consecutiveFailures t < MAX_CONSECUTIVE_FAILURES"
    if "ts_getById i (sc_store s) = Some t" "tf_status t = TPaused" "orderly_step\<^sup>*\<^sup>* sched_start s" for i t
    using that paused_reachable [OF that(3)] by (auto simp: paused_ok_def ts_getById_def)
  ultimately show ?thesis using inv by (auto simp: sched_inv_def transfer_ok_def)
qed

theorem sched_reachable_safe_witness: "distinct (flight_ids demo_sched)"
  using sched_reachable_safe [OF sched_demo_reach] by blast

text \<open>
  C37. Final statuses: a transfer that is completed or failed, or cancelled while no run of it is in
  flight, keeps its status under every later interleaving, provided no pause or cancel of it stands
  between its status check and its write. Both provisos are needed: the theorems after this one have
  a pause overwrite a cancellation, and the answer of a run undo one.
\<close>

theorem final_status_stays:
  assumes "sched_step\<^sup>*\<^sup>* sched_start s" "sched_step\<^sup>*\<^sup>* s s'" "ts_getById i (sc_store s) = Some t"
    and "tf_status t \<in> {TCompleted, TFailed} \<or> (tf_status t = TCancelled \<and> \<not> ts_isProcessing i (sc_store s))"
    and "i \<notin> fst ` set (sc_writes s)"
  shows "\<exists>t'. ts_getById i (sc_store s') = Some t' \<and> tf_status t' = tf_status t"
proof -
  have inv: "sched_inv s" using assms(1) by (rule inv_reachable)
  have "p = Settled" if f: "(now, u, p) \<in> set (sc_flight s)" "tf_id u = i" for now u p
  proof (rule ccontr)
    assume "p \<noteq> Settled"
    moreover have "flight_ok (sc_store s) (now, u, p)" using f(1) inv by (auto simp: sched_inv_def list_all_iff)
    ultimately have "tf_status t \<in> {TActive, TPaused, TCancelled}"
      using f(2) assms(3) by (auto simp: flight_ok_def ts_getById_def)
    moreover have "ts_isProcessing i (sc_store s)"
      using flight_remove(3) [OF inv f(1)] f(2) by (simp add: ts_isProcessing_def)
    ultimately show False using assms(4) by auto
  qed
  then have start: "settled i (tf_status t) s" using assms(3,5) by (auto simp: settled_def ts_getById_def)
  have v: "tf_status t \<in> {TCancelled, TCompleted, TFailed}" using assms(4) by auto
  have "settled i (tf_status t) s'"
    using assms(2) by (induction rule: rtranclp_induct) (use start v settled_step in blast)+
  then show ?thesis by (simp add: settled_def ts_getById_def)
qed

theorem final_status_stays_witness:
  "\<exists>s t'. sched_step\<^sup>*\<^sup>* sched_start s \<and> ts_getById ''t1'' (sc_store s) = Some t' \<and> tf_status t' = TCancelled"
proof -
  let ?s = "demo_sched\<lparr>sc_store := snd (cancelTransferHandler 600 ''t1'' ''alice'' (sc_store demo_sched))\<rparr>"
  have r: "sched_step\<^sup>*\<^sup>* sched_start ?s"
    using sched_demo_reach orderly_run [OF cancel_orderly] by (rule rtranclp_trans)
  have "snd (cancelTransferHandler 600 ''t1'' ''alice'' demo_store) = snd (ts_updateStatus 600 ''t1'' TCancelled demo_store)"
    by (subst cancel_live [where t = demo_tf]) (simp_all add: demo_get demo_tf_simps)
  then have c: "ts_getById ''t1'' (sc_store ?s) = Some (demo_tf\<lparr>tf_status := TCancelled, tf_updatedAt := 600\<rparr>)
      \<and> \<not> ts_isProcessing ''t1'' (sc_store ?s)" "''t1'' \<notin> fst ` set (sc_writes ?s)"
    by (simp_all add: demo_sched_def sched_start_def ts_getById_def ts_isProcessing_def update_get demo_processing demo_get)
  from final_status_stays [OF r rtranclp.rtrancl_refl conjunct1 [OF c(1)] _ c(2)] c r show ?thesis by auto
qed

text \<open>
  A cancellation can be overwritten by a pause: from every reachable state with an active transfer
  there is a run in which its owner's pause and cancel both pass their status checks, the cancel is
  written and answered, and the pause then writes paused over it, with no run of the transfer involved.
\<close>

theorem cancel_overwritten_by_pause:
  assumes "sched_step\<^sup>*\<^sup>* sched_start s" "ts_getById i (sc_store s) = Some t" "tf_status t = TActive"
  shows "\<exists>s1 s2. sched_step\<^sup>*\<^sup>* s s1 \<and> sched_step s1 s2
    \<and> ts_getById i (sc_store s1) = Some (t\<lparr>tf_status := TCancelled, tf_updatedAt := clk\<rparr>)
    \<and> ts_getById i (sc_store s2) = Some (t\<lparr>tf_status := TPaused, tf_updatedAt := clk'\<rparr>)
    \<and> sc_flight s2 = sc_flight s"
proof -
  let ?a = "s\<lparr>sc_writes := (i, TPaused) # sc_writes s\<rparr>"
  let ?b = "?a\<lparr>sc_writes := (i, TCancelled) # sc_writes ?a\<rparr>"
  let ?s1 = "?b\<lparr>sc_store := snd (ts_updateStatus clk i TCancelled (sc_store ?b)), sc_writes := remove1 (i, TCancelled) (sc_writes ?b)\<rparr>"
  let ?s2 = "?s1\<lparr>sc_store := snd (ts_updateStatus clk' i TPaused (sc_store ?s1)), sc_writes := remove1 (i, TPaused) (sc_writes ?s1)\<rparr>"
  have "pause_allowed i (tf_callerId t) (sc_store s)" "cancel_allowed i (tf_callerId t) (sc_store s)"
    using assms(2,3) by (simp_all add: allowed_iff ts_getById_def)
  then have "sched_step s ?a" "sched_step ?a ?b"
    using st_pause [of i "tf_callerId t" s] st_cancel [of i "tf_callerId t" ?a] by simp_all
  moreover have "sched_step ?b ?s1" "sched_step ?s1 ?s2" by (rule st_write, simp)+
  ultimately have "sched_step\<^sup>*\<^sup>* s ?s1" "sched_step ?s1 ?s2"
    by (meson converse_rtranclp_into_rtranclp r_into_rtranclp)+
  then show ?thesis
    using assms(2) by (intro exI [of _ ?s1] exI [of _ ?s2]) (simp add: ts_getById_def update_get)
qed

theorem cancel_overwritten_by_pause_witness:
  "\<exists>s2. sched_step\<^sup>*\<^sup>* sched_start s2 \<and> ts_getById ''t1'' (sc_store s2) = Some (demo_tf\<lparr>tf_status := TPaused, tf_updatedAt := 601\<rparr>)"
proof -
  have "ts_getById ''t1'' (sc_store demo_sched) = Some demo_tf" by (simp add: ts_getById_def demo_sched_def demo_get)
  from cancel_overwritten_by_pause [OF sched_demo_reach this demo_tf_simps(2), of 600 601]
  show ?thesis using sched_demo_reach by (meson rtranclp.rtrancl_into_rtrancl rtranclp_trans)
qed

text \<open>
  A cancellation can be undone: when the owner cancels a recurring transfer while a run of it is
  waiting for the relay, the handler answers 200 with status cancelled, and the answer of the run then
  writes the status back to active with a next run time, so the transfer goes on.
\<close>

theorem cancel_undone_by_run:
  assumes "map_get (ts_transfers st) (tf_id t) = Some t" "tf_status t = TActive" "xr_success resp"
    and "computeNextRunAt now (tf_frequency t) (tf_endAt t) = Some n"
  shows "fst (cancelTransferHandler clk (tf_id t) (tf_callerId t) st) = Reply 200 (t\<lparr>tf_status := TCancelled, tf_updatedAt := clk\<rparr>)
    \<and> (\<exists>u. ts_getById (tf_id t) (finish_transfer uuid rnd clk' now t resp
             (snd (cancelTransferHandler clk (tf_id t) (tf_callerId t) st))) = Some u
         \<and> tf_status u = TActive \<and> tf_nextRunAt u = n)"
proof -
  have "cancelTransferHandler clk (tf_id t) (tf_callerId t) st =
      (Reply 200 (t\<lparr>tf_status := TCancelled, tf_updatedAt := clk\<rparr>), snd (ts_updateStatus clk (tf_id t) TCancelled st))"
    using assms(1,2) by (intro cancel_live) simp_all
  with assms show ?thesis
    by (simp add: ts_getById_def finish_get update_get run_patch_simps)
qed

theorem cancel_undone_by_run_witness:
  "\<exists>u. ts_getById ''t1'' (finish_transfer ''e1'' 0 2600 2000 demo_tf ok_response
             (snd (cancelTransferHandler 2500 ''t1'' ''alice'' demo_store))) = Some u
         \<and> tf_status u = TActive \<and> tf_nextRunAt u = 2000 + msPerDay"
  using cancel_undone_by_run [of demo_store demo_tf ok_response 2000 "2000 + msPerDay" 2500 "''e1''" 0 2600]
  by (simp add: demo_get demo_tf_simps demo_next ok_response_def)

text \<open>
  C39. One pass with no request of the API between its awaits, over a relay with any state of its own
  that may answer or throw: the relay is called exactly once per due transfer, in the store's order,
  each time with the request (and the approved nonce) built from the store as the pass found it, and
  ends in the state those calls lead to; the count returned is the number of answers. An answered
  transfer gains exactly the log entry and the update of its run; one whose call throws keeps its data
  and its log and does not stop the rest; every other transfer keeps both. The leases are those the
  pass found, so each one taken is released, after a throw as well, and the account index is unchanged.
\<close>

theorem pass_sends_each_due_once:
  assumes "ts_wf st" "pass_calls relay st (ts_listDue now st) r = (as, r')"
    and "processDueTransfers relay inp now r st = (n, r'', st')"
  shows "map fst as = ts_listDue now st \<and> r'' = r' \<and> n = length (filter (is_ok \<circ> snd) as)
     \<and> (\<forall>(t, a) \<in> set as. run_outcome inp now st st' t a)
     \<and> (\<forall>i. i \<notin> tf_id ` set (ts_listDue now st) \<longrightarrow> untouched st st' i)
     \<and> ts_processing st' = ts_processing st \<and> ts_accountIndex st' = ts_accountIndex st"
  using pass_list [OF due_list(1) [OF assms(1), of now] due_list(2) [OF assms(1), of now] assms(2), of inp 0 n r'' st']
    pass_calls_fst [of relay st "ts_listDue now st" r] assms(2,3)
  by (simp add: processDueTransfers_def)

text \<open>A relay that counts its calls and throws: the transfer stays as it was, and its lease is free again.\<close>

theorem pass_sends_each_due_once_witness:
  "case processDueTransfers (\<lambda>req sn k. (Inl (JsError ''Error'' ''down'' None), k + 1)) (\<lambda>i. (''e1'', 0, 2600)) 2000 (0::nat) demo_store of (n, k, st') \<Rightarrow>
     n = 0 \<and> k = 1 \<and> map_get (ts_transfers st') ''t1'' = Some demo_tf \<and> ts_processing st' = []"
proof -
  have due: "ts_listDue 2000 demo_store = [demo_tf]"
    by (simp add: ts_listDue_def transfer_due_def demo_processing demo_transfers map_values_def demo_tf_simps)
  let ?relay = "\<lambda>req sn k. (Inl (JsError ''Error'' ''down'' None), k + 1) :: (thrown + execute_response) \<times> nat"
  have calls: "pass_calls ?relay demo_store (ts_listDue 2000 demo_store) 0 = ([(demo_tf, Inl (JsError ''Error'' ''down'' None))], 1)"
    by (simp add: due)
  obtain n k st' where p: "processDueTransfers ?relay (\<lambda>i. (''e1'', 0, 2600)) 2000 0 demo_store = (n, k, st')"
    by (metis prod_cases3)
  from pass_sends_each_due_once [OF demo_wf calls p] have "n = 0 \<and> k = 1
      \<and> map_get (ts_transfers st') ''t1'' = Some demo_tf \<and> ts_processing st' = []"
    by (simp add: run_outcome_def demo_tf_simps demo_processing)
  then show ?thesis unfolding p by simp
qed

text \<open>A run that meets no other call goes through its phases to the end.\<close>

lemma run_to_end:
  fixes resp :: execute_response
  assumes "(now, t) \<in> set (sc_listed s)" "isDue (tf_nextRunAt t) now" "ts_tryAcquire (tf_id t) (sc_store s) = (True, st)"
  shows "sched_step\<^sup>*\<^sup>* s (s\<lparr>sc_store := ts_release (tf_id t) (finish_transfer uuid rnd clk now t resp st),
    sc_listed := remove1 (now, t) (sc_listed s)\<rparr>)"
proof -
  let ?a = "s\<lparr>sc_store := st, sc_listed := remove1 (now, t) (sc_listed s), sc_flight := (now, t, Asked) # sc_flight s\<rparr>"
  let ?b = "?a\<lparr>sc_store := ts_appendExecution (run_log uuid now t resp) st, sc_flight := (now, t, Logged (xr_success resp)) # sc_flight s\<rparr>"
  let ?c = "?b\<lparr>sc_store := finish_transfer uuid rnd clk now t resp st, sc_flight := (now, t, Settled) # sc_flight s\<rparr>"
  have "sched_step s ?a" by (rule st_lease [OF assms])
  moreover have "sched_step ?a ?b" using st_answer [of now t ?a resp uuid] by simp
  moreover have "sched_step ?b ?c" using st_update [of now t "xr_success resp" ?b clk rnd] by (simp add: finish_transfer_def)
  moreover have "sched_step ?c (s\<lparr>sc_store := ts_release (tf_id t) (finish_transfer uuid rnd clk now t resp st),
      sc_listed := remove1 (now, t) (sc_listed s)\<rparr>)"
    using st_release [of now t ?c] by (cases s) simp
  ultimately show ?thesis by (meson converse_rtranclp_into_rtranclp r_into_rtranclp)
qed

lemma throw_to_end:
  assumes "(now, t) \<in> set (sc_listed s)" "isDue (tf_nextRunAt t) now" "ts_tryAcquire (tf_id t) (sc_store s) = (True, st)"
  shows "sched_step\<^sup>*\<^sup>* s (s\<lparr>sc_store := ts_release (tf_id t) st, sc_listed := remove1 (now, t) (sc_listed s)\<rparr>)"
proof -
  let ?a = "s\<lparr>sc_store := st, sc_listed := remove1 (now, t) (sc_listed s), sc_flight := (now, t, Asked) # sc_flight s\<rparr>"
  let ?b = "?a\<lparr>sc_flight := (now, t, Settled) # sc_flight s\<rparr>"
  have "sched_step s ?a" by (rule st_lease [OF assms])
  moreover have "sched_step ?a ?b" using st_throw [of now t ?a] by simp
  moreover have "sched_step ?b (s\<lparr>sc_store := ts_release (tf_id t) st, sc_listed := remove1 (now, t) (sc_listed s)\<rparr>)"
    using st_release [of now t ?b] by (cases s) simp
  ultimately show ?thesis by (meson converse_rtranclp_into_rtranclp r_into_rtranclp)
qed

text \<open>The pass of \<open>processDueTransfers\<close> is one of the runs of the relation.\<close>

lemma process_one_run:
  assumes "(now, t) \<in> set (sc_listed s)" "process_one relay inp now t (n, r, sc_store s) = (n', r', st')"
  shows "sched_step\<^sup>*\<^sup>* s (s\<lparr>sc_store := st', sc_listed := remove1 (now, t) (sc_listed s)\<rparr>)"
proof (cases "isDue (tf_nextRunAt t) now \<and> fst (ts_tryAcquire (tf_id t) (sc_store s))")
  case False
  then have "st' = sc_store s" using assms(2) by (auto simp: process_one_def split: if_splits prod.splits bool.splits)
  moreover have "sched_step s (s\<lparr>sc_listed := remove1 (now, t) (sc_listed s)\<rparr>)"
    using False by (intro st_skip assms(1)) auto
  ultimately show ?thesis by (cases s) auto
next
  case True
  then obtain st where st: "isDue (tf_nextRunAt t) now" "ts_tryAcquire (tf_id t) (sc_store s) = (True, st)"
    by (metis prod.collapse)
  then have "st' = ts_release (tf_id t) st
      \<or> (\<exists>uuid rnd clk resp. st' = ts_release (tf_id t) (finish_transfer uuid rnd clk now t resp st))"
    using assms(2) by (auto simp: process_one_def split: prod.splits sum.splits)
  then show ?thesis using throw_to_end [OF assms(1) st] run_to_end [OF assms(1) st] by blast
qed

lemma pass_run:
  assumes "sc_listed s = []" "processDueTransfers relay inp now r (sc_store s) = (n, r', st')"
  shows "sched_step\<^sup>*\<^sup>* s (s\<lparr>sc_store := st'\<rparr>)"
proof -
  have "sched_step\<^sup>*\<^sup>* u (u\<lparr>sc_store := st', sc_listed := []\<rparr>)"
    if "sc_listed u = map (Pair now) ts" "fold (process_one relay inp now) ts (m, r, sc_store u) = (n, r', st')" for u ts m r
    using that
  proof (induction ts arbitrary: u m r)
    case Nil then show ?case by (cases u) auto
  next
    case (Cons t ts)
    obtain m1 r1 st1 where one: "process_one relay inp now t (m, r, sc_store u) = (m1, r1, st1)" by (metis prod_cases3)
    let ?u = "u\<lparr>sc_store := st1, sc_listed := remove1 (now, t) (sc_listed u)\<rparr>"
    have "sched_step\<^sup>*\<^sup>* u ?u" using Cons.prems(1) by (intro process_one_run [OF _ one]) simp
    moreover have "sched_step\<^sup>*\<^sup>* ?u (?u\<lparr>sc_store := st', sc_listed := []\<rparr>)"
      using Cons.prems one by (intro Cons.IH [where m = m1 and r = r1]) simp_all
    ultimately show ?case by (cases u) (auto intro: rtranclp_trans)
  qed
  from this [of "s\<lparr>sc_listed := sc_listed s @ map (Pair now) (ts_listDue now (sc_store s))\<rparr>"] assms
  have "sched_step\<^sup>*\<^sup>* (s\<lparr>sc_listed := sc_listed s @ map (Pair now) (ts_listDue now (sc_store s))\<rparr>) (s\<lparr>sc_store := st'\<rparr>)"
    by (cases s) (simp add: processDueTransfers_def)
  with st_pass [of s now] show ?thesis by (rule converse_rtranclp_into_rtranclp)
qed

text \<open>A snapshot that is due runs whenever the stored transfer is active and free, however old it is.\<close>

lemma run_from_snapshot:
  fixes resp :: execute_response
  assumes "(now, t) \<in> set (sc_listed s1)" "map_get (ts_transfers (sc_store s1)) (tf_id t) = Some u" "tf_status u = TActive"
    and "tf_id t \<notin> set (ts_processing (sc_store s1))" "isDue (tf_nextRunAt t) now" "xr_success resp"
    and "computeNextRunAt now (tf_frequency t) (tf_endAt t) = Some n"
  shows "\<exists>s2 l. sched_step\<^sup>*\<^sup>* s1 s2
      \<and> ts_listExecutions (tf_id t) (sc_store s2) = l # ts_listExecutions (tf_id t) (sc_store s1) \<and> lg_success l \<and> lg_executedAt l = now
      \<and> sc_listed s2 = remove1 (now, t) (sc_listed s1) \<and> tf_id t \<notin> set (ts_processing (sc_store s2))
      \<and> (\<exists>u. map_get (ts_transfers (sc_store s2)) (tf_id t) = Some u \<and> tf_status u = TActive)"
proof -
  define st where "st = (sc_store s1)\<lparr>ts_processing := set_add (tf_id t) (ts_processing (sc_store s1))\<rparr>"
  define b where "b = s1\<lparr>sc_store := ts_release (tf_id t) (finish_transfer [] 0 0 now t resp st),
        sc_listed := remove1 (now, t) (sc_listed s1)\<rparr>"
  have "ts_tryAcquire (tf_id t) (sc_store s1) = (True, st)" using assms(2-4) by (simp add: ts_tryAcquire_def st_def)
  then have r: "sched_step\<^sup>*\<^sup>* s1 b" unfolding b_def by (rule run_to_end [OF assms(1,5)])
  have logs: "ts_listExecutions (tf_id t) (sc_store b) = run_log [] now t resp # ts_listExecutions (tf_id t) (sc_store s1)"
    by (simp add: b_def st_def finish_logs)
  have u: "\<exists>u. map_get (ts_transfers (sc_store b)) (tf_id t) = Some u \<and> tf_status u = TActive"
    using assms(2,6,7) by (simp add: b_def st_def finish_get run_patch_simps)
  have "sc_listed b = remove1 (now, t) (sc_listed s1)" "tf_id t \<notin> set (ts_processing (sc_store b))"
    "lg_success (run_log [] now t resp)" "lg_executedAt (run_log [] now t resp) = now"
    using assms(6) by (simp_all add: b_def run_log_def)
  with r logs u show ?thesis by blast
qed

text \<open>
  Two passes that overlap pay twice: when both have listed a due transfer, the second one runs its
  stale snapshot after the first has finished, since taking the lease looks at the status only. From
  every reachable state with a due transfer there is a run in which one occurrence is executed twice,
  with two consecutive nonces.
\<close>

theorem overlapping_passes_pay_twice:
  fixes resp :: execute_response
  assumes "sched_step\<^sup>*\<^sup>* sched_start s" "t \<in> set (ts_listDue now (sc_store s))" "xr_success resp"
    and "computeNextRunAt now (tf_frequency t) (tf_endAt t) = Some n"
  shows "\<exists>s' l1 l2. sched_step\<^sup>*\<^sup>* s s'
    \<and> ts_listExecutions (tf_id t) (sc_store s') = l2 # l1 # ts_listExecutions (tf_id t) (sc_store s)
    \<and> lg_success l1 \<and> lg_success l2 \<and> lg_executedAt l1 = now \<and> lg_executedAt l2 = now"
proof -
  have inv: "sched_inv s" using assms(1) by (rule inv_reachable)
  then have due: "transfer_due now (sc_store s) t" and get: "map_get (ts_transfers (sc_store s)) (tf_id t) = Some t"
    using due_list(2) assms(2) by (auto simp: sched_inv_def)
  have d: "isDue (tf_nextRunAt t) now" using due by (simp add: transfer_due_def isDue_def)
  let ?snap = "map (Pair now) (ts_listDue now (sc_store s))"
  define a where "a = s\<lparr>sc_listed := sc_listed s @ ?snap @ ?snap\<rparr>"
  have ra: "sched_step\<^sup>*\<^sup>* s a"
    using st_pass [of s now] st_pass [of "s\<lparr>sc_listed := sc_listed s @ ?snap\<rparr>" now]
    by (simp add: a_def converse_rtranclp_into_rtranclp r_into_rtranclp)
  note run = run_from_snapshot [OF _ _ _ _ d assms(3,4)]
  have "(now, t) \<in> set ?snap" using assms(2) by simp
  then have mem: "(now, t) \<in> set (sc_listed a)" "(now, t) \<in> set (remove1 (now, t) (sc_listed a))"
    by (auto simp: a_def remove1_append)
  have "map_get (ts_transfers (sc_store a)) (tf_id t) = Some t" "tf_status t = TActive"
    "tf_id t \<notin> set (ts_processing (sc_store a))" using get due by (simp_all add: a_def transfer_due_def)
  from run [OF mem(1) this] obtain b l1 u where b: "sched_step\<^sup>*\<^sup>* a b"
      "ts_listExecutions (tf_id t) (sc_store b) = l1 # ts_listExecutions (tf_id t) (sc_store a)" "lg_success l1" "lg_executedAt l1 = now"
      "(now, t) \<in> set (sc_listed b)" "tf_id t \<notin> set (ts_processing (sc_store b))"
      "map_get (ts_transfers (sc_store b)) (tf_id t) = Some u" "tf_status u = TActive"
    using mem(2) by metis
  from run [OF b(5,7,8,6)] obtain c l2 where "sched_step\<^sup>*\<^sup>* b c"
      "ts_listExecutions (tf_id t) (sc_store c) = l2 # ts_listExecutions (tf_id t) (sc_store b)" "lg_success l2" "lg_executedAt l2 = now"
    by metis
  with ra b have "sched_step\<^sup>*\<^sup>* s c
    \<and> ts_listExecutions (tf_id t) (sc_store c) = l2 # l1 # ts_listExecutions (tf_id t) (sc_store s)
    \<and> lg_success l1 \<and> lg_success l2 \<and> lg_executedAt l1 = now \<and> lg_executedAt l2 = now"
    by (auto simp: a_def intro: rtranclp_trans)
  then show ?thesis by blast
qed

theorem overlapping_passes_pay_twice_witness:
  "\<exists>s'. sched_step\<^sup>*\<^sup>* demo_sched s' \<and> length (ts_listExecutions ''t1'' (sc_store s')) \<ge> 2"
proof -
  have "(''t1'', demo_tf) \<in> set (ts_transfers demo_store)"
    using demo_wf demo_get [of "''t1''"] by (simp add: map_get_in ts_wf_def)
  then have "demo_tf \<in> set (ts_listDue 2000 (sc_store demo_sched))"
    by (force simp: ts_listDue_def map_values_def demo_sched_def transfer_due_def demo_tf_simps demo_processing)
  from overlapping_passes_pay_twice [OF sched_demo_reach this, of ok_response "2000 + msPerDay"]
  obtain s' l1 l2 where "sched_step\<^sup>*\<^sup>* demo_sched s'"
      "ts_listExecutions ''t1'' (sc_store s') = l2 # l1 # ts_listExecutions ''t1'' (sc_store demo_sched)"
    by (auto simp: ok_response_def demo_tf_simps demo_next)
  then show ?thesis by (intro exI [of _ s']) simp
qed

text \<open>What the relay sees of run \<open>k\<close>.\<close>

lemma run_request_fields: "rq_sessionKey (fst (run_request t k)) = pl_sessionKey (tf_relayPayload t)"
  "rq_operation (fst (run_request t k)) = pl_operation (tf_relayPayload t)"
  "rq_parameters (fst (run_request t k)) = pl_parameters (tf_relayPayload t)"
  "rq_signature (fst (run_request t k)) = pl_signature (tf_relayPayload t)"
  "rq_nonce (fst (run_request t k)) = pl_nonce (tf_relayPayload t) + int k"
  "rq_transferPolicy (fst (run_request t k)) = None"
  "coalesce (snd (run_request t k)) (rq_nonce (fst (run_request t k))) = pl_nonce (tf_relayPayload t)"
  by (simp_all add: run_request_def Let_def)

lemma run_authentic: "request_authentic env (snd (run_request t k)) (fst (run_request t k)) =
   request_authentic env None (fst (run_request t 0))"
  using run_request_fields(7) [of t k] run_request_fields(5) [of t 0]
  by (simp add: request_authentic_def run_request_fields canonicalPayload_def request_input_def)

text \<open>
  One approval covers every run: when the relay would accept the first run of a transfer, it
  accepts run k exactly if the nonce approved + k has not been used within the time-to-live; the
  signature that is checked is the one made over the approved nonce.
\<close>

theorem approval_covers_every_run:
  assumes "nonce_wf s0" "vr_valid (fst (validateRelay env t0 None (fst (run_request t 0)) (Some s0)))" "nonce_wf s"
  shows "vr_valid (fst (validateRelay env now (snd (run_request t k)) (fst (run_request t k)) (Some s)))
    \<longleftrightarrow> \<not> nonce_live s now (pl_sessionKey (tf_relayPayload t)) (pl_nonce (tf_relayPayload t) + int k)"
  using assms by (simp add: validateRelay_valid store_ok_def replayed_def run_request_fields policy_passes_def run_authentic)

lemma demo_run_valid: "vr_valid (fst (validateRelay (demo_env False) 10 None (fst (run_request demo_tf 0)) (Some [])))"
  using demo_key by (simp add: validateRelay_valid store_ok_def replayed_def run_request_fields demo_tf_simps demo_payload_def
      policy_passes_def nonce_wf_def nonce_live_def nonce_expiry_def validateSessionKey_def request_authentic_def
      demo_env_def demo_request_def map_get_def)

theorem approval_covers_every_run_witness:
  "vr_valid (fst (validateRelay (demo_env False) 90 (snd (run_request demo_tf 3)) (fst (run_request demo_tf 3)) (Some [])))"
  using approval_covers_every_run [OF _ demo_run_valid, of "[]" 90 3]
  by (simp add: nonce_wf_def nonce_live_def nonce_expiry_def)

text \<open>
  The Postgres store reads at most fifty log rows, so from the fifty-first run on the nonce no
  longer moves: after a run that passed validation, whatever its outcome, the next run within the
  time-to-live (a retry comes after at most a minute) is refused as a replay and never submitted.
\<close>

theorem fifty_runs_exhaust_nonces:
  assumes "50 \<le> length logs" "nonce_wf s" "t0 \<le> t1" "t1 \<le> t'" "t' \<le> t2 + ttl"
    and run: "run_request t (length (pg_listExecutions logs)) = (req, sn)"
    and "vr_valid (fst (validateRelay env t0 sn req (Some s)))"
    and retry: "run_request t (length (pg_listExecutions (lg # logs))) = (req', sn')"
  shows "rq_nonce req' = rq_nonce req
    \<and> fst (executeRelay env ttl t' u1 u2 rnd' sn' req' (snd (executeRelay env ttl t0 t1 t2 rnd sn req (Some s))))
      = failed_with NONCE_REPLAY ''Nonce already used''"
proof -
  have "length (pg_listExecutions logs) = 50" "length (pg_listExecutions (lg # logs)) = 50"
    using assms(1) by (simp_all add: pg_listExecutions_def)
  then have eq: "req' = req" using run retry by simp
  have ok: "store_ok (Some s)" using assms(2) by (simp add: store_ok_def)
  let ?ns = "snd (executeRelay env ttl t0 t1 t2 rnd sn req (Some s))"
  have ok': "store_ok ?ns" by (rule executeRelay_store_ok [OF ok])
  have f: "validateSessionKey (rq_sessionKey req) = None" "0 \<le> rq_nonce req"
    using assms(7) by (simp_all add: validateRelay_valid [OF ok])
  have "replayed ?ns t' req"
    using assms(3-5,7) f replayed_track [OF store_ok_evict [OF ok]]
    by (simp add: executeRelay_cases [OF ok] validateRelay_store [OF ok])
  then have "fst (validateRelay env t' sn' req ?ns) = invalid_with NONCE_REPLAY ''Nonce already used''"
    by (intro validateRelay_replayed [OF ok'] f)
  then show ?thesis by (simp add: executeRelay_cases [OF ok'] failed_with_def eq)
qed

definition demo_logs :: "nat \<Rightarrow> execution_log list" where
  "demo_logs n = replicate n \<lparr>lg_id = ''e'', lg_transferId = ''t1'', lg_executedAt = 0, lg_success = True,
     lg_transactionId = None, lg_error = None\<rparr>"

theorem fifty_runs_exhaust_nonces_witness:
  "fst (executeRelay (demo_env False) 300000 60000 61 62 [] (snd (run_request demo_tf 50)) (fst (run_request demo_tf 50))
     (snd (executeRelay (demo_env False) 300000 10 20 30 [] (snd (run_request demo_tf 50)) (fst (run_request demo_tf 50)) (Some []))))
      = failed_with NONCE_REPLAY ''Nonce already used''"
proof -
  have v: "vr_valid (fst (validateRelay (demo_env False) 10 (snd (run_request demo_tf 50)) (fst (run_request demo_tf 50)) (Some [])))"
    using demo_run_valid by (simp add: validateRelay_valid store_ok_def nonce_wf_def replayed_def nonce_live_def nonce_expiry_def
        run_request_fields run_authentic demo_tf_simps demo_payload_def)
  have "length (pg_listExecutions (demo_logs 60)) = 50" "length (pg_listExecutions (hd (demo_logs 1) # demo_logs 60)) = 50"
    by (simp_all add: pg_listExecutions_def demo_logs_def)
  then show ?thesis
    using fifty_runs_exhaust_nonces [of "demo_logs 60" "[]" 10 20 60000 30 300000 demo_tf _ _ "demo_env False" "hd (demo_logs 1)"
        "fst (run_request demo_tf 50)" "snd (run_request demo_tf 50)" 61 62 "[]" "[]", OF _ _ _ _ _ _ v]
    by (simp add: demo_logs_def nonce_wf_def)
qed

text \<open>
  Callers are separated: a caller reads only transfers of its own through the get handler, and,
  when no caller id contains a colon, only its own transfers of the asked account through the list
  handler; a pause or cancel by a caller leaves every transfer of another caller as it is.
\<close>

theorem callers_are_separated:
  assumes "ts_wf st" "\<forall>(i, t) \<in> set (ts_transfers st). CHR '':'' \<notin> set (tf_callerId t)" "CHR '':'' \<notin> set c"
  shows "(\<forall>i t. getTransferHandler i c st = Reply 200 t \<longrightarrow> tf_callerId t = c)
    \<and> (\<forall>a ts. listTransfersHandler (Some a) c st = Reply 200 ts \<longrightarrow>
         (\<forall>t \<in> set ts. tf_callerId t = c \<and> tf_accountId t = a))
    \<and> (\<forall>i j t clk. ts_getById j st = Some t \<and> tf_callerId t \<noteq> c \<longrightarrow>
         ts_getById j (snd (pauseTransferHandler clk i c st)) = Some t
         \<and> ts_getById j (snd (cancelTransferHandler clk i c st)) = Some t)"
proof -
  have "tf_callerId t = c \<and> tf_accountId t = a" if "t \<in> set (ts_listByAccount a c st)" for t a
  proof -
    note e = list_entries [OF assms(1) that]
    then have "(tf_id t, t) \<in> set (ts_transfers st)" using assms(1) by (simp add: map_get_in ts_wf_def)
    then have "CHR '':'' \<notin> set (tf_callerId t)" using assms(2) by auto
    with e colon_split [OF _ assms(3)] show ?thesis by blast
  qed
  moreover have "ts_getById j (snd (pauseTransferHandler clk i c st)) = Some t
       \<and> ts_getById j (snd (cancelTransferHandler clk i c st)) = Some t"
    if "ts_getById j st = Some t" "tf_callerId t \<noteq> c" for i j t clk
  proof -
    have "pause_allowed i c st \<Longrightarrow> j \<noteq> i" "cancel_allowed i c st \<Longrightarrow> j \<noteq> i"
      using that by (auto simp: allowed_iff ts_getById_def)
    with that(1) show ?thesis by (simp add: ts_getById_def handler_effect update_get)
  qed
  ultimately show ?thesis
    by (auto simp: getTransferHandler_def listTransfersHandler_def ts_getByIdForCaller_def split: option.splits if_splits)
qed

theorem callers_are_separated_witness:
  "ts_getById ''t1'' (snd (cancelTransferHandler 9 ''t1'' ''bob'' demo_store)) = Some demo_tf"
proof -
  have "\<forall>(i, t) \<in> set (ts_transfers demo_store). CHR '':'' \<notin> set (tf_callerId t)"
  proof (clarify)
    fix i t assume "(i, t) \<in> set (ts_transfers demo_store)" "CHR '':'' \<in> set (tf_callerId t)"
    moreover from this have "map_get (ts_transfers demo_store) i = Some t" using demo_wf by (simp add: map_get_in ts_wf_def)
    ultimately show False by (simp add: demo_get demo_tf_simps split: if_splits)
  qed
  from callers_are_separated [OF demo_wf this, of "''bob''"] show ?thesis
    by (simp add: ts_getById_def demo_get demo_tf_simps)
qed

end
