(* ===== verification/Middleware.thy ===== *)
theory Middleware
  imports RelayService Idempotency
begin

text \<open>
  The guards in front of the relay routes: \<open>services/relayer/src/middleware\<close> (payload size, request
  id, content type, bearer token, the rate limiters), \<open>services/bearerAuthService.ts\<close>,
  \<open>validation/middleware.ts\<close>, and the schema and route order of \<open>server.ts\<close>. The counters belong to
  the package express-rate-limit; they are a parameter that counts a hit under a limiter and a key.
  A header has one string value; header names are lower case.
\<close>

section \<open>Requests\<close>

datatype json = JNull | JBool bool | JNum number | JStr string | JArr "json list" | JObj "(string, json) jsmap"

text \<open>A property read \<open>o?.[k]\<close> of a parsed body: only objects have the names that are read here.\<close>

definition json_prop :: "json \<Rightarrow> string \<Rightarrow> json option" where
  "json_prop j k = (case j of JObj m \<Rightarrow> map_get m k | _ \<Rightarrow> None)"

text \<open>\<open>a ?? b\<close> skips null as well as what is missing.\<close>

definition nullish :: "json option \<Rightarrow> json option \<Rightarrow> json option" where
  "nullish a b = (if a = None \<or> a = Some JNull then b else a)"

record http_request =
  hq_method :: string
  hq_path :: string
  hq_headers :: "(string, string) jsmap"
  hq_ip :: "string option"
  hq_remote :: "string option"
  hq_body :: json

record rejection =
  rj_status :: int
  rj_error :: string

definition reject :: "int \<Rightarrow> string \<Rightarrow> rejection" where
  "reject st e = \<lparr>rj_status = st, rj_error = e\<rparr>"

section \<open>Payload guard\<close>

fun leading_digits :: "string \<Rightarrow> string" where
  "leading_digits [] = []"
| "leading_digits (c # s) = (if is_digit_char c then c # leading_digits s else [])"

definition digits_value :: "string \<Rightarrow> int" where
  "digits_value s = foldl (\<lambda>n c. 10 * n + int (char_code c - 48)) 0 s"

text \<open>\<open>parseInt(s, 10)\<close>: leading white space, a sign, then digits up to the first other character.\<close>

definition js_parse_int :: "string \<Rightarrow> int option" where
  "js_parse_int s =
     (let t = dropWhile is_js_space s;
          (neg, u) = (case t of
             [] \<Rightarrow> (False, [])
           | c # r \<Rightarrow> if c = CHR ''-'' then (True, r) else if c = CHR ''+'' then (False, r) else (False, t));
          ds = leading_digits u
      in if ds = [] then None else Some (if neg then - digits_value ds else digits_value ds))"

definition DEFAULT_RELAY_MAX_PAYLOAD_BYTES :: int where
  "DEFAULT_RELAY_MAX_PAYLOAD_BYTES = 512 * 1024"

definition resolveMaxBytes :: "int option \<Rightarrow> int \<Rightarrow> int" where
  "resolveMaxBytes maxBytes env_value = coalesce maxBytes env_value"

definition payloadGuard :: "int \<Rightarrow> http_request \<Rightarrow> rejection option" where
  "payloadGuard maxBytes req = (case map_get (hq_headers req) ''content-length'' of
       None \<Rightarrow> None
     | Some h \<Rightarrow> (case js_parse_int h of
         None \<Rightarrow> None
       | Some n \<Rightarrow> if n > maxBytes then Some (reject 413 ''PAYLOAD_TOO_LARGE'') else None))"

section \<open>Request id\<close>

definition isUuidV4 :: "string \<Rightarrow> bool" where
  "isUuidV4 s = (length s = 36
     \<and> list_all (\<lambda>i. if i \<in> {8, 13, 18, 23} then s ! i = CHR ''-'' else is_hex_char (s ! i)) [0..<36]
     \<and> s ! 14 = CHR ''4'' \<and> s ! 19 \<in> set ''89abAB'')"

definition is_token_char :: "char \<Rightarrow> bool" where
  "is_token_char c = (is_alnum_char c \<or> c \<in> {CHR ''_'', CHR ''.'', CHR ''-''})"

definition isAllowedToken :: "string \<Rightarrow> bool" where
  "isAllowedToken s = (8 \<le> length s \<and> length s \<le> 128 \<and> list_all is_token_char s)"

definition requestIdGuard :: "string \<Rightarrow> http_request \<Rightarrow> rejection + string" where
  "requestIdGuard uuid req = (case map_get (hq_headers req) ''x-request-id'' of
       None \<Rightarrow> Inr uuid
     | Some h \<Rightarrow> if h = [] then Inr uuid
                 else if isUuidV4 h \<or> isAllowedToken h then Inr h
                 else Inl (reject 400 ''Invalid X-Request-Id header''))"

section \<open>Content type\<close>

definition contentTypeGuard :: "http_request \<Rightarrow> rejection option" where
  "contentTypeGuard req =
     (if ascii_upper (hq_method req) \<in> {''POST'', ''PUT'', ''PATCH''}
      then (case map_get (hq_headers req) ''content-type'' of
              None \<Rightarrow> Some (reject 415 ''UNSUPPORTED_MEDIA_TYPE'')
            | Some ct \<Rightarrow> if ct = [] \<or> \<not> js_includes ''application/json'' (js_lower ct)
                         then Some (reject 415 ''UNSUPPORTED_MEDIA_TYPE'') else None)
      else None)"

section \<open>Bearer token\<close>

text \<open>The bearer service for a configured secret, and the stub used without one.\<close>

definition verifyToken :: "string option \<Rightarrow> string \<Rightarrow> string option" where
  "verifyToken secret token = (case secret of
       Some s \<Rightarrow> if token \<noteq> s \<and> token \<noteq> ''Bearer '' @ s then None else Some ''relay-client''
     | None \<Rightarrow> if token = [] then None else Some ''stub-caller'')"

definition authGuard :: "(string \<Rightarrow> string option) \<Rightarrow> http_request \<Rightarrow> rejection + string" where
  "authGuard verify req = (case map_get (hq_headers req) ''authorization'' of
       None \<Rightarrow> Inl (reject 401 ''UNAUTHORIZED'')
     | Some h \<Rightarrow> if \<not> js_starts_with ''Bearer '' h then Inl (reject 401 ''UNAUTHORIZED'')
                 else (case verify (drop 7 h) of
                     None \<Rightarrow> Inl (reject 401 ''UNAUTHORIZED'')
                   | Some callerId \<Rightarrow> Inr callerId))"

section \<open>Rate limiters\<close>

record route_limit =
  rl_rpm :: int
  rl_windowMs :: "int option"

definition ROUTE_RATE_LIMIT_CONFIG :: "(string, route_limit) jsmap" where
  "ROUTE_RATE_LIMIT_CONFIG =
     [(''/relay/execute'', \<lparr>rl_rpm = 30, rl_windowMs = None\<rparr>),
      (''/relay/validate'', \<lparr>rl_rpm = 60, rl_windowMs = None\<rparr>),
      (''/relay/session-key'', \<lparr>rl_rpm = 10, rl_windowMs = None\<rparr>),
      (''/relay/revoke-session-key'', \<lparr>rl_rpm = 10, rl_windowMs = None\<rparr>),
      (''/relay/status'', \<lparr>rl_rpm = 120, rl_windowMs = None\<rparr>),
      (''/health'', \<lparr>rl_rpm = 120, rl_windowMs = None\<rparr>)]"

definition DEFAULT_ROUTE_CONFIG :: route_limit where
  "DEFAULT_ROUTE_CONFIG = \<lparr>rl_rpm = 20, rl_windowMs = None\<rparr>"

definition IP_KEYED_ROUTES :: "string set" where
  "IP_KEYED_ROUTES = {''/health'', ''/relay/status''}"

text \<open>The override may give either field.\<close>

definition resolveRouteConfig :: "string \<Rightarrow> int option \<Rightarrow> int option \<Rightarrow> route_limit" where
  "resolveRouteConfig route rpm windowMs =
     (let base = coalesce (map_get ROUTE_RATE_LIMIT_CONFIG route) DEFAULT_ROUTE_CONFIG
      in \<lparr>rl_rpm = coalesce rpm (rl_rpm base),
          rl_windowMs = Some (coalesce windowMs (coalesce (rl_windowMs base) 60000))\<rparr>)"

text \<open>A key is what the generator returns: a value of the body, a string, or nothing.\<close>

definition resolveAccountKey :: "json \<Rightarrow> json option" where
  "resolveAccountKey body =
     (let params = coalesce (nullish (json_prop body ''parameters'') None) (JObj [])
      in nullish (json_prop body ''sender'')
        (nullish (json_prop params ''sender'')
        (nullish (json_prop params ''account'')
        (nullish (json_prop params ''contractAddress'')
        (nullish (json_prop body ''sessionKey'')
          (Some (JStr ''unknown'')))))))"

definition ip_or :: "string \<Rightarrow> string option \<Rightarrow> string" where
  "ip_or d ip = (if ip = None \<or> ip = Some [] then d else coalesce ip d)"

definition routeKey :: "string \<Rightarrow> http_request \<Rightarrow> json option" where
  "routeKey route req = (if route \<in> IP_KEYED_ROUTES then Some (JStr (ip_or ''unknown'' (hq_ip req)))
     else resolveAccountKey (hq_body req))"

definition resolveRpm :: "int option \<Rightarrow> int \<Rightarrow> int" where
  "resolveRpm rpm env_value = (case rpm of
       Some r \<Rightarrow> if 1 \<le> r \<and> r \<le> 600 then r else env_value
     | None \<Rightarrow> env_value)"

fun split_comma :: "string \<Rightarrow> string" where
  "split_comma [] = []"
| "split_comma (c # s) = (if c = CHR '','' then [] else c # split_comma s)"

definition extractClientIp :: "http_request \<Rightarrow> string" where
  "extractClientIp req =
     (let fwd = (case map_get (hq_headers req) ''x-forwarded-for'' of
             Some h \<Rightarrow> js_trim (split_comma h) | None \<Rightarrow> []);
          real = (case map_get (hq_headers req) ''x-real-ip'' of Some h \<Rightarrow> js_trim h | None \<Rightarrow> [])
      in if fwd \<noteq> [] then fwd else if real \<noteq> [] then real
         else ip_or (ip_or ''127.0.0.1'' (hq_remote req)) (hq_ip req))"

text \<open>
  One hit on a limiter: the store counts it under the limiter's name and key and tells the total of
  the current window; above the limit the handler answers.
\<close>

type_synonym 'c counters = "string \<Rightarrow> json option \<Rightarrow> 'c \<Rightarrow> nat \<times> 'c"

definition limiter :: "'c counters \<Rightarrow> string \<Rightarrow> int \<Rightarrow> string \<Rightarrow> json option \<Rightarrow> 'c \<Rightarrow> rejection option \<times> 'c" where
  "limiter hit name mx err key c = (case hit name key c of
       (n, c') \<Rightarrow> (if int n > mx then Some (reject 429 err) else None, c'))"

definition DEFAULT_IP_RATE_LIMIT_RPM :: int where
  "DEFAULT_IP_RATE_LIMIT_RPM = 100"

definition ipLimiter :: "'c counters \<Rightarrow> http_request \<Rightarrow> 'c \<Rightarrow> rejection option \<times> 'c" where
  "ipLimiter hit req c = limiter hit ''ip'' DEFAULT_IP_RATE_LIMIT_RPM ''TOO_MANY_REQUESTS'' (Some (JStr (extractClientIp req))) c"

text \<open>
  The limiter of \<open>server.ts\<close>: its key generator reads \<open>req.callerId\<close>, which no middleware sets, and so
  uses the address.
\<close>

definition relayLimiter :: "'c counters \<Rightarrow> int \<Rightarrow> http_request \<Rightarrow> 'c \<Rightarrow> rejection option \<times> 'c" where
  "relayLimiter hit relayMax req c = limiter hit ''relay'' relayMax
     ''Too many relay requests from this IP, please try again later.'' (map_option JStr (hq_ip req)) c"

definition executeRouteLimiter :: "'c counters \<Rightarrow> http_request \<Rightarrow> 'c \<Rightarrow> rejection option \<times> 'c" where
  "executeRouteLimiter hit req c = limiter hit ''/relay/execute''
     (rl_rpm (resolveRouteConfig ''/relay/execute'' None None)) ''RATE_LIMITED'' (routeKey ''/relay/execute'' req) c"

definition accountLimiter :: "'c counters \<Rightarrow> int \<Rightarrow> http_request \<Rightarrow> 'c \<Rightarrow> rejection option \<times> 'c" where
  "accountLimiter hit env_rpm req c = limiter hit ''account'' (resolveRpm None env_rpm) ''RATE_LIMITED''
     (resolveAccountKey (hq_body req)) c"

section \<open>The schema of a relay request\<close>

definition json_string :: "json option \<Rightarrow> string option" where
  "json_string j = (case j of Some (JStr s) \<Rightarrow> Some s | _ \<Rightarrow> None)"

definition hex_field :: "nat \<Rightarrow> json option \<Rightarrow> string option" where
  "hex_field n j = (case json_string j of
       Some s \<Rightarrow> if length s = n \<and> list_all is_hex_char s then Some s else None | None \<Rightarrow> None)"

definition parse_operation :: "json option \<Rightarrow> string option" where
  "parse_operation j = (case json_string j of
       Some s \<Rightarrow> if s \<in> {''relay_execute'', ''add_session_key'', ''revoke_session_key''} then Some s else None
     | None \<Rightarrow> None)"

text \<open>\<open>z.record(z.unknown())\<close>: any plain object.\<close>

definition parse_parameters :: "json option \<Rightarrow> (string, param) jsmap option" where
  "parse_parameters j = (case j of
       Some (JObj m) \<Rightarrow> Some (map (\<lambda>(k, v). (k, case v of JStr s \<Rightarrow> PStr s | _ \<Rightarrow> POther)) m)
     | _ \<Rightarrow> None)"

text \<open>\<open>z.number().int().nonnegative()\<close>.\<close>

definition parse_nonce :: "json option \<Rightarrow> int option" where
  "parse_nonce j = (case j of
       Some (JNum (Fin q)) \<Rightarrow> if of_int \<lfloor>q\<rfloor> = q \<and> 0 \<le> q then Some \<lfloor>q\<rfloor> else None
     | _ \<Rightarrow> None)"

definition parse_number :: "json option \<Rightarrow> number option" where
  "parse_number j = (case j of Some (JNum x) \<Rightarrow> if x = NaN then None else Some x | _ \<Rightarrow> None)"

definition parse_policy :: "json option \<Rightarrow> transfer_policy option" where
  "parse_policy j = (case j of
       Some (JObj m) \<Rightarrow> (case (parse_number (map_get m ''dailyLimit''), parse_number (map_get m ''stepUpThreshold'')) of
           (Some d, Some u) \<Rightarrow> if policy_schema_ok \<lparr>dailyLimit = d, stepUpThreshold = u\<rparr>
                               then Some \<lparr>dailyLimit = d, stepUpThreshold = u\<rparr> else None
         | _ \<Rightarrow> None)
     | _ \<Rightarrow> None)"

text \<open>\<open>transferPolicy\<close> is optional; members outside the schema are stripped.\<close>

definition parse_policy_input :: "json option \<Rightarrow> policy_input option option" where
  "parse_policy_input j = (case j of
       None \<Rightarrow> Some None
     | Some (JObj m) \<Rightarrow>
         (case (parse_policy (map_get m ''policy''), parse_number (map_get m ''amount''),
                parse_number (map_get m ''todayTotal''), map_get m ''stepUpConfirmed'') of
            (Some p, Some a, Some t, None) \<Rightarrow> Some (Some \<lparr>pi_policy = p, pi_amount = a, pi_todayTotal = t,
               pi_assetCode = None, pi_stepUpConfirmed = None\<rparr>)
          | (Some p, Some a, Some t, Some (JBool b)) \<Rightarrow> Some (Some \<lparr>pi_policy = p, pi_amount = a, pi_todayTotal = t,
               pi_assetCode = None, pi_stepUpConfirmed = Some b\<rparr>)
          | _ \<Rightarrow> None)
     | Some _ \<Rightarrow> None)"

definition relayRequestSchema :: "json \<Rightarrow> relay_request option" where
  "relayRequestSchema body = (case body of
       JObj m \<Rightarrow>
         (case (hex_field 64 (map_get m ''sessionKey''), parse_operation (map_get m ''operation''),
                parse_parameters (map_get m ''parameters''), hex_field 128 (map_get m ''signature''),
                parse_nonce (map_get m ''nonce''), parse_policy_input (map_get m ''transferPolicy'')) of
            (Some k, Some op, Some ps, Some sg, Some n, Some tp) \<Rightarrow>
              Some \<lparr>rq_sessionKey = k, rq_operation = op, rq_parameters = ps, rq_signature = sg,
                    rq_nonce = n, rq_transferPolicy = tp\<rparr>
          | _ \<Rightarrow> None)
     | _ \<Rightarrow> None)"

definition validateBody :: "json \<Rightarrow> rejection + relay_request" where
  "validateBody body = (case relayRequestSchema body of
       None \<Rightarrow> Inl (reject 400 ''VALIDATION_ERROR'') | Some r \<Rightarrow> Inr r)"

section \<open>The routes\<close>

record relayer_config =
  cf_maxBytes :: int
  cf_relayMax :: int
  cf_rpm :: int
  cf_secret :: "string option"

record 'c server_state =
  ss_counters :: 'c
  ss_cache :: "execute_response idem_store"
  ss_nonces :: "nonce_store option"

text \<open>What runs in front of every route, up to the parsed body; the limiter skips the probes.\<close>

definition globalGuards ::
  "relayer_config \<Rightarrow> 'c counters \<Rightarrow> string \<Rightarrow> http_request \<Rightarrow> 'c \<Rightarrow> rejection option \<times> 'c" where
  "globalGuards cf hit uuid req c = (case payloadGuard (cf_maxBytes cf) req of
       Some rj \<Rightarrow> (Some rj, c)
     | None \<Rightarrow> (case requestIdGuard uuid req of
         Inl rj \<Rightarrow> (Some rj, c)
       | Inr _ \<Rightarrow> if hq_path req \<in> {''/health'', ''/metrics''} then (None, c)
                  else ipLimiter hit req c))"

text \<open>The guards the two relay routes share: token, content type, limiter.\<close>

definition relayGuards ::
  "relayer_config \<Rightarrow> 'c counters \<Rightarrow> string \<Rightarrow> http_request \<Rightarrow> 'c \<Rightarrow> rejection option \<times> 'c" where
  "relayGuards cf hit uuid req c = (case globalGuards cf hit uuid req c of
       (Some rj, c1) \<Rightarrow> (Some rj, c1)
     | (None, c1) \<Rightarrow> (case authGuard (verifyToken (cf_secret cf)) req of
         Inl rj \<Rightarrow> (Some rj, c1)
       | Inr callerId \<Rightarrow> (case contentTypeGuard req of
           Some rj \<Rightarrow> (Some rj, c1)
         | None \<Rightarrow> relayLimiter hit (cf_relayMax cf) req c1)))"

definition accountLimits ::
  "relayer_config \<Rightarrow> 'c counters \<Rightarrow> http_request \<Rightarrow> 'c \<Rightarrow> rejection option \<times> 'c" where
  "accountLimits cf hit req c = (case executeRouteLimiter hit req c of
        (Some rj, c1) \<Rightarrow> (Some rj, c1)
      | (None, c1) \<Rightarrow> accountLimiter hit (cf_rpm cf) req c1)"

definition idempotency_header :: "http_request \<Rightarrow> header" where
  "idempotency_header req = (case map_get (hq_headers req) ''idempotency-key'' of
       None \<Rightarrow> HAbsent | Some s \<Rightarrow> HString s)"

text \<open>The instants of one request and its fresh values.\<close>

record instants =
  at_start :: time
  at_check :: time
  at_record :: time
  at_expiry :: time
  at_answer :: time
  at_uuid :: string
  at_random :: "byte list"

text \<open>The execute handler behind the idempotency middleware.\<close>

definition runExecute ::
  "'k relay_env \<Rightarrow> instants \<Rightarrow> http_request \<Rightarrow> relay_request \<Rightarrow> 'c server_state \<Rightarrow> execute_response response \<times> 'c server_state" where
  "runExecute env i req r st =
     (let run = (case executeRelay env NONCE_TTL_MS (at_check i) (at_record i) (at_expiry i) (at_random i) None r (ss_nonces st) of
             (resp, ns) \<Rightarrow> (case executeRelayHandler (Inr resp) of
                 Inr (code, resp') \<Rightarrow> (\<lparr>statusCode = code, resp_body = resp'\<rparr>, ns)
               | Inl _ \<Rightarrow> (\<lparr>statusCode = 500, resp_body = resp\<rparr>, ns)))
      in case idem_begin (at_start i) (idempotency_header req) (ss_cache st) of
           (Replay cached, ca) \<Rightarrow> (cached, st\<lparr>ss_cache := ca\<rparr>)
         | (PassThrough, ca) \<Rightarrow> (fst run, st\<lparr>ss_cache := ca, ss_nonces := snd run\<rparr>)
         | (Intercept key, ca) \<Rightarrow> (fst run, st\<lparr>ss_nonces := snd run,
               ss_cache := idem_finish IDEMPOTENCY_TTL_MS (at_answer i) key (fst run) ca\<rparr>))"

definition executeRoute ::
  "relayer_config \<Rightarrow> 'c counters \<Rightarrow> 'k relay_env \<Rightarrow> instants \<Rightarrow> http_request \<Rightarrow> 'c server_state
     \<Rightarrow> (rejection + execute_response response) \<times> 'c server_state" where
  "executeRoute cf hit env i req st = (case relayGuards cf hit (at_uuid i) req (ss_counters st) of
       (Some rj, c) \<Rightarrow> (Inl rj, st\<lparr>ss_counters := c\<rparr>)
     | (None, c) \<Rightarrow> (case accountLimits cf hit req c of
         (Some rj, c') \<Rightarrow> (Inl rj, st\<lparr>ss_counters := c'\<rparr>)
       | (None, c') \<Rightarrow> (case validateBody (hq_body req) of
           Inl rj \<Rightarrow> (Inl rj, st\<lparr>ss_counters := c'\<rparr>)
         | Inr r \<Rightarrow> (case runExecute env i req r (st\<lparr>ss_counters := c'\<rparr>) of (rep, st') \<Rightarrow> (Inr rep, st')))))"

definition validateRoute ::
  "relayer_config \<Rightarrow> 'c counters \<Rightarrow> 'k relay_env \<Rightarrow> instants \<Rightarrow> http_request \<Rightarrow> 'c server_state
     \<Rightarrow> (rejection + (int \<times> validation_result)) \<times> 'c server_state" where
  "validateRoute cf hit env i req st = (case relayGuards cf hit (at_uuid i) req (ss_counters st) of
       (Some rj, c) \<Rightarrow> (Inl rj, st\<lparr>ss_counters := c\<rparr>)
     | (None, c) \<Rightarrow> (case validateBody (hq_body req) of
           Inl rj \<Rightarrow> (Inl rj, st\<lparr>ss_counters := c\<rparr>)
         | Inr r \<Rightarrow> (case validateRelay env (at_check i) None r (ss_nonces st) of
             (v, ns) \<Rightarrow> (Inr (validateRelayHandler v), st\<lparr>ss_counters := c, ss_nonces := ns\<rparr>))))"

section \<open>Lemmas\<close>

lemma hex_field_some: "hex_field n j = Some s \<Longrightarrow> length s = n \<and> list_all is_hex_char s"
  by (auto simp: hex_field_def split: option.splits if_splits)

lemma parse_nonce_some: "parse_nonce j = Some n \<Longrightarrow> 0 \<le> n"
  by (auto simp: parse_nonce_def split: option.splits json.splits number.splits if_splits)

lemma parse_policy_asset: "parse_policy_input j = Some (Some p) \<Longrightarrow> pi_assetCode p = None \<and> policy_schema_ok (pi_policy p)"
  by (auto simp: parse_policy_input_def parse_policy_def split: option.splits json.splits if_splits)

lemma schema_parts:
  assumes "relayRequestSchema body = Some r"
  obtains m where "body = JObj m" "hex_field 64 (map_get m ''sessionKey'') = Some (rq_sessionKey r)"
    "parse_operation (map_get m ''operation'') = Some (rq_operation r)"
    "parse_parameters (map_get m ''parameters'') = Some (rq_parameters r)"
    "hex_field 128 (map_get m ''signature'') = Some (rq_signature r)"
    "parse_nonce (map_get m ''nonce'') = Some (rq_nonce r)"
    "parse_policy_input (map_get m ''transferPolicy'') = Some (rq_transferPolicy r)"
  using assms by (auto simp: relayRequestSchema_def split: json.splits option.splits)

lemma schema_facts:
  assumes "relayRequestSchema body = Some r"
  shows "validateSessionKey (rq_sessionKey r) = None \<and> 0 \<le> rq_nonce r \<and> length (rq_signature r) = 128
    \<and> list_all is_hex_char (rq_signature r) \<and> (\<forall>p. rq_transferPolicy r = Some p \<longrightarrow> pi_assetCode p = None)"
  using assms by (rule schema_parts)
    (auto simp: validateSessionKey_def dest: hex_field_some parse_nonce_some parse_policy_asset)

definition rejection_ok :: "rejection \<Rightarrow> bool" where
  "rejection_ok rj = (rj_status rj \<in> {400, 401, 413, 415, 429})"

lemma reject_status [simp]: "rejection_ok (reject st e) = (st \<in> {400, 401, 413, 415, 429})"
  by (simp add: rejection_ok_def reject_def)

lemma limiter_ok: "limiter hit n mx e k c = (Some rj, c') \<Longrightarrow> rejection_ok rj"
  by (auto simp: limiter_def split: prod.splits if_splits)

lemmas limiter_defs = ipLimiter_def relayLimiter_def executeRouteLimiter_def accountLimiter_def

lemma payloadGuard_ok: "payloadGuard mx req = Some rj \<Longrightarrow> rejection_ok rj"
  by (auto simp: payloadGuard_def split: option.splits if_splits)

lemma requestIdGuard_ok: "requestIdGuard uuid req = Inl rj \<Longrightarrow> rejection_ok rj"
  by (auto simp: requestIdGuard_def split: option.splits if_splits)

lemma contentTypeGuard_ok: "contentTypeGuard req = Some rj \<Longrightarrow> rejection_ok rj"
  by (auto simp: contentTypeGuard_def split: option.splits if_splits)

lemma authGuard_ok: "authGuard v req = Inl rj \<Longrightarrow> rejection_ok rj"
  by (auto simp: authGuard_def split: option.splits if_splits)

lemma validateBody_ok: "validateBody b = Inl rj \<Longrightarrow> rejection_ok rj"
  by (auto simp: validateBody_def split: option.splits)

lemmas guard_oks = limiter_ok payloadGuard_ok requestIdGuard_ok contentTypeGuard_ok authGuard_ok validateBody_ok

lemma relayGuards_ok: "relayGuards cf hit uuid req c = (Some rj, c') \<Longrightarrow> rejection_ok rj"
  by (auto simp: relayGuards_def globalGuards_def limiter_defs dest: guard_oks split: option.splits prod.splits sum.splits if_splits)

lemma accountLimits_ok: "accountLimits cf hit req c = (Some rj, c') \<Longrightarrow> rejection_ok rj"
  by (auto simp: accountLimits_def limiter_defs limiter_defs dest: guard_oks split: option.splits prod.splits)

lemma authGuard_pass: "authGuard v req = Inr who \<Longrightarrow>
   \<exists>token. map_get (hq_headers req) ''authorization'' = Some (''Bearer '' @ token) \<and> v token = Some who"
  by (auto simp: authGuard_def js_starts_with_append split: option.splits if_splits)

lemma contentType_pass: "contentTypeGuard req = None \<Longrightarrow> hq_method req = ''POST'' \<Longrightarrow>
   \<exists>ct. map_get (hq_headers req) ''content-type'' = Some ct \<and> js_includes ''application/json'' (js_lower ct)"
proof -
  have "ascii_upper ''POST'' = ''POST''" by code_simp
  then show "contentTypeGuard req = None \<Longrightarrow> hq_method req = ''POST'' \<Longrightarrow>
   \<exists>ct. map_get (hq_headers req) ''content-type'' = Some ct \<and> js_includes ''application/json'' (js_lower ct)"
    by (auto simp: contentTypeGuard_def split: option.splits if_splits)
qed

lemma relayGuards_pass:
  assumes "relayGuards cf hit uuid req c = (None, c')"
  shows "payloadGuard (cf_maxBytes cf) req = None \<and> contentTypeGuard req = None
    \<and> (\<exists>who. authGuard (verifyToken (cf_secret cf)) req = Inr who)"
  using assms by (auto simp: relayGuards_def globalGuards_def split: option.splits prod.splits sum.splits if_splits)

text \<open>The possible runs of the route: refused by a guard, or handed to the handler.\<close>

lemma executeRoute_cases:
  obtains (refused) rj c where "executeRoute cf hit env i req st = (Inl rj, st\<lparr>ss_counters := c\<rparr>)" "rejection_ok rj"
  | (admitted) r c where "executeRoute cf hit env i req st =
        (case runExecute env i req r (st\<lparr>ss_counters := c\<rparr>) of (rep, st') \<Rightarrow> (Inr rep, st'))"
      "relayRequestSchema (hq_body req) = Some r" "payloadGuard (cf_maxBytes cf) req = None" "contentTypeGuard req = None"
      "\<exists>who. authGuard (verifyToken (cf_secret cf)) req = Inr who"
proof (cases "relayGuards cf hit (at_uuid i) req (ss_counters st)")
  case g: (Pair o1 c)
  show thesis
  proof (cases o1)
    case (Some rj)
    with g show thesis by (intro refused) (auto simp: executeRoute_def dest: relayGuards_ok)
  next
    case None
    note pass = relayGuards_pass [OF g [unfolded None]]
    show thesis
    proof (cases "accountLimits cf hit req c")
      case a: (Pair o2 c')
      show thesis
      proof (cases o2)
        case (Some rj)
        with a g None show thesis by (intro refused) (auto simp: executeRoute_def dest: accountLimits_ok)
      next
        case n2: None
        show thesis
        proof (cases "validateBody (hq_body req)")
          case (Inl rj)
          with a g None n2 show thesis by (intro refused) (auto simp: executeRoute_def dest: validateBody_ok)
        next
          case (Inr r)
          then have "relayRequestSchema (hq_body req) = Some r" by (simp add: validateBody_def split: option.splits)
          with Inr a g None n2 pass show thesis by (intro admitted [of r c']) (simp_all add: executeRoute_def)
        qed
      qed
    qed
  qed
qed

lemma executeRoute_answer:
  "executeRoute cf hit env i req st = (Inr rep, st') \<Longrightarrow>
     \<exists>r c. runExecute env i req r (st\<lparr>ss_counters := c\<rparr>) = (rep, st') \<and> relayRequestSchema (hq_body req) = Some r"
proof (cases rule: executeRoute_cases [of cf hit env i req st])
  case (admitted r c)
  then show "executeRoute cf hit env i req st = (Inr rep, st') \<Longrightarrow> ?thesis"
    by (cases "runExecute env i req r (st\<lparr>ss_counters := c\<rparr>)") auto
qed auto

section \<open>Properties\<close>

text \<open>
  What stands between the network and the relay service: on the execute route a refused request
  (with status 400, 401, 413, 415 or 429) leaves the response cache and the replay store untouched;
  one that gets an answer has presented an accepted bearer token, kept to the size limit, and its body
  parses to a request whose key and signature are hex strings of the right length and whose nonce is
  not negative, so the format checks of the service itself never fire.
\<close>

theorem execute_route_guards:
  "case executeRoute cf hit env i req st of (res, st') \<Rightarrow> (case res of
       Inl rj \<Rightarrow> rj_status rj \<in> {400, 401, 413, 415, 429} \<and> ss_cache st' = ss_cache st \<and> ss_nonces st' = ss_nonces st
     | Inr rep \<Rightarrow>
         (\<exists>token who. map_get (hq_headers req) ''authorization'' = Some (''Bearer '' @ token)
            \<and> verifyToken (cf_secret cf) token = Some who)
         \<and> payloadGuard (cf_maxBytes cf) req = None \<and> contentTypeGuard req = None
         \<and> (\<exists>r. relayRequestSchema (hq_body req) = Some r \<and> validateSessionKey (rq_sessionKey r) = None
              \<and> 0 \<le> rq_nonce r \<and> length (rq_signature r) = 128))"
proof (cases rule: executeRoute_cases [of cf hit env i req st])
  case (refused rj c)
  then show ?thesis by (simp add: rejection_ok_def)
next
  case (admitted r c)
  then obtain token who where "map_get (hq_headers req) ''authorization'' = Some (''Bearer '' @ token)"
      "verifyToken (cf_secret cf) token = Some who" by (blast dest: authGuard_pass)
  with admitted schema_facts [OF admitted(2)] show ?thesis by (auto split: prod.splits)
qed

text \<open>The documented counting of the memory store within one window.\<close>

definition window_counter :: "(string \<times> json option \<Rightarrow> nat) counters" where
  "window_counter name key c = (c (name, key) + 1, c((name, key) := c (name, key) + 1))"

fun account_run :: "relayer_config \<Rightarrow> 'c counters \<Rightarrow> http_request list \<Rightarrow> 'c \<Rightarrow> rejection option list" where
  "account_run cf hit [] c = []"
| "account_run cf hit (r # rs) c = (case accountLimits cf hit r c of (res, c') \<Rightarrow> res # account_run cf hit rs c')"

definition with_sender :: "http_request \<Rightarrow> (string, json) jsmap \<Rightarrow> string \<Rightarrow> http_request" where
  "with_sender req m s = req\<lparr>hq_body := JObj (map_set ''sender'' (JStr s) m)\<rparr>"

lemma sender_key: "resolveAccountKey (hq_body (with_sender req m s)) = Some (JStr s)"
  by (simp add: resolveAccountKey_def Let_def json_prop_def nullish_def jsmap_simps with_sender_def)

lemma sender_parse: "validateBody (hq_body (with_sender req m s)) = validateBody (JObj m)"
  by (simp add: validateBody_def relayRequestSchema_def jsmap_simps with_sender_def)

lemma execute_rpm: "rl_rpm (resolveRouteConfig ''/relay/execute'' None None) = 30" "''/relay/execute'' \<notin> IP_KEYED_ROUTES"
  by (code_simp, simp add: IP_KEYED_ROUTES_def)

lemma fresh_sender_passes:
  assumes "\<And>name. c (name, Some (JStr s)) = 0" "1 \<le> cf_rpm cf"
  shows "accountLimits cf window_counter (with_sender req m s) c =
    (None, c((''/relay/execute'', Some (JStr s)) := 1, (''account'', Some (JStr s)) := 1))"
  using assms execute_rpm by (simp add: accountLimits_def limiter_defs limiter_def window_counter_def routeKey_def sender_key resolveRpm_def)

text \<open>
  The per-account limits hold no caller back: a caller may add a top-level \<open>sender\<close> of its choice
  to the body. The parsed request stays the same, but both account limiters count it under that name,
  so any number of copies of one request under names not seen in the window passes both limiters.
\<close>

theorem account_limit_evaded:
  assumes "distinct ss" "\<forall>s \<in> set ss. \<forall>name. c (name, Some (JStr s)) = 0" "1 \<le> cf_rpm cf" "hq_body req = JObj m"
  shows "account_run cf window_counter (map (with_sender req m) ss) c = replicate (length ss) None
    \<and> (\<forall>s. validateBody (hq_body (with_sender req m s)) = validateBody (hq_body req))"
proof -
  have "account_run cf window_counter (map (with_sender req m) ss) c = replicate (length ss) None"
    using assms(1,2)
  proof (induction ss arbitrary: c)
    case (Cons s ss)
    then have "\<forall>u \<in> set ss. \<forall>name. (c((''/relay/execute'', Some (JStr s)) := 1, (''account'', Some (JStr s)) := 1)) (name, Some (JStr u)) = 0"
      by auto
    with Cons fresh_sender_passes [of c s cf req m] assms(3) show ?case by (simp del: fun_upd_apply)
  qed simp
  with assms(4) show ?thesis by (simp add: sender_parse)
qed

definition demo_members :: "(string, json) jsmap" where
  "demo_members = [(''sessionKey'', JStr (replicate 64 (CHR ''a''))), (''operation'', JStr ''relay_execute''),
       (''parameters'', JObj [(''accountAddress'', JStr ''C1'')]), (''signature'', JStr (replicate 128 (CHR ''b''))),
       (''nonce'', JNum (Fin 7))]"

definition demo_http :: http_request where
  "demo_http = \<lparr>hq_method = ''POST'', hq_path = ''/relay/execute'',
     hq_headers = [(''authorization'', ''Bearer tok''), (''content-type'', ''application/json''), (''idempotency-key'', ''k1'')],
     hq_ip = Some ''10.0.0.1'', hq_remote = None, hq_body = JObj demo_members\<rparr>"

definition demo_config :: relayer_config where
  "demo_config = \<lparr>cf_maxBytes = DEFAULT_RELAY_MAX_PAYLOAD_BYTES, cf_relayMax = 50, cf_rpm = 30, cf_secret = Some ''tok''\<rparr>"

theorem account_limit_evaded_witness:
  "account_run demo_config window_counter (map (with_sender demo_http demo_members) (map (\<lambda>n. replicate n (CHR ''x'')) [0..<1000])) (\<lambda>_. 0)
     = replicate 1000 None"
proof -
  have "distinct (map (\<lambda>n. replicate n (CHR ''x'')) [0..<1000])"
    by (auto simp: distinct_map inj_on_def dest: arg_cong [where f = length])
  from account_limit_evaded [OF this, of "\<lambda>_. 0" demo_config demo_http demo_members]
  show ?thesis by (simp add: demo_config_def demo_http_def del: map_map)
qed

text \<open>
  Replay through the route: when the execute route has answered a keyed request with success, a
  later request with the same trimmed key that passes the guards within the time-to-live gets the same
  answer, whatever its body and whoever sends it, and the replay store is not touched.
\<close>

theorem execute_route_replays_key:
  assumes "executeRoute cf hit env i req st = (Inr rep, st1)" "200 \<le> statusCode rep" "statusCode rep < 300"
    and "idempotency_header req = HString k" "js_trim k \<noteq> []" "idem_cached (ss_cache st) (at_start i) (js_trim k) = None"
    and "idempotency_header req' = HString k'" "js_trim k' = js_trim k" "at_start i' \<le> at_answer i + IDEMPOTENCY_TTL_MS"
    and "ss_cache st2 = ss_cache st1" "executeRoute cf hit' env' i' req' st2 = (Inr rep', st3)"
  shows "rep' = rep \<and> ss_nonces st3 = ss_nonces st2"
proof -
  from executeRoute_answer [OF assms(1)] obtain r c where r: "runExecute env i req r (st\<lparr>ss_counters := c\<rparr>) = (rep, st1)" by blast
  obtain ca where b: "idem_begin (at_start i) (HString k) (ss_cache st) = (Intercept (js_trim k), ca)"
    using assms(5,6) idem_get_result [of "at_start i" "js_trim k" "ss_cache st"]
    by (cases "idem_get (at_start i) (js_trim k) (ss_cache st)") (simp add: idem_begin_def)
  then have "ss_cache st1 = idem_finish IDEMPOTENCY_TTL_MS (at_answer i) (js_trim k) rep ca"
    using r assms(4) by (auto simp: runExecute_def Let_def)
  then have hitk: "idem_cached (ss_cache st2) (at_start i') (js_trim k) = Some rep"
    using assms(2,3,9,10) by (simp add: idem_finish_def idem_set_cached)
  from executeRoute_answer [OF assms(11)] obtain r' c' where
    r': "runExecute env' i' req' r' (st2\<lparr>ss_counters := c'\<rparr>) = (rep', st3)" by blast
  obtain ca' where "idem_begin (at_start i') (HString k') (ss_cache st2) = (Replay rep, ca')"
    using assms(5,8) hitk idem_get_result [of "at_start i'" "js_trim k" "ss_cache st2"]
    by (cases "idem_get (at_start i') (js_trim k) (ss_cache st2)") (simp add: idem_begin_def)
  with r' assms(7) show ?thesis by (auto simp: runExecute_def Let_def)
qed

text \<open>A concrete run: an authorised request, a counter that never fills, mock submission.\<close>

definition idle_counter :: "unit counters" where
  "idle_counter name key c = (1, c)"

definition demo_parsed :: relay_request where
  "demo_parsed = \<lparr>rq_sessionKey = replicate 64 (CHR ''a''), rq_operation = ''relay_execute'',
     rq_parameters = [(''accountAddress'', PStr ''C1'')], rq_signature = replicate 128 (CHR ''b''), rq_nonce = 7,
     rq_transferPolicy = None\<rparr>"

definition demo_relay :: "int relay_env" where
  "demo_relay = (demo_env True)\<lparr>re_verify := \<lambda>k p sg. True\<rparr>"

definition demo_instants :: "time \<Rightarrow> instants" where
  "demo_instants t = \<lparr>at_start = t, at_check = t, at_record = t, at_expiry = t, at_answer = t, at_uuid = ''u'', at_random = []\<rparr>"

definition demo_server :: "unit server_state" where
  "demo_server = \<lparr>ss_counters = (), ss_cache = [], ss_nonces = None\<rparr>"

lemma demo_parse: "relayRequestSchema (hq_body demo_http) = Some demo_parsed"
proof -
  have "list_all is_hex_char (replicate n (CHR ''a''))" "list_all is_hex_char (replicate n (CHR ''b''))" for n
    by (simp_all add: list_all_iff is_hex_char_def is_digit_char_def char_code_def)
  moreover have "parse_nonce (Some (JNum (Fin 7))) = Some 7" by (simp add: parse_nonce_def)
  ultimately show ?thesis
    by (simp add: demo_http_def demo_members_def demo_parsed_def relayRequestSchema_def map_get_def hex_field_def
        json_string_def parse_operation_def parse_parameters_def parse_policy_input_def)
qed

lemma demo_guards: "relayGuards demo_config idle_counter uuid demo_http () = (None, ())"
proof -
  have "authGuard (verifyToken (cf_secret demo_config)) demo_http = Inr ''relay-client''" by code_simp
  moreover have "contentTypeGuard demo_http = None" by code_simp
  moreover have "payloadGuard (cf_maxBytes demo_config) demo_http = None" by code_simp
  moreover have "requestIdGuard uuid demo_http = Inr uuid" by (simp add: requestIdGuard_def demo_http_def map_get_def)
  ultimately show ?thesis
    by (simp add: relayGuards_def globalGuards_def limiter_defs limiter_def idle_counter_def demo_config_def DEFAULT_IP_RATE_LIMIT_RPM_def)
qed

lemma demo_route: "executeRoute demo_config idle_counter env i demo_http st =
   (case runExecute env i demo_http demo_parsed st of (rep, st') \<Rightarrow> (Inr rep, st'))"
proof -
  have "accountLimits demo_config idle_counter demo_http () = (None, ())"
    using execute_rpm by (simp add: accountLimits_def limiter_defs limiter_def idle_counter_def demo_config_def resolveRpm_def)
  then show ?thesis by (cases st) (simp add: executeRoute_def demo_guards demo_parse validateBody_def)
qed

lemma demo_answer: "executeRelay demo_relay NONCE_TTL_MS t0 t1 t2 [] None demo_parsed None =
   (\<lparr>xr_success = True, xr_transactionId = Some [], xr_error = None, xr_gasUsed = 0\<rparr>, None)"
proof -
  have "vr_valid (fst (validateRelay demo_relay t0 None demo_parsed None))"
    using demo_key by (simp add: validateRelay_valid store_ok_def replayed_def validateSessionKey_def demo_parsed_def
        demo_request_def request_authentic_def demo_relay_def demo_env_def map_get_def policy_passes_def)
  then show ?thesis
    by (simp add: executeRelay_cases store_ok_def validateRelay_store submit_relay_def demo_relay_def demo_env_def
        mockTxId_def ascii_upper_def)
qed

theorem execute_route_replays_key_witness:
  "fst (executeRoute demo_config idle_counter demo_relay (demo_instants 9000) demo_http
      (snd (executeRoute demo_config idle_counter demo_relay (demo_instants 5) demo_http demo_server)))
   = fst (executeRoute demo_config idle_counter demo_relay (demo_instants 5) demo_http demo_server)"
proof -
  obtain rep st1 where 1: "executeRoute demo_config idle_counter demo_relay (demo_instants 5) demo_http demo_server = (Inr rep, st1)"
    by (cases "runExecute demo_relay (demo_instants 5) demo_http demo_parsed demo_server") (simp add: demo_route)
  obtain rep' st3 where 2: "executeRoute demo_config idle_counter demo_relay (demo_instants 9000) demo_http st1 = (Inr rep', st3)"
    by (cases "runExecute demo_relay (demo_instants 9000) demo_http demo_parsed st1") (simp add: demo_route)
  have k: "idempotency_header demo_http = HString ''k1''" by (simp add: idempotency_header_def demo_http_def map_get_def)
  have t: "js_trim ''k1'' \<noteq> []" by code_simp
  have "statusCode rep = 200"
    using 1 k t by (auto simp: demo_route runExecute_def demo_server_def demo_instants_def demo_answer executeRelayHandler_def
        idem_begin_def idem_get_def Let_def split: prod.splits)
  then have "rep' = rep \<and> ss_nonces st3 = ss_nonces st1"
    by (intro execute_route_replays_key [OF 1 _ _ k t _ k refl _ refl 2])
       (simp_all add: demo_instants_def demo_server_def idem_cached_def IDEMPOTENCY_TTL_MS_def)
  with 1 2 show ?thesis by simp
qed

end
