(* ===== verification/Shutdown.thy ===== *)
theory Shutdown
  imports Prelude
begin

text \<open>
  \<open>services/relayer/src/shutdown.ts\<close>: the graceful shutdown. A drain, a closer or the close of the
  HTTP listener is a piece of work that settles at some instant after it is started with true or
  false, throws at some instant, or hangs. Instants are whole milliseconds and timers fire on time;
  a deadline wins against work that settles at the very same instant. Logging is left out.
\<close>

datatype work = Settles nat bool | Throws nat | Hangs

definition DEFAULT_SHUTDOWN_TIMEOUT_MS :: nat where
  "DEFAULT_SHUTDOWN_TIMEOUT_MS = 25000"

text \<open>The instant and value of a raced promise; a throw is caught and counts as false.\<close>

definition withDeadline :: "nat \<Rightarrow> work \<Rightarrow> nat \<times> bool" where
  "withDeadline timeoutMs w = (case w of
       Settles t v \<Rightarrow> if t < timeoutMs then (t, v) else (timeoutMs, False)
     | Throws t \<Rightarrow> if t < timeoutMs then (t, False) else (timeoutMs, False)
     | Hangs \<Rightarrow> (timeoutMs, False))"

text \<open>The listener calls back when it is closed, with or without an error: both are a clean close.\<close>

definition closeServer :: "nat \<Rightarrow> nat option \<Rightarrow> nat \<times> bool" where
  "closeServer timeoutMs closed = (case closed of
       Some t \<Rightarrow> if t < timeoutMs then (t, True) else (timeoutMs, False)
     | None \<Rightarrow> (timeoutMs, False))"

text \<open>\<open>Promise.all\<close> over pieces that never reject: the latest instant and the list of values.\<close>

definition promise_all :: "(nat \<times> bool) list \<Rightarrow> nat \<times> bool list" where
  "promise_all ps = (fold max (map fst ps) 0, map snd ps)"

record shutdown_options =
  sd_server :: "nat option option"
  sd_drainables :: "work list"
  sd_closers :: "work list"
  sd_timeoutMs :: nat

definition drain_phase :: "shutdown_options \<Rightarrow> nat \<times> bool list" where
  "drain_phase ops = promise_all
     ((case sd_server ops of None \<Rightarrow> (0, True) | Some closed \<Rightarrow> closeServer (sd_timeoutMs ops) closed)
      # map (withDeadline (sd_timeoutMs ops)) (sd_drainables ops))"

definition close_phase :: "shutdown_options \<Rightarrow> nat \<Rightarrow> nat \<times> bool" where
  "close_phase ops elapsed =
     (let remainingMs = sd_timeoutMs ops - elapsed
      in if sd_closers ops = [] then (0, True)
         else if remainingMs \<le> 10 then (0, False)
         else (case promise_all (map (withDeadline remainingMs) (sd_closers ops)) of
                 (t, vs) \<Rightarrow> (t, list_all id vs)))"

text \<open>The result of the pass and the time it took.\<close>

definition runShutdown :: "shutdown_options \<Rightarrow> bool \<times> nat" where
  "runShutdown ops = (case drain_phase ops of (t, vs) \<Rightarrow>
     (case close_phase ops t of (t', released) \<Rightarrow> (list_all id vs \<and> released, t + t')))"

text \<open>
  The signal handler over what happens to the process: a signal, or the end of the pass (clean or not,
  or rejected). The first signal starts the pass, a second one exits at once; the exit code, if any.
\<close>

datatype process_event = Signal | PassEnded bool | PassRejected

fun process_exit :: "bool \<Rightarrow> process_event list \<Rightarrow> int option" where
  "process_exit shuttingDown [] = None"
| "process_exit False (Signal # es) = process_exit True es"
| "process_exit True (Signal # es) = Some 1"
| "process_exit True (PassEnded clean # es) = Some (if clean then 0 else 1)"
| "process_exit True (PassRejected # es) = Some 1"
| "process_exit False (PassEnded clean # es) = process_exit False es"
| "process_exit False (PassRejected # es) = process_exit False es"

section \<open>Lemmas\<close>

lemma fold_max: "fold max (xs :: nat list) m = Max (insert m (set xs))"
  by (simp add: Max.set_eq_fold [symmetric])

lemma promise_all_bound: "(\<And>p. p \<in> set ps \<Longrightarrow> fst p \<le> b) \<Longrightarrow> fst (promise_all ps) \<le> (b :: nat)"
  by (simp add: promise_all_def fold_max)

lemma withDeadline_bound: "fst (withDeadline T w) \<le> T"
  by (simp add: withDeadline_def split: work.split)

lemma withDeadline_ok: "snd (withDeadline T w) \<longleftrightarrow> (\<exists>t < T. w = Settles t True)"
  by (auto simp: withDeadline_def split: work.split)

lemma closeServer_bound: "fst (closeServer T c) \<le> T"
  by (simp add: closeServer_def split: option.split)

lemma closeServer_ok: "snd (closeServer T c) \<longleftrightarrow> (\<exists>t < T. c = Some t)"
  by (auto simp: closeServer_def split: option.split)

lemma drain_bound: "fst (drain_phase ops) \<le> sd_timeoutMs ops"
  unfolding drain_phase_def
  by (rule promise_all_bound) (auto simp: withDeadline_bound closeServer_bound split: option.splits)

lemma close_bound: "fst (close_phase ops t) \<le> sd_timeoutMs ops - t"
proof -
  have "fst (promise_all (map (withDeadline (sd_timeoutMs ops - t)) (sd_closers ops))) \<le> sd_timeoutMs ops - t"
    by (rule promise_all_bound) (auto simp: withDeadline_bound)
  then show ?thesis by (simp add: close_phase_def Let_def split_def)
qed

definition drains_in_time :: "shutdown_options \<Rightarrow> bool" where
  "drains_in_time ops \<longleftrightarrow> (case sd_server ops of None \<Rightarrow> True | Some c \<Rightarrow> \<exists>t < sd_timeoutMs ops. c = Some t)
     \<and> list_all (\<lambda>w. \<exists>t < sd_timeoutMs ops. w = Settles t True) (sd_drainables ops)"

lemma drain_clean: "list_all id (snd (drain_phase ops)) = drains_in_time ops"
  by (auto simp: drain_phase_def promise_all_def drains_in_time_def closeServer_ok withDeadline_ok list_all_iff split: option.splits)

lemma exit_zero_started: "process_exit True es = Some 0 \<longleftrightarrow> (\<exists>es'. es = PassEnded True # es')"
  by (cases "(True, es)" rule: process_exit.cases) auto

lemma exit_zero: "process_exit False es = Some 0 \<longleftrightarrow>
   (\<exists>post. dropWhile (\<lambda>e. e \<noteq> Signal) es = Signal # PassEnded True # post)"
proof (induction es)
  case (Cons e es)
  then show ?case by (cases e) (auto simp: exit_zero_started)
qed simp

section \<open>Properties\<close>

text \<open>
  The shutdown budget: whatever the drains and closers do, hanging included, the pass ends within
  its timeout; it is clean exactly if the listener and every drain settle positively before the
  timeout and, when there are closers, more than ten milliseconds are left after the drains and every
  closer settles positively within what is left. The closers get no time of their own.
\<close>

theorem shutdown_budget:
  "snd (runShutdown opts) \<le> sd_timeoutMs opts
   \<and> (fst (runShutdown opts) \<longleftrightarrow> drains_in_time opts
      \<and> (sd_closers opts = []
         \<or> (fst (drain_phase opts) + 10 < sd_timeoutMs opts
            \<and> list_all (\<lambda>w. \<exists>t. t + fst (drain_phase opts) < sd_timeoutMs opts \<and> w = Settles t True) (sd_closers opts))))"
proof -
  let ?t = "fst (drain_phase opts)"
  have "snd (close_phase opts ?t) \<longleftrightarrow> sd_closers opts = [] \<or> (?t + 10 < sd_timeoutMs opts
      \<and> list_all (\<lambda>w. \<exists>t. t + ?t < sd_timeoutMs opts \<and> w = Settles t True) (sd_closers opts))"
    by (auto simp: close_phase_def Let_def promise_all_def withDeadline_ok list_all_iff less_diff_conv split_def)
  moreover have "?t + fst (close_phase opts ?t) \<le> sd_timeoutMs opts"
    using drain_bound [of opts] close_bound [of opts ?t] by simp
  ultimately show ?thesis by (simp add: runShutdown_def split_def drain_clean)
qed

end
