(* ===== verification/SecureVault.thy ===== *)
theory SecureVault
  imports Prelude
begin

text \<open>
  \<open>packages/core-sdk/src/storage/secure-storage-manager.ts\<close>: the encrypted vault behind both wallets.
  The Web Crypto calls are a record of functions: the derivation of the base key from a password and
  the master salt, and the encryption of one payload under the base key, a salt and an IV. What the
  storage holds under a key is kept decoded: a salt (base64), an encrypted payload (JSON), or a string
  that is neither. Item values are their JSON texts. Random salts and IVs are arguments.
\<close>

section \<open>Storage and crypto\<close>

record ('k, 'd) vault_crypto =
  vc_derive :: "string \<Rightarrow> nat list \<Rightarrow> 'k"
  vc_encrypt :: "'k \<Rightarrow> nat list \<Rightarrow> nat list \<Rightarrow> string \<Rightarrow> 'd"
  vc_decrypt :: "'k \<Rightarrow> nat list \<Rightarrow> nat list \<Rightarrow> 'd \<Rightarrow> string option"

record 'd encrypted_payload =
  ep_salt :: "nat list"
  ep_iv :: "nat list"
  ep_data :: 'd

datatype 'd stored = StSalt "nat list" | StPayload "'d encrypted_payload" | StText string

type_synonym 'd vault_storage = "(string, 'd stored) jsmap"

record ('k, 'd) vault =
  vt_key :: "'k option"
  vt_storage :: "'d vault_storage"
  vt_autoLockMs :: "time option"
  vt_timer :: "time option"

definition MASTER_SALT_STORAGE_KEY :: string where
  "MASTER_SALT_STORAGE_KEY = ''master_salt''"

definition VERIFICATION_PAYLOAD_STORAGE_KEY :: string where
  "VERIFICATION_PAYLOAD_STORAGE_KEY = ''verification_payload''"

definition DEFAULT_DATA_KEYS :: "string list" where
  "DEFAULT_DATA_KEYS = [''account'', ''sessionKeys'', ''recentRecipients'']"

definition new_vault :: "'d vault_storage \<Rightarrow> time option \<Rightarrow> ('k, 'd) vault" where
  "new_vault storage autoLockMs = \<lparr>vt_key = None, vt_storage = storage,
     vt_autoLockMs = (case autoLockMs of Some ms \<Rightarrow> if ms > 0 then Some ms else None | None \<Rightarrow> None), vt_timer = None\<rparr>"

definition vault_isUnlocked :: "('k, 'd) vault \<Rightarrow> bool" where
  "vault_isUnlocked v = (vt_key v \<noteq> None)"

definition vault_lock :: "('k, 'd) vault \<Rightarrow> ('k, 'd) vault" where
  "vault_lock v = v\<lparr>vt_key := None, vt_timer := None\<rparr>"

definition vault_touch :: "time \<Rightarrow> ('k, 'd) vault \<Rightarrow> ('k, 'd) vault" where
  "vault_touch now v = (case (vt_key v, vt_autoLockMs v) of
       (Some _, Some ms) \<Rightarrow> v\<lparr>vt_timer := Some (now + ms)\<rparr> | _ \<Rightarrow> v)"

text \<open>The callback of the auto-lock timer, run once its instant has come.\<close>

definition vault_timer_fires :: "time \<Rightarrow> ('k, 'd) vault \<Rightarrow> ('k, 'd) vault" where
  "vault_timer_fires now v = (case vt_timer v of
       Some t \<Rightarrow> if t \<le> now then vault_lock v else v | None \<Rightarrow> v)"

definition hasVault :: "('k, 'd) vault \<Rightarrow> bool" where
  "hasVault v = (map_get (vt_storage v) MASTER_SALT_STORAGE_KEY \<noteq> None)"

definition loadMasterSalt :: "'d vault_storage \<Rightarrow> nat list option" where
  "loadMasterSalt s = (case map_get s MASTER_SALT_STORAGE_KEY of
       Some (StSalt bs) \<Rightarrow> if length bs \<noteq> 16 then None else Some bs | _ \<Rightarrow> None)"

definition readEncryptedPayload :: "'d vault_storage \<Rightarrow> string \<Rightarrow> 'd encrypted_payload option" where
  "readEncryptedPayload s k = (case map_get s k of Some (StPayload p) \<Rightarrow> Some p | _ \<Rightarrow> None)"

definition encryptData :: "('k, 'd) vault_crypto \<Rightarrow> 'k \<Rightarrow> nat list \<times> nat list \<Rightarrow> string \<Rightarrow> 'd encrypted_payload" where
  "encryptData c key rnd text = \<lparr>ep_salt = fst rnd, ep_iv = snd rnd, ep_data = vc_encrypt c key (fst rnd) (snd rnd) text\<rparr>"

definition decryptData :: "('k, 'd) vault_crypto \<Rightarrow> 'k \<Rightarrow> 'd encrypted_payload \<Rightarrow> string option" where
  "decryptData c key p = vc_decrypt c key (ep_salt p) (ep_iv p) (ep_data p)"

text \<open>The verification text: a marker and the time.\<close>

definition verification_text :: "time \<Rightarrow> string" where
  "verification_text now = [CHR ''{'', CHR 0x22] @ ''marker'' @ [CHR 0x22, CHR '':'', CHR 0x22] @ ''KIRO_VERIFICATION_V1''
     @ [CHR 0x22, CHR '','', CHR 0x22] @ ''timestamp'' @ [CHR 0x22, CHR '':''] @ show_int now @ ''}''"

definition createVerificationPayload ::
  "('k, 'd) vault_crypto \<Rightarrow> 'k \<Rightarrow> nat list \<times> nat list \<Rightarrow> time \<Rightarrow> string \<times> 'd stored" where
  "createVerificationPayload c key rnd now =
     (VERIFICATION_PAYLOAD_STORAGE_KEY, StPayload (encryptData c key rnd (verification_text now)))"

text \<open>The verdict on the key that is set, and the key afterwards: only a failed decryption clears it.\<close>

definition verifyPassword :: "('k, 'd) vault_crypto \<Rightarrow> 'd vault_storage \<Rightarrow> 'k \<Rightarrow> bool \<times> 'k option" where
  "verifyPassword c s key = (case readEncryptedPayload s VERIFICATION_PAYLOAD_STORAGE_KEY of
       None \<Rightarrow> (False, Some key)
     | Some p \<Rightarrow> (case decryptData c key p of None \<Rightarrow> (False, None) | Some _ \<Rightarrow> (True, Some key)))"

section \<open>Operations\<close>

text \<open>A sequence of writes to the storage, in order.\<close>

definition apply_writes :: "(string \<times> 'd stored) list \<Rightarrow> 'd vault_storage \<Rightarrow> 'd vault_storage" where
  "apply_writes ws s = fold (\<lambda>(k, x). map_set k x) ws s"

definition vault_unlock ::
  "('k, 'd) vault_crypto \<Rightarrow> nat list \<Rightarrow> nat list \<times> nat list \<Rightarrow> time \<Rightarrow> string \<Rightarrow> ('k, 'd) vault \<Rightarrow> bool \<times> ('k, 'd) vault" where
  "vault_unlock c new_salt rnd now password v =
     (if vt_key v \<noteq> None then (True, vault_touch now v)
      else case loadMasterSalt (vt_storage v) of
        None \<Rightarrow>
          (let key = vc_derive c password new_salt
           in (True, vault_touch now (v\<lparr>vt_key := Some key,
                 vt_storage := apply_writes [createVerificationPayload c key rnd now,
                   (MASTER_SALT_STORAGE_KEY, StSalt new_salt)] (vt_storage v)\<rparr>)))
      | Some masterSalt \<Rightarrow>
          (case verifyPassword c (vt_storage v) (vc_derive c password masterSalt) of
             (ok, key) \<Rightarrow> (ok, if ok then vault_touch now (v\<lparr>vt_key := key\<rparr>) else v\<lparr>vt_key := key\<rparr>)))"

text \<open>\<open>None\<close> is the throw of a locked manager.\<close>

definition vault_saveItem ::
  "('k, 'd) vault_crypto \<Rightarrow> nat list \<times> nat list \<Rightarrow> time \<Rightarrow> string \<Rightarrow> string \<Rightarrow> ('k, 'd) vault \<Rightarrow> ('k, 'd) vault option" where
  "vault_saveItem c rnd now k text v = (case vt_key v of
       None \<Rightarrow> None
     | Some key \<Rightarrow> Some (vault_touch now (v\<lparr>vt_storage := map_set k (StPayload (encryptData c key rnd text)) (vt_storage v)\<rparr>)))"

definition vault_getItem ::
  "('k, 'd) vault_crypto \<Rightarrow> time \<Rightarrow> string \<Rightarrow> ('k, 'd) vault \<Rightarrow> (string option \<times> ('k, 'd) vault) option" where
  "vault_getItem c now k v = (case vt_key v of
       None \<Rightarrow> None
     | Some key \<Rightarrow> Some (case readEncryptedPayload (vt_storage v) k of
         None \<Rightarrow> (None, v)
       | Some p \<Rightarrow> (case decryptData c key p of None \<Rightarrow> (None, v) | Some text \<Rightarrow> (Some text, vault_touch now v))))"

text \<open>The typed helpers; values are their JSON texts, and an absent list of keys or recipients is the empty one.\<close>

definition saveAccount :: "('k, 'd) vault_crypto \<Rightarrow> nat list \<times> nat list \<Rightarrow> time \<Rightarrow> string \<Rightarrow> ('k, 'd) vault \<Rightarrow> ('k, 'd) vault option" where
  "saveAccount c rnd now account v = vault_saveItem c rnd now ''account'' account v"

definition getAccount :: "('k, 'd) vault_crypto \<Rightarrow> time \<Rightarrow> ('k, 'd) vault \<Rightarrow> (string option \<times> ('k, 'd) vault) option" where
  "getAccount c now v = vault_getItem c now ''account'' v"

definition saveSessionKeys :: "('k, 'd) vault_crypto \<Rightarrow> nat list \<times> nat list \<Rightarrow> time \<Rightarrow> string \<Rightarrow> ('k, 'd) vault \<Rightarrow> ('k, 'd) vault option" where
  "saveSessionKeys c rnd now ks v = vault_saveItem c rnd now ''sessionKeys'' ks v"

definition getSessionKeys :: "('k, 'd) vault_crypto \<Rightarrow> time \<Rightarrow> ('k, 'd) vault \<Rightarrow> (string \<times> ('k, 'd) vault) option" where
  "getSessionKeys c now v = map_option (\<lambda>(r, v'). (coalesce r ([CHR ''{'', CHR 0x22] @ ''keys'' @ [CHR 0x22] @ '':{}}''), v'))
     (vault_getItem c now ''sessionKeys'' v)"

definition saveRecentRecipients :: "('k, 'd) vault_crypto \<Rightarrow> nat list \<times> nat list \<Rightarrow> time \<Rightarrow> string \<Rightarrow> ('k, 'd) vault \<Rightarrow> ('k, 'd) vault option" where
  "saveRecentRecipients c rnd now rs v = vault_saveItem c rnd now ''recentRecipients'' rs v"

definition getRecentRecipients :: "('k, 'd) vault_crypto \<Rightarrow> time \<Rightarrow> ('k, 'd) vault \<Rightarrow> (string \<times> ('k, 'd) vault) option" where
  "getRecentRecipients c now v = map_option (\<lambda>(r, v'). (coalesce r ([CHR ''{'', CHR 0x22] @ ''recipients'' @ [CHR 0x22] @ '':[]}''), v'))
     (vault_getItem c now ''recentRecipients'' v)"

definition vault_deleteItem :: "string \<Rightarrow> ('k, 'd) vault \<Rightarrow> ('k, 'd) vault" where
  "vault_deleteItem k v = v\<lparr>vt_storage := map_delete k (vt_storage v)\<rparr>"

definition vault_reset :: "string list \<Rightarrow> ('k, 'd) vault \<Rightarrow> ('k, 'd) vault" where
  "vault_reset additionalKeys v = vault_lock (v\<lparr>vt_storage := fold map_delete
     ([MASTER_SALT_STORAGE_KEY, VERIFICATION_PAYLOAD_STORAGE_KEY] @ DEFAULT_DATA_KEYS @ additionalKeys) (vt_storage v)\<rparr>)"

text \<open>
  The password change. First everything is decrypted: \<open>None\<close> when one payload cannot be. Then the
  writes, in the order they are made: the data, the verification payload, the salt.
\<close>

fun decrypt_all :: "('k, 'd) vault_crypto \<Rightarrow> 'k \<Rightarrow> 'd vault_storage \<Rightarrow> string list \<Rightarrow> (string \<times> string) list option" where
  "decrypt_all c key s [] = Some []"
| "decrypt_all c key s (k # ks) = (case readEncryptedPayload s k of
       None \<Rightarrow> decrypt_all c key s ks
     | Some p \<Rightarrow> (case decryptData c key p of
         None \<Rightarrow> None
       | Some text \<Rightarrow> map_option ((#) (k, text)) (decrypt_all c key s ks)))"

definition change_writes ::
  "('k, 'd) vault_crypto \<Rightarrow> nat list \<Rightarrow> (string \<Rightarrow> nat list \<times> nat list) \<Rightarrow> time \<Rightarrow> string
     \<Rightarrow> (string \<times> string) list \<Rightarrow> (string \<times> 'd stored) list" where
  "change_writes c new_salt rnd now newPassword items =
     (let key = vc_derive c newPassword new_salt
      in map (\<lambda>(k, text). (k, StPayload (encryptData c key (rnd k) text))) items
         @ [createVerificationPayload c key (rnd VERIFICATION_PAYLOAD_STORAGE_KEY) now,
            (MASTER_SALT_STORAGE_KEY, StSalt new_salt)])"

datatype change_result = Changed bool | Unreadable

definition change_keys :: "string list \<Rightarrow> string list" where
  "change_keys additionalKeys = rev (remdups (rev (DEFAULT_DATA_KEYS @ additionalKeys)))"

definition changePassword ::
  "('k, 'd) vault_crypto \<Rightarrow> nat list \<Rightarrow> (string \<Rightarrow> nat list \<times> nat list) \<Rightarrow> time \<Rightarrow> string \<Rightarrow> string \<Rightarrow> string list
     \<Rightarrow> ('k, 'd) vault \<Rightarrow> change_result \<times> ('k, 'd) vault" where
  "changePassword c new_salt rnd now currentPassword newPassword additionalKeys v =
     (case loadMasterSalt (vt_storage v) of
        None \<Rightarrow> (Changed False, v)
      | Some masterSalt \<Rightarrow>
          (let key = vc_derive c currentPassword masterSalt; v1 = vault_lock v
           in if \<not> fst (verifyPassword c (vt_storage v) key) then (Changed False, v1)
              else case decrypt_all c key (vt_storage v) (change_keys additionalKeys) of
                None \<Rightarrow> (Unreadable, v1)
              | Some items \<Rightarrow> (Changed True, vault_touch now (v1\<lparr>
                    vt_key := Some (vc_derive c newPassword new_salt),
                    vt_storage := apply_writes (change_writes c new_salt rnd now newPassword items) (vt_storage v)\<rparr>))))"

section \<open>Lemmas\<close>

text \<open>
  What is relied on of the crypto: decryption inverts encryption under the same key, fails under
  another key, and different passwords or salts derive different keys. This is the symbolic
  idealisation: PBKDF2 has collisions (HMAC pads a short password with zero bytes), which are left out.
\<close>

definition crypto_sound :: "('k, 'd) vault_crypto \<Rightarrow> bool" where
  "crypto_sound c \<longleftrightarrow> (\<forall>k s iv m. vc_decrypt c k s iv (vc_encrypt c k s iv m) = Some m)
     \<and> (\<forall>k k' s iv m. k' \<noteq> k \<longrightarrow> vc_decrypt c k' s iv (vc_encrypt c k s iv m) = None)
     \<and> (\<forall>p q s t. vc_derive c p s = vc_derive c q t \<longrightarrow> p = q \<and> s = t)"

lemma decrypt_encrypt: "crypto_sound c \<Longrightarrow> decryptData c k' (encryptData c k r m) = (if k' = k then Some m else None)"
  by (simp add: crypto_sound_def decryptData_def encryptData_def)

lemma derive_eq: "crypto_sound c \<Longrightarrow> vc_derive c p s = vc_derive c q t \<longleftrightarrow> p = q \<and> s = t"
  by (auto simp: crypto_sound_def)

text \<open>The storage of a vault with password \<open>p\<close>, and what it holds under a key for password \<open>q\<close>.\<close>

definition vault_for :: "('k, 'd) vault_crypto \<Rightarrow> string \<Rightarrow> 'd vault_storage \<Rightarrow> bool" where
  "vault_for c p s \<longleftrightarrow> (\<exists>salt r t. loadMasterSalt s = Some salt
     \<and> readEncryptedPayload s VERIFICATION_PAYLOAD_STORAGE_KEY = Some (encryptData c (vc_derive c p salt) r t))"

definition vault_content :: "('k, 'd) vault_crypto \<Rightarrow> string \<Rightarrow> 'd vault_storage \<Rightarrow> string \<Rightarrow> string option" where
  "vault_content c q s k = (case (loadMasterSalt s, readEncryptedPayload s k) of
       (Some salt, Some p) \<Rightarrow> decryptData c (vc_derive c q salt) p | _ \<Rightarrow> None)"

definition reserved_keys :: "string set" where
  "reserved_keys = {MASTER_SALT_STORAGE_KEY, VERIFICATION_PAYLOAD_STORAGE_KEY}"

lemma key_names: "MASTER_SALT_STORAGE_KEY \<noteq> VERIFICATION_PAYLOAD_STORAGE_KEY"
  "VERIFICATION_PAYLOAD_STORAGE_KEY \<noteq> MASTER_SALT_STORAGE_KEY"
  "set DEFAULT_DATA_KEYS \<inter> reserved_keys = {}"
  by (simp_all add: MASTER_SALT_STORAGE_KEY_def VERIFICATION_PAYLOAD_STORAGE_KEY_def DEFAULT_DATA_KEYS_def reserved_keys_def)

lemma touch_simps [simp]: "vt_key (vault_touch now v) = vt_key v" "vt_storage (vault_touch now v) = vt_storage v"
  by (simp_all add: vault_touch_def split: option.splits)

lemma lock_simps [simp]: "vt_key (vault_lock v) = None" "vt_storage (vault_lock v) = vt_storage v"
  by (simp_all add: vault_lock_def)

lemma salt_set: "loadMasterSalt (map_set k x s) = (if k = MASTER_SALT_STORAGE_KEY
   then (case x of StSalt bs \<Rightarrow> if length bs \<noteq> 16 then None else Some bs | _ \<Rightarrow> None) else loadMasterSalt s)"
  by (simp add: loadMasterSalt_def jsmap_simps)

lemma read_set: "readEncryptedPayload (map_set k x s) k' = (if k' = k
   then (case x of StPayload p \<Rightarrow> Some p | _ \<Rightarrow> None) else readEncryptedPayload s k')"
  by (simp add: readEncryptedPayload_def jsmap_simps)

lemma writes_simps [simp]: "apply_writes [] s = s"
  "apply_writes ((k, x) # ws) s = apply_writes ws (map_set k x s)"
  "apply_writes (ws @ ws') s = apply_writes ws' (apply_writes ws s)"
  by (simp_all add: apply_writes_def)

lemma unlock_vault:
  assumes "crypto_sound c" "vault_for c p (vt_storage v)" "vt_key v = None"
  obtains salt where "loadMasterSalt (vt_storage v) = Some salt"
    "fst (vault_unlock c ns r now q v) = (q = p)"
    "vt_key (snd (vault_unlock c ns r now q v)) = (if q = p then Some (vc_derive c p salt) else None)"
    "vt_storage (snd (vault_unlock c ns r now q v)) = vt_storage v"
proof -
  from assms(2) obtain salt r' t where s: "loadMasterSalt (vt_storage v) = Some salt"
    "readEncryptedPayload (vt_storage v) VERIFICATION_PAYLOAD_STORAGE_KEY = Some (encryptData c (vc_derive c p salt) r' t)"
    by (auto simp: vault_for_def)
  with assms(1,3) show thesis
    by (intro that [of salt])
       (simp_all add: vault_unlock_def verifyPassword_def decrypt_encrypt derive_eq split: prod.split)
qed

lemma first_unlock:
  assumes "loadMasterSalt (vt_storage v) = None" "vt_key v = None" "length ns = 16"
  shows "fst (vault_unlock c ns r now p v)" "vault_for c p (vt_storage (snd (vault_unlock c ns r now p v)))"
    "vt_key (snd (vault_unlock c ns r now p v)) = Some (vc_derive c p ns)"
    "loadMasterSalt (vt_storage (snd (vault_unlock c ns r now p v))) = Some ns"
proof -
  show "fst (vault_unlock c ns r now p v)" "vt_key (snd (vault_unlock c ns r now p v)) = Some (vc_derive c p ns)"
    and salt: "loadMasterSalt (vt_storage (snd (vault_unlock c ns r now p v))) = Some ns"
    using assms by (simp_all add: vault_unlock_def Let_def createVerificationPayload_def salt_set)
  have "readEncryptedPayload (vt_storage (snd (vault_unlock c ns r now p v))) VERIFICATION_PAYLOAD_STORAGE_KEY
      = Some (encryptData c (vc_derive c p ns) r (verification_text now))"
    using assms key_names by (simp add: vault_unlock_def Let_def createVerificationPayload_def read_set)
  with salt show "vault_for c p (vt_storage (snd (vault_unlock c ns r now p v)))"
    unfolding vault_for_def by blast
qed

lemma save_keeps: "vault_saveItem c r now k text v = Some v' \<Longrightarrow> k \<notin> reserved_keys \<Longrightarrow>
   loadMasterSalt (vt_storage v') = loadMasterSalt (vt_storage v)
   \<and> readEncryptedPayload (vt_storage v') VERIFICATION_PAYLOAD_STORAGE_KEY
     = readEncryptedPayload (vt_storage v) VERIFICATION_PAYLOAD_STORAGE_KEY"
  by (auto simp: vault_saveItem_def reserved_keys_def salt_set read_set split: option.splits)

lemma get_locked: "vt_key v = None \<Longrightarrow> vault_getItem c now k v = None"
  by (simp add: vault_getItem_def)

lemma get_content:
  assumes "vt_key v = Some (vc_derive c q salt)" "loadMasterSalt (vt_storage v) = Some salt"
  shows "map_option fst (vault_getItem c now k v) = Some (vault_content c q (vt_storage v) k)"
  using assms by (simp add: vault_getItem_def vault_content_def split: option.split)

text \<open>Reading after a list of writes to distinct keys.\<close>

lemma writes_get: "map_get (apply_writes ws s) k =
   (case map_of (rev ws) k of Some x \<Rightarrow> Some x | None \<Rightarrow> map_get s k)"
proof (induction ws arbitrary: s)
  case (Cons w ws)
  then show ?case by (cases w) (simp add: jsmap_simps map_add_def split: option.splits)
qed simp

lemma decrypt_all_keys: "decrypt_all c key s ks = Some items \<Longrightarrow>
   map fst items = filter (\<lambda>k. readEncryptedPayload s k \<noteq> None) ks
   \<and> (\<forall>(k, text) \<in> set items. \<exists>p. readEncryptedPayload s k = Some p \<and> decryptData c key p = Some text)"
proof (induction ks arbitrary: items)
  case (Cons k ks)
  show ?case
  proof (cases "readEncryptedPayload s k")
    case None
    with Cons show ?thesis by simp
  next
    case (Some p)
    with Cons.prems obtain m rest where "decryptData c key p = Some m" "decrypt_all c key s ks = Some rest"
      "items = (k, m) # rest" by (auto split: option.splits)
    with Some Cons.IH [of rest] show ?thesis by simp
  qed
qed simp

lemma items_distinct: "decrypt_all c key s (change_keys ks) = Some items \<Longrightarrow> distinct (map fst items)"
  using decrypt_all_keys by (fastforce simp: change_keys_def)

lemma items_unreserved: "decrypt_all c key s (change_keys ks) = Some items \<Longrightarrow> set ks \<inter> reserved_keys = {} \<Longrightarrow>
   set (map fst items) \<inter> reserved_keys = {}"
proof -
  assume a: "decrypt_all c key s (change_keys ks) = Some items" "set ks \<inter> reserved_keys = {}"
  have "set (map fst items) \<subseteq> set (change_keys ks)"
    using decrypt_all_keys [OF a(1)] by (metis filter_is_subset)
  with a(2) key_names(3) show ?thesis by (auto simp: change_keys_def)
qed

text \<open>The storage after a prefix of the writes of a password change that does not reach the salt.\<close>

lemma change_split: "change_writes c ns rnd now new items =
   map (\<lambda>(k, m). (k, StPayload (encryptData c (vc_derive c new ns) (rnd k) m))) items
   @ [createVerificationPayload c (vc_derive c new ns) (rnd VERIFICATION_PAYLOAD_STORAGE_KEY) now,
      (MASTER_SALT_STORAGE_KEY, StSalt ns)]"
  by (simp add: change_writes_def Let_def)

lemma writes_read:
  assumes "distinct (map fst ws)"
  shows "map_get (apply_writes ws s) k = (case map_of ws k of Some x \<Rightarrow> Some x | None \<Rightarrow> map_get s k)"
  using assms
proof (induction ws arbitrary: s)
  case (Cons w ws)
  moreover have "map_of ws (fst w) = None" using Cons.prems by (simp add: map_of_eq_None_iff)
  ultimately show ?case by (cases w) (auto simp: jsmap_simps split: option.splits)
qed simp

lemma change_distinct:
  assumes "distinct (map fst items)" "set (map fst items) \<inter> reserved_keys = {}"
  shows "distinct (map fst (change_writes c ns rnd now new items))"
proof -
  have "map fst (change_writes c ns rnd now new items) = map fst items @ [VERIFICATION_PAYLOAD_STORAGE_KEY, MASTER_SALT_STORAGE_KEY]"
    by (auto simp: change_split createVerificationPayload_def)
  with assms key_names show ?thesis by (auto simp: reserved_keys_def)
qed

lemma change_map_of:
  assumes "distinct (map fst items)" "set (map fst items) \<inter> reserved_keys = {}"
  shows "map_of (change_writes c ns rnd now new items) k =
    (if k = MASTER_SALT_STORAGE_KEY then Some (StSalt ns)
     else if k = VERIFICATION_PAYLOAD_STORAGE_KEY
     then Some (StPayload (encryptData c (vc_derive c new ns) (rnd k) (verification_text now)))
     else map_option (\<lambda>m. StPayload (encryptData c (vc_derive c new ns) (rnd k) m)) (map_of items k))"
proof -
  have "map_of (map (\<lambda>(k, m). (k, StPayload (encryptData c (vc_derive c new ns) (rnd k) m))) items) k
      = map_option (\<lambda>m. StPayload (encryptData c (vc_derive c new ns) (rnd k) m)) (map_of items k)" for k
    by (induction items) auto
  moreover have "map_of items MASTER_SALT_STORAGE_KEY = None" "map_of items VERIFICATION_PAYLOAD_STORAGE_KEY = None"
    using assms(2) by (auto simp: map_of_eq_None_iff reserved_keys_def)
  ultimately show ?thesis
    using key_names by (auto simp: change_split createVerificationPayload_def map_add_def split: option.splits)
qed

lemma take_map_of:
  assumes "distinct (map fst ws)" "map_of (take n ws) k = Some x"
  shows "map_of ws k = Some x"
  using assms by (metis append_take_drop_id map_of_append map_add_find_right map_add_dom_app_simps(3)
      distinct_append map_append map_of_eq_None_iff dom_map_of_conv_image_fst disjoint_iff domI map_add_dom_app_simps(1))

section \<open>Properties\<close>

text \<open>
  C31. The vault keeps what it is given and opens for its password only: an item saved after unlocking
  a fresh or an existing vault with password p is read back after locking and unlocking with q exactly
  if q is p; any other password is refused, leaves the vault locked, and every read then throws.
\<close>

theorem vault_roundtrip:
  assumes "crypto_sound c" "loadMasterSalt s = None \<or> vault_for c p s" "length ns = 16" "k \<notin> reserved_keys"
    and "vault_saveItem c r2 t2 k m (snd (vault_unlock c ns r t p (new_vault s a))) = Some v"
  shows "case vault_unlock c ns' r3 t3 q (vault_lock v) of (ok, w) \<Rightarrow>
     ok = (q = p) \<and> map_option fst (vault_getItem c t4 k w) = (if q = p then Some (Some m) else None)"
proof -
  let ?v1 = "snd (vault_unlock c ns r t p (new_vault s a))"
  have nv: "vt_key (new_vault s a) = None" "vt_storage (new_vault s a) = s" by (simp_all add: new_vault_def)
  have "\<exists>salt. vault_for c p (vt_storage ?v1) \<and> loadMasterSalt (vt_storage ?v1) = Some salt \<and> vt_key ?v1 = Some (vc_derive c p salt)"
  proof (cases "vault_for c p s")
    case True
    then show ?thesis by (rule unlock_vault [OF assms(1), where v = "new_vault s a" and p = p and ns = ns and r = r and now = t and q = p, unfolded nv]) (use True nv in auto)
  next
    case False
    with assms(2) have "loadMasterSalt (vt_storage (new_vault s a)) = None" by (simp add: nv)
    from first_unlock [OF this nv(1) assms(3), where c = c and r = r and now = t and p = p] show ?thesis by blast
  qed
  then obtain salt where v1: "vault_for c p (vt_storage ?v1)" "loadMasterSalt (vt_storage ?v1) = Some salt"
      "vt_key ?v1 = Some (vc_derive c p salt)" by blast
  note keep = save_keeps [OF assms(5,4)]
  have vf: "vault_for c p (vt_storage (vault_lock v))" using v1(1) keep by (simp add: vault_for_def)
  have content: "vault_content c p (vt_storage v) k = Some m"
    using assms(5) v1(2,3) keep assms(1)
    by (auto simp: vault_saveItem_def vault_content_def read_set decrypt_encrypt split: option.splits)
  have lk: "vt_key (vault_lock v) = None" by simp
  show ?thesis
  proof (rule unlock_vault [OF assms(1) vf lk, where ns = ns' and r = r3 and now = t3 and q = q])
    fix salt' assume u: "loadMasterSalt (vt_storage (vault_lock v)) = Some salt'"
      "fst (vault_unlock c ns' r3 t3 q (vault_lock v)) = (q = p)"
      "vt_key (snd (vault_unlock c ns' r3 t3 q (vault_lock v))) = (if q = p then Some (vc_derive c p salt') else None)"
      "vt_storage (snd (vault_unlock c ns' r3 t3 q (vault_lock v))) = vt_storage (vault_lock v)"
    with content get_content [where v = "snd (vault_unlock c ns' r3 t3 q (vault_lock v))" and c = c and q = p and salt = salt' and now = t4 and k = k] show ?thesis
      by (auto simp: split_def get_locked)
  qed
qed

text \<open>A symbolic instance of the crypto, which satisfies the assumption.\<close>

definition symbolic_crypto :: "(string \<times> nat list, (string \<times> nat list) \<times> nat list \<times> nat list \<times> string) vault_crypto" where
  "symbolic_crypto = \<lparr>vc_derive = Pair, vc_encrypt = (\<lambda>k s iv m. (k, s, iv, m)),
     vc_decrypt = (\<lambda>k s iv (k', s', iv', m). if k = k' \<and> s = s' \<and> iv = iv' then Some m else None)\<rparr>"

lemma symbolic_sound: "crypto_sound symbolic_crypto"
  by (simp add: crypto_sound_def symbolic_crypto_def)

definition demo_salt :: "nat list" where
  "demo_salt = replicate 16 7"

definition demo_vault :: "(string \<times> nat list, (string \<times> nat list) \<times> nat list \<times> nat list \<times> string) vault" where
  "demo_vault = the (vault_saveItem symbolic_crypto ([1], [2]) 5 ''account'' ''A1''
     (snd (vault_unlock symbolic_crypto demo_salt ([3], [4]) 5 ''pw'' (new_vault [] None))))"

lemma demo_saved: "vault_saveItem symbolic_crypto ([1], [2]) 5 ''account'' ''A1''
     (snd (vault_unlock symbolic_crypto demo_salt ([3], [4]) 5 ''pw'' (new_vault [] None))) = Some demo_vault"
proof -
  have "vt_key (snd (vault_unlock symbolic_crypto demo_salt ([3], [4]) 5 ''pw'' (new_vault [] None))) \<noteq> None"
    using first_unlock(3) [where v = "new_vault [] None" and ns = demo_salt and c = symbolic_crypto and r = "([3], [4])" and now = 5 and p = "''pw''"]
    by (simp add: new_vault_def loadMasterSalt_def demo_salt_def)
  then show ?thesis by (auto simp: demo_vault_def vault_saveItem_def)
qed

lemma demo_unreserved: "''account'' \<notin> reserved_keys"
  by (simp add: reserved_keys_def MASTER_SALT_STORAGE_KEY_def VERIFICATION_PAYLOAD_STORAGE_KEY_def)

theorem vault_roundtrip_witness:
  "case vault_unlock symbolic_crypto [] ([], []) 9 ''pw'' (vault_lock demo_vault) of (ok, w) \<Rightarrow>
     ok \<and> map_option fst (vault_getItem symbolic_crypto 10 ''account'' w) = Some (Some ''A1'')"
  using vault_roundtrip [OF symbolic_sound _ _ demo_unreserved demo_saved, where ns' = "[]" and ?r3.0 = "([], [])" and ?t3.0 = 9 and q = "''pw''" and ?t4.0 = 10]
  by (simp add: loadMasterSalt_def demo_salt_def split_def)

text \<open>
  A password is checked only while the vault is locked and its verification payload is readable:
  an unlocked vault answers true to every password, and when the verification payload is missing the
  first unlock answers false but leaves the derived key in place, so the next unlock answers true
  whatever its password.
\<close>

theorem unlock_without_check:
  "(vt_key v \<noteq> None \<longrightarrow> fst (vault_unlock c ns r t q v))
   \<and> (vt_key v = None \<and> loadMasterSalt (vt_storage v) = Some salt
        \<and> readEncryptedPayload (vt_storage v) VERIFICATION_PAYLOAD_STORAGE_KEY = None \<longrightarrow>
      (case vault_unlock c ns r t p v of (ok, w) \<Rightarrow> \<not> ok \<and> vault_isUnlocked w \<and> fst (vault_unlock c ns' r' t' q w)))"
  by (auto simp: vault_unlock_def verifyPassword_def vault_isUnlocked_def)

definition demo_broken :: "(string \<times> nat list, (string \<times> nat list) \<times> nat list \<times> nat list \<times> string) vault" where
  "demo_broken = new_vault [(''master_salt'', StSalt demo_salt)] None"

theorem unlock_without_check_witness:
  "case vault_unlock symbolic_crypto [] ([], []) 1 ''right'' demo_broken of (ok, w) \<Rightarrow>
     \<not> ok \<and> vault_isUnlocked w \<and> fst (vault_unlock symbolic_crypto [] ([], []) 2 ''wrong'' w)"
proof -
  have h: "vt_key demo_broken = None" "loadMasterSalt (vt_storage demo_broken) = Some demo_salt"
    "readEncryptedPayload (vt_storage demo_broken) VERIFICATION_PAYLOAD_STORAGE_KEY = None"
    by (simp_all add: demo_broken_def new_vault_def loadMasterSalt_def map_get_def MASTER_SALT_STORAGE_KEY_def demo_salt_def
        readEncryptedPayload_def VERIFICATION_PAYLOAD_STORAGE_KEY_def)
  show ?thesis
    by (rule mp [OF conjunct2 [OF unlock_without_check [where v = demo_broken and c = symbolic_crypto and ns = "[]"
        and r = "([], [])" and t = 1 and q = "''wrong''" and salt = demo_salt and p = "''right''"
        and ns' = "[]" and r' = "([], [])" and t' = 2]]]) (intro conjI h)
qed

text \<open>
  C14. A password change re-encrypts the items of its key list: the account, the session keys, the recent
  recipients and the keys the caller names. With the right current password, these readable and a fresh salt, it
  answers true; from then on exactly the new password unlocks, and every key of the list holds under the new
  password what it held under the old one. The payload stored under any other key is left as it is, encrypted
  under the old password. A wrong current password answers false and leaves the storage as it is, with the vault
  locked.
\<close>

theorem change_password_keeps_data:
  assumes "crypto_sound c" "vault_for c cur (vt_storage v)" "length ns = 16" "set ks \<inter> reserved_keys = {}"
    and "loadMasterSalt (vt_storage v) = Some salt"
    and "decrypt_all c (vc_derive c cur salt) (vt_storage v) (change_keys ks) = Some items"
  shows "(case changePassword c ns rnd now cur new ks v of (res, w) \<Rightarrow> res = Changed True
      \<and> fst (vault_unlock c ns' r t q (vault_lock w)) = (q = new)
      \<and> (\<forall>k \<in> set (change_keys ks). vault_content c new (vt_storage w) k = vault_content c cur (vt_storage v) k)
      \<and> (\<forall>k. k \<notin> set (change_keys ks) \<union> reserved_keys \<longrightarrow> map_get (vt_storage w) k = map_get (vt_storage v) k))
    \<and> (p \<noteq> cur \<longrightarrow> changePassword c ns rnd now p new ks v = (Changed False, vault_lock v))"
proof -
  obtain r' m where ver: "readEncryptedPayload (vt_storage v) VERIFICATION_PAYLOAD_STORAGE_KEY = Some (encryptData c (vc_derive c cur salt) r' m)"
    using assms(2,5) by (auto simp: vault_for_def)
  have ok: "fst (verifyPassword c (vt_storage v) (vc_derive c p salt)) = (p = cur)" for p
    using ver assms(1) by (auto simp: verifyPassword_def decrypt_encrypt derive_eq)
  let ?ws = "change_writes c ns rnd now new items" and ?w = "snd (changePassword c ns rnd now cur new ks v)"
  have d: "distinct (map fst items)" "set (map fst items) \<inter> reserved_keys = {}"
    using items_distinct [OF assms(6)] items_unreserved [OF assms(6,4)] by blast+
  have w: "fst (changePassword c ns rnd now cur new ks v) = Changed True" "vt_storage ?w = apply_writes ?ws (vt_storage v)"
    using assms(5,6) ok by (simp_all add: changePassword_def Let_def)
  note get = writes_read [OF change_distinct [OF d]]
  have salt': "loadMasterSalt (vt_storage ?w) = Some ns"
    using assms(3) by (simp add: w loadMasterSalt_def get change_map_of [OF d])
  have "readEncryptedPayload (vt_storage ?w) VERIFICATION_PAYLOAD_STORAGE_KEY
      = Some (encryptData c (vc_derive c new ns) (rnd VERIFICATION_PAYLOAD_STORAGE_KEY) (verification_text now))"
    using key_names by (simp add: w readEncryptedPayload_def get change_map_of [OF d])
  with salt' have "vault_for c new (vt_storage ?w)" unfolding vault_for_def by blast
  then have vf: "vault_for c new (vt_storage (vault_lock ?w))" by simp
  have lk: "vt_key (vault_lock ?w) = None" by simp
  have "fst (vault_unlock c ns' r t q (vault_lock ?w)) = (q = new)"
    by (rule unlock_vault [OF assms(1) vf lk, where ns = ns' and r = r and now = t and q = q])
  moreover have "vault_content c new (vt_storage ?w) k = vault_content c cur (vt_storage v) k" if k: "k \<in> set (change_keys ks)" for k
  proof -
    note items = decrypt_all_keys [OF assms(6)]
    have nr: "k \<noteq> MASTER_SALT_STORAGE_KEY" "k \<noteq> VERIFICATION_PAYLOAD_STORAGE_KEY"
      using k assms(4) key_names(3) by (auto simp: change_keys_def reserved_keys_def)
    show ?thesis
    proof (cases "map_of items k")
      case None
      then have "k \<notin> set (map fst items)" by (simp add: map_of_eq_None_iff)
      moreover have "set (map fst items) = {k \<in> set (change_keys ks). readEncryptedPayload (vt_storage v) k \<noteq> None}"
        using items by (metis set_filter)
      ultimately have "readEncryptedPayload (vt_storage v) k = None" using k by blast
      with None nr show ?thesis by (simp add: vault_content_def w readEncryptedPayload_def get change_map_of [OF d] split: option.splits stored.splits)
    next
      case (Some m)
      then obtain p where "readEncryptedPayload (vt_storage v) k = Some p" "decryptData c (vc_derive c cur salt) p = Some m"
        using items by (fastforce dest: map_of_SomeD)
      then have "vault_content c cur (vt_storage v) k = Some m" using assms(5) by (simp add: vault_content_def)
      moreover have "readEncryptedPayload (vt_storage ?w) k = Some (encryptData c (vc_derive c new ns) (rnd k) m)"
        using Some nr by (simp add: w readEncryptedPayload_def get change_map_of [OF d])
      ultimately show ?thesis using salt' assms(1) by (simp add: vault_content_def decrypt_encrypt)
    qed
  qed
  moreover have "map_get (vt_storage ?w) k = map_get (vt_storage v) k" if "k \<notin> set (change_keys ks) \<union> reserved_keys" for k
  proof -
    have "map_of items k = None" using that decrypt_all_keys(1) [OF assms(6)] by (auto simp: map_of_eq_None_iff simp flip: set_map)
    with that show ?thesis by (simp add: w get change_map_of [OF d] reserved_keys_def)
  qed
  moreover have "changePassword c ns rnd now p new ks v = (Changed False, vault_lock v)" if "p \<noteq> cur"
    using that assms(5) ok by (simp add: changePassword_def Let_def)
  ultimately show ?thesis using w(1) by (auto simp: split_def)
qed

text \<open>
  An interrupted password change loses data, against its promise: once the first data item is
  written and before the last write, the salt, no password opens the items already written. The stored
  salt is still the old one, under which the new key cannot be derived; the new salt was never stored.
\<close>

theorem interrupted_change_loses_data:
  assumes "crypto_sound c" "loadMasterSalt (vt_storage v) = Some salt" "ns \<noteq> salt" "set ks \<inter> reserved_keys = {}"
    and "decrypt_all c (vc_derive c cur salt) (vt_storage v) (change_keys ks) = Some items"
    and "j < n" "j < length items" "n \<le> length items + 1"
  shows "vault_content c cur (vt_storage v) (fst (items ! j)) = Some (snd (items ! j))
    \<and> (\<forall>q. vault_content c q (apply_writes (take n (change_writes c ns rnd now new items)) (vt_storage v)) (fst (items ! j)) = None)"
proof -
  let ?ws = "change_writes c ns rnd now new items"
  obtain k m where km: "items ! j = (k, m)" by (cases "items ! j")
  then have mem: "(k, m) \<in> set items" using assms(7) nth_mem by metis
  note items = decrypt_all_keys [OF assms(5)]
  have d: "distinct (map fst items)" "set (map fst items) \<inter> reserved_keys = {}"
    using items_distinct [OF assms(5)] items_unreserved [OF assms(5,4)] by blast+
  have before: "vault_content c cur (vt_storage v) k = Some m"
    using items mem assms(2) by (fastforce simp: vault_content_def)
  have len: "length ?ws = length items + 2" by (simp add: change_split)
  have dw: "distinct (map fst ?ws)" by (rule change_distinct [OF d])
  then have dt: "distinct (map fst (take n ?ws))" by (simp add: take_map [symmetric] distinct_take)
  have wj: "?ws ! j = (k, StPayload (encryptData c (vc_derive c new ns) (rnd k) m))"
    using assms(7) km by (simp add: change_split nth_append)
  have "(k, StPayload (encryptData c (vc_derive c new ns) (rnd k) m)) \<in> set (take n ?ws)"
    using wj assms(6,7) len by (metis (no_types, lifting) in_set_conv_nth length_take min_less_iff_conj nth_take trans_less_add1)
  then have rk: "readEncryptedPayload (apply_writes (take n ?ws) (vt_storage v)) k = Some (encryptData c (vc_derive c new ns) (rnd k) m)"
    using dt by (simp add: readEncryptedPayload_def writes_read map_of_eq_Some_iff)
  have "MASTER_SALT_STORAGE_KEY \<notin> set (map fst (take n ?ws))"
  proof -
    have "set (take n ?ws) \<subseteq> set (take (length items + 1) ?ws)" using assms(8) by (rule set_take_subset_set_take)
    moreover have "take (length items + 1) ?ws = map (\<lambda>(k, m). (k, StPayload (encryptData c (vc_derive c new ns) (rnd k) m))) items
        @ [createVerificationPayload c (vc_derive c new ns) (rnd VERIFICATION_PAYLOAD_STORAGE_KEY) now]"
      by (simp add: change_split)
    ultimately show ?thesis
      using d(2) key_names by (force simp: createVerificationPayload_def reserved_keys_def)
  qed
  then have "map_of (take n ?ws) MASTER_SALT_STORAGE_KEY = None" by (simp add: map_of_eq_None_iff)
  then have "loadMasterSalt (apply_writes (take n ?ws) (vt_storage v)) = Some salt"
    using assms(2) dt by (simp add: loadMasterSalt_def writes_read)
  then have "vault_content c q (apply_writes (take n ?ws) (vt_storage v)) k = None" for q
    using rk assms(1,3) by (simp add: vault_content_def decrypt_encrypt derive_eq)
  with before km show ?thesis by simp
qed
definition fresh_salt :: "nat list" where
  "fresh_salt = replicate 16 9"

definition demo_random :: "string \<Rightarrow> nat list \<times> nat list" where
  "demo_random k = ([0], [1])"

lemma demo_vault_eq: "vt_storage demo_vault =
   [(''verification_payload'', StPayload (encryptData symbolic_crypto (''pw'', demo_salt) ([3], [4]) (verification_text 5))),
    (''master_salt'', StSalt demo_salt),
    (''account'', StPayload (encryptData symbolic_crypto (''pw'', demo_salt) ([1], [2]) ''A1''))]"
  "vt_key demo_vault = Some (''pw'', demo_salt)"
  by (simp_all add: demo_vault_def vault_saveItem_def vault_unlock_def new_vault_def loadMasterSalt_def Let_def
      createVerificationPayload_def apply_writes_def map_set_def VERIFICATION_PAYLOAD_STORAGE_KEY_def MASTER_SALT_STORAGE_KEY_def
      symbolic_crypto_def vault_touch_def map_get_def)

lemma demo_vault_for: "vault_for symbolic_crypto ''pw'' (vt_storage demo_vault)"
  "loadMasterSalt (vt_storage demo_vault) = Some demo_salt"
proof -
  show s: "loadMasterSalt (vt_storage demo_vault) = Some demo_salt"
    by (simp add: demo_vault_eq loadMasterSalt_def map_get_def MASTER_SALT_STORAGE_KEY_def demo_salt_def)
  have "readEncryptedPayload (vt_storage demo_vault) VERIFICATION_PAYLOAD_STORAGE_KEY
      = Some (encryptData symbolic_crypto (vc_derive symbolic_crypto ''pw'' demo_salt) ([3], [4]) (verification_text 5))"
    by (simp add: demo_vault_eq readEncryptedPayload_def map_get_def VERIFICATION_PAYLOAD_STORAGE_KEY_def symbolic_crypto_def)
  with s show "vault_for symbolic_crypto ''pw'' (vt_storage demo_vault)" unfolding vault_for_def by blast
qed

lemma demo_items: "decrypt_all symbolic_crypto (vc_derive symbolic_crypto ''pw'' demo_salt) (vt_storage demo_vault) (change_keys [])
   = Some [(''account'', ''A1'')]"
  by (simp add: change_keys_def DEFAULT_DATA_KEYS_def demo_vault_eq readEncryptedPayload_def map_get_def decryptData_def
      encryptData_def symbolic_crypto_def)

theorem change_password_keeps_data_witness:
  "fst (changePassword symbolic_crypto fresh_salt demo_random 20 ''pw'' ''next'' [] demo_vault) = Changed True
   \<and> map_get (vt_storage (snd (changePassword symbolic_crypto fresh_salt demo_random 20 ''pw'' ''next'' [] demo_vault))) ''other''
     = map_get (vt_storage demo_vault) ''other''"
proof -
  have other: "''other'' \<notin> set (change_keys []) \<union> reserved_keys"
    by (simp add: change_keys_def DEFAULT_DATA_KEYS_def reserved_keys_def MASTER_SALT_STORAGE_KEY_def VERIFICATION_PAYLOAD_STORAGE_KEY_def)
  have len: "length fresh_salt = 16" by (simp add: fresh_salt_def)
  have ks: "set [] \<inter> reserved_keys = {}" by simp
  from change_password_keeps_data [OF symbolic_sound demo_vault_for(1) len ks demo_vault_for(2) demo_items,
      where new = "''next''" and now = 20 and rnd = demo_random] other
  show ?thesis by (simp add: split_def)
qed

theorem interrupted_change_loses_data_witness:
  "vault_content symbolic_crypto ''pw'' (vt_storage demo_vault) ''account'' = Some ''A1''
   \<and> (\<forall>q. vault_content symbolic_crypto q (apply_writes (take 1
        (change_writes symbolic_crypto fresh_salt demo_random 20 ''next'' [(''account'', ''A1'')])) (vt_storage demo_vault)) ''account'' = None)"
proof -
  have ne: "fresh_salt \<noteq> demo_salt" by (simp add: fresh_salt_def demo_salt_def)
  have ks: "set [] \<inter> reserved_keys = {}" by simp
  show ?thesis
    using interrupted_change_loses_data [OF symbolic_sound demo_vault_for(2) ne ks demo_items,
      where j = 0 and n = 1 and rnd = demo_random and now = 20 and new = "''next''"] by simp
qed

end
