(* ===== verification/WalletLock.thy ===== *)
theory WalletLock
  imports SecureVault
begin

text \<open>
  Locking and unlocking in the extension wallet: the attempt limiter
  (\<open>background/unlock-rate-limit.ts\<close>), the background session (\<open>background/session-state.ts\<close> with
  \<open>packages/wallet-shared/src/session.ts\<close>), the message handlers (\<open>background/handlers/lock-unlock.ts\<close>),
  and the popup's lock manager with its inactivity detector (\<open>security\<close>). Each operation reads the
  clock once. The vault is the one of theory SecureVault.
\<close>

section \<open>The attempt limiter\<close>

definition UNLOCK_MAX_ATTEMPTS :: nat where
  "UNLOCK_MAX_ATTEMPTS = 5"

definition UNLOCK_BASE_BACKOFF_MS :: time where
  "UNLOCK_BASE_BACKOFF_MS = 1000"

definition UNLOCK_MAX_BACKOFF_MS :: time where
  "UNLOCK_MAX_BACKOFF_MS = 60000"

record attempt_state =
  ua_failedAttempts :: nat
  ua_lockedUntil :: "time option"

definition DEFAULT_UNLOCK_ATTEMPT_STATE :: attempt_state where
  "DEFAULT_UNLOCK_ATTEMPT_STATE = \<lparr>ua_failedAttempts = 0, ua_lockedUntil = None\<rparr>"

definition calculateUnlockBackoffMs :: "nat \<Rightarrow> time" where
  "calculateUnlockBackoffMs failedAttempts =
     (if failedAttempts < UNLOCK_MAX_ATTEMPTS then 0
      else min (UNLOCK_BASE_BACKOFF_MS * 2 ^ (failedAttempts - UNLOCK_MAX_ATTEMPTS)) UNLOCK_MAX_BACKOFF_MS)"

definition formatRetryMessage :: "time \<Rightarrow> string" where
  "formatRetryMessage retryAfterMs =
     (let seconds = (retryAfterMs + 999) div 1000
      in if seconds \<le> 1 then ''Too many failed attempts. Try again in 1 second.''
         else ''Too many failed attempts. Try again in '' @ show_int seconds @ '' seconds.'')"

text \<open>The time to wait when locked.\<close>

definition checkUnlockRateLimit :: "attempt_state \<Rightarrow> time \<Rightarrow> time option" where
  "checkUnlockRateLimit st now = (case ua_lockedUntil st of
       Some u \<Rightarrow> if now < u then Some (u - now) else None | None \<Rightarrow> None)"

definition recordUnlockFailure :: "attempt_state \<Rightarrow> time \<Rightarrow> attempt_state" where
  "recordUnlockFailure st now =
     (let failedAttempts = ua_failedAttempts st + 1; backoffMs = calculateUnlockBackoffMs failedAttempts
      in if backoffMs = 0 then \<lparr>ua_failedAttempts = failedAttempts, ua_lockedUntil = None\<rparr>
         else \<lparr>ua_failedAttempts = failedAttempts, ua_lockedUntil = Some (now + backoffMs)\<rparr>)"

definition resetUnlockAttempts :: attempt_state where
  "resetUnlockAttempts = DEFAULT_UNLOCK_ATTEMPT_STATE"

text \<open>\<open>None\<close> stands for a stored value that is missing or does not have the shape.\<close>

definition loadUnlockAttemptState :: "time \<Rightarrow> attempt_state option \<Rightarrow> attempt_state" where
  "loadUnlockAttemptState now persisted = (case persisted of
       None \<Rightarrow> DEFAULT_UNLOCK_ATTEMPT_STATE
     | Some st \<Rightarrow> if checkUnlockRateLimit st now = None \<and> ua_lockedUntil st \<noteq> None then resetUnlockAttempts else st)"

section \<open>The background session\<close>

record unlock_session =
  us_unlockedAt :: time
  us_expiresAt :: time

definition DEFAULT_UNLOCK_SESSION_TTL_MS :: time where
  "DEFAULT_UNLOCK_SESSION_TTL_MS = 24 * 60 * 60 * 1000"

definition isUnlockSessionValid :: "unlock_session option \<Rightarrow> time \<Rightarrow> bool" where
  "isUnlockSessionValid r nowMs = (case r of None \<Rightarrow> False | Some s \<Rightarrow> us_expiresAt s > nowMs)"

record ('k, 'd) background =
  bg_vault :: "('k, 'd) vault"
  bg_attempts :: "attempt_state option"
  bg_session :: "unlock_session option"
  bg_sessionUnlocked :: bool
  bg_hasOnboarded :: bool
  bg_authUnlocked :: bool
  bg_autoLockMinutes :: "int option"

definition getAutoLockTtlMs :: "('k, 'd) background \<Rightarrow> time" where
  "getAutoLockTtlMs b = (case bg_autoLockMinutes b of
       Some m \<Rightarrow> if m > 0 then m * 60000 else DEFAULT_UNLOCK_SESSION_TTL_MS
     | None \<Rightarrow> DEFAULT_UNLOCK_SESSION_TTL_MS)"

definition persistUnlockSession :: "time \<Rightarrow> time option \<Rightarrow> ('k, 'd) background \<Rightarrow> ('k, 'd) background" where
  "persistUnlockSession now ttlMs b = b\<lparr>bg_session := Some \<lparr>us_unlockedAt = now,
     us_expiresAt = now + coalesce ttlMs (getAutoLockTtlMs b)\<rparr>, bg_sessionUnlocked := True\<rparr>"

definition clearUnlockSession :: "('k, 'd) background \<Rightarrow> ('k, 'd) background" where
  "clearUnlockSession b = b\<lparr>bg_sessionUnlocked := False, bg_session := None\<rparr>"

definition restoreUnlockSession :: "time \<Rightarrow> ('k, 'd) background \<Rightarrow> bool \<times> ('k, 'd) background" where
  "restoreUnlockSession now b = (case bg_session b of
       None \<Rightarrow> (False, b\<lparr>bg_sessionUnlocked := False\<rparr>)
     | Some s \<Rightarrow> if \<not> isUnlockSessionValid (Some s) now
                 then (False, b\<lparr>bg_session := None, bg_sessionUnlocked := False\<rparr>)
                 else (True, b\<lparr>bg_sessionUnlocked := True\<rparr>))"

definition isBackgroundSessionUnlockedAsync :: "time \<Rightarrow> ('k, 'd) background \<Rightarrow> bool \<times> ('k, 'd) background" where
  "isBackgroundSessionUnlockedAsync now b = (if bg_sessionUnlocked b then (True, b) else restoreUnlockSession now b)"

definition refreshSessionExpiry :: "time \<Rightarrow> ('k, 'd) background \<Rightarrow> ('k, 'd) background" where
  "refreshSessionExpiry now b = (if \<not> bg_sessionUnlocked b then b
     else persistUnlockSession now (Some (getAutoLockTtlMs b)) b)"

definition getRemainingUnlockSessionMs :: "time \<Rightarrow> ('k, 'd) background \<Rightarrow> time" where
  "getRemainingUnlockSessionMs now b = (case bg_session b of
       None \<Rightarrow> 0
     | Some s \<Rightarrow> if \<not> isUnlockSessionValid (Some s) now then 0 else max 0 (us_expiresAt s - now))"

definition formatRemainingLockTime :: "time \<Rightarrow> string" where
  "formatRemainingLockTime remainingMs =
     (if remainingMs \<le> 0 then ''Locks in 0 minutes''
      else let totalMinutes = max 1 ((remainingMs + 59999) div 60000)
           in if totalMinutes = 1 then ''Locks in 1 minute''
              else ''Locks in '' @ show_int totalMinutes @ '' minutes'')"

text \<open>A restart of the service worker loses what is in memory: the flag and the vault's key.\<close>

definition worker_restart :: "('k, 'd) background \<Rightarrow> ('k, 'd) background" where
  "worker_restart b = b\<lparr>bg_sessionUnlocked := False, bg_vault := vault_lock (bg_vault b)\<rparr>"

section \<open>The handlers\<close>

definition executeLockWallet :: "('k, 'd) background \<Rightarrow> ('k, 'd) background" where
  "executeLockWallet b = (clearUnlockSession (b\<lparr>bg_sessionUnlocked := False, bg_vault := vault_lock (bg_vault b)\<rparr>))
     \<lparr>bg_authUnlocked := False\<rparr>"

record unlock_reply =
  ur_success :: bool
  ur_retryAfterMs :: "time option"

definition throttled :: "time option \<Rightarrow> unlock_reply" where
  "throttled w = \<lparr>ur_success = False, ur_retryAfterMs = w\<rparr>"

text \<open>\<open>ns\<close> and \<open>rnd\<close> are the randomness of a first run.\<close>

definition unlockWallet ::
  "('k, 'd) vault_crypto \<Rightarrow> nat list \<Rightarrow> nat list \<times> nat list \<Rightarrow> time \<Rightarrow> string \<Rightarrow> ('k, 'd) background
     \<Rightarrow> unlock_reply \<times> ('k, 'd) background" where
  "unlockWallet c ns rnd now password b =
     (if password = [] then (throttled None, b)
      else let attempts = loadUnlockAttemptState now (bg_attempts b) in
        if checkUnlockRateLimit attempts now \<noteq> None then (throttled (checkUnlockRateLimit attempts now), b)
        else if \<not> bg_hasOnboarded b then (throttled None, b)
        else case vault_unlock c ns rnd now password (bg_vault b) of
          (False, v) \<Rightarrow>
            (let next_state = recordUnlockFailure attempts now
             in (throttled (checkUnlockRateLimit next_state now),
                 b\<lparr>bg_vault := v, bg_attempts := Some next_state\<rparr>))
        | (True, v) \<Rightarrow>
            (\<lparr>ur_success = True, ur_retryAfterMs = None\<rparr>,
             (persistUnlockSession now None (b\<lparr>bg_vault := v, bg_attempts := Some resetUnlockAttempts\<rparr>))
               \<lparr>bg_authUnlocked := True\<rparr>))"

section \<open>The lock manager of the popup\<close>

record detector =
  dt_active :: bool
  dt_timeoutMs :: int
  dt_timer :: "time option"

definition minutesToInactivityMs :: "int \<Rightarrow> int" where
  "minutesToInactivityMs minutes = (if minutes \<le> 0 then 0 else minutes * 60 * 1000)"

definition resetTimer :: "time \<Rightarrow> detector \<Rightarrow> detector" where
  "resetTimer now d = d\<lparr>dt_timer := (if dt_timeoutMs d \<le> 0 then None else Some (now + dt_timeoutMs d))\<rparr>"

definition detector_start :: "time \<Rightarrow> detector \<Rightarrow> detector" where
  "detector_start now d = (if dt_active d then d else resetTimer now (d\<lparr>dt_active := True\<rparr>))"

definition detector_stop :: "detector \<Rightarrow> detector" where
  "detector_stop d = (if \<not> dt_active d then d else d\<lparr>dt_active := False, dt_timer := None\<rparr>)"

definition detector_setTimeoutMs :: "time \<Rightarrow> int \<Rightarrow> detector \<Rightarrow> detector" where
  "detector_setTimeoutMs now ms d = (let d' = d\<lparr>dt_timeoutMs := ms\<rparr> in if dt_active d' then resetTimer now d' else d')"

definition detector_touch :: "time \<Rightarrow> detector \<Rightarrow> detector" where
  "detector_touch now d = (if dt_active d then resetTimer now d else d)"

record ('k, 'd) lock_manager =
  lm_locked :: bool
  lm_vault :: "('k, 'd) vault"
  lm_detector :: detector

definition new_lock_manager :: "int \<Rightarrow> ('k, 'd) vault \<Rightarrow> ('k, 'd) lock_manager" where
  "new_lock_manager autoLockMinutes v = \<lparr>lm_locked = True, lm_vault = v,
     lm_detector = \<lparr>dt_active = False, dt_timeoutMs = minutesToInactivityMs autoLockMinutes, dt_timer = None\<rparr>\<rparr>"

definition lm_lock :: "('k, 'd) lock_manager \<Rightarrow> ('k, 'd) lock_manager" where
  "lm_lock m = m\<lparr>lm_vault := vault_lock (lm_vault m), lm_locked := True, lm_detector := detector_stop (lm_detector m)\<rparr>"

text \<open>The first component is false when the call throws.\<close>

definition lm_unlock ::
  "('k, 'd) vault_crypto \<Rightarrow> nat list \<Rightarrow> nat list \<times> nat list \<Rightarrow> time \<Rightarrow> string \<Rightarrow> ('k, 'd) lock_manager
     \<Rightarrow> bool \<times> ('k, 'd) lock_manager" where
  "lm_unlock c ns rnd now password m = (case vault_unlock c ns rnd now password (lm_vault m) of
       (False, v) \<Rightarrow> (False, m\<lparr>lm_vault := vault_lock v\<rparr>)
     | (True, v) \<Rightarrow> (True, m\<lparr>lm_vault := v, lm_locked := False, lm_detector := detector_start now (lm_detector m)\<rparr>))"

definition lm_setAutoLockMinutes :: "time \<Rightarrow> int \<Rightarrow> ('k, 'd) lock_manager \<Rightarrow> ('k, 'd) lock_manager" where
  "lm_setAutoLockMinutes now minutes m =
     m\<lparr>lm_detector := detector_setTimeoutMs now (minutesToInactivityMs minutes) (lm_detector m)\<rparr>"

definition lm_touch :: "time \<Rightarrow> ('k, 'd) lock_manager \<Rightarrow> ('k, 'd) lock_manager" where
  "lm_touch now m = m\<lparr>lm_detector := detector_touch now (lm_detector m)\<rparr>"

text \<open>The clock reaches \<open>now\<close>: a due timer fires its callback, which locks.\<close>

definition lm_time_passes :: "time \<Rightarrow> ('k, 'd) lock_manager \<Rightarrow> ('k, 'd) lock_manager" where
  "lm_time_passes now m = (case dt_timer (lm_detector m) of
       Some t \<Rightarrow> if t \<le> now then lm_lock m else m | None \<Rightarrow> m)"

section \<open>Lemmas\<close>

lemma backoff_values: "calculateUnlockBackoffMs n = (if n < 5 then 0 else min (1000 * 2 ^ (n - 5)) 60000)"
  by (simp add: calculateUnlockBackoffMs_def UNLOCK_MAX_ATTEMPTS_def UNLOCK_BASE_BACKOFF_MS_def UNLOCK_MAX_BACKOFF_MS_def)

text \<open>What the stored attempts look like at \<open>t\<close>: below five and free, or five and locked for a second at most.\<close>

definition attempts_ok :: "time \<Rightarrow> attempt_state option \<Rightarrow> bool" where
  "attempts_ok t a = (case a of None \<Rightarrow> True | Some st \<Rightarrow>
     (case ua_lockedUntil st of None \<Rightarrow> ua_failedAttempts st < 5 | Some u \<Rightarrow> ua_failedAttempts st = 5 \<and> u \<le> t + 1000))"

lemma attempts_mono: "attempts_ok t a \<Longrightarrow> t \<le> t' \<Longrightarrow> attempts_ok t' a"
  by (auto simp: attempts_ok_def split: option.splits)

lemma load_ok: "attempts_ok t a \<Longrightarrow>
   (\<exists>u. ua_lockedUntil (loadUnlockAttemptState now a) = Some u \<and> now < u \<and> u \<le> t + 1000)
   \<or> (ua_lockedUntil (loadUnlockAttemptState now a) = None \<and> ua_failedAttempts (loadUnlockAttemptState now a) < 5)"
  by (auto simp: attempts_ok_def loadUnlockAttemptState_def checkUnlockRateLimit_def resetUnlockAttempts_def
      DEFAULT_UNLOCK_ATTEMPT_STATE_def split: option.splits if_splits)

lemma check_locked: "checkUnlockRateLimit st now = Some w \<longleftrightarrow> (\<exists>u. ua_lockedUntil st = Some u \<and> now < u \<and> w = u - now)"
  by (auto simp: checkUnlockRateLimit_def split: option.splits)

lemma record_free: "ua_failedAttempts st < 5 \<Longrightarrow> attempts_ok now (Some (recordUnlockFailure st now))
   \<and> (\<forall>w. checkUnlockRateLimit (recordUnlockFailure st now) now = Some w \<longrightarrow> w \<le> 1000)"
proof -
  assume a: "ua_failedAttempts st < 5"
  show ?thesis
  proof (cases "ua_failedAttempts st + 1 < 5")
    case True
    then show ?thesis by (simp add: recordUnlockFailure_def backoff_values attempts_ok_def checkUnlockRateLimit_def)
  next
    case False
    with a have "ua_failedAttempts st = 4" by simp
    then show ?thesis by (simp add: recordUnlockFailure_def backoff_values attempts_ok_def checkUnlockRateLimit_def)
  qed
qed

lemma persist_simps [simp]: "bg_attempts (persistUnlockSession now ttl b) = bg_attempts b"
  "bg_vault (persistUnlockSession now ttl b) = bg_vault b" "bg_sessionUnlocked (persistUnlockSession now ttl b)"
  "bg_session (persistUnlockSession now ttl b) = Some \<lparr>us_unlockedAt = now, us_expiresAt = now + coalesce ttl (getAutoLockTtlMs b)\<rparr>"
  by (simp_all add: persistUnlockSession_def)

lemma unlock_attempts:
  assumes "attempts_ok t (bg_attempts b)" "t \<le> now"
  shows "attempts_ok now (bg_attempts (snd (unlockWallet c ns rnd now pw b)))
    \<and> (\<forall>w. ur_retryAfterMs (fst (unlockWallet c ns rnd now pw b)) = Some w \<longrightarrow> w \<le> 1000)"
proof (cases "pw = [] \<or> \<not> bg_hasOnboarded b \<or> checkUnlockRateLimit (loadUnlockAttemptState now (bg_attempts b)) now \<noteq> None")
  case True
  have "w \<le> 1000" if "checkUnlockRateLimit (loadUnlockAttemptState now (bg_attempts b)) now = Some w" for w
    using that load_ok [OF assms(1), of now] assms(2) by (auto simp: check_locked)
  with True assms show ?thesis
    by (auto simp: unlockWallet_def throttled_def Let_def intro: attempts_mono split: option.splits)
next
  case False
  then have "ua_failedAttempts (loadUnlockAttemptState now (bg_attempts b)) < 5"
    using load_ok [OF assms(1), of now] by (auto simp: checkUnlockRateLimit_def split: option.splits if_splits)
  from record_free [OF this, of now] False show ?thesis
    by (auto simp: unlockWallet_def throttled_def Let_def attempts_ok_def resetUnlockAttempts_def
        DEFAULT_UNLOCK_ATTEMPT_STATE_def split: prod.splits bool.splits)
qed

text \<open>A history of unlock attempts, each with its instant and password.\<close>

definition run_attempts ::
  "('k, 'd) vault_crypto \<Rightarrow> nat list \<Rightarrow> nat list \<times> nat list \<Rightarrow> (time \<times> string) list \<Rightarrow> ('k, 'd) background \<Rightarrow> ('k, 'd) background" where
  "run_attempts c ns rnd as b = fold (\<lambda>(t, pw) b. snd (unlockWallet c ns rnd t pw b)) as b"

lemma run_attempts_ok:
  "attempts_ok t (bg_attempts b) \<Longrightarrow> sorted (t # map fst as @ [now]) \<Longrightarrow>
     \<exists>t'. t' \<le> now \<and> attempts_ok t' (bg_attempts (run_attempts c ns rnd as b))"
proof (induction as arbitrary: t b)
  case Nil then show ?case by (auto simp: run_attempts_def)
next
  case (Cons a as)
  obtain t1 pw where a: "a = (t1, pw)" by (cases a)
  with Cons.prems have "attempts_ok t1 (bg_attempts (snd (unlockWallet c ns rnd t1 pw b)))"
    using unlock_attempts [of t b t1 c ns rnd pw] by auto
  from Cons.IH [OF this] Cons.prems(2) a show ?case by (simp add: run_attempts_def)
qed

text \<open>The state of the lock manager: the detector runs exactly while unlocked, with a timer unless disabled.\<close>

definition lm_ok :: "('k, 'd) lock_manager \<Rightarrow> bool" where
  "lm_ok m \<longleftrightarrow> (dt_active (lm_detector m) = (\<not> lm_locked m)) \<and> (lm_locked m \<longrightarrow> vt_key (lm_vault m) = None)
     \<and> (dt_timer (lm_detector m) \<noteq> None) = (dt_active (lm_detector m) \<and> 0 < dt_timeoutMs (lm_detector m))"

lemma lm_ok_new: "vt_key v = None \<Longrightarrow> lm_ok (new_lock_manager n v)"
  by (simp add: lm_ok_def new_lock_manager_def)

lemma lm_ok_lock: "lm_ok m \<Longrightarrow> lm_ok (lm_lock m)"
  by (simp add: lm_ok_def lm_lock_def detector_stop_def)

lemma lm_ok_touch: "lm_ok m \<Longrightarrow> lm_ok (lm_touch now m)"
  by (auto simp: lm_ok_def lm_touch_def detector_touch_def resetTimer_def)

lemma lm_ok_set: "lm_ok m \<Longrightarrow> lm_ok (lm_setAutoLockMinutes now n m)"
  by (auto simp: lm_ok_def lm_setAutoLockMinutes_def detector_setTimeoutMs_def Let_def resetTimer_def)

lemma lm_ok_time: "lm_ok m \<Longrightarrow> lm_ok (lm_time_passes now m)"
  by (simp add: lm_time_passes_def lm_ok_lock split: option.split)

lemma lm_ok_unlock: "lm_ok m \<Longrightarrow> lm_ok (snd (lm_unlock c ns rnd now pw m))"
  by (auto simp: lm_ok_def lm_unlock_def detector_start_def resetTimer_def split: prod.splits bool.splits)

section \<open>Properties\<close>

text \<open>
  What unlocking takes: on a locked vault of an onboarded wallet the handler succeeds exactly when
  the limiter is not locking and the password is the vault's. Success stores a session for the
  configured time and clears the attempts; while the limiter locks, the password is not looked at and
  nothing changes; a wrong password leaves session and flag as they are and the vault locked.
\<close>

theorem unlock_handler_exact:
  assumes "crypto_sound c" "vault_for c p (vt_storage (bg_vault b))" "vt_key (bg_vault b) = None" "bg_hasOnboarded b" "pw \<noteq> []"
  shows "case unlockWallet c ns rnd now pw b of (reply, b') \<Rightarrow>
     (let limited = checkUnlockRateLimit (loadUnlockAttemptState now (bg_attempts b)) now \<noteq> None in
      ur_success reply = (\<not> limited \<and> pw = p)
      \<and> (if limited then b' = b
         else if pw = p then bg_sessionUnlocked b' \<and> vault_isUnlocked (bg_vault b') \<and> bg_attempts b' = Some resetUnlockAttempts
            \<and> map_option us_expiresAt (bg_session b') = Some (now + getAutoLockTtlMs b)
         else bg_session b' = bg_session b \<and> bg_sessionUnlocked b' = bg_sessionUnlocked b \<and> \<not> vault_isUnlocked (bg_vault b')))"
proof (rule unlock_vault [OF assms(1-3), where ns = ns and r = rnd and now = now and q = pw])
  fix salt
  assume u: "fst (vault_unlock c ns rnd now pw (bg_vault b)) = (pw = p)"
    "vt_key (snd (vault_unlock c ns rnd now pw (bg_vault b))) = (if pw = p then Some (vc_derive c p salt) else None)"
  obtain ok v where v: "vault_unlock c ns rnd now pw (bg_vault b) = (ok, v)" by fastforce
  have ttl: "getAutoLockTtlMs (b\<lparr>bg_vault := w, bg_attempts := a\<rparr>) = getAutoLockTtlMs b" for w a
    by (simp add: getAutoLockTtlMs_def)
  show ?thesis
    using u v assms(4,5) by (cases ok) (auto simp: unlockWallet_def Let_def throttled_def vault_isUnlocked_def ttl)
qed

text \<open>
  The backoff never grows: after any history of unlock attempts in time order, however many of
  them failed, the wait the handler answers with is at most the base of one second. The stored count is
  cleared as soon as a lock has run out, so the documented doubling up to a minute is not reached.
\<close>

theorem unlock_backoff_never_grows:
  assumes "bg_attempts b = None" "sorted (map fst as @ [now])"
  shows "case ur_retryAfterMs (fst (unlockWallet c ns rnd now pw (run_attempts c ns rnd as b))) of
     None \<Rightarrow> True | Some w \<Rightarrow> w \<le> UNLOCK_BASE_BACKOFF_MS"
proof -
  have "\<exists>t. attempts_ok t (bg_attempts b) \<and> sorted (t # map fst as @ [now])"
  proof (cases as)
    case Nil then show ?thesis using assms(1) by (intro exI [of _ now]) (simp add: attempts_ok_def)
  next
    case (Cons a as')
    then show ?thesis using assms by (intro exI [of _ "fst a"]) (auto simp: attempts_ok_def)
  qed
  then obtain t' where "t' \<le> now" "attempts_ok t' (bg_attempts (run_attempts c ns rnd as b))"
    using run_attempts_ok by blast
  from unlock_attempts [OF this(2,1)] show ?thesis by (auto simp: UNLOCK_BASE_BACKOFF_MS_def split: option.split)
qed

definition demo_background :: "(string \<times> nat list, (string \<times> nat list) \<times> nat list \<times> nat list \<times> string) background" where
  "demo_background = \<lparr>bg_vault = vault_lock demo_vault, bg_attempts = None, bg_session = None, bg_sessionUnlocked = False,
     bg_hasOnboarded = True, bg_authUnlocked = False, bg_autoLockMinutes = Some 5\<rparr>"

theorem unlock_handler_exact_witness:
  "ur_success (fst (unlockWallet symbolic_crypto [] ([], []) 1000 ''pw'' demo_background))
   \<and> \<not> ur_success (fst (unlockWallet symbolic_crypto [] ([], []) 1000 ''guess'' demo_background))"
proof -
  have v: "vault_for symbolic_crypto ''pw'' (vt_storage (bg_vault demo_background))" "vt_key (bg_vault demo_background) = None"
      "bg_hasOnboarded demo_background"
    using demo_vault_for by (simp_all add: demo_background_def)
  have l: "checkUnlockRateLimit (loadUnlockAttemptState 1000 (bg_attempts demo_background)) 1000 = None"
    by (simp add: demo_background_def loadUnlockAttemptState_def checkUnlockRateLimit_def DEFAULT_UNLOCK_ATTEMPT_STATE_def)
  show ?thesis
    using unlock_handler_exact [OF symbolic_sound v, where pw = "''pw''" and ns = "[]" and rnd = "([], [])" and now = 1000]
      unlock_handler_exact [OF symbolic_sound v, where pw = "''guess''" and ns = "[]" and rnd = "([], [])" and now = 1000] l
    by (simp add: split_def Let_def)
qed

theorem unlock_backoff_never_grows_witness:
  "case ur_retryAfterMs (fst (unlockWallet symbolic_crypto [] ([], []) 90000 ''guess''
      (run_attempts symbolic_crypto [] ([], []) (map (\<lambda>n. (int n * 100, ''guess'')) [0..<800]) demo_background))) of
     None \<Rightarrow> True | Some w \<Rightarrow> w \<le> UNLOCK_BASE_BACKOFF_MS"
proof -
  have "sorted (map fst (map (\<lambda>n. (int n * 100, ''guess'')) [0..<800]) @ [90000])"
    by (auto simp: sorted_append sorted_map intro: sorted_wrt_mono_rel [OF _ sorted_upt])
  then show ?thesis by (intro unlock_backoff_never_grows) (simp_all add: demo_background_def)
qed

text \<open>
  The session after a successful unlock at \<open>t\<close>: the flag in memory answers unlocked at every later
  instant, past the expiry too, since only a restart consults the stored expiry; after a restart the
  session counts as unlocked exactly before \<open>t\<close> plus the configured time; after the lock handler it is
  locked either way.
\<close>

theorem session_expiry_only_after_restart:
  assumes "ur_success (fst (unlockWallet c ns rnd t pw b))"
  defines "b' \<equiv> snd (unlockWallet c ns rnd t pw b)"
  shows "fst (isBackgroundSessionUnlockedAsync t' b')
    \<and> fst (isBackgroundSessionUnlockedAsync t' (worker_restart b')) = (t' < t + getAutoLockTtlMs b)
    \<and> \<not> fst (isBackgroundSessionUnlockedAsync t' (executeLockWallet b'))
    \<and> \<not> fst (isBackgroundSessionUnlockedAsync t' (worker_restart (executeLockWallet b')))"
proof -
  have ttl: "getAutoLockTtlMs (b\<lparr>bg_vault := w, bg_attempts := a\<rparr>) = getAutoLockTtlMs b" for w a
    by (simp add: getAutoLockTtlMs_def)
  have "bg_sessionUnlocked b' \<and> (\<exists>s. bg_session b' = Some s \<and> us_expiresAt s = t + getAutoLockTtlMs b)"
    using assms by (auto simp: unlockWallet_def throttled_def Let_def ttl split: if_splits prod.splits bool.splits)
  then show ?thesis
    by (auto simp: isBackgroundSessionUnlockedAsync_def restoreUnlockSession_def isUnlockSessionValid_def worker_restart_def
        executeLockWallet_def clearUnlockSession_def split: if_splits)
qed

theorem session_expiry_only_after_restart_witness:
  "fst (isBackgroundSessionUnlockedAsync 999999999 (snd (unlockWallet symbolic_crypto [] ([], []) 1000 ''pw'' demo_background)))"
proof -
  have "vault_for symbolic_crypto ''pw'' (vt_storage (bg_vault demo_background))" "vt_key (bg_vault demo_background) = None"
    using demo_vault_for by (simp_all add: demo_background_def)
  then have "fst (vault_unlock symbolic_crypto [] ([], []) 1000 ''pw'' (bg_vault demo_background)) = (''pw'' = ''pw'')"
    by (rule unlock_vault [OF symbolic_sound, where ns = "[]" and r = "([], [])" and now = 1000 and q = "''pw''"])
  then have "ur_success (fst (unlockWallet symbolic_crypto [] ([], []) 1000 ''pw'' demo_background))"
    by (cases "vault_unlock symbolic_crypto [] ([], []) 1000 ''pw'' (bg_vault demo_background)")
       (auto simp: unlockWallet_def Let_def demo_background_def loadUnlockAttemptState_def checkUnlockRateLimit_def
          DEFAULT_UNLOCK_ATTEMPT_STATE_def)
  from session_expiry_only_after_restart [OF this, of 999999999] show ?thesis by blast
qed

text \<open>
  Auto-lock in the popup: after activity at \<open>t\<close> on an unlocked manager with a positive timeout, and
  no further activity, the manager is locked exactly once the clock has reached \<open>t\<close> plus the timeout,
  and a locked manager holds no key. Every operation keeps the invariant this rests on.
\<close>

theorem auto_lock_after_inactivity:
  assumes "lm_ok m" "\<not> lm_locked m" "0 < dt_timeoutMs (lm_detector m)"
  shows "(lm_locked (fold lm_time_passes ts (lm_touch t m)) \<longleftrightarrow> (\<exists>u \<in> set ts. t + dt_timeoutMs (lm_detector m) \<le> u))
    \<and> (lm_locked (fold lm_time_passes ts (lm_touch t m)) \<longrightarrow> vt_key (lm_vault (fold lm_time_passes ts (lm_touch t m))) = None)"
proof -
  have stay: "lm_ok x \<Longrightarrow> lm_locked x \<Longrightarrow> lm_locked (fold lm_time_passes us x)" for us and x :: "('a, 'b) lock_manager"
  proof (induction us arbitrary: x)
    case (Cons u us)
    then have "lm_time_passes u x = x" by (auto simp: lm_time_passes_def lm_ok_def split: option.split)
    with Cons show ?case by simp
  qed simp
  have run: "lm_locked (fold lm_time_passes us x) \<longleftrightarrow> (\<exists>u \<in> set us. d \<le> u)"
    if "lm_ok x" "\<not> lm_locked x" "dt_timer (lm_detector x) = Some d" for us d and x :: "('a, 'b) lock_manager"
    using that
  proof (induction us)
    case (Cons u us)
    show ?case
    proof (cases "d \<le> u")
      case True
      then have "lm_time_passes u x = lm_lock x" using Cons.prems(3) by (simp add: lm_time_passes_def)
      with True stay [OF lm_ok_lock [OF Cons.prems(1)]] show ?thesis by (simp add: lm_lock_def)
    next
      case False
      then have "lm_time_passes u x = x" using Cons.prems(3) by (simp add: lm_time_passes_def)
      with Cons False show ?thesis by simp
    qed
  qed simp
  have ok: "lm_ok (lm_touch t m)" by (rule lm_ok_touch [OF assms(1)])
  have keep: "lm_ok (fold lm_time_passes us x)" if "lm_ok x" for us and x :: "('a, 'b) lock_manager"
    using that by (induction us arbitrary: x) (simp_all add: lm_ok_time)
  have "\<not> lm_locked (lm_touch t m)" "dt_timer (lm_detector (lm_touch t m)) = Some (t + dt_timeoutMs (lm_detector m))"
    using assms by (simp_all add: lm_touch_def detector_touch_def resetTimer_def lm_ok_def)
  from run [OF ok this] keep [OF ok] show ?thesis by (simp add: lm_ok_def)
qed

theorem auto_lock_after_inactivity_witness:
  "lm_locked (fold lm_time_passes [100, 400000] (lm_touch 50 (snd (lm_unlock symbolic_crypto [] ([], []) 10 ''pw''
     (new_lock_manager 5 (vault_lock demo_vault))))))"
proof -
  let ?m = "snd (lm_unlock symbolic_crypto [] ([], []) 10 ''pw'' (new_lock_manager 5 (vault_lock demo_vault)))"
  have "vault_for symbolic_crypto ''pw'' (vt_storage (vault_lock demo_vault))" "vt_key (vault_lock demo_vault) = None"
    using demo_vault_for by simp_all
  then have f: "fst (vault_unlock symbolic_crypto [] ([], []) 10 ''pw'' (vault_lock demo_vault)) = (''pw'' = ''pw'')"
    by (rule unlock_vault [OF symbolic_sound, where ns = "[]" and r = "([], [])" and now = 10 and q = "''pw''"])
  have "lm_ok ?m" by (rule lm_ok_unlock [OF lm_ok_new]) simp
  moreover have "\<not> lm_locked ?m" "dt_timeoutMs (lm_detector ?m) = 300000"
    using f by (cases "vault_unlock symbolic_crypto [] ([], []) 10 ''pw'' (vault_lock demo_vault)",
        auto simp: lm_unlock_def new_lock_manager_def minutesToInactivityMs_def detector_start_def resetTimer_def)+
  ultimately show ?thesis using auto_lock_after_inactivity [of ?m "[100, 400000]" 50] by simp
qed

end
