(* ===== verification/JsValue.thy ===== *)
theory JsValue
  imports JsNumber
begin

text \<open>
  Values of unknown shape, as \<open>JSON.parse\<close> or the structured clone of a message produces them:
  what the sanitizers of the stores read. An object is the association list of its own enumerable
  properties. The names the sources look up are never members of \<open>Object.prototype\<close>, so a lookup
  of a missing property gives \<open>undefined\<close>.
\<close>

datatype js =
    JsUndefined | JsNull | JsBool bool | JsNum number | JsStr string
  | JsArr "js list" | JsObj "(string \<times> js) list"

fun js_truthy :: "js \<Rightarrow> bool" where
  "js_truthy JsUndefined = False"
| "js_truthy JsNull = False"
| "js_truthy (JsBool b) = b"
| "js_truthy (JsNum n) = (n \<noteq> Fin 0 \<and> n \<noteq> NaN)"
| "js_truthy (JsStr s) = (s \<noteq> [])"
| "js_truthy (JsArr xs) = True"
| "js_truthy (JsObj ps) = True"

text \<open>\<open>typeof v === 'object'\<close> of a truthy value.\<close>

fun is_object :: "js \<Rightarrow> bool" where
  "is_object (JsArr xs) = True"
| "is_object (JsObj ps) = True"
| "is_object _ = False"

text \<open>\<open>Object.entries\<close>: an array has its indices as names.\<close>

fun js_entries :: "js \<Rightarrow> (string \<times> js) list" where
  "js_entries (JsObj ps) = ps"
| "js_entries (JsArr xs) = zip (map show_nat [0..<length xs]) xs"
| "js_entries _ = []"

definition js_get :: "js \<Rightarrow> string \<Rightarrow> js" where
  "js_get v k = coalesce (map_of (js_entries v) k) JsUndefined"

fun js_string :: "js \<Rightarrow> string option" where
  "js_string (JsStr s) = Some s"
| "js_string _ = None"

fun js_items :: "js \<Rightarrow> js list option" where
  "js_items (JsArr xs) = Some xs"
| "js_items _ = None"

lemma js_string_Some [simp]: "js_string v = Some s \<longleftrightarrow> v = JsStr s"
  by (cases v) auto

lemma js_items_Some [simp]: "js_items v = Some xs \<longleftrightarrow> v = JsArr xs"
  by (cases v) auto

text \<open>\<open>Number.isFinite(n) \<and> Number.isInteger(n) \<and> n \<ge> 0\<close>.\<close>

fun is_count :: "js \<Rightarrow> bool" where
  "is_count (JsNum (Fin q)) = (q \<in> \<int> \<and> 0 \<le> q)"
| "is_count _ = False"

end
