(* ===== verification/Allowlist.thy ===== *)
theory Allowlist
  imports JsValue "HOL-Library.Multiset"
begin

text \<open>
  The origins a smart account has granted access to, per network:
  \<open>apps/extension-wallet/src/stores/allowlist.ts\<close> and the service in front of it,
  \<open>background/handlers/external/allowlist.ts\<close>. The state is the pair of nested objects of the
  store; the abstract contract is a set of triples (origin, account, network), and every operation
  refines the set operation it stands for. The second part is the sanitizer that rebuilds the state
  from whatever the browser storage holds. Objects are ordered maps; account and network names that
  are members of \<open>Object.prototype\<close> (\<open>constructor\<close> and its kind) are outside the model.
\<close>

section \<open>State\<close>

record connected_site =
  cs_origin :: string
  cs_accountId :: string
  cs_network :: string
  cs_connectedAt :: number

type_synonym approved_map = "(string, (string, string list) jsmap) jsmap"
type_synonym connected_map = "(string, (string, (string, connected_site) jsmap) jsmap) jsmap"

record allowlist =
  al_approved :: approved_map
  al_connected :: connected_map

definition empty_allowlist :: allowlist where
  "empty_allowlist = \<lparr>al_approved = [], al_connected = []\<rparr>"

section \<open>Operations\<close>

text \<open>\<open>(state[accountId] || {})[network] || []\<close>.\<close>

definition sites_of :: "string \<Rightarrow> string \<Rightarrow> allowlist \<Rightarrow> string list" where
  "sites_of accountId network st =
     coalesce (map_get (coalesce (map_get (al_approved st) accountId) []) network) []"

definition records_of :: "string \<Rightarrow> string \<Rightarrow> allowlist \<Rightarrow> (string, connected_site) jsmap" where
  "records_of accountId network st =
     coalesce (map_get (coalesce (map_get (al_connected st) accountId) []) network) []"

definition isApproved :: "string \<Rightarrow> string \<Rightarrow> string \<Rightarrow> allowlist \<Rightarrow> bool" where
  "isApproved origin accountId network st = (origin \<in> set (sites_of accountId network st))"

definition approve :: "time \<Rightarrow> string \<Rightarrow> string \<Rightarrow> string \<Rightarrow> allowlist \<Rightarrow> allowlist" where
  "approve now origin accountId network st =
     (let accountSites = coalesce (map_get (al_approved st) accountId) [];
          networkSites = coalesce (map_get accountSites network) []
      in if origin \<in> set networkSites then st
         else let accountConnectedSites = coalesce (map_get (al_connected st) accountId) [];
                  networkConnectedSites = coalesce (map_get accountConnectedSites network) []
              in \<lparr>al_approved = map_set accountId (map_set network (networkSites @ [origin]) accountSites)
                                  (al_approved st),
                  al_connected = map_set accountId
                    (map_set network
                       (map_set origin \<lparr>cs_origin = origin, cs_accountId = accountId, cs_network = network,
                                         cs_connectedAt = Fin (of_int now)\<rparr> networkConnectedSites)
                       accountConnectedSites) (al_connected st)\<rparr>)"

text \<open>
  The deletion in the inner object goes through the reference the old state shares; the old state
  is dropped, so the result is what counts.
\<close>

definition revoke :: "string \<Rightarrow> string \<Rightarrow> string \<Rightarrow> allowlist \<Rightarrow> allowlist" where
  "revoke origin accountId network st =
     (let accountSites = coalesce (map_get (al_approved st) accountId) [];
          networkSites = coalesce (map_get accountSites network) []
      in if origin \<notin> set networkSites then st
         else let accountConnectedSites = coalesce (map_get (al_connected st) accountId) [];
                  nextNetwork = map_delete origin (coalesce (map_get accountConnectedSites network) [])
              in \<lparr>al_approved = map_set accountId
                    (map_set network (filter (\<lambda>site. site \<noteq> origin) networkSites) accountSites)
                    (al_approved st),
                  al_connected = (if nextNetwork = []
                     then (case map_get (al_connected st) accountId of
                             None \<Rightarrow> al_connected st
                           | Some inner \<Rightarrow> map_set accountId (map_delete network inner) (al_connected st))
                     else map_set accountId (map_set network nextNetwork accountConnectedSites)
                            (al_connected st))\<rparr>)"

definition revokeAll :: "string \<Rightarrow> string \<Rightarrow> allowlist \<Rightarrow> allowlist" where
  "revokeAll accountId network st =
     (let accountSites = coalesce (map_get (al_approved st) accountId) []
      in if \<not> map_has accountSites network then st
         else let inner = map_delete network (coalesce (map_get (al_connected st) accountId) [])
              in \<lparr>al_approved = map_set accountId (map_delete network accountSites) (al_approved st),
                  al_connected = (if inner = [] then map_delete accountId (al_connected st)
                                  else map_set accountId inner (al_connected st))\<rparr>)"

definition getApprovedList :: "string \<Rightarrow> string \<Rightarrow> allowlist \<Rightarrow> string list" where
  "getApprovedList accountId network st = sites_of accountId network st"

text \<open>
  \<open>localeCompare\<close> compares by the collation of the host: the sort key of an origin is a parameter.
\<close>

definition getConnectedSites ::
  "(string \<Rightarrow> 'c::linorder) \<Rightarrow> time \<Rightarrow> string \<Rightarrow> string \<Rightarrow> allowlist \<Rightarrow> connected_site list" where
  "getConnectedSites collation now accountId network st =
     sort_key (\<lambda>r. collation (cs_origin r))
       (map (\<lambda>origin. coalesce (map_get (records_of accountId network st) origin)
               \<lparr>cs_origin = origin, cs_accountId = accountId, cs_network = network,
                cs_connectedAt = Fin (of_int now)\<rparr>)
         (sites_of accountId network st))"

text \<open>The service takes its arguments in another order.\<close>

definition isAllowed :: "string \<Rightarrow> string \<Rightarrow> string \<Rightarrow> allowlist \<Rightarrow> bool" where
  "isAllowed network smartAccountId origin st = isApproved origin smartAccountId network st"

definition addToAllowlist :: "time \<Rightarrow> string \<Rightarrow> string \<Rightarrow> string \<Rightarrow> allowlist \<Rightarrow> allowlist" where
  "addToAllowlist now network smartAccountId origin st = approve now origin smartAccountId network st"

definition removeFromAllowlist :: "string \<Rightarrow> string \<Rightarrow> string \<Rightarrow> allowlist \<Rightarrow> allowlist" where
  "removeFromAllowlist network smartAccountId origin st = revoke origin smartAccountId network st"

definition getAllowedOrigins :: "string \<Rightarrow> string \<Rightarrow> allowlist \<Rightarrow> string list" where
  "getAllowedOrigins network smartAccountId st = getApprovedList smartAccountId network st"

definition clearAllowlist :: "allowlist \<Rightarrow> allowlist" where
  "clearAllowlist st = st\<lparr>al_approved := []\<rparr>"

section \<open>Rehydration\<close>

definition KNOWN_NETWORKS :: "string list" where
  "KNOWN_NETWORKS = [''mainnet'', ''testnet'', ''futurenet'', ''local'']"

text \<open>\<open>/^C[A-Z2-7]{55}$/\<close>.\<close>

definition isValidAccountId :: "string \<Rightarrow> bool" where
  "isValidAccountId s = (case s of
       [] \<Rightarrow> False
     | c # rest \<Rightarrow> c = CHR ''C'' \<and> length rest = 55 \<and> list_all is_base32_char rest)"

definition isValidNetwork :: "string \<Rightarrow> bool" where
  "isValidNetwork s = (s \<in> set KNOWN_NETWORKS)"

text \<open>
  The URL parser of the host: \<open>None\<close> where the constructor throws, otherwise protocol and origin.
\<close>

type_synonym url_parser = "string \<Rightarrow> (string \<times> string) option"

definition isValidOrigin :: "url_parser \<Rightarrow> string \<Rightarrow> bool" where
  "isValidOrigin url s = (s \<noteq> [] \<and> (case url s of
       None \<Rightarrow> False
     | Some (protocol, org) \<Rightarrow> (protocol = ''https:'' \<or> protocol = ''http:'') \<and> org = s))"

definition isValidConnectedAt :: "js \<Rightarrow> bool" where
  "isValidConnectedAt v = is_count v"

definition valid_origins :: "url_parser \<Rightarrow> js list \<Rightarrow> string list" where
  "valid_origins url xs = filter (isValidOrigin url) (List.map_filter js_string xs)"

definition sanitize_network ::
  "url_parser \<Rightarrow> string \<Rightarrow> string \<times> js \<Rightarrow> approved_map \<Rightarrow> approved_map" where
  "sanitize_network url accountId e acc = (case e of (network, origins) \<Rightarrow>
     if \<not> isValidNetwork network then acc
     else case js_items origins of
       None \<Rightarrow> acc
     | Some xs \<Rightarrow> if valid_origins url xs = [] then acc
                  else map_set accountId
                         (map_set network (valid_origins url xs) (coalesce (map_get acc accountId) [])) acc)"

definition sanitize_account :: "url_parser \<Rightarrow> string \<times> js \<Rightarrow> approved_map \<Rightarrow> approved_map" where
  "sanitize_account url e acc = (case e of (accountId, byNetwork) \<Rightarrow>
     if \<not> isValidAccountId accountId \<or> \<not> is_object byNetwork then acc
     else fold (sanitize_network url accountId) (js_entries byNetwork) acc)"

definition sanitizeApprovedSites :: "url_parser \<Rightarrow> js \<Rightarrow> approved_map" where
  "sanitizeApprovedSites url raw =
     (if \<not> is_object raw then [] else fold (sanitize_account url) (js_entries raw) [])"

text \<open>A record is kept when its fields repeat the keys it is stored under.\<close>

definition site_record :: "string \<Rightarrow> string \<Rightarrow> string \<Rightarrow> js \<Rightarrow> connected_site option" where
  "site_record accountId network origin r =
     (if js_get r ''origin'' = JsStr origin \<and> js_get r ''accountId'' = JsStr accountId
          \<and> js_get r ''network'' = JsStr network \<and> isValidConnectedAt (js_get r ''connectedAt'')
      then case js_get r ''connectedAt'' of
             JsNum n \<Rightarrow> Some \<lparr>cs_origin = origin, cs_accountId = accountId, cs_network = network,
                              cs_connectedAt = n\<rparr>
           | _ \<Rightarrow> None
      else None)"

definition sanitize_record ::
  "url_parser \<Rightarrow> string \<Rightarrow> string \<Rightarrow> string \<times> js \<Rightarrow> connected_map \<Rightarrow> connected_map" where
  "sanitize_record url accountId network e acc = (case e of (origin, r) \<Rightarrow>
     if \<not> isValidOrigin url origin \<or> \<not> is_object r then acc
     else case site_record accountId network origin r of
       None \<Rightarrow> acc
     | Some s \<Rightarrow>
         let byNetwork = coalesce (map_get acc accountId) [];
             byOrigin = coalesce (map_get byNetwork network) []
         in map_set accountId (map_set network (map_set origin s byOrigin) byNetwork) acc)"

definition sanitize_connected_network ::
  "url_parser \<Rightarrow> string \<Rightarrow> string \<times> js \<Rightarrow> connected_map \<Rightarrow> connected_map" where
  "sanitize_connected_network url accountId e acc = (case e of (network, byOrigin) \<Rightarrow>
     if \<not> isValidNetwork network \<or> \<not> is_object byOrigin then acc
     else fold (sanitize_record url accountId network) (js_entries byOrigin) acc)"

definition sanitize_connected_account :: "url_parser \<Rightarrow> string \<times> js \<Rightarrow> connected_map \<Rightarrow> connected_map" where
  "sanitize_connected_account url e acc = (case e of (accountId, byNetwork) \<Rightarrow>
     if \<not> isValidAccountId accountId \<or> \<not> is_object byNetwork then acc
     else fold (sanitize_connected_network url accountId) (js_entries byNetwork) acc)"

definition sanitizeConnectedSites :: "url_parser \<Rightarrow> js \<Rightarrow> connected_map" where
  "sanitizeConnectedSites url raw =
     (if \<not> is_object raw then [] else fold (sanitize_connected_account url) (js_entries raw) [])"

text \<open>The \<open>merge\<close> of the persistence layer: the stored state, \<open>undefined\<close> and \<open>null\<close> read as \<open>{}\<close>.\<close>

definition rehydrate :: "url_parser \<Rightarrow> js \<Rightarrow> allowlist" where
  "rehydrate url persisted = \<lparr>al_approved = sanitizeApprovedSites url (js_get persisted ''approvedSites''),
     al_connected = sanitizeConnectedSites url (js_get persisted ''connectedSites'')\<rparr>"

section \<open>The contract: a set of permissions\<close>

text \<open>
  What the handlers of the external interface rely on: a store that answers membership questions
  about a set of permissions and whose operations are the set operations.
\<close>

locale permission_store =
  fixes granted :: "'s \<Rightarrow> 'p set"
    and holds :: "'p \<Rightarrow> 's \<Rightarrow> bool"
    and grant :: "'p \<Rightarrow> 's \<Rightarrow> 's"
    and withdraw :: "'p \<Rightarrow> 's \<Rightarrow> 's"
  assumes holds_granted: "holds p s \<longleftrightarrow> p \<in> granted s"
    and granted_grant: "granted (grant p s) = insert p (granted s)"
    and granted_withdraw: "granted (withdraw p s) = granted s - {p}"
begin

lemma holds_grant: "holds q (grant p s) \<longleftrightarrow> q = p \<or> holds q s"
  by (simp add: holds_granted granted_grant)

lemma holds_withdraw: "holds q (withdraw p s) \<longleftrightarrow> q \<noteq> p \<and> holds q s"
  by (auto simp: holds_granted granted_withdraw)

lemma last_operation_wins:
  "holds p (fold (\<lambda>(g, q). if g then grant q else withdraw q) ops s) \<longleftrightarrow>
     (case filter (\<lambda>(g, q). q = p) (rev ops) of [] \<Rightarrow> holds p s | (g, q) # _ \<Rightarrow> g)"
proof (induction ops rule: rev_induct)
  case Nil
  then show ?case by simp
next
  case (snoc x xs)
  then show ?case by (cases x) (auto simp: holds_grant holds_withdraw)
qed

end

definition allow_abs :: "allowlist \<Rightarrow> (string \<times> string \<times> string) set" where
  "allow_abs st = {(origin, account, network). origin \<in> set (sites_of account network st)}"

definition perm_holds :: "string \<times> string \<times> string \<Rightarrow> allowlist \<Rightarrow> bool" where
  "perm_holds p st = (case p of (origin, account, network) \<Rightarrow> isApproved origin account network st)"

definition perm_grant :: "time \<Rightarrow> string \<times> string \<times> string \<Rightarrow> allowlist \<Rightarrow> allowlist" where
  "perm_grant now p st = (case p of (origin, account, network) \<Rightarrow> approve now origin account network st)"

definition perm_withdraw :: "string \<times> string \<times> string \<Rightarrow> allowlist \<Rightarrow> allowlist" where
  "perm_withdraw p st = (case p of (origin, account, network) \<Rightarrow> revoke origin account network st)"

lemma sites_approve:
  "sites_of a' n' (approve now org a n st) =
     (if a' = a \<and> n' = n \<and> org \<notin> set (sites_of a n st) then sites_of a n st @ [org] else sites_of a' n' st)"
  by (auto simp: approve_def sites_of_def Let_def jsmap_simps)

lemma sites_revoke:
  "sites_of a' n' (revoke org a n st) =
     (if a' = a \<and> n' = n then filter (\<lambda>s. s \<noteq> org) (sites_of a n st) else sites_of a' n' st)"
proof (cases "org \<in> set (sites_of a n st)")
  case True
  then show ?thesis by (auto simp: revoke_def sites_of_def Let_def jsmap_simps)
next
  case False
  then have "filter (\<lambda>s. s \<noteq> org) (sites_of a n st) = sites_of a n st" by (auto intro: filter_True)
  with False show ?thesis by (auto simp: revoke_def sites_of_def Let_def)
qed

lemma sites_revokeAll:
  "sites_of a' n' (revokeAll a n st) = (if a' = a \<and> n' = n then [] else sites_of a' n' st)"
  by (auto simp: revokeAll_def sites_of_def Let_def jsmap_simps map_has_get)

lemma sites_clear: "sites_of a n (clearAllowlist st) = []"
  by (simp add: sites_of_def clearAllowlist_def)

lemmas sites_simps = sites_approve sites_revoke sites_revokeAll sites_clear

interpretation al: permission_store allow_abs perm_holds "perm_grant now" perm_withdraw
proof
  fix p :: "string \<times> string \<times> string" and s :: allowlist
  obtain org a n where p: "p = (org, a, n)" using prod_cases3 by blast
  show "perm_holds p s \<longleftrightarrow> p \<in> allow_abs s" by (simp add: p perm_holds_def isApproved_def allow_abs_def)
  show "allow_abs (perm_grant now p s) = insert p (allow_abs s)"
    by (auto simp: p perm_grant_def allow_abs_def sites_approve)
  show "allow_abs (perm_withdraw p s) = allow_abs s - {p}"
    by (auto simp: p perm_withdraw_def allow_abs_def sites_revoke)
qed

section \<open>Histories\<close>

datatype allow_op =
    Approve time string string string
  | Revoke string string string
  | RevokeAll string string
  | ClearAll

fun allow_step :: "allow_op \<Rightarrow> allowlist \<Rightarrow> allowlist" where
  "allow_step (Approve now org a n) st = approve now org a n st"
| "allow_step (Revoke org a n) st = revoke org a n st"
| "allow_step (RevokeAll a n) st = revokeAll a n st"
| "allow_step ClearAll st = clearAllowlist st"

text \<open>The same history on the set of permissions.\<close>

fun allow_spec :: "allow_op \<Rightarrow> (string \<times> string \<times> string) set \<Rightarrow> (string \<times> string \<times> string) set" where
  "allow_spec (Approve now org a n) P = insert (org, a, n) P"
| "allow_spec (Revoke org a n) P = P - {(org, a, n)}"
| "allow_spec (RevokeAll a n) P = {(org, a', n') \<in> P. \<not> (a' = a \<and> n' = n)}"
| "allow_spec ClearAll P = {}"

lemma allow_step_refines: "allow_abs (allow_step x st) = allow_spec x (allow_abs st)"
  by (cases x) (auto simp: allow_abs_def sites_simps split: if_splits)

text \<open>Every listed origin has its record, under its own keys, and is listed once.\<close>

definition allow_inv :: "allowlist \<Rightarrow> bool" where
  "allow_inv st = (\<forall>a n. distinct (sites_of a n st)
     \<and> (\<forall>org \<in> set (sites_of a n st). \<exists>t. map_get (records_of a n st) org =
          Some \<lparr>cs_origin = org, cs_accountId = a, cs_network = n, cs_connectedAt = t\<rparr>))"

lemma records_approve:
  "map_get (records_of a' n' (approve now org a n st)) q =
     (if a' = a \<and> n' = n \<and> q = org \<and> org \<notin> set (sites_of a n st)
      then Some \<lparr>cs_origin = org, cs_accountId = a, cs_network = n, cs_connectedAt = Fin (of_int now)\<rparr>
      else map_get (records_of a' n' st) q)"
  by (auto simp: approve_def sites_of_def records_of_def Let_def jsmap_simps)

lemma map_get_empty_iff: "(\<forall>k. map_get m k = None) \<longleftrightarrow> m = []"
proof (cases m)
  case (Cons p ps)
  then have "map_get m (fst p) \<noteq> None" by (cases p) (simp add: map_get_def)
  with Cons show ?thesis by auto
qed simp

lemma records_revoke:
  "map_get (records_of a' n' (revoke org a n st)) q =
     (if a' = a \<and> n' = n \<and> q = org \<and> org \<in> set (sites_of a n st) then None
      else map_get (records_of a' n' st) q)"
proof (cases "org \<in> set (sites_of a n st)")
  case False
  then show ?thesis by (auto simp: revoke_def sites_of_def Let_def)
next
  case True
  let ?rest = "map_delete org (coalesce (map_get (coalesce (map_get (al_connected st) a) []) n) [])"
  show ?thesis
  proof (cases "?rest = []")
    case True
    then have "q = org \<or> map_get (coalesce (map_get (coalesce (map_get (al_connected st) a) []) n) []) q = None" for q
      using map_get_delete [of org _ q] by (metis map_get_Nil)
    then have "None = map_get (coalesce (map_get (coalesce (map_get (al_connected st) a) []) n) []) q" if "q \<noteq> org" for q
      using that by metis
    with True \<open>org \<in> set (sites_of a n st)\<close> show ?thesis
      by (auto simp: revoke_def sites_of_def records_of_def Let_def jsmap_simps split: option.splits)
  next
    case False
    with True show ?thesis
      by (auto simp: revoke_def sites_of_def records_of_def Let_def jsmap_simps)
  qed
qed

lemma records_revokeAll:
  "map_get (records_of a' n' (revokeAll a n st)) q =
     (if a' = a \<and> n' = n \<and> map_has (coalesce (map_get (al_approved st) a) []) n then None
      else map_get (records_of a' n' st) q)"
proof (cases "map_has (coalesce (map_get (al_approved st) a) []) n")
  case False
  then show ?thesis by (auto simp: revokeAll_def Let_def)
next
  case True
  let ?inner = "coalesce (map_get (al_connected st) a) []"
  show ?thesis
  proof (cases "map_delete n ?inner = []")
    case True
    then have "k = n \<or> map_get ?inner k = None" for k
      using map_get_delete [of n ?inner k] by (simp split: if_splits)
    then have "a' = a \<Longrightarrow> n' \<noteq> n \<Longrightarrow> map_get ?inner n' = None" by blast
    with True \<open>map_has _ n\<close> show ?thesis
      by (auto simp: revokeAll_def records_of_def Let_def jsmap_simps)
  next
    case False
    with True show ?thesis
      by (auto simp: revokeAll_def records_of_def Let_def jsmap_simps)
  qed
qed

lemma allow_inv_step: "allow_inv st \<Longrightarrow> allow_inv (allow_step x st)"
  by (cases x) (auto simp: allow_inv_def sites_simps records_approve records_revoke records_revokeAll)

lemma allow_inv_empty: "allow_inv empty_allowlist"
  by (simp add: allow_inv_def empty_allowlist_def sites_of_def)

lemma allow_inv_history: "allow_inv st \<Longrightarrow> allow_inv (fold allow_step ops st)"
  by (induction ops arbitrary: st) (auto intro: allow_inv_step)

section \<open>Well-formed objects and rehydration\<close>

text \<open>Objects have distinct property names.\<close>

definition allow_wf :: "allowlist \<Rightarrow> bool" where
  "allow_wf st = (map_wf (al_approved st) \<and> (\<forall>byN \<in> set (map_values (al_approved st)). map_wf byN))"

lemma wf_inner: "allow_wf st \<Longrightarrow> map_wf (coalesce (map_get (al_approved st) a) [])"
  by (cases "map_get (al_approved st) a") (auto simp: allow_wf_def map_values_iff)

lemma wf_set:
  assumes "allow_wf st" "map_wf byN"
  shows "allow_wf \<lparr>al_approved = map_set a byN (al_approved st), al_connected = c\<rparr>"
  using assms by (auto simp: allow_wf_def map_values_iff map_wf_set jsmap_simps split: if_splits)

lemma wf_step: "allow_wf st \<Longrightarrow> allow_wf (allow_step x st)"
proof (cases x)
  case ClearAll
  then show ?thesis by (simp add: clearAllowlist_def allow_wf_def map_values_def)
qed (auto simp: approve_def revoke_def revokeAll_def Let_def intro!: wf_set map_wf_set map_wf_delete wf_inner)

lemma wf_history: "allow_wf st \<Longrightarrow> allow_wf (fold allow_step ops st)"
  by (induction ops arbitrary: st) (auto intro: wf_step)

lemma wf_empty: "allow_wf empty_allowlist"
  by (simp add: allow_wf_def empty_allowlist_def map_values_def)

text \<open>What the persistence layer writes: the state as JSON.\<close>

definition persist_approved :: "approved_map \<Rightarrow> js" where
  "persist_approved m = JsObj (map (\<lambda>(a, byN). (a, JsObj (map (\<lambda>(n, xs). (n, JsArr (map JsStr xs))) byN))) m)"

definition persist_site :: "connected_site \<Rightarrow> js" where
  "persist_site r = JsObj [(''origin'', JsStr (cs_origin r)), (''accountId'', JsStr (cs_accountId r)),
     (''network'', JsStr (cs_network r)), (''connectedAt'', JsNum (cs_connectedAt r))]"

definition persist_connected :: "connected_map \<Rightarrow> js" where
  "persist_connected m = JsObj (map (\<lambda>(a, byN). (a, JsObj (map (\<lambda>(n, byO).
     (n, JsObj (map (\<lambda>(q, r). (q, persist_site r)) byO))) byN))) m)"

definition persist_state :: "allowlist \<Rightarrow> js" where
  "persist_state st = JsObj [(''approvedSites'', persist_approved (al_approved st)),
     (''connectedSites'', persist_connected (al_connected st))]"

abbreviation nested :: "('a, ('b, 'c list) jsmap) jsmap \<Rightarrow> 'a \<Rightarrow> 'b \<Rightarrow> 'c list" where
  "nested m a n \<equiv> coalesce (map_get (coalesce (map_get m a) []) n) []"

definition stored_origins :: "url_parser \<Rightarrow> string \<Rightarrow> js \<Rightarrow> string list" where
  "stored_origins url n v = (if isValidNetwork n then coalesce (map_option (valid_origins url) (js_items v)) [] else [])"

lemma nested_sanitize_network:
  "nested (sanitize_network url a (n, v) acc) a' n' =
     (if a' = a \<and> n' = n \<and> stored_origins url n v \<noteq> [] then stored_origins url n v else nested acc a' n')"
  by (auto simp: sanitize_network_def stored_origins_def jsmap_simps split: option.splits)

lemma nested_sanitize_networks:
  assumes "distinct (map fst es)" "\<forall>n. nested acc a n = []"
  shows "nested (fold (sanitize_network url a) es acc) a' n' =
     (if a' = a then coalesce (map_option (stored_origins url n') (map_of es n')) [] else nested acc a' n')"
  using assms(1)
proof (induction es rule: rev_induct)
  case Nil
  with assms(2) show ?case by simp
next
  case (snoc e es)
  obtain n v where e: "e = (n, v)" by fastforce
  with snoc.prems have "map_of es n = None" by (auto simp: map_of_eq_None_iff)
  with snoc show ?case
    by (auto simp: e nested_sanitize_network map_add_def split: option.splits)
qed

lemma nested_sanitize_accounts:
  assumes "distinct (map fst es)" "\<forall>e \<in> set es. distinct (map fst (js_entries (snd e)))"
  shows "nested (fold (sanitize_account url) es []) a n =
     (case map_of es a of None \<Rightarrow> [] | Some v \<Rightarrow>
        if isValidAccountId a \<and> is_object v
        then coalesce (map_option (stored_origins url n) (map_of (js_entries v) n)) [] else [])"
  using assms
proof (induction es arbitrary: n rule: rev_induct)
  case Nil
  show ?case by simp
next
  case (snoc e es)
  obtain b v where e: "e = (b, v)" by fastforce
  with snoc.prems have none: "map_of es b = None" by (auto simp: map_of_eq_None_iff)
  let ?acc = "fold (sanitize_account url) es []"
  have IH: "nested ?acc a n = (case map_of es a of None \<Rightarrow> [] | Some v \<Rightarrow>
        if isValidAccountId a \<and> is_object v
        then coalesce (map_option (stored_origins url n) (map_of (js_entries v) n)) [] else [])" for n
    using snoc by simp
  have fresh: "\<forall>n. nested ?acc b n = []" if "a = b" using IH none that by simp
  have d: "distinct (map fst (js_entries v))" using snoc.prems(2) by (simp add: e)
  show ?case
  proof (cases "isValidAccountId b \<and> is_object v")
    case False
    then have "fold (sanitize_account url) (es @ [e]) [] = ?acc" by (auto simp: e sanitize_account_def)
    with False none show ?thesis
      by (simp only: IH) (auto simp: e map_add_def split: option.splits)
  next
    case True
    then have step: "fold (sanitize_account url) (es @ [e]) [] = fold (sanitize_network url b) (js_entries v) ?acc"
      by (simp add: e sanitize_account_def)
    show ?thesis
    proof (cases "a = b")
      case True
      then show ?thesis
        unfolding step using nested_sanitize_networks [OF d fresh, of url a n] \<open>isValidAccountId b \<and> is_object v\<close> none
        by (simp add: e map_add_def)
    next
      case False
      have other: "nested (fold (sanitize_network url b) xs acc) a n = nested acc a n" for xs acc
        by (induction xs arbitrary: acc) (use False in \<open>auto simp: nested_sanitize_network\<close>)
      from False IH show ?thesis
        by (simp only: step other) (auto simp: e map_add_def split: option.splits)
    qed
  qed
qed

lemma valid_origins_strings: "valid_origins url (map JsStr xs) = filter (isValidOrigin url) xs"
  by (induction xs) (auto simp: valid_origins_def List.map_filter_simps)

lemma sites_rehydrate:
  assumes "allow_wf st"
  shows "sites_of a n (rehydrate url (persist_state st)) =
     (if isValidAccountId a \<and> isValidNetwork n then filter (isValidOrigin url) (sites_of a n st) else [])"
proof -
  let ?enc = "\<lambda>byN. JsObj (map (\<lambda>(n, xs). (n, JsArr (map JsStr xs))) byN)"
  let ?es = "map (\<lambda>(a, byN). (a, ?enc byN)) (al_approved st)"
  have entry: "map fst (js_entries (?enc byN)) = map fst byN" for byN :: "(string, string list) jsmap"
    by (induction byN) auto
  have d: "distinct (map fst ?es)" using assms by (simp only: map_keys_mapval allow_wf_def map_wf_def)
  have d': "\<forall>e \<in> set ?es. distinct (map fst (js_entries (snd e)))"
    using assms entry by (auto simp: allow_wf_def map_wf_def map_values_def simp del: js_entries.simps)
  have enc: "map_of ?es a = map_option ?enc (map_get (al_approved st) a)" for a
    using map_get_mapval [of ?enc "al_approved st" a] by (simp add: map_get_def)
  have dec: "map_of (js_entries (?enc byN)) n = map_option (\<lambda>xs. JsArr (map JsStr xs)) (map_get byN n)" for byN
    using map_get_mapval [of "\<lambda>xs. JsArr (map JsStr xs)" byN n] by (simp add: map_get_def)
  have opt: "coalesce (map_option (stored_origins url n) (map_option (\<lambda>xs. JsArr (map JsStr xs)) x)) [] =
      (if isValidNetwork n then filter (isValidOrigin url) (coalesce x []) else [])" for x
    by (cases x) (simp_all add: stored_origins_def valid_origins_strings)
  have "sites_of a n (rehydrate url (persist_state st)) = nested (fold (sanitize_account url) ?es []) a n"
    by (simp add: sites_of_def rehydrate_def persist_state_def js_get_def sanitizeApprovedSites_def persist_approved_def)
  also have "\<dots> = (case map_get (al_approved st) a of None \<Rightarrow> [] | Some byN \<Rightarrow>
      if isValidAccountId a \<and> isValidNetwork n then filter (isValidOrigin url) (coalesce (map_get byN n) []) else [])"
    unfolding nested_sanitize_accounts [OF d d'] enc
    by (auto simp: dec opt simp del: js_entries.simps split: option.splits)
  finally show ?thesis by (auto simp: sites_of_def split: option.splits)
qed

section \<open>What rehydration lets through\<close>

definition map_ok :: "('k \<Rightarrow> 'v \<Rightarrow> bool) \<Rightarrow> ('k, 'v) jsmap \<Rightarrow> bool" where
  "map_ok P m = (map_wf m \<and> list_all (\<lambda>(k, v). P k v) m)"

lemma map_ok_Nil [simp]: "map_ok P []"
  by (simp add: map_ok_def)

lemma map_ok_set [invar_intros]: "map_ok P m \<Longrightarrow> P k v \<Longrightarrow> map_ok P (map_set k v m)"
  by (auto simp: map_ok_def map_all_iff map_wf_set jsmap_simps)

lemma map_ok_get: "map_ok P m \<Longrightarrow> map_get m k = Some v \<Longrightarrow> P k v"
  by (auto simp: map_ok_def map_all_iff)

lemma map_ok_inner:
  "map_ok (\<lambda>k v. Q k \<and> map_ok (P k) v) m \<Longrightarrow> map_ok (P k) (coalesce (map_get m k) [])"
  by (cases "map_get m k") (auto dest: map_ok_get)

definition approved_typed :: "url_parser \<Rightarrow> approved_map \<Rightarrow> bool" where
  "approved_typed url = map_ok (\<lambda>a byN. isValidAccountId a \<and>
     map_ok (\<lambda>n xs. isValidNetwork n \<and> xs \<noteq> [] \<and> list_all (isValidOrigin url) xs) byN)"

definition site_typed :: "string \<Rightarrow> string \<Rightarrow> string \<Rightarrow> connected_site \<Rightarrow> bool" where
  "site_typed a n org r = (cs_origin r = org \<and> cs_accountId r = a \<and> cs_network r = n
     \<and> isValidConnectedAt (JsNum (cs_connectedAt r)))"

definition connected_typed :: "url_parser \<Rightarrow> connected_map \<Rightarrow> bool" where
  "connected_typed url = map_ok (\<lambda>a byN. isValidAccountId a \<and>
     map_ok (\<lambda>n byO. isValidNetwork n \<and> map_ok (\<lambda>q r. isValidOrigin url q \<and> site_typed a n q r) byO) byN)"

definition allowlist_typed :: "url_parser \<Rightarrow> allowlist \<Rightarrow> bool" where
  "allowlist_typed url st = (approved_typed url (al_approved st) \<and> connected_typed url (al_connected st))"

lemma fold_keeps: "P s \<Longrightarrow> (\<And>x s. P s \<Longrightarrow> P (f x s)) \<Longrightarrow> P (fold f xs s)"
  by (induction xs arbitrary: s) auto

lemmas approved_fold = fold_keeps [where P = "approved_typed url" for url]
lemmas connected_fold = fold_keeps [where P = "connected_typed url" for url]

lemma typed_sanitize_network:
  "approved_typed url acc \<Longrightarrow> isValidAccountId a \<Longrightarrow> approved_typed url (sanitize_network url a e acc)"
  by (auto simp: sanitize_network_def approved_typed_def valid_origins_def list_all_iff
        intro!: map_ok_set map_ok_inner split: prod.splits option.splits)

lemma typed_sanitize_account: "approved_typed url acc \<Longrightarrow> approved_typed url (sanitize_account url e acc)"
  by (auto simp: sanitize_account_def intro!: approved_fold typed_sanitize_network split: prod.splits)

lemma typed_site_record: "site_record a n q r = Some s \<Longrightarrow> site_typed a n q s"
  by (auto simp: site_record_def site_typed_def split: if_splits js.splits)

lemma typed_sanitize_record:
  assumes "connected_typed url acc" "isValidAccountId a" "isValidNetwork n"
  shows "connected_typed url (sanitize_record url a n e acc)"
proof -
  have inner: "map_ok (\<lambda>n byO. isValidNetwork n \<and> map_ok (\<lambda>q r. isValidOrigin url q \<and> site_typed a n q r) byO)
      (coalesce (map_get acc a) [])"
    using assms(1) unfolding connected_typed_def
    by (rule map_ok_inner [where P = "\<lambda>a n byO. isValidNetwork n \<and> map_ok (\<lambda>q r. isValidOrigin url q \<and> site_typed a n q r) byO"])
  have "map_ok (\<lambda>q r. isValidOrigin url q \<and> site_typed a n q r) (coalesce (map_get (coalesce (map_get acc a) []) n) [])"
    using inner by (rule map_ok_inner [where P = "\<lambda>n q r. isValidOrigin url q \<and> site_typed a n q r"])
  with inner assms show ?thesis
    by (auto simp: sanitize_record_def connected_typed_def Let_def
          intro!: map_ok_set typed_site_record split: prod.splits option.splits)
qed

lemma typed_sanitize_connected_network:
  "connected_typed url acc \<Longrightarrow> isValidAccountId a \<Longrightarrow> connected_typed url (sanitize_connected_network url a e acc)"
  by (auto simp: sanitize_connected_network_def intro!: connected_fold typed_sanitize_record split: prod.splits)

lemma typed_sanitize_connected_account:
  "connected_typed url acc \<Longrightarrow> connected_typed url (sanitize_connected_account url e acc)"
  by (auto simp: sanitize_connected_account_def intro!: connected_fold typed_sanitize_connected_network split: prod.splits)

lemma typed_rehydrate: "allowlist_typed url (rehydrate url raw)"
proof -
  have nil: "approved_typed url []" "connected_typed url []"
    by (simp_all add: approved_typed_def connected_typed_def)
  have "approved_typed url (sanitizeApprovedSites url v)" for v
    using nil by (auto simp: sanitizeApprovedSites_def intro!: approved_fold typed_sanitize_account)
  moreover have "connected_typed url (sanitizeConnectedSites url v)" for v
    using nil by (auto simp: sanitizeConnectedSites_def intro!: connected_fold typed_sanitize_connected_account)
  ultimately show ?thesis by (simp add: allowlist_typed_def rehydrate_def)
qed

section \<open>Properties\<close>

text \<open>
  C33. The store refines a set of permissions: over any history of approvals, revocations, revocations
  of a whole account and clearings, the permissions it answers for are those the same history builds
  on the set, and the list of an account names exactly the origins permitted there.
\<close>

theorem allowlist_refines_permissions:
  "allow_abs (fold allow_step ops st) = fold allow_spec ops (allow_abs st)
   \<and> isAllowed n a org (fold allow_step ops st) = ((org, a, n) \<in> fold allow_spec ops (allow_abs st))
   \<and> set (getAllowedOrigins n a (fold allow_step ops st)) = {q. (q, a, n) \<in> fold allow_spec ops (allow_abs st)}"
proof -
  have "allow_abs (fold allow_step ops st) = fold allow_spec ops (allow_abs st)"
    by (induction ops arbitrary: st) (simp_all add: allow_step_refines)
  moreover from this have "q \<in> set (sites_of a n (fold allow_step ops st)) \<longleftrightarrow> (q, a, n) \<in> fold allow_spec ops (allow_abs st)" for q
    by (simp add: allow_abs_def [of "fold allow_step ops st"] set_eq_iff)
  ultimately show ?thesis
    by (auto simp: isAllowed_def getAllowedOrigins_def getApprovedList_def isApproved_def)
qed

text \<open>
  C40. Whatever the browser storage holds, the rehydrated state is well-typed: account ids are
  contract addresses, networks are known, origins are web origins, no list is empty, and every
  connection record repeats the keys it is stored under with a non-negative integral time.
\<close>

theorem rehydrate_well_typed: "allowlist_typed url (rehydrate url raw)"
  by (rule typed_rehydrate)

text \<open>
  A restart neither adds nor loses a permission: the state read back from what was written permits
  exactly the well-formed permissions of the state, in the same order within each list.
\<close>

theorem rehydrate_keeps_permissions:
  "sites_of a n (rehydrate url (persist_state (fold allow_step ops empty_allowlist))) =
     (if isValidAccountId a \<and> isValidNetwork n
      then filter (isValidOrigin url) (sites_of a n (fold allow_step ops empty_allowlist)) else [])"
  by (rule sites_rehydrate, rule wf_history, rule wf_empty)

text \<open>
  The connected sites shown for an account are its permitted origins, each once and in the order
  of the collation, with the recorded time of connection: the clock of the call never shows.
\<close>

theorem connected_sites_exact:
  "mset (map cs_origin (getConnectedSites coll now a n (fold allow_step ops empty_allowlist))) =
     mset (getApprovedList a n (fold allow_step ops empty_allowlist))
   \<and> distinct (map cs_origin (getConnectedSites coll now a n (fold allow_step ops empty_allowlist)))
   \<and> sorted (map (coll \<circ> cs_origin) (getConnectedSites coll now a n (fold allow_step ops empty_allowlist)))
   \<and> getConnectedSites coll now a n (fold allow_step ops empty_allowlist)
       = getConnectedSites coll now' a n (fold allow_step ops empty_allowlist)"
proof -
  let ?st = "fold allow_step ops empty_allowlist"
  let ?rec = "\<lambda>t q. coalesce (map_get (records_of a n ?st) q)
     \<lparr>cs_origin = q, cs_accountId = a, cs_network = n, cs_connectedAt = Fin (of_int t)\<rparr>"
  have inv: "allow_inv ?st" by (rule allow_inv_history, rule allow_inv_empty)
  then have rec: "\<exists>t'. ?rec t q = \<lparr>cs_origin = q, cs_accountId = a, cs_network = n, cs_connectedAt = t'\<rparr>"
    if "q \<in> set (sites_of a n ?st)" for q t
    using that by (fastforce simp: allow_inv_def)
  have same: "map (?rec now) (sites_of a n ?st) = map (?rec now') (sites_of a n ?st)"
    using inv by (fastforce simp: allow_inv_def)
  have orig: "map (cs_origin \<circ> ?rec now) (sites_of a n ?st) = sites_of a n ?st"
  proof (rule map_idI)
    fix q assume "q \<in> set (sites_of a n ?st)"
    from rec [OF this] show "(cs_origin \<circ> ?rec now) q = q" by (metis comp_apply connected_site.select_convs(1))
  qed
  have ms: "mset (map cs_origin (getConnectedSites coll now a n ?st)) = mset (sites_of a n ?st)"
  proof -
    have "mset (map cs_origin (sort_key k ys)) = mset (map cs_origin ys)" for k :: "connected_site \<Rightarrow> 'a" and ys
      by simp
    then show ?thesis using orig by (simp only: getConnectedSites_def list.map_comp)
  qed
  moreover have "distinct (sites_of a n ?st)" using inv by (simp add: allow_inv_def)
  then have "distinct (map cs_origin (getConnectedSites coll now a n ?st))"
    using ms by (metis mset_eq_imp_distinct_iff)
  moreover have "sorted (map (coll \<circ> cs_origin) (getConnectedSites coll now a n ?st))"
    using sorted_sort_key [of "\<lambda>r. coll (cs_origin r)"] by (simp add: getConnectedSites_def comp_def)
  ultimately show ?thesis by (simp add: getApprovedList_def) (simp add: getConnectedSites_def same)
qed

end
