(* ===== verification/DappApi.thy ===== *)
theory DappApi
  imports Allowlist CanonicalPayload
begin

text \<open>
  The interface a web page has to the extension wallet, up to the point where a request waits for
  the user: the protocol of \<open>packages/wallet-shared/src/protocol.ts\<close>, the filter of the content
  script (\<open>content-script/index.ts\<close>), the guards of the service worker
  (\<open>background/service-worker.ts\<close>), the request schemas of
  \<open>background/handlers/external/handlers.ts\<close> and the signers behind an approval
  (\<open>background/handlers/sign-*.ts\<close>). Parameters of a request are values of unknown shape. The URL
  parser, base64 decoding and the transaction and authorization codecs of the Stellar SDK are
  parameters.
\<close>

section \<open>Methods\<close>

datatype api_method =
    RequestAccess | Connect | GetAddress | GetNetwork | IsConnected | GetSmartAccount | GetPublicKey
  | SignTransaction | SignAuthEntry | SignMessage | SignRelayPayload | RequestSessionKey

fun api_method_name :: "api_method \<Rightarrow> string" where
  "api_method_name RequestAccess = ''requestAccess''"
| "api_method_name Connect = ''connect''"
| "api_method_name GetAddress = ''getAddress''"
| "api_method_name GetNetwork = ''getNetwork''"
| "api_method_name IsConnected = ''isConnected''"
| "api_method_name GetSmartAccount = ''getSmartAccount''"
| "api_method_name GetPublicKey = ''getPublicKey''"
| "api_method_name SignTransaction = ''signTransaction''"
| "api_method_name SignAuthEntry = ''signAuthEntry''"
| "api_method_name SignMessage = ''signMessage''"
| "api_method_name SignRelayPayload = ''signRelayPayload''"
| "api_method_name RequestSessionKey = ''requestSessionKey''"

text \<open>The registration order of \<open>external/index.ts\<close>; the registry maps a name to its handler.\<close>

definition registered_methods :: "api_method list" where
  "registered_methods = [RequestAccess, Connect, GetAddress, GetNetwork, IsConnected, GetSmartAccount,
     GetPublicKey, SignTransaction, SignAuthEntry, SignMessage, SignRelayPayload, RequestSessionKey]"

definition getExternalHandler :: "string \<Rightarrow> api_method option" where
  "getExternalHandler name = find (\<lambda>m. api_method_name m = name) registered_methods"

definition NETWORK_PASSPHRASES :: "string \<Rightarrow> string option" where
  "NETWORK_PASSPHRASES n = map_of
     [(''mainnet'', ''Public Global Stellar Network ; September 2015''),
      (''testnet'', ''Test SDF Network ; September 2015''),
      (''futurenet'', ''Test SDF Future Network ; October 2022''),
      (''local'', ''Standalone Network ; February 2017'')] n"

definition testnet_passphrase :: string where
  "testnet_passphrase = ''Test SDF Network ; September 2015''"

section \<open>The content script\<close>

definition ANCORE_WALLET_REQUEST :: string where
  "ANCORE_WALLET_REQUEST = ''ANCORE_WALLET_REQUEST''"

definition WALLET_API_SOURCE :: string where
  "WALLET_API_SOURCE = ''ancore-wallet-api@1''"

definition isExternalRequest :: "js \<Rightarrow> bool" where
  "isExternalRequest data = (is_object data
     \<and> js_get data ''type'' = JsStr ANCORE_WALLET_REQUEST
     \<and> js_get data ''source'' = JsStr WALLET_API_SOURCE
     \<and> js_string (js_get data ''requestId'') \<noteq> None \<and> js_string (js_get data ''method'') \<noteq> None)"

definition BLOCKED_ORIGIN_PREFIXES :: "string list" where
  "BLOCKED_ORIGIN_PREFIXES = [''chrome-extension://'', ''moz-extension://'', ''safari-extension://'',
     ''safari-web-extension://'', ''chrome://'', ''about:'', ''data:'', ''blob:'', ''file://'', ''javascript:'']"

definition isOriginPermitted :: "url_parser \<Rightarrow> string \<Rightarrow> bool" where
  "isOriginPermitted url origin = (origin \<noteq> []
     \<and> \<not> list_ex (\<lambda>p. js_starts_with p (js_lower origin)) BLOCKED_ORIGIN_PREFIXES
     \<and> (case url origin of None \<Rightarrow> False | Some (protocol, _) \<Rightarrow> protocol = ''https:'' \<or> protocol = ''http:''))"

definition METHOD_TO_MESSAGE_TYPE :: "(string \<times> string) list" where
  "METHOD_TO_MESSAGE_TYPE =
     [(''requestAccess'', ''EXTERNAL_REQUEST_ACCESS''), (''connect'', ''EXTERNAL_REQUEST_ACCESS''),
      (''getAddress'', ''EXTERNAL_GET_PUBLIC_KEY''), (''getPublicKey'', ''EXTERNAL_GET_PUBLIC_KEY''),
      (''getNetwork'', ''EXTERNAL_GET_NETWORK''), (''isConnected'', ''EXTERNAL_IS_CONNECTED''),
      (''getSmartAccount'', ''EXTERNAL_GET_SMART_ACCOUNT''), (''signTransaction'', ''EXTERNAL_SIGN_TRANSACTION''),
      (''signAuthEntry'', ''EXTERNAL_SIGN_AUTH_ENTRY''), (''signMessage'', ''EXTERNAL_SIGN_MESSAGE''),
      (''requestSessionKey'', ''EXTERNAL_REQUEST_SESSION_KEY'')]"

text \<open>
  What the listener does with a message: nothing, an error posted back to the page, or a message to
  the background. A refusal to a page whose origin is not permitted is never posted
  (\<open>respond\<close> checks the origin again). \<open>event_origin\<close> is empty when the browser gives none.
\<close>

record forwarded =
  fw_requestId :: string
  fw_method :: string
  fw_params :: js
  fw_origin :: string

datatype content_action = Dropped | Refused string string | Forwarded string forwarded

definition respond_error :: "url_parser \<Rightarrow> string \<Rightarrow> string \<Rightarrow> string \<Rightarrow> content_action" where
  "respond_error url requestId pageOrigin err =
     (if isOriginPermitted url pageOrigin then Refused requestId err else Dropped)"

definition content_listener ::
  "url_parser \<Rightarrow> string \<Rightarrow> bool \<Rightarrow> string \<Rightarrow> string \<Rightarrow> js \<Rightarrow> content_action" where
  "content_listener url correlationId sameWindow event_origin window_origin data =
     (if \<not> sameWindow then Dropped
      else if \<not> isExternalRequest data then Dropped
      else case (js_get data ''requestId'', js_get data ''method'') of
        (JsStr requestId, JsStr meth) \<Rightarrow>
          (let browserOrigin = (if event_origin \<noteq> [] then event_origin else window_origin)
           in if browserOrigin \<noteq> window_origin then Dropped
              else if \<not> isOriginPermitted url browserOrigin
              then respond_error url requestId browserOrigin ''Origin not permitted''
              else if map_of METHOD_TO_MESSAGE_TYPE meth = None
              then respond_error url requestId browserOrigin ''Unknown method''
              else Forwarded requestId \<lparr>fw_requestId = correlationId, fw_method = meth,
                     fw_params = (if js_get data ''params'' \<in> {JsUndefined, JsNull} then JsObj []
                                  else js_get data ''params''),
                     fw_origin = browserOrigin\<rparr>)
      | _ \<Rightarrow> Dropped)"

section \<open>Guards of the service worker\<close>

datatype worker_verdict = Ignored | Answered string | Accepted string string string js

definition nonempty_string :: "js \<Rightarrow> string option" where
  "nonempty_string v = (case v of JsStr s \<Rightarrow> if s = [] then None else Some s | _ \<Rightarrow> None)"

definition worker_guard :: "string option \<Rightarrow> js \<Rightarrow> worker_verdict" where
  "worker_guard sender_origin message =
     (if \<not> is_object message \<or> js_get message ''type'' \<noteq> JsStr ''EXTERNAL_API_REQUEST'' then Ignored
      else case nonempty_string (js_get message ''requestId'') of
        None \<Rightarrow> Ignored
      | Some requestId \<Rightarrow> (case nonempty_string (js_get message ''origin'') of
          None \<Rightarrow> Answered requestId
        | Some origin \<Rightarrow> (case nonempty_string (js_get message ''method'') of
            None \<Rightarrow> Answered requestId
          | Some meth \<Rightarrow>
              if coalesce sender_origin [] \<noteq> [] \<and> sender_origin \<noteq> Some origin then Answered requestId
              else Accepted requestId meth origin (js_get message ''params''))))"

text \<open>The message the content script sends.\<close>

definition api_message :: "forwarded \<Rightarrow> js" where
  "api_message f = JsObj [(''type'', JsStr ''EXTERNAL_API_REQUEST''), (''requestId'', JsStr (fw_requestId f)),
     (''method'', JsStr (fw_method f)), (''params'', fw_params f), (''origin'', JsStr (fw_origin f))]"

section \<open>Parameters of a request\<close>

definition DEFAULT_MOCK_SMART_ACCOUNT_ID :: string where
  "DEFAULT_MOCK_SMART_ACCOUNT_ID = CHR ''C'' # replicate 55 (CHR ''A'')"

text \<open>
  \<open>typedParams.f || d\<close> for a field the handler takes to be a string; a field of another type is
  read as absent.
\<close>

definition field_or :: "string \<Rightarrow> js \<Rightarrow> string \<Rightarrow> string" where
  "field_or f p d = coalesce (nonempty_string (js_get p f)) d"

definition resolveWalletContext :: "js \<Rightarrow> string \<times> string" where
  "resolveWalletContext p =
     (field_or ''network'' p ''testnet'', field_or ''smartAccountId'' p DEFAULT_MOCK_SMART_ACCOUNT_ID)"

fun is_plain_object :: "js \<Rightarrow> bool" where
  "is_plain_object (JsObj ps) = True"
| "is_plain_object _ = False"

definition optional_string :: "js \<Rightarrow> bool" where
  "optional_string v = (v = JsUndefined \<or> js_string v \<noteq> None)"

definition required_text :: "js \<Rightarrow> bool" where
  "required_text v = (case v of JsStr s \<Rightarrow> js_trim s \<noteq> [] | _ \<Rightarrow> False)"

text \<open>The zod schemas of the three sign requests, by the name of their required field.\<close>

definition sign_schema :: "string \<Rightarrow> js \<Rightarrow> bool" where
  "sign_schema f p = (is_plain_object p \<and> required_text (js_get p f)
     \<and> optional_string (js_get p ''network'') \<and> optional_string (js_get p ''smartAccountId''))"

definition string_array :: "js \<Rightarrow> bool" where
  "string_array v = (case v of JsArr xs \<Rightarrow> list_all (\<lambda>x. js_string x \<noteq> None) xs | _ \<Rightarrow> False)"

definition session_key_schema :: "js \<Rightarrow> bool" where
  "session_key_schema p = (is_plain_object p
     \<and> is_count (js_get p ''expiresAt'') \<and> js_get p ''expiresAt'' \<noteq> JsNum (Fin 0)
     \<and> is_count (js_get p ''permissions'')
     \<and> optional_string (js_get p ''network'') \<and> optional_string (js_get p ''smartAccountId'')
     \<and> (js_get p ''allowedContracts'' = JsUndefined \<or> string_array (js_get p ''allowedContracts''))
     \<and> optional_string (js_get p ''maxAmountPerCall''))"

section \<open>The signers\<close>

datatype sign_error =
    WalletLocked | PassphraseMismatch | NoAccount | InvalidMessage | InvalidAuthEntry | NotAddressCredentials
  | InvalidOperation | InvalidNonce | InvalidRelayParameters | SdkError string

datatype signed =
    SignedXdr string | RequiresHardware js string | SignedAuthEntry string | MessageSignature string
  | RelaySignature string string

text \<open>
  What a signer reads: the session flag, the selected network, the preferred signer, the vault's lock
  and private key; and what it calls: \<open>Keypair.fromSecret\<close> (raw public key and signing
  function), transaction parsing and signing, the authorization codec.
\<close>

record signer_env =
  se_unlocked :: bool
  se_network :: string
  se_hardware :: bool
  se_vaultUnlocked :: bool
  se_privateKey :: "string option"
  se_fromSecret :: "string \<Rightarrow> string + (byte list \<times> (byte list \<Rightarrow> byte list))"
  se_signTx :: "js \<Rightarrow> string \<Rightarrow> (byte list \<Rightarrow> byte list) \<Rightarrow> string + string"
  se_authDecodes :: "string \<Rightarrow> bool"
  se_authAddress :: "string \<Rightarrow> bool"
  se_authorize :: "string \<Rightarrow> string \<Rightarrow> (byte list \<Rightarrow> byte list) \<Rightarrow> string + string"

definition getSigningKeypair :: "signer_env \<Rightarrow> sign_error + (byte list \<times> (byte list \<Rightarrow> byte list))" where
  "getSigningKeypair e =
     (if \<not> se_vaultUnlocked e then Inl WalletLocked
      else case coalesce (se_privateKey e) [] of
        [] \<Rightarrow> Inl NoAccount
      | s \<Rightarrow> (case se_fromSecret e s of Inl m \<Rightarrow> Inl (SdkError m) | Inr kp \<Rightarrow> Inr kp))"

definition passphrase_field :: "js \<Rightarrow> string" where
  "passphrase_field p = coalesce (js_string (js_get p ''networkPassphrase'')) testnet_passphrase"

definition passphrase_mismatch :: "signer_env \<Rightarrow> js \<Rightarrow> bool" where
  "passphrase_mismatch e p = (case NETWORK_PASSPHRASES (se_network e) of
       None \<Rightarrow> False | Some active \<Rightarrow> passphrase_field p \<noteq> active)"

definition lift_sdk :: "('a \<Rightarrow> signed) \<Rightarrow> string + 'a \<Rightarrow> sign_error + signed" where
  "lift_sdk f r = (case r of Inl m \<Rightarrow> Inl (SdkError m) | Inr x \<Rightarrow> Inr (f x))"

definition signTransaction :: "signer_env \<Rightarrow> js \<Rightarrow> sign_error + signed" where
  "signTransaction e p =
     (if \<not> se_unlocked e then Inl WalletLocked
      else if passphrase_mismatch e p then Inl PassphraseMismatch
      else if se_hardware e then Inr (RequiresHardware (js_get p ''xdr'') (passphrase_field p))
      else case getSigningKeypair e of
        Inl err \<Rightarrow> Inl err
      | Inr (_, sign) \<Rightarrow> lift_sdk SignedXdr (se_signTx e (js_get p ''xdr'') (passphrase_field p) sign))"

definition signMessage :: "signer_env \<Rightarrow> js \<Rightarrow> sign_error + signed" where
  "signMessage e p = (case nonempty_string (js_get p ''message'') of
       None \<Rightarrow> Inl InvalidMessage
     | Some message \<Rightarrow>
         if \<not> se_unlocked e then Inl WalletLocked
         else case getSigningKeypair e of
           Inl err \<Rightarrow> Inl err
         | Inr (_, sign) \<Rightarrow> Inr (MessageSignature (hex_of (sign (utf8 message)))))"

text \<open>
  The relay envelope. The nonce is taken to be integral, as the schema of the relayer demands; a
  fractional one is outside the model.
\<close>

definition signRelayEnvelope :: "signer_env \<Rightarrow> js \<Rightarrow> sign_error + signed" where
  "signRelayEnvelope e p = (case nonempty_string (js_get p ''operation'') of
       None \<Rightarrow> Inl InvalidOperation
     | Some operation \<Rightarrow> (case js_get p ''nonce'' of
         JsNum (Fin q) \<Rightarrow>
           (case (js_string (js_get p ''to''), js_string (js_get p ''amount''), js_string (js_get p ''asset'')) of
              (Some dest, Some amount, Some asset) \<Rightarrow>
                if \<not> se_unlocked e then Inl WalletLocked
                else (case getSigningKeypair e of
                  Inl err \<Rightarrow> Inl err
                | Inr (raw, sign) \<Rightarrow>
                    (case signRelayPayload True raw sign operation \<lfloor>q\<rfloor> dest amount asset of
                       Inl err \<Rightarrow> Inl InvalidOperation
                     | Inr (sk, sg) \<Rightarrow> Inr (RelaySignature sk sg)))
            | _ \<Rightarrow> Inl InvalidRelayParameters)
       | _ \<Rightarrow> Inl InvalidNonce))"

definition signAuthEntry :: "signer_env \<Rightarrow> js \<Rightarrow> sign_error + signed" where
  "signAuthEntry e p =
     (case js_get p ''authEntry'' of
        JsStr xdr \<Rightarrow>
          if js_trim xdr = [] then Inl InvalidAuthEntry
          else if \<not> se_unlocked e then Inl WalletLocked
          else if passphrase_mismatch e p then Inl PassphraseMismatch
          else if \<not> se_authDecodes e (js_trim xdr) then Inl InvalidAuthEntry
          else (case getSigningKeypair e of
            Inl err \<Rightarrow> Inl err
          | Inr (_, sign) \<Rightarrow>
              if \<not> se_authAddress e (js_trim xdr) then Inl NotAddressCredentials
              else lift_sdk SignedAuthEntry (se_authorize e (js_trim xdr) (passphrase_field p) sign))
      | _ \<Rightarrow> Inl InvalidAuthEntry)"

end
