(* ===== verification/ApprovalQueue.thy ===== *)
theory ApprovalQueue
  imports DappApi
begin

text \<open>
  Requests that wait for the user: the queue of \<open>background/handlers/external/response-queue.ts\<close>,
  the handlers of \<open>external/handlers.ts\<close>, the approval windows (\<open>background/approval-window.ts\<close>)
  and the approval messages of the service worker. The state holds the queue, the registered
  callbacks, the entries of the session storage, the handler calls that have not answered yet and
  the signers that are running; an event is anything the event loop runs to completion: a request,
  the end of opening a window, a message from the approval screen, the end of a signer, a timer, a
  closed window. Losing all of it when the worker is suspended is outside the model.
\<close>

section \<open>State\<close>

datatype api_error =
    InvalidParams api_method | NotAllowed | NotSetUp | BadAuthEntry | PastExpiry
  | TimedOut | Expired | ApprovalNotFound | AuthEntryMissing | UserRejected | UserRejectedAuth
  | WindowClosedByUser | WindowFailure string | SignerFailed sign_error

datatype api_result =
    AccessGranted string string | Address string string | ConnectedIs bool
  | SmartAccount string string string | PublicKeyIs string | NetworkIs string string
  | SessionKey string number | SignResult signed

record approval =
  ap_origin :: string
  ap_method :: api_method
  ap_params :: js
  ap_timestamp :: time

datatype entry_status = SPending | SResolved signed | SRejected api_error | STimedOut

text \<open>A handler call is opening its window, or waits until its timer fires.\<close>

datatype call_phase = Opening | WaitingUntil time

record api_call =
  ca_method :: api_method
  ca_origin :: string
  ca_params :: js
  ca_phase :: call_phase

record bridge =
  br_allow :: allowlist
  br_network :: string
  br_contract :: "string option"
  br_pending :: "(string, approval) jsmap"
  br_callbacks :: "(string, time) jsmap"
  br_session :: "(string, entry_status) jsmap"
  br_calls :: "(string, api_call) jsmap"
  br_signing :: "(string \<times> bool \<times> approval) list"
  br_windows :: "(int, string) jsmap"
  br_replies :: "(string \<times> (api_error + api_result)) list"

definition new_bridge :: "allowlist \<Rightarrow> string \<Rightarrow> string option \<Rightarrow> bridge" where
  "new_bridge al network contract = \<lparr>br_allow = al, br_network = network, br_contract = contract,
     br_pending = [], br_callbacks = [], br_session = [], br_calls = [], br_signing = [],
     br_windows = [], br_replies = []\<rparr>"

definition DEFAULT_APPROVAL_TTL_MS :: time where
  "DEFAULT_APPROVAL_TTL_MS = 300000"

section \<open>The queue\<close>

definition answer_call :: "string \<Rightarrow> api_error + api_result \<Rightarrow> bridge \<Rightarrow> bridge" where
  "answer_call i r b = b\<lparr>br_replies := br_replies b @ [(i, r)]\<rparr>"

definition writeSessionEntry :: "string \<Rightarrow> entry_status \<Rightarrow> bridge \<Rightarrow> bridge" where
  "writeSessionEntry i s b = b\<lparr>br_session := map_set i s (br_session b)\<rparr>"

definition getSessionEntry :: "string \<Rightarrow> bridge \<Rightarrow> entry_status option" where
  "getSessionEntry i b = map_get (br_session b) i"

definition clearSessionEntry :: "string \<Rightarrow> bridge \<Rightarrow> bridge" where
  "clearSessionEntry i b = b\<lparr>br_session := map_delete i (br_session b)\<rparr>"

definition getApproval :: "string \<Rightarrow> bridge \<Rightarrow> approval option" where
  "getApproval i b = map_get (br_pending b) i"

definition removeApproval :: "string \<Rightarrow> bridge \<Rightarrow> bridge" where
  "removeApproval i b = b\<lparr>br_pending := map_delete i (br_pending b)\<rparr>"

definition getAllApprovals :: "bridge \<Rightarrow> approval list" where
  "getAllApprovals b = map_values (br_pending b)"

text \<open>
  The promise of a waiting call: settled once, by the callbacks or by its timer, the code after the
  \<open>await\<close> then runs. Only \<open>requestAccess\<close> does more than hand the value on.
\<close>

definition finish_call :: "time \<Rightarrow> string \<Rightarrow> api_call \<Rightarrow> api_error + signed \<Rightarrow> bridge \<Rightarrow> bridge" where
  "finish_call now i c outcome b = (case outcome of
       Inl e \<Rightarrow> answer_call i (Inl e) b
     | Inr s \<Rightarrow>
         if ca_method c \<in> {RequestAccess, Connect}
         then (case resolveWalletContext (ca_params c) of (network, account) \<Rightarrow>
                 answer_call i (Inr (AccessGranted account network))
                   (b\<lparr>br_allow := addToAllowlist now network account (ca_origin c) (br_allow b)\<rparr>))
         else answer_call i (Inr (SignResult s)) b)"

definition settle :: "time \<Rightarrow> string \<Rightarrow> api_error + signed \<Rightarrow> bridge \<Rightarrow> bridge" where
  "settle now i outcome b = (case map_get (br_calls b) i of
       None \<Rightarrow> b
     | Some c \<Rightarrow> (case ca_phase c of
         Opening \<Rightarrow> b
       | WaitingUntil d \<Rightarrow> finish_call now i c outcome (b\<lparr>br_calls := map_delete i (br_calls b)\<rparr>)))"

definition run_callback :: "time \<Rightarrow> string \<Rightarrow> api_error + signed \<Rightarrow> bridge \<Rightarrow> bridge" where
  "run_callback now i outcome b =
     (if map_has (br_callbacks b) i
      then (settle now i outcome b)\<lparr>br_callbacks := map_delete i (br_callbacks b)\<rparr> else b)"

definition resolveRequest :: "time \<Rightarrow> string \<Rightarrow> signed \<Rightarrow> bridge \<Rightarrow> bridge" where
  "resolveRequest now i s b =
     writeSessionEntry i (SResolved s) (removeApproval i (run_callback now i (Inr s) b))"

definition rejectRequest :: "time \<Rightarrow> string \<Rightarrow> api_error \<Rightarrow> bridge \<Rightarrow> bridge" where
  "rejectRequest now i e b =
     writeSessionEntry i (SRejected e) (removeApproval i (run_callback now i (Inl e) b))"

definition stale_ids :: "time \<Rightarrow> time \<Rightarrow> bridge \<Rightarrow> string list" where
  "stale_ids ttlMs now b = remdups
     (map fst (filter (\<lambda>(i, a). now - ap_timestamp a > ttlMs) (br_pending b))
      @ map fst (filter (\<lambda>(i, t). now - t > ttlMs) (br_callbacks b)))"

definition sweepStaleRequests :: "time \<Rightarrow> time \<Rightarrow> bridge \<Rightarrow> bridge" where
  "sweepStaleRequests ttlMs now b = fold (\<lambda>i. rejectRequest now i TimedOut) (stale_ids ttlMs now b) b"

definition enqueueApproval :: "time \<Rightarrow> string \<Rightarrow> string \<Rightarrow> api_method \<Rightarrow> js \<Rightarrow> bridge \<Rightarrow> bridge" where
  "enqueueApproval now i origin m params b =
     (let b' = sweepStaleRequests DEFAULT_APPROVAL_TTL_MS now b
      in writeSessionEntry i SPending
           (b'\<lparr>br_pending := map_set i \<lparr>ap_origin = origin, ap_method = m, ap_params = params,
                ap_timestamp = now\<rparr> (br_pending b')\<rparr>))"

definition registerResponseCallbacks :: "time \<Rightarrow> string \<Rightarrow> bridge \<Rightarrow> bridge" where
  "registerResponseCallbacks now i b =
     (let b' = sweepStaleRequests DEFAULT_APPROVAL_TTL_MS now b
      in b'\<lparr>br_callbacks := map_set i now (br_callbacks b')\<rparr>)"

section \<open>The handlers\<close>

text \<open>
  A request that needs the user: its approval is queued and its window is being opened. A second call
  under one identifier would replace the first; identifiers are fresh UUIDs.
\<close>

definition start_call :: "time \<Rightarrow> string \<Rightarrow> string \<Rightarrow> api_method \<Rightarrow> js \<Rightarrow> bridge \<Rightarrow> bridge" where
  "start_call now i origin m params b =
     (let b' = enqueueApproval now i origin m params b
      in b'\<lparr>br_calls := map_set i \<lparr>ca_method = m, ca_origin = origin, ca_params = params,
             ca_phase = Opening\<rparr> (br_calls b')\<rparr>)"

definition handleRequestAccess :: "time \<Rightarrow> string \<Rightarrow> string \<Rightarrow> js \<Rightarrow> bridge \<Rightarrow> bridge" where
  "handleRequestAccess now i origin params b =
     (case resolveWalletContext params of (network, account) \<Rightarrow>
        if isAllowed network account origin (br_allow b)
        then answer_call i (Inr (AccessGranted account network)) b
        else start_call now i origin RequestAccess params b)"

definition handleGetAddress :: "string \<Rightarrow> string \<Rightarrow> js \<Rightarrow> bridge \<Rightarrow> bridge" where
  "handleGetAddress i origin params b =
     (case resolveWalletContext params of (network, account) \<Rightarrow>
        answer_call i (if isAllowed network account origin (br_allow b) then Inr (Address account network)
                 else Inl NotAllowed) b)"

definition handleIsConnected :: "string \<Rightarrow> string \<Rightarrow> js \<Rightarrow> bridge \<Rightarrow> bridge" where
  "handleIsConnected i origin params b =
     (case resolveWalletContext params of (network, account) \<Rightarrow>
        answer_call i (Inr (ConnectedIs (isAllowed network account origin (br_allow b)))) b)"

text \<open>The on-chain probe is a parameter.\<close>

definition handleGetSmartAccount :: "(string \<Rightarrow> string \<Rightarrow> string) \<Rightarrow> string \<Rightarrow> string \<Rightarrow> js \<Rightarrow> bridge \<Rightarrow> bridge" where
  "handleGetSmartAccount probe i origin params b =
     (let network = field_or ''network'' params (if br_network b = [] then ''testnet'' else br_network b);
          account = field_or ''smartAccountId'' params (coalesce (br_contract b) [])
      in answer_call i (if account = [] then Inl NotSetUp
                  else if \<not> isAllowed network account origin (br_allow b) then Inl NotAllowed
                  else Inr (SmartAccount account (probe account network) network)) b)"

definition handleGetPublicKey :: "string \<Rightarrow> string \<Rightarrow> bridge \<Rightarrow> bridge" where
  "handleGetPublicKey i origin b =
     answer_call i (case coalesce (br_contract b) [] of
       [] \<Rightarrow> Inl NotSetUp
     | key \<Rightarrow> if isAllowed (br_network b) key origin (br_allow b) then Inr (PublicKeyIs key)
              else Inl NotAllowed) b"

definition handleGetNetwork :: "string \<Rightarrow> string \<Rightarrow> bridge \<Rightarrow> bridge" where
  "handleGetNetwork i origin b =
     answer_call i (if isAllowed (br_network b) (coalesce (br_contract b) DEFAULT_MOCK_SMART_ACCOUNT_ID) origin (br_allow b)
              then Inr (NetworkIs (br_network b) (coalesce (NETWORK_PASSPHRASES (br_network b)) testnet_passphrase))
              else Inl NotAllowed) b"

text \<open>
  The four sign handlers differ in what they check of the parameters. \<open>b64len\<close> is the length
  \<open>Buffer.from(s, 'base64')\<close> decodes to.
\<close>

definition sign_check :: "(string \<Rightarrow> nat) \<Rightarrow> api_method \<Rightarrow> js \<Rightarrow> api_error option" where
  "sign_check b64len m params = (case m of
       SignTransaction \<Rightarrow> if sign_schema ''xdr'' params then None else Some (InvalidParams m)
     | SignAuthEntry \<Rightarrow>
         if \<not> sign_schema ''authEntry'' params then Some (InvalidParams m)
         else if b64len (js_trim (coalesce (js_string (js_get params ''authEntry'')) [])) = 0 then Some BadAuthEntry
         else None
     | SignMessage \<Rightarrow> if sign_schema ''message'' params then None else Some (InvalidParams m)
     | _ \<Rightarrow> None)"

definition handleSign :: "(string \<Rightarrow> nat) \<Rightarrow> time \<Rightarrow> string \<Rightarrow> string \<Rightarrow> api_method \<Rightarrow> js \<Rightarrow> bridge \<Rightarrow> bridge" where
  "handleSign b64len now i origin m params b = (case sign_check b64len m params of
       Some e \<Rightarrow> answer_call i (Inl e) b
     | None \<Rightarrow> (case resolveWalletContext params of (network, account) \<Rightarrow>
         if \<not> isAllowed network account origin (br_allow b) then answer_call i (Inl NotAllowed) b
         else start_call now i origin m params b))"

text \<open>The public key is drawn at random and answered at once, the window is opened beside it.\<close>

definition handleRequestSessionKey :: "time \<Rightarrow> string \<Rightarrow> string \<Rightarrow> string \<Rightarrow> js \<Rightarrow> bridge \<Rightarrow> bridge" where
  "handleRequestSessionKey now publicKey i origin params b =
     (if \<not> session_key_schema params then answer_call i (Inl (InvalidParams RequestSessionKey)) b
      else case js_get params ''expiresAt'' of
        JsNum (Fin q) \<Rightarrow>
          if q \<le> of_int now then answer_call i (Inl PastExpiry) b
          else (case resolveWalletContext params of (network, account) \<Rightarrow>
            if \<not> isAllowed network account origin (br_allow b) then answer_call i (Inl NotAllowed) b
            else answer_call i (Inr (SessionKey publicKey (Fin q)))
                   (enqueueApproval now i origin RequestSessionKey params b))
      | _ \<Rightarrow> answer_call i (Inl (InvalidParams RequestSessionKey)) b)"

text \<open>What the host provides to the handlers.\<close>

record bridge_env =
  be_probe :: "string \<Rightarrow> string \<Rightarrow> string"
  be_b64len :: "string \<Rightarrow> nat"

definition dispatchExternalRequest ::
  "bridge_env \<Rightarrow> time \<Rightarrow> string \<Rightarrow> string \<Rightarrow> string \<Rightarrow> api_method \<Rightarrow> js \<Rightarrow> bridge \<Rightarrow> bridge" where
  "dispatchExternalRequest env now publicKey i origin m params b = (case m of
       RequestAccess \<Rightarrow> handleRequestAccess now i origin params b
     | Connect \<Rightarrow> handleRequestAccess now i origin params b
     | GetAddress \<Rightarrow> handleGetAddress i origin params b
     | GetNetwork \<Rightarrow> handleGetNetwork i origin b
     | IsConnected \<Rightarrow> handleIsConnected i origin params b
     | GetSmartAccount \<Rightarrow> handleGetSmartAccount (be_probe env) i origin params b
     | GetPublicKey \<Rightarrow> handleGetPublicKey i origin b
     | RequestSessionKey \<Rightarrow> handleRequestSessionKey now publicKey i origin params b
     | _ \<Rightarrow> handleSign (be_b64len env) now i origin m params b)"

section \<open>Events\<close>

text \<open>
  \<open>AccessMessage\<close> stands for the two messages of the grant-access screen; the listener of the
  service worker knows neither.
\<close>

datatype bridge_event =
    Request time string string string api_method js
  | WindowOpened time string "int option"
  | WindowFailed string string
  | ApproveSign time string
  | RejectSign time string
  | ApproveAuth time string
  | RejectAuth time string
  | AccessMessage bool string
  | SignerDone time string signer_env
  | TimerFires time string
  | WindowGone time int

text \<open>\<open>waitForApproval\<close>: the timer is armed, then the callbacks are registered.\<close>

definition wait_for_approval :: "time \<Rightarrow> string \<Rightarrow> api_call \<Rightarrow> bridge \<Rightarrow> bridge" where
  "wait_for_approval now i c b = registerResponseCallbacks now i
     (b\<lparr>br_calls := map_set i (c\<lparr>ca_phase := WaitingUntil (now + DEFAULT_APPROVAL_TTL_MS)\<rparr>) (br_calls b)\<rparr>)"

definition window_opened :: "time \<Rightarrow> string \<Rightarrow> int option \<Rightarrow> bridge \<Rightarrow> bridge" where
  "window_opened now i win b =
     (let b' = (case win of None \<Rightarrow> b
                | Some w \<Rightarrow> if w = 0 then b else b\<lparr>br_windows := map_set w i (br_windows b)\<rparr>)
      in case map_get (br_calls b') i of
        None \<Rightarrow> b'
      | Some c \<Rightarrow> if ca_phase c = Opening then wait_for_approval now i c b' else b')"

definition window_failed :: "string \<Rightarrow> string \<Rightarrow> bridge \<Rightarrow> bridge" where
  "window_failed i err b = (case map_get (br_calls b) i of
       None \<Rightarrow> b
     | Some c \<Rightarrow> if ca_phase c = Opening
                 then answer_call i (Inl (WindowFailure err)) (b\<lparr>br_calls := map_delete i (br_calls b)\<rparr>) else b)"

definition timer_fires :: "time \<Rightarrow> string \<Rightarrow> bridge \<Rightarrow> bridge" where
  "timer_fires now i b = (case map_get (br_calls b) i of
       None \<Rightarrow> b
     | Some c \<Rightarrow> (case ca_phase c of
         Opening \<Rightarrow> b
       | WaitingUntil d \<Rightarrow>
           if now < d then b
           else answer_call i (Inl Expired)
                  (writeSessionEntry i STimedOut (removeApproval i (b\<lparr>br_calls := map_delete i (br_calls b)\<rparr>)))))"

definition approve_sign :: "time \<Rightarrow> string \<Rightarrow> bridge \<Rightarrow> bridge" where
  "approve_sign now i b = (if i = [] then b else case getApproval i b of
       None \<Rightarrow> rejectRequest now i ApprovalNotFound b
     | Some p \<Rightarrow> b\<lparr>br_signing := br_signing b @ [(i, False, p)]\<rparr>)"

definition approve_auth :: "time \<Rightarrow> string \<Rightarrow> bridge \<Rightarrow> bridge" where
  "approve_auth now i b = (if i = [] then b else case getApproval i b of
       None \<Rightarrow> rejectRequest now i ApprovalNotFound b
     | Some p \<Rightarrow>
         if \<not> js_truthy (js_get (ap_params p) ''authEntry'') then rejectRequest now i AuthEntryMissing b
         else b\<lparr>br_signing := br_signing b @ [(i, True, p)]\<rparr>)"

text \<open>The signer an approval runs: chosen by the message and by the method of the queued request.\<close>

definition run_signer :: "signer_env \<Rightarrow> bool \<Rightarrow> api_method \<Rightarrow> js \<Rightarrow> sign_error + signed" where
  "run_signer e viaAuth m params =
     (if viaAuth then signAuthEntry e params
      else if m = SignMessage then signMessage e params
      else if m = SignRelayPayload then signRelayEnvelope e params
      else signTransaction e params)"

definition signer_done :: "time \<Rightarrow> string \<Rightarrow> signer_env \<Rightarrow> bridge \<Rightarrow> bridge" where
  "signer_done now i e b = (case find (\<lambda>(j, _). j = i) (br_signing b) of
       None \<Rightarrow> b
     | Some (_, viaAuth, p) \<Rightarrow>
         let b' = b\<lparr>br_signing := remove1 (i, viaAuth, p) (br_signing b)\<rparr>
         in case run_signer e viaAuth (ap_method p) (ap_params p) of
              Inr s \<Rightarrow> removeApproval i (resolveRequest now i s b')
            | Inl err \<Rightarrow> removeApproval i (rejectRequest now i (SignerFailed err) b'))"

definition window_gone :: "time \<Rightarrow> int \<Rightarrow> bridge \<Rightarrow> bridge" where
  "window_gone now w b = (case map_get (br_windows b) w of
       None \<Rightarrow> b
     | Some i \<Rightarrow>
         if i = [] then b
         else let b' = b\<lparr>br_windows := map_delete w (br_windows b)\<rparr>
              in if getApproval i b' \<noteq> None then rejectRequest now i WindowClosedByUser b' else b')"

fun bridge_step :: "bridge_env \<Rightarrow> bridge_event \<Rightarrow> bridge \<Rightarrow> bridge" where
  "bridge_step env (Request now publicKey i origin m params) b =
     dispatchExternalRequest env now publicKey i origin m params b"
| "bridge_step env (WindowOpened now i win) b = window_opened now i win b"
| "bridge_step env (WindowFailed i err) b = window_failed i err b"
| "bridge_step env (ApproveSign now i) b = approve_sign now i b"
| "bridge_step env (RejectSign now i) b = (if i = [] then b else rejectRequest now i UserRejected b)"
| "bridge_step env (ApproveAuth now i) b = approve_auth now i b"
| "bridge_step env (RejectAuth now i) b = (if i = [] then b else rejectRequest now i UserRejectedAuth b)"
| "bridge_step env (AccessMessage grant i) b = b"
| "bridge_step env (SignerDone now i e) b = signer_done now i e b"
| "bridge_step env (TimerFires now i) b = timer_fires now i b"
| "bridge_step env (WindowGone now w) b = window_gone now w b"

definition bridge_run :: "bridge_env \<Rightarrow> bridge_event list \<Rightarrow> bridge \<Rightarrow> bridge" where
  "bridge_run env es b = fold (bridge_step env) es b"

section \<open>What the queue operations leave alone\<close>

text \<open>
  \<open>recedes b b'\<close>: from \<open>b\<close> to \<open>b'\<close> requests were only dropped or refused; permissions, running
  signers and successful answers are as before.
\<close>

definition recedes :: "bridge \<Rightarrow> bridge \<Rightarrow> bool" where
  "recedes b b' = (br_allow b' = br_allow b \<and> br_signing b' = br_signing b
     \<and> map_get (br_pending b') \<subseteq>\<^sub>m map_get (br_pending b)
     \<and> map_get (br_calls b') \<subseteq>\<^sub>m map_get (br_calls b)
     \<and> (\<forall>i r. (i, Inr r) \<in> set (br_replies b') \<longrightarrow> (i, Inr r) \<in> set (br_replies b)))"

lemma recedes_refl [simp]: "recedes b b"
  by (simp add: recedes_def map_le_def)

lemma recedes_trans: "recedes a b \<Longrightarrow> recedes b c \<Longrightarrow> recedes a c"
  unfolding recedes_def by (auto intro: map_le_trans)

lemma map_le_delete [intro!]: "map_get (map_delete k m) \<subseteq>\<^sub>m map_get m"
  by (auto simp: map_le_def dom_def jsmap_simps split: if_splits)

lemma recedes_fold: "(\<And>x s. recedes s (f x s)) \<Longrightarrow> recedes s (fold f xs s)"
  by (induction xs arbitrary: s) (auto intro: recedes_trans)

text \<open>The number of answers to a request and of its calls that are still open.\<close>

definition accounted :: "string \<Rightarrow> bridge \<Rightarrow> nat" where
  "accounted i b = length (filter (\<lambda>r. fst r = i) (br_replies b)) + (if map_has (br_calls b) i then 1 else 0)"

lemmas queue_defs = answer_call_def writeSessionEntry_def removeApproval_def

lemma settle_refusal: "recedes b (settle now i (Inl e) b)"
  by (auto simp: settle_def finish_call_def recedes_def queue_defs split: option.splits call_phase.splits)

lemma settle_accounted: "accounted j (settle now i r b) = accounted j b"
  by (auto simp: settle_def finish_call_def accounted_def queue_defs map_has_get jsmap_simps
        split: option.splits call_phase.splits sum.splits prod.splits)

lemma recedes_callbacks [simp]: "recedes b (b'\<lparr>br_callbacks := m\<rparr>) = recedes b b'"
  by (simp add: recedes_def)

lemma run_callback_refusal: "recedes b (run_callback now i (Inl e) b)"
  by (simp add: run_callback_def settle_refusal)

lemma reject_recedes: "recedes b (rejectRequest now i e b)"
proof -
  have "recedes (run_callback now i (Inl e) b) (rejectRequest now i e b)"
    by (auto simp: rejectRequest_def recedes_def queue_defs)
  then show ?thesis by (rule recedes_trans [OF run_callback_refusal])
qed

lemma sweep_recedes: "recedes b (sweepStaleRequests ttlMs now b)"
  by (simp add: sweepStaleRequests_def recedes_fold reject_recedes)

lemma accounted_upd [simp]:
  "accounted j (b\<lparr>br_callbacks := cb\<rparr>) = accounted j b"
  "accounted j (b\<lparr>br_pending := pe\<rparr>) = accounted j b"
  "accounted j (b\<lparr>br_session := se\<rparr>) = accounted j b"
  "accounted j (b\<lparr>br_signing := sg\<rparr>) = accounted j b"
  "accounted j (b\<lparr>br_windows := wi\<rparr>) = accounted j b"
  by (simp_all add: accounted_def)

lemma run_callback_accounted [simp]: "accounted j (run_callback now i r b) = accounted j b"
  by (simp add: run_callback_def settle_accounted)

lemma reject_accounted [simp]: "accounted j (rejectRequest now i e b) = accounted j b"
  by (simp add: rejectRequest_def queue_defs)

lemma resolve_accounted [simp]: "accounted j (resolveRequest now i s b) = accounted j b"
  by (simp add: resolveRequest_def queue_defs)

lemma sweep_accounted [simp]: "accounted j (sweepStaleRequests ttlMs now b) = accounted j b"
proof -
  have "accounted j (fold (\<lambda>i. rejectRequest now i TimedOut) xs b) = accounted j b" for xs
    by (induction xs arbitrary: b) simp_all
  then show ?thesis by (simp add: sweepStaleRequests_def)
qed

lemma reply_accounted: "accounted j (answer_call i r b) = accounted j b + (if j = i then 1 else 0)"
  by (simp add: accounted_def answer_call_def)

lemma enqueue_accounted [simp]: "accounted j (enqueueApproval now i q m p b) = accounted j b"
  by (simp add: enqueueApproval_def Let_def queue_defs)

lemma calls_accounted:
  "map_has (br_calls b) i \<Longrightarrow> accounted j (b\<lparr>br_calls := map_set i c (br_calls b)\<rparr>) = accounted j b"
  by (auto simp: accounted_def map_has_get jsmap_simps)

lemma start_accounted:
  "accounted i b = 0 \<Longrightarrow> accounted j (start_call now i q m p b) = accounted j b + (if j = i then 1 else 0)"
proof -
  let ?b = "enqueueApproval now i q m p b"
  assume "accounted i b = 0"
  then have "accounted i ?b = 0" by simp
  then have "\<not> map_has (br_calls ?b) i" by (simp add: accounted_def split: if_splits)
  then have "accounted j (?b\<lparr>br_calls := map_set i c (br_calls ?b)\<rparr>) = accounted j ?b + (if j = i then 1 else 0)" for c
    by (auto simp: accounted_def map_has_get jsmap_simps)
  then show ?thesis by (simp add: start_call_def Let_def)
qed

section \<open>Accounting over a history\<close>

fun requested_id :: "bridge_event \<Rightarrow> string option" where
  "requested_id (Request now pk i origin m params) = Some i"
| "requested_id _ = None"

definition request_ids :: "bridge_event list \<Rightarrow> string list" where
  "request_ids es = List.map_filter requested_id es"

lemma request_ids_simps [simp]:
  "request_ids [] = []"
  "request_ids (es @ es') = request_ids es @ request_ids es'"
  "request_ids (e # es) = (case requested_id e of None \<Rightarrow> request_ids es | Some i \<Rightarrow> i # request_ids es)"
  by (simp_all add: request_ids_def List.map_filter_def split: option.splits)

lemma dispatch_accounted:
  assumes "accounted i b = 0"
  shows "accounted j (dispatchExternalRequest env now pk i origin m params b) = accounted j b + (if j = i then 1 else 0)"
  by (auto simp: dispatchExternalRequest_def handleRequestAccess_def handleGetAddress_def handleIsConnected_def
        handleGetSmartAccount_def handleGetPublicKey_def handleGetNetwork_def handleSign_def
        handleRequestSessionKey_def Let_def reply_accounted start_accounted [OF assms]
        split: api_method.splits prod.splits option.splits js.splits number.splits)

lemma wait_accounted:
  "map_has (br_calls b) i \<Longrightarrow> accounted j (wait_for_approval now i c b) = accounted j b"
  by (simp add: wait_for_approval_def registerResponseCallbacks_def Let_def calls_accounted)

lemma delete_call_accounted:
  "map_has (br_calls b) i \<Longrightarrow>
   accounted j (b\<lparr>br_calls := map_delete i (br_calls b)\<rparr>) + (if j = i then 1 else 0) = accounted j b"
  by (auto simp: accounted_def map_has_get jsmap_simps)

lemma step_accounted:
  assumes "\<forall>i. requested_id e = Some i \<longrightarrow> accounted i b = 0"
  shows "accounted j (bridge_step env e b) = accounted j b + (if requested_id e = Some j then 1 else 0)"
proof (cases e)
  case (Request now pk i origin m params)
  with assms dispatch_accounted show ?thesis by auto
next
  case (WindowOpened now i win)
  then show ?thesis
    by (auto simp: window_opened_def Let_def map_has_get wait_accounted split: option.splits)
next
  case (WindowFailed i err)
  then show ?thesis using delete_call_accounted [of b i j]
    by (auto simp: window_failed_def reply_accounted map_has_get split: option.splits)
next
  case (TimerFires now i)
  then show ?thesis using delete_call_accounted [of b i j]
    by (auto simp: timer_fires_def reply_accounted map_has_get queue_defs(2,3) split: option.splits call_phase.splits)
next
  case (SignerDone now i env)
  then show ?thesis
    by (auto simp: signer_done_def Let_def removeApproval_def split: option.splits sum.splits)
qed (auto simp: approve_sign_def approve_auth_def window_gone_def Let_def split: option.splits)

lemma run_snoc: "bridge_run env (es @ [e]) b = bridge_step env e (bridge_run env es b)"
  by (simp add: bridge_run_def)

lemma run_accounted:
  assumes "distinct (request_ids es)"
  shows "accounted j (bridge_run env es (new_bridge al n ct)) = (if j \<in> set (request_ids es) then 1 else 0)"
  using assms
proof (induction es arbitrary: j rule: rev_induct)
  case Nil
  show ?case by (simp add: bridge_run_def accounted_def new_bridge_def map_has_get)
next
  case (snoc e es)
  then have IH: "accounted j (bridge_run env es (new_bridge al n ct)) = (if j \<in> set (request_ids es) then 1 else 0)" for j
    by simp
  from snoc.prems have "\<forall>i. requested_id e = Some i \<longrightarrow> i \<notin> set (request_ids es)" by auto
  then have "\<forall>i. requested_id e = Some i \<longrightarrow> accounted i (bridge_run env es (new_bridge al n ct)) = 0"
    by (simp add: IH)
  from step_accounted [OF this, of j env] snoc.prems show ?case
    by (auto simp: run_snoc IH split: option.splits)
qed

section \<open>Where a signature comes from\<close>

definition sign_methods :: "api_method set" where
  "sign_methods = {SignTransaction, SignAuthEntry, SignMessage, SignRelayPayload}"

text \<open>
  The request under an identifier, what followed it, and, for the sign methods, the permission its
  origin held at that point for the pair the request names.
\<close>

definition asked ::
  "bridge_env \<Rightarrow> bridge \<Rightarrow> bridge_event list \<Rightarrow> string \<Rightarrow> string \<Rightarrow> api_method \<Rightarrow> js \<Rightarrow> bridge_event list \<Rightarrow> bool" where
  "asked env b0 es i origin m params after =
     (\<exists>es1 now pk. es = es1 @ Request now pk i origin m params # after
        \<and> (m \<in> sign_methods \<longrightarrow> isAllowed (fst (resolveWalletContext params)) (snd (resolveWalletContext params))
              origin (br_allow (bridge_run env es1 b0))))"

definition approval_event :: "bool \<Rightarrow> time \<Rightarrow> string \<Rightarrow> bridge_event" where
  "approval_event viaAuth now i = (if viaAuth then ApproveAuth now i else ApproveSign now i)"

definition stored_as :: "api_method \<Rightarrow> api_method" where
  "stored_as m = (if m = Connect then RequestAccess else m)"

definition queued ::
  "bridge_env \<Rightarrow> bridge \<Rightarrow> bridge_event list \<Rightarrow> string \<Rightarrow> string \<Rightarrow> api_method \<Rightarrow> js \<Rightarrow> bool" where
  "queued env b0 es i origin m' params = (\<exists>m after. asked env b0 es i origin m params after \<and> m' = stored_as m)"

definition approved_for ::
  "bridge_env \<Rightarrow> bridge \<Rightarrow> bridge_event list \<Rightarrow> string \<Rightarrow> bool \<Rightarrow> api_method \<Rightarrow> js \<Rightarrow> bool" where
  "approved_for env b0 es i viaAuth m' params =
     (\<exists>origin m after t. asked env b0 es i origin m params after \<and> m' = stored_as m
        \<and> approval_event viaAuth t i \<in> set after)"

definition signed_properly :: "bridge_env \<Rightarrow> bridge \<Rightarrow> bridge_event list \<Rightarrow> string \<Rightarrow> signed \<Rightarrow> bool" where
  "signed_properly env b0 es i s =
     (\<exists>origin m params u viaAuth t w t' e. asked env b0 es i origin m params (u @ approval_event viaAuth t i # w)
        \<and> m \<in> sign_methods \<and> SignerDone t' i e \<in> set w \<and> run_signer e viaAuth m params = Inr s)"

text \<open>The request, its approval and the signer that ran for it, with the wallet as it was for that signer.\<close>

definition signed_by ::
  "bridge_env \<Rightarrow> bridge \<Rightarrow> bridge_event list \<Rightarrow> string \<Rightarrow> bool \<Rightarrow> api_method \<Rightarrow> js \<Rightarrow> signer_env \<Rightarrow> bool" where
  "signed_by env b0 es i viaAuth m' params e =
     (\<exists>origin m u t w t'. asked env b0 es i origin m params (u @ approval_event viaAuth t i # w) \<and> m' = stored_as m
        \<and> SignerDone t' i e \<in> set w)"

definition trace_inv :: "bridge_env \<Rightarrow> bridge \<Rightarrow> bridge_event list \<Rightarrow> bridge \<Rightarrow> bool" where
  "trace_inv env b0 es b =
     ((\<forall>i p. map_get (br_pending b) i = Some p \<longrightarrow> queued env b0 es i (ap_origin p) (ap_method p) (ap_params p))
      \<and> (\<forall>i c. map_get (br_calls b) i = Some c \<longrightarrow> queued env b0 es i (ca_origin c) (ca_method c) (ca_params c)
           \<and> ca_method c \<in> insert RequestAccess sign_methods)
      \<and> (\<forall>(i, viaAuth, p) \<in> set (br_signing b). approved_for env b0 es i viaAuth (ap_method p) (ap_params p))
      \<and> (\<forall>i s. (i, Inr (SignResult s)) \<in> set (br_replies b) \<longrightarrow> signed_properly env b0 es i s))"

lemma asked_snoc: "asked env b0 es i origin m params after \<Longrightarrow> asked env b0 (es @ [e]) i origin m params (after @ [e])"
  by (fastforce simp: asked_def)

lemma queued_snoc: "queued env b0 es i origin m params \<Longrightarrow> queued env b0 (es @ [e]) i origin m params"
  unfolding queued_def using asked_snoc by fast

lemma approved_snoc: "approved_for env b0 es i v m params \<Longrightarrow> approved_for env b0 (es @ [e]) i v m params"
  unfolding approved_for_def by (metis asked_snoc in_set_butlast_appendI butlast_snoc)

lemma signed_snoc: "signed_properly env b0 es i s \<Longrightarrow> signed_properly env b0 (es @ [e]) i s"
  unfolding signed_properly_def using asked_snoc [where env = env and es = es and e = e] by (fastforce simp: append_assoc)

lemma approved_signer:
  assumes "approved_for env b0 es i viaAuth m params"
  shows "signed_by env b0 (es @ [SignerDone t' i e]) i viaAuth m params e"
proof -
  obtain origin mq v t where a: "asked env b0 es i origin mq params v" "m = stored_as mq" "approval_event viaAuth t i \<in> set v"
    using assms by (auto simp: approved_for_def)
  then obtain u w where "v = u @ approval_event viaAuth t i # w" by (meson split_list)
  with asked_snoc [OF a(1), of "SignerDone t' i e"]
  have "asked env b0 (es @ [SignerDone t' i e]) i origin mq params (u @ approval_event viaAuth t i # w @ [SignerDone t' i e])" by simp
  with a(2) show ?thesis unfolding signed_by_def by fastforce
qed

lemma trace_inv_snoc: "trace_inv env b0 es b \<Longrightarrow> trace_inv env b0 (es @ [e]) b"
  unfolding trace_inv_def by (auto intro: queued_snoc approved_snoc signed_snoc)

lemma trace_inv_recedes: "recedes b b' \<Longrightarrow> trace_inv env b0 es b \<Longrightarrow> trace_inv env b0 es b'"
  unfolding trace_inv_def recedes_def map_le_def by (simp add: dom_def) (metis (mono_tags, lifting))

text \<open>With fresh identifiers the request under an identifier is unique.\<close>

lemma split_unique:
  assumes "distinct (request_ids (u @ x # v))" "u @ x # v = u' @ y # v'"
    and "requested_id x = Some i" "requested_id y = Some i"
  shows "u = u' \<and> x = y \<and> v = v'"
proof -
  obtain w where "u = u' @ w \<and> w @ x # v = y # v' \<or> u @ w = u' \<and> x # v = w @ y # v'"
    using assms(2) by (auto simp: append_eq_append_conv2)
  then show ?thesis
  proof (elim disjE conjE)
    assume "u = u' @ w" "w @ x # v = y # v'"
    with assms(1,3,4) show ?thesis by (cases w) auto
  next
    assume "u @ w = u'" "x # v = w @ y # v'"
    with assms(1,3,4) show ?thesis by (cases w) auto
  qed
qed

lemma request_unique:
  assumes "distinct (request_ids es)" "es = u @ Request t k i q m p # v" "es = u' @ Request t' k' i q' m' p' # v'"
  shows "u = u' \<and> q = q' \<and> m = m' \<and> p = p' \<and> v = v'"
  using split_unique [OF assms(1) [unfolded assms(2)] trans [OF assms(2) [symmetric] assms(3)], of i] by simp

lemma asked_unique:
  assumes "distinct (request_ids es)" "asked env b0 es i q m p v" "asked env b0 es i q' m' p' v'"
  shows "q = q' \<and> m = m' \<and> p = p' \<and> v = v'"
  using assms request_unique [OF assms(1)] unfolding asked_def by metis

section \<open>The invariant holds in every history\<close>

lemma trace_upd [simp]:
  "trace_inv env b0 es (b\<lparr>br_callbacks := cb\<rparr>) = trace_inv env b0 es b"
  "trace_inv env b0 es (b\<lparr>br_session := se\<rparr>) = trace_inv env b0 es b"
  "trace_inv env b0 es (b\<lparr>br_windows := wi\<rparr>) = trace_inv env b0 es b"
  "trace_inv env b0 es (b\<lparr>br_allow := al\<rparr>) = trace_inv env b0 es b"
  by (simp_all add: trace_inv_def)

lemma trace_reply:
  "trace_inv env b0 es b \<Longrightarrow> (\<And>s. r = Inr (SignResult s) \<Longrightarrow> signed_properly env b0 es i s)
     \<Longrightarrow> trace_inv env b0 es (answer_call i r b)"
  by (auto simp: trace_inv_def answer_call_def)

lemma asked_now:
  assumes "m \<in> sign_methods \<longrightarrow> isAllowed (fst (resolveWalletContext params)) (snd (resolveWalletContext params))
              origin (br_allow (bridge_run env es b0))"
  shows "asked env b0 (es @ [Request now pk i origin m params]) i origin m params []"
  using assms by (auto simp: asked_def)

lemma trace_enqueue:
  assumes "trace_inv env b0 es b" "queued env b0 es i origin m params"
  shows "trace_inv env b0 es (enqueueApproval now i origin m params b)"
proof -
  have "trace_inv env b0 es (sweepStaleRequests DEFAULT_APPROVAL_TTL_MS now b)"
    by (rule trace_inv_recedes [OF sweep_recedes assms(1)])
  then show ?thesis using assms(2)
    by (auto simp: enqueueApproval_def Let_def writeSessionEntry_def)
       (auto simp: trace_inv_def jsmap_simps)
qed

lemma trace_start:
  assumes "trace_inv env b0 es b" "queued env b0 es i origin m params" "m \<in> insert RequestAccess sign_methods"
  shows "trace_inv env b0 es (start_call now i origin m params b)"
  using trace_enqueue [OF assms(1,2), of now] assms(2,3)
  by (auto simp: start_call_def Let_def) (auto simp: trace_inv_def jsmap_simps)

lemma trace_wait:
  assumes "trace_inv env b0 es b" "map_get (br_calls b) i = Some c"
  shows "trace_inv env b0 es (wait_for_approval now i c b)"
proof -
  let ?b = "b\<lparr>br_calls := map_set i (c\<lparr>ca_phase := WaitingUntil (now + DEFAULT_APPROVAL_TTL_MS)\<rparr>) (br_calls b)\<rparr>"
  have "trace_inv env b0 es ?b" using assms by (auto simp: trace_inv_def jsmap_simps)
  then show ?thesis
    by (simp add: wait_for_approval_def registerResponseCallbacks_def Let_def trace_inv_recedes [OF sweep_recedes])
qed

lemma trace_pending_smaller:
  "trace_inv env b0 es b \<Longrightarrow> trace_inv env b0 es (b\<lparr>br_pending := map_delete i (br_pending b)\<rparr>)"
  by (auto simp: trace_inv_def jsmap_simps split: if_splits)

lemma trace_resolve:
  assumes inv: "trace_inv env b0 es b" and fresh: "distinct (request_ids es)"
    and ap: "signed_by env b0 es i viaAuth m params e" and run: "run_signer e viaAuth m params = Inr s"
  shows "trace_inv env b0 es (resolveRequest now i s b)"
proof -
  have sg: "signed_properly env b0 es i s"
    if "map_get (br_calls b) i = Some c" "ca_method c \<notin> {RequestAccess, Connect}" for c
  proof -
    from inv that have "queued env b0 es i (ca_origin c) (ca_method c) (ca_params c)"
      and sm: "ca_method c \<in> sign_methods" by (auto simp: trace_inv_def)
    then obtain mc v where c: "asked env b0 es i (ca_origin c) mc (ca_params c) v" "ca_method c = stored_as mc"
      by (auto simp: queued_def)
    from ap obtain q mq u t w t' where a: "asked env b0 es i q mq params (u @ approval_event viaAuth t i # w)" "m = stored_as mq"
        "SignerDone t' i e \<in> set w"
      by (auto simp: signed_by_def)
    have "mq = mc" using asked_unique [OF fresh a(1) c(1)] by simp
    with c(2) that(2) have "mq = ca_method c" by (auto simp: stored_as_def split: if_splits)
    with a sm run show ?thesis
      unfolding signed_properly_def by (metis c(2) \<open>mq = mc\<close>)
  qed
  have del: "trace_inv env b0 es (b\<lparr>br_calls := map_delete i (br_calls b)\<rparr>)"
    using inv by (auto simp: trace_inv_def jsmap_simps split: if_splits)
  have "trace_inv env b0 es (settle now i (Inr s) b)"
    using inv del sg by (auto simp: settle_def finish_call_def intro!: trace_reply split: option.splits call_phase.splits prod.splits)
  then have "trace_inv env b0 es (run_callback now i (Inr s) b)"
    using inv by (simp add: run_callback_def)
  then show ?thesis
    by (simp add: resolveRequest_def writeSessionEntry_def removeApproval_def trace_pending_smaller)
qed

lemma trace_request:
  assumes inv: "trace_inv env b0 es b" and b: "b = bridge_run env es b0"
  shows "trace_inv env b0 (es @ [Request now pk i origin m params])
     (dispatchExternalRequest env now pk i origin m params b)"
proof -
  let ?es = "es @ [Request now pk i origin m params]"
  have inv': "trace_inv env b0 ?es b" by (rule trace_inv_snoc [OF inv])
  have q: "queued env b0 ?es i origin (stored_as m) params"
    if "m \<in> sign_methods \<longrightarrow> isAllowed (fst (resolveWalletContext params)) (snd (resolveWalletContext params)) origin (br_allow b)"
    unfolding queued_def using asked_now [of m params origin env es b0 now pk i] that b by blast
  show ?thesis
  proof (cases "m \<in> sign_methods")
    case True
    then have "dispatchExternalRequest env now pk i origin m params b = handleSign (be_b64len env) now i origin m params b"
      and "stored_as m = m" by (auto simp: sign_methods_def dispatchExternalRequest_def stored_as_def)
    with True inv' q show ?thesis
      by (auto simp: handleSign_def intro!: trace_reply trace_start split: option.splits prod.splits)
  next
    case False
    then have q': "queued env b0 ?es i origin (stored_as m) params" using q by simp
    with False inv' show ?thesis
      by (cases m) (auto simp: sign_methods_def dispatchExternalRequest_def handleRequestAccess_def handleGetAddress_def
            handleIsConnected_def handleGetSmartAccount_def handleGetPublicKey_def handleGetNetwork_def
            handleRequestSessionKey_def Let_def stored_as_def
            intro!: trace_reply trace_start trace_enqueue split: option.splits prod.splits js.splits number.splits list.splits)
  qed
qed

lemma trace_step:
  assumes inv: "trace_inv env b0 es b" and b: "b = bridge_run env es b0" and fresh: "distinct (request_ids (es @ [e]))"
  shows "trace_inv env b0 (es @ [e]) (bridge_step env e b)"
proof -
  have inv': "trace_inv env b0 (es @ [e]) b" by (rule trace_inv_snoc [OF inv])
  have rej: "trace_inv env b0 (es @ [e]) (rejectRequest now i err c)" if "trace_inv env b0 (es @ [e]) c" for now i err c
    using reject_recedes that by (rule trace_inv_recedes)
  have queue: "trace_inv env b0 (es @ [e]) (b\<lparr>br_signing := br_signing b @ [(i, via, p)]\<rparr>)"
    if "getApproval i b = Some p" "e = approval_event via t i" for i via p t
  proof -
    have "queued env b0 es i (ap_origin p) (ap_method p) (ap_params p)"
      using inv that(1) by (simp add: trace_inv_def getApproval_def)
    then obtain m v where a: "asked env b0 es i (ap_origin p) m (ap_params p) v" "ap_method p = stored_as m"
      unfolding queued_def by blast
    have "asked env b0 (es @ [e]) i (ap_origin p) m (ap_params p) (v @ [e])" by (rule asked_snoc [OF a(1)])
    with a(2) that(2) have "approved_for env b0 (es @ [e]) i via (ap_method p) (ap_params p)"
      unfolding approved_for_def by (metis in_set_conv_decomp)
    with inv' show ?thesis by (auto simp: trace_inv_def)
  qed
  show ?thesis
  proof (cases e)
    case (Request now pk i origin m params)
    with trace_request [OF inv b] show ?thesis by simp
  next
    case (WindowOpened now i win)
    with inv' show ?thesis
      by (auto simp: window_opened_def Let_def trace_wait split: option.splits)
  next
    case (WindowFailed i err)
    with inv' show ?thesis
      by (auto simp: window_failed_def intro!: trace_reply split: option.splits)
         (auto simp: trace_inv_def jsmap_simps split: if_splits)
  next
    case (ApproveSign now i)
    with inv' rej queue [of i _ False now] show ?thesis
      by (auto simp: approve_sign_def approval_event_def split: option.splits)
  next
    case (ApproveAuth now i)
    with inv' rej queue [of i _ True now] show ?thesis
      by (auto simp: approve_auth_def approval_event_def split: option.splits)
  next
    case (SignerDone now i se)
    show ?thesis
    proof (cases "find (\<lambda>(j, _). j = i) (br_signing b)")
      case None
      with SignerDone inv' show ?thesis by (simp add: signer_done_def)
    next
      case (Some x)
      then obtain via p where x: "x = (i, via, p)" "(i, via, p) \<in> set (br_signing b)"
        by (cases x) (auto simp: find_Some_iff, metis nth_mem)
      let ?b = "b\<lparr>br_signing := remove1 (i, via, p) (br_signing b)\<rparr>"
      have small: "trace_inv env b0 (es @ [e]) ?b"
        using inv' by (auto simp: trace_inv_def dest: notin_set_remove1 set_mp [OF set_remove1_subset])
      have "approved_for env b0 es i via (ap_method p) (ap_params p)" using inv x(2) by (auto simp: trace_inv_def)
      from approved_signer [OF this, of now se] have ap: "signed_by env b0 (es @ [e]) i via (ap_method p) (ap_params p) se"
        unfolding SignerDone .
      show ?thesis
        using Some x SignerDone small trace_resolve [OF small fresh ap] rej [OF small]
        by (auto simp: signer_done_def Let_def removeApproval_def trace_pending_smaller split: sum.splits)
    qed
  next
    case (TimerFires now i)
    with inv' show ?thesis
      by (auto simp: timer_fires_def removeApproval_def writeSessionEntry_def intro!: trace_reply
            split: option.splits call_phase.splits)
         (auto simp: trace_inv_def jsmap_simps split: if_splits)
  next
    case (WindowGone now w)
    with inv' rej show ?thesis by (auto simp: window_gone_def Let_def split: option.splits)
  qed (use inv' rej in auto)
qed

lemma trace_run:
  assumes "distinct (request_ids es)"
  shows "trace_inv env (new_bridge al n ct) es (bridge_run env es (new_bridge al n ct))"
  using assms
proof (induction es rule: rev_induct)
  case Nil
  show ?case by (simp add: bridge_run_def trace_inv_def new_bridge_def)
next
  case (snoc e es)
  then have "trace_inv env (new_bridge al n ct) es (bridge_run env es (new_bridge al n ct))" by simp
  from trace_step [OF this refl snoc.prems] show ?case by (simp add: run_snoc)
qed

section \<open>The permissions of the wallet\<close>

definition access_ids :: "bridge_event list \<Rightarrow> string set" where
  "access_ids es = {i. \<exists>now pk origin m params. Request now pk i origin m params \<in> set es \<and> m \<in> {RequestAccess, Connect}}"

text \<open>
  The approval screen of an access request sends \<open>AccessMessage\<close>; a sign approval goes to the
  identifier of a sign request.
\<close>

definition screens_behave :: "bridge_event list \<Rightarrow> bool" where
  "screens_behave es = (\<forall>t i. ApproveSign t i \<in> set es \<or> ApproveAuth t i \<in> set es \<longrightarrow> i \<notin> access_ids es)"

lemma reject_allow: "br_allow (rejectRequest now i e b) = br_allow b"
  using reject_recedes by (simp add: recedes_def)

lemma sweep_allow: "br_allow (sweepStaleRequests ttlMs now b) = br_allow b"
  using sweep_recedes by (simp add: recedes_def)

lemma enqueue_allow: "br_allow (enqueueApproval now i q m p b) = br_allow b"
  by (simp add: enqueueApproval_def Let_def queue_defs sweep_allow)

lemma dispatch_allow: "br_allow (dispatchExternalRequest env now pk i origin m params b) = br_allow b"
  by (auto simp: dispatchExternalRequest_def handleRequestAccess_def handleGetAddress_def handleIsConnected_def
        handleGetSmartAccount_def handleGetPublicKey_def handleGetNetwork_def handleSign_def answer_call_def
        handleRequestSessionKey_def Let_def start_call_def enqueue_allow
        split: api_method.splits prod.splits option.splits js.splits number.splits)

lemma resolve_allow:
  assumes "\<And>c. map_get (br_calls b) i = Some c \<Longrightarrow> ca_method c \<notin> {RequestAccess, Connect}"
  shows "br_allow (resolveRequest now i s b) = br_allow b"
  using assms by (auto simp: resolveRequest_def queue_defs run_callback_def settle_def finish_call_def
      split: option.splits call_phase.splits)

lemma asked_access:
  "asked env b0 es i q m params v \<Longrightarrow> m \<in> {RequestAccess, Connect} \<Longrightarrow> i \<in> access_ids (es @ es')"
proof -
  assume "asked env b0 es i q m params v" and m: "m \<in> {RequestAccess, Connect}"
  then obtain es1 now pk where "es = es1 @ Request now pk i q m params # v" unfolding asked_def by blast
  then have "Request now pk i q m params \<in> set (es @ es')" by simp
  with m show ?thesis unfolding access_ids_def by blast
qed

lemma allow_step:
  assumes inv: "trace_inv env b0 es b" and ok: "screens_behave (es @ [e])"
  shows "br_allow (bridge_step env e b) = br_allow b"
proof (cases e)
  case (SignerDone now i se)
  show ?thesis
  proof (cases "find (\<lambda>(j, _). j = i) (br_signing b)")
    case None
    with SignerDone show ?thesis by (simp add: signer_done_def)
  next
    case (Some x)
    then obtain via p where x: "x = (i, via, p)" "(i, via, p) \<in> set (br_signing b)"
      by (cases x) (auto simp: find_Some_iff, metis nth_mem)
    then have "approved_for env b0 es i via (ap_method p) (ap_params p)" using inv by (auto simp: trace_inv_def)
    then obtain t q m v where "asked env b0 es i q m (ap_params p) v" "approval_event via t i \<in> set v"
      unfolding approved_for_def by blast
    then have "approval_event via t i \<in> set es" unfolding asked_def by (metis Un_iff insert_iff list.set(2) set_append)
    then have notacc: "i \<notin> access_ids (es @ [e])"
      using ok by (auto simp: screens_behave_def approval_event_def split: if_splits)
    have "ca_method c \<notin> {RequestAccess, Connect}" if "map_get (br_calls b) i = Some c" for c
    proof -
      have "queued env b0 es i (ca_origin c) (ca_method c) (ca_params c)" "ca_method c \<in> insert RequestAccess sign_methods"
        using inv that by (simp_all add: trace_inv_def)
      then obtain m v where "asked env b0 es i (ca_origin c) m (ca_params c) v" "ca_method c = stored_as m"
        "ca_method c \<noteq> Connect"
        unfolding queued_def by (auto simp: sign_methods_def)
      with notacc show ?thesis
        using asked_access [of env b0 es i "ca_origin c" m "ca_params c" v "[e]"] by (auto simp: stored_as_def split: if_splits)
    qed
    then have "br_allow (resolveRequest now i s (b\<lparr>br_signing := remove1 (i, via, p) (br_signing b)\<rparr>)) = br_allow b" for s
      using resolve_allow [where b = "b\<lparr>br_signing := remove1 (i, via, p) (br_signing b)\<rparr>"] by simp
    with Some x SignerDone show ?thesis
      by (auto simp: signer_done_def Let_def removeApproval_def reject_allow split: sum.splits)
  qed
qed (auto simp: dispatch_allow window_opened_def window_failed_def wait_for_approval_def
      registerResponseCallbacks_def Let_def sweep_allow answer_call_def approve_sign_def approve_auth_def reject_allow
      timer_fires_def queue_defs window_gone_def split: option.splits call_phase.splits)

lemma behave_prefix: "screens_behave (es @ [e]) \<Longrightarrow> screens_behave es"
proof -
  have "access_ids es \<subseteq> access_ids (es @ [e])" unfolding access_ids_def by fastforce
  then show "screens_behave (es @ [e]) \<Longrightarrow> screens_behave es" unfolding screens_behave_def by auto
qed

lemma allow_run:
  assumes "distinct (request_ids es)" "screens_behave es"
  shows "br_allow (bridge_run env es (new_bridge al n ct)) = al"
  using assms
proof (induction es rule: rev_induct)
  case Nil
  show ?case by (simp add: bridge_run_def new_bridge_def)
next
  case (snoc e es)
  then have "distinct (request_ids es)" "screens_behave es" using behave_prefix by auto
  with snoc trace_run [of es env al n ct] show ?case by (simp add: run_snoc allow_step)
qed

end
