(* ===== verification/ApprovalSafety.thy ===== *)
theory ApprovalSafety
  imports ApprovalQueue
begin

text \<open>
  What the interface to web pages guarantees, over every history of events of \<open>ApprovalQueue\<close>, and
  where it falls short: signatures only after an approval, one answer per request, the two requests
  that never ask the user, and the permission that does not bind what is signed.
\<close>

section \<open>A concrete history\<close>

definition demo_origin :: string where
  "demo_origin = ''https://dapp.example''"

definition demo_bridge :: bridge where
  "demo_bridge = new_bridge (approve 0 demo_origin DEFAULT_MOCK_SMART_ACCOUNT_ID ''testnet'' empty_allowlist)
     ''testnet'' None"

definition demo_bridge_env :: bridge_env where
  "demo_bridge_env = \<lparr>be_probe = (\<lambda>a n. ''deployed''), be_b64len = length\<rparr>"

definition demo_signer :: signer_env where
  "demo_signer = \<lparr>se_unlocked = True, se_network = ''testnet'', se_hardware = False, se_vaultUnlocked = True,
     se_privateKey = Some ''S'', se_fromSecret = (\<lambda>s. Inr (replicate 32 7, toy_sign)),
     se_signTx = (\<lambda>x p f. Inr ''signed''), se_authDecodes = (\<lambda>s. True), se_authAddress = (\<lambda>s. True),
     se_authorize = (\<lambda>x p f. Inr ''authorized'')\<rparr>"

definition demo_params :: js where
  "demo_params = JsObj [(''message'', JsStr ''hi'')]"

definition demo_history :: "bridge_event list" where
  "demo_history = [Request 10 ''K'' ''r1'' demo_origin SignMessage demo_params,
     WindowOpened 11 ''r1'' None, ApproveSign 12 ''r1'', SignerDone 13 ''r1'' demo_signer,
     Request 14 ''K'' ''r2'' demo_origin SignTransaction (JsObj [(''xdr'', JsStr ''AAAA'')]),
     WindowOpened 15 ''r2'' (Some 4)]"

section \<open>Signatures\<close>

text \<open>
  C11. No signature without the user: when a web page is answered with a signature under some
  identifier, its request under that identifier was made by an origin that held, at that moment, the
  permission for the network and account the request names, an approval message for the identifier
  came after it, a signer ran for the identifier after that, and the signature is what that signer, with the key
  and the network the wallet had when it ran, makes of the very parameters that were requested.
\<close>

theorem no_signature_without_approval:
  assumes "distinct (request_ids es)"
    and "(i, Inr (SignResult s)) \<in> set (br_replies (bridge_run env es (new_bridge al n ct)))"
  shows "\<exists>es1 now pk origin m params es2 viaAuth t es3 t' e.
     es = es1 @ Request now pk i origin m params # es2 @ (if viaAuth then ApproveAuth t i else ApproveSign t i) # es3
     \<and> SignerDone t' i e \<in> set es3 \<and> m \<in> sign_methods
     \<and> isAllowed (fst (resolveWalletContext params)) (snd (resolveWalletContext params)) origin
          (br_allow (bridge_run env es1 (new_bridge al n ct)))
     \<and> run_signer e viaAuth m params = Inr s"
proof -
  have "signed_properly env (new_bridge al n ct) es i s"
    using trace_run [OF assms(1), of env al n ct] assms(2) by (auto simp: trace_inv_def)
  then show ?thesis
    unfolding signed_properly_def asked_def approval_event_def by blast
qed

lemma demo_run_replies:
  "br_replies (bridge_run demo_bridge_env demo_history demo_bridge) =
     [(''r1'', Inr (SignResult (MessageSignature (hex_of (toy_sign (utf8 ''hi''))))))]"
  by code_simp

lemma demo_ids: "request_ids demo_history = [''r1'', ''r2'']"
  by code_simp

theorem no_signature_without_approval_witness:
  "\<exists>es1 now pk origin m params es2 viaAuth t es3 t' e.
     demo_history = es1 @ Request now pk ''r1'' origin m params # es2 @ (if viaAuth then ApproveAuth t ''r1'' else ApproveSign t ''r1'') # es3
     \<and> SignerDone t' ''r1'' e \<in> set es3 \<and> m \<in> sign_methods
     \<and> isAllowed (fst (resolveWalletContext params)) (snd (resolveWalletContext params)) origin
          (br_allow (bridge_run demo_bridge_env es1 demo_bridge))
     \<and> run_signer e viaAuth m params = Inr (MessageSignature (hex_of (toy_sign (utf8 ''hi''))))"
  unfolding demo_bridge_def
  by (rule no_signature_without_approval)
     (simp_all add: demo_ids demo_run_replies [unfolded demo_bridge_def])

section \<open>Answers\<close>

definition phase_due :: "time \<Rightarrow> api_call \<Rightarrow> bool" where
  "phase_due now c = (case ca_phase c of Opening \<Rightarrow> False | WaitingUntil d \<Rightarrow> d \<le> now)"

definition fire_all :: "time \<Rightarrow> bridge \<Rightarrow> bridge" where
  "fire_all now b = fold (timer_fires now) (map_keys (br_calls b)) b"

lemma timer_closes:
  "map_get (br_calls (timer_fires now i b)) j =
     (if j = i \<and> (case map_get (br_calls b) i of None \<Rightarrow> False | Some c \<Rightarrow> phase_due now c) then None
      else map_get (br_calls b) j)"
  by (auto simp: timer_fires_def phase_due_def answer_call_def writeSessionEntry_def removeApproval_def jsmap_simps
        split: option.splits call_phase.splits)

lemma timer_accounted: "accounted j (timer_fires now i b) = accounted j b"
  using step_accounted [of "TimerFires now i" b j] by simp

lemma fire_accounted: "accounted j (fire_all now b) = accounted j b"
proof -
  have "accounted j (fold (timer_fires now) xs b) = accounted j b" for xs
    by (induction xs arbitrary: b) (simp_all add: timer_accounted)
  then show ?thesis by (simp add: fire_all_def)
qed

lemma fire_closes:
  assumes "\<forall>j c. map_get (br_calls b) j = Some c \<longrightarrow> phase_due now c"
  shows "map_get (br_calls (fold (timer_fires now) xs b)) j = (if j \<in> set xs then None else map_get (br_calls b) j)"
  using assms
proof (induction xs arbitrary: b)
  case Nil
  show ?case by simp
next
  case (Cons x xs)
  have "\<forall>j c. map_get (br_calls (timer_fires now x b)) j = Some c \<longrightarrow> phase_due now c"
    using Cons.prems by (simp add: timer_closes)
  from Cons.IH [OF this] Cons.prems show ?case by (auto simp: timer_closes split: option.splits)
qed

text \<open>
  C36. Every request is answered, once: after any history, when every call that is still open waits
  for the user and its five minutes are over, the timers leave no call open and every request has
  exactly one answer, whatever windows, approvals, signers and sweeps did before.
\<close>

theorem every_request_answered_once:
  assumes "distinct (request_ids es)"
    and "\<forall>(j, c) \<in> set (br_calls (bridge_run env es (new_bridge al n ct))). phase_due now c"
    and "i \<in> set (request_ids es)"
  shows "br_calls (fire_all now (bridge_run env es (new_bridge al n ct))) = []
    \<and> length (filter (\<lambda>r. fst r = i) (br_replies (fire_all now (bridge_run env es (new_bridge al n ct))))) = 1"
proof -
  let ?b = "bridge_run env es (new_bridge al n ct)"
  have due: "\<forall>j c. map_get (br_calls ?b) j = Some c \<longrightarrow> phase_due now c"
    using assms(2) by (auto simp: map_get_def dest: map_of_SomeD)
  have none: "map_get (br_calls (fire_all now ?b)) j = None" for j
    using fire_closes [OF due] by (auto simp: fire_all_def map_keys_def map_get_def map_of_eq_None_iff)
  then have empty: "br_calls (fire_all now ?b) = []" using map_get_empty_iff by blast
  have "accounted i (fire_all now ?b) = 1"
    using assms(3) by (simp add: fire_accounted run_accounted [OF assms(1)])
  with empty show ?thesis by (simp add: accounted_def map_has_get)
qed

lemma demo_calls:
  "map fst (br_calls (bridge_run demo_bridge_env demo_history demo_bridge)) = [''r2'']
   \<and> list_all (\<lambda>(j, c). phase_due 300015 c) (br_calls (bridge_run demo_bridge_env demo_history demo_bridge))"
  by code_simp

theorem every_request_answered_once_witness:
  "br_calls (fire_all 300015 (bridge_run demo_bridge_env demo_history demo_bridge)) = []
    \<and> length (filter (\<lambda>r. fst r = ''r2'') (br_replies (fire_all 300015 (bridge_run demo_bridge_env demo_history demo_bridge)))) = 1"
  unfolding demo_bridge_def
  by (rule every_request_answered_once)
     (use demo_calls in \<open>simp_all add: demo_ids demo_bridge_def list_all_iff\<close>)

section \<open>Requests that never ask\<close>

text \<open>
  The grant-access screen grants nothing: as long as sign approvals are sent for sign requests
  only, the permissions of the wallet never change, however often its users agree to a connection.
\<close>

theorem access_never_granted:
  assumes "distinct (request_ids es)" and "screens_behave es"
  shows "allow_abs (br_allow (bridge_run env es (new_bridge al n ct))) = allow_abs al"
  using allow_run [OF assms] by simp

definition demo_access :: "bridge_event list" where
  "demo_access = [Request 10 ''K'' ''r1'' demo_origin RequestAccess (JsObj [(''network'', JsStr ''mainnet'')]),
     WindowOpened 11 ''r1'' None, AccessMessage True ''r1'', TimerFires 300011 ''r1'']"

theorem access_never_granted_witness:
  "allow_abs (br_allow (bridge_run demo_bridge_env demo_access (new_bridge empty_allowlist ''testnet'' None)))
     = allow_abs empty_allowlist
   \<and> br_replies (bridge_run demo_bridge_env demo_access (new_bridge empty_allowlist ''testnet'' None))
     = [(''r1'', Inl Expired)]"
proof
  have "request_ids demo_access = [''r1'']" by code_simp
  moreover have "screens_behave demo_access" by (simp add: screens_behave_def demo_access_def)
  ultimately show "allow_abs (br_allow (bridge_run demo_bridge_env demo_access (new_bridge empty_allowlist ''testnet'' None)))
     = allow_abs empty_allowlist"
    by (intro access_never_granted) simp_all
  show "br_replies (bridge_run demo_bridge_env demo_access (new_bridge empty_allowlist ''testnet'' None))
     = [(''r1'', Inl Expired)]"
    by code_simp
qed

text \<open>
  A session key is answered before the user is asked: a well-formed request of a permitted origin
  gets its public key in the very step that queues its approval, which is then still pending.
\<close>

theorem session_key_without_approval:
  assumes "session_key_schema params" "js_get params ''expiresAt'' = JsNum (Fin q)" "of_int now < q"
    and "isAllowed (fst (resolveWalletContext params)) (snd (resolveWalletContext params)) origin (br_allow b)"
  shows "last (br_replies (bridge_step env (Request now publicKey i origin RequestSessionKey params) b))
      = (i, Inr (SessionKey publicKey (Fin q)))
    \<and> getApproval i (bridge_step env (Request now publicKey i origin RequestSessionKey params) b)
      = Some \<lparr>ap_origin = origin, ap_method = RequestSessionKey, ap_params = params, ap_timestamp = now\<rparr>"
  using assms
  by (auto simp: dispatchExternalRequest_def handleRequestSessionKey_def answer_call_def getApproval_def
        enqueueApproval_def Let_def writeSessionEntry_def jsmap_simps split: prod.splits)

definition demo_session_params :: js where
  "demo_session_params = JsObj [(''expiresAt'', JsNum (Fin 100)), (''permissions'', JsNum (Fin 1))]"

theorem session_key_without_approval_witness:
  "last (br_replies (bridge_step demo_bridge_env (Request 10 ''K'' ''r1'' demo_origin RequestSessionKey demo_session_params) demo_bridge))
      = (''r1'', Inr (SessionKey ''K'' (Fin 100)))
    \<and> getApproval ''r1'' (bridge_step demo_bridge_env (Request 10 ''K'' ''r1'' demo_origin RequestSessionKey demo_session_params) demo_bridge)
      = Some \<lparr>ap_origin = demo_origin, ap_method = RequestSessionKey, ap_params = demo_session_params, ap_timestamp = 10\<rparr>"
proof (rule session_key_without_approval)
  show "session_key_schema demo_session_params"
    by (simp add: session_key_schema_def demo_session_params_def js_get_def optional_string_def)
  show "js_get demo_session_params ''expiresAt'' = JsNum (Fin 100)"
    by (simp add: demo_session_params_def js_get_def)
  show "isAllowed (fst (resolveWalletContext demo_session_params)) (snd (resolveWalletContext demo_session_params))
      demo_origin (br_allow demo_bridge)"
    by code_simp
qed simp

section \<open>What a permission binds\<close>

text \<open>The parameters with the network and the account replaced.\<close>

definition redirect :: "string \<Rightarrow> string \<Rightarrow> (string \<times> js) list \<Rightarrow> js" where
  "redirect network account ps = JsObj ((''network'', JsStr network) # (''smartAccountId'', JsStr account)
     # filter (\<lambda>(k, v). k \<noteq> ''network'' \<and> k \<noteq> ''smartAccountId'') ps)"

lemma redirect_get:
  "js_get (redirect n a ps) f = (if f = ''network'' then JsStr n else if f = ''smartAccountId'' then JsStr a
     else js_get (JsObj ps) f)"
proof -
  have "f \<noteq> ''network'' \<Longrightarrow> f \<noteq> ''smartAccountId''
      \<Longrightarrow> map_of (filter (\<lambda>(k, v). k \<noteq> ''network'' \<and> k \<noteq> ''smartAccountId'') ps) f = map_of ps f"
    by (induction ps) auto
  then show ?thesis by (simp add: redirect_def js_get_def)
qed

lemma redirect_signer: "run_signer e viaAuth m (redirect n a ps) = run_signer e viaAuth m (JsObj ps)"
proof -
  have fields:
    "js_get (redirect n a ps) ''authEntry'' = js_get (JsObj ps) ''authEntry''"
    "js_get (redirect n a ps) ''message'' = js_get (JsObj ps) ''message''"
    "js_get (redirect n a ps) ''xdr'' = js_get (JsObj ps) ''xdr''"
    "js_get (redirect n a ps) ''operation'' = js_get (JsObj ps) ''operation''"
    "js_get (redirect n a ps) ''nonce'' = js_get (JsObj ps) ''nonce''"
    "js_get (redirect n a ps) ''to'' = js_get (JsObj ps) ''to''"
    "js_get (redirect n a ps) ''amount'' = js_get (JsObj ps) ''amount''"
    "js_get (redirect n a ps) ''asset'' = js_get (JsObj ps) ''asset''"
    "js_get (redirect n a ps) ''networkPassphrase'' = js_get (JsObj ps) ''networkPassphrase''"
    by (simp_all add: redirect_get)
  show ?thesis
    unfolding run_signer_def signAuthEntry_def signMessage_def signRelayEnvelope_def signTransaction_def
      passphrase_mismatch_def passphrase_field_def fields by (rule refl)
qed

text \<open>
  A permission does not bind what is signed: an origin that holds any permission at all has every
  sign request queued by naming that permission's network and account in it, and the signature it gets
  is the one the request without those names gets, by the wallet's own key on the wallet's own network.
\<close>

theorem any_permission_reaches_signer:
  assumes "m \<in> sign_methods" "sign_check (be_b64len env) m (JsObj ps) = None"
    and "isAllowed n a origin (br_allow b)" "n \<noteq> []" "a \<noteq> []"
  shows "bridge_step env (Request now pk i origin m (redirect n a ps)) b = start_call now i origin m (redirect n a ps) b
    \<and> run_signer e viaAuth m (redirect n a ps) = run_signer e viaAuth m (JsObj ps)"
proof -
  have "is_plain_object (redirect n a ps)" by (simp add: redirect_def)
  then have "sign_check (be_b64len env) m (redirect n a ps) = None"
    using assms(2) by (cases m) (auto simp: sign_check_def sign_schema_def redirect_get optional_string_def split: if_splits)
  moreover have "resolveWalletContext (redirect n a ps) = (n, a)"
    using assms(4,5) by (simp add: resolveWalletContext_def field_or_def redirect_get nonempty_string_def)
  ultimately show ?thesis
    using assms(1,3) by (auto simp: sign_methods_def dispatchExternalRequest_def handleSign_def redirect_signer)
qed

theorem any_permission_reaches_signer_witness:
  "bridge_step demo_bridge_env (Request 1 ''K'' ''r1'' demo_origin SignTransaction
       (redirect ''testnet'' DEFAULT_MOCK_SMART_ACCOUNT_ID [(''xdr'', JsStr ''AAAA''), (''networkPassphrase'', JsStr ''main'')])) demo_bridge
     = start_call 1 ''r1'' demo_origin SignTransaction
       (redirect ''testnet'' DEFAULT_MOCK_SMART_ACCOUNT_ID [(''xdr'', JsStr ''AAAA''), (''networkPassphrase'', JsStr ''main'')]) demo_bridge
   \<and> run_signer demo_signer False SignTransaction
       (redirect ''testnet'' DEFAULT_MOCK_SMART_ACCOUNT_ID [(''xdr'', JsStr ''AAAA''), (''networkPassphrase'', JsStr ''main'')])
     = run_signer demo_signer False SignTransaction (JsObj [(''xdr'', JsStr ''AAAA''), (''networkPassphrase'', JsStr ''main'')])"
proof (rule any_permission_reaches_signer)
  show "sign_check (be_b64len demo_bridge_env) SignTransaction
      (JsObj [(''xdr'', JsStr ''AAAA''), (''networkPassphrase'', JsStr ''main'')]) = None"
    by code_simp
  show "isAllowed ''testnet'' DEFAULT_MOCK_SMART_ACCOUNT_ID demo_origin (br_allow demo_bridge)" by code_simp
  show "SignTransaction \<in> sign_methods" by (simp add: sign_methods_def)
qed (simp_all add: DEFAULT_MOCK_SMART_ACCOUNT_ID_def)

text \<open>
  A signed message is a payment order: for any relay payload, the signature \<open>signMessage\<close> returns
  for its canonical text is the signature the relayer accepts for the payload.
\<close>

theorem signed_message_orders_payment:
  assumes "bytes_ok raw" "length raw = 32" "\<And>m. bytes_ok (sign m)" "\<And>m. length (sign m) = 64"
    and "from_public_key (encodeEd25519PublicKey raw) = Some kp" "\<And>m. kp_verify kp m (sign m) = Some True"
    and "getSigningKeypair e = Inr (raw, sign)" "se_unlocked e"
  shows "case signMessage e (JsObj [(''message'', JsStr (buildCanonicalPayload ci))]) of
      Inr (MessageSignature sg) \<Rightarrow> sig_verify from_public_key kp_verify (hex_of raw) (buildCanonicalPayload ci) sg
    | _ \<Rightarrow> False"
proof -
  have "buildCanonicalPayload ci \<noteq> []"
    by (simp add: buildCanonicalPayload_def payload_json_def utf8_def hex_of_def utf8_char_def hex_byte_def Let_def)
  then have "signMessage e (JsObj [(''message'', JsStr (buildCanonicalPayload ci))])
      = Inr (MessageSignature (hex_of (sign (utf8 (buildCanonicalPayload ci)))))"
    using assms(7,8) by (simp add: signMessage_def js_get_def nonempty_string_def)
  moreover have "buffer_from_hex (hex_of bs) = bs" if "bytes_ok bs" for bs
    using that by (rule buffer_from_hex_of)
  ultimately show ?thesis
    using assms(1-6) by (simp add: sig_verify_def)
qed

theorem signed_message_orders_payment_witness:
  "case signMessage demo_signer (JsObj [(''message'', JsStr (buildCanonicalPayload
        \<lparr>ci_sessionKey = hex_of (replicate 32 7), ci_operation = ''relay_execute'', ci_nonce = 5,
         ci_to = ''G'', ci_amount = ''10'', ci_asset = ''XLM''\<rparr>))]) of
      Inr (MessageSignature sg) \<Rightarrow> sig_verify Some (\<lambda>k m s. Some (s = toy_sign m)) (hex_of (replicate 32 7))
        (buildCanonicalPayload \<lparr>ci_sessionKey = hex_of (replicate 32 7), ci_operation = ''relay_execute'',
           ci_nonce = 5, ci_to = ''G'', ci_amount = ''10'', ci_asset = ''XLM''\<rparr>) sg
    | _ \<Rightarrow> False"
  by (rule signed_message_orders_payment [where sign = toy_sign])
     (simp_all add: bytes_ok_def toy_sign_def list_all_iff demo_signer_def getSigningKeypair_def)

section \<open>The way into the worker\<close>

text \<open>
  Whatever a page posts: a message that reaches a handler of the worker carries the permitted
  origin of the page itself and names a registered method, and the worker's own guard accepts it under
  that origin; only the relay envelope, registered though it is, can never be reached this way.
\<close>

theorem content_filter_sound:
  "case content_listener url (CHR ''u'' # uuid) sameWindow event_origin window_origin data of
     Dropped \<Rightarrow> True
   | Refused i err \<Rightarrow> isOriginPermitted url window_origin \<and> err = ''Unknown method''
   | Forwarded i f \<Rightarrow> fw_origin f = window_origin \<and> isOriginPermitted url window_origin
       \<and> worker_guard (Some window_origin) (api_message f)
           = Accepted (CHR ''u'' # uuid) (fw_method f) window_origin (fw_params f)
       \<and> (\<exists>m. getExternalHandler (fw_method f) = Some m \<and> m \<noteq> SignRelayPayload)
       \<and> getExternalHandler ''signRelayPayload'' = Some SignRelayPayload"
proof -
  have reg: "\<exists>m. getExternalHandler meth = Some m \<and> m \<noteq> SignRelayPayload" and ne: "meth \<noteq> []"
    if "map_of METHOD_TO_MESSAGE_TYPE meth \<noteq> None" for meth
  proof -
    from that have "meth \<in> fst ` set METHOD_TO_MESSAGE_TYPE" by (auto simp: map_of_eq_None_iff)
    then show "\<exists>m. getExternalHandler meth = Some m \<and> m \<noteq> SignRelayPayload" "meth \<noteq> []"
      by (auto simp: METHOD_TO_MESSAGE_TYPE_def getExternalHandler_def registered_methods_def)
  qed
  have relay: "getExternalHandler ''signRelayPayload'' = Some SignRelayPayload"
    by (simp add: getExternalHandler_def registered_methods_def)
  have guard: "worker_guard (Some window_origin) (api_message \<lparr>fw_requestId = c # cs, fw_method = meth, fw_params = p, fw_origin = window_origin\<rparr>)
      = Accepted (c # cs) meth window_origin p" if "meth \<noteq> []" "window_origin \<noteq> []" for c cs meth p
    using that by (simp add: worker_guard_def api_message_def js_get_def nonempty_string_def)
  have origin_ne: "isOriginPermitted url window_origin \<Longrightarrow> window_origin \<noteq> []"
    by (simp add: isOriginPermitted_def)
  show ?thesis
    using reg ne relay guard origin_ne
    by (auto simp: content_listener_def respond_error_def Let_def split: js.splits if_splits)
qed

end
