(* ===== verification/RetryLoops.thy ===== *)
theory RetryLoops
  imports JsNumber RelayErrors
begin

text \<open>
  The three retry helpers of the client packages: \<open>packages/core-sdk/src/utils/retry.ts\<close>,
  \<open>core-sdk/src/retry-policy.ts\<close> and \<open>packages/stellar/src/retry.ts\<close>, with their presets, and the
  sequence lookup built on the prev one (\<open>packages/stellar/src/account-sequence.ts\<close>). The operation
  that is retried is a parameter: the outcome of its n-th call. Delays are whole milliseconds where
  the sources compute with whole numbers (exact below \<open>2^53\<close>; attempt numbers stay below 1024, so
  \<open>Math.pow\<close> is finite); where jitter enters they are binary64 numbers. Callbacks that only observe
  (\<open>onRetry\<close>) are left out.
\<close>

section \<open>Which errors are retried\<close>

text \<open>
  A thrown value as the two classifiers read it: the properties that are numbers (\<open>status\<close>,
  \<open>statusCode\<close>, \<open>httpStatus\<close>, and the first two on \<open>response\<close>), \<open>code\<close> when it is a string. An
  error has a name and a message; another object may have a string \<open>name\<close> and comes with its
  \<open>String()\<close> rendering.
\<close>

record error_fields =
  ef_status :: "number option"
  ef_statusCode :: "number option"
  ef_httpStatus :: "number option"
  ef_responseStatus :: "number option"
  ef_responseStatusCode :: "number option"
  ef_code :: "string option"

definition no_fields :: error_fields where
  "no_fields = \<lparr>ef_status = None, ef_statusCode = None, ef_httpStatus = None,
     ef_responseStatus = None, ef_responseStatusCode = None, ef_code = None\<rparr>"

datatype net_error =
    FalsyValue
  | ErrorInstance string string error_fields
  | PlainObject "string option" string error_fields
  | TextValue string
  | OtherValue string

fun first_some :: "'a option list \<Rightarrow> 'a option" where
  "first_some [] = None"
| "first_some (Some v # _) = Some v"
| "first_some (None # vs) = first_some vs"

fun is_falsy :: "net_error \<Rightarrow> bool" where
  "is_falsy FalsyValue = True"
| "is_falsy (TextValue s) = (s = [])"
| "is_falsy _ = False"

fun fields_of :: "net_error \<Rightarrow> error_fields option" where
  "fields_of (ErrorInstance _ _ f) = Some f"
| "fields_of (PlainObject _ _ f) = Some f"
| "fields_of _ = None"

fun name_of :: "net_error \<Rightarrow> string option" where
  "name_of (ErrorInstance n _ _) = Some n"
| "name_of (PlainObject n _ _) = n"
| "name_of _ = None"

definition between :: "int \<Rightarrow> int \<Rightarrow> number \<Rightarrow> bool" where
  "between a b s = (num_leq (whole a) s \<and> num_less s (whole b))"

definition isTransientStatusCode :: "number \<Rightarrow> bool" where
  "isTransientStatusCode s = (s \<noteq> NaN \<and> (between 500 600 s \<or> s = whole 429 \<or> s = whole 408))"

definition extractStatusCode :: "net_error \<Rightarrow> number option" where
  "extractStatusCode e = (case fields_of e of None \<Rightarrow> None | Some f \<Rightarrow>
     first_some [ef_status f, ef_statusCode f, ef_httpStatus f, ef_responseStatus f, ef_responseStatusCode f])"

text \<open>
  \<open>code.toUpperCase()\<close> is one of the listed codes; as these are capitals, digits and underscores,
  this is equality up to the case of the letters.
\<close>

definition has_code :: "string list \<Rightarrow> string \<Rightarrow> bool" where
  "has_code codes c = (js_lower c \<in> set (map js_lower codes))"

definition CORE_ERROR_CODES :: "string list" where
  "CORE_ERROR_CODES = [''TIMEOUT'', ''ETIMEDOUT'', ''ESOCKETTIMEDOUT'', ''ECONNRESET'', ''ECONNREFUSED'',
     ''ENOTFOUND'', ''ENETUNREACH'', ''EAI_AGAIN'', ''EPIPE'', ''NETWORK_ERROR'', ''UND_ERR_CONNECT_TIMEOUT'', ''UND_ERR_SOCKET'']"

definition POLICY_ERROR_CODES :: "string list" where
  "POLICY_ERROR_CODES = [''ETIMEDOUT'', ''ECONNRESET'', ''ECONNREFUSED'', ''ENOTFOUND'', ''EAI_AGAIN'',
     ''ESOCKETTIMEDOUT'', ''EHOSTUNREACH'', ''EPIPE'', ''UND_ERR_CONNECT_TIMEOUT'', ''UND_ERR_SOCKET'']"

text \<open>The patterns with white space and the one with word boundaries, on lower-case text.\<close>

definition spaces_then :: "string \<Rightarrow> string \<Rightarrow> bool" where
  "spaces_then w s = js_starts_with w (dropWhile is_js_space s)"

definition network_failed :: "string \<Rightarrow> bool" where
  "network_failed s = (spaces_then ''failed'' s
     \<or> (let t = dropWhile is_js_space s in js_starts_with ''request'' t \<and> spaces_then ''failed'' (drop 7 t)))"

fun status_word :: "bool \<Rightarrow> string \<Rightarrow> bool" where
  "status_word _ [] = False"
| "status_word at_start (c # cs) =
     ((at_start \<and> (\<exists>d \<in> set ''0234''. js_starts_with (''50'' @ [d]) (c # cs)) \<and> word_boundary (drop 3 (c # cs)))
      \<or> status_word (\<not> is_word_char c) cs)"

definition core_message_pattern :: "string \<Rightarrow> bool" where
  "core_message_pattern m = (let s = js_lower m in
     (\<exists>w \<in> set [''timeout'', ''econnreset'', ''econnrefused'', ''enotfound'', ''enetunreach'', ''eai_again'',
        ''failed to fetch'', ''socket hung up'', ''net::err_'', ''service unavailable'', ''gateway timeout'',
        ''bad gateway'', ''transient'', ''retry'']. js_includes w s)
     \<or> find_after (spaces_then ''out'') ''timed'' s \<or> find_after network_failed ''network'' s
     \<or> status_word True m)"

definition POLICY_MESSAGE_PATTERNS :: "string list" where
  "POLICY_MESSAGE_PATTERNS = [''network timeout'', ''request timed out'', ''timed out'', ''timeout'', ''network error'',
     ''failed to fetch'', ''fetch failed'', ''connection reset'', ''connection refused'', ''socket hang up'',
     ''502 bad gateway'', ''503 service unavailable'', ''504 gateway timeout'', ''500 internal server error'',
     ''rate limit exceeded'', ''too many requests'']"

fun error_text :: "net_error \<Rightarrow> string" where
  "error_text (ErrorInstance n m _) = n @ '': '' @ m"
| "error_text (PlainObject _ s _) = s"
| "error_text (TextValue s) = s"
| "error_text (OtherValue s) = s"
| "error_text FalsyValue = []"

text \<open>\<open>isTransientNetworkError\<close> of \<open>utils/retry.ts\<close>.\<close>

definition core_isTransient :: "net_error \<Rightarrow> bool" where
  "core_isTransient e = (\<not> is_falsy e \<and>
     ((case extractStatusCode e of None \<Rightarrow> False | Some s \<Rightarrow> isTransientStatusCode s)
      \<or> (case fields_of e of None \<Rightarrow> False | Some f \<Rightarrow>
           (case ef_code f of None \<Rightarrow> False | Some c \<Rightarrow> has_code CORE_ERROR_CODES c)
           \<or> name_of e \<in> {Some ''TimeoutError'', Some ''AbortError'', Some ''FetchError''})
      \<or> core_message_pattern (error_text e)))"

text \<open>\<open>isTransientNetworkError\<close> of \<open>retry-policy.ts\<close>.\<close>

definition policy_status :: "error_fields \<Rightarrow> number option" where
  "policy_status f = first_some [ef_status f, ef_statusCode f, ef_responseStatus f]"

definition policy_message_pattern :: "net_error \<Rightarrow> bool" where
  "policy_message_pattern e = (case e of
     ErrorInstance _ m _ \<Rightarrow> (\<exists>p \<in> set POLICY_MESSAGE_PATTERNS. js_includes p (js_lower m)) | _ \<Rightarrow> False)"

definition policy_names :: "error_fields \<Rightarrow> net_error \<Rightarrow> bool" where
  "policy_names f e = ((case ef_code f of None \<Rightarrow> False | Some c \<Rightarrow> has_code POLICY_ERROR_CODES c)
     \<or> name_of e \<in> {Some ''TimeoutError'', Some ''AbortError''})"

definition policy_isTransient :: "net_error \<Rightarrow> bool" where
  "policy_isTransient e = (if is_falsy e then False else
     case fields_of e of
       None \<Rightarrow> policy_message_pattern e
     | Some f \<Rightarrow>
         (case policy_status f of
            Some s \<Rightarrow>
              if between 500 600 s \<or> s = whole 429 then True
              else if between 400 500 s then False
              else policy_names f e \<or> policy_message_pattern e
          | None \<Rightarrow> policy_names f e \<or> policy_message_pattern e))"

section \<open>Options and presets\<close>

text \<open>Options as the caller gives them (absent where not given), and filled in.\<close>

record retry_given =
  rg_maxRetries :: "int option"
  rg_baseDelayMs :: "int option"
  rg_maxDelayMs :: "int option"
  rg_exponential :: "bool option"

record retry_options =
  ro_maxRetries :: int
  ro_baseDelayMs :: int
  ro_maxDelayMs :: int
  ro_exponential :: bool

definition no_options :: retry_given where
  "no_options = \<lparr>rg_maxRetries = None, rg_baseDelayMs = None, rg_maxDelayMs = None, rg_exponential = None\<rparr>"

definition fill_options :: "retry_options \<Rightarrow> retry_given \<Rightarrow> retry_options" where
  "fill_options d g = \<lparr>ro_maxRetries = coalesce (rg_maxRetries g) (ro_maxRetries d),
     ro_baseDelayMs = coalesce (rg_baseDelayMs g) (ro_baseDelayMs d),
     ro_maxDelayMs = coalesce (rg_maxDelayMs g) (ro_maxDelayMs d),
     ro_exponential = coalesce (rg_exponential g) (ro_exponential d)\<rparr>"

definition DEFAULT_RETRY_OPTIONS :: retry_options where
  "DEFAULT_RETRY_OPTIONS = \<lparr>ro_maxRetries = 3, ro_baseDelayMs = 100, ro_maxDelayMs = 10000, ro_exponential = True\<rparr>"

definition DEFAULT_RETRY_POLICY :: retry_options where
  "DEFAULT_RETRY_POLICY = \<lparr>ro_maxRetries = 3, ro_baseDelayMs = 500, ro_maxDelayMs = 30000, ro_exponential = True\<rparr>"

definition STELLAR_DEFAULT_OPTIONS :: retry_options where
  "STELLAR_DEFAULT_OPTIONS = \<lparr>ro_maxRetries = 3, ro_baseDelayMs = 1000, ro_maxDelayMs = 30000, ro_exponential = True\<rparr>"

definition all_given :: "retry_options \<Rightarrow> retry_given" where
  "all_given r = \<lparr>rg_maxRetries = Some (ro_maxRetries r), rg_baseDelayMs = Some (ro_baseDelayMs r),
     rg_maxDelayMs = Some (ro_maxDelayMs r), rg_exponential = Some (ro_exponential r)\<rparr>"

lemma fill_all_given [simp]: "fill_options d (all_given r) = r"
  by (simp add: fill_options_def all_given_def)

definition preset :: "int \<Rightarrow> int \<Rightarrow> bool \<Rightarrow> retry_given" where
  "preset n base ex = no_options\<lparr>rg_maxRetries := Some n, rg_baseDelayMs := Some base, rg_exponential := Some ex\<rparr>"

definition LOW_LATENCY :: retry_given where
  "LOW_LATENCY = preset 2 200 False"

definition RELIABLE :: retry_given where
  "RELIABLE = preset 8 3000 True"

definition AGGRESSIVE :: retry_given where
  "AGGRESSIVE = preset 4 500 True"

definition core_preset :: "string \<Rightarrow> retry_given option" where
  "core_preset n = map_of [(''LOW_LATENCY'', LOW_LATENCY), (''RELIABLE'', RELIABLE), (''AGGRESSIVE'', AGGRESSIVE)] n"

text \<open>
  Both tables are object literals, so looking a name up (and \<open>name in table\<close>) also finds the
  members of \<open>Object.prototype\<close>, which have none of the option properties; \<open>__proto__\<close> gives that
  object itself.
\<close>

definition object_members :: "string list" where
  "object_members = [''constructor'', ''__proto__'', ''__defineGetter__'', ''__defineSetter__'', ''hasOwnProperty'',
     ''__lookupGetter__'', ''__lookupSetter__'', ''isPrototypeOf'', ''propertyIsEnumerable'', ''toString'',
     ''valueOf'', ''toLocaleString'']"

datatype preset_error = InvalidRetryPresetError string

definition getRetryPreset :: "string \<Rightarrow> preset_error + retry_given" where
  "getRetryPreset n = (case core_preset n of
       Some p \<Rightarrow> Inr p
     | None \<Rightarrow> if n \<in> set object_members then Inr no_options else Inl (InvalidRetryPresetError n))"

definition STELLAR_RETRY_PRESETS :: "string \<Rightarrow> (int \<times> int) option" where
  "STELLAR_RETRY_PRESETS n = map_of [(''wallet'', (3, 200)), (''indexer'', (5, 500))] n"

definition retryOptionsFromPreset :: "int \<times> int \<Rightarrow> retry_given \<Rightarrow> retry_given" where
  "retryOptionsFromPreset p overrides = (case p of (maxAttempts, base) \<Rightarrow>
     \<lparr>rg_maxRetries = Some (coalesce (rg_maxRetries overrides) (maxAttempts - 1)),
      rg_baseDelayMs = Some (coalesce (rg_baseDelayMs overrides) base),
      rg_maxDelayMs = rg_maxDelayMs overrides,
      rg_exponential = Some (coalesce (rg_exponential overrides) True)\<rparr>)"

datatype policy_choice = NoPolicy | PolicyName string | PolicyOptions retry_given

fun resolveRetryPolicy :: "policy_choice \<Rightarrow> preset_error + retry_given" where
  "resolveRetryPolicy NoPolicy = Inr (all_given DEFAULT_RETRY_POLICY)"
| "resolveRetryPolicy (PolicyName n) =
     (if n = [] then Inr (all_given DEFAULT_RETRY_POLICY)
      else case core_preset n of Some p \<Rightarrow> Inr p
      | None \<Rightarrow> if n \<in> set object_members then Inr no_options
        else case STELLAR_RETRY_PRESETS n of
          Some p \<Rightarrow> Inr (retryOptionsFromPreset p no_options)
        | None \<Rightarrow> Inl (InvalidRetryPresetError n))"
| "resolveRetryPolicy (PolicyOptions g) = Inr g"

section \<open>Delays\<close>

text \<open>\<open>attempt\<close> counts from 1.\<close>

definition calculateDelay :: "nat \<Rightarrow> int \<Rightarrow> bool \<Rightarrow> int \<Rightarrow> int" where
  "calculateDelay attempt base ex cap =
     (if \<not> ex then min base cap else min (base * 2 ^ (attempt - 1)) cap)"

text \<open>The policy's delay, \<open>rnd\<close> the random number drawn when jitter is on.\<close>

definition calculateRetryDelay :: "bool \<Rightarrow> rat \<Rightarrow> nat \<Rightarrow> int \<Rightarrow> bool \<Rightarrow> int \<Rightarrow> number" where
  "calculateRetryDelay jitter rnd attempt base ex cap =
     (let delay = calculateDelay attempt base ex cap;
          jittered = (if jitter
            then math_round (num_mul (whole delay) (num_add (f64 (8/10)) (num_mul (Fin rnd) (f64 (4/10)))))
            else whole delay)
      in num_max (whole 0) (num_min jittered (whole cap)))"

text \<open>
  The delay of \<open>utils/retry.ts\<close>, \<open>attempt\<close> from 0. Jitter is off (\<open>false\<close> and 0), on (\<open>true\<close>: ten
  percent) or a given factor.
\<close>

datatype jitter_choice = JitterOff | JitterOn | JitterBy rat

definition jitter_factor :: "jitter_choice \<Rightarrow> rat option" where
  "jitter_factor j = (case j of JitterOff \<Rightarrow> None | JitterOn \<Rightarrow> Some (case f64 (1/10) of Fin x \<Rightarrow> x | _ \<Rightarrow> 0)
     | JitterBy x \<Rightarrow> if x = 0 then None else Some \<bar>x\<bar>)"

definition calculateBackoffDelay :: "jitter_choice \<Rightarrow> rat \<Rightarrow> nat \<Rightarrow> int \<Rightarrow> bool \<Rightarrow> int \<Rightarrow> number" where
  "calculateBackoffDelay jitter rnd attempt base ex cap =
     (let delay = (if ex then min (base * 2 ^ attempt) cap else min base cap);
          jittered = (case jitter_factor jitter of
             None \<Rightarrow> whole delay
           | Some factor \<Rightarrow>
               num_mul (whole delay) (num_add (Fin 1) (num_mul (num_add (f64 (rnd * 2)) (Fin (-1))) (Fin factor))))
      in num_max (whole 0) (num_min (math_round jittered) (whole cap)))"

section \<open>The loops\<close>

text \<open>What a helper ends with: the value, an error of the operation, or nothing it could throw.\<close>

datatype ('e, 'a) retry_end = Returned 'a | Threw 'e | ThrewUndefined

text \<open>
  \<open>utils/retry.ts\<close>: \<open>for (attempt = 0; attempt <= maxRetries; attempt++)\<close>. The result comes with the
  delays slept.
\<close>

function core_retry ::
  "retry_options \<Rightarrow> ('e \<Rightarrow> bool) \<Rightarrow> (nat \<Rightarrow> number) \<Rightarrow> (nat \<Rightarrow> 'e + 'a) \<Rightarrow> int \<Rightarrow> 'e option
     \<Rightarrow> ('e, 'a) retry_end \<times> number list" where
  "core_retry opts retryable delay out attempt prev =
     (if attempt \<le> ro_maxRetries opts
      then case out (nat attempt) of
        Inr v \<Rightarrow> (Returned v, [])
      | Inl e \<Rightarrow>
          if \<not> retryable e then (Threw e, [])
          else if attempt \<ge> ro_maxRetries opts then (Threw e, [])
          else (case core_retry opts retryable delay out (attempt + 1) (Some e) of
                  (r, ds) \<Rightarrow> (r, delay (nat attempt) # ds))
      else (case prev of None \<Rightarrow> ThrewUndefined | Some e \<Rightarrow> Threw e, []))"
  by pat_completeness auto
termination by (relation "measure (\<lambda>(opts, retryable, delay, out, attempt, prev). nat (ro_maxRetries opts + 1 - attempt))") auto

definition withRetry ::
  "retry_given \<Rightarrow> jitter_choice \<Rightarrow> (nat \<Rightarrow> rat) \<Rightarrow> ('e \<Rightarrow> bool) \<Rightarrow> (nat \<Rightarrow> 'e + 'a) \<Rightarrow> ('e, 'a) retry_end \<times> number list" where
  "withRetry given jitter rnd retryable out = (let opts = fill_options DEFAULT_RETRY_OPTIONS given in
     core_retry opts retryable
       (\<lambda>n. calculateBackoffDelay jitter (rnd n) n (ro_baseDelayMs opts) (ro_exponential opts) (ro_maxDelayMs opts)) out 0 None)"

text \<open>\<open>wrapWithRetry\<close>: the preset's or the given options, else those of \<open>AGGRESSIVE\<close>.\<close>

definition DEFAULT_CLIENT_RETRY :: retry_given where
  "DEFAULT_CLIENT_RETRY = AGGRESSIVE"

definition wrapWithRetry ::
  "policy_choice \<Rightarrow> (nat \<Rightarrow> rat) \<Rightarrow> (nat \<Rightarrow> net_error + 'a) \<Rightarrow> preset_error + (net_error, 'a) retry_end \<times> number list" where
  "wrapWithRetry options rnd out =
     (case (case options of NoPolicy \<Rightarrow> Inr DEFAULT_CLIENT_RETRY | PolicyName n \<Rightarrow> getRetryPreset n | PolicyOptions g \<Rightarrow> Inr g) of
        Inl e \<Rightarrow> Inl e
      | Inr given \<Rightarrow> Inr (withRetry given JitterOn rnd core_isTransient out))"

text \<open>
  \<open>retry-policy.ts\<close>: attempts count from 1, the exhausted case is looked at first.
\<close>

function policy_retry ::
  "retry_options \<Rightarrow> ('e \<Rightarrow> bool) \<Rightarrow> (nat \<Rightarrow> number) \<Rightarrow> (nat \<Rightarrow> 'e + 'a) \<Rightarrow> int \<Rightarrow> 'e option
     \<Rightarrow> ('e, 'a) retry_end \<times> number list" where
  "policy_retry opts retryable delay out attempt prev =
     (if attempt \<le> ro_maxRetries opts + 1
      then case out (nat attempt - 1) of
        Inr v \<Rightarrow> (Returned v, [])
      | Inl e \<Rightarrow>
          if attempt > ro_maxRetries opts then (Threw e, [])
          else if \<not> retryable e then (Threw e, [])
          else (case policy_retry opts retryable delay out (attempt + 1) (Some e) of
                  (r, ds) \<Rightarrow> (r, delay (nat attempt) # ds))
      else (case prev of None \<Rightarrow> ThrewUndefined | Some e \<Rightarrow> Threw e, []))"
  by pat_completeness auto
termination by (relation "measure (\<lambda>(opts, retryable, delay, out, attempt, prev). nat (ro_maxRetries opts + 2 - attempt))") auto

definition withNetworkRetry ::
  "policy_choice \<Rightarrow> bool \<Rightarrow> (nat \<Rightarrow> rat) \<Rightarrow> ('e \<Rightarrow> bool) \<Rightarrow> (nat \<Rightarrow> 'e + 'a)
     \<Rightarrow> preset_error + ('e, 'a) retry_end \<times> number list" where
  "withNetworkRetry policy jitter rnd retryable out =
     (case resolveRetryPolicy policy of
        Inl e \<Rightarrow> Inl e
      | Inr given \<Rightarrow> (let opts = fill_options DEFAULT_RETRY_POLICY given in
          Inr (policy_retry opts retryable
            (\<lambda>n. calculateRetryDelay jitter (rnd n) n (ro_baseDelayMs opts) (ro_exponential opts) (ro_maxDelayMs opts)) out 1 None)))"

definition createRetryPolicyWrapper ::
  "policy_choice \<Rightarrow> policy_choice \<Rightarrow> bool \<Rightarrow> (nat \<Rightarrow> rat) \<Rightarrow> ('e \<Rightarrow> bool) \<Rightarrow> (nat \<Rightarrow> 'e + 'a)
     \<Rightarrow> preset_error + ('e, 'a) retry_end \<times> number list" where
  "createRetryPolicyWrapper defaultPolicy overridePolicy =
     withNetworkRetry (case overridePolicy of NoPolicy \<Rightarrow> defaultPolicy | p \<Rightarrow> p)"

text \<open>\<open>stellar/src/retry.ts\<close>: the prev error is wrapped with the number of attempts.\<close>

datatype 'e stellar_failure = Original 'e | RetryExhausted int "'e option"

function stellar_retry ::
  "retry_options \<Rightarrow> ('e \<Rightarrow> bool) option \<Rightarrow> (nat \<Rightarrow> 'e + 'a) \<Rightarrow> int \<Rightarrow> 'e option \<Rightarrow> ('e stellar_failure + 'a) \<times> int list" where
  "stellar_retry opts isRetryable out attempt prev =
     (if attempt \<le> ro_maxRetries opts + 1
      then case out (nat attempt - 1) of
        Inr v \<Rightarrow> (Inr v, [])
      | Inl e \<Rightarrow>
          if attempt > ro_maxRetries opts then (Inl (RetryExhausted attempt (Some e)), [])
          else if (case isRetryable of None \<Rightarrow> False | Some p \<Rightarrow> \<not> p e) then (Inl (Original e), [])
          else (case stellar_retry opts isRetryable out (attempt + 1) (Some e) of
                  (r, ds) \<Rightarrow> (r, calculateDelay (nat attempt) (ro_baseDelayMs opts) (ro_exponential opts) (ro_maxDelayMs opts) # ds))
      else (Inl (RetryExhausted (ro_maxRetries opts + 1) prev), []))"
  by pat_completeness auto
termination by (relation "measure (\<lambda>(opts, p, out, attempt, prev). nat (ro_maxRetries opts + 2 - attempt))") auto

definition stellar_withRetry ::
  "retry_given \<Rightarrow> ('e \<Rightarrow> bool) option \<Rightarrow> (nat \<Rightarrow> 'e + 'a) \<Rightarrow> ('e stellar_failure + 'a) \<times> int list" where
  "stellar_withRetry given isRetryable out =
     stellar_retry (fill_options STELLAR_DEFAULT_OPTIONS given) isRetryable out 1 None"

declare core_retry.simps [simp del] policy_retry.simps [simp del] stellar_retry.simps [simp del]

section \<open>The contract of a bounded retry\<close>

text \<open>
  A loop that from its n-th call on either finishes with what that call gave or sleeps and goes on,
  and finishes at call \<open>bound\<close> at the latest. The client knows: it ends with the first call at which
  it may finish, after one delay for each call before.
\<close>

locale bounded_retry =
  fixes loop :: "nat \<Rightarrow> 'r \<times> 'd list"
    and stops :: "nat \<Rightarrow> bool"
    and ending :: "nat \<Rightarrow> 'r"
    and delay :: "nat \<Rightarrow> 'd"
    and bound :: nat
  assumes at_bound: "stops bound"
    and stop: "n \<le> bound \<Longrightarrow> stops n \<Longrightarrow> loop n = (ending n, [])"
    and go: "n < bound \<Longrightarrow> \<not> stops n \<Longrightarrow> loop n = (fst (loop (Suc n)), delay n # snd (loop (Suc n)))"
begin

lemma from_call:
  assumes "n \<le> bound"
  shows "\<exists>k. n \<le> k \<and> k \<le> bound \<and> stops k \<and> (\<forall>j. n \<le> j \<and> j < k \<longrightarrow> \<not> stops j)
     \<and> loop n = (ending k, map delay [n..<k])"
  using assms
proof (induction rule: inc_induct)
  case base
  then show ?case using stop [OF order_refl at_bound] at_bound by (intro exI [of _ bound]) auto
next
  case (step n)
  show ?case
  proof (cases "stops n")
    case True
    with stop [of n] step.hyps show ?thesis by (intro exI [of _ n]) auto
  next
    case False
    from step.IH obtain k where k: "Suc n \<le> k" "k \<le> bound" "stops k" "\<forall>j. Suc n \<le> j \<and> j < k \<longrightarrow> \<not> stops j"
      "loop (Suc n) = (ending k, map delay [Suc n..<k])" by blast
    have "\<not> stops j" if "n \<le> j \<and> j < k" for j
      using k(4) False that by (cases "j = n") auto
    moreover have "loop n = (ending k, map delay [n..<k])"
      using go [OF step.hyps(2) False] k(1,5) by (simp add: upt_conv_Cons)
    ultimately show ?thesis using k(1-3) by (intro exI [of _ k]) auto
  qed
qed

lemma first_stop:
  "\<exists>k \<le> bound. stops k \<and> (\<forall>j < k. \<not> stops j) \<and> loop 0 = (ending k, map delay [0..<k])"
  using from_call [of 0] by auto

lemma sleeps: "\<exists>k \<le> bound. snd (loop 0) = map delay [0..<k]"
  using first_stop by auto

lemma ends_at: "stops k \<Longrightarrow> \<forall>j < k. \<not> stops j \<Longrightarrow> loop 0 = (ending k, map delay [0..<k])"
  using first_stop by (metis linorder_neqE_nat)

end

section \<open>The three loops keep the contract\<close>

lemma core_retry_prev: "attempt \<le> ro_maxRetries opts \<Longrightarrow>
    core_retry opts retryable delay out attempt p = core_retry opts retryable delay out attempt q"
  by (subst (1 2) core_retry.simps) simp

lemma policy_retry_prev: "attempt \<le> ro_maxRetries opts + 1 \<Longrightarrow>
    policy_retry opts retryable delay out attempt p = policy_retry opts retryable delay out attempt q"
  by (subst (1 2) policy_retry.simps) simp

lemma stellar_retry_prev: "attempt \<le> ro_maxRetries opts + 1 \<Longrightarrow>
    stellar_retry opts isRetryable out attempt p = stellar_retry opts isRetryable out attempt q"
  by (subst (1 2) stellar_retry.simps) simp

definition gives_up :: "('e \<Rightarrow> bool) \<Rightarrow> 'e + 'a \<Rightarrow> bool" where
  "gives_up retryable r = (case r of Inr _ \<Rightarrow> True | Inl e \<Rightarrow> \<not> retryable e)"

definition ends_with :: "'e + 'a \<Rightarrow> ('e, 'a) retry_end" where
  "ends_with r = (case r of Inr v \<Rightarrow> Returned v | Inl e \<Rightarrow> Threw e)"

definition stellar_ends :: "nat \<Rightarrow> nat \<Rightarrow> 'e + 'a \<Rightarrow> 'e stellar_failure + 'a" where
  "stellar_ends bound n r = (case r of Inr v \<Rightarrow> Inr v
     | Inl e \<Rightarrow> Inl (if n = bound then RetryExhausted (int bound + 1) (Some e) else Original e))"

lemma keeps_trying: "\<not> (n = m \<or> gives_up retryable r) \<Longrightarrow> \<exists>e. r = Inl e \<and> retryable e"
  by (cases r) (auto simp: gives_up_def)

lemma call_number: "nat (int n + 1) = Suc n" "nat (1 + int n) = Suc n"
  by simp_all

lemmas loop_step = call_number gives_up_def case_prod_unfold ac_simps

interpretation core: bounded_retry
  "\<lambda>n. core_retry (opts\<lparr>ro_maxRetries := int m\<rparr>) retryable delay out (int n) None"
  "\<lambda>n. n = m \<or> gives_up retryable (out n)" "\<lambda>n. ends_with (out n)" delay m
  for opts retryable delay out m
proof
  fix n
  let ?loop = "core_retry (opts\<lparr>ro_maxRetries := int m\<rparr>) retryable delay out"
  show "?loop (int n) None = (ends_with (out n), [])"
    if "n \<le> m" "n = m \<or> gives_up retryable (out n)"
    using that by (subst core_retry.simps) (auto simp: gives_up_def ends_with_def split: sum.splits)
  show "?loop (int n) None = (fst (?loop (int (Suc n)) None), delay n # snd (?loop (int (Suc n)) None))"
    if n: "n < m" "\<not> (n = m \<or> gives_up retryable (out n))"
  proof -
    from keeps_trying [OF n(2)] obtain e where e: "out n = Inl e" "retryable e" by blast
    have "?loop (int n + 1) (Some e) = ?loop (int n + 1) None" using n by (intro core_retry_prev) simp
    with e n show ?thesis by (subst core_retry.simps) (simp add: loop_step)
  qed
qed simp

interpretation policy: bounded_retry
  "\<lambda>n. policy_retry (opts\<lparr>ro_maxRetries := int m\<rparr>) retryable delay out (int n + 1) None"
  "\<lambda>n. n = m \<or> gives_up retryable (out n)" "\<lambda>n. ends_with (out n)" "\<lambda>n. delay (Suc n)" m
  for opts retryable delay out m
proof
  fix n
  let ?loop = "policy_retry (opts\<lparr>ro_maxRetries := int m\<rparr>) retryable delay out"
  show "?loop (int n + 1) None = (ends_with (out n), [])"
    if "n \<le> m" "n = m \<or> gives_up retryable (out n)"
    using that by (subst policy_retry.simps) (auto simp: call_number gives_up_def ends_with_def split: sum.splits)
  show "?loop (int n + 1) None = (fst (?loop (int (Suc n) + 1) None), delay (Suc n) # snd (?loop (int (Suc n) + 1) None))"
    if n: "n < m" "\<not> (n = m \<or> gives_up retryable (out n))"
  proof -
    from keeps_trying [OF n(2)] obtain e where e: "out n = Inl e" "retryable e" by blast
    have "?loop (int n + 1 + 1) (Some e) = ?loop (int n + 1 + 1) None" using n by (intro policy_retry_prev) simp
    with e n show ?thesis by (subst policy_retry.simps) (simp add: loop_step)
  qed
qed simp

interpretation stellar: bounded_retry
  "\<lambda>n. stellar_retry (opts\<lparr>ro_maxRetries := int m\<rparr>) (Some retryable) out (int n + 1) None"
  "\<lambda>n. n = m \<or> gives_up retryable (out n)" "\<lambda>n. stellar_ends m n (out n)"
  "\<lambda>n. calculateDelay (Suc n) (ro_baseDelayMs opts) (ro_exponential opts) (ro_maxDelayMs opts)" m
  for opts retryable out m
proof
  fix n
  let ?loop = "stellar_retry (opts\<lparr>ro_maxRetries := int m\<rparr>) (Some retryable) out"
  let ?delay = "\<lambda>n. calculateDelay (Suc n) (ro_baseDelayMs opts) (ro_exponential opts) (ro_maxDelayMs opts)"
  show "?loop (int n + 1) None = (stellar_ends m n (out n), [])"
    if "n \<le> m" "n = m \<or> gives_up retryable (out n)"
    using that by (subst stellar_retry.simps) (auto simp: call_number gives_up_def stellar_ends_def split: sum.splits)
  show "?loop (int n + 1) None = (fst (?loop (int (Suc n) + 1) None), ?delay n # snd (?loop (int (Suc n) + 1) None))"
    if n: "n < m" "\<not> (n = m \<or> gives_up retryable (out n))"
  proof -
    from keeps_trying [OF n(2)] obtain e where e: "out n = Inl e" "retryable e" by blast
    have "?loop (int n + 1 + 1) (Some e) = ?loop (int n + 1 + 1) None" using n by (intro stellar_retry_prev) simp
    with e n show ?thesis by (subst stellar_retry.simps) (simp add: loop_step)
  qed
qed simp

lemma with_nat_retries: "0 \<le> ro_maxRetries opts \<Longrightarrow> opts\<lparr>ro_maxRetries := int (nat (ro_maxRetries opts))\<rparr> = opts"
  by simp

lemma no_retries_left:
  assumes "ro_maxRetries opts < 0"
  shows "core_retry opts retryable delay out 0 None = (ThrewUndefined, [])"
    and "policy_retry opts retryable delay out 1 None = (ThrewUndefined, [])"
    and "stellar_retry opts isRetryable out 1 None = (Inl (RetryExhausted (ro_maxRetries opts + 1) None), [])"
  using assms by (subst core_retry.simps policy_retry.simps stellar_retry.simps; simp)+

section \<open>Bounds on the delays\<close>

lemma whole_num [simp]: "num_min (Fin (of_int a)) (whole b) = whole (min a b)" "num_max (whole a) (whole b) = whole (max a b)"
    "num_min (whole a) (whole b) = whole (min a b)"
  by (auto simp: num_min_def num_max_def whole_def min_def max_def)

lemma math_round_whole [simp]: "math_round (whole n) = whole n"
proof -
  have "\<lfloor>of_int n + 1 / 2 :: rat\<rfloor> = n" by linarith
  then show ?thesis by (simp add: whole_def)
qed

lemma capped_round: "\<exists>d. num_max (whole 0) (num_min (math_round (Fin y)) (whole cap)) = whole d \<and> 0 \<le> d \<and> d \<le> max 0 cap"
  by simp (auto simp: max_def)

lemma calculateDelay_bounds:
  assumes "0 \<le> base" "0 \<le> cap" shows "0 \<le> calculateDelay attempt base ex cap" "calculateDelay attempt base ex cap \<le> cap"
  using assms by (simp_all add: calculateDelay_def)

lemma num_mul_bounded:
  assumes "\<bar>x\<bar> \<le> of_int m" "\<bar>y\<bar> \<le> of_int n" "m * n < 2 ^ 53"
  shows "\<exists>z. num_mul (Fin x) (Fin y) = Fin z \<and> \<bar>z\<bar> \<le> of_int (m * n)"
proof -
  have "\<bar>x * y\<bar> \<le> of_int m * of_int n" unfolding abs_mult
    using assms(1,2) by (intro mult_mono) (auto intro: order_trans [OF abs_ge_zero])
  then show ?thesis using f64_bounded [of "x * y" "m * n"] assms(3) by auto
qed

lemma num_add_bounded:
  assumes "\<bar>x\<bar> \<le> of_int m" "\<bar>y\<bar> \<le> of_int n" "m + n < 2 ^ 53"
  shows "\<exists>z. num_add (Fin x) (Fin y) = Fin z \<and> \<bar>z\<bar> \<le> of_int (m + n)"
proof -
  have "\<bar>x + y\<bar> \<le> of_int (m + n)" using assms(1,2) abs_triangle_ineq [of x y] by simp
  then show ?thesis using f64_bounded [of "x + y" "m + n"] assms(3) by auto
qed

lemma policy_factor:
  assumes "0 \<le> rnd" "rnd < 1"
  shows "\<exists>z. num_add (f64 (8/10)) (num_mul (Fin rnd) (f64 (4/10))) = Fin z \<and> \<bar>z\<bar> \<le> of_int 2"
proof -
  obtain a b where a: "f64 (8/10) = Fin a" "\<bar>a\<bar> \<le> of_int 1" and b: "f64 (4/10) = Fin b" "\<bar>b\<bar> \<le> of_int 1"
    using f64_bounded [of "8/10" 1] f64_bounded [of "4/10" 1] by auto
  obtain z where z: "num_mul (Fin rnd) (Fin b) = Fin z" "\<bar>z\<bar> \<le> of_int (1 * 1)"
    using num_mul_bounded [of rnd 1 b 1] assms b by auto
  show ?thesis using num_add_bounded [of a 1 z 1] a z b by auto
qed

lemma core_factor:
  assumes "0 \<le> rnd" "rnd < 1" "\<bar>f\<bar> \<le> 1"
  shows "\<exists>z. num_add (Fin 1) (num_mul (num_add (f64 (rnd * 2)) (Fin (-1))) (Fin f)) = Fin z \<and> \<bar>z\<bar> \<le> of_int 4"
proof -
  obtain a where a: "f64 (rnd * 2) = Fin a" "\<bar>a\<bar> \<le> of_int 2"
    using f64_bounded [of "rnd * 2" 2] assms by auto
  obtain b where b: "num_add (Fin a) (Fin (-1)) = Fin b" "\<bar>b\<bar> \<le> of_int (2 + 1)"
    using num_add_bounded [of a 2 "-1" 1] a by auto
  obtain c where c: "num_mul (Fin b) (Fin f) = Fin c" "\<bar>c\<bar> \<le> of_int (3 * 1)"
    using num_mul_bounded [of b 3 f 1] assms b by auto
  show ?thesis using num_add_bounded [of 1 1 c 3] a(1) b(1) c by auto
qed

lemma jitter_factor_small: "(case j of JitterBy x \<Rightarrow> \<bar>x\<bar> \<le> 1 | _ \<Rightarrow> True) \<Longrightarrow> jitter_factor j = Some f \<Longrightarrow> \<bar>f\<bar> \<le> 1"
  using f64_bounded [of "1/10" 1] by (auto simp: jitter_factor_def split: jitter_choice.splits if_splits)

lemma jittered_delay:
  assumes "0 \<le> d" "d \<le> cap" "cap < 2 ^ 51" "\<bar>z\<bar> \<le> of_int 4"
  shows "\<exists>y. num_mul (whole d) (Fin z) = Fin y"
proof -
  have "d * 4 < 2 ^ 53" using assms(2,3) by simp
  then show ?thesis using num_mul_bounded [of "of_int d" d z 4] assms by (auto simp: whole_def)
qed

lemma policy_delay_bounds:
  assumes "0 \<le> rnd" "rnd < 1" "0 \<le> base" "0 \<le> cap" "cap < 2 ^ 51"
  shows "\<exists>d. calculateRetryDelay jitter rnd attempt base ex cap = whole d \<and> 0 \<le> d \<and> d \<le> cap"
proof (cases jitter)
  case True
  obtain z where z: "num_add (f64 (8/10)) (num_mul (Fin rnd) (f64 (4/10))) = Fin z" "\<bar>z\<bar> \<le> of_int 4"
    using policy_factor [OF assms(1,2)] by auto
  obtain y where "num_mul (whole (calculateDelay attempt base ex cap)) (Fin z) = Fin y"
    using jittered_delay [OF calculateDelay_bounds [OF assms(3,4)] assms(5) z(2)] by blast
  with True z(1) capped_round [of y cap] assms(4) show ?thesis
    by (simp add: calculateRetryDelay_def Let_def)
next
  case False
  with calculateDelay_bounds [OF assms(3,4), of attempt ex] show ?thesis
    by (auto simp: calculateRetryDelay_def Let_def)
qed

lemma core_delay_bounds:
  assumes "0 \<le> rnd" "rnd < 1" "0 \<le> base" "0 \<le> cap" "cap < 2 ^ 51" "case jitter of JitterBy x \<Rightarrow> \<bar>x\<bar> \<le> 1 | _ \<Rightarrow> True"
  shows "\<exists>d. calculateBackoffDelay jitter rnd attempt base ex cap = whole d \<and> 0 \<le> d \<and> d \<le> cap"
proof -
  define d where "d = calculateDelay (Suc attempt) base ex cap"
  have c: "calculateBackoffDelay jitter rnd attempt base ex cap =
      (case jitter_factor jitter of None \<Rightarrow> num_max (whole 0) (num_min (math_round (whole d)) (whole cap))
       | Some f \<Rightarrow> num_max (whole 0) (num_min (math_round (num_mul (whole d) (num_add (Fin 1)
           (num_mul (num_add (f64 (rnd * 2)) (Fin (-1))) (Fin f))))) (whole cap)))"
    by (simp add: calculateBackoffDelay_def calculateDelay_def d_def Let_def split: option.split)
  show ?thesis
  proof (cases "jitter_factor jitter")
    case None
    with c capped_round [of "of_int d" cap] assms(4) show ?thesis by (simp add: whole_def)
  next
    case (Some f)
    obtain z where z: "num_add (Fin 1) (num_mul (num_add (f64 (rnd * 2)) (Fin (-1))) (Fin f)) = Fin z" "\<bar>z\<bar> \<le> of_int 4"
      using core_factor [OF assms(1,2) jitter_factor_small [OF assms(6) Some]] by blast
    obtain y where y: "num_mul (whole d) (Fin z) = Fin y"
      using jittered_delay [OF calculateDelay_bounds [OF assms(3,4)] assms(5) z(2)] d_def by blast
    show ?thesis using capped_round [of y cap] c assms(4) unfolding Some z(1) y option.case by simp
  qed
qed

section \<open>Properties\<close>

text \<open>
  \<open>withRetry\<close> of the SDK ends, whatever the operation does: with the first call that succeeds
  or fails with an error it does not retry, and with the call numbered \<open>maxRetries\<close> at the latest. Until
  then every call failed with a retryable error and was followed by one sleep.
\<close>

theorem retry_ends_at_first_stop:
  assumes "opts = fill_options DEFAULT_RETRY_OPTIONS given" "0 \<le> ro_maxRetries opts"
  shows "\<exists>k. int k \<le> ro_maxRetries opts \<and> (int k = ro_maxRetries opts \<or> gives_up retryable (out k))
    \<and> (\<forall>j < k. \<exists>e. out j = Inl e \<and> retryable e)
    \<and> withRetry given jitter rnd retryable out =
        (ends_with (out k), map (\<lambda>n. calculateBackoffDelay jitter (rnd n) n (ro_baseDelayMs opts)
           (ro_exponential opts) (ro_maxDelayMs opts)) [0..<k])"
proof -
  let ?m = "nat (ro_maxRetries opts)"
  let ?d = "\<lambda>n. calculateBackoffDelay jitter (rnd n) n (ro_baseDelayMs opts) (ro_exponential opts) (ro_maxDelayMs opts)"
  obtain k where k: "k \<le> ?m" "k = ?m \<or> gives_up retryable (out k)" "\<forall>j < k. \<not> (j = ?m \<or> gives_up retryable (out j))"
    "core_retry opts retryable ?d out 0 None = (ends_with (out k), map ?d [0..<k])"
    using core.first_stop [of ?m retryable out opts ?d] with_nat_retries [OF assms(2)] by auto
  have "\<forall>j < k. \<exists>e. out j = Inl e \<and> retryable e"
  proof (intro allI impI)
    fix j assume "j < k"
    with k(3) show "\<exists>e. out j = Inl e \<and> retryable e" by (cases "out j") (auto simp: gives_up_def)
  qed
  with k(1,2,4) assms show ?thesis by (intro exI [of _ k]) (auto simp: withRetry_def Let_def)
qed

lemma retry_ends_at_first_stop_witness:
  "withRetry LOW_LATENCY JitterOff (\<lambda>_. 0) (\<lambda>e. e = (7::int)) (\<lambda>n. if n < 2 then Inl 7 else Inr ''ok'')
     = (Returned ''ok'', [whole 200, whole 200])"
proof -
  define out :: "nat \<Rightarrow> int + string" where "out = (\<lambda>n. if n < 2 then Inl 7 else Inr ''ok'')"
  have o: "fill_options DEFAULT_RETRY_OPTIONS LOW_LATENCY = \<lparr>ro_maxRetries = 2, ro_baseDelayMs = 200, ro_maxDelayMs = 10000, ro_exponential = False\<rparr>"
    by code_simp
  have d: "calculateBackoffDelay JitterOff 0 n 200 False 10000 = whole 200" for n
    by (simp add: calculateBackoffDelay_def jitter_factor_def)
  have "0 \<le> ro_maxRetries (fill_options DEFAULT_RETRY_OPTIONS LOW_LATENCY)" by (simp add: o)
  from retry_ends_at_first_stop [where given = LOW_LATENCY and jitter = JitterOff and rnd = "\<lambda>_. 0"
        and retryable = "\<lambda>e. e = 7" and out = out, OF refl this]
  obtain k where k: "int k \<le> 2" "int k = 2 \<or> gives_up (\<lambda>e. e = 7) (out k)"
    "withRetry LOW_LATENCY JitterOff (\<lambda>_. 0) (\<lambda>e. e = 7) out = (ends_with (out k), map (\<lambda>_. whole 200) [0..<k])"
    unfolding o retry_options.select_convs d by blast
  have "k = 2" using k(1,2) by (auto simp: out_def gives_up_def split: if_splits)
  with k(3) show ?thesis by (simp add: out_def ends_with_def numeral_2_eq_2)
qed

text \<open>
  The three retry helpers make the same calls and end alike: given the same number of retries and
  the same test, the SDK's two loops return or throw the same, and the Stellar loop returns the same
  value or throws the same error, wrapped as exhausted exactly when every retry was used up.
\<close>

theorem retry_helpers_agree:
  "fst (policy_retry opts retryable d2 out 1 None) = fst (core_retry opts retryable d1 out 0 None)
   \<and> fst (stellar_retry opts (Some retryable) out 1 None) =
      (case core_retry opts retryable d1 out 0 None of (end, ds) \<Rightarrow>
        (case end of
           Returned v \<Rightarrow> Inr v
         | Threw e \<Rightarrow> Inl (if int (length ds) = ro_maxRetries opts
             then RetryExhausted (ro_maxRetries opts + 1) (Some e) else Original e)
         | ThrewUndefined \<Rightarrow> Inl (RetryExhausted (ro_maxRetries opts + 1) None)))"
proof (cases "0 \<le> ro_maxRetries opts")
  case True
  let ?m = "nat (ro_maxRetries opts)"
  note opts = with_nat_retries [OF True]
  obtain k where k: "k = ?m \<or> gives_up retryable (out k)" "\<forall>j < k. \<not> (j = ?m \<or> gives_up retryable (out j))"
    "core_retry opts retryable d1 out 0 None = (ends_with (out k), map d1 [0..<k])"
    using core.first_stop [of ?m retryable out opts d1] opts by auto
  have p: "policy_retry opts retryable d2 out 1 None = (ends_with (out k), map (\<lambda>n. d2 (Suc n)) [0..<k])"
    using policy.ends_at [OF k(1,2), where opts = opts and delay = d2] opts by simp
  have "fst (stellar_retry opts (Some retryable) out 1 None) = stellar_ends ?m k (out k)"
    using stellar.ends_at [OF k(1,2), where opts = opts] opts by simp
  with p k(3) True show ?thesis
    by (auto simp: stellar_ends_def ends_with_def split: sum.splits)
next
  case False
  then show ?thesis by (simp add: no_retries_left)
qed

text \<open>
  Every sleep of both SDK helpers is a whole number of milliseconds between 0 and the cap, jitter
  included, and there are at most \<open>maxRetries\<close> of them.
\<close>

definition sleeps_ok :: "retry_options \<Rightarrow> number list \<Rightarrow> bool" where
  "sleeps_ok opts ds = (int (length ds) \<le> ro_maxRetries opts
     \<and> list_all (\<lambda>d. case d of Fin x \<Rightarrow> x = of_int \<lfloor>x\<rfloor> \<and> 0 \<le> x \<and> x \<le> of_int (ro_maxDelayMs opts) | _ \<Rightarrow> False) ds)"

lemma sleeps_okI:
  assumes "int k \<le> ro_maxRetries opts" "\<And>n. \<exists>d. f n = whole d \<and> 0 \<le> d \<and> d \<le> ro_maxDelayMs opts"
  shows "sleeps_ok opts (map f [0..<k])"
proof -
  have "case f n of Fin x \<Rightarrow> x = of_int \<lfloor>x\<rfloor> \<and> 0 \<le> x \<and> x \<le> of_int (ro_maxDelayMs opts) | _ \<Rightarrow> False" for n
    using assms(2) [of n] by (auto simp: whole_def)
  with assms(1) show ?thesis by (simp add: sleeps_ok_def list_all_iff)
qed

theorem sleeps_within_cap:
  assumes "0 \<le> ro_maxRetries opts" "0 \<le> ro_baseDelayMs opts" "0 \<le> ro_maxDelayMs opts" "ro_maxDelayMs opts < 2 ^ 51"
    and "\<And>n. 0 \<le> rnd n" "\<And>n. rnd n < 1" "case jitter of JitterBy x \<Rightarrow> \<bar>x\<bar> \<le> 1 | _ \<Rightarrow> True"
  shows "sleeps_ok opts (snd (withRetry (all_given opts) jitter rnd retryable out))
    \<and> (\<exists>r. withNetworkRetry (PolicyOptions (all_given opts)) jittered rnd retryable out = Inr r \<and> sleeps_ok opts (snd r))"
proof -
  let ?m = "nat (ro_maxRetries opts)" and ?b = "ro_baseDelayMs opts" and ?x = "ro_exponential opts" and ?c = "ro_maxDelayMs opts"
  let ?d = "\<lambda>n. calculateBackoffDelay jitter (rnd n) n ?b ?x ?c" and ?p = "\<lambda>n. calculateRetryDelay jittered (rnd n) n ?b ?x ?c"
  note opts = with_nat_retries [OF assms(1)]
  obtain k where k: "k \<le> ?m" "snd (core_retry opts retryable ?d out 0 None) = map ?d [0..<k]"
    using core.sleeps [of ?m opts retryable ?d out] opts by auto
  obtain l where l: "l \<le> ?m" "snd (policy_retry opts retryable ?p out 1 None) = map (\<lambda>n. ?p (Suc n)) [0..<l]"
    using policy.sleeps [of ?m opts retryable ?p out] opts by auto
  have "sleeps_ok opts (map ?d [0..<k])" "sleeps_ok opts (map (\<lambda>n. ?p (Suc n)) [0..<l])"
    using k(1) l(1) assms(1) core_delay_bounds [OF assms(5,6,2,3,4,7)] policy_delay_bounds [OF assms(5,6,2,3,4)]
    by (intro sleeps_okI; simp)+
  with k(2) l(2) show ?thesis by (simp add: withRetry_def withNetworkRetry_def Let_def)
qed

lemma sleeps_within_cap_witness:
  "sleeps_ok DEFAULT_RETRY_OPTIONS (snd (withRetry (all_given DEFAULT_RETRY_OPTIONS) JitterOn (\<lambda>_. 1/2) (\<lambda>_. True) (\<lambda>_. Inl () :: unit + int)))"
  by (rule sleeps_within_cap [where jittered = False, THEN conjunct1]) (simp_all add: DEFAULT_RETRY_OPTIONS_def)

text \<open>
  \<open>withNetworkRetry\<close> never repeats a call that failed with a client error: a status of 400 to
  499 other than 429 (on the error or its response) ends it after that call, with that error, no
  matter what the error's code, name or message look like.
\<close>

theorem client_error_not_repeated:
  assumes "fields_of e = Some f" "policy_status f = Some (whole s)" "400 \<le> s" "s < 500" "s \<noteq> 429"
    and "out 0 = Inl e" "resolveRetryPolicy policy = Inr given" "0 \<le> ro_maxRetries (fill_options DEFAULT_RETRY_POLICY given)"
  shows "withNetworkRetry policy jitter rnd policy_isTransient out = Inr (Threw e, [])"
proof -
  have "\<not> policy_isTransient e"
    using assms(1-5) by (simp add: policy_isTransient_def between_def whole_def num_leq_def)
  with assms(6) have stop: "gives_up policy_isTransient (out 0)" by (simp add: gives_up_def)
  let ?o = "fill_options DEFAULT_RETRY_POLICY given"
  let ?m = "nat (ro_maxRetries ?o)"
  have "policy_retry ?o policy_isTransient d out 1 None = (Threw e, [])" for d
    using policy.ends_at [of 0 ?m policy_isTransient out ?o d] stop with_nat_retries [OF assms(8)] assms(6)
    by (simp add: ends_with_def)
  with assms(7) show ?thesis by (simp add: withNetworkRetry_def Let_def)
qed

lemma client_error_not_repeated_witness:
  "let e = ErrorInstance ''Error'' ''timeout'' (no_fields\<lparr>ef_status := Some (whole 404)\<rparr>) in
   withNetworkRetry (PolicyName ''RELIABLE'') False (\<lambda>_. 0) policy_isTransient (\<lambda>_. Inl e :: net_error + int) = Inr (Threw e, [])"
  unfolding Let_def
  by (rule client_error_not_repeated [where s = 404 and given = RELIABLE and f = "no_fields\<lparr>ef_status := Some (whole 404)\<rparr>"])
    (simp_all add: policy_status_def no_fields_def core_preset_def fill_options_def RELIABLE_def preset_def)

end
