(* ===== verification/AccountSequence.thy ===== *)
theory AccountSequence
  imports RetryLoops Codec
begin

text \<open>
  \<open>packages/stellar/src/account-sequence.ts\<close>: the sequence number of an account, asked of a Horizon
  server with the Stellar retry loop and kept for a short time in a module-wide cache. The server is
  the outcome of its n-th \<open>loadAccount\<close> call (the \<open>sequence\<close> property, or the value thrown); the
  readings of the clock are arguments.
\<close>

section \<open>\<open>BigInt\<close> of a string\<close>

definition digits_in :: "nat \<Rightarrow> string \<Rightarrow> int option" where
  "digits_in base s =
     (let ds = List.map_filter hex_val s in
      if s \<noteq> [] \<and> length ds = length s \<and> list_all (\<lambda>d. d < base) ds then Some (int (numeral_of base ds)) else None)"

definition js_bigint :: "string \<Rightarrow> int option" where
  "js_bigint text' = (case js_trim text' of
       [] \<Rightarrow> Some 0
     | c # s \<Rightarrow>
         if c = CHR ''-'' then map_option uminus (digits_in 10 s)
         else if c = CHR ''+'' then digits_in 10 s
         else if c = CHR ''0'' \<and> s \<noteq> [] \<and> hd s \<in> set ''xX'' then digits_in 16 (tl s)
         else if c = CHR ''0'' \<and> s \<noteq> [] \<and> hd s \<in> set ''oO'' then digits_in 8 (tl s)
         else if c = CHR ''0'' \<and> s \<noteq> [] \<and> hd s \<in> set ''bB'' then digits_in 2 (tl s)
         else digits_in 10 (c # s))"

section \<open>Errors\<close>

datatype sequence_error = AccountMissing string | SequenceNetworkError string "number option"

definition getStatusCode :: "net_error \<Rightarrow> number option" where
  "getStatusCode e = (case fields_of e of None \<Rightarrow> None | Some f \<Rightarrow>
     first_some [ef_statusCode f, ef_status f, ef_responseStatus f])"

definition error_message :: "net_error \<Rightarrow> string option" where
  "error_message e = (case e of ErrorInstance _ m _ \<Rightarrow> Some m | _ \<Rightarrow> None)"

definition convert_error :: "string \<Rightarrow> net_error \<Rightarrow> sequence_error" where
  "convert_error accountId e =
     (if getStatusCode e = Some (whole 404)
         \<or> (case error_message e of None \<Rightarrow> False | Some m \<Rightarrow> js_includes ''Not Found'' m)
      then AccountMissing accountId
      else case error_message e of
        Some m \<Rightarrow> SequenceNetworkError (''Failed to fetch account sequence: '' @ m) (getStatusCode e)
      | None \<Rightarrow> SequenceNetworkError ''Failed to fetch account sequence'' None)"

fun sequence_isRetryable :: "sequence_error \<Rightarrow> bool" where
  "sequence_isRetryable (AccountMissing _) = False"
| "sequence_isRetryable (SequenceNetworkError _ st) =
     (case st of None \<Rightarrow> True | Some s \<Rightarrow> s = whole 429 \<or> num_leq (whole 500) s)"

definition after_retries :: sequence_error where
  "after_retries = SequenceNetworkError ''Failed to fetch account sequence after retries'' None"

section \<open>The lookup\<close>

record cache_entry =
  ce_sequence :: int
  ce_fetchedAt :: int
  ce_expiresAt :: int

record sequence_result =
  sr_sequence :: int
  sr_accountId :: string
  sr_fetchedAt :: int

record sequence_options =
  so_maxRetries :: int
  so_cacheTtlMs :: int

definition DEFAULT_SEQUENCE_OPTIONS :: sequence_options where
  "DEFAULT_SEQUENCE_OPTIONS = \<lparr>so_maxRetries = 3, so_cacheTtlMs = 5000\<rparr>"

type_synonym sequence_cache = "(string, cache_entry) jsmap"

definition clearSequenceCache :: "sequence_cache \<Rightarrow> sequence_cache" where
  "clearSequenceCache _ = []"

definition sequence_retry_options :: "int \<Rightarrow> retry_given" where
  "sequence_retry_options n = no_options\<lparr>rg_maxRetries := Some n, rg_baseDelayMs := Some 200, rg_exponential := Some True\<rparr>"

definition fetch_fresh ::
  "sequence_cache \<Rightarrow> string \<Rightarrow> sequence_options \<Rightarrow> int \<Rightarrow> int \<Rightarrow> (nat \<Rightarrow> net_error + string)
     \<Rightarrow> (sequence_error + sequence_result) \<times> sequence_cache \<times> int list" where
  "fetch_fresh cache accountId opts now2 now3 server =
     (case stellar_withRetry (sequence_retry_options (so_maxRetries opts)) (Some sequence_isRetryable)
         (\<lambda>n. case server n of Inl e \<Rightarrow> Inl (convert_error accountId e) | Inr s \<Rightarrow> Inr s) of
        (Inl (Original e), ds) \<Rightarrow> (Inl e, cache, ds)
      | (Inl (RetryExhausted _ _), ds) \<Rightarrow> (Inl after_retries, cache, ds)
      | (Inr s, ds) \<Rightarrow>
          (case js_bigint s of
             None \<Rightarrow> (Inl after_retries, cache, ds)
           | Some n \<Rightarrow>
               (Inr \<lparr>sr_sequence = n, sr_accountId = accountId, sr_fetchedAt = now3\<rparr>,
                if so_cacheTtlMs opts > 0
                then map_set accountId \<lparr>ce_sequence = n, ce_fetchedAt = now2, ce_expiresAt = now2 + so_cacheTtlMs opts\<rparr> cache
                else cache, ds)))"

text \<open>
  The clock is read at the cache lookup, when the entry is stored and for the result. The delays
  slept come with the result.
\<close>

definition fetchAccountSequence ::
  "sequence_cache \<Rightarrow> string \<Rightarrow> sequence_options \<Rightarrow> int \<times> int \<times> int \<Rightarrow> (nat \<Rightarrow> net_error + string)
     \<Rightarrow> (sequence_error + sequence_result) \<times> sequence_cache \<times> int list" where
  "fetchAccountSequence cache accountId opts clock server = (case clock of (now1, now2, now3) \<Rightarrow>
     (let cached = (if so_cacheTtlMs opts > 0 then map_get cache accountId else None) in
      case cached of
        Some e \<Rightarrow>
          if ce_expiresAt e > now1
          then (Inr \<lparr>sr_sequence = ce_sequence e, sr_accountId = accountId, sr_fetchedAt = ce_fetchedAt e\<rparr>, cache, [])
          else fetch_fresh (map_delete accountId cache) accountId opts now2 now3 server
      | None \<Rightarrow> fetch_fresh cache accountId opts now2 now3 server))"

section \<open>Properties\<close>

text \<open>
  A sequence number that was fetched with caching on is what the next lookup of the account gives
  until its time has passed, whatever server that lookup names and without a call to it.
\<close>

theorem sequence_served_from_cache:
  assumes "fetchAccountSequence cache accountId opts (ta, tb, tc) server = (Inr r, cache', ds)"
    and "map_get cache accountId = None" "0 < so_cacheTtlMs opts"
    and "0 < so_cacheTtlMs opts'" "now1 < tb + so_cacheTtlMs opts"
  shows "fetchAccountSequence cache' accountId opts' (now1, now2, now3) server' =
    (Inr \<lparr>sr_sequence = sr_sequence r, sr_accountId = accountId, sr_fetchedAt = tb\<rparr>, cache', [])"
proof -
  have "fetch_fresh cache accountId opts tb tc server = (Inr r, cache', ds)"
    using assms(1-3) by (simp add: fetchAccountSequence_def)
  then have "map_get cache' accountId
      = Some \<lparr>ce_sequence = sr_sequence r, ce_fetchedAt = tb, ce_expiresAt = tb + so_cacheTtlMs opts\<rparr>"
    using assms(3) by (auto simp: fetch_fresh_def map_get_set
        split: prod.splits sum.splits stellar_failure.splits option.splits)
  with assms(4,5) show ?thesis by (simp add: fetchAccountSequence_def)
qed

lemma sequence_served_from_cache_witness:
  "fetchAccountSequence
     (map_set ''G1'' \<lparr>ce_sequence = 41, ce_fetchedAt = 10, ce_expiresAt = 5010\<rparr> []) ''G1'' DEFAULT_SEQUENCE_OPTIONS
     (5009, 5009, 5009) (\<lambda>_. Inr ''42'')
   = (Inr \<lparr>sr_sequence = 41, sr_accountId = ''G1'', sr_fetchedAt = 10\<rparr>,
      map_set ''G1'' \<lparr>ce_sequence = 41, ce_fetchedAt = 10, ce_expiresAt = 5010\<rparr> [], [])"
  by (rule sequence_served_from_cache [where cache = "[]" and opts = DEFAULT_SEQUENCE_OPTIONS and server = "\<lambda>_. Inr ''41''"
        and ta = 10 and tb = 10 and ds = "[]" and r = "\<lparr>sr_sequence = 41, sr_accountId = ''G1'', sr_fetchedAt = 10\<rparr>" and tc = 10
        , THEN trans]) (code_simp | simp add: DEFAULT_SEQUENCE_OPTIONS_def)+

text \<open>
  C9. What the lookup says of an account that does not exist: after the failures before, which were
  retried, it ends there, unless this was the last call it may make; then the caller is told of a
  network error without a status instead.
\<close>

theorem missing_account_reported:
  assumes "map_get cache accountId = None" "int k \<le> so_maxRetries opts"
    and "\<And>j. j < k \<Longrightarrow> \<exists>e. server j = Inl e \<and> sequence_isRetryable (convert_error accountId e)"
    and "server k = Inl e" "getStatusCode e = Some (whole 404)"
  shows "fetchAccountSequence cache accountId opts clock server =
    (Inl (if int k = so_maxRetries opts then after_retries else AccountMissing accountId), cache,
     map (\<lambda>n. min (200 * 2 ^ n) 30000) [0..<k])"
proof -
  let ?out = "\<lambda>n. case server n of Inl e \<Rightarrow> Inl (convert_error accountId e) | Inr s \<Rightarrow> Inr s"
  let ?o = "fill_options STELLAR_DEFAULT_OPTIONS (sequence_retry_options (so_maxRetries opts))"
  let ?m = "nat (so_maxRetries opts)"
  have o: "ro_maxRetries ?o = so_maxRetries opts" "ro_baseDelayMs ?o = 200" "ro_exponential ?o" "ro_maxDelayMs ?o = 30000"
    by (simp_all add: fill_options_def sequence_retry_options_def no_options_def STELLAR_DEFAULT_OPTIONS_def)
  have m: "0 \<le> so_maxRetries opts" using assms(2) by linarith
  have keep: "?o\<lparr>ro_maxRetries := so_maxRetries opts\<rparr> = ?o" using o(1) by simp
  have out: "?out k = Inl (AccountMissing accountId)" using assms(4,5) by (simp add: convert_error_def)
  then have stop: "k = ?m \<or> gives_up sequence_isRetryable (?out k)" by (simp add: gives_up_def)
  have before: "\<not> (j = ?m \<or> gives_up sequence_isRetryable (?out j))" if "j < k" for j
  proof -
    from assms(3) [OF that] obtain e' where "server j = Inl e'" "sequence_isRetryable (convert_error accountId e')" by blast
    with that assms(2) show ?thesis by (simp add: gives_up_def)
  qed
  have "stellar_retry ?o (Some sequence_isRetryable) ?out 1 None
      = (stellar_ends ?m k (?out k), map (\<lambda>n. min (200 * 2 ^ n) 30000) [0..<k])"
    using stellar.ends_at [of k ?m sequence_isRetryable ?out ?o] stop before m
    by (simp add: o keep calculateDelay_def)
  moreover have "k = ?m \<longleftrightarrow> int k = so_maxRetries opts" using m by auto
  ultimately show ?thesis using assms(1)
    by (cases clock) (simp add: fetchAccountSequence_def fetch_fresh_def stellar_withRetry_def out stellar_ends_def)
qed

lemma missing_account_reported_witness:
  "let e = ErrorInstance ''NotFoundError'' ''Not Found'' (no_fields\<lparr>ef_responseStatus := Some (whole 404)\<rparr>) in
   fetchAccountSequence [] ''G1'' (DEFAULT_SEQUENCE_OPTIONS\<lparr>so_maxRetries := 0\<rparr>) (0, 0, 0) (\<lambda>_. Inl e) = (Inl after_retries, [], [])"
  unfolding Let_def
  using missing_account_reported [where cache = "[]" and k = 0 and opts = "DEFAULT_SEQUENCE_OPTIONS\<lparr>so_maxRetries := 0\<rparr>"
      and e = "ErrorInstance ''NotFoundError'' ''Not Found'' (no_fields\<lparr>ef_responseStatus := Some (whole 404)\<rparr>)"
      and server = "\<lambda>_. Inl (ErrorInstance ''NotFoundError'' ''Not Found'' (no_fields\<lparr>ef_responseStatus := Some (whole 404)\<rparr>))"
      and accountId = "''G1''" and clock = "(0, 0, 0)"]
  by (simp add: getStatusCode_def no_fields_def)

end
