(* ===== verification/SessionPolicy.thy ===== *)
theory SessionPolicy
  imports RetryLoops AccountSequence "HOL-Library.Word"
begin

unbundle bit_operations_syntax

text \<open>
  Session keys on the client side: the permission bit masks and contract vectors of
  \<open>packages/account-abstraction/src/permissions.ts\<close>, the policy check of \<open>validation.ts\<close>, nonce drift
  and the nonce fetch of \<open>nonce-drift.ts\<close>, and the activity test of
  \<open>core-sdk/src/session-key-utils.ts\<close>. Bit masks are the 32-bit integers JavaScript's bit operations
  work on.
\<close>

section \<open>Permissions\<close>

datatype session_permission = SEND_PAYMENT | MANAGE_DATA | INVOKE_CONTRACT

fun perm_index :: "session_permission \<Rightarrow> nat" where
  "perm_index SEND_PAYMENT = 0"
| "perm_index MANAGE_DATA = 1"
| "perm_index INVOKE_CONTRACT = 2"

definition PERM_BITS :: "session_permission \<Rightarrow> 32 word" where
  "PERM_BITS p = push_bit (perm_index p) 1"

definition PERMISSION_EXECUTE :: nat where
  "PERMISSION_EXECUTE = 1"

definition ALL_SESSION_PERMISSIONS :: "session_permission list" where
  "ALL_SESSION_PERMISSIONS = [SEND_PAYMENT, MANAGE_DATA, INVOKE_CONTRACT]"

definition permissionsToBitmask :: "session_permission list \<Rightarrow> 32 word" where
  "permissionsToBitmask perms = foldl (\<lambda>mask p. mask OR PERM_BITS p) 0 perms"

definition hasPermission :: "32 word \<Rightarrow> session_permission \<Rightarrow> bool" where
  "hasPermission bitmask p = (bitmask AND PERM_BITS p \<noteq> 0)"

definition bitmaskToPermissions :: "32 word \<Rightarrow> session_permission list" where
  "bitmaskToPermissions bitmask = filter (hasPermission bitmask) ALL_SESSION_PERMISSIONS"

definition permissionsToContractVec :: "session_permission list \<Rightarrow> nat list" where
  "permissionsToContractVec perms = sort (remdups (map perm_index perms))"

definition perm_of :: "nat \<Rightarrow> session_permission option" where
  "perm_of n = map_of (map (\<lambda>p. (perm_index p, p)) ALL_SESSION_PERMISSIONS) n"

definition contractVecToPermissions :: "nat list \<Rightarrow> session_permission list" where
  "contractVecToPermissions v = List.map_filter perm_of v"

definition bitmaskToContractVec :: "32 word \<Rightarrow> nat list" where
  "bitmaskToContractVec bitmask = permissionsToContractVec (bitmaskToPermissions bitmask)"

definition togglePermission :: "32 word \<Rightarrow> session_permission \<Rightarrow> 32 word" where
  "togglePermission bitmask p =
     (if hasPermission bitmask p then bitmask AND NOT (PERM_BITS p) else bitmask OR PERM_BITS p)"

lemma perm_index_inj: "perm_index a = perm_index b \<longleftrightarrow> a = b"
  by (cases a; cases b) simp_all

lemma perm_index_less: "perm_index p < 32"
  by (cases p) simp_all

lemma perm_index_less3: "perm_index p < 3"
  by (cases p) simp_all

lemma perm_index_onto: "n < 3 \<Longrightarrow> \<exists>p. perm_index p = n"
proof -
  assume "n < 3"
  then have "n = perm_index SEND_PAYMENT \<or> n = perm_index MANAGE_DATA \<or> n = perm_index INVOKE_CONTRACT" by auto
  then show ?thesis by blast
qed

lemma perm_of_index [simp]: "perm_of (perm_index p) = Some p"
  by (cases p) (simp_all add: perm_of_def ALL_SESSION_PERMISSIONS_def)

lemma in_ALL [simp]: "p \<in> set ALL_SESSION_PERMISSIONS"
  by (cases p) (simp_all add: ALL_SESSION_PERMISSIONS_def)

lemma bit_PERM_BITS: "bit (PERM_BITS p) n \<longleftrightarrow> n = perm_index p"
  using perm_index_less [of p] by (auto simp: PERM_BITS_def bit_exp_iff)

lemma hasPermission_bit: "hasPermission b p \<longleftrightarrow> bit b (perm_index p)"
proof -
  have "b AND PERM_BITS p = 0 \<longleftrightarrow> \<not> bit b (perm_index p)"
    using perm_index_less [of p] by (auto simp: bit_eq_iff [of "b AND PERM_BITS p"] bit_and_iff bit_PERM_BITS)
  then show ?thesis by (simp add: hasPermission_def)
qed

lemma bit_togglePermission: "bit (togglePermission b p) n = (if n = perm_index p then \<not> bit b n else bit b n)"
proof (cases "n < 32")
  case True
  then show ?thesis
    by (simp add: togglePermission_def hasPermission_bit bit_and_iff bit_or_iff bit_not_iff bit_PERM_BITS)
next
  case False
  then have "\<not> bit x n" for x :: "32 word" by (auto dest: bit_imp_le_length)
  with False perm_index_less [of p] show ?thesis by auto
qed

lemma bit_permissionsToBitmask: "bit (permissionsToBitmask ps) n \<longleftrightarrow> n \<in> perm_index ` set ps"
proof -
  have "bit (foldl (\<lambda>mask p. mask OR PERM_BITS p) m ps) n \<longleftrightarrow> bit m n \<or> n \<in> perm_index ` set ps" for m
    by (induction ps arbitrary: m) (auto simp: bit_or_iff bit_PERM_BITS)
  then show ?thesis by (simp add: permissionsToBitmask_def)
qed

lemma hasPermission_mask [simp]: "hasPermission (permissionsToBitmask ps) p \<longleftrightarrow> p \<in> set ps"
  by (auto simp: hasPermission_bit bit_permissionsToBitmask perm_index_inj)

lemma sorted_ALL: "sorted_wrt (\<lambda>a b. perm_index a < perm_index b) ALL_SESSION_PERMISSIONS"
  by (simp add: ALL_SESSION_PERMISSIONS_def)

text \<open>
  The three representations of a set of permissions carry the same information: a mask made of a
  list has exactly the list's permissions, giving them back in the contract's order; the contract
  vector made from the mask is the one made from the list, and reads back as these permissions.
\<close>

theorem permission_representations:
  "set (bitmaskToPermissions (permissionsToBitmask ps)) = set ps
   \<and> bitmaskToContractVec (permissionsToBitmask ps) = permissionsToContractVec ps
   \<and> contractVecToPermissions (permissionsToContractVec ps) = bitmaskToPermissions (permissionsToBitmask ps)
   \<and> permissionsToBitmask (bitmaskToPermissions b) = b AND 7"
proof (intro conjI)
  let ?again = "bitmaskToPermissions (permissionsToBitmask ps)"
  have fn: "hasPermission (permissionsToBitmask ps) = (\<lambda>p. p \<in> set ps)" by (rule ext) simp
  show s: "set ?again = set ps" by (auto simp: bitmaskToPermissions_def)
  have vec: "permissionsToContractVec qs = map perm_index (filter (\<lambda>p. p \<in> set qs) ALL_SESSION_PERMISSIONS)" for qs
  proof -
    have "sorted (map perm_index (filter (\<lambda>p. p \<in> set qs) ALL_SESSION_PERMISSIONS))"
      "distinct (map perm_index (filter (\<lambda>p. p \<in> set qs) ALL_SESSION_PERMISSIONS))"
      by (simp_all add: ALL_SESSION_PERMISSIONS_def)
    then show ?thesis unfolding permissionsToContractVec_def
      by (intro sorted_distinct_set_unique) auto
  qed
  show "bitmaskToContractVec (permissionsToBitmask ps) = permissionsToContractVec ps"
    by (simp add: bitmaskToContractVec_def vec s)
  have "List.map_filter perm_of (map perm_index qs) = qs" for qs
    by (induction qs) (simp_all add: List.map_filter_def)
  then show "contractVecToPermissions (permissionsToContractVec ps) = ?again"
    by (simp add: contractVecToPermissions_def vec bitmaskToPermissions_def fn)
  show "permissionsToBitmask (bitmaskToPermissions b) = b AND 7"
  proof (rule bit_word_eqI)
    fix n
    have "bit (7::32 word) n \<longleftrightarrow> n < 3"
      using bit_mask_iff [of 3 n, where 'a = "32 word"] by (auto simp: mask_eq_exp_minus_1)
    moreover have "n \<in> perm_index ` {p. bit b (perm_index p)} \<longleftrightarrow> bit b n \<and> n < 3"
    proof
      assume n: "bit b n \<and> n < 3"
      then obtain p where "perm_index p = n" using perm_index_onto by blast
      with n show "n \<in> perm_index ` {p. bit b (perm_index p)}" by blast
    qed (auto simp: perm_index_less3)
    ultimately show "bit (permissionsToBitmask (bitmaskToPermissions b)) n \<longleftrightarrow> bit (b AND 7) n"
      by (simp add: bit_permissionsToBitmask bitmaskToPermissions_def hasPermission_bit bit_and_iff)
  qed
qed

text \<open>
  Toggling a permission changes it and no other, and toggling it twice changes nothing.
\<close>

theorem toggle_permission:
  "hasPermission (togglePermission b p) q = (if q = p then \<not> hasPermission b p else hasPermission b q)
   \<and> togglePermission (togglePermission b p) p = b"
proof
  show "hasPermission (togglePermission b p) q = (if q = p then \<not> hasPermission b p else hasPermission b q)"
    by (simp add: hasPermission_bit bit_togglePermission perm_index_inj)
  show "togglePermission (togglePermission b p) p = b"
    by (simp add: bit_eq_iff [of _ b] bit_togglePermission)
qed

section \<open>The policy check\<close>

text \<open>The messages of the errors are left out: each is fixed by the code and the field.\<close>

datatype policy_code = INVALID_EXPIRES_AT | EXPIRED | INVALID_PERMISSION | DUPLICATE_PERMISSION | INVALID_AMOUNT
  | INVALID_SPEND_WINDOW | INVALID_ALLOWED_CONTRACTS

datatype policy_field = FExpiresAt | FPermissions | FMaxAmountPerCall | FCumulativeLimit | FSpendWindow | FAllowedContracts

datatype policy_amount = BigAmount int | NumAmount number | TextAmount string

datatype policy_permissions = PermList "number list" | PermMask number | PermOther

datatype policy_contracts = NoContracts | ContractList "string list" | ContractsOther

record session_policy =
  pol_expiresAt :: number
  pol_permissions :: policy_permissions
  pol_maxAmountPerCall :: "policy_amount option"
  pol_cumulativeLimit :: "policy_amount option"
  pol_spendWindow :: "number option"
  pol_allowedContracts :: policy_contracts

definition num_is_integer :: "number \<Rightarrow> bool" where
  "num_is_integer n = (case n of Fin x \<Rightarrow> x = of_int \<lfloor>x\<rfloor> | _ \<Rightarrow> False)"

text \<open>\<open>/^-?\d+$/\<close> on the trimmed text.\<close>

definition is_integer_text :: "string \<Rightarrow> bool" where
  "is_integer_text s = (let d = (case s of c # r \<Rightarrow> if c = CHR ''-'' then r else s | [] \<Rightarrow> [])
     in d \<noteq> [] \<and> list_all is_digit_char d)"

definition toBigInt :: "policy_amount \<Rightarrow> int option" where
  "toBigInt a = (case a of
       BigAmount n \<Rightarrow> Some n
     | NumAmount n \<Rightarrow> (case n of Fin x \<Rightarrow> if x = of_int \<lfloor>x\<rfloor> then Some \<lfloor>x\<rfloor> else None | _ \<Rightarrow> None)
     | TextAmount s \<Rightarrow> if is_integer_text (js_trim s) then js_bigint (js_trim s) else None)"

text \<open>Values above \<open>1e11\<close> are taken for milliseconds.\<close>

definition expiry_seconds :: "number \<Rightarrow> number" where
  "expiry_seconds n = (if num_less (whole 100000000000) n
     then (case n of Fin x \<Rightarrow> (case f64 (x / 1000) of Fin y \<Rightarrow> whole \<lfloor>y\<rfloor> | m \<Rightarrow> m) | m \<Rightarrow> m) else n)"

definition expiry_errors :: "int \<Rightarrow> session_policy \<Rightarrow> (policy_code \<times> policy_field) list" where
  "expiry_errors now p = (let e = expiry_seconds (pol_expiresAt p) in
     if \<not> num_is_integer e \<or> num_leq e (whole 0) then [(INVALID_EXPIRES_AT, FExpiresAt)]
     else if num_leq e (f64 (of_int now / 1000)) then [(EXPIRED, FExpiresAt)] else [])"

definition VALID_PERMISSIONS :: "number list" where
  "VALID_PERMISSIONS = [whole 0, whole 1, whole 2]"

fun permission_walk :: "number list \<Rightarrow> bool \<Rightarrow> bool \<Rightarrow> number list \<Rightarrow> (policy_code \<times> policy_field) list" where
  "permission_walk seen unknownReported duplicateReported [] = []"
| "permission_walk seen unknownReported duplicateReported (p # ps) =
     (if p \<notin> set VALID_PERMISSIONS
      then (if unknownReported then [] else [(INVALID_PERMISSION, FPermissions)])
             @ permission_walk seen True duplicateReported ps
      else let dup = p \<in> set seen \<and> \<not> duplicateReported in
        (if dup then [(DUPLICATE_PERMISSION, FPermissions)] else [])
          @ permission_walk (p # seen) unknownReported (duplicateReported \<or> dup) ps)"

definition permission_errors :: "session_policy \<Rightarrow> (policy_code \<times> policy_field) list" where
  "permission_errors p = (case pol_permissions p of
       PermList ps \<Rightarrow> permission_walk [] False False ps
     | PermMask n \<Rightarrow> if \<not> num_is_integer n \<or> num_less n (whole 0) then [(INVALID_PERMISSION, FPermissions)] else []
     | PermOther \<Rightarrow> [(INVALID_PERMISSION, FPermissions)])"

definition checkAmount :: "policy_field \<Rightarrow> policy_amount option \<Rightarrow> (policy_code \<times> policy_field) list" where
  "checkAmount field raw = (case raw of None \<Rightarrow> [] | Some a \<Rightarrow>
     (case toBigInt a of None \<Rightarrow> [(INVALID_AMOUNT, field)] | Some n \<Rightarrow> if n \<le> 0 then [(INVALID_AMOUNT, field)] else []))"

definition window_errors :: "session_policy \<Rightarrow> (policy_code \<times> policy_field) list" where
  "window_errors p = (let hasLimit = pol_cumulativeLimit p \<noteq> None in
     case pol_spendWindow p of
       Some w \<Rightarrow>
         if \<not> num_is_integer w \<or> num_less w (whole 0) then [(INVALID_SPEND_WINDOW, FSpendWindow)]
         else if num_less (whole 0) w \<and> \<not> hasLimit then [(INVALID_SPEND_WINDOW, FSpendWindow)]
         else if w = whole 0 \<and> hasLimit then [(INVALID_SPEND_WINDOW, FSpendWindow)]
         else []
     | None \<Rightarrow> if hasLimit then [(INVALID_SPEND_WINDOW, FSpendWindow)] else [])"

definition is_contract_text :: "string \<Rightarrow> bool" where
  "is_contract_text s = (case s of [] \<Rightarrow> False | c # r \<Rightarrow> c = CHR ''C'' \<and> length r = 55
     \<and> list_all (\<lambda>d. is_upper_char d \<or> is_digit_char d) r)"

definition contract_errors :: "session_policy \<Rightarrow> (policy_code \<times> policy_field) list" where
  "contract_errors p = (case pol_allowedContracts p of
       NoContracts \<Rightarrow> []
     | ContractsOther \<Rightarrow> [(INVALID_ALLOWED_CONTRACTS, FAllowedContracts)]
     | ContractList cs \<Rightarrow> map (\<lambda>_. (INVALID_ALLOWED_CONTRACTS, FAllowedContracts)) (filter (\<lambda>c. \<not> is_contract_text c) cs))"

definition validateSessionKeyPolicy :: "int \<Rightarrow> session_policy \<Rightarrow> bool \<times> (policy_code \<times> policy_field) list" where
  "validateSessionKeyPolicy now p =
     (let errors = expiry_errors now p @ permission_errors p
        @ checkAmount FMaxAmountPerCall (pol_maxAmountPerCall p) @ checkAmount FCumulativeLimit (pol_cumulativeLimit p)
        @ window_errors p @ contract_errors p
      in (errors = [], errors))"

lemma permission_walk_empty:
  "permission_walk seen False False ps = [] \<longleftrightarrow> set ps \<subseteq> set VALID_PERMISSIONS \<and> distinct ps \<and> set ps \<inter> set seen = {}"
  by (induction ps arbitrary: seen) (auto simp: Let_def)

text \<open>
  A session key policy passes the check exactly when it is well-formed: it expires at a whole
  second in the future, its permissions are distinct known bits or a mask, its caps are positive whole
  amounts, a spend window goes with a cumulative limit and only with one, and the contracts are
  contract addresses.
\<close>

theorem policy_accepted_iff:
  "fst (validateSessionKeyPolicy now p) \<longleftrightarrow>
     (\<exists>e > 0. expiry_seconds (pol_expiresAt p) = whole e \<and> num_less (f64 (of_int now / 1000)) (whole e))
   \<and> (case pol_permissions p of
        PermList ps \<Rightarrow> distinct ps \<and> set ps \<subseteq> {whole 0, whole 1, whole 2}
      | PermMask m \<Rightarrow> \<exists>k \<ge> 0. m = whole k
      | PermOther \<Rightarrow> False)
   \<and> (\<forall>a \<in> set_option (pol_maxAmountPerCall p) \<union> set_option (pol_cumulativeLimit p). \<exists>n > 0. toBigInt a = Some n)
   \<and> (if pol_cumulativeLimit p = None then pol_spendWindow p \<in> {None, Some (whole 0)}
      else \<exists>w > 0. pol_spendWindow p = Some (whole w))
   \<and> (case pol_allowedContracts p of NoContracts \<Rightarrow> True | ContractsOther \<Rightarrow> False
      | ContractList cs \<Rightarrow> list_all is_contract_text cs)"
proof -
  have int: "num_is_integer n \<longleftrightarrow> (\<exists>k. n = whole k)" for n
    by (cases n) (auto simp: num_is_integer_def whole_def)
  have less: "num_less (whole a) (whole b) \<longleftrightarrow> a < b" "num_leq (whole a) (whole b) \<longleftrightarrow> a \<le> b" "whole a = whole b \<longleftrightarrow> a = b" for a b
    by (auto simp: whole_def num_leq_def)
  have f: "f64 x \<noteq> NaN" for x by (simp add: f64_def Let_def)
  have neg: "\<not> num_leq (whole e) (f64 x) \<longleftrightarrow> num_less (f64 x) (whole e)" for e x
    using f [of x] by (cases "f64 x") (auto simp: whole_def num_leq_def)
  have e: "expiry_errors now p = [] \<longleftrightarrow>
      (\<exists>e > 0. expiry_seconds (pol_expiresAt p) = whole e \<and> num_less (f64 (of_int now / 1000)) (whole e))"
    by (auto simp: expiry_errors_def Let_def int less neg [symmetric])
  have q: "permission_errors p = [] \<longleftrightarrow> (case pol_permissions p of
        PermList ps \<Rightarrow> distinct ps \<and> set ps \<subseteq> {whole 0, whole 1, whole 2}
      | PermMask m \<Rightarrow> \<exists>k \<ge> 0. m = whole k | PermOther \<Rightarrow> False)"
    by (auto simp: permission_errors_def permission_walk_empty VALID_PERMISSIONS_def int less not_less
        split: policy_permissions.split)
  have a: "checkAmount f r = [] \<longleftrightarrow> (\<forall>a \<in> set_option r. \<exists>n > 0. toBigInt a = Some n)" for f r
    by (auto simp: checkAmount_def not_le split: option.splits)
  have w: "window_errors p = [] \<longleftrightarrow>
      (if pol_cumulativeLimit p = None then pol_spendWindow p \<in> {None, Some (whole 0)}
       else \<exists>w > 0. pol_spendWindow p = Some (whole w))"
    by (auto simp: window_errors_def Let_def int less not_less split: option.splits)
  have c: "contract_errors p = [] \<longleftrightarrow> (case pol_allowedContracts p of NoContracts \<Rightarrow> True | ContractsOther \<Rightarrow> False
      | ContractList cs \<Rightarrow> list_all is_contract_text cs)"
    by (auto simp: contract_errors_def filter_empty_conv list_all_iff split: policy_contracts.split)
  show ?thesis
    by (simp add: validateSessionKeyPolicy_def Let_def e q a w c ball_Un)
qed

lemma policy_accepted_iff_witness:
  "fst (validateSessionKeyPolicy 1700000000000 \<lparr>pol_expiresAt = whole 1800000000, pol_permissions = PermMask (whole 8),
     pol_maxAmountPerCall = None, pol_cumulativeLimit = Some (BigAmount 5), pol_spendWindow = Some (whole 60),
     pol_allowedContracts = NoContracts\<rparr>)"
proof -
  have "f64 (1700000000000 / 1000) = Fin 1700000000" using f64_int [of 1700000000] by simp
  then show ?thesis
    unfolding policy_accepted_iff
    by (auto simp: whole_def expiry_seconds_def toBigInt_def)
qed

section \<open>Activity of a session key\<close>

datatype inactive_reason = KeyExpired | KeyRevoked

definition isSessionKeyActive :: "int \<Rightarrow> number \<Rightarrow> bool" where
  "isSessionKeyActive nowMs expiresAt =
     (if expiresAt = whole 0 then False else num_less (f64 (of_int nowMs / 1000)) expiresAt)"

definition getSessionKeyInactiveReason :: "int \<Rightarrow> number \<Rightarrow> inactive_reason option" where
  "getSessionKeyInactiveReason nowMs expiresAt =
     (if expiresAt = whole 0 then Some KeyRevoked
      else if num_leq expiresAt (f64 (of_int nowMs / 1000)) then Some KeyExpired else None)"

section \<open>Nonce drift\<close>

definition isValidNonce :: "number \<Rightarrow> bool" where
  "isValidNonce n = (num_is_finite n \<and> num_is_integer n \<and> num_leq (whole 0) n)"

datatype NonceDriftKind = ExactMatch | ObservedAhead | ObservedBehind | ExcessiveDrift | InvalidNonceState

definition detectNonceDrift :: "number \<Rightarrow> number \<Rightarrow> number option \<Rightarrow> NonceDriftKind \<times> number" where
  "detectNonceDrift expected observed given =
     (let threshold = coalesce given (whole 10) in
      if \<not> isValidNonce expected \<or> \<not> isValidNonce observed then (InvalidNonceState, NaN)
      else let delta = num_add observed (num_neg expected) in
        if delta = whole 0 then (ExactMatch, whole 0)
        else if num_less threshold (num_abs delta) then (ExcessiveDrift, delta)
        else if num_less (whole 0) delta then (ObservedAhead, delta)
        else (ObservedBehind, delta))"

section \<open>Fetching the next nonce\<close>

text \<open>
  What the loop throws: the fetcher's error, or its own for a value that is no nonce. The text of the
  latter contains \<open>InvalidNonce\<close> exactly when the account address does: the fixed words before it
  do not, a rendered number has no such letters, and a blank precedes the address.
\<close>

datatype nonce_error = FetcherError net_error | NoNonce number string

definition isInvalidNonce :: "nonce_error \<Rightarrow> bool" where
  "isInvalidNonce e = (case e of
       FetcherError (ErrorInstance _ m _) \<Rightarrow> js_includes ''InvalidNonce'' m
     | FetcherError _ \<Rightarrow> False
     | NoNonce _ address \<Rightarrow> js_includes ''InvalidNonce'' address)"

definition nonce_attempt :: "string \<Rightarrow> net_error + number \<Rightarrow> nonce_error + number" where
  "nonce_attempt address r = (case r of
       Inl e \<Rightarrow> Inl (FetcherError e)
     | Inr current \<Rightarrow> if \<not> isValidNonce current then Inl (NoNonce current address) else Inr (num_add current (whole 1)))"

function nonce_loop ::
  "int \<Rightarrow> int \<Rightarrow> string \<Rightarrow> (nat \<Rightarrow> net_error + number) \<Rightarrow> int \<Rightarrow> nonce_error option
     \<Rightarrow> (nonce_error, number) retry_end \<times> int list" where
  "nonce_loop maxRetries baseDelayMs address fetch attempt prev =
     (if attempt \<le> maxRetries
      then case nonce_attempt address (fetch (nat attempt)) of
        Inr v \<Rightarrow> (Returned v, [])
      | Inl e \<Rightarrow>
          if \<not> isInvalidNonce e \<or> attempt = maxRetries then (Threw e, [])
          else (case nonce_loop maxRetries baseDelayMs address fetch (attempt + 1) (Some e) of
                  (r, ds) \<Rightarrow> (r, baseDelayMs * 2 ^ nat attempt # ds))
      else (case prev of None \<Rightarrow> ThrewUndefined | Some e \<Rightarrow> Threw e, []))"
  by pat_completeness auto
termination by (relation "measure (\<lambda>(maxRetries, base, address, fetch, attempt, prev). nat (maxRetries + 1 - attempt))") auto

declare nonce_loop.simps [simp del]

definition fetchAndIncrementNonce ::
  "string \<Rightarrow> (nat \<Rightarrow> net_error + number) \<Rightarrow> int option \<Rightarrow> int option \<Rightarrow> (nonce_error, number) retry_end \<times> int list" where
  "fetchAndIncrementNonce address fetch maxRetries baseDelayMs =
     nonce_loop (coalesce maxRetries 3) (coalesce baseDelayMs 200) address fetch 0 None"

lemma nonce_loop_prev: "attempt \<le> maxRetries \<Longrightarrow>
    nonce_loop maxRetries base address fetch attempt p = nonce_loop maxRetries base address fetch attempt q"
  by (subst (1 2) nonce_loop.simps) simp

interpretation nonce: bounded_retry
  "\<lambda>n. nonce_loop (int m) base address fetch (int n) None"
  "\<lambda>n. n = m \<or> gives_up isInvalidNonce (nonce_attempt address (fetch n))"
  "\<lambda>n. ends_with (nonce_attempt address (fetch n))" "\<lambda>n. base * 2 ^ n" m
  for m base address fetch
proof
  fix n
  let ?loop = "nonce_loop (int m) base address fetch" and ?att = "\<lambda>n. nonce_attempt address (fetch n)"
  show "?loop (int n) None = (ends_with (?att n), [])"
    if "n \<le> m" "n = m \<or> gives_up isInvalidNonce (?att n)"
    using that by (subst nonce_loop.simps) (auto simp: gives_up_def ends_with_def split: sum.splits)
  show "?loop (int n) None = (fst (?loop (int (Suc n)) None), base * 2 ^ n # snd (?loop (int (Suc n)) None))"
    if n: "n < m" "\<not> (n = m \<or> gives_up isInvalidNonce (?att n))"
  proof -
    from keeps_trying [OF n(2)] obtain e where e: "?att n = Inl e" "isInvalidNonce e" by blast
    have "?loop (int n + 1) (Some e) = ?loop (int n + 1) None" using n by (intro nonce_loop_prev) simp
    with e n show ?thesis by (subst nonce_loop.simps) (simp add: loop_step)
  qed
qed simp

text \<open>
  The nonce an account must use next is one more than the first one the fetcher delivers, after at
  most \<open>maxRetries\<close> failures that name an invalid nonce, each followed by twice the pause of the one
  before; and it is a whole number below \<open>2^53\<close> again.
\<close>

theorem next_nonce_fetched:
  assumes "int k \<le> coalesce maxRetries 3"
    and "\<And>j. j < k \<Longrightarrow> \<exists>n m f. fetch j = Inl (ErrorInstance n m f) \<and> js_includes ''InvalidNonce'' m"
    and "fetch k = Inr (whole n)" "0 \<le> n" "n + 1 < 2 ^ 53"
  shows "fetchAndIncrementNonce address fetch maxRetries baseDelayMs =
    (Returned (whole (n + 1)), map (\<lambda>j. coalesce baseDelayMs 200 * 2 ^ j) [0..<k])"
proof -
  let ?m = "nat (coalesce maxRetries 3)"
  have m: "int ?m = coalesce maxRetries 3" using assms(1) by linarith
  have "isValidNonce (whole n)" using assms(4)
    by (simp add: isValidNonce_def whole_def num_is_integer_def num_leq_def le_less)
  moreover have "num_add (whole n) (whole 1) = whole (n + 1)"
    using num_add_safe_int [of n 1] assms(4,5) by (simp add: whole_def)
  ultimately have ok: "nonce_attempt address (fetch k) = Inr (whole (n + 1))" using assms(3) by (simp add: nonce_attempt_def)
  then have stop: "k = ?m \<or> gives_up isInvalidNonce (nonce_attempt address (fetch k))" by (simp add: gives_up_def)
  have "\<not> (j = ?m \<or> gives_up isInvalidNonce (nonce_attempt address (fetch j)))" if "j < k" for j
    using assms(2) [OF that] that assms(1) by (auto simp: gives_up_def nonce_attempt_def isInvalidNonce_def)
  then show ?thesis
    using nonce.ends_at [of k ?m address fetch "coalesce baseDelayMs 200"] stop ok m
    by (simp add: fetchAndIncrementNonce_def ends_with_def)
qed

lemma next_nonce_fetched_witness:
  "fetchAndIncrementNonce ''G'' (\<lambda>n. if n = 0 then Inl (ErrorInstance ''Error'' ''InvalidNonce'' no_fields) else Inr (whole 7)) None None
     = (Returned (whole 8), [200])"
  using next_nonce_fetched [where k = 1 and n = 7 and maxRetries = None and baseDelayMs = None and address = "''G''"
      and fetch = "\<lambda>n. if n = 0 then Inl (ErrorInstance ''Error'' ''InvalidNonce'' no_fields) else Inr (whole 7)"]
  by (simp add: js_starts_with_def)

end
