(* ===== verification/Stroops.thy ===== *)
theory Stroops
  imports Codec
begin

text \<open>
  Amounts as decimal text and as counts of stroops (ten millionths), as
  \<open>apps/web-dashboard/src/services/bulk-payouts.ts\<close> converts them; the send flows accept the same
  texts. The lemmas read a written amount back.
\<close>

section \<open>Amounts\<close>

definition MAX_STROOPS :: nat where
  "MAX_STROOPS = 9223372036854775807"

text \<open>\<open>/^\d+(?:\.\d{1,7})?$/\<close>, and the two parts around the point (\<open>padEnd(7, '0')\<close>).\<close>

definition amount_text :: "string \<Rightarrow> bool" where
  "amount_text a =
     (takeWhile is_digit_char a \<noteq> [] \<and> (case dropWhile is_digit_char a of [] \<Rightarrow> True
        | c # frac \<Rightarrow> c = CHR ''.'' \<and> frac \<noteq> [] \<and> length frac \<le> 7 \<and> list_all is_digit_char frac))"

definition decimalToStroops :: "string \<Rightarrow> nat" where
  "decimalToStroops a =
     (let whole = takeWhile (\<lambda>c. c \<noteq> CHR ''.'') a; frac = drop (Suc (length whole)) a in
      read_digits whole * 10 ^ 7 + read_digits (frac @ replicate (7 - length frac) CHR ''0''))"

definition formatStroops :: "nat \<Rightarrow> string" where
  "formatStroops stroops =
     (let whole = show_nat (stroops div 10 ^ 7);
          digits = show_nat (stroops mod 10 ^ 7);
          padded = replicate (7 - length digits) CHR ''0'' @ digits;
          fractional = rev (dropWhile (\<lambda>c. c = CHR ''0'') (rev padded))
      in if fractional \<noteq> [] then whole @ CHR ''.'' # fractional else whole)"

section \<open>Reading back\<close>

lemma length_show_nat: "n < 10 ^ k \<Longrightarrow> 0 < k \<Longrightarrow> length (show_nat n) \<le> k"
proof (induction k arbitrary: n)
  case (Suc k)
  show ?case
  proof (cases "n < 10")
    case True
    then show ?thesis by (subst show_nat.simps) simp
  next
    case False
    then have "k \<noteq> 0" using Suc.prems by (cases k) auto
    moreover have "n div 10 < 10 ^ k" using Suc.prems by (simp add: div_less_iff_less_mult mult.commute)
    ultimately have "length (show_nat (n div 10)) \<le> k" using Suc.IH by simp
    with False show ?thesis by (subst show_nat.simps) simp
  qed
qed simp

lemma read_leading_zeros: "read_digits (replicate k CHR ''0'' @ s) = read_digits s"
  by (induction k) (simp_all add: read_digits_def char_code_def)

lemma strip_then_pad: "rev (dropWhile (\<lambda>c. c = z) (rev s)) @ replicate (length s - length (rev (dropWhile (\<lambda>c. c = z) (rev s)))) z = s"
proof -
  let ?t = "takeWhile (\<lambda>c. c = z) (rev s)" and ?d = "dropWhile (\<lambda>c. c = z) (rev s)"
  have "?t = replicate (length ?t) z"
    by (intro replicate_eqI) (auto dest: set_takeWhileD)
  moreover have "length s = length ?t + length ?d"
    by (metis length_append length_rev takeWhile_dropWhile_id)
  ultimately have "rev ?t = replicate (length s - length (rev ?d)) z" by (metis add_diff_cancel_right' length_rev rev_replicate)
  moreover have "s = rev ?d @ rev ?t" by (metis rev_append rev_rev_ident takeWhile_dropWhile_id)
  ultimately show ?thesis by metis
qed

lemma digits_no_dot: "list_all is_digit_char s \<Longrightarrow> takeWhile (\<lambda>c. c \<noteq> CHR ''.'') (s @ CHR ''.'' # f) = s
    \<and> takeWhile (\<lambda>c. c \<noteq> CHR ''.'') s = s"
proof -
  assume d: "list_all is_digit_char s"
  have "\<not> is_digit_char CHR ''.''" by code_simp
  with d have "\<forall>c \<in> set s. c \<noteq> CHR ''.''" by (auto simp: list_all_iff)
  then show ?thesis by (simp add: takeWhile_eq_all_conv)
qed

lemma stroops_roundtrip: "decimalToStroops (formatStroops n) = n"
proof -
  define q r where "q = n div 10 ^ 7" and "r = n mod 10 ^ 7"
  define padded where "padded = replicate (7 - length (show_nat r)) CHR ''0'' @ show_nat r"
  define f where "f = rev (dropWhile (\<lambda>c. c = CHR ''0'') (rev padded))"
  have "r < 10 ^ 7" by (simp add: r_def)
  then have "length (show_nat r) \<le> 7" by (intro length_show_nat) simp_all
  then have len: "length padded = 7" by (simp add: padded_def)
  have fpad: "f @ replicate (7 - length f) CHR ''0'' = padded"
    using strip_then_pad [of "CHR ''0''" padded] by (simp only: f_def len)
  have "formatStroops n = (if f \<noteq> [] then show_nat q @ CHR ''.'' # f else show_nat q)"
    unfolding formatStroops_def Let_def q_def r_def padded_def f_def by (rule refl)
  moreover have "decimalToStroops (if f \<noteq> [] then show_nat q @ CHR ''.'' # f else show_nat q)
      = read_digits (show_nat q) * 10 ^ 7 + read_digits (f @ replicate (7 - length f) CHR ''0'')"
  proof -
    have a: "takeWhile (\<lambda>c. c \<noteq> CHR ''.'') (show_nat q @ CHR ''.'' # f) = show_nat q"
      and b: "takeWhile (\<lambda>c. c \<noteq> CHR ''.'') (show_nat q) = show_nat q"
      using digits_no_dot [OF show_nat_digits, of q f] by blast+
    show ?thesis
    proof (cases "f = []")
      case True
      then have e: "(if f \<noteq> [] then show_nat q @ CHR ''.'' # f else show_nat q) = show_nat q" by simp
      show ?thesis unfolding e decimalToStroops_def Let_def b using True by simp
    next
      case False
      then have e: "(if f \<noteq> [] then show_nat q @ CHR ''.'' # f else show_nat q) = show_nat q @ CHR ''.'' # f" by simp
      show ?thesis unfolding e decimalToStroops_def Let_def a by simp
    qed
  qed
  ultimately have "decimalToStroops (formatStroops n) = q * 10 ^ 7 + read_digits padded"
    by (simp only: fpad read_show_nat)
  also have "read_digits padded = r" by (simp add: padded_def read_leading_zeros read_show_nat)
  finally show ?thesis by (simp add: q_def r_def)
qed

end
