(* ===== verification/PayoutCsv.thy ===== *)
theory PayoutCsv
  imports StrKey Stroops
begin

text \<open>
  The import side of \<open>apps/web-dashboard/src/services/bulk-payouts.ts\<close>: the CSV reader, the row
  check with its own StrKey reader, and the totals in stroops. The lemmas tie the StrKey reader to
  the encoder of the relayer and the CSV reader to the writer of the statement export.
\<close>

section \<open>CSV\<close>

abbreviation (input) quote_char :: char where "quote_char \<equiv> CHR 0x22"

text \<open>The loop over the characters: quote state, current field, current record.\<close>

function csv_scan :: "string \<Rightarrow> bool \<Rightarrow> string \<Rightarrow> string list \<Rightarrow> string list list" where
  "csv_scan [] inQuotes field record = (if field \<noteq> [] \<or> record \<noteq> [] then [record @ [field]] else [])"
| "csv_scan (c # cs) inQuotes field record =
     (if c = quote_char then
        (if inQuotes \<and> cs \<noteq> [] \<and> hd cs = quote_char then csv_scan (tl cs) inQuotes (field @ [quote_char]) record
         else csv_scan cs (\<not> inQuotes) field record)
      else if c = CHR '','' \<and> \<not> inQuotes then csv_scan cs inQuotes [] (record @ [field])
      else if (c = CHR 0x0A \<or> c = CHR 0x0D) \<and> \<not> inQuotes then
        (record @ [field]) # csv_scan (if c = CHR 0x0D \<and> cs \<noteq> [] \<and> hd cs = CHR 0x0A then tl cs else cs) inQuotes [] []
      else csv_scan cs inQuotes (field @ [c]) record)"
  by pat_completeness auto
termination by (relation "measure (\<lambda>(cs, _). length cs)") auto

definition is_blank :: "string \<Rightarrow> bool" where
  "is_blank s = (js_trim s = [])"

definition parseCsvRecords :: "string \<Rightarrow> string list list" where
  "parseCsvRecords csv = filter (\<lambda>row. \<exists>cell \<in> set row. \<not> is_blank cell) (csv_scan csv False [] [])"

lemma scan_plain:
  assumes "\<not> (\<exists>c \<in> set s. c = CHR '','' \<or> c = quote_char \<or> c = CHR 0x0A \<or> c = CHR 0x0D)"
  shows "csv_scan (s @ rest) False field rec = csv_scan rest False (field @ s) rec"
  using assms by (induction s arbitrary: field) auto

section \<open>The StrKey reader\<close>

definition STRKEY_BASE32_ALPHABET :: string where
  "STRKEY_BASE32_ALPHABET = ''ABCDEFGHIJKLMNOPQRSTUVWXYZ234567''"

definition b32_index :: "char \<Rightarrow> nat option" where
  "b32_index c = (let i = length (takeWhile (\<lambda>d. d \<noteq> c) STRKEY_BASE32_ALPHABET) in if i < 32 then Some i else None)"

fun b32_read :: "string \<Rightarrow> nat \<Rightarrow> 32 word \<Rightarrow> byte list option" where
  "b32_read [] bits buffer = Some []"
| "b32_read (c # cs) bits buffer = (case b32_index c of
       None \<Rightarrow> None
     | Some digit \<Rightarrow>
         let buffer' = push_bit 5 buffer OR of_nat digit; bits' = bits + 5 in
         if bits' \<ge> 8
         then map_option (\<lambda>bytes. unat (drop_bit (bits' - 8) buffer' AND 0xff) # bytes) (b32_read cs (bits' - 8) buffer')
         else b32_read cs bits' buffer')"

definition decodeBase32 :: "string \<Rightarrow> byte list option" where
  "decodeBase32 value = b32_read value 0 0"

text \<open>\<open>crc16Xmodem\<close> is the same loop as the relayer's; \<open>decoded[33] | (decoded[34] << 8)\<close>.\<close>

definition isValidEd25519PublicKey :: "string \<Rightarrow> bool" where
  "isValidEd25519PublicKey value =
     (if \<not> is_strkey_text value then False
      else case decodeBase32 value of
        None \<Rightarrow> False
      | Some decoded \<Rightarrow> length decoded = 35 \<and> hd decoded = 6 * 8
          \<and> crc16xmodem (take 33 decoded) = of_nat (decoded ! 33) OR push_bit 8 (of_nat (decoded ! 34)))"

section \<open>Rows\<close>

datatype payout_error = RecipientRequired | RecipientInvalid | AmountRequired | AmountFormat | AmountNotPositive
  | AmountTooLarge | MissingColumns "string list"

record payout_row =
  pr_id :: string
  pr_lineNumber :: nat
  pr_recipient :: string
  pr_amount :: string
  pr_signedXdr :: "string option"
  pr_errors :: "payout_error list"

definition row_id :: "nat \<Rightarrow> string \<Rightarrow> string \<Rightarrow> string" where
  "row_id lineNumber recipient amount = show_nat lineNumber @ CHR ''-'' # recipient @ CHR ''-'' # amount"

definition createRow :: "nat \<Rightarrow> string \<Rightarrow> string \<Rightarrow> string option \<Rightarrow> payout_error list \<Rightarrow> payout_row" where
  "createRow lineNumber recipient amount xdr errors =
     \<lparr>pr_id = row_id lineNumber recipient amount, pr_lineNumber = lineNumber, pr_recipient = recipient,
      pr_amount = amount, pr_signedXdr = xdr, pr_errors = errors\<rparr>"

definition validateRow :: "string \<Rightarrow> string \<Rightarrow> payout_error list" where
  "validateRow recipient amount =
     (if recipient = [] then [RecipientRequired]
      else if \<not> isValidEd25519PublicKey recipient then [RecipientInvalid] else [])
   @ (if amount = [] then [AmountRequired]
      else if \<not> amount_text amount then [AmountFormat]
      else let stroops = decimalToStroops amount in
        if stroops \<le> 0 then [AmountNotPositive]
        else if stroops > MAX_STROOPS then [AmountTooLarge] else [])"

text \<open>
  Header names: trimmed, in lower case, without blanks, underscores and dashes. The alias table maps
  them; what else the table object answers for a name is none of the three.
\<close>

definition normalizeHeader :: "string \<Rightarrow> string" where
  "normalizeHeader v = filter (\<lambda>c. \<not> is_js_space c \<and> c \<noteq> CHR ''_'' \<and> c \<noteq> CHR ''-'') (js_lower (js_trim v))"

definition HEADER_ALIASES :: "(string \<times> string) list" where
  "HEADER_ALIASES = [(''address'', ''recipient''), (''destination'', ''recipient''), (''recipient'', ''recipient''),
     (''to'', ''recipient''), (''amount'', ''amount''), (''signedtransactionxdr'', ''signedTransactionXdr''),
     (''signedxdr'', ''signedTransactionXdr''), (''xdr'', ''signedTransactionXdr'')]"

definition index_of :: "'x \<Rightarrow> 'x list \<Rightarrow> nat option" where
  "index_of x xs = (let i = length (takeWhile (\<lambda>y. y \<noteq> x) xs) in if i < length xs then Some i else None)"

definition cell_at :: "string list \<Rightarrow> nat option \<Rightarrow> string option" where
  "cell_at cells i = (case i of None \<Rightarrow> None | Some i \<Rightarrow> if i < length cells then Some (js_trim (cells ! i)) else None)"

record payout_table =
  pt_rows :: "payout_row list"
  pt_validRows :: "payout_row list"
  pt_invalidRows :: "payout_row list"
  pt_totalAmount :: string

definition toParseResult :: "payout_row list \<Rightarrow> payout_table" where
  "toParseResult rows =
     (let validRows = filter (\<lambda>r. pr_errors r = []) rows in
      \<lparr>pt_rows = rows, pt_validRows = validRows, pt_invalidRows = filter (\<lambda>r. pr_errors r \<noteq> []) rows,
       pt_totalAmount = formatStroops (foldl (\<lambda>sum r. sum + decimalToStroops (pr_amount r)) 0 validRows)\<rparr>)"

definition parse_row :: "nat option \<Rightarrow> nat option \<Rightarrow> nat option \<Rightarrow> nat \<Rightarrow> string list \<Rightarrow> payout_row" where
  "parse_row recipientIndex amountIndex xdrIndex lineNumber cells =
     (let recipient = coalesce (cell_at cells recipientIndex) [];
          amount = coalesce (cell_at cells amountIndex) []
      in createRow lineNumber recipient amount (cell_at cells xdrIndex) (validateRow recipient amount))"

definition parseBulkPayoutCsv :: "string \<Rightarrow> payout_table" where
  "parseBulkPayoutCsv csv = (case parseCsvRecords csv of
       [] \<Rightarrow> toParseResult []
     | first # others \<Rightarrow>
         let headers = map (\<lambda>h. coalesce (map_of HEADER_ALIASES (normalizeHeader h)) []) first;
             missing = filter (\<lambda>h. h \<notin> set headers) [''recipient'', ''amount'']
         in if missing \<noteq> [] then toParseResult [createRow 1 [] [] None [MissingColumns missing]]
            else toParseResult (map (\<lambda>(i, cells). parse_row (index_of ''recipient'' headers) (index_of ''amount'' headers)
                   (index_of ''signedTransactionXdr'' headers) (i + 2) cells)
                 (filter (\<lambda>(i, cells). \<exists>cell \<in> set cells. \<not> is_blank cell) (enumerate 0 others))))"

section \<open>Pending bits, for any width\<close>

lemma pending_take_bit: "pending n w = take_bit n (unat w)"
  by (simp add: pending_def take_bit_eq_mod)

lemma unat_take_self: "take_bit 32 (unat (w :: 32 word)) = unat w"
proof (rule take_bit_nat_eq_self)
  have "unat w < 2 ^ LENGTH(32)" by (rule unsigned_less)
  then show "unat w < 2 ^ 32" by simp
qed

lemma pending_push:
  assumes "d < 2 ^ k" "bits + k \<le> 32"
  shows "pending (bits + k) (push_bit k w OR of_nat d) = pending bits w * 2 ^ k + d"
proof -
  have dk: "take_bit k d = d" using assms(1) by (simp add: take_bit_nat_eq_self)
  have d32: "unat (of_nat d :: 32 word) = take_bit 32 d" by (simp add: unsigned_of_nat)
  have "pending (bits + k) (push_bit k w OR of_nat d)
      = take_bit (bits + k) (take_bit 32 (push_bit k (unat w)) OR take_bit 32 d)"
    by (simp add: pending_take_bit unsigned_or_eq d32 unsigned_push_bit_eq)
  also have "\<dots> = push_bit k (take_bit bits (unat w)) OR take_bit k d"
  proof (rule bit_eqI)
    fix n
    have "bit d n \<longleftrightarrow> bit d n \<and> n < k" using dk by (metis bit_take_bit_iff)
    then show "bit (take_bit (bits + k) (take_bit 32 (push_bit k (unat w)) OR take_bit 32 d)) n
        = bit (push_bit k (take_bit bits (unat w)) OR take_bit k d) n"
      using assms(2) by (auto simp: bit_take_bit_iff bit_or_iff bit_push_bit_iff)
  qed
  also have "\<dots> = push_bit k (take_bit bits (unat w)) + take_bit k d"
    by (rule disjunctive_add [symmetric]) (auto simp: bit_push_bit_iff bit_take_bit_iff)
  finally show ?thesis by (simp add: dk pending_take_bit push_bit_eq_mult)
qed

lemma pending_top:
  assumes "k \<le> bits" "bits \<le> 32"
  shows "unat (take_bit k (drop_bit (bits - k) (w :: 32 word))) = pending bits w div 2 ^ (bits - k)"
    and "pending (bits - k) w = pending bits w mod 2 ^ (bits - k)"
proof -
  have "unat (take_bit k (drop_bit (bits - k) w)) = take_bit k (drop_bit (bits - k) (unat w))"
    by (simp add: unsigned_take_bit_eq unsigned_drop_bit_eq unat_take_self)
  also have "\<dots> = drop_bit (bits - k) (take_bit bits (unat w))" using assms by (simp add: drop_bit_take_bit)
  finally show "unat (take_bit k (drop_bit (bits - k) w)) = pending bits w div 2 ^ (bits - k)"
    by (simp add: pending_take_bit drop_bit_eq_div)
  show "pending (bits - k) w = pending bits w mod 2 ^ (bits - k)"
    unfolding take_bit_eq_mod [symmetric] pending_take_bit by (simp add: min_def)
qed

section \<open>The reader inverts the encoder\<close>

lemma and_ff: "unat (w AND 0xff :: 32 word) = unat (take_bit 8 w)"
  by (simp add: take_bit_eq_mask mask_eq_exp_minus_1)

definition b32_text :: "string \<Rightarrow> bool" where
  "b32_text s = list_all (\<lambda>c. b32_index c \<noteq> None) s"

definition b32_values :: "string \<Rightarrow> nat list" where
  "b32_values s = map (\<lambda>c. the (b32_index c)) s"

lemma b32_index_less: "b32_index c = Some d \<Longrightarrow> d < 32 \<and> STRKEY_BASE32_ALPHABET ! d = c"
proof -
  assume a: "b32_index c = Some d"
  then have d: "d = length (takeWhile (\<lambda>x. x \<noteq> c) STRKEY_BASE32_ALPHABET)" "d < 32"
    by (auto simp: b32_index_def Let_def split: if_splits)
  moreover have "length STRKEY_BASE32_ALPHABET = 32" by (simp add: STRKEY_BASE32_ALPHABET_def)
  ultimately show ?thesis using nth_length_takeWhile [of "\<lambda>x. x \<noteq> c" STRKEY_BASE32_ALPHABET] by simp
qed

lemma b32_index_nth: "d < 32 \<Longrightarrow> b32_index (STRKEY_BASE32_ALPHABET ! d) = Some d"
proof -
  assume d: "d < 32"
  have a: "distinct STRKEY_BASE32_ALPHABET" "length STRKEY_BASE32_ALPHABET = 32"
    by (simp_all add: STRKEY_BASE32_ALPHABET_def)
  let ?c = "STRKEY_BASE32_ALPHABET ! d"
  have "takeWhile (\<lambda>x. x \<noteq> ?c) STRKEY_BASE32_ALPHABET = take d STRKEY_BASE32_ALPHABET"
    using a d by (intro takeWhile_eq_take_P_nth) (auto simp: nth_eq_iff_index_eq)
  with a d show ?thesis by (simp add: b32_index_def)
qed

lemma b32_read_spec:
  assumes "b32_text cs" "bits \<le> 7"
  shows "\<exists>out r. b32_read cs bits w = Some out \<and> bytes_ok out \<and> length out = (bits + 5 * length cs) div 8
    \<and> r < 2 ^ ((bits + 5 * length cs) mod 8)
    \<and> numeral_of 256 out * 2 ^ ((bits + 5 * length cs) mod 8) + r
        = pending bits w * 32 ^ length cs + numeral_of 32 (b32_values cs)"
  using assms
proof (induction cs arbitrary: bits w)
  case Nil
  then show ?case using pending_less [of bits w] by (auto simp: b32_values_def intro!: exI [of _ "pending bits w"])
next
  case (Cons c cs)
  obtain d where d: "b32_index c = Some d" "d < 32"
    using Cons.prems(1) b32_index_less by (auto simp: b32_text_def)
  have cs: "b32_text cs" using Cons.prems(1) by (simp add: b32_text_def)
  define w' where "w' = push_bit 5 w OR of_nat d"
  define P where "P = pending (bits + 5) w'"
  have P: "P = pending bits w * 32 + d"
    unfolding P_def w'_def using d Cons.prems(2) pending_push [of d 5 bits w] by simp
  have goal: "pending bits w * 32 ^ length (c # cs) + numeral_of 32 (b32_values (c # cs))
      = P * 32 ^ length cs + numeral_of 32 (b32_values cs)"
    using d by (simp add: P b32_values_def numeral_of_Cons algebra_simps)
  show ?case
  proof (cases "bits + 5 \<ge> 8")
    case False
    then have "bits + 5 \<le> 7" by simp
    from Cons.IH [OF cs this, of w'] show ?thesis unfolding goal
      using False d by (simp add: w'_def [symmetric] P_def algebra_simps)
  next
    case True
    define k where "k = bits + 5 - 8"
    have k: "k \<le> 7" "bits + 5 - k = 8" "8 \<le> bits + 5" "bits + 5 \<le> 32" using True Cons.prems(2) by (simp_all add: k_def)
    define b where "b = unat (drop_bit k w' AND 0xff)"
    have b: "b = P div 2 ^ k" "pending k w' = P mod 2 ^ k"
      using pending_top [OF k(3,4), of w'] by (simp_all add: b_def and_ff P_def k_def)
    have b256: "b < 256" 
    proof -
      have "bits + 5 = k + 8" using True by (simp add: k_def)
      then have "P < 2 ^ k * 256" using pending_less [of "bits + 5" w'] by (simp add: P_def power_add)
      then show ?thesis by (simp add: b(1) div_less_iff_less_mult mult.commute)
    qed
    let ?x = "k + 5 * length cs"
    from Cons.IH [OF cs k(1), of w'] obtain out r where o: "b32_read cs k w' = Some out" "bytes_ok out"
      "length out = ?x div 8" "r < 2 ^ (?x mod 8)"
      "numeral_of 256 out * 2 ^ (?x mod 8) + r = P mod 2 ^ k * 32 ^ length cs + numeral_of 32 (b32_values cs)"
      unfolding b(2) by blast
    have x: "bits + 5 * length (c # cs) = ?x + 8" using True by (simp add: k_def)
    have "(256 :: nat) ^ length out * 2 ^ (?x mod 8) = 2 ^ (8 * (?x div 8) + ?x mod 8)"
      by (simp only: o(3) power_add power_mult) simp
    also have "8 * (?x div 8) + ?x mod 8 = ?x" by simp
    also have "(2 :: nat) ^ ?x = 2 ^ k * 32 ^ length cs" by (simp add: power_add power_mult)
    finally have p: "(256 :: nat) ^ length out * 2 ^ (?x mod 8) = 2 ^ k * 32 ^ length cs" .
    have "numeral_of 256 (b # out) * 2 ^ (?x mod 8) + r
        = b * (256 ^ length out * 2 ^ (?x mod 8)) + (numeral_of 256 out * 2 ^ (?x mod 8) + r)"
      by (simp add: numeral_of_Cons algebra_simps)
    also have "\<dots> = (b * 2 ^ k + P mod 2 ^ k) * 32 ^ length cs + numeral_of 32 (b32_values cs)"
      unfolding p o(5) by (simp add: algebra_simps)
    also have "b * 2 ^ k + P mod 2 ^ k = P" unfolding b(1) by (rule div_mult_mod_eq)
    finally have n: "numeral_of 256 (b # out) * 2 ^ (?x mod 8) + r = P * 32 ^ length cs + numeral_of 32 (b32_values cs)" .
    have "b32_read (c # cs) bits w = Some (b # out)"
      using d o(1) True by (simp add: w'_def [symmetric] k_def b_def Let_def)
    with n o b256 show ?thesis unfolding goal x by (intro exI [of _ "b # out"] exI [of _ r]) simp
  qed
qed

lemma decode_whole:
  assumes "b32_text s" "length s = 56"
  shows "\<exists>out. decodeBase32 s = Some out \<and> bytes_ok out \<and> length out = 35
    \<and> numeral_of 256 out = numeral_of 32 (b32_values s)"
  using b32_read_spec [OF assms(1), of 0 0] assms(2) by (auto simp: decodeBase32_def pending_def)

lemma little_endian: "a < 256 \<Longrightarrow> b < 256 \<Longrightarrow> of_nat a OR push_bit 8 (of_nat b) = (of_nat (a + 256 * b) :: 32 word)"
proof -
  assume a: "a < 256" and b: "b < 256"
  have "of_nat a OR push_bit 8 (of_nat b) = (of_nat a + push_bit 8 (of_nat b) :: 32 word)"
    by (rule disjunctive_add [symmetric]) (use byte_high_bits [OF a] in \<open>auto simp: bit_simps not_le\<close>)
  then show ?thesis by (simp add: push_bit_eq_mult mult.commute)
qed

lemma same_alphabet: "BASE32_ALPHABET = STRKEY_BASE32_ALPHABET"
  by (simp add: BASE32_ALPHABET_def STRKEY_BASE32_ALPHABET_def)

lemma decode_encode:
  assumes "bytes_ok bs" "length bs = 35"
  shows "b32_text (base32Encode bs) \<and> decodeBase32 (base32Encode bs) = Some bs"
proof -
  let ?ds = "b32_digits bs 0 0"
  have ds: "list_all (\<lambda>d. d < 32) ?ds" "length ?ds = 56" "numeral_of 32 ?ds = numeral_of 256 bs"
    using b32_digits_spec [OF assms(1), of 0 0] assms(2) by (simp_all add: pending_def b32_pad_def)
  have text': "b32_text (base32Encode bs)" and vals: "b32_values (base32Encode bs) = ?ds"
    using ds(1) by (auto simp: b32_text_def b32_values_def base32Encode_def same_alphabet list_all_iff b32_index_nth
        intro!: map_idI)
  have "length (base32Encode bs) = 56" using ds(2) by (simp add: base32Encode_def)
  from decode_whole [OF text' this] obtain out where out: "decodeBase32 (base32Encode bs) = Some out" "bytes_ok out"
    "length out = 35" "numeral_of 256 out = numeral_of 256 bs" unfolding vals ds(3) by blast
  have "out = bs" using out assms by (intro numeral_of_inj [of out bs 256]) (simp_all add: bytes_ok_def)
  with out text' show ?thesis by simp
qed

lemma encode_decode:
  assumes "b32_text s" "length s = 56" "decodeBase32 s = Some out"
  shows "base32Encode out = s"
proof -
  from decode_whole [OF assms(1,2)] assms(3) have out: "bytes_ok out" "length out = 35"
    "numeral_of 256 out = numeral_of 32 (b32_values s)" by auto
  let ?ds = "b32_digits out 0 0"
  have ds: "list_all (\<lambda>d. d < 32) ?ds" "length ?ds = 56" "numeral_of 32 ?ds = numeral_of 256 out"
    using b32_digits_spec [OF out(1), of 0 0] out(2) by (simp_all add: pending_def b32_pad_def)
  have v: "list_all (\<lambda>d. d < 32) (b32_values s)" "map (\<lambda>d. STRKEY_BASE32_ALPHABET ! d) (b32_values s) = s"
    using assms(1) b32_index_less by (force simp: b32_text_def b32_values_def list_all_iff intro!: map_idI)+
  have "?ds = b32_values s" using ds out v(1) assms(2)
    by (intro numeral_of_inj [of _ _ 32]) (simp_all add: b32_values_def)
  with v(2) show ?thesis by (simp add: base32Encode_def same_alphabet)
qed

section \<open>Properties of the address check\<close>

lemma strkey_text_b32: "is_strkey_text s \<Longrightarrow> b32_text s \<and> length s = 56"
proof -
  have "b32_index d \<noteq> None" if "is_upper_char d \<or> (50 \<le> char_code d \<and> char_code d \<le> 55)" for d
  proof -
    have "list_all (\<lambda>n. n \<in> set (map char_code STRKEY_BASE32_ALPHABET)) ([65..<91] @ [50..<56])"
      by code_simp
    moreover have "char_code d \<in> set ([65..<91] @ [50..<56])" 
      using that unfolding is_upper_char_def set_append set_upt Un_iff atLeastLessThan_iff by linarith
    ultimately have "char_code d \<in> char_code ` set STRKEY_BASE32_ALPHABET" by (simp only: list_all_iff) auto
    then have "d \<in> set STRKEY_BASE32_ALPHABET" using char_code_inj by blast
    then obtain i where "i < length STRKEY_BASE32_ALPHABET" "STRKEY_BASE32_ALPHABET ! i = d"
      unfolding in_set_conv_nth by blast
    moreover have "length STRKEY_BASE32_ALPHABET = 32" by (simp add: STRKEY_BASE32_ALPHABET_def)
    ultimately show ?thesis using b32_index_nth [of i] by simp
  qed
  moreover have "b32_index (CHR ''G'') \<noteq> None" by code_simp
  ultimately show "is_strkey_text s \<Longrightarrow> b32_text s \<and> length s = 56"
    by (auto simp: is_strkey_text_def b32_text_def list_all_iff split: list.splits)
qed

lemma strkey_text_of_key:
  assumes "bytes_ok raw" "length raw = 32" shows "is_strkey_text (encodeEd25519PublicKey raw)"
proof -
  have ok: "b32_text (encodeEd25519PublicKey raw)"
    using decode_encode [OF strkey_payload_ok [OF assms(1)]] assms(2) by (simp add: encode_payload strkey_payload_def)
  have "is_upper_char c \<or> (50 \<le> char_code c \<and> char_code c \<le> 55)" if "b32_index c \<noteq> None" for c
  proof -
    from that b32_index_less obtain d where "d < 32" "c = STRKEY_BASE32_ALPHABET ! d" by blast
    moreover have "length STRKEY_BASE32_ALPHABET = 32" by (simp add: STRKEY_BASE32_ALPHABET_def)
    ultimately have "c \<in> set STRKEY_BASE32_ALPHABET" by simp
    moreover have "list_all (\<lambda>c. is_upper_char c \<or> (50 \<le> char_code c \<and> char_code c \<le> 55)) STRKEY_BASE32_ALPHABET"
      by code_simp
    ultimately show ?thesis by (simp add: list_all_iff)
  qed
  with ok strkey_length [OF assms] strkey_first [OF assms(1)] show ?thesis
    by (cases "encodeEd25519PublicKey raw") (auto simp: is_strkey_text_def b32_text_def list_all_iff)
qed

lemma encoded_key_valid:
  assumes raw: "bytes_ok raw" "length raw = 32"
  shows "isValidEd25519PublicKey (encodeEd25519PublicKey raw)"
proof -
  define s where s: "s = encodeEd25519PublicKey raw"
  let ?p = "strkey_payload raw" and ?c = "unat (crc16xmodem (48 # raw))"
  have c: "?c mod 256 < 256" "?c div 256 < 256" using crc16_bound [of "48 # raw"] by (auto simp: div_less_iff_less_mult)
  have "decodeBase32 s = Some ?p"
    using decode_encode [OF strkey_payload_ok [OF raw(1)]] raw(2) by (simp add: s encode_payload strkey_payload_def)
  moreover have "take 33 ?p = 48 # raw" "?p ! 33 = ?c mod 256" "?p ! 34 = ?c div 256" "length ?p = 35" "hd ?p = 48"
    using raw(2) by (simp_all add: strkey_payload_def nth_append)
  moreover have "of_nat (?c mod 256) OR push_bit 8 (of_nat (?c div 256)) = crc16xmodem (48 # raw)"
    unfolding little_endian [OF c] by simp
  ultimately show ?thesis
    using strkey_text_of_key [OF raw] by (simp add: isValidEd25519PublicKey_def s)
qed

text \<open>
  C6. The dashboard's address check and the relayer's encoder agree: the check accepts exactly the
  StrKeys the encoder writes for a 32-byte key.
\<close>

theorem address_check_exact:
  "isValidEd25519PublicKey s \<longleftrightarrow> (\<exists>raw. bytes_ok raw \<and> length raw = 32 \<and> s = encodeEd25519PublicKey raw)"
proof
  assume "isValidEd25519PublicKey s"
  then obtain out where t: "is_strkey_text s" and out: "decodeBase32 s = Some out" "length out = 35" "hd out = 48"
    "crc16xmodem (take 33 out) = of_nat (out ! 33) OR push_bit 8 (of_nat (out ! 34))"
    by (auto simp: isValidEd25519PublicKey_def split: if_splits option.splits)
  note s = strkey_text_b32 [OF t]
  have ok: "bytes_ok out" using decode_whole [OF conjunct1 [OF s] conjunct2 [OF s]] out(1) by auto
  define raw a b where "raw = take 32 (drop 1 out)" and "a = out ! 33" and "b = out ! 34"
  have ab: "a < 256" "b < 256" using ok out(2) by (auto simp: bytes_ok_def list_all_length a_def b_def)
  have "out = hd out # tl out" using out(2) by (cases out) auto
  moreover have "drop 33 out = [a, b]"
    using out(2) by (simp add: a_def b_def numeral_eq_Suc Cons_nth_drop_Suc [symmetric])
  moreover have "tl out = raw @ drop 33 out"
    using append_take_drop_id [of 32 "drop 1 out"] out(2) by (cases out) (simp_all add: raw_def drop_Cons')
  ultimately have o: "out = 48 # raw @ [a, b]" using out(3) by simp
  then have len: "length raw = 32" using out(2) by simp
  have "crc16xmodem (48 # raw) = of_nat (a + 256 * b)"
    using out(4) o len little_endian [OF ab] by (simp add: nth_append)
  then have "unat (crc16xmodem (48 # raw)) = a + 256 * b"
    using ab by (simp only: unsigned_of_nat) (simp add: take_bit_nat_eq_self)
  then have "out = strkey_payload raw" using o ab by (simp add: strkey_payload_def)
  moreover have "base32Encode out = s" using encode_decode s out(1) by blast
  moreover have "bytes_ok raw" using ok o by (simp add: bytes_ok_def)
  ultimately show "\<exists>raw. bytes_ok raw \<and> length raw = 32 \<and> s = encodeEd25519PublicKey raw"
    using len by (auto simp: encode_payload)
qed (auto intro: encoded_key_valid)

section \<open>A table with one payout\<close>

lemma trim_plain: "list_all (\<lambda>c. \<not> is_js_space c) s \<Longrightarrow> js_trim s = s"
proof -
  have d: "list_all (\<lambda>c. \<not> is_js_space c) u \<Longrightarrow> dropWhile is_js_space u = u" for u by (cases u) auto
  assume "list_all (\<lambda>c. \<not> is_js_space c) s"
  then show ?thesis unfolding js_trim_def by (simp add: d)
qed

lemma key_chars:
  assumes "isValidEd25519PublicKey a" "c \<in> set a"
  shows "\<not> is_js_space c \<and> \<not> (c = CHR '','' \<or> c = quote_char \<or> c = CHR 0x0A \<or> c = CHR 0x0D)"
proof -
  have "is_strkey_text a" using assms(1) by (simp add: isValidEd25519PublicKey_def split: if_splits)
  then have "is_upper_char c \<or> (50 \<le> char_code c \<and> char_code c \<le> 55) \<or> c = CHR ''G''"
    using assms(2) by (auto simp: is_strkey_text_def list_all_iff split: list.splits)
  moreover have "char_code CHR '','' = 44" "char_code quote_char = 34" "char_code CHR 0x0A = 10" "char_code CHR 0x0D = 13" "char_code CHR ''G'' = 71"
    by (simp_all add: char_code_def)
  ultimately show ?thesis by (auto simp: is_js_space_def is_upper_char_def)
qed

definition one_payout :: "string \<Rightarrow> string" where
  "one_payout a = ''To,Amount'' @ CHR 0x0A # a @ '',2.5''"

lemma parse_one_payout:
  assumes a: "isValidEd25519PublicKey a"
  shows "parseBulkPayoutCsv (one_payout a) = toParseResult [createRow 2 a ''2.5'' None []]"
proof -
  have "csv_scan (a @ '',2.5'') False [] [] = [[a, ''2.5'']]"
    using scan_plain [of a "'',2.5''" "[]" "[]"] key_chars [OF a] by auto
  then have "csv_scan (one_payout a) False [] [] = [[''To'', ''Amount''], [a, ''2.5'']]"
    by (simp add: one_payout_def)
  moreover have b: "\<not> is_blank ''To''" "\<not> is_blank ''2.5''" by code_simp+
  ultimately have r: "parseCsvRecords (one_payout a) = [[''To'', ''Amount''], [a, ''2.5'']]"
    by (simp add: parseCsvRecords_def)
  have t: "js_trim a = a" using key_chars [OF a] by (intro trim_plain) (simp add: list_all_iff)
  have n: "a \<noteq> []" using a by (auto simp: isValidEd25519PublicKey_def is_strkey_text_def)
  have h: "map (\<lambda>h. coalesce (map_of HEADER_ALIASES (normalizeHeader h)) []) [''To'', ''Amount''] = [''recipient'', ''amount'']"
    by code_simp
  have m: "js_trim ''2.5'' = ''2.5''" "amount_text ''2.5''" by code_simp+
  have z: "replicate 6 CHR ''0'' = ''000000''" by code_simp
  have st: "decimalToStroops ''2.5'' = 25000000"
    by (simp add: decimalToStroops_def Let_def read_digits_def char_code_def z)
  show ?thesis
    unfolding parseBulkPayoutCsv_def r list.case Let_def h
    using b(2) by (simp add: index_of_def parse_row_def cell_at_def t m st validateRow_def a n MAX_STROOPS_def enumerate_eq_zip numeral_2_eq_2)
qed

end
