(* ===== verification/StatementCsv.thy ===== *)
theory StatementCsv
  imports PayoutCsv
begin

text \<open>
  The statement export of \<open>apps/web-dashboard/src/features/statements/statement-export.ts\<close>: the rows as
  the indexer pages deliver them, the CSV writer with its guard against spreadsheet formulas, and the
  text filter of the PDF writer. Dates come as \<open>Date.parse\<close> reads them (absent for NaN); the pages are
  what the indexer answers to the n-th request with its cursor. URLs, the PDF layout and the download
  link are left out.
\<close>

section \<open>Rows\<close>

datatype statement_status = Completed | StatusPending | StatusFailed | StatusUnknown

record statement_row =
  sr_id :: string
  sr_timestamp :: string
  sr_counterparty :: string
  sr_amount :: string
  sr_asset :: string
  sr_status :: statement_status
  sr_memo :: string

record indexer_row =
  ix_id :: string
  ix_timestamp :: string
  ix_counterparty :: "string option"
  ix_amount :: "string option"
  ix_asset :: "string option"
  ix_status :: "string option"
  ix_memo_or_reference :: "string option"
  ix_memoOrReference :: "string option"

fun status_text :: "statement_status \<Rightarrow> string" where
  "status_text Completed = ''completed''"
| "status_text StatusPending = ''pending''"
| "status_text StatusFailed = ''failed''"
| "status_text StatusUnknown = ''unknown''"

definition normalizeStatus :: "string option \<Rightarrow> statement_status" where
  "normalizeStatus v = (if v = Some ''completed'' then Completed else if v = Some ''pending'' then StatusPending
     else if v = Some ''failed'' then StatusFailed else StatusUnknown)"

text \<open>The dash stands for an unknown counterparty; as a character beyond Latin-1 it is a parameter.\<close>

definition indexerRowToStatementRow :: "string \<Rightarrow> indexer_row \<Rightarrow> statement_row" where
  "indexerRowToStatementRow dash row =
     \<lparr>sr_id = ix_id row, sr_timestamp = ix_timestamp row,
      sr_counterparty = coalesce (ix_counterparty row) dash,
      sr_amount = coalesce (ix_amount row) ''0'',
      sr_asset = coalesce (ix_asset row) ''XLM'',
      sr_status = normalizeStatus (ix_status row),
      sr_memo = coalesce (ix_memoOrReference row) (coalesce (ix_memo_or_reference row) [])\<rparr>"

section \<open>Writing\<close>

definition statement_headers :: "string list" where
  "statement_headers = [''Timestamp'', ''Counterparty'', ''Amount'', ''Asset'', ''Status'', ''Memo/Reference'']"

definition statement_cells :: "statement_row \<Rightarrow> string list" where
  "statement_cells r = [sr_timestamp r, sr_counterparty r, sr_amount r, sr_asset r, status_text (sr_status r), sr_memo r]"

definition formula_prefix :: "string \<Rightarrow> bool" where
  "formula_prefix s = (case s of [] \<Rightarrow> False
     | c # _ \<Rightarrow> c \<in> {CHR ''='', CHR ''+'', CHR ''-'', CHR ''@'', CHR 0x09, CHR 0x0D})"

definition is_decimal_text :: "string \<Rightarrow> bool" where
  "is_decimal_text s =
     (let whole = takeWhile is_digit_char s; rest = dropWhile is_digit_char s in
      whole \<noteq> [] \<and> (case rest of [] \<Rightarrow> True
        | c # frac \<Rightarrow> c = CHR ''.'' \<and> frac \<noteq> [] \<and> list_all is_digit_char frac))"

definition plain_number :: "string \<Rightarrow> bool" where
  "plain_number s = (case s of [] \<Rightarrow> False | c # r \<Rightarrow> if c = CHR ''-'' then is_decimal_text r else is_decimal_text s)"

definition neutralizeCsvFormula :: "string \<Rightarrow> string" where
  "neutralizeCsvFormula v = (if plain_number v then v else if formula_prefix v then CHR 0x27 # v else v)"

definition double_quotes :: "string \<Rightarrow> string" where
  "double_quotes s = concat (map (\<lambda>c. if c = quote_char then [quote_char, quote_char] else [c]) s)"

definition escapeCsvCell :: "string \<Rightarrow> string" where
  "escapeCsvCell v = (let safe = neutralizeCsvFormula v in
     if \<exists>c \<in> set safe. c = CHR '','' \<or> c = quote_char \<or> c = CHR 0x0A \<or> c = CHR 0x0D
     then quote_char # double_quotes safe @ [quote_char] else safe)"

fun join_with :: "char \<Rightarrow> string list \<Rightarrow> string" where
  "join_with sep [] = []"
| "join_with sep [s] = s"
| "join_with sep (s # ss) = s @ sep # join_with sep ss"

definition toStatementCsv :: "statement_row list \<Rightarrow> string" where
  "toStatementCsv rows =
     join_with CHR 0x0A (join_with CHR '','' (map escapeCsvCell statement_headers)
       # map (\<lambda>r. join_with CHR '','' (map escapeCsvCell (statement_cells r))) rows)"

text \<open>\<open>replace(/\r\n?|\n/g, ' ')\<close>.\<close>

fun breaks_to_blanks :: "string \<Rightarrow> string" where
  "breaks_to_blanks [] = []"
| "breaks_to_blanks (c # cs) =
     (if c = CHR 0x0D then CHR '' '' # (if cs \<noteq> [] \<and> hd cs = CHR 0x0A then breaks_to_blanks (tl cs) else breaks_to_blanks cs)
      else if c = CHR 0x0A then CHR '' '' # breaks_to_blanks cs
      else c # breaks_to_blanks cs)"

definition sanitizeMemo :: "string \<Rightarrow> string" where
  "sanitizeMemo v = js_trim (breaks_to_blanks (filter (\<lambda>c. char_code c \<in> {9, 10, 13} \<or> char_code c \<ge> 32) v))"

section \<open>Fetching\<close>

datatype statement_error = NoAccount | BadDateRange | StartAfterEnd | FetchFailed | TooManyRows

record statement_filters =
  sf_accountId :: string
  sf_from :: "int option"
  sf_to :: "int option"

definition assertFilters :: "statement_filters \<Rightarrow> statement_error option" where
  "assertFilters f =
     (if js_trim (sf_accountId f) = [] then Some NoAccount
      else case (sf_from f, sf_to f) of
        (Some a, Some b) \<Rightarrow> if a > b then Some StartAfterEnd else None
      | _ \<Rightarrow> Some BadDateRange)"

definition MAX_EXPORT_ROWS :: nat where
  "MAX_EXPORT_ROWS = 5000"

type_synonym statement_page = "(indexer_row list \<times> string option) option"

text \<open>
  The \<open>do ... while (cursor)\<close> loop; an answer that is not ok is absent. The empty cursor ends it too.
  Whether it ends at all is up to the indexer.
\<close>

partial_function (option) fetch_pages ::
  "string \<Rightarrow> (nat \<Rightarrow> string option \<Rightarrow> statement_page) \<Rightarrow> nat \<Rightarrow> string option \<Rightarrow> statement_row list
     \<Rightarrow> (statement_error + statement_row list) option" where
  "fetch_pages dash indexer n cursor rows =
     (case indexer n cursor of
        None \<Rightarrow> Some (Inl FetchFailed)
      | Some (page, next_cursor) \<Rightarrow>
          (let rows' = rows @ map (indexerRowToStatementRow dash) page in
           if length rows' > MAX_EXPORT_ROWS then Some (Inl TooManyRows)
           else if next_cursor = None \<or> next_cursor = Some [] then Some (Inr rows')
           else fetch_pages dash indexer (Suc n) next_cursor rows'))"

definition fetchStatementRows ::
  "string \<Rightarrow> (nat \<Rightarrow> string option \<Rightarrow> statement_page) \<Rightarrow> statement_filters \<Rightarrow> (statement_error + statement_row list) option" where
  "fetchStatementRows dash indexer f = (case assertFilters f of
       Some e \<Rightarrow> Some (Inl e)
     | None \<Rightarrow> fetch_pages dash indexer 0 None [])"

section \<open>The reader on written text\<close>

lemma scan_quoted:
  assumes "rest = [] \<or> hd rest \<noteq> quote_char"
  shows "csv_scan (double_quotes s @ quote_char # rest) True field row = csv_scan rest False (field @ s) row"
  using assms by (induction s arbitrary: field) (auto simp: double_quotes_def)

lemma scan_cell:
  assumes "rest = [] \<or> hd rest \<noteq> quote_char"
  shows "csv_scan (escapeCsvCell v @ rest) False [] row = csv_scan rest False (neutralizeCsvFormula v) row"
proof (cases "\<exists>c \<in> set (neutralizeCsvFormula v). c = CHR '','' \<or> c = quote_char \<or> c = CHR 0x0A \<or> c = CHR 0x0D")
  case True
  then have e: "escapeCsvCell v @ rest = quote_char # (double_quotes (neutralizeCsvFormula v) @ quote_char # rest)"
    unfolding escapeCsvCell_def Let_def by (simp only: if_True) simp
  show ?thesis unfolding e by (subst csv_scan.simps) (simp add: scan_quoted [OF assms])
next
  case False
  then have "escapeCsvCell v = neutralizeCsvFormula v" unfolding escapeCsvCell_def Let_def by (simp only: if_False)
  with scan_plain [OF False, of rest "[]"] show ?thesis by simp
qed

lemma scan_last:
  "cells \<noteq> [] \<Longrightarrow> length cells + length row \<ge> 2 \<Longrightarrow>
    csv_scan (join_with CHR '','' (map escapeCsvCell cells)) False [] row = [row @ map neutralizeCsvFormula cells]"
proof (induction cells arbitrary: row)
  case (Cons v cells)
  note prems = Cons.prems and IH = Cons.IH
  show ?case
  proof (cases cells)
    case Nil
    with prems(2) scan_cell [of "[]" v row] show ?thesis by (cases row) auto
  next
    case (Cons w ws)
    then show ?thesis using IH [of "row @ [neutralizeCsvFormula v]"] by (simp add: scan_cell)
  qed
qed simp

lemma scan_line:
  "cells \<noteq> [] \<Longrightarrow> csv_scan (join_with CHR '','' (map escapeCsvCell cells) @ CHR 0x0A # rest) False [] row
      = (row @ map neutralizeCsvFormula cells) # csv_scan rest False [] []"
proof (induction cells arbitrary: row)
  case (Cons v cells)
  note IH = Cons.IH
  show ?case
  proof (cases cells)
    case Nil
    then show ?thesis by (simp add: scan_cell)
  next
    case (Cons w ws)
    then show ?thesis using IH [of "row @ [neutralizeCsvFormula v]"] by (simp add: scan_cell)
  qed
qed simp

lemma scan_lines:
  assumes "\<And>cells. cells \<in> set tables \<Longrightarrow> length cells \<ge> 2"
  shows "csv_scan (join_with CHR 0x0A (map (\<lambda>cells. join_with CHR '','' (map escapeCsvCell cells)) tables)) False [] []
    = map (map neutralizeCsvFormula) tables"
  using assms
proof (induction tables)
  case (Cons cells tables)
  have c: "cells \<noteq> []" "length cells + length ([] :: string list) \<ge> 2" using Cons.prems [of cells] by auto
  show ?case
  proof (cases tables)
    case Nil
    then show ?thesis using scan_last [OF c] by simp
  next
    case t: (Cons d ds)
    have "csv_scan (join_with CHR 0x0A (map (\<lambda>cells. join_with CHR '','' (map escapeCsvCell cells)) tables)) False [] []
        = map (map neutralizeCsvFormula) tables"
      using Cons.IH Cons.prems by simp
    with t show ?thesis using scan_line [OF c(1), of _ "[]"] by simp
  qed
qed simp

lemma statement_records:
  "parseCsvRecords (toStatementCsv rows)
     = statement_headers # map (\<lambda>r. map neutralizeCsvFormula (statement_cells r)) rows"
proof -
  let ?tables = "statement_headers # map statement_cells rows"
  have h: "map neutralizeCsvFormula statement_headers = statement_headers" by code_simp
  have len: "length cells \<ge> 2" if "cells \<in> set ?tables" for cells
    using that by (auto simp: statement_headers_def statement_cells_def)
  have "csv_scan (toStatementCsv rows) False [] [] = map (map neutralizeCsvFormula) ?tables"
    using scan_lines [of ?tables] len by (simp add: toStatementCsv_def comp_def)
  moreover have "\<exists>cell \<in> set cells. \<not> is_blank cell"
    if m: "cells \<in> set (map (map neutralizeCsvFormula) ?tables)" for cells
  proof -
    have head: "\<exists>cell \<in> set statement_headers. \<not> is_blank cell" by code_simp
    have "list_all (\<lambda>s. \<not> is_blank (neutralizeCsvFormula (status_text s)))
        [Completed, StatusPending, StatusFailed, StatusUnknown]" by code_simp
    then have st: "\<not> is_blank (neutralizeCsvFormula (status_text s))" for s by (cases s) auto
    from m consider "cells = statement_headers" | r where "r \<in> set rows" "cells = map neutralizeCsvFormula (statement_cells r)"
      using h by auto
    then show ?thesis
    proof cases
      case 1
      with head show ?thesis by simp
    next
      case (2 r)
      then have "neutralizeCsvFormula (status_text (sr_status r)) \<in> set cells" by (simp add: statement_cells_def)
      with st show ?thesis by blast
    qed
  qed
  ultimately have "parseCsvRecords (toStatementCsv rows) = map (map neutralizeCsvFormula) ?tables"
    unfolding parseCsvRecords_def by (simp only: filter_True [OF ballI])
  with h show ?thesis by (simp add: comp_def)
qed

section \<open>Properties\<close>

text \<open>
  C7. An exported statement reads back as it was written: the CSV reader of the dashboard finds the
  header line and one record per row, with the cells of the row as the formula guard leaves them,
  whatever commas, quotes and line breaks they contain.
\<close>

theorem statement_csv_roundtrip:
  "parseCsvRecords (toStatementCsv rows)
     = statement_headers # map (\<lambda>r. map neutralizeCsvFormula (statement_cells r)) rows"
  by (rule statement_records)

text \<open>
  No cell of an exported statement is a spreadsheet formula: in the file as a reader sees it,
  every cell is a plain decimal number or starts with none of the characters that make a formula.
\<close>

theorem statement_csv_no_formula:
  "list_all (list_all (\<lambda>cell. plain_number cell \<or> \<not> formula_prefix cell)) (parseCsvRecords (toStatementCsv rows))"
proof -
  have n: "plain_number (neutralizeCsvFormula v) \<or> \<not> formula_prefix (neutralizeCsvFormula v)" for v
    by (simp add: neutralizeCsvFormula_def) (simp add: formula_prefix_def)
  have h: "list_all (\<lambda>cell. plain_number cell \<or> \<not> formula_prefix cell) statement_headers" by code_simp
  from statement_records n h show ?thesis by (simp add: list_all_iff)
qed

section \<open>The pages\<close>

lemma pages_end:
  assumes "\<And>n c page next_cursor. indexer n c = Some (page, next_cursor) \<Longrightarrow> page = [] \<Longrightarrow> next_cursor = None \<or> next_cursor = Some []"
  shows "length rows \<le> MAX_EXPORT_ROWS \<Longrightarrow> \<exists>r. fetch_pages dash indexer n cursor rows = Some r
    \<and> (\<forall>out. r = Inr out \<longrightarrow> length out \<le> MAX_EXPORT_ROWS)"
proof (induction "MAX_EXPORT_ROWS - length rows" arbitrary: n cursor rows rule: less_induct)
  case less
  show ?case
  proof (cases "indexer n cursor")
    case None
    then show ?thesis by (simp add: fetch_pages.simps)
  next
    case (Some answer)
    obtain page next_cursor where p: "indexer n cursor = Some (page, next_cursor)" using Some by (cases answer) auto
    let ?rows = "rows @ map (indexerRowToStatementRow dash) page"
    show ?thesis
    proof (cases "length ?rows > MAX_EXPORT_ROWS \<or> next_cursor = None \<or> next_cursor = Some []")
      case True
      then show ?thesis by (subst fetch_pages.simps) (auto simp: p Let_def not_less)
    next
      case False
      then have "page \<noteq> []" using assms [OF p] by auto
      then have "MAX_EXPORT_ROWS - length ?rows < MAX_EXPORT_ROWS - length rows"
        using False by (cases page) auto
      from less.hyps [OF this, of "Suc n" next_cursor] False show ?thesis
        by (subst fetch_pages.simps) (simp add: p Let_def)
    qed
  qed
qed

text \<open>
  C24. Fetching the rows of a statement ends with at most 5000 rows or an error whenever the indexer
  never follows an empty page with another.
\<close>

theorem statement_fetch_ends:
  assumes "\<And>n c page next_cursor. indexer n c = Some (page, next_cursor) \<Longrightarrow> page = [] \<Longrightarrow> next_cursor = None \<or> next_cursor = Some []"
  shows "\<exists>r. fetchStatementRows dash indexer f = Some r \<and> (case r of Inl _ \<Rightarrow> True | Inr rows \<Rightarrow> length rows \<le> MAX_EXPORT_ROWS)"
proof (cases "assertFilters f")
  case None
  have "\<exists>r. fetch_pages dash indexer 0 None [] = Some r \<and> (\<forall>out. r = Inr out \<longrightarrow> length out \<le> MAX_EXPORT_ROWS)"
    by (rule pages_end) (use assms in auto)
  with None show ?thesis by (auto simp: fetchStatementRows_def split: sum.splits)
qed (simp add: fetchStatementRows_def)

lemma statement_fetch_ends_witness:
  "\<exists>r. fetchStatementRows ''-'' (\<lambda>n c. if n < 2 then Some ([\<lparr>ix_id = ''1'', ix_timestamp = [], ix_counterparty = None, ix_amount = None,
       ix_asset = None, ix_status = None, ix_memo_or_reference = None, ix_memoOrReference = None\<rparr>], Some ''c'') else Some ([], None))
     \<lparr>sf_accountId = ''G'', sf_from = Some 0, sf_to = Some 1\<rparr> = Some r \<and> (case r of Inl _ \<Rightarrow> True | Inr rows \<Rightarrow> length rows \<le> MAX_EXPORT_ROWS)"
  by (rule statement_fetch_ends) (auto split: if_splits)

lemma empty_pages_loop: "fetch_pages dash (\<lambda>_ _. Some ([], Some (c # cs))) n cursor [] = None"
proof -
  let ?P = "\<lambda>dash indexer (n :: nat) (cursor :: string option) rows (y :: statement_error + statement_row list).
    indexer = (\<lambda>_ _. Some ([] :: indexer_row list, Some (c # cs))) \<longrightarrow> rows \<noteq> []"
  have "?P dash indexer n cursor rows y" if "fetch_pages dash indexer n cursor rows = Some y" for dash indexer n cursor rows y
    using that by (rule fetch_pages.raw_induct [where P = ?P, rotated]) (intro impI notI, simp add: Let_def MAX_EXPORT_ROWS_def, blast)
  from this [of dash "\<lambda>_ _. Some ([], Some (c # cs))" n cursor "[]"] show ?thesis
    by (metis not_None_eq)
qed

text \<open>
  Without that the export never comes back: an indexer that answers every request with an empty
  page and a cursor keeps the loop going, as the limit counts rows only.
\<close>

theorem statement_fetch_can_loop:
  "fetchStatementRows dash (\<lambda>_ _. Some ([], Some ''c'')) \<lparr>sf_accountId = ''G'', sf_from = Some 0, sf_to = Some 1\<rparr> = None"
proof -
  have "assertFilters \<lparr>sf_accountId = ''G'', sf_from = Some 0, sf_to = Some 1\<rparr> = None" by code_simp
  then show ?thesis by (simp add: fetchStatementRows_def empty_pages_loop)
qed

lemma trimmed_ends: "js_trim s = [] \<or> (\<not> is_js_space (hd (js_trim s)) \<and> \<not> is_js_space (last (js_trim s)))"
proof (cases "js_trim s = []")
  case False
  let ?t = "dropWhile is_js_space (rev (dropWhile is_js_space s))"
  have r: "js_trim s = rev ?t" by (simp add: js_trim_def)
  with False have t: "?t \<noteq> []" by simp
  then have "\<not> is_js_space (hd ?t)" by (rule hd_dropWhile)
  moreover have "last ?t = hd (dropWhile is_js_space s)"
  proof -
    obtain p where "rev (dropWhile is_js_space s) = p @ ?t" by (metis takeWhile_dropWhile_id)
    then have "last (rev (dropWhile is_js_space s)) = last ?t" using t by (metis last_appendR)
    moreover have "dropWhile is_js_space s \<noteq> []" using t by (metis dropWhile.simps(1) rev.simps(1))
    ultimately show ?thesis by (simp add: last_rev)
  qed
  moreover have "dropWhile is_js_space s \<noteq> []" using t by (metis dropWhile.simps(1) rev.simps(1))
  then have "\<not> is_js_space (hd (dropWhile is_js_space s))" by (rule hd_dropWhile)
  ultimately show ?thesis using t by (simp add: r hd_rev last_rev)
qed simp

lemma breaks_gone: "c \<in> set (breaks_to_blanks s) \<Longrightarrow> c = CHR '' '' \<or> (c \<in> set s \<and> c \<noteq> CHR 0x0D \<and> c \<noteq> CHR 0x0A)"
  by (induction s rule: breaks_to_blanks.induct) (auto split: if_splits dest: list.set_sel(2))

lemma set_js_trim: "set (js_trim s) \<subseteq> set s"
  by (auto simp: js_trim_def dest!: set_dropWhileD)

text \<open>
  A memo that reaches the PDF holds no control character but tabs, and no blank at either end.
\<close>

theorem sanitized_memo_clean:
  "list_all (\<lambda>c. char_code c = 9 \<or> char_code c \<ge> 32) (sanitizeMemo v)
   \<and> (sanitizeMemo v = [] \<or> (\<not> is_js_space (hd (sanitizeMemo v)) \<and> \<not> is_js_space (last (sanitizeMemo v))))"
proof
  have code: "char_code CHR '' '' = 32" "char_code c = 10 \<longleftrightarrow> c = CHR 0x0A" "char_code c = 13 \<longleftrightarrow> c = CHR 0x0D" for c
    using char_code_inj [of c "CHR 0x0A"] char_code_inj [of c "CHR 0x0D"] by (auto simp: char_code_def)
  show "list_all (\<lambda>c. char_code c = 9 \<or> char_code c \<ge> 32) (sanitizeMemo v)"
    unfolding sanitizeMemo_def list_all_iff
    by (auto simp: code dest!: subsetD [OF set_js_trim] breaks_gone)
  show "sanitizeMemo v = [] \<or> (\<not> is_js_space (hd (sanitizeMemo v)) \<and> \<not> is_js_space (last (sanitizeMemo v)))"
    unfolding sanitizeMemo_def by (rule trimmed_ends)
qed

end
