(* ===== verification/PayoutBatch.thy ===== *)
theory PayoutBatch
  imports PayoutCsv Idempotency
begin

text \<open>
  The execution side of \<open>apps/web-dashboard/src/services/bulk-payouts.ts\<close>: a batch of payout rows run
  by a pool of workers with a checkpoint after every row. A run is a state and the answers to the
  submissions that are under way, in any order; a crash is the end of the sequence, after which only
  the storage is left. The time stamp of a checkpoint, which nothing reads, is left out; a stored text
  that cannot be read counts as none.
\<close>

section \<open>The checkpoint\<close>

datatype payout_outcome = Paid | PayoutFailed string

type_synonym batch_entries = "(string, payout_outcome) jsmap"

record checkpoint =
  cp_version :: int
  cp_batchId :: string
  cp_entries :: "batch_entries option"

definition CHECKPOINT_VERSION :: int where
  "CHECKPOINT_VERSION = 1"

definition BULK_PAYOUT_CONCURRENCY :: int where
  "BULK_PAYOUT_CONCURRENCY = 4"

text \<open>The storage slot; \<open>None\<close> outside for a browser without storage, inside for an empty slot.\<close>

type_synonym batch_storage = "checkpoint option option"

definition no_batch :: "string option \<Rightarrow> bool" where
  "no_batch batchId = (batchId = None \<or> batchId = Some [])"

definition readCheckpoint :: "batch_storage \<Rightarrow> string option \<Rightarrow> batch_entries" where
  "readCheckpoint storage batchId =
     (if storage = None \<or> no_batch batchId then []
      else case the storage of None \<Rightarrow> []
        | Some parsed \<Rightarrow>
            if cp_version parsed \<noteq> CHECKPOINT_VERSION \<or> Some (cp_batchId parsed) \<noteq> batchId then []
            else coalesce (cp_entries parsed) [])"

text \<open>\<open>stored\<close>: whether the browser accepts the write.\<close>

definition writeCheckpoint :: "bool \<Rightarrow> batch_storage \<Rightarrow> string option \<Rightarrow> batch_entries \<Rightarrow> batch_storage" where
  "writeCheckpoint stored storage batchId entries =
     (if storage = None \<or> no_batch batchId \<or> \<not> stored then storage
      else Some (Some \<lparr>cp_version = CHECKPOINT_VERSION, cp_batchId = the batchId, cp_entries = Some entries\<rparr>))"

definition clearBulkPayoutCheckpoint :: "batch_storage \<Rightarrow> batch_storage" where
  "clearBulkPayoutCheckpoint storage = map_option (\<lambda>_. None) storage"

section \<open>Submissions\<close>

record payout_submission =
  ps_recipient :: string
  ps_amount :: string
  ps_signedXdr :: "string option"
  ps_idempotencyKey :: string

definition submission_of :: "payout_row \<Rightarrow> payout_submission" where
  "submission_of row = \<lparr>ps_recipient = pr_recipient row, ps_amount = pr_amount row,
     ps_signedXdr = pr_signedXdr row, ps_idempotencyKey = ''bulk-payout-'' @ pr_id row\<rparr>"

section \<open>The pool\<close>

record batch_run =
  br_entries :: batch_entries
  br_settled :: "payout_outcome option list"
  br_cursor :: nat
  br_workers :: "nat option list"
  br_storage :: batch_storage
  br_calls :: "payout_submission list"

definition pending_rows :: "batch_entries \<Rightarrow> payout_row list \<Rightarrow> nat list" where
  "pending_rows entries rows = filter (\<lambda>i. map_get entries (pr_id (rows ! i)) = None) [0..<length rows]"

definition worker_count :: "int \<Rightarrow> payout_row list \<Rightarrow> nat" where
  "worker_count concurrency rows =
     nat (max 1 (min concurrency (if rows = [] then 1 else int (length rows))))"

text \<open>A worker at the head of its loop: it takes the next pending row and submits it, or returns.\<close>

definition take_next :: "payout_row list \<Rightarrow> nat list \<Rightarrow> nat \<Rightarrow> batch_run \<Rightarrow> batch_run" where
  "take_next rows pend w s =
     (if br_cursor s < length pend
      then let index = pend ! br_cursor s in
        s\<lparr>br_cursor := br_cursor s + 1, br_workers := (br_workers s)[w := Some index],
          br_calls := br_calls s @ [submission_of (rows ! index)]\<rparr>
      else s\<lparr>br_cursor := br_cursor s + 1, br_workers := (br_workers s)[w := None]\<rparr>)"

definition start_batch :: "payout_row list \<Rightarrow> int \<Rightarrow> string option \<Rightarrow> batch_storage \<Rightarrow> batch_run" where
  "start_batch rows concurrency batchId storage =
     (let entries = readCheckpoint storage batchId;
          n = worker_count concurrency rows
      in foldl (\<lambda>s w. take_next rows (pending_rows entries rows) w s)
           \<lparr>br_entries = entries, br_settled = map (\<lambda>row. map_get entries (pr_id row)) rows, br_cursor = 0,
            br_workers = replicate n None, br_storage = storage, br_calls = []\<rparr>
           [0..<n])"

text \<open>The answer to a worker's submission arrives.\<close>

record batch_event =
  be_worker :: nat
  be_outcome :: payout_outcome
  be_stored :: bool

definition settle_row ::
  "payout_row list \<Rightarrow> nat list \<Rightarrow> string option \<Rightarrow> batch_event \<Rightarrow> batch_run \<Rightarrow> batch_run option" where
  "settle_row rows pend batchId ev s =
     (case (if be_worker ev < length (br_workers s) then br_workers s ! be_worker ev else None) of
        None \<Rightarrow> None
      | Some index \<Rightarrow>
          (let entries = map_set (pr_id (rows ! index)) (be_outcome ev) (br_entries s) in
           Some (take_next rows pend (be_worker ev)
             (s\<lparr>br_settled := (br_settled s)[index := Some (be_outcome ev)], br_entries := entries,
                br_storage := writeCheckpoint (be_stored ev) (br_storage s) batchId entries\<rparr>))))"

fun batch_events ::
  "payout_row list \<Rightarrow> nat list \<Rightarrow> string option \<Rightarrow> batch_event list \<Rightarrow> batch_run \<Rightarrow> batch_run option" where
  "batch_events rows pend batchId [] s = Some s"
| "batch_events rows pend batchId (ev # evs) s =
     (case settle_row rows pend batchId ev s of None \<Rightarrow> None | Some s' \<Rightarrow> batch_events rows pend batchId evs s')"

definition executeBulkPayoutBatch ::
  "payout_row list \<Rightarrow> int \<Rightarrow> string option \<Rightarrow> batch_storage \<Rightarrow> batch_event list \<Rightarrow> batch_run option" where
  "executeBulkPayoutBatch rows concurrency batchId storage evs =
     batch_events rows (pending_rows (readCheckpoint storage batchId) rows) batchId evs
       (start_batch rows concurrency batchId storage)"

record batch_summary =
  bs_total :: nat
  bs_successful :: nat
  bs_failed :: nat
  bs_results :: "(payout_row \<times> payout_outcome) list"

definition summarize :: "nat \<Rightarrow> (payout_row \<times> payout_outcome) list \<Rightarrow> batch_summary" where
  "summarize n results =
     (let successful = length (filter (\<lambda>(row, out). out = Paid) results) in
      \<lparr>bs_total = n, bs_successful = successful, bs_failed = length results - successful, bs_results = results\<rparr>)"

definition batch_results :: "payout_row list \<Rightarrow> batch_run \<Rightarrow> (payout_row \<times> payout_outcome) list" where
  "batch_results rows s = List.map_filter (\<lambda>(row, r). map_option (\<lambda>out. (row, out)) r) (zip rows (br_settled s))"

definition batch_summary_of :: "payout_row list \<Rightarrow> batch_run \<Rightarrow> batch_summary" where
  "batch_summary_of rows s = summarize (length rows) (batch_results rows s)"

definition loadBulkPayoutCheckpoint :: "string \<Rightarrow> payout_row list \<Rightarrow> batch_storage \<Rightarrow> batch_summary option" where
  "loadBulkPayoutCheckpoint batchId rows storage =
     (let entries = readCheckpoint storage (Some batchId);
          results = List.map_filter (\<lambda>row. map_option (\<lambda>out. (row, out)) (map_get entries (pr_id row))) rows
      in if results = [] then None else Some (summarize (length rows) results))"

definition batch_id :: "payout_row list \<Rightarrow> string option" where
  "batch_id rows = (if rows = [] then None
     else Some (show_nat (length rows) @ CHR '':'' # concat (map (\<lambda>(i, row). (if i = 0 then [] else ''|'') @ pr_id row) (enumerate 0 rows))))"

section \<open>Invariant of the pool\<close>

text \<open>
  What the workers hold: no two the same, and together exactly the rows that are taken and not
  settled. The workers from \<open>k\<close> on have not started; the others rest only when nothing is left.
\<close>

definition held :: "nat option list \<Rightarrow> nat set" where
  "held ws = {i. \<exists>w < length ws. ws ! w = Some i}"

definition held_once :: "nat option list \<Rightarrow> bool" where
  "held_once ws = (\<forall>v < length ws. \<forall>w < length ws. \<forall>i. ws ! v = Some i \<longrightarrow> ws ! w = Some i \<longrightarrow> v = w)"

definition pool_ok :: "nat list \<Rightarrow> nat \<Rightarrow> nat option list \<Rightarrow> payout_outcome option list \<Rightarrow> bool" where
  "pool_ok pend c ws st =
     (held_once ws
      \<and> held ws = {i \<in> set (take c pend). st ! i = None}
      \<and> (\<forall>i \<in> set (drop c pend). st ! i = None))"

lemma held_release:
  assumes "held_once ws" "w < length ws" "ws ! w = Some i"
  shows "held (ws[w := None]) = held ws - {i}" "held_once (ws[w := None])"
proof -
  have one: "v = w" if "v < length ws" "ws ! v = Some i" for v
    using assms that unfolding held_once_def by blast
  show "held (ws[w := None]) = held ws - {i}"
  proof (intro set_eqI iffI)
    fix j assume "j \<in> held (ws[w := None])"
    then obtain v where "v < length ws" "ws[w := None] ! v = Some j" unfolding held_def by auto
    then show "j \<in> held ws - {i}" using assms(2,3) assms(1) unfolding held_def held_once_def
      by (cases "v = w") auto
  next
    fix j assume "j \<in> held ws - {i}"
    then obtain v where v: "v < length ws" "ws ! v = Some j" "j \<noteq> i" unfolding held_def by auto
    then have "v \<noteq> w" using assms(3) by auto
    with v show "j \<in> held (ws[w := None])" unfolding held_def by auto
  qed
  show "held_once (ws[w := None])"
    using assms(1) unfolding held_once_def by (metis length_list_update nth_list_update_eq nth_list_update_neq option.distinct(1))
qed

lemma held_grab:
  assumes "held_once ws" "w < length ws" "ws ! w = None" "i \<notin> held ws"
  shows "held (ws[w := Some i]) = insert i (held ws)" "held_once (ws[w := Some i])"
proof -
  show "held (ws[w := Some i]) = insert i (held ws)"
  proof (intro set_eqI iffI)
    fix j assume "j \<in> held (ws[w := Some i])"
    then obtain v where "v < length ws" "ws[w := Some i] ! v = Some j" unfolding held_def by auto
    then show "j \<in> insert i (held ws)" using assms(2) unfolding held_def by (cases "v = w") auto
  next
    fix j assume "j \<in> insert i (held ws)"
    then consider "j = i" | v where "v < length ws" "ws ! v = Some j" unfolding held_def by auto
    then show "j \<in> held (ws[w := Some i])"
    proof cases
      case 1
      with assms(2) show ?thesis unfolding held_def by auto
    next
      case (2 v)
      then have "v \<noteq> w" using assms(3) by auto
      with 2 show ?thesis unfolding held_def by auto
    qed
  qed
  show "held_once (ws[w := Some i])"
    unfolding held_once_def
  proof (intro allI impI)
    fix u v j
    assume h: "u < length (ws[w := Some i])" "v < length (ws[w := Some i])"
      "ws[w := Some i] ! u = Some j" "ws[w := Some i] ! v = Some j"
    have "ws ! x \<noteq> Some i" if "x < length ws" for x using assms(4) that by (auto simp: held_def)
    with h assms(1,2) show "u = v" unfolding held_once_def
      by (cases "u = w"; cases "v = w") auto
  qed
qed

lemma next_pending:
  assumes "c < length pend" "distinct pend"
  shows "set (take (Suc c) pend) = insert (pend ! c) (set (take c pend))" "pend ! c \<notin> set (take c pend)"
    "set (drop c pend) = insert (pend ! c) (set (drop (Suc c) pend))"
proof -
  show "set (take (Suc c) pend) = insert (pend ! c) (set (take c pend))"
    using assms(1) by (simp add: take_Suc_conv_app_nth)
  show "pend ! c \<notin> set (take c pend)" using assms by (auto simp: in_set_conv_nth nth_eq_iff_index_eq)
  show "set (drop c pend) = insert (pend ! c) (set (drop (Suc c) pend))"
    using assms(1) by (simp add: Cons_nth_drop_Suc [symmetric])
qed

lemma pool_ok_take:
  assumes "pool_ok pend c ws st" "distinct pend" "w < length ws" "ws ! w = None" "c < length pend"
  shows "pool_ok pend (Suc c) (ws[w := Some (pend ! c)]) st"
proof -
  note n = next_pending [OF assms(5,2)]
  have o: "held_once ws" and h: "held ws = {i \<in> set (take c pend). st ! i = None}"
    and d: "\<forall>i \<in> set (drop c pend). st ! i = None" using assms(1) by (simp_all add: pool_ok_def)
  have "pend ! c \<notin> held ws" using h n(2) by simp
  note g = held_grab [OF o assms(3,4) this]
  have "st ! (pend ! c) = None" using d n(3) by simp
  then have "held (ws[w := Some (pend ! c)]) = {i \<in> set (take (Suc c) pend). st ! i = None}"
    unfolding g(1) h n(1) by auto
  with g(2) d n(3) show ?thesis by (simp add: pool_ok_def)
qed

lemma pool_ok_rest: "pool_ok pend c ws st \<Longrightarrow> length pend \<le> c \<Longrightarrow> ws ! w = None \<Longrightarrow> pool_ok pend (Suc c) (ws[w := None]) st"
proof -
  assume "ws ! w = None"
  then have "ws[w := None] = ws" by (metis list_update_id)
  then show "pool_ok pend c ws st \<Longrightarrow> length pend \<le> c \<Longrightarrow> ?thesis" by (simp add: pool_ok_def)
qed

lemma pool_ok_settle:
  assumes "pool_ok pend c ws st" "distinct pend" "w < length ws" "ws ! w = Some i" "\<forall>j \<in> set pend. j < length st"
  shows "pool_ok pend c (ws[w := None]) (st[i := Some out])"
proof -
  have o: "held_once ws" and h: "held ws = {i \<in> set (take c pend). st ! i = None}"
    and d: "\<forall>i \<in> set (drop c pend). st ! i = None" using assms(1) by (simp_all add: pool_ok_def)
  have "i \<in> held ws" using assms(3,4) by (auto simp: held_def)
  then have i: "i \<in> set (take c pend)" using h by blast
  then have "i < length st" using assms(5) in_set_takeD by fast
  moreover have "i \<notin> set (drop c pend)"
    using i assms(2) by (metis append_take_drop_id disjoint_iff distinct_append)
  ultimately show ?thesis
    using held_release [OF o assms(3,4)] h d by (auto simp: pool_ok_def nth_list_update)
qed

section \<open>Invariant of a run\<close>

text \<open>A worker outside \<open>F\<close> rests only when nothing is left.\<close>

definition busy_inv :: "nat \<Rightarrow> nat \<Rightarrow> nat set \<Rightarrow> nat option list \<Rightarrow> bool" where
  "busy_inv left c F ws = (\<forall>w < length ws. ws ! w = None \<longrightarrow> w \<in> F \<or> left \<le> c)"

definition results_inv :: "payout_row list \<Rightarrow> batch_entries \<Rightarrow> batch_entries \<Rightarrow> payout_outcome option list \<Rightarrow> bool" where
  "results_inv rows old entries st =
     (length st = length rows
      \<and> (\<forall>i < length rows. st ! i = map_get entries (pr_id (rows ! i)))
      \<and> (\<forall>i < length rows. map_get old (pr_id (rows ! i)) \<noteq> None \<longrightarrow> st ! i = map_get old (pr_id (rows ! i))))"

definition run_inv :: "payout_row list \<Rightarrow> batch_entries \<Rightarrow> nat \<Rightarrow> nat set \<Rightarrow> batch_run \<Rightarrow> bool" where
  "run_inv rows old n F s =
     (let pend = pending_rows old rows in
      pool_ok pend (br_cursor s) (br_workers s) (br_settled s)
      \<and> length (br_workers s) = n
      \<and> busy_inv (length pend) (br_cursor s) F (br_workers s)
      \<and> results_inv rows old (br_entries s) (br_settled s)
      \<and> br_calls s = map (\<lambda>i. submission_of (rows ! i)) (take (br_cursor s) pend))"

lemma pending_in [simp]: "i \<in> set (pending_rows old rows) \<longleftrightarrow> i < length rows \<and> map_get old (pr_id (rows ! i)) = None"
  by (auto simp: pending_rows_def)

lemma pending_distinct [simp]: "distinct (pending_rows old rows)"
  by (simp add: pending_rows_def)

lemma busy_update:
  assumes "busy_inv left c F ws" "c \<le> c'" "F - {w} \<subseteq> F'" "x = None \<longrightarrow> w \<in> F'"
  shows "busy_inv left c' F' (ws[w := x])"
  unfolding busy_inv_def
proof (intro allI impI)
  fix v assume "v < length (ws[w := x])" "ws[w := x] ! v = None"
  with assms show "v \<in> F' \<or> left \<le> c'" by (cases "v = w") (auto simp: busy_inv_def)
qed

lemma run_inv_take:
  assumes "run_inv rows old n F s" "w < n" "br_workers s ! w = None"
  shows "run_inv rows old n (F - {w}) (take_next rows (pending_rows old rows) w s)"
proof -
  let ?p = "pending_rows old rows"
  have ok: "pool_ok ?p (br_cursor s) (br_workers s) (br_settled s)" "length (br_workers s) = n"
    and busy: "busy_inv (length ?p) (br_cursor s) F (br_workers s)"
    and res: "results_inv rows old (br_entries s) (br_settled s)"
    and calls: "br_calls s = map (\<lambda>i. submission_of (rows ! i)) (take (br_cursor s) ?p)"
    using assms(1) by (simp_all add: run_inv_def Let_def)
  show ?thesis
  proof (cases "br_cursor s < length ?p")
    case True
    have "pool_ok ?p (Suc (br_cursor s)) ((br_workers s)[w := Some (?p ! br_cursor s)]) (br_settled s)"
      using ok assms(2,3) True by (intro pool_ok_take) simp_all
    moreover have "busy_inv (length ?p) (Suc (br_cursor s)) (F - {w}) ((br_workers s)[w := Some (?p ! br_cursor s)])"
      by (rule busy_update [OF busy]) auto
    ultimately show ?thesis
      using True ok(2) res calls by (simp add: run_inv_def take_next_def Let_def take_Suc_conv_app_nth)
  next
    case False
    then have "pool_ok ?p (Suc (br_cursor s)) ((br_workers s)[w := None]) (br_settled s)"
      using ok assms(3) by (intro pool_ok_rest) simp_all
    with False ok(2) res calls show ?thesis
      by (simp add: run_inv_def take_next_def Let_def busy_inv_def)
  qed
qed

lemma take_next_workers: "v \<noteq> w \<Longrightarrow> br_workers (take_next rows pend w s) ! v = br_workers s ! v"
  by (simp add: take_next_def Let_def)

lemma run_inv_start:
  "run_inv rows (readCheckpoint storage batchId) (worker_count concurrency rows) {}
     (start_batch rows concurrency batchId storage)"
proof -
  let ?old = "readCheckpoint storage batchId" and ?n = "worker_count concurrency rows"
  define s0 where "s0 = \<lparr>br_entries = ?old, br_settled = map (\<lambda>row. map_get ?old (pr_id row)) rows, br_cursor = 0,
    br_workers = replicate ?n None, br_storage = storage, br_calls = []\<rparr>"
  let ?s = "\<lambda>k. foldl (\<lambda>s w. take_next rows (pending_rows ?old rows) w s) s0 [0..<k]"
  have "run_inv rows ?old ?n {k..<?n} (?s k) \<and> (\<forall>w. k \<le> w \<and> w < ?n \<longrightarrow> br_workers (?s k) ! w = None)" if "k \<le> ?n" for k
    using that
  proof (induction k)
    case 0
    have "held (replicate ?n None) = {}" "held_once (replicate ?n None)" by (simp_all add: held_def held_once_def)
    then show ?case by (simp add: run_inv_def s0_def pool_ok_def busy_inv_def results_inv_def)
  next
    case (Suc k)
    then have inv: "run_inv rows ?old ?n {k..<?n} (?s k)" and k: "br_workers (?s k) ! k = None" by simp_all
    have "{k..<?n} - {k} = {Suc k..<?n}" by auto
    with run_inv_take [OF inv _ k] Suc take_next_workers show ?case by simp
  qed
  from this [of ?n] show ?thesis by (simp add: start_batch_def s0_def Let_def)
qed

lemma run_inv_settle:
  assumes "run_inv rows old n {} s" "distinct (map pr_id rows)" "settle_row rows (pending_rows old rows) batchId ev s = Some s'"
  shows "run_inv rows old n {} s'"
    and "\<exists>i < length rows. map_get old (pr_id (rows ! i)) = None \<and> br_settled s ! i = None
      \<and> br_settled s' = (br_settled s)[i := Some (be_outcome ev)]
      \<and> br_entries s' = map_set (pr_id (rows ! i)) (be_outcome ev) (br_entries s)
      \<and> br_storage s' = writeCheckpoint (be_stored ev) (br_storage s) batchId (br_entries s')"
proof -
  let ?p = "pending_rows old rows" and ?w = "be_worker ev" and ?out = "be_outcome ev"
  have ok: "pool_ok ?p (br_cursor s) (br_workers s) (br_settled s)" "length (br_workers s) = n"
    and busy: "busy_inv (length ?p) (br_cursor s) {} (br_workers s)"
    and res: "results_inv rows old (br_entries s) (br_settled s)"
    and calls: "br_calls s = map (\<lambda>i. submission_of (rows ! i)) (take (br_cursor s) ?p)"
    using assms(1) by (simp_all add: run_inv_def Let_def)
  obtain i where w: "?w < n" "br_workers s ! ?w = Some i"
    using assms(3) ok(2) by (auto simp: settle_row_def split: if_splits option.splits)
  have "i \<in> held (br_workers s)" using w ok(2) by (auto simp: held_def)
  then have i: "i < length rows" "map_get old (pr_id (rows ! i)) = None" "br_settled s ! i = None"
    using ok(1) by (auto simp: pool_ok_def dest!: in_set_takeD)
  define t where "t = s\<lparr>br_settled := (br_settled s)[i := Some ?out],
     br_entries := map_set (pr_id (rows ! i)) ?out (br_entries s),
     br_storage := writeCheckpoint (be_stored ev) (br_storage s) batchId (map_set (pr_id (rows ! i)) ?out (br_entries s)),
     br_workers := (br_workers s)[?w := None]\<rparr>"
  have s': "s' = take_next rows ?p ?w t"
    using assms(3) w ok(2) by (auto simp: settle_row_def take_next_def t_def Let_def)
  have "pool_ok ?p (br_cursor t) (br_workers t) (br_settled t)"
    using pool_ok_settle [OF ok(1) pending_distinct _ w(2)] ok(2) w(1) res by (simp add: t_def results_inv_def)
  moreover have "busy_inv (length ?p) (br_cursor t) {?w} (br_workers t)"
    using busy_update [OF busy, of "br_cursor s" ?w "{?w}" None] by (simp add: t_def)
  moreover have "results_inv rows old (br_entries t) (br_settled t)"
  proof -
    have "pr_id (rows ! j) = pr_id (rows ! i) \<longleftrightarrow> j = i" if "j < length rows" for j
      using assms(2) i(1) that by (metis distinct_conv_nth length_map nth_map)
    with res i show ?thesis by (auto simp: results_inv_def t_def nth_list_update map_get_set)
  qed
  moreover have "br_calls t = map (\<lambda>i. submission_of (rows ! i)) (take (br_cursor t) ?p)" "length (br_workers t) = n"
    "br_workers t ! ?w = None"
    using calls ok(2) w(1) by (simp_all add: t_def)
  ultimately have "run_inv rows old n {?w} t" "br_workers t ! ?w = None" by (simp_all add: run_inv_def)
  from run_inv_take [OF this(1) w(1) this(2)] show "run_inv rows old n {} s'" by (simp add: s')
  show "\<exists>i < length rows. map_get old (pr_id (rows ! i)) = None \<and> br_settled s ! i = None
      \<and> br_settled s' = (br_settled s)[i := Some (be_outcome ev)]
      \<and> br_entries s' = map_set (pr_id (rows ! i)) (be_outcome ev) (br_entries s)
      \<and> br_storage s' = writeCheckpoint (be_stored ev) (br_storage s) batchId (br_entries s')"
    using i by (intro exI [of _ i]) (simp add: s' take_next_def t_def Let_def)
qed

section \<open>Whole runs\<close>

definition open_rows :: "batch_run \<Rightarrow> nat" where
  "open_rows s = length (filter (\<lambda>r. r = None) (br_settled s))"

lemma open_rows_update: "i < length st \<Longrightarrow> st ! i = None \<Longrightarrow>
    length (filter (\<lambda>r. r = None) st) = Suc (length (filter (\<lambda>r. r = None) (st[i := Some x])))"
  by (induction st arbitrary: i) (auto simp: nth_Cons split: nat.splits)

definition well_stored :: "string option \<Rightarrow> batch_run \<Rightarrow> bool" where
  "well_stored batchId s = (readCheckpoint (br_storage s) batchId = br_entries s \<and> br_storage s \<noteq> None)"

lemma write_then_read:
  "\<not> no_batch batchId \<Longrightarrow> storage \<noteq> None \<Longrightarrow>
     readCheckpoint (writeCheckpoint True storage batchId entries) batchId = entries \<and> writeCheckpoint True storage batchId entries \<noteq> None"
  by (auto simp: readCheckpoint_def writeCheckpoint_def no_batch_def)

lemma run_inv_events:
  assumes "run_inv rows old n {} s" "distinct (map pr_id rows)" "batch_events rows (pending_rows old rows) batchId evs s = Some s'"
  shows "run_inv rows old n {} s' \<and> open_rows s' + length evs = open_rows s
    \<and> (well_stored batchId s \<and> \<not> no_batch batchId \<and> list_all be_stored evs \<longrightarrow> well_stored batchId s')"
  using assms(1,3)
proof (induction evs arbitrary: s)
  case Nil
  then show ?case by simp
next
  case (Cons ev evs)
  obtain s1 where s1: "settle_row rows (pending_rows old rows) batchId ev s = Some s1"
    "batch_events rows (pending_rows old rows) batchId evs s1 = Some s'"
    using Cons.prems(2) by (auto split: option.splits)
  note inv = run_inv_settle [OF Cons.prems(1) assms(2) s1(1)]
  obtain i where i: "i < length rows" "br_settled s ! i = None" "br_settled s1 = (br_settled s)[i := Some (be_outcome ev)]"
    "br_storage s1 = writeCheckpoint (be_stored ev) (br_storage s) batchId (br_entries s1)"
    using inv(2) by blast
  have "length (br_settled s) = length rows" using Cons.prems(1) by (simp add: run_inv_def results_inv_def Let_def)
  then have "open_rows s = Suc (open_rows s1)"
    using open_rows_update [of i "br_settled s"] i(1-3) by (simp add: open_rows_def)
  moreover have "well_stored batchId s1" if "well_stored batchId s" "\<not> no_batch batchId" "be_stored ev"
    using that write_then_read [of batchId "br_storage s" "br_entries s1"] i(4) by (simp add: well_stored_def)
  ultimately show ?case using Cons.IH [OF inv(1) s1(2)] by auto
qed

lemma worker_count_pos: "0 < worker_count concurrency rows"
  by (simp add: worker_count_def)

lemma worker_count_le: "worker_count concurrency rows \<le> nat (max 1 concurrency)"
  by (simp add: worker_count_def)

lemma someone_busy:
  assumes "run_inv rows old n {} s" "0 < n" "0 < open_rows s"
  shows "\<exists>w < n. br_workers s ! w \<noteq> None"
proof -
  let ?p = "pending_rows old rows"
  have ok: "pool_ok ?p (br_cursor s) (br_workers s) (br_settled s)" and len: "length (br_workers s) = n"
    and busy: "busy_inv (length ?p) (br_cursor s) {} (br_workers s)"
    and res: "results_inv rows old (br_entries s) (br_settled s)"
    using assms(1) by (simp_all add: run_inv_def Let_def)
  from assms(3) obtain i where i: "i < length rows" "br_settled s ! i = None"
    using res by (auto simp: open_rows_def results_inv_def filter_empty_conv in_set_conv_nth length_greater_0_conv)
  then have "i \<in> set ?p" using res by (auto simp: results_inv_def)
  then consider "i \<in> set (take (br_cursor s) ?p)" | "br_cursor s < length ?p"
    by (metis append_take_drop_id Un_iff drop_all empty_iff linorder_not_le list.set(1) set_append)
  then show ?thesis
  proof cases
    case 1
    then have "i \<in> held (br_workers s)" using ok i(2) by (simp add: pool_ok_def)
    then show ?thesis using len by (auto simp: held_def)
  next
    case 2
    then show ?thesis using busy assms(2) len by (auto simp: busy_inv_def)
  qed
qed

lemma start_open: "open_rows (start_batch rows concurrency batchId storage)
    = length (pending_rows (readCheckpoint storage batchId) rows)"
proof -
  let ?old = "readCheckpoint storage batchId" and ?p = "pending_rows (readCheckpoint storage batchId) rows"
  have k: "br_settled (foldl (\<lambda>s w. take_next rows ?p w s) s ws) = br_settled s" for s ws
    by (induction ws arbitrary: s) (simp_all add: take_next_def Let_def)
  have "br_settled (start_batch rows concurrency batchId storage) = map (\<lambda>row. map_get ?old (pr_id row)) rows"
    by (simp add: start_batch_def Let_def k)
  also have "\<dots> = map (\<lambda>i. map_get ?old (pr_id (rows ! i))) [0..<length rows]"
    by (rule nth_equalityI) simp_all
  finally show ?thesis by (simp add: open_rows_def pending_rows_def filter_map comp_def)
qed

lemma start_stored: "storage \<noteq> None \<Longrightarrow> well_stored batchId (start_batch rows concurrency batchId storage)"
proof -
  have k: "br_storage (foldl (\<lambda>s w. take_next rows p w s) s ws) = br_storage s \<and> br_entries (foldl (\<lambda>s w. take_next rows p w s) s ws) = br_entries s" for p s ws
    by (induction ws arbitrary: s) (simp_all add: take_next_def Let_def)
  show "storage \<noteq> None \<Longrightarrow> ?thesis" by (simp add: well_stored_def start_batch_def Let_def k)
qed

lemmas batch_run_facts = run_inv_events [OF run_inv_start]

section \<open>Row ids\<close>

lemma row_id_line: "row_id l r a = row_id l' r' a' \<Longrightarrow> l = l'"
proof -
  assume "row_id l r a = row_id l' r' a'"
  then have "show_nat l @ CHR ''-'' # (r @ CHR ''-'' # a) = show_nat l' @ CHR ''-'' # (r' @ CHR ''-'' # a')"
    by (simp add: row_id_def)
  moreover have "\<not> is_digit_char CHR ''-''" by code_simp
  ultimately show "l = l'" using digits_then_stop [OF show_nat_digits show_nat_digits] show_nat_inj by blast
qed

lemma parse_row_line: "pr_id (parse_row a b c l cells) = pr_id (parse_row a b c l' cells') \<Longrightarrow> l = l'"
  by (auto simp: parse_row_def createRow_def Let_def dest: row_id_line)

lemma parsed_ids_distinct: "distinct (map pr_id (pt_validRows (parseBulkPayoutCsv csv)))"
proof (cases "parseCsvRecords csv")
  case Nil
  then show ?thesis by (simp add: parseBulkPayoutCsv_def toParseResult_def)
next
  case (Cons first others)
  let ?some = "filter (\<lambda>(i, cells). \<exists>cell \<in> set cells. \<not> is_blank cell) (enumerate 0 others)"
  have "distinct (map fst ?some)" by (intro distinct_map_filter) simp
  moreover have "inj_on (\<lambda>(i, cells). pr_id (parse_row a b c (i + 2) cells)) (set ?some)" if "distinct (map fst ?some)" for a b c
  proof (rule inj_onI)
    fix x y assume xy: "x \<in> set ?some" "y \<in> set ?some"
      "(case x of (i, cells) \<Rightarrow> pr_id (parse_row a b c (i + 2) cells)) = (case y of (i, cells) \<Rightarrow> pr_id (parse_row a b c (i + 2) cells))"
    from xy(3) have "fst x + 2 = fst y + 2"
      by (cases x; cases y) (auto dest: parse_row_line)
    then show "x = y" using that xy(1,2) unfolding distinct_map by (intro inj_onD [of fst "set ?some"]) simp_all
  qed
  ultimately have d: "distinct (map pr_id (map (\<lambda>(i, cells). parse_row a b c (i + 2) cells) ?some))" for a b c
    by (auto simp: distinct_map comp_def case_prod_unfold)
  then have "distinct (map pr_id (filter P (map (\<lambda>(i, cells). parse_row a b c (i + 2) cells) ?some)))" for a b c P
    by (intro distinct_map_filter)
  then show ?thesis unfolding parseBulkPayoutCsv_def Cons
    by (auto simp: toParseResult_def Let_def createRow_def)
qed

definition id_ok :: "payout_row \<Rightarrow> bool" where
  "id_ok row = (pr_id row = row_id (pr_lineNumber row) (pr_recipient row) (pr_amount row))"

lemma id_ok_created [simp]: "id_ok (createRow l r a x es)" "id_ok (parse_row i j k l cells)"
  by (simp_all add: id_ok_def createRow_def parse_row_def Let_def)

lemma id_ok_table: "list_all id_ok rows \<Longrightarrow> list_all id_ok (pt_validRows (toParseResult rows))"
  by (auto simp: toParseResult_def Let_def list_all_iff)

lemma id_ok_choice: "list_all id_ok as \<Longrightarrow> list_all id_ok bs \<Longrightarrow>
    list_all id_ok (pt_validRows (if P then toParseResult as else toParseResult bs))"
  by (simp add: id_ok_table)

lemma parsed_row_id: "list_all id_ok (pt_validRows (parseBulkPayoutCsv csv))"
proof (cases "parseCsvRecords csv")
  case Nil
  then show ?thesis using id_ok_table [of "[]"] by (simp add: parseBulkPayoutCsv_def)
next
  case (Cons first others)
  have "list_all id_ok (map (\<lambda>(i, cells). parse_row a b c (i + 2) cells) xs)" for a b c xs
    by (auto simp: list_all_iff)
  then show ?thesis unfolding parseBulkPayoutCsv_def Cons list.case Let_def by (intro id_ok_choice) simp_all
qed

lemma submission_id: "submission_of a = submission_of b \<Longrightarrow> pr_id a = pr_id b"
  by (simp add: submission_of_def)

lemma calls_of:
  assumes "run_inv rows old n F s" "c \<in> set (br_calls s)"
  shows "\<exists>i < length rows. c = submission_of (rows ! i) \<and> map_get old (pr_id (rows ! i)) = None
    \<and> (br_settled s ! i = None \<longrightarrow> i \<in> held (br_workers s))"
proof -
  have calls: "br_calls s = map (\<lambda>i. submission_of (rows ! i)) (take (br_cursor s) (pending_rows old rows))"
    and ok: "pool_ok (pending_rows old rows) (br_cursor s) (br_workers s) (br_settled s)"
    using assms(1) by (simp_all add: run_inv_def Let_def)
  from assms(2) obtain i where i: "i \<in> set (take (br_cursor s) (pending_rows old rows))" "c = submission_of (rows ! i)"
    unfolding calls by auto
  then have "i \<in> set (pending_rows old rows)" by (blast dest: in_set_takeD)
  with i ok show ?thesis by (auto simp: pool_ok_def)
qed

lemma calls_distinct:
  assumes "run_inv rows old n F s" "distinct (map pr_id rows)"
  shows "distinct (map ps_idempotencyKey (br_calls s))"
proof -
  have "inj_on (\<lambda>i. ''bulk-payout-'' @ pr_id (rows ! i)) {..<length rows}"
    using assms(2) by (auto simp: inj_on_def distinct_conv_nth)
  then have "inj_on (\<lambda>i. ''bulk-payout-'' @ pr_id (rows ! i)) (set (take (br_cursor s) (pending_rows old rows)))"
    by (rule inj_on_subset) (auto dest!: in_set_takeD)
  then show ?thesis using assms(1)
    by (simp add: run_inv_def Let_def distinct_map comp_def submission_of_def)
qed

text \<open>A concrete table: one payout to the address of a 32-byte key.\<close>

definition demo_address :: string where
  "demo_address = encodeEd25519PublicKey (replicate 32 7)"

definition demo_table :: string where
  "demo_table = one_payout demo_address"

definition demo_row :: payout_row where
  "demo_row = createRow 2 demo_address ''2.5'' None []"

lemma demo_rows: "pt_validRows (parseBulkPayoutCsv demo_table) = [demo_row]"
proof -
  have "isValidEd25519PublicKey demo_address"
    unfolding demo_address_def by (rule encoded_key_valid) (simp_all add: bytes_ok_def list_all_iff)
  from parse_one_payout [OF this] show ?thesis
    by (simp add: demo_table_def demo_row_def toParseResult_def createRow_def Let_def)
qed

definition demo_run :: batch_run where
  "demo_run = \<lparr>br_entries = [], br_settled = [None], br_cursor = 1, br_workers = [Some 0],
     br_storage = Some None, br_calls = [submission_of demo_row]\<rparr>"

lemma demo_start: "start_batch [demo_row] 4 (Some ''b'') (Some None) = demo_run"
  by (simp add: start_batch_def readCheckpoint_def no_batch_def worker_count_def pending_rows_def take_next_def
      demo_run_def map_get_def Let_def)

lemma demo_pending: "pending_rows (readCheckpoint (Some None) (Some ''b'')) [demo_row] = [0]"
  by (simp add: readCheckpoint_def no_batch_def pending_rows_def map_get_def)

lemma demo_executed: "executeBulkPayoutBatch [demo_row] 4 (Some ''b'') (Some None) [] = Some demo_run"
  by (simp add: executeBulkPayoutBatch_def demo_start)

section \<open>Properties\<close>

text \<open>
  A totals line is exact: reading the shown total back gives the sum of the valid rows, in stroops,
  of the very amounts that are submitted.
\<close>

theorem payout_total_exact:
  "decimalToStroops (pt_totalAmount (parseBulkPayoutCsv csv))
     = sum_list (map (\<lambda>row. decimalToStroops (ps_amount (submission_of row))) (pt_validRows (parseBulkPayoutCsv csv)))"
proof -
  have t: "decimalToStroops (pt_totalAmount (toParseResult rows))
      = sum_list (map (\<lambda>row. decimalToStroops (pr_amount row)) (pt_validRows (toParseResult rows)))" for rows
  proof -
    have "foldl (\<lambda>sum r. sum + decimalToStroops (pr_amount r)) n rs = n + sum_list (map (\<lambda>r. decimalToStroops (pr_amount r)) rs)" for n and rs :: "payout_row list"
      by (induction rs arbitrary: n) simp_all
    then show ?thesis by (simp add: toParseResult_def Let_def stroops_roundtrip)
  qed
  have "\<exists>rows. parseBulkPayoutCsv csv = toParseResult rows"
    by (auto simp: parseBulkPayoutCsv_def Let_def split: list.splits)
  then show ?thesis using t by (auto simp: submission_of_def)
qed

text \<open>
  C4. Within one execution of a parsed batch, in whatever order the answers come, no payout is
  submitted twice, no row recorded in the checkpoint is submitted at all, and never more than the
  chosen number of submissions are under way.
\<close>

theorem batch_submits_once:
  assumes "rows = pt_validRows (parseBulkPayoutCsv csv)"
    and "executeBulkPayoutBatch rows concurrency batchId storage evs = Some s"
  shows "distinct (map ps_idempotencyKey (br_calls s))
    \<and> (\<forall>row \<in> set rows. submission_of row \<in> set (br_calls s) \<longrightarrow> map_get (readCheckpoint storage batchId) (pr_id row) = None)
    \<and> length (filter (\<lambda>w. w \<noteq> None) (br_workers s)) \<le> nat (max 1 concurrency)"
proof -
  let ?old = "readCheckpoint storage batchId" and ?n = "worker_count concurrency rows"
  have d: "distinct (map pr_id rows)" unfolding assms(1) by (rule parsed_ids_distinct)
  have inv: "run_inv rows ?old ?n {} s"
    using batch_run_facts [OF d assms(2) [unfolded executeBulkPayoutBatch_def]] by blast
  have "length (filter (\<lambda>w. w \<noteq> None) (br_workers s)) \<le> ?n"
    using inv length_filter_le [of "\<lambda>w. w \<noteq> None" "br_workers s"] by (simp add: run_inv_def Let_def)
  moreover have "map_get ?old (pr_id row) = None" if "submission_of row \<in> set (br_calls s)" for row
  proof -
    from calls_of [OF inv that] obtain i where "submission_of row = submission_of (rows ! i)" "map_get ?old (pr_id (rows ! i)) = None"
      by blast
    then show ?thesis using submission_id by metis
  qed
  ultimately show ?thesis using calls_distinct [OF inv d] worker_count_le [of concurrency rows] by auto
qed

lemma batch_submits_once_witness:
  "executeBulkPayoutBatch [demo_row] 4 (Some ''b'') (Some None) [] = Some demo_run
    \<and> distinct (map ps_idempotencyKey (br_calls demo_run)) \<and> length (filter (\<lambda>w. w \<noteq> None) (br_workers demo_run)) \<le> 4"
  using batch_submits_once [OF demo_rows [symmetric] demo_executed] demo_executed by simp

text \<open>
  C5. A batch ends: as long as fewer answers have come than rows were pending, some worker waits for
  one and any answer to it moves the batch on; after one answer per pending row every row is settled,
  each pending row has been submitted once in order, and the summary lists all rows in the order of
  the table with the successes and failures adding up to their number.
\<close>

theorem batch_finishes:
  assumes "rows = pt_validRows (parseBulkPayoutCsv csv)"
    and "executeBulkPayoutBatch rows concurrency batchId storage evs = Some s"
    and "pend = pending_rows (readCheckpoint storage batchId) rows"
  shows "length evs \<le> length pend
    \<and> (length evs < length pend \<longrightarrow> (\<exists>w. \<forall>out stored. settle_row rows pend batchId \<lparr>be_worker = w, be_outcome = out, be_stored = stored\<rparr> s \<noteq> None))
    \<and> (length evs = length pend \<longrightarrow>
         br_calls s = map (\<lambda>i. submission_of (rows ! i)) pend
         \<and> (\<forall>w < length (br_workers s). br_workers s ! w = None)
         \<and> (case batch_summary_of rows s of summary \<Rightarrow> map fst (bs_results summary) = rows \<and> bs_total summary = length rows
              \<and> bs_successful summary + bs_failed summary = length rows))"
proof -
  let ?old = "readCheckpoint storage batchId" and ?n = "worker_count concurrency rows"
  have d: "distinct (map pr_id rows)" unfolding assms(1) by (rule parsed_ids_distinct)
  have inv: "run_inv rows ?old ?n {} s" and cnt: "open_rows s + length evs = length pend"
    using batch_run_facts [OF d assms(2) [unfolded executeBulkPayoutBatch_def]] by (simp_all add: start_open assms(3))
  have len: "length (br_workers s) = ?n" using inv by (simp add: run_inv_def Let_def)
  have more: "\<exists>w. \<forall>out stored. settle_row rows pend batchId \<lparr>be_worker = w, be_outcome = out, be_stored = stored\<rparr> s \<noteq> None"
    if less: "length evs < length pend"
  proof -
    have "0 < open_rows s" using cnt less by simp
    from someone_busy [OF inv worker_count_pos this] obtain w i where "w < ?n" "br_workers s ! w = Some i" by auto
    then show ?thesis using len by (intro exI [of _ w]) (simp add: settle_row_def Let_def)
  qed
  have finished: "br_calls s = map (\<lambda>i. submission_of (rows ! i)) pend
      \<and> (\<forall>w < length (br_workers s). br_workers s ! w = None)
      \<and> (case batch_summary_of rows s of summary \<Rightarrow> map fst (bs_results summary) = rows \<and> bs_total summary = length rows
           \<and> bs_successful summary + bs_failed summary = length rows)"
    if all: "length evs = length pend"
  proof -
    have lst: "length (br_settled s) = length rows" using inv by (simp add: run_inv_def results_inv_def Let_def)
    have none: "filter (\<lambda>r. r = None) (br_settled s) = []" using cnt all by (simp add: open_rows_def)
    then have st: "br_settled s ! i \<noteq> None" if "i < length rows" for i
      using that lst by (auto simp: filter_empty_conv)
    have ok: "pool_ok pend (br_cursor s) (br_workers s) (br_settled s)"
      and calls: "br_calls s = map (\<lambda>i. submission_of (rows ! i)) (take (br_cursor s) pend)"
      using inv by (simp_all add: run_inv_def Let_def assms(3))
    have p: "i < length rows" if "i \<in> set pend" for i using that by (simp add: assms(3))
    have "drop (br_cursor s) pend = []"
    proof (cases "drop (br_cursor s) pend")
      case (Cons j js)
      then have j: "j \<in> set (drop (br_cursor s) pend)" by simp
      then have "br_settled s ! j = None" using ok by (simp add: pool_ok_def)
      moreover have "br_settled s ! j \<noteq> None" using st p [OF in_set_dropD [OF j]] by blast
      ultimately show ?thesis by contradiction
    qed simp
    then have t: "take (br_cursor s) pend = pend" by simp
    have empty: "held (br_workers s) = {}" using ok p st by (auto simp: pool_ok_def dest!: in_set_takeD)
    then have idle: "\<forall>w < length (br_workers s). br_workers s ! w = None"
    proof (intro allI impI)
      fix w assume w: "w < length (br_workers s)"
      show "br_workers s ! w = None"
      proof (cases "br_workers s ! w")
        case (Some i)
        with w have "i \<in> held (br_workers s)" by (auto simp: held_def)
        then show ?thesis by (simp add: empty)
      qed
    qed
    have results: "batch_results rows s = zip rows (map the (br_settled s))"
    proof -
      have "List.map_filter (\<lambda>(row, r). map_option (\<lambda>out. (row, out)) r) (zip rs xs) = zip rs (map the xs)"
        if "\<forall>x \<in> set xs. x \<noteq> None" "length rs = length xs" for rs :: "payout_row list" and xs :: "payout_outcome option list"
        using that(2,1) by (induction rs xs rule: list_induct2) (auto simp: List.map_filter_def)
      then show ?thesis using none lst by (simp add: batch_results_def filter_empty_conv)
    qed
    have "length (filter P xs) + (length xs - length (filter P xs)) = length xs" for P and xs :: "(payout_row \<times> payout_outcome) list"
      using length_filter_le [of P xs] by simp
    from this [of "\<lambda>(row, out). out = Paid" "zip rows (map the (br_settled s))"] results lst t calls idle show ?thesis
      by (simp add: batch_summary_of_def summarize_def Let_def)
  qed
  from cnt more finished show ?thesis by auto
qed

lemma batch_finishes_witness:
  "\<exists>w. \<forall>out stored. settle_row [demo_row] [0] (Some ''b'') \<lparr>be_worker = w, be_outcome = out, be_stored = stored\<rparr> demo_run \<noteq> None"
  using batch_finishes [OF demo_rows [symmetric] demo_executed demo_pending [symmetric]] by simp

lemma held_card: "finite (held ws) \<and> card (held ws) \<le> length ws"
proof -
  have "held ws \<subseteq> (\<lambda>w. the (ws ! w)) ` {..<length ws}" by (force simp: held_def)
  then show ?thesis
    by (metis card_image_le card_lessThan card_mono finite_imageI finite_lessThan finite_subset le_trans)
qed

text \<open>
  C8. A batch that dies at any point and is run again from its checkpoint (every write accepted): a
  row that was settled before, paid or failed, is not submitted again; what is submitted a second time
  was under way when the batch died, at most as many submissions as there were workers, and carries
  the same idempotency key.
\<close>

theorem resumed_batch_skips_settled:
  assumes "rows = pt_validRows (parseBulkPayoutCsv csv)" "storage \<noteq> None" "\<not> no_batch batchId"
    and "executeBulkPayoutBatch rows concurrency batchId storage evs = Some dead" "list_all be_stored evs"
    and "executeBulkPayoutBatch rows concurrency batchId (br_storage dead) evs' = Some s"
  shows "(\<forall>row \<in> set rows. map_get (br_entries dead) (pr_id row) \<noteq> None \<longrightarrow> submission_of row \<notin> set (br_calls s))
    \<and> length (filter (\<lambda>call. ps_idempotencyKey call \<in> ps_idempotencyKey ` set (br_calls dead)) (br_calls s)) \<le> nat (max 1 concurrency)"
proof -
  let ?old = "readCheckpoint storage batchId" and ?new = "readCheckpoint (br_storage dead) batchId"
  let ?n = "worker_count concurrency rows"
  have d: "distinct (map pr_id rows)" unfolding assms(1) by (rule parsed_ids_distinct)
  have dead: "run_inv rows ?old ?n {} dead" "?new = br_entries dead"
    using batch_run_facts [OF d assms(4) [unfolded executeBulkPayoutBatch_def]] start_stored [OF assms(2)] assms(3,5)
    by (auto simp: well_stored_def)
  have s: "run_inv rows ?new ?n {} s"
    using batch_run_facts [OF d assms(6) [unfolded executeBulkPayoutBatch_def]] by blast
  have same: "i = j" if "i < length rows" "j < length rows" "pr_id (rows ! i) = pr_id (rows ! j)" for i j
    using d that by (metis distinct_conv_nth length_map nth_map)
  have skip: "submission_of row \<notin> set (br_calls s)" if "map_get (br_entries dead) (pr_id row) \<noteq> None" for row
  proof
    assume "submission_of row \<in> set (br_calls s)"
    from calls_of [OF s this] obtain i where "submission_of row = submission_of (rows ! i)" "map_get ?new (pr_id (rows ! i)) = None"
      by blast
    then show False using submission_id dead(2) that by metis
  qed
  let ?again = "filter (\<lambda>call. ps_idempotencyKey call \<in> ps_idempotencyKey ` set (br_calls dead)) (br_calls s)"
  have "set ?again \<subseteq> (\<lambda>i. submission_of (rows ! i)) ` held (br_workers dead)"
  proof
    fix call assume c: "call \<in> set ?again"
    then obtain call' where c': "call' \<in> set (br_calls dead)" "ps_idempotencyKey call = ps_idempotencyKey call'" by auto
    from c have "call \<in> set (br_calls s)" by simp
    from calls_of [OF s this] obtain i where i: "i < length rows" "call = submission_of (rows ! i)"
      "map_get (br_entries dead) (pr_id (rows ! i)) = None" unfolding dead(2) by (elim exE conjE)
    from calls_of [OF dead(1) c'(1)] obtain j where j: "j < length rows" "call' = submission_of (rows ! j)"
      "br_settled dead ! j = None \<longrightarrow> j \<in> held (br_workers dead)" by (elim exE conjE)
    have "pr_id (rows ! i) = pr_id (rows ! j)" using c'(2) i(2) j(2) by (simp add: submission_of_def)
    then have "i = j" using same i(1) j(1) by blast
    moreover have "br_settled dead ! i = None" using dead(1) i(1,3) by (simp add: run_inv_def results_inv_def Let_def)
    ultimately have "i \<in> held (br_workers dead)" using j(3) by simp
    then show "call \<in> (\<lambda>i. submission_of (rows ! i)) ` held (br_workers dead)" unfolding i(2) by (rule imageI)
  qed
  then have "card (set ?again) \<le> card (held (br_workers dead))"
    using held_card [of "br_workers dead"] by (meson card_image_le card_mono finite_imageI le_trans)
  also have "\<dots> \<le> length (br_workers dead)" using held_card by (rule conjunct2)
  also have "\<dots> = ?n" using dead(1) by (simp add: run_inv_def Let_def)
  also have "\<dots> \<le> nat (max 1 concurrency)" by (rule worker_count_le)
  finally have le: "card (set ?again) \<le> nat (max 1 concurrency)" .
  have "distinct (br_calls s)" using calls_distinct [OF s d] by (simp add: distinct_map)
  then have "distinct ?again" by (rule distinct_filter)
  then have "length ?again = card (set ?again)" by (rule distinct_card [symmetric])
  with le have "length ?again \<le> nat (max 1 concurrency)" by (rule ord_eq_le_trans [rotated])
  then show ?thesis using skip by (intro conjI ballI impI)
qed

lemma resumed_batch_skips_settled_witness:
  "length (filter (\<lambda>call. ps_idempotencyKey call \<in> ps_idempotencyKey ` set (br_calls demo_run)) (br_calls demo_run)) \<le> 4"
proof -
  have "br_storage demo_run = Some None" by (simp add: demo_run_def)
  with demo_executed have again: "executeBulkPayoutBatch [demo_row] 4 (Some ''b'') (br_storage demo_run) [] = Some demo_run" by simp
  show ?thesis
    using resumed_batch_skips_settled [OF demo_rows [symmetric] _ _ demo_executed _ again] by (simp add: no_batch_def)
qed

text \<open>
  The idempotency key of a payout is made of line, recipient and amount only. Two batches that pay
  the same amount to the same recipient on the same line therefore share it: once the relayer has
  answered the first with success, the second, submitted within the time to live, is answered with the
  recorded response without reaching the relay handler.
\<close>

theorem repeated_payroll_not_paid:
  assumes "pr_lineNumber a = l" "pr_lineNumber b = l" "a \<in> set (pt_validRows (parseBulkPayoutCsv january))"
    and "b \<in> set (pt_validRows (parseBulkPayoutCsv february))" "pr_recipient b = pr_recipient a" "pr_amount b = pr_amount a"
    and "key = ps_idempotencyKey (submission_of a)" "idem_cached store start (js_trim key) = None" "js_trim key \<noteq> []"
    and "200 \<le> statusCode ok" "statusCode ok < 300" "start \<le> t" "t \<le> answered + IDEMPOTENCY_TTL_MS"
    and "list_all (\<lambda>(s, d, h, ans). s \<le> t) calls"
  shows "\<exists>store'. idem_request IDEMPOTENCY_TTL_MS t d (HString (ps_idempotencyKey (submission_of b))) other
      (idem_run IDEMPOTENCY_TTL_MS calls (snd (snd (idem_request IDEMPOTENCY_TTL_MS start answered (HString key) ok store))))
    = (ok, False, store')"
proof -
  have "id_ok a" "id_ok b" using assms(3,4) parsed_row_id by (auto simp: list_all_iff)
  then have "ps_idempotencyKey (submission_of b) = key"
    using assms(1,2,5-7) by (simp add: submission_of_def id_ok_def)
  with assms show ?thesis by (intro success_replayed) simp_all
qed

lemma repeated_payroll_not_paid_witness:
  "\<exists>store'. idem_request IDEMPOTENCY_TTL_MS 200000 200300 (HString (ps_idempotencyKey (submission_of demo_row)))
      \<lparr>statusCode = 200, resp_body = ''second''\<rparr>
      (idem_run IDEMPOTENCY_TTL_MS [] (snd (snd (idem_request IDEMPOTENCY_TTL_MS 0 500
         (HString (ps_idempotencyKey (submission_of demo_row))) \<lparr>statusCode = 200, resp_body = ''first''\<rparr> []))))
    = (\<lparr>statusCode = 200, resp_body = ''first''\<rparr>, False, store')"
proof -
  have b: "\<not> is_js_space CHR ''b''" by code_simp
  have "ps_idempotencyKey (submission_of demo_row) = CHR ''b'' # ''ulk-payout-'' @ pr_id demo_row" by (simp add: submission_of_def)
  then have "js_trim (ps_idempotencyKey (submission_of demo_row)) \<noteq> []" using b by (simp add: js_trim_def)
  then show ?thesis
    by (intro repeated_payroll_not_paid [where january = demo_table and february = demo_table and a = demo_row and b = demo_row])
      (simp_all add: demo_rows idem_cached_def IDEMPOTENCY_TTL_MS_def)
qed

end
