(* ===== verification/JsDecimal.thy ===== *)
theory JsDecimal
  imports JsNumber Stroops
begin

text \<open>
  Numbers as decimal text in ECMAScript: \<open>Number(text)\<close>, \<open>parseFloat\<close>, \<open>toFixed\<close> and \<open>Math.ceil\<close>, and
  the arithmetic the sources apply to amounts. The lemmas bound the error of one rounding and
  show that amounts up to two hundred million units survive the trip through binary64.
\<close>

section \<open>Arithmetic\<close>

definition num_sub :: "number \<Rightarrow> number \<Rightarrow> number" where
  "num_sub a b = num_add a (num_neg b)"

text \<open>A number in a condition: zero and NaN are false.\<close>

definition num_truthy :: "number \<Rightarrow> bool" where
  "num_truthy v = (v \<noteq> Fin 0 \<and> v \<noteq> NaN)"

section \<open>Reading\<close>

definition pow10 :: "int \<Rightarrow> rat" where
  "pow10 e = (if 0 \<le> e then 10 ^ nat e else 1 / 10 ^ nat (- e))"

definition split_sign :: "string \<Rightarrow> bool \<times> string" where
  "split_sign s = (case s of [] \<Rightarrow> (False, []) | c # r \<Rightarrow>
     if c = CHR ''-'' then (True, r) else if c = CHR ''+'' then (False, r) else (False, s))"

text \<open>The exponent at the head of a text, and what follows it; none is the exponent zero.\<close>

definition exponent_part :: "string \<Rightarrow> int \<times> string" where
  "exponent_part s = (case s of [] \<Rightarrow> (0, []) | c # r \<Rightarrow>
     if c = CHR ''e'' \<or> c = CHR ''E''
     then (let (neg, r') = split_sign r; ds = takeWhile is_digit_char r' in
           if ds = [] then (0, s)
           else (if neg then - int (read_digits ds) else int (read_digits ds), dropWhile is_digit_char r'))
     else (0, s))"

text \<open>The longest decimal literal at the head of a text.\<close>

definition unsigned_decimal :: "string \<Rightarrow> (rat \<times> string) option" where
  "unsigned_decimal s =
     (let whole = takeWhile is_digit_char s; r = dropWhile is_digit_char s;
          point = (r \<noteq> [] \<and> hd r = CHR ''.'' \<and> (whole \<noteq> [] \<or> (tl r \<noteq> [] \<and> is_digit_char (hd (tl r)))));
          frac = (if point then takeWhile is_digit_char (tl r) else []);
          r' = (if point then dropWhile is_digit_char (tl r) else r)
      in if whole = [] \<and> frac = [] then None
         else (case exponent_part r' of (e, rest) \<Rightarrow>
                 Some (of_nat (read_digits (whole @ frac)) * pow10 (e - int (length frac)), rest)))"

definition signed_decimal :: "string \<Rightarrow> (number \<times> string) option" where
  "signed_decimal s = (case split_sign s of (neg, r) \<Rightarrow>
     if js_starts_with ''Infinity'' r then Some (if neg then NegInf else PosInf, drop 8 r)
     else map_option (\<lambda>(x, rest). (f64 (if neg then - x else x), rest)) (unsigned_decimal r))"

definition js_parseFloat :: "string \<Rightarrow> number" where
  "js_parseFloat s = (case signed_decimal (dropWhile is_js_space s) of None \<Rightarrow> NaN | Some (v, _) \<Rightarrow> v)"

definition radix_value :: "nat \<Rightarrow> string \<Rightarrow> nat option" where
  "radix_value b ds =
     (let value = \<lambda>c. (if is_digit_char c then char_code c - 48
                       else if is_upper_char c then char_code c - 55
                       else if is_lower_char c then char_code c - 87 else 99)
      in if ds \<noteq> [] \<and> list_all (\<lambda>c. value c < b) ds then Some (foldl (\<lambda>n c. b * n + value c) 0 ds) else None)"

definition js_Number :: "string \<Rightarrow> number" where
  "js_Number s =
     (let t = js_trim s; r = js_lower (take 2 t);
          b = (if r = ''0x'' then 16 else if r = ''0o'' then 8 else if r = ''0b'' then 2 else 0)
      in if t = [] then Fin 0
         else if b > 0 then (case radix_value b (drop 2 t) of None \<Rightarrow> NaN | Some n \<Rightarrow> f64 (of_nat n))
         else (case signed_decimal t of Some (v, []) \<Rightarrow> v | _ \<Rightarrow> NaN))"

section \<open>Writing\<close>

text \<open>
  \<open>String(x)\<close> from \<open>10^21\<close> on, where \<open>toFixed\<close> falls back to it: the fewest digits that read back as
  \<open>x\<close>, in exponent notation.
\<close>

definition int_digits :: "rat \<Rightarrow> nat" where
  "int_digits x = length (show_nat (nat \<lfloor>x\<rfloor>))"

definition significand :: "rat \<Rightarrow> nat \<Rightarrow> nat" where
  "significand x k = nat \<lfloor>x / 10 ^ (int_digits x - k) + 1 / 2\<rfloor>"

definition shortest_digits :: "rat \<Rightarrow> nat" where
  "shortest_digits x =
     (case filter (\<lambda>k. f64 (of_nat (significand x k) * 10 ^ (int_digits x - k)) = Fin x) [1..<18] of
        k # _ \<Rightarrow> k | [] \<Rightarrow> 17)"

definition big_text :: "rat \<Rightarrow> string" where
  "big_text x =
     (let k = shortest_digits x; ds = show_nat (significand x k);
          e = int_digits x - k + length ds - 1;
          m = rev (dropWhile (\<lambda>c. c = CHR ''0'') (rev ds))
      in (if length m = 1 then m else hd m # CHR ''.'' # tl m) @ ''e+'' @ show_nat e)"

definition fixed_text :: "nat \<Rightarrow> nat \<Rightarrow> string" where
  "fixed_text d n =
     (let m = show_nat n; p = replicate (Suc d - length m) CHR ''0'' @ m; k = length p - d
      in if d = 0 then m else take k p @ CHR ''.'' # drop k p)"

definition toFixed :: "nat \<Rightarrow> number \<Rightarrow> string" where
  "toFixed d v = (case v of
       NaN \<Rightarrow> ''NaN'' | PosInf \<Rightarrow> ''Infinity'' | NegInf \<Rightarrow> ''-Infinity''
     | Fin x \<Rightarrow> (if x < 0 then ''-'' else []) @
         (if 10 ^ 21 \<le> \<bar>x\<bar> then big_text \<bar>x\<bar> else fixed_text d (nat \<lfloor>\<bar>x\<bar> * 10 ^ d + 1 / 2\<rfloor>)))"

fun js_ceil :: "number \<Rightarrow> number" where
  "js_ceil (Fin x) = Fin (of_int \<lceil>x\<rceil>)"
| "js_ceil v = v"

section \<open>The error of a rounding\<close>

lemma round_even_error: "\<bar>of_int (round_even q) - q\<bar> \<le> 1 / 2"
proof -
  define d where "d = q - of_int \<lfloor>q\<rfloor>"
  have "0 \<le> d" "d < 1" by (simp_all add: d_def) (linarith)?
  moreover have "q = of_int \<lfloor>q\<rfloor> + d" by (simp add: d_def)
  ultimately show ?thesis unfolding round_even_def Let_def d_def [symmetric] by auto
qed

lemma round_mag_error:
  assumes "pow2 (- 1022) \<le> x" shows "\<bar>round_mag x - x\<bar> \<le> x / 2 ^ 53"
proof -
  have x: "0 < x" using assms pow2_pos [of "- 1022"] by linarith
  let ?u = "ulp_exp x"
  have "pow2 (- 1022) < pow2 (ilog2 x + 1)" using assms ilog2_bounds(2) [OF x] by linarith
  then have u: "?u = ilog2 x - 52" by (simp add: pow2_less_iff ulp_exp_def)
  have p: "0 < pow2 ?u" by simp
  have "round_mag x - x = (of_int (round_even (x / pow2 ?u)) - x / pow2 ?u) * pow2 ?u"
    using x p by (simp add: round_mag_def field_simps)
  then have "\<bar>round_mag x - x\<bar> = \<bar>of_int (round_even (x / pow2 ?u)) - x / pow2 ?u\<bar> * pow2 ?u"
    using p by (simp only: abs_mult abs_of_pos)
  also have "\<dots> \<le> 1 / 2 * pow2 ?u" by (intro mult_right_mono round_even_error less_imp_le [OF p])
  also have "\<dots> \<le> x / 2 ^ 53"
  proof -
    have "pow2 (ilog2 x) = pow2 ?u * 2 ^ 52" using pow2_add_nat [of ?u 52] u by simp
    then have "pow2 ?u * 2 ^ 52 \<le> x" using ilog2_bounds(1) [OF x] by simp
    then show ?thesis by (simp add: field_simps)
  qed
  finally show ?thesis .
qed

text \<open>Zero or at least \<open>2^-1022\<close>: what is not subnormal. Every amount is, a stroop being above \<open>2^-24\<close>.\<close>

definition normal_mag :: "rat \<Rightarrow> bool" where
  "normal_mag x = (x = 0 \<or> pow2 (- 1022) \<le> x)"

lemma normal_mag_nonneg: "normal_mag x \<Longrightarrow> 0 \<le> x"
  unfolding normal_mag_def using less_le_trans [OF pow2_pos [of "- 1022"], of x] by (elim disjE) simp_all

lemma f64_near:
  assumes "normal_mag x" "x \<le> of_int m" "m < 2 ^ 53"
  shows "\<exists>y. f64 x = Fin y \<and> 0 \<le> y \<and> \<bar>y - x\<bar> \<le> x / 2 ^ 53"
proof -
  have x: "0 \<le> x" using assms(1) by (rule normal_mag_nonneg)
  have "\<bar>round_mag x - x\<bar> \<le> x / 2 ^ 53"
    using assms(1) round_mag_error by (auto simp: normal_mag_def)
  moreover obtain y where "f64 x = Fin y" "0 \<le> y" using f64_bounded [of x m] assms x by auto
  moreover have "f64 x = Fin y \<Longrightarrow> y = round_mag x" for y using x by (auto simp: f64_def Let_def split: if_splits)
  ultimately show ?thesis by metis
qed

lemma normal_stroops: "normal_mag (of_nat n / 10 ^ 7)"
proof (cases "n = 0")
  case False
  have "pow2 (- 1022) \<le> pow2 (- 24)" by (intro pow2_mono) simp
  also have "\<dots> \<le> 1 / 10 ^ 7" by (simp add: pow2_def)
  also have "\<dots> \<le> of_nat n / 10 ^ 7" using False by (intro divide_right_mono) simp_all
  finally show ?thesis by (simp add: normal_mag_def)
qed (simp add: normal_mag_def)

section \<open>Amounts as numbers\<close>

lemma foldl_digits: "foldl (\<lambda>n c. 10 * n + (char_code c - 48)) m t = m * 10 ^ length t + read_digits t"
proof (induction t arbitrary: m)
  case (Cons c t)
  from Cons [of "10 * m + (char_code c - 48)"] Cons [of "char_code c - 48"] show ?case
    by (simp add: read_digits_def algebra_simps)
qed (simp add: read_digits_def)

lemma read_digits_append: "read_digits (s @ t) = read_digits s * 10 ^ length t + read_digits t"
  using foldl_digits [of "read_digits s" t] by (simp add: read_digits_def)

lemma read_zeros: "read_digits (replicate k CHR ''0'') = 0"
  by (induction k) (simp_all add: read_digits_def char_code_def)

text \<open>An amount is digits, or digits, a point and up to seven digits.\<close>

lemma amount_text_cases:
  assumes "amount_text a"
  obtains w f where "list_all is_digit_char w" "w \<noteq> []" "list_all is_digit_char f" "length f \<le> 7"
    "a = (if f = [] then w else w @ CHR ''.'' # f)"
proof -
  let ?w = "takeWhile is_digit_char a" and ?r = "dropWhile is_digit_char a"
  have a: "a = ?w @ ?r" by simp
  have w: "list_all is_digit_char ?w" by (auto simp: list_all_iff dest: set_takeWhileD)
  show ?thesis
  proof (cases ?r)
    case Nil
    with a have "a = ?w" by simp
    then show ?thesis using that [of ?w "[]"] w assms by (simp add: amount_text_def)
  next
    case (Cons c f)
    with assms have "?w \<noteq> []" "c = CHR ''.''" "f \<noteq> []" "length f \<le> 7" "list_all is_digit_char f"
      by (simp_all add: amount_text_def)
    then show ?thesis using that [of ?w f] w a Cons by (metis list.distinct(1))
  qed
qed

lemma digit_not_dot: "list_all is_digit_char w \<Longrightarrow> takeWhile is_digit_char (w @ CHR ''.'' # f) = w
  \<and> dropWhile is_digit_char (w @ CHR ''.'' # f) = CHR ''.'' # f"
proof -
  assume w: "list_all is_digit_char w"
  have n: "\<not> is_digit_char CHR ''.''" by code_simp
  show ?thesis using w n by (induction w) simp_all
qed

lemma all_digits: "list_all is_digit_char w \<Longrightarrow> takeWhile is_digit_char w = w \<and> dropWhile is_digit_char w = []"
  by (simp add: takeWhile_eq_all_conv dropWhile_eq_Nil_conv list_all_iff)

lemma amount_stroops:
  assumes "list_all is_digit_char w" "length f \<le> 7" "a = (if f = [] then w else w @ CHR ''.'' # f)"
  shows "(of_nat (decimalToStroops a) :: rat) / 10 ^ 7 = of_nat (read_digits (w @ f)) * pow10 (- int (length f))"
proof -
  have d: "decimalToStroops a = read_digits w * 10 ^ 7 + read_digits (f @ replicate (7 - length f) CHR ''0'')"
  proof -
    have t: "takeWhile (\<lambda>c. c \<noteq> CHR ''.'') (w @ CHR ''.'' # f) = w" "takeWhile (\<lambda>c. c \<noteq> CHR ''.'') w = w"
      using digits_no_dot [OF assms(1), of f] by blast+
    show ?thesis
    proof (cases "f = []")
      case True
      then have a: "a = w" using assms(3) by simp
      show ?thesis unfolding decimalToStroops_def Let_def a t using True by simp
    next
      case False
      then have a: "a = w @ CHR ''.'' # f" using assms(3) by simp
      show ?thesis unfolding decimalToStroops_def Let_def a t by simp
    qed
  qed
  also have "read_digits (f @ replicate (7 - length f) CHR ''0'') = read_digits f * 10 ^ (7 - length f)"
    by (simp add: read_digits_append read_zeros)
  also have "read_digits w * 10 ^ 7 + read_digits f * 10 ^ (7 - length f) = read_digits (w @ f) * 10 ^ (7 - length f)"
    using assms(2) by (simp add: read_digits_append algebra_simps flip: power_add)
  finally have "(of_nat (decimalToStroops a) :: rat) = of_nat (read_digits (w @ f)) * 10 ^ (7 - length f)" by simp
  moreover have "(10 :: rat) ^ 7 = 10 ^ (7 - length f) * 10 ^ length f"
    unfolding power_add [symmetric] using assms(2) by (simp only: le_add_diff_inverse2)
  ultimately have "(of_nat (decimalToStroops a) :: rat) / 10 ^ 7
      = of_nat (read_digits (w @ f)) * 10 ^ (7 - length f) / (10 ^ (7 - length f) * 10 ^ length f)" by (simp only:)
  also have "\<dots> = of_nat (read_digits (w @ f)) * (1 / 10 ^ length f)" by simp
  also have "(1 :: rat) / 10 ^ length f = pow10 (- int (length f))" by (cases "length f = 0") (simp_all add: pow10_def)
  finally show ?thesis .
qed

lemma digit_char_facts:
  assumes "is_digit_char c"
  shows "\<not> is_js_space c \<and> c \<noteq> CHR ''-'' \<and> c \<noteq> CHR ''+'' \<and> c \<noteq> CHR ''I'' \<and> c \<noteq> CHR ''.'' \<and> c \<noteq> CHR ''x''"
proof -
  have "\<not> is_digit_char CHR ''-''" "\<not> is_digit_char CHR ''+''" "\<not> is_digit_char CHR ''I''" "\<not> is_digit_char CHR ''.''"
    "\<not> is_digit_char CHR ''x''" by code_simp+
  moreover have "\<not> is_js_space c" using assms by (auto simp: is_js_space_def is_digit_char_def)
  ultimately show ?thesis using assms by auto
qed

lemma amount_literal:
  assumes "list_all is_digit_char w" "w \<noteq> []" "list_all is_digit_char f" "a = (if f = [] then w else w @ CHR ''.'' # f)"
  shows "unsigned_decimal a = Some (of_nat (read_digits (w @ f)) * pow10 (- int (length f)), [])"
proof (cases "f = []")
  case True
  then have a: "a = w" using assms(4) by simp
  show ?thesis
    unfolding a unsigned_decimal_def Let_def all_digits [OF assms(1), THEN conjunct1] all_digits [OF assms(1), THEN conjunct2]
    using assms(2) True by (simp add: exponent_part_def)
next
  case False
  then have a: "a = w @ CHR ''.'' # f" using assms(4) by simp
  show ?thesis
    unfolding a unsigned_decimal_def Let_def digit_not_dot [OF assms(1), THEN conjunct1] digit_not_dot [OF assms(1), THEN conjunct2]
    using all_digits [OF assms(3), THEN conjunct1] all_digits [OF assms(3), THEN conjunct2] assms(2) False
    by (simp add: exponent_part_def del: takeWhile_eq_all_conv dropWhile_eq_Nil_conv)
qed

lemma amount_ends: "amount_text a \<Longrightarrow> a \<noteq> [] \<and> is_digit_char (hd a) \<and> is_digit_char (last a)"
  by (erule amount_text_cases) (auto simp: list_all_iff)

lemma signed_amount:
  assumes "amount_text a"
  shows "signed_decimal a = Some (f64 (of_nat (decimalToStroops a) / 10 ^ 7), [])"
proof -
  obtain w f where wf: "list_all is_digit_char w" "w \<noteq> []" "list_all is_digit_char f" "length f \<le> 7"
    "a = (if f = [] then w else w @ CHR ''.'' # f)" using amount_text_cases [OF assms] .
  obtain c r where a: "a = c # r" "is_digit_char c" using amount_ends [OF assms] by (cases a) auto
  have "split_sign a = (False, a)" using digit_char_facts [OF a(2)] by (simp add: split_sign_def a(1))
  moreover have "\<not> js_starts_with ''Infinity'' a" using digit_char_facts [OF a(2)] by (simp add: js_starts_with_def a(1))
  ultimately show ?thesis
    using amount_literal [OF wf(1,2,3,5)] amount_stroops [OF wf(1,4,5)] by (simp add: signed_decimal_def)
qed

lemma number_of_amount: "amount_text a \<Longrightarrow> js_Number a = f64 (of_nat (decimalToStroops a) / 10 ^ 7)"
proof -
  assume am: "amount_text a"
  note e = amount_ends [OF am]
  have t: "js_trim a = a" using e digit_char_facts by (intro js_trim_inner) blast+
  obtain w f where wf: "list_all is_digit_char w" "w \<noteq> []" "list_all is_digit_char f" "length f \<le> 7"
    "a = (if f = [] then w else w @ CHR ''.'' # f)" using amount_text_cases [OF am] .
  have plain: "\<forall>c \<in> set a. is_digit_char c \<or> c = CHR ''.''"
    using wf(1,3,5) by (auto simp: list_all_iff)
  have b: "js_lower (take 2 a) \<noteq> [c, d]" if "is_lower_char d" for c d
  proof
    assume l: "js_lower (take 2 a) = [c, d]"
    then obtain x y where xy: "take 2 a = [x, y]" "lower_char y = d" by (auto simp: js_lower_def map_eq_Cons_conv)
    then have "y \<in> set a" by (metis in_set_takeD list.set_intros(1,2))
    with plain have "is_digit_char y \<or> y = CHR ''.''" by blast
    then have "lower_char y = y" by (auto simp: lower_char_def is_digit_char_def char_code_def Let_def)
    with xy(2) that \<open>is_digit_char y \<or> y = CHR ''.''\<close> show False
      by (auto simp: is_digit_char_def is_lower_char_def char_code_def)
  qed
  have l: "is_lower_char CHR ''x''" "is_lower_char CHR ''o''" "is_lower_char CHR ''b''" by code_simp+
  show ?thesis
    unfolding js_Number_def Let_def t using e b [OF l(1)] b [OF l(2)] b [OF l(3)] by (simp add: signed_amount [OF am])
qed

lemma parse_of_amount: "amount_text a \<Longrightarrow> js_parseFloat a = f64 (of_nat (decimalToStroops a) / 10 ^ 7)"
proof -
  assume am: "amount_text a"
  have "dropWhile is_js_space a = a" using amount_ends [OF am] digit_char_facts [of "hd a"] by (cases a) simp_all
  then show ?thesis by (simp add: js_parseFloat_def signed_amount [OF am])
qed

section \<open>Fixed notation\<close>

lemma fixed_parts:
  assumes "0 < d"
  obtains w f where "fixed_text d n = w @ CHR ''.'' # f" "list_all is_digit_char w" "w \<noteq> []"
    "list_all is_digit_char f" "length f = d" "read_digits (w @ f) = n"
proof -
  let ?p = "replicate (Suc d - length (show_nat n)) CHR ''0'' @ show_nat n"
  let ?k = "length ?p - d"
  have k: "0 < ?k" "?k \<le> length ?p" by simp_all
  have "is_digit_char CHR ''0''" by code_simp
  then have digits: "list_all is_digit_char ?p" using show_nat_digits by (auto simp: list_all_iff)
  show ?thesis
  proof
    show "fixed_text d n = take ?k ?p @ CHR ''.'' # drop ?k ?p" using assms by (simp add: fixed_text_def Let_def)
    show "list_all is_digit_char (take ?k ?p)" "list_all is_digit_char (drop ?k ?p)"
      using digits by (auto simp only: list_all_iff dest: in_set_takeD in_set_dropD)
    have "length (take ?k ?p) = ?k" using k(2) by (simp only: length_take min_absorb2)
    with k(1) show "take ?k ?p \<noteq> []" by (metis less_irrefl list.size(3))
    show "length (drop ?k ?p) = d" by simp
    show "read_digits (take ?k ?p @ drop ?k ?p) = n"
      by (simp only: append_take_drop_id read_leading_zeros read_show_nat)
  qed
qed

lemma fixed_amount: "amount_text (fixed_text 7 n)" "decimalToStroops (fixed_text 7 n) = n"
proof -
  have "(0 :: nat) < 7" by simp
  then obtain w f where wf: "fixed_text 7 n = w @ CHR ''.'' # f" "list_all is_digit_char w" "w \<noteq> []"
    "list_all is_digit_char f" "length f = 7" "read_digits (w @ f) = n" by (rule fixed_parts)
  then have f: "f \<noteq> []" by auto
  show "amount_text (fixed_text 7 n)"
    unfolding amount_text_def wf(1) digit_not_dot [OF wf(2), THEN conjunct1] digit_not_dot [OF wf(2), THEN conjunct2]
    using wf(3-5) f by simp
  have "(of_nat (decimalToStroops (fixed_text 7 n)) :: rat) / 10 ^ 7 = of_nat n * pow10 (- int (length f))"
    using amount_stroops [OF wf(2), of f "fixed_text 7 n"] wf(1,5,6) f by simp
  then have "(of_nat (decimalToStroops (fixed_text 7 n)) :: rat) = of_nat n" by (simp add: wf(5) pow10_def)
  then show "decimalToStroops (fixed_text 7 n) = n" by simp
qed

lemma toFixed_near:
  assumes "0 \<le> y" "\<bar>y - of_nat n / 10 ^ 7\<bar> < 1 / (2 * 10 ^ 7)" "y < 10 ^ 21"
  shows "toFixed 7 (Fin y) = fixed_text 7 n"
proof -
  have "\<lfloor>y * 10 ^ 7 + 1 / 2\<rfloor> = int n"
    using assms(2) unfolding abs_less_iff by (intro floor_unique) (simp_all add: field_simps)
  then show ?thesis using assms(1,3) by (simp add: toFixed_def)
qed

lemma sum_error:
  fixes a b x y s z :: rat
  assumes "\<bar>x - a\<bar> \<le> a / 2 ^ 53" "\<bar>y - b\<bar> \<le> b / 2 ^ 53" "\<bar>z - (x + y)\<bar> \<le> (x + y) / 2 ^ 53" "0 \<le> a" "0 \<le> b" "a + b \<le> 200000000"
  shows "\<bar>z - (a + b)\<bar> < 1 / (2 * 10 ^ 7)"
  using assms unfolding abs_le_iff abs_less_iff by (simp add: field_simps)

lemma stroops_le: "m \<le> k \<Longrightarrow> (of_nat m :: rat) / 10 ^ 7 \<le> of_nat k / 10 ^ 7"
  by (intro divide_right_mono) simp_all

lemma fixed_sum:
  assumes "a + b \<le> 2 * 10 ^ 15"
  shows "toFixed 7 (num_add (f64 (of_nat a / 10 ^ 7)) (f64 (of_nat b / 10 ^ 7))) = fixed_text 7 (a + b)"
proof -
  let ?a = "of_nat a / 10 ^ 7 :: rat" and ?b = "of_nat b / 10 ^ 7 :: rat"
  have ab: "0 \<le> ?a" "0 \<le> ?b" by simp_all
  have s: "?a + ?b = of_nat (a + b) / 10 ^ 7" by (simp add: add_divide_distrib)
  have le: "?a + ?b \<le> 200000000" using stroops_le [OF assms] unfolding s by simp
  then have le': "?a \<le> of_int 200000000" "?b \<le> of_int 200000000" unfolding of_int_numeral using ab le by linarith+
  obtain x where x: "f64 ?a = Fin x" "0 \<le> x" "\<bar>x - ?a\<bar> \<le> ?a / 2 ^ 53" using f64_near [OF normal_stroops le'(1)] by auto
  obtain y where y: "f64 ?b = Fin y" "0 \<le> y" "\<bar>y - ?b\<bar> \<le> ?b / 2 ^ 53" using f64_near [OF normal_stroops le'(2)] by auto
  have n: "normal_mag (x + y)"
  proof (cases "a + b = 0")
    case True
    then show ?thesis using x(3) y(3) by (simp add: normal_mag_def)
  next
    case False
    then have "1 \<le> a + b" by linarith
    from stroops_le [OF this] have "(1 :: rat) / 10 ^ 7 \<le> ?a + ?b" unfolding s by (simp only: of_nat_1)
    then have "1 / (2 * 10 ^ 7) \<le> x + y" using x(3) y(3) unfolding abs_le_iff by (simp add: field_simps)
    moreover have "pow2 (- 1022) \<le> pow2 (- 25)" by (intro pow2_mono) simp
    moreover have "pow2 (- 25) \<le> 1 / (2 * 10 ^ 7)" by (simp add: pow2_def)
    ultimately show ?thesis by (simp add: normal_mag_def)
  qed
  have "x + y \<le> of_int 200000001" using x(3) y(3) le ab unfolding abs_le_iff by (simp add: field_simps)
  from f64_near [OF n this] obtain z where z: "f64 (x + y) = Fin z" "0 \<le> z" "\<bar>z - (x + y)\<bar> \<le> (x + y) / 2 ^ 53" by auto
  have e: "\<bar>z - of_nat (a + b) / 10 ^ 7\<bar> < 1 / (2 * 10 ^ 7)"
    using sum_error [OF x(3) y(3) z(3) ab le] unfolding s .
  have "z < 10 ^ 21" using e le unfolding s abs_less_iff by (simp add: field_simps)
  from toFixed_near [OF z(2) e this] show ?thesis unfolding x(1) y(1) num_add.simps z(1) .
qed

lemma scale_error:
  fixes n x y :: rat
  assumes "\<bar>x - n / 10 ^ 7\<bar> \<le> n / 10 ^ 7 / 2 ^ 53" "\<bar>y - 10 ^ 7 * x\<bar> \<le> 10 ^ 7 * x / 2 ^ 53" "0 \<le> n" "n \<le> 2 ^ 50"
  shows "\<bar>y - n\<bar> < 1"
  using assms unfolding abs_le_iff abs_less_iff by (simp add: field_simps)

lemma scaled_back:
  assumes "n \<le> 2 ^ 50"
  shows "\<exists>k \<in> {n, n + 1}. js_ceil (num_mul (Fin (10 ^ 7)) (f64 (of_nat n / 10 ^ 7))) = Fin (of_nat k)"
proof -
  let ?a = "of_nat n / 10 ^ 7 :: rat"
  have n: "(of_nat n :: rat) \<le> 2 ^ 50" using assms by (metis of_nat_le_iff of_nat_numeral of_nat_power)
  then have "?a \<le> of_int (2 ^ 50)" by simp
  then obtain x where x: "f64 ?a = Fin x" "0 \<le> x" "\<bar>x - ?a\<bar> \<le> ?a / 2 ^ 53" using f64_near [OF normal_stroops, of n "2 ^ 50"] by auto
  have m: "normal_mag (10 ^ 7 * x)"
  proof (cases "n = 0")
    case True
    then show ?thesis using x(3) by (simp add: normal_mag_def)
  next
    case False
    then have "(1 :: rat) / 10 ^ 7 \<le> ?a" using stroops_le [of 1 n] by simp
    then have "1 / 2 \<le> 10 ^ 7 * x" using x(3) unfolding abs_le_iff by (simp add: field_simps)
    moreover have "pow2 (- 1022) \<le> pow2 (- 1)" by (intro pow2_mono) simp
    moreover have "pow2 (- 1) = 1 / 2" by (simp add: pow2_def)
    ultimately show ?thesis by (simp add: normal_mag_def)
  qed
  have "10 ^ 7 * x \<le> of_int (2 ^ 51)" using x(3) n unfolding abs_le_iff by (simp add: field_simps)
  from f64_near [OF m this] obtain y where y: "f64 (10 ^ 7 * x) = Fin y" "\<bar>y - 10 ^ 7 * x\<bar> \<le> 10 ^ 7 * x / 2 ^ 53" by auto
  have "\<bar>y - of_nat n\<bar> < 1" by (rule scale_error [OF x(3) y(2)]) (use n in simp_all)
  then have "\<lceil>y\<rceil> = int n \<or> \<lceil>y\<rceil> = int n + 1" unfolding abs_less_iff by (cases "y \<le> of_nat n") (auto simp: ceiling_eq_iff)
  then show ?thesis unfolding x(1) num_mul.simps y(1) js_ceil.simps by auto
qed

section \<open>Evaluation\<close>

lemma ilog2_eq: "pow2 e \<le> x \<Longrightarrow> x < pow2 (e + 1) \<Longrightarrow> ilog2 x = e"
proof -
  assume a: "pow2 e \<le> x" "x < pow2 (e + 1)"
  then have x: "0 < x" using pow2_pos [of e] by linarith
  have "pow2 e < pow2 (ilog2 x + 1)" "pow2 (ilog2 x) < pow2 (e + 1)" using a ilog2_bounds [OF x] by linarith+
  then show ?thesis by (simp add: pow2_less_iff)
qed

lemma round_even_eq: "\<bar>q - of_int m\<bar> < 1 / 2 \<Longrightarrow> round_even q = m"
proof -
  assume q: "\<bar>q - of_int m\<bar> < 1 / 2"
  have "\<bar>of_int (round_even q) - q\<bar> \<le> 1 / 2" by (rule round_even_error)
  with q have "\<bar>(of_int (round_even q) :: rat) - of_int m\<bar> < 1" by linarith
  then show ?thesis by linarith
qed

lemma f64_value:
  assumes "pow2 e \<le> x" "x < pow2 (e + 1)" "- 1022 \<le> e" "e < 1023" "\<bar>x / pow2 (e - 52) - of_int m\<bar> < 1 / 2"
  shows "f64 x = Fin (of_int m * pow2 (e - 52))"
proof -
  have x: "0 < x" using assms(1) pow2_pos [of e] by linarith
  have u: "ulp_exp x = e - 52" using ilog2_eq [OF assms(1,2)] assms(3) by (simp add: ulp_exp_def)
  have r: "round_mag x = of_int m * pow2 (e - 52)" using x round_even_eq [OF assms(5)] by (simp add: round_mag_def u)
  have "round_mag x \<le> pow2 (e - 52 + 53)" using round_mag_le_next [OF x] by (simp add: u)
  also have "\<dots> < pow2 1024" using assms(4) by (simp add: pow2_less_iff)
  finally show ?thesis using x r by (simp add: f64_def Let_def)
qed

lemma fee_of_hundred: "js_ceil (num_mul (Fin (10 ^ 7)) (f64 (of_nat 100 / 10 ^ 7))) = Fin 101"
proof -
  have a: "f64 (of_nat 100 / 10 ^ 7) = Fin (of_int 5902958103587057 * pow2 (- 17 - 52))"
    by (rule f64_value) (simp_all add: pow2_def)
  have "f64 (10 ^ 7 * (of_int 5902958103587057 * pow2 (- 17 - 52))) = Fin (of_int 7036874417766401 * pow2 (6 - 52))"
    by (rule f64_value) (simp_all add: pow2_def)
  moreover have "\<lceil>of_int 7036874417766401 * pow2 (6 - 52)\<rceil> = (101 :: int)"
    by (rule ceiling_unique) (simp_all add: pow2_def)
  ultimately show ?thesis unfolding a num_mul.simps by simp
qed

end
