(* ===== verification/SendService.thy ===== *)
theory SendService
  imports JsDecimal "HOL-Library.Word"
begin

text \<open>
  The services behind the extension's send screen: \<open>services/send-service.ts\<close> (fee, envelope fields,
  signing guard, submission, status), \<open>utils/note-validation.ts\<close>, \<open>utils/transaction-status.ts\<close>,
  \<open>utils/memoCheck.ts\<close> of \<open>apps/extension-wallet/src\<close>, and \<open>packages/stellar/src/memo-required.ts\<close>.
  Fetches, the signer and the SDK's builder are what they answer. Texts are over the first 256 code
  units, one character each; failures of a submission are kept as what failed, not as the text
  shown for it.
\<close>

unbundle bit_operations_syntax

section \<open>Notes\<close>

definition MAX_NOTE_LENGTH :: nat where
  "MAX_NOTE_LENGTH = 140"

definition note_too_long :: "string \<Rightarrow> bool" where
  "note_too_long note = (length note > MAX_NOTE_LENGTH)"

definition truncateTransferNote :: "string \<Rightarrow> string" where
  "truncateTransferNote note =
     (let t = js_trim note in
      if length t \<le> MAX_NOTE_LENGTH then t else take (MAX_NOTE_LENGTH - 3) t @ ''...'')"

definition getRemainingCharacters :: "string \<Rightarrow> int" where
  "getRemainingCharacters note = int MAX_NOTE_LENGTH - int (length (js_trim note))"

definition replace_char :: "char \<Rightarrow> string \<Rightarrow> string \<Rightarrow> string" where
  "replace_char c r s = concat (map (\<lambda>d. if d = c then r else [d]) s)"

definition sanitizeTransferNote :: "string \<Rightarrow> string" where
  "sanitizeTransferNote note =
     replace_char CHR 0x27 ''&#x27;'' (replace_char CHR 0x22 ''&quot;''
       (replace_char CHR ''>'' ''&gt;'' (replace_char CHR ''<'' ''&lt;'' (replace_char CHR ''&'' ''&amp;'' note))))"

definition isNoteEmpty :: "string \<Rightarrow> bool" where
  "isNoteEmpty note = (js_trim note = [])"

definition formatNoteForPreview :: "string \<Rightarrow> string" where
  "formatNoteForPreview note = truncateTransferNote (sanitizeTransferNote note)"

section \<open>Status texts\<close>

datatype tx_status = TxIdle | TxPending | TxConfirmed | TxFailed | TxUnreachable

datatype status_kind = KindPending | KindConfirmed | KindFailed | KindCancelled

definition RPC_TO_APP :: "(string \<times> status_kind) list" where
  "RPC_TO_APP = [(''success'', KindConfirmed), (''failure'', KindFailed), (''pending'', KindPending),
     (''not_found'', KindPending), (''error'', KindFailed), (''timeout'', KindFailed), (''idle'', KindPending),
     (''confirmed'', KindConfirmed), (''failed'', KindFailed), (''unreachable'', KindPending)]"

text \<open>Lower-case names of \<open>Object.prototype\<close> that the table object also answers are not status texts.\<close>

definition mapRpcStatus :: "string \<Rightarrow> status_kind" where
  "mapRpcStatus raw = coalesce (map_of RPC_TO_APP (js_lower raw)) KindPending"

definition isTerminalStatus :: "status_kind \<Rightarrow> bool" where
  "isTerminalStatus k = (k = KindConfirmed \<or> k = KindFailed \<or> k = KindCancelled)"

fun tx_status_text :: "tx_status \<Rightarrow> string" where
  "tx_status_text TxIdle = ''idle''"
| "tx_status_text TxPending = ''pending''"
| "tx_status_text TxConfirmed = ''confirmed''"
| "tx_status_text TxFailed = ''failed''"
| "tx_status_text TxUnreachable = ''unreachable''"

text \<open>What a status poll comes to: absent when the fetch threw, else \<open>ok\<close> and the status code.\<close>

definition fetchTransactionStatus :: "(bool \<times> nat) option \<Rightarrow> tx_status" where
  "fetchTransactionStatus response = (case response of
       None \<Rightarrow> TxUnreachable
     | Some (ok, status) \<Rightarrow>
         if ok then TxConfirmed else if status = 404 then TxPending
         else if status \<ge> 500 then TxUnreachable else TxFailed)"

section \<open>Destinations that require a memo\<close>

text \<open>
  The directory's answer: the fetch threw or the body was no JSON (absent), a status that is not ok, or
  an ok answer with its fields; \<open>memo_required\<close> is kept when it is a boolean, tags when they are texts.
\<close>

datatype directory_answer = DirStatus nat | DirBody "bool option" "string list"

record memo_entry =
  me_required :: bool
  me_expiresAt :: time

type_synonym memo_cache = "(string, memo_entry) jsmap"

definition memo_listed :: "bool option \<Rightarrow> string list \<Rightarrow> bool" where
  "memo_listed memo_required tags = (memo_required = Some True \<or> (\<exists>tag \<in> set tags. js_lower tag = ''memo-required''))"

definition remember_memo :: "time \<Rightarrow> time \<Rightarrow> string \<Rightarrow> bool \<Rightarrow> memo_cache \<Rightarrow> memo_cache" where
  "remember_memo now ttl address required cache =
     (if ttl > 0 then map_set address \<lparr>me_required = required, me_expiresAt = now + ttl\<rparr> cache else cache)"

definition memo_fetched :: "time \<Rightarrow> time \<Rightarrow> directory_answer option \<Rightarrow> string \<Rightarrow> memo_cache \<Rightarrow> bool \<times> memo_cache" where
  "memo_fetched now ttl answer address cache = (case answer of
       None \<Rightarrow> (False, cache)
     | Some (DirStatus status) \<Rightarrow> (False, if status = 404 then remember_memo now ttl address False cache else cache)
     | Some (DirBody m tags) \<Rightarrow> (memo_listed m tags, remember_memo now ttl address (memo_listed m tags) cache))"

definition checkMemoRequired :: "time \<Rightarrow> time \<Rightarrow> directory_answer option \<Rightarrow> string \<Rightarrow> memo_cache \<Rightarrow> bool \<times> memo_cache" where
  "checkMemoRequired now ttl answer accountAddress cache =
     (let address = js_trim accountAddress in
      if address = [] then (False, cache)
      else case map_get cache address of
        Some e \<Rightarrow> if me_expiresAt e > now then (me_required e, cache) else memo_fetched now ttl answer address cache
      | None \<Rightarrow> memo_fetched now ttl answer address cache)"

definition DEFAULT_MEMO_TTL_MS :: time where
  "DEFAULT_MEMO_TTL_MS = 5 * 60 * 1000"

text \<open>The extension's own check reads another field, \<open>require_memo\<close>, and keeps its answers for good.\<close>

definition isMemoRequired :: "(bool option) option \<Rightarrow> string \<Rightarrow> (string, bool) jsmap \<Rightarrow> bool \<times> (string, bool) jsmap" where
  "isMemoRequired answer destination cache = (case map_get cache destination of
       Some known \<Rightarrow> (known, cache)
     | None \<Rightarrow> (case answer of
         None \<Rightarrow> (False, cache)
       | Some require_memo \<Rightarrow> (require_memo = Some True, map_set destination (require_memo = Some True) cache)))"

section \<open>The envelope\<close>

record fee_estimate =
  fe_baseFee :: string
  fe_totalFee :: string
  fe_mainnet :: bool

text \<open>\<open>Math.ceil(Number(fee.totalFee) * 1e7)\<close>.\<close>

definition fee_stroops :: "fee_estimate option \<Rightarrow> number" where
  "fee_stroops fee = (case fee of None \<Rightarrow> Fin 10000
     | Some f \<Rightarrow> js_ceil (num_mul (js_Number (fe_totalFee f)) (Fin (10 ^ 7))))"

record payment_fields =
  pf_source :: string
  pf_sequence :: string
  pf_fee :: number
  pf_destination :: string
  pf_amount :: string
  pf_memo :: "string option"

definition buildPaymentFields :: "string \<times> string \<Rightarrow> fee_estimate option \<Rightarrow> string \<Rightarrow> string \<Rightarrow> string option \<Rightarrow> payment_fields" where
  "buildPaymentFields account fee to amount note =
     \<lparr>pf_source = fst account, pf_sequence = snd account, pf_fee = fee_stroops fee, pf_destination = to, pf_amount = amount,
      pf_memo = (let memo = js_trim (coalesce note []) in if memo = [] then None else Some memo)\<rparr>"

definition default_fee :: "bool \<Rightarrow> fee_estimate" where
  "default_fee mainnet = \<lparr>fe_baseFee = ''0.0000100'', fe_totalFee = ''0.0000100'', fe_mainnet = mainnet\<rparr>"

text \<open>\<open>stroopsToXlm\<close> of \<open>packages/stellar/src/simulation.ts\<close>, for a classic payment's envelope fee.\<close>

definition stroopsToXlm :: "string \<Rightarrow> string" where
  "stroopsToXlm stroops = (case js_Number stroops of Fin x \<Rightarrow> toFixed 7 (f64 (x / 10 ^ 7)) | _ \<Rightarrow> ''0.0000000'')"

section \<open>Submission\<close>

definition RELAYER_SUBMIT_TIMEOUT_MS :: time where "RELAYER_SUBMIT_TIMEOUT_MS = 15000"

definition RELAYER_SUBMIT_MAX_RETRIES :: nat where "RELAYER_SUBMIT_MAX_RETRIES = 4"

definition RELAYER_RETRY_BASE_DELAY_MS :: time where "RELAYER_RETRY_BASE_DELAY_MS = 500"

text \<open>The FNV-1a hash of the payload, on 32 bits, in hexadecimal.\<close>

definition fnv_step :: "32 word \<Rightarrow> char \<Rightarrow> 32 word" where
  "fnv_step h c = (h XOR of_nat (char_code c)) * 0x01000193"

definition fnv_hash :: "string \<Rightarrow> 32 word" where
  "fnv_hash payload = foldl fnv_step 0x811c9dc5 payload"

fun show_hex :: "nat \<Rightarrow> string" where
  "show_hex n = (if n < 16 then [hex_digit n] else show_hex (n div 16) @ [hex_digit (n mod 16)])"

declare show_hex.simps [simp del]

definition idempotencyKeyFor :: "string \<Rightarrow> string" where
  "idempotencyKeyFor payload =
     (let h = show_hex (unat (fnv_hash payload)) in
      CHR ''a'' # ''a-send-'' @ replicate (8 - length h) CHR ''0'' @ h @ CHR ''-'' # show_nat (length payload))"

text \<open>
  One attempt: the fetch throws an error of some name (our own timeout is an \<open>AbortError\<close>) or something
  that is no error, or it delivers a response. Of a body that is JSON: \<open>hash\<close>, \<open>txId\<close>, \<open>error\<close>, \<open>message\<close>.
\<close>

record relay_body =
  rl_hash :: "string option"
  rl_txId :: "string option"
  rl_error :: "string option"
  rl_message :: "string option"

datatype relay_outcome = ThrewError string | ThrewOther | Responded bool nat "relay_body option"

datatype submit_error = NetworkError relay_outcome | RelayerSaid string | RelayerStatus nat | MissingTxId | BadBody

definition isRetriableSubmissionError :: "relay_outcome \<Rightarrow> bool" where
  "isRetriableSubmissionError r = (case r of ThrewError name \<Rightarrow> name = ''AbortError'' \<or> name = ''TypeError'' | _ \<Rightarrow> False)"

record submit_request =
  rq_key :: string
  rq_transaction :: string
  rq_delay :: time

text \<open>\<open>a || b\<close> over optional texts: the first that is not empty.\<close>

definition first_text :: "string option \<Rightarrow> string option \<Rightarrow> string option" where
  "first_text a b = (if a \<noteq> None \<and> a \<noteq> Some [] then a else if b \<noteq> None \<and> b \<noteq> Some [] then b else None)"

definition relay_result :: "bool \<Rightarrow> nat \<Rightarrow> relay_body option \<Rightarrow> submit_error + string" where
  "relay_result ok status body =
     (if \<not> ok then Inl (case body of None \<Rightarrow> RelayerStatus status
        | Some b \<Rightarrow> (case first_text (rl_error b) (rl_message b) of Some m \<Rightarrow> RelayerSaid m | None \<Rightarrow> RelayerStatus status))
      else case body of None \<Rightarrow> Inl BadBody
        | Some b \<Rightarrow> (case first_text (rl_hash b) (rl_txId b) of Some t \<Rightarrow> Inr t | None \<Rightarrow> Inl MissingTxId))"

text \<open>The loop: attempts from \<open>n\<close> on, each request with the time slept before it.\<close>

function relay_attempts ::
  "(nat \<Rightarrow> relay_outcome) \<Rightarrow> string \<Rightarrow> nat \<Rightarrow> time \<Rightarrow> (submit_error + string) \<times> submit_request list" where
  "relay_attempts outcome payload n delay =
     (let request = \<lparr>rq_key = idempotencyKeyFor payload, rq_transaction = payload, rq_delay = delay\<rparr> in
      case outcome n of
        Responded ok status body \<Rightarrow> (relay_result ok status body, [request])
      | r \<Rightarrow> if \<not> isRetriableSubmissionError r \<or> n \<ge> RELAYER_SUBMIT_MAX_RETRIES then (Inl (NetworkError r), [request])
             else (case relay_attempts outcome payload (Suc n) (RELAYER_RETRY_BASE_DELAY_MS * 2 ^ n) of
                     (result, requests) \<Rightarrow> (result, request # requests)))"
  by pat_completeness auto
termination by (relation "measure (\<lambda>(_, _, n, _). Suc RELAYER_SUBMIT_MAX_RETRIES - n)") auto

declare relay_attempts.simps [simp del]

text \<open>A contract account submits through the relayer, a classic one through the Stellar client.\<close>

definition submitTransaction ::
  "bool \<Rightarrow> (nat \<Rightarrow> relay_outcome) \<Rightarrow> (submit_error + string) \<Rightarrow> string \<Rightarrow> (submit_error + string) \<times> submit_request list" where
  "submitTransaction isContractAccount outcome horizon payload =
     (if isContractAccount then relay_attempts outcome payload 0 0 else (horizon, []))"

section \<open>Signing\<close>

datatype signing_error = MemoRequired | SignFailed

text \<open>
  The guard before the envelope is built: on the main network, by the client or by the draft's fee, a
  listed destination needs a memo. The signer, Ledger or the background, is what it answers.
\<close>

definition sign_guard :: "bool \<Rightarrow> fee_estimate option \<Rightarrow> bool \<Rightarrow> string option \<Rightarrow> signing_error option" where
  "sign_guard client_mainnet fee listed note =
     (if (client_mainnet \<or> (\<exists>f. fee = Some f \<and> fe_mainnet f)) \<and> listed \<and> js_trim (coalesce note []) = []
      then Some MemoRequired else None)"

section \<open>Facts\<close>

lemma relay_attempts_facts:
  fixes n :: nat and delay :: time
  assumes "relay_attempts outcome payload n delay = (r, reqs)" "n \<le> RELAYER_SUBMIT_MAX_RETRIES"
  shows "1 \<le> length reqs \<and> n + length reqs \<le> Suc RELAYER_SUBMIT_MAX_RETRIES
    \<and> list_all (\<lambda>q. rq_key q = idempotencyKeyFor payload \<and> rq_transaction q = payload) reqs
    \<and> map rq_delay reqs = delay # map (\<lambda>k. RELAYER_RETRY_BASE_DELAY_MS * 2 ^ k) [n..<n + length reqs - 1]
    \<and> (\<forall>k. n \<le> k \<and> k < n + length reqs - 1 \<longrightarrow> isRetriableSubmissionError (outcome k))
    \<and> (case outcome (n + length reqs - 1) of Responded ok status body \<Rightarrow> r = relay_result ok status body
       | e \<Rightarrow> r = Inl (NetworkError e))"
  using assms
proof (induction outcome payload n delay arbitrary: r reqs rule: relay_attempts.induct)
  case (1 outcome payload n delay)
  let ?request = "\<lparr>rq_key = idempotencyKeyFor payload, rq_transaction = payload, rq_delay = delay\<rparr>"
  show ?case
  proof (cases "isRetriableSubmissionError (outcome n) \<and> n < RELAYER_SUBMIT_MAX_RETRIES")
    case False
    then have "reqs = [?request] \<and> (case outcome n of Responded ok status body \<Rightarrow> r = relay_result ok status body
       | e \<Rightarrow> r = Inl (NetworkError e))"
      using "1.prems"(1) by (subst (asm) relay_attempts.simps) (auto simp: Let_def split: relay_outcome.splits)
    then show ?thesis using "1.prems"(2) by auto
  next
    case True
    then obtain name where o: "outcome n = ThrewError name" by (cases "outcome n") (auto simp: isRetriableSubmissionError_def)
    obtain r' reqs' where rest: "relay_attempts outcome payload (Suc n) (RELAYER_RETRY_BASE_DELAY_MS * 2 ^ n) = (r', reqs')"
      by fastforce
    have eq: "r = r'" "reqs = ?request # reqs'"
      using "1.prems"(1) True o rest by (subst (asm) relay_attempts.simps, simp add: Let_def)+
    have n: "\<not> (\<not> isRetriableSubmissionError (outcome n) \<or> RELAYER_SUBMIT_MAX_RETRIES \<le> n)" "Suc n \<le> RELAYER_SUBMIT_MAX_RETRIES"
      using True by auto
    note ih = "1.IH"(1) [OF refl o n(1) [unfolded o] rest n(2)]
    have "0 < length reqs'" using ih by auto
    then have l: "[n..<n + length reqs'] = n # [Suc n..<n + length reqs']" by (subst upt_conv_Cons) simp_all
    have k: "isRetriableSubmissionError (outcome k)" if "n \<le> k" "k < n + length reqs'" for k
      using ih True that by (cases "k = n") auto
    show ?thesis using ih k unfolding eq by (simp add: l)
  qed
qed

lemma set_replace_char: "d \<in> set (replace_char c r s) \<Longrightarrow> (d \<in> set s \<and> d \<noteq> c) \<or> d \<in> set r"
  by (auto simp: replace_char_def split: if_splits)

lemma truncated_length: "length (truncateTransferNote note) \<le> MAX_NOTE_LENGTH"
  by (simp add: truncateTransferNote_def MAX_NOTE_LENGTH_def Let_def)

lemma set_truncated: "d \<in> set (truncateTransferNote note) \<Longrightarrow> d \<in> set note \<or> d = CHR ''.''"
  by (auto simp: truncateTransferNote_def Let_def js_trim_def split: if_splits dest!: in_set_takeD set_dropWhileD)

lemma verdict_terminal: "isTerminalStatus (mapRpcStatus (tx_status_text v)) = (v = TxConfirmed \<or> v = TxFailed)"
proof (cases v)
  case TxIdle
  show ?thesis unfolding TxIdle by code_simp
next
  case TxPending
  show ?thesis unfolding TxPending by code_simp
next
  case TxConfirmed
  show ?thesis unfolding TxConfirmed by code_simp
next
  case TxFailed
  show ?thesis unfolding TxFailed by code_simp
next
  case TxUnreachable
  show ?thesis unfolding TxUnreachable by code_simp
qed

section \<open>Properties\<close>

text \<open>
  However the relayer behaves, one submission sends at most five requests, all with the same signed
  transaction under the same idempotency key; a further one follows only a network-level failure,
  after 0.5, 1, 2 and 4 seconds, and the answer given is that of the last request.
\<close>

theorem resubmission_identical:
  assumes "submitTransaction True outcome horizon payload = (result, reqs)"
  shows "1 \<le> length reqs \<and> length reqs \<le> 5
    \<and> list_all (\<lambda>q. rq_key q = idempotencyKeyFor payload \<and> rq_transaction q = payload) reqs
    \<and> map rq_delay reqs = 0 # map (\<lambda>k. 500 * 2 ^ k) [0..<length reqs - 1]
    \<and> (\<forall>k < length reqs - 1. isRetriableSubmissionError (outcome k))
    \<and> (case outcome (length reqs - 1) of Responded ok status body \<Rightarrow> result = relay_result ok status body
       | e \<Rightarrow> result = Inl (NetworkError e))"
  using relay_attempts_facts [of outcome payload 0 0 result reqs] assms
  by (simp add: submitTransaction_def RELAYER_SUBMIT_MAX_RETRIES_def RELAYER_RETRY_BASE_DELAY_MS_def)

lemma resubmission_identical_witness:
  "let run = submitTransaction True (\<lambda>n. if n < 2 then ThrewError ''AbortError'' else Responded True 200 None) (Inl BadBody) ''AAAA''
   in length (snd run) \<le> 5 \<and> list_all (\<lambda>q. rq_transaction q = ''AAAA'') (snd run)"
proof -
  let ?run = "submitTransaction True (\<lambda>n. if n < 2 then ThrewError ''AbortError'' else Responded True 200 None) (Inl BadBody) ''AAAA''"
  have "?run = (fst ?run, snd ?run)" by simp
  from resubmission_identical [OF this] show ?thesis by (simp add: Let_def list_all_iff)
qed

text \<open>
  The key does not identify the payload: two different transactions of the same length share it, so
  that a relayer which answers by key takes the second for a retry of the first.
\<close>

theorem idempotency_keys_collide:
  "idempotencyKeyFor ''AAAAAgAAHx8smr'' = idempotencyKeyFor ''AAAAAgAAWT2gNt''"
proof -
  have "fnv_hash ''AAAAAgAAHx8smr'' = 0xe0b11485"
    by (simp add: fnv_hash_def fnv_step_def char_code_def)
  moreover have "fnv_hash ''AAAAAgAAWT2gNt'' = 0xe0b11485"
    by (simp add: fnv_hash_def fnv_step_def char_code_def)
  ultimately show ?thesis by (simp add: idempotencyKeyFor_def)
qed

text \<open>
  The fee of the envelope is the fee shown or one stroop more, for every fee text of up to seven
  decimals below \<open>2^50\<close> stroops.
\<close>

theorem envelope_fee_bounds:
  assumes "amount_text (fe_totalFee fee)" "decimalToStroops (fe_totalFee fee) \<le> 2 ^ 50"
  shows "\<exists>k \<in> {decimalToStroops (fe_totalFee fee), decimalToStroops (fe_totalFee fee) + 1}. fee_stroops (Some fee) = Fin (of_nat k)"
  using scaled_back [OF assms(2)] by (simp add: fee_stroops_def number_of_amount [OF assms(1)] num_mul_commute)

lemma default_fee_stroops: "amount_text (fe_totalFee (default_fee m))" "decimalToStroops (fe_totalFee (default_fee m)) = 100"
proof -
  have "amount_text ''0.0000100''" by code_simp
  then show "amount_text (fe_totalFee (default_fee m))" by (simp add: default_fee_def)
  have "char_of (49 :: nat) = CHR ''1''" "char_of (48 :: nat) = CHR ''0''" "replicate 4 CHR ''0'' = ''0000''"
    by code_simp+
  then have "''0.0000100'' = fixed_text 7 100"
    by (simp add: fixed_text_def Let_def show_nat.simps digit_char_def)
  then show "decimalToStroops (fe_totalFee (default_fee m)) = 100"
    by (simp only: default_fee_def fee_estimate.simps fixed_amount)
qed

lemma envelope_fee_bounds_witness:
  "\<exists>k \<in> {100, 100 + 1}. fee_stroops (Some (default_fee True)) = Fin (of_nat k)"
proof -
  have "(100 :: nat) \<le> 2 ^ 50" by simp
  with envelope_fee_bounds [OF default_fee_stroops(1)] show ?thesis unfolding default_fee_stroops(2) by blast
qed

text \<open>
  The one stroop is real: the fee the form shows by default is 100 stroops and the envelope it
  builds offers 101.
\<close>

theorem default_fee_one_over:
  "decimalToStroops (fe_totalFee (default_fee mainnet)) = 100 \<and> fee_stroops (Some (default_fee mainnet)) = Fin 101"
proof -
  have "fee_stroops (Some (default_fee mainnet)) = js_ceil (num_mul (f64 (of_nat 100 / 10 ^ 7)) (Fin (10 ^ 7)))"
    unfolding fee_stroops_def option.case number_of_amount [OF default_fee_stroops(1)] default_fee_stroops(2) ..
  also have "\<dots> = Fin 101" by (subst num_mul_commute [symmetric]) (rule fee_of_hundred)
  finally show ?thesis using default_fee_stroops(2) by blast
qed

text \<open>
  Polling stops on exactly the answers that are ok and those that blame the request, 404 apart; a
  transaction that was included and failed, which is answered ok, ends as confirmed.
\<close>

theorem polling_stops_on:
  "isTerminalStatus (mapRpcStatus (tx_status_text (fetchTransactionStatus response)))
     = (\<exists>ok status. response = Some (ok, status) \<and> (ok \<or> (status \<noteq> 404 \<and> status < 500)))"
  unfolding verdict_terminal by (auto simp: fetchTransactionStatus_def split: option.splits)

text \<open>
  A note prepared for preview has at most 140 characters and none that markup is made of.
\<close>

theorem note_preview_clean:
  "length (formatNoteForPreview note) \<le> MAX_NOTE_LENGTH
   \<and> set (formatNoteForPreview note) \<inter> {CHR ''<'', CHR ''>'', CHR 0x22, CHR 0x27} = {}"
proof
  show "length (formatNoteForPreview note) \<le> MAX_NOTE_LENGTH"
    unfolding formatNoteForPreview_def by (rule truncated_length)
  have "d \<notin> {CHR ''<'', CHR ''>'', CHR 0x22, CHR 0x27}" if "d \<in> set (sanitizeTransferNote note)" for d
    using that unfolding sanitizeTransferNote_def by (auto dest!: set_replace_char)
  then show "set (formatNoteForPreview note) \<inter> {CHR ''<'', CHR ''>'', CHR 0x22, CHR 0x27} = {}"
    unfolding formatNoteForPreview_def by (auto dest!: set_truncated)
qed

text \<open>
  Without a live cache entry an outage of the directory counts as no memo required and leaves the
  cache as it was; a live entry answers without asking.
\<close>

theorem memo_check_fails_open:
  "(case map_get cache (js_trim address) of
      Some e \<Rightarrow> checkMemoRequired now ttl None address cache = (js_trim address \<noteq> [] \<and> me_expiresAt e > now \<and> me_required e, cache)
    | None \<Rightarrow> checkMemoRequired now ttl None address cache = (False, cache))"
  by (auto simp: checkMemoRequired_def memo_fetched_def Let_def split: option.splits)

text \<open>
  The two checks of one destination read different fields of the directory's answer: what the
  signing guard takes for a destination that needs a memo, the review screen lets pass.
\<close>

theorem memo_checks_disagree:
  "fst (checkMemoRequired now ttl (Some (DirBody None [''memo-required''])) (CHR ''G'' # s) []) = True
   \<and> fst (isMemoRequired (Some None) (CHR ''G'' # s) []) = False"
proof -
  have "js_trim (CHR ''G'' # s) \<noteq> []"
  proof -
    have "\<not> is_js_space CHR ''G''" by code_simp
    then show ?thesis by (simp add: js_trim_def)
  qed
  moreover have "js_lower ''memo-required'' = ''memo-required''" by code_simp
  ultimately show ?thesis
    by (simp add: checkMemoRequired_def isMemoRequired_def memo_fetched_def memo_listed_def Let_def)
qed

end
