(* ===== verification/Recipients.thy ===== *)
theory Recipients
  imports Codec
begin

text \<open>
  Whom a payment goes to: the handles of \<open>packages/types/src/handle-resolution.ts\<close> and the dashboard's
  recipient field (\<open>apps/web-dashboard/src/lib/address-validation.ts\<close> and the validation part of
  \<open>hooks/useSendTransaction.ts\<close>). The ellipsis of a message lies beyond Latin-1 and is a parameter.
\<close>

section \<open>Handles\<close>

definition is_handle_char :: "char \<Rightarrow> bool" where
  "is_handle_char c = (is_alnum_char c \<or> c = CHR ''_'' \<or> c = CHR ''.'' \<or> c = CHR ''-'')"

definition isUsernameHandle :: "string \<Rightarrow> bool" where
  "isUsernameHandle v = (case js_trim v of
       a # c # r \<Rightarrow> a = CHR ''@'' \<and> is_alnum_char c \<and> length r \<le> 30 \<and> list_all is_handle_char r
     | _ \<Rightarrow> False)"

definition normalizeUsernameHandle :: "string \<Rightarrow> string option" where
  "normalizeUsernameHandle v = (let n = js_lower (js_trim v) in if isUsernameHandle n then Some n else None)"

text \<open>What a resolver endpoint answers to a handle: a status, or a body that fits no schema.\<close>

datatype resolver_body = Found string string | NotFound | BadPayload

definition resolved_account_ok :: "string \<Rightarrow> bool" where
  "resolved_account_ok a = (case a of [] \<Rightarrow> False | c # r \<Rightarrow> (c = CHR ''G'' \<or> c = CHR ''C'') \<and> length r = 55
     \<and> list_all (\<lambda>d. is_upper_char d \<or> is_digit_char d) r)"

text \<open>
  \<open>createExtensionHandleResolver\<close>: absent when it throws, else no account or the account of the handle.
\<close>

definition resolve_handle :: "nat \<Rightarrow> bool \<Rightarrow> resolver_body \<Rightarrow> string option option" where
  "resolve_handle status ok body =
     (if status = 404 then Some None else if \<not> ok then None
      else Some (case body of
          Found handle account \<Rightarrow> if isUsernameHandle handle \<and> resolved_account_ok account then Some account else None
        | _ \<Rightarrow> None))"

section \<open>Addresses\<close>

datatype address_kind = AccountKind | ContractKind

fun kind_prefix :: "address_kind \<Rightarrow> string" where
  "kind_prefix AccountKind = ''G''"
| "kind_prefix ContractKind = ''C''"

definition DEFAULT_KINDS :: "address_kind list" where
  "DEFAULT_KINDS = [AccountKind, ContractKind]"

definition isValidStellarAddress :: "string \<Rightarrow> address_kind list \<Rightarrow> bool" where
  "isValidStellarAddress v kinds =
     (let t = js_trim v in
      length t = 56 \<and> (\<exists>kind \<in> set kinds. js_starts_with (kind_prefix kind) t) \<and> list_all is_base32_char (drop 1 t))"

definition describeKinds :: "string \<Rightarrow> address_kind list \<Rightarrow> string" where
  "describeKinds dots kinds =
     (let parts = map (\<lambda>k. kind_prefix k @ dots) kinds in
      if length parts = 1 then hd parts
      else concat (map (\<lambda>(i, p). if i = 0 then p else '', '' @ p) (enumerate 0 (butlast parts))) @ '' or '' @ last parts)"

definition stellarAddressError :: "string \<Rightarrow> string \<Rightarrow> address_kind list \<Rightarrow> string option \<Rightarrow> string option" where
  "stellarAddressError dots v kinds requiredMessage =
     (let t = js_trim v in
      if t = [] then requiredMessage
      else if isValidStellarAddress t kinds then None
      else Some (''Enter a valid Stellar address ('' @ describeKinds dots kinds @ '')''))"

section \<open>The recipient field of the dashboard\<close>

definition HANDLE_NOT_FOUND_MESSAGE :: string where
  "HANDLE_NOT_FOUND_MESSAGE = ''Handle not found''"

definition validateRecipientInput :: "string \<Rightarrow> string \<Rightarrow> string option" where
  "validateRecipientInput dots recipient =
     (let t = js_trim recipient in
      if t = [] then Some ''Recipient address or @username is required''
      else if js_starts_with ''@'' t then (if isUsernameHandle t then None else Some ''Enter a valid @username handle'')
      else stellarAddressError dots t DEFAULT_KINDS None)"

text \<open>The resolver answers a normalised handle: it throws a message, or knows an account or none.\<close>

definition resolveSendRecipient :: "string \<Rightarrow> string \<Rightarrow> (string \<Rightarrow> string + string option) \<Rightarrow> string + (string \<times> string)" where
  "resolveSendRecipient dots recipient resolver =
     (let t = js_trim recipient in
      case validateRecipientInput dots t of
        Some e \<Rightarrow> Inl e
      | None \<Rightarrow>
          if \<not> js_starts_with ''@'' t then Inr (t, t)
          else (case normalizeUsernameHandle t of
                  None \<Rightarrow> Inl ''Enter a valid @username handle''
                | Some handle \<Rightarrow> (case resolver handle of
                    Inl e \<Rightarrow> Inl e
                  | Inr None \<Rightarrow> Inl HANDLE_NOT_FOUND_MESSAGE
                  | Inr (Some account) \<Rightarrow> Inr (t, account))))"

text \<open>Which errors of a send are shown at the recipient field.\<close>

definition recipient_error :: "string \<Rightarrow> string option" where
  "recipient_error msg =
     (if msg = HANDLE_NOT_FOUND_MESSAGE \<or> js_includes ''Recipient'' msg \<or> js_includes ''address'' msg \<or> js_includes ''@username'' msg
      then Some msg else None)"

section \<open>Properties\<close>

lemma starts_G: "js_starts_with [c] s \<longleftrightarrow> (\<exists>r. s = c # r)"
  by (cases s) (auto simp: js_starts_with_def)

text \<open>
  The dashboard's address check, without its kinds narrowed, accepts the text of a public key as the
  other wallets check it, and the same with a leading C.
\<close>

theorem address_format_check:
  "isValidStellarAddress v DEFAULT_KINDS
     = (is_strkey_text (js_trim v) \<or> (\<exists>r. js_trim v = CHR ''C'' # r \<and> is_strkey_text (CHR ''G'' # r)))"
  by (auto simp: isValidStellarAddress_def DEFAULT_KINDS_def is_strkey_text_def is_base32_char_def [abs_def] Let_def starts_G
      split: list.splits)

text \<open>
  Every error that the recipient check itself finds is shown at the recipient field; an error of the
  resolver is too exactly when its text says so.
\<close>

theorem recipient_errors_routed:
  assumes "resolveSendRecipient dots recipient resolver = Inl msg"
  shows "recipient_error msg = Some msg
    \<or> (case normalizeUsernameHandle (js_trim recipient) of None \<Rightarrow> False | Some handle \<Rightarrow> resolver handle = Inl msg)"
proof -
  have t: "recipient_error ''Recipient address or @username is required'' = Some ''Recipient address or @username is required''"
    "recipient_error ''Enter a valid @username handle'' = Some ''Enter a valid @username handle''"
    "recipient_error HANDLE_NOT_FOUND_MESSAGE = Some HANDLE_NOT_FOUND_MESSAGE"
    by (simp_all add: recipient_error_def js_starts_with_def)
  have "\<exists>a b. ''Enter a valid Stellar address ('' @ m @ '')'' = a @ ''address'' @ b" for m
    by (intro exI [of _ "''Enter a valid Stellar ''"] exI [of _ "'' ('' @ m @ '')''"]) simp
  then have a: "recipient_error (''Enter a valid Stellar address ('' @ m @ '')'') = Some (''Enter a valid Stellar address ('' @ m @ '')'')" for m
    unfolding recipient_error_def js_includes_iff by simp
  have v: "recipient_error e = Some e" if "validateRecipientInput dots s = Some e" for s e
    using that t(1,2) a by (auto simp: validateRecipientInput_def stellarAddressError_def Let_def split: if_splits)
  show ?thesis
    using assms v t by (auto simp: resolveSendRecipient_def Let_def split: option.splits if_splits sum.splits)
qed

lemma recipient_errors_routed_witness:
  "recipient_error ''Enter a valid @username handle'' = Some ''Enter a valid @username handle''"
proof -
  have "resolveSendRecipient ''..'' ''@'' (\<lambda>_. Inr None) = Inl ''Enter a valid @username handle''" by code_simp
  moreover have "normalizeUsernameHandle (js_trim ''@'') = None" by code_simp
  ultimately show ?thesis using recipient_errors_routed [of "''..''" "''@''" "\<lambda>_. Inr None"] by simp
qed

lemma lower_handle_char: "is_handle_char c \<Longrightarrow> is_handle_char (lower_char c) \<and> \<not> is_js_space (lower_char c)"
proof -
  assume h: "is_handle_char c"
  have codes: "char_code CHR ''_'' = 95" "char_code CHR ''.'' = 46" "char_code CHR ''-'' = 45" by code_simp+
  have n: "char_code (lower_char c) = (let n = char_code c in if (65 \<le> n \<and> n \<le> 90) \<or> (192 \<le> n \<and> n \<le> 222 \<and> n \<noteq> 215) then n + 32 else n)"
    by (auto simp: lower_char_def Let_def char_code_char_of)
  have c: "is_alnum_char c \<or> char_code c \<in> {95, 46, 45}" using h by (auto simp: is_handle_char_def codes)
  then have "is_alnum_char (lower_char c) \<or> lower_char c = c"
    using n by (auto simp: is_alnum_char_def is_digit_char_def is_upper_char_def is_lower_char_def lower_char_def Let_def)
  then have l: "is_handle_char (lower_char c)" using h by (auto simp: is_handle_char_def)
  then have "char_code (lower_char c) \<ge> 45 \<and> char_code (lower_char c) \<le> 122"
    by (auto simp: is_handle_char_def codes is_alnum_char_def is_digit_char_def is_upper_char_def is_lower_char_def)
  with l show ?thesis by (auto simp: is_js_space_def)
qed

lemma lower_alnum: "is_alnum_char c \<Longrightarrow> is_alnum_char (lower_char c)"
  by (auto simp: is_alnum_char_def is_digit_char_def is_upper_char_def is_lower_char_def lower_char_def Let_def char_code_char_of)

text \<open>
  A text that passes as a handle always normalises to one, in lower case; the message for a handle
  that does not is never shown.
\<close>

theorem handle_normalizes:
  assumes "isUsernameHandle v"
  shows "normalizeUsernameHandle v = Some (js_lower (js_trim v)) \<and> isUsernameHandle (js_lower (js_trim v))"
proof -
  obtain c r where t: "js_trim v = CHR ''@'' # c # r" and c: "is_alnum_char c" and r: "length r \<le> 30" "list_all is_handle_char r"
    using assms by (auto simp: isUsernameHandle_def split: list.splits)
  have a: "lower_char CHR ''@'' = CHR ''@''" by code_simp
  have l: "js_lower (js_trim v) = CHR ''@'' # lower_char c # js_lower r" by (simp add: t js_lower_def a)
  have h: "list_all is_handle_char (c # r)" using c r by (simp add: is_handle_char_def)
  have "last (js_lower (js_trim v)) = lower_char (last (c # r))"
    by (simp add: t js_lower_def last_map)
  moreover have "is_handle_char (last (c # r))" using h by (metis last_in_set list.distinct(1) list_all_iff)
  ultimately have "\<not> is_js_space (last (js_lower (js_trim v)))" using lower_handle_char by simp
  moreover have "\<not> is_js_space CHR ''@''" by code_simp
  ultimately have trim: "js_trim (js_lower (js_trim v)) = js_lower (js_trim v)"
    by (intro js_trim_inner) (simp_all add: l)
  have "list_all is_handle_char (js_lower r)" using r(2) lower_handle_char by (auto simp: js_lower_def list_all_iff)
  then have "isUsernameHandle (js_lower (js_trim v))"
    unfolding isUsernameHandle_def trim unfolding l using lower_alnum [OF c] r(1) by (simp add: js_lower_def)
  then show ?thesis by (simp add: normalizeUsernameHandle_def Let_def)
qed

lemma handle_normalizes_witness: "normalizeUsernameHandle '' @Ada.L '' = Some ''@ada.l''"
proof -
  have "isUsernameHandle '' @Ada.L ''" "js_lower (js_trim '' @Ada.L '') = ''@ada.l''" by code_simp+
  with handle_normalizes [of "'' @Ada.L ''"] show ?thesis by simp
qed

end
