(* ===== verification/SendFlow.thy ===== *)
theory SendFlow
  imports SendService Recipients TransferPolicy
begin

text \<open>
  The send screen of the extension, \<open>apps/extension-wallet/src/hooks/useSendTransaction.ts\<close>, with the
  form checks it takes from \<open>packages/ui-kit/src/components/Form/validation.ts\<close>,
  \<open>packages/types/src/handle-resolution.ts\<close>, \<open>utils/schedule-validation.ts\<close> and \<open>utils/amount.ts\<close>.
  The hook's state is a record; what runs asynchronously, a review, a simulation, a confirmation, a status
  poll, is kept with what its closure captured until its answer arrives, in any order. Between its
  awaits a call changes nothing but what it writes at the end, so an answer is one event. Messages
  are constructors, one per message. Renders are not modelled: a setter takes effect at once.
\<close>

section \<open>The form\<close>

datatype send_error = RecipientMissing | InvalidHandle | InvalidAddress | HandleNotFound
  | AmountMissing | AmountNotNumber | AmountNotAboveZero | TooManyDecimals | InsufficientBalance
  | NoteTooLong | MemoNeeded | PolicyBlocked msg_template
  | StartRequired | StartInvalid | StartInPast | EndInvalid
  | IncorrectPassword | NoTransaction | NoSchedule | ReviewFailed

definition isStellarAddress :: "string \<Rightarrow> bool" where
  "isStellarAddress v = is_strkey_text v"

definition isHandleInput :: "string \<Rightarrow> bool" where
  "isHandleInput v = js_starts_with ''@'' (js_trim v)"

definition validateRecipientAddress :: "string \<Rightarrow> send_error option" where
  "validateRecipientAddress v =
     (let t = js_trim v in
      if t = [] then Some RecipientMissing
      else if isHandleInput t then (if isUsernameHandle t then None else Some InvalidHandle)
      else if \<not> isStellarAddress t then Some InvalidAddress else None)"

text \<open>\<open>amountSchema\<close>: the first of its refinements that fails.\<close>

definition amount_schema :: "string \<Rightarrow> send_error option" where
  "amount_schema v =
     (if v = [] then Some AmountMissing
      else if js_parseFloat v = NaN then Some AmountNotNumber
      else if \<not> num_less (Fin 0) (js_parseFloat v) then Some AmountNotAboveZero
      else if \<not> amount_text v then Some TooManyDecimals else None)"

text \<open>\<open>/\.(\d+)$/\<close>: the digits after the last point, when there is nothing else.\<close>

definition getDecimalPlaces :: "string \<Rightarrow> nat" where
  "getDecimalPlaces v =
     (let ds = takeWhile is_digit_char (rev v); r = dropWhile is_digit_char (rev v)
      in if ds \<noteq> [] \<and> r \<noteq> [] \<and> hd r = CHR ''.'' then length ds else 0)"

definition validateAmountPrecision :: "string \<Rightarrow> int \<Rightarrow> send_error option" where
  "validateAmountPrecision v decimals =
     (if v = [] \<or> js_parseFloat v = NaN then None
      else if int (getDecimalPlaces v) > decimals then Some TooManyDecimals else None)"

definition validateAmount :: "string \<Rightarrow> number \<Rightarrow> int \<Rightarrow> send_error option" where
  "validateAmount v balance assetDecimals = (case amount_schema v of
       Some e \<Rightarrow> Some e
     | None \<Rightarrow> (case validateAmountPrecision v assetDecimals of
         Some e \<Rightarrow> Some e
       | None \<Rightarrow> if num_less balance (js_Number v) then Some InsufficientBalance else None))"

text \<open>
  A schedule as the date parser reads it: a start or end that is absent or empty, one that is no date,
  or an instant.
\<close>

datatype date_input = NoDate | BadDate | Date time

record schedule_config =
  sc_startAt :: date_input
  sc_endAt :: date_input

definition validateSchedule :: "time \<Rightarrow> schedule_config option \<Rightarrow> send_error option" where
  "validateSchedule now s = (case s of None \<Rightarrow> Some StartRequired
     | Some c \<Rightarrow> (case sc_startAt c of NoDate \<Rightarrow> Some StartRequired | BadDate \<Rightarrow> Some StartInvalid
         | Date start \<Rightarrow>
             if start < now - 60000 then Some StartInPast
             else (case sc_endAt c of NoDate \<Rightarrow> None | BadDate \<Rightarrow> Some EndInvalid
                   | Date e \<Rightarrow> if e \<le> start then Some EndInvalid else None)))"

section \<open>The largest amount\<close>

definition BASE_SEND_RESERVE :: number where "BASE_SEND_RESERVE = Fin 1"

definition DEFAULT_SEND_FEE :: number where "DEFAULT_SEND_FEE = f64 (1 / 10 ^ 5)"

text \<open>\<open>replace(/(\.\d*?)0+$/, '$1')\<close> and \<open>replace(/\.$/, '')\<close>: zeros at the end after a point, then the point.\<close>

definition strip_fraction_zeros :: "string \<Rightarrow> string" where
  "strip_fraction_zeros s =
     (let w = takeWhile (\<lambda>c. c \<noteq> CHR ''.'') s; f = drop (Suc (length w)) s;
          t = (if length w < length s \<and> list_all is_digit_char f
               then w @ CHR ''.'' # rev (dropWhile (\<lambda>c. c = CHR ''0'') (rev f)) else s)
      in if t \<noteq> [] \<and> last t = CHR ''.'' then butlast t else t)"

definition computeMaxSendable :: "number \<Rightarrow> number \<Rightarrow> number \<Rightarrow> string \<Rightarrow> nat \<Rightarrow> string" where
  "computeMaxSendable balance fee reserve asset assetDecimals =
     (let feeAmount = num_max (Fin 0) (if num_truthy fee then fee else Fin 0);
          reserveAmount = (if asset = ''XLM'' then reserve else Fin 0);
          m = (if asset = ''XLM'' then num_sub (num_sub balance feeAmount) reserveAmount else balance)
      in if num_leq m (Fin 0) then ''0'' else strip_fraction_zeros (toFixed assetDecimals m))"

text \<open>The button: the fee the service estimates, or the default when it fails or estimates nothing.\<close>

definition setMaxAmount :: "number \<Rightarrow> nat \<Rightarrow> string option \<Rightarrow> string option \<Rightarrow> string" where
  "setMaxAmount balance assetDecimals asset estimate =
     (let feeAmount = (case estimate of None \<Rightarrow> DEFAULT_SEND_FEE
            | Some totalFee \<Rightarrow> if num_truthy (js_Number totalFee) then js_Number totalFee else DEFAULT_SEND_FEE)
      in computeMaxSendable balance feeAmount (if asset = Some ''XLM'' \<or> asset = None then BASE_SEND_RESERVE else Fin 0)
           (coalesce asset ''XLM'') assetDecimals)"

section \<open>The state of the hook\<close>

datatype send_step = StepForm | StepReview | StepConfirm | StepStatus | StepScheduled

datatype simulation_state = SimLoading | SimError string | SimSuccess string

record send_form =
  sv_to :: string
  sv_amount :: string
  sv_note :: "string option"
  sv_scheduled :: bool
  sv_schedule :: "schedule_config option"

record draft =
  dr_to :: string
  dr_amount :: string
  dr_note :: "string option"
  dr_fee :: fee_estimate
  dr_total :: string
  dr_truncatedNote :: "string option"
  dr_policy :: policy_action
  dr_recipientInput :: string

record send_errors =
  er_to :: "send_error option"
  er_handle :: "send_error option"
  er_amount :: "send_error option"
  er_note :: "send_error option"
  er_policy :: "send_error option"
  er_simulation :: "send_error option"
  er_password :: "send_error option"

definition no_errors :: send_errors where
  "no_errors = \<lparr>er_to = None, er_handle = None, er_amount = None, er_note = None, er_policy = None,
     er_simulation = None, er_password = None\<rparr>"

record send_options =
  so_balance :: number
  so_assetDecimals :: int
  so_assetCode :: string
  so_policy :: transfer_policy
  so_todayTotal :: number
  so_simulates :: bool

text \<open>
  What is under way: a review with the form it was called with; a simulation with the amount and the fee
  of its review; a confirmation with the draft, timing and schedule of its render; a poll with its
  transaction. The timers are the intervals not yet cleared, \<open>ss_pollRef\<close> the one last started.
  \<open>ss_submitted\<close> is what the hook has handed to the service for submission, newest first.
\<close>

record send_state =
  ss_step :: send_step
  ss_status :: tx_status
  ss_fee :: "fee_estimate option"
  ss_tx :: "draft option"
  ss_txId :: "string option"
  ss_scheduledTransfer :: "string option"
  ss_timing :: bool
  ss_schedule :: "schedule_config option"
  ss_errors :: send_errors
  ss_submitting :: bool
  ss_simulation :: "simulation_state option"
  ss_failures :: nat
  ss_pollRef :: "nat option"
  ss_reviews :: "send_form list"
  ss_simulations :: "(string \<times> fee_estimate) list"
  ss_confirms :: "(draft option \<times> bool \<times> schedule_config option) list"
  ss_timers :: "(nat \<times> string) list"
  ss_polls :: "string list"
  ss_nextTimer :: nat
  ss_submitted :: "draft list"

definition send_start :: send_state where
  "send_start = \<lparr>ss_step = StepForm, ss_status = TxIdle, ss_fee = None, ss_tx = None, ss_txId = None,
     ss_scheduledTransfer = None, ss_timing = False, ss_schedule = None, ss_errors = no_errors, ss_submitting = False,
     ss_simulation = None, ss_failures = 0, ss_pollRef = None, ss_reviews = [], ss_simulations = [], ss_confirms = [],
     ss_timers = [], ss_polls = [], ss_nextTimer = 0, ss_submitted = []\<rparr>"

section \<open>Review\<close>

definition validateForm :: "send_options \<Rightarrow> time \<Rightarrow> send_form \<Rightarrow> send_errors" where
  "validateForm opts now v =
     (let amount = validateAmount (sv_amount v) (so_balance opts) (so_assetDecimals opts);
          numeric = js_Number (sv_amount v)
      in \<lparr>er_to = validateRecipientAddress (sv_to v), er_handle = None, er_amount = amount,
          er_note = (case sv_note v of None \<Rightarrow> None
            | Some note \<Rightarrow> if note \<noteq> [] \<and> note_too_long note then Some NoteTooLong else None),
          er_policy =
            (if amount = None \<and> num_is_finite numeric \<and> num_less (Fin 0) numeric
             then (case validateTransferPolicy numeric (so_todayTotal opts) (Some (so_policy opts)) (Some (so_assetCode opts)) of
                     (Block, msg) \<Rightarrow> Some (PolicyBlocked msg) | _ \<Rightarrow> None)
             else None),
          er_simulation = (if sv_scheduled v then validateSchedule now (sv_schedule v) else None),
          er_password = None\<rparr>)"

definition form_ok :: "send_errors \<Rightarrow> bool" where
  "form_ok e = (er_to e = None \<and> er_amount e = None \<and> er_note e = None \<and> er_policy e = None \<and> er_simulation e = None)"

definition amount_total :: "string \<Rightarrow> string \<Rightarrow> string" where
  "amount_total amount totalFee = toFixed 7 (num_add (js_Number amount) (js_Number totalFee))"

definition make_draft :: "send_options \<Rightarrow> send_form \<Rightarrow> string \<Rightarrow> fee_estimate \<Rightarrow> draft" where
  "make_draft opts v to fee =
     \<lparr>dr_to = to, dr_amount = sv_amount v, dr_note = sv_note v, dr_fee = fee,
      dr_total = amount_total (sv_amount v) (fe_totalFee fee),
      dr_truncatedNote = (case sv_note v of None \<Rightarrow> None
        | Some note \<Rightarrow> if note \<noteq> [] then Some (truncateTransferNote note) else None),
      dr_policy = fst (validateTransferPolicy (js_Number (sv_amount v)) (so_todayTotal opts) (Some (so_policy opts)) (Some (so_assetCode opts))),
      dr_recipientInput = js_trim (sv_to v)\<rparr>"

text \<open>
  The answers a review awaits: the resolver's (absent when it throws, then no such handle or an account),
  the fee (absent when the estimate throws), and whether the directory lists the destination.
\<close>

record review_answer =
  ra_resolved :: "string option option"
  ra_fee :: "fee_estimate option"
  ra_listed :: bool

definition resolve_recipient :: "send_form \<Rightarrow> review_answer \<Rightarrow> (send_errors \<Rightarrow> send_errors) + string" where
  "resolve_recipient v a =
     (let recipientInput = js_trim (sv_to v) in
      if isHandleInput recipientInput
      then (case normalizeUsernameHandle recipientInput of
              None \<Rightarrow> Inl (\<lambda>e. e\<lparr>er_to := Some InvalidHandle, er_handle := Some InvalidHandle\<rparr>)
            | Some handle \<Rightarrow> (case ra_resolved a of
                None \<Rightarrow> Inl (\<lambda>e. e\<lparr>er_simulation := Some ReviewFailed\<rparr>)
              | Some None \<Rightarrow> Inl (\<lambda>e. e\<lparr>er_to := Some HandleNotFound, er_handle := Some HandleNotFound\<rparr>)
              | Some (Some account) \<Rightarrow>
                  if isStellarAddress account then Inr account
                  else Inl (\<lambda>e. e\<lparr>er_to := Some HandleNotFound, er_handle := Some HandleNotFound\<rparr>)))
      else Inr recipientInput)"

definition drop_nth :: "nat \<Rightarrow> 'a list \<Rightarrow> 'a list" where
  "drop_nth k xs = take k xs @ drop (Suc k) xs"

definition go_to_review :: "send_options \<Rightarrow> time \<Rightarrow> send_form \<Rightarrow> send_state \<Rightarrow> send_state" where
  "go_to_review opts now v s =
     (let e = validateForm opts now v;
          s' = s\<lparr>ss_timing := sv_scheduled v, ss_schedule := sv_schedule v, ss_errors := e\<rparr>
      in if \<not> form_ok e then s'
         else s'\<lparr>ss_submitting := True, ss_errors := e\<lparr>er_simulation := None\<rparr>, ss_reviews := ss_reviews s @ [v]\<rparr>)"

definition enter_review :: "send_options \<Rightarrow> send_form \<Rightarrow> string \<Rightarrow> fee_estimate \<Rightarrow> send_state \<Rightarrow> send_state" where
  "enter_review opts v to fee s =
     s\<lparr>ss_fee := Some fee, ss_tx := Some (make_draft opts v to fee), ss_step := StepReview,
       ss_simulation := (if so_simulates opts then Some SimLoading else None),
       ss_simulations := (if so_simulates opts then ss_simulations s @ [(sv_amount v, fee)] else ss_simulations s)\<rparr>"

definition settle_review :: "send_options \<Rightarrow> nat \<Rightarrow> review_answer \<Rightarrow> send_state \<Rightarrow> send_state option" where
  "settle_review opts k a s =
     (if k \<ge> length (ss_reviews s) then None
      else let v = ss_reviews s ! k; s' = s\<lparr>ss_reviews := drop_nth k (ss_reviews s), ss_submitting := False\<rparr> in
        Some (case resolve_recipient v a of
            Inl set_error \<Rightarrow> s'\<lparr>ss_errors := set_error (ss_errors s)\<rparr>
          | Inr to \<Rightarrow> (case ra_fee a of
              None \<Rightarrow> s'\<lparr>ss_errors := (ss_errors s)\<lparr>er_simulation := Some ReviewFailed\<rparr>\<rparr>
            | Some fee \<Rightarrow>
                if fe_mainnet fee \<and> js_trim (coalesce (sv_note v) []) = [] \<and> ra_listed a
                then s'\<lparr>ss_errors := (ss_errors s)\<lparr>er_note := Some MemoNeeded\<rparr>\<rparr>
                else enter_review opts v to fee s')))"

text \<open>A simulation throws, or answers with an error text that is not empty, or with a fee.\<close>

datatype simulation_answer = SimThrew string | SimAnswered "string option" string

definition settle_simulation :: "nat \<Rightarrow> simulation_answer \<Rightarrow> send_state \<Rightarrow> send_state option" where
  "settle_simulation k a s =
     (if k \<ge> length (ss_simulations s) then None
      else case ss_simulations s ! k of (amount, estimated) \<Rightarrow>
        let s' = s\<lparr>ss_simulations := drop_nth k (ss_simulations s)\<rparr> in
        Some (case a of
            SimThrew msg \<Rightarrow> s'\<lparr>ss_simulation := Some (SimError msg)\<rparr>
          | SimAnswered err fee \<Rightarrow>
              if err \<noteq> None \<and> err \<noteq> Some [] then s'\<lparr>ss_simulation := map_option SimError err\<rparr>
              else let updated = estimated\<lparr>fe_totalFee := fee, fe_baseFee := fee\<rparr> in
                s'\<lparr>ss_fee := Some updated,
                   ss_tx := map_option (\<lambda>d. d\<lparr>dr_fee := updated, dr_total := amount_total amount fee\<rparr>) (ss_tx s),
                   ss_simulation := Some (SimSuccess fee)\<rparr>))"

section \<open>Confirmation\<close>

text \<open>
  The answers a confirmation awaits, each absent when it throws: the password check, the creation of a
  scheduled transfer, the signature (a flag), the submission.
\<close>

record confirm_answer =
  ca_auth :: "bool option"
  ca_created :: "string option"
  ca_signed :: bool
  ca_submitted :: "string option"

definition start_confirm :: "send_state \<Rightarrow> send_state" where
  "start_confirm s = s\<lparr>ss_errors := (ss_errors s)\<lparr>er_password := None\<rparr>, ss_submitting := True,
     ss_confirms := ss_confirms s @ [(ss_tx s, ss_timing s, ss_schedule s)]\<rparr>"

definition start_polling :: "string \<Rightarrow> send_state \<Rightarrow> send_state" where
  "start_polling txId s =
     s\<lparr>ss_txId := Some txId, ss_status := TxPending, ss_failures := 0, ss_step := StepStatus,
       ss_timers := ss_timers s @ [(ss_nextTimer s, txId)], ss_pollRef := Some (ss_nextTimer s),
       ss_nextTimer := Suc (ss_nextTimer s)\<rparr>"

definition settle_confirm :: "nat \<Rightarrow> confirm_answer \<Rightarrow> send_state \<Rightarrow> send_state option" where
  "settle_confirm k a s =
     (if k \<ge> length (ss_confirms s) then None
      else case ss_confirms s ! k of (tx, scheduled, schedule) \<Rightarrow>
        let s' = s\<lparr>ss_confirms := drop_nth k (ss_confirms s), ss_submitting := False\<rparr>;
            refuse = \<lambda>e. s'\<lparr>ss_errors := (ss_errors s)\<lparr>er_password := Some e\<rparr>\<rparr>
        in Some (case ca_auth a of
            None \<Rightarrow> s'
          | Some False \<Rightarrow> refuse IncorrectPassword
          | Some True \<Rightarrow> (case tx of
              None \<Rightarrow> refuse NoTransaction
            | Some d \<Rightarrow>
                if scheduled
                then (if schedule = None then refuse NoSchedule
                      else case ca_created a of None \<Rightarrow> s'
                        | Some t \<Rightarrow> s'\<lparr>ss_scheduledTransfer := Some t, ss_step := StepScheduled\<rparr>)
                else if \<not> ca_signed a then s'
                else (case ca_submitted a of
                        None \<Rightarrow> s'\<lparr>ss_submitted := d # ss_submitted s\<rparr>
                      | Some txId \<Rightarrow> start_polling txId (s'\<lparr>ss_submitted := d # ss_submitted s\<rparr>)))))"

section \<open>Polling\<close>

definition poll_tick :: "nat \<Rightarrow> send_state \<Rightarrow> send_state option" where
  "poll_tick t s = (case map_of (ss_timers s) t of
       None \<Rightarrow> None | Some txId \<Rightarrow> Some (s\<lparr>ss_polls := ss_polls s @ [txId]\<rparr>))"

definition settle_poll :: "nat \<Rightarrow> tx_status \<Rightarrow> send_state \<Rightarrow> send_state option" where
  "settle_poll k raw s =
     (if k \<ge> length (ss_polls s) then None
      else Some (s\<lparr>ss_polls := drop_nth k (ss_polls s), ss_status := raw,
        ss_failures := (if raw = TxUnreachable then Suc (ss_failures s) else 0),
        ss_timers := (if isTerminalStatus (mapRpcStatus (tx_status_text raw))
                      then filter (\<lambda>(t, _). Some t \<noteq> ss_pollRef s) (ss_timers s) else ss_timers s)\<rparr>))"

definition statusUnreachable :: "send_state \<Rightarrow> bool" where
  "statusUnreachable s = (ss_status s = TxUnreachable \<and> ss_failures s \<ge> 2)"

section \<open>Runs\<close>

datatype send_event = GoToReview time send_form | ReviewSettled nat review_answer
  | SimulationSettled nat simulation_answer | RequestConfirm | Confirm | ConfirmSettled nat confirm_answer
  | Tick nat | PollSettled nat tx_status | SetStep send_step

fun hook_step :: "send_options \<Rightarrow> send_event \<Rightarrow> send_state \<Rightarrow> send_state option" where
  "hook_step opts (GoToReview now v) s = Some (go_to_review opts now v s)"
| "hook_step opts (ReviewSettled k a) s = settle_review opts k a s"
| "hook_step opts (SimulationSettled k a) s = settle_simulation k a s"
| "hook_step opts RequestConfirm s = Some (s\<lparr>ss_step := StepConfirm\<rparr>)"
| "hook_step opts Confirm s = Some (start_confirm s)"
| "hook_step opts (ConfirmSettled k a) s = settle_confirm k a s"
| "hook_step opts (Tick t) s = poll_tick t s"
| "hook_step opts (PollSettled k raw) s = settle_poll k raw s"
| "hook_step opts (SetStep st) s = Some (s\<lparr>ss_step := st\<rparr>)"

fun hook_run :: "send_options \<Rightarrow> send_event list \<Rightarrow> send_state \<Rightarrow> send_state option" where
  "hook_run opts [] s = Some s"
| "hook_run opts (e # es) s = (case hook_step opts e s of None \<Rightarrow> None | Some s' \<Rightarrow> hook_run opts es s')"

section \<open>What a draft has passed\<close>

definition amount_valid :: "send_options \<Rightarrow> string \<Rightarrow> bool" where
  "amount_valid opts amount = (validateAmount amount (so_balance opts) (so_assetDecimals opts) = None
     \<and> policy_action_of (js_Number amount) (so_todayTotal opts) (so_policy opts) \<noteq> Block)"

definition form_valid :: "send_options \<Rightarrow> send_form \<Rightarrow> bool" where
  "form_valid opts v = (validateRecipientAddress (sv_to v) = None \<and> amount_valid opts (sv_amount v)
     \<and> length (coalesce (sv_note v) []) \<le> MAX_NOTE_LENGTH)"

definition draft_valid :: "send_options \<Rightarrow> draft \<Rightarrow> bool" where
  "draft_valid opts d = (isStellarAddress (dr_to d) \<and> amount_valid opts (dr_amount d)
     \<and> length (coalesce (dr_note d) []) \<le> MAX_NOTE_LENGTH)"

definition drafts_of :: "send_state \<Rightarrow> draft set" where
  "drafts_of s = set_option (ss_tx s) \<union> (\<Union>c \<in> set (ss_confirms s). set_option (fst c)) \<union> set (ss_submitted s)"

definition hook_inv :: "send_options \<Rightarrow> send_state \<Rightarrow> bool" where
  "hook_inv opts s = (list_all (form_valid opts) (ss_reviews s) \<and> Ball (drafts_of s) (draft_valid opts))"

lemma amount_none:
  assumes "validateAmount a bal dec = None"
  shows "amount_text a" "num_less (Fin 0) (js_Number a)" "\<not> num_less bal (js_Number a)"
proof -
  have schema: "amount_schema a = None" using assms by (simp add: validateAmount_def split: option.splits)
  then show am: "amount_text a" by (simp add: amount_schema_def split: if_splits)
  have "num_less (Fin 0) (js_parseFloat a)" using schema by (simp add: amount_schema_def split: if_splits)
  then show "num_less (Fin 0) (js_Number a)" by (simp add: parse_of_amount [OF am] number_of_amount [OF am])
  show "\<not> num_less bal (js_Number a)" using assms by (simp add: validateAmount_def split: option.splits if_splits)
qed

lemma amount_number:
  assumes "validateAmount a (Fin b) dec = None" shows "\<exists>x. js_Number a = Fin x \<and> 0 < x \<and> x \<le> b"
  using amount_none [OF assms] by (cases "js_Number a") auto

lemma form_ok_valid:
  assumes "so_balance opts = Fin b" "form_ok (validateForm opts now v)" shows "form_valid opts v"
proof -
  let ?a = "sv_amount v"
  have ok: "validateRecipientAddress (sv_to v) = None" "validateAmount ?a (Fin b) (so_assetDecimals opts) = None"
    "length (coalesce (sv_note v) []) \<le> MAX_NOTE_LENGTH"
    using assms by (auto simp: form_ok_def validateForm_def Let_def note_too_long_def split: option.splits if_splits)
  obtain x where x: "js_Number ?a = Fin x" "0 < x" using amount_number [OF ok(2)] by blast
  have "fst (validateTransferPolicy (js_Number ?a) (so_todayTotal opts) (Some (so_policy opts)) (Some (so_assetCode opts))) \<noteq> Block"
    using assms x ok(2) by (auto simp: form_ok_def validateForm_def Let_def split: prod.splits policy_action.splits)
  then show ?thesis using ok assms(1) by (simp add: form_valid_def amount_valid_def action_asset_irrelevant)
qed

lemma resolved_valid:
  assumes "form_valid opts v" "resolve_recipient v a = Inr to" shows "isStellarAddress to"
proof (cases "isHandleInput (js_trim (sv_to v))")
  case True
  then show ?thesis using assms(2) by (auto simp: resolve_recipient_def Let_def split: option.splits if_splits)
next
  case False
  then show ?thesis using assms by (auto simp: resolve_recipient_def Let_def form_valid_def validateRecipientAddress_def split: if_splits)
qed

lemma set_drop_nth: "set (drop_nth k xs) \<subseteq> set xs"
  by (auto simp: drop_nth_def dest: in_set_takeD in_set_dropD)

lemma settle_confirm_effect:
  assumes "settle_confirm k a s = Some s'"
  shows "ss_reviews s' = ss_reviews s" "ss_tx s' = ss_tx s" "ss_confirms s' = drop_nth k (ss_confirms s)"
    "set (ss_submitted s') \<subseteq> set (ss_submitted s) \<union> set_option (fst (ss_confirms s ! k))"
    "length (ss_submitted s') \<le> length (ss_submitted s) + (if ca_auth a = Some True \<and> ca_signed a then 1 else 0)"
proof -
  obtain tx scheduled schedule where c: "ss_confirms s ! k = (tx, scheduled, schedule)" by (cases "ss_confirms s ! k")
  note [simp] = settle_confirm_def start_polling_def Let_def
  note assms = assms [unfolded settle_confirm_def c prod.case]
  show "ss_reviews s' = ss_reviews s" using assms by (auto split: option.splits bool.splits if_splits)
  show "ss_tx s' = ss_tx s" using assms by (auto split: option.splits bool.splits if_splits)
  show "ss_confirms s' = drop_nth k (ss_confirms s)" using assms by (auto split: option.splits bool.splits if_splits)
  show "set (ss_submitted s') \<subseteq> set (ss_submitted s) \<union> set_option (fst (ss_confirms s ! k))"
    unfolding c using assms by (auto split: option.splits bool.splits if_splits)
  show "length (ss_submitted s') \<le> length (ss_submitted s) + (if ca_auth a = Some True \<and> ca_signed a then 1 else 0)"
    using assms by (auto split: option.splits bool.splits if_splits)
qed

lemma hook_inv_same:
  "hook_inv opts s \<Longrightarrow> drafts_of s' \<subseteq> drafts_of s \<Longrightarrow> ss_reviews s' = ss_reviews s \<Longrightarrow> hook_inv opts s'"
  unfolding hook_inv_def by auto

lemma hook_step_inv:
  assumes "so_balance opts = Fin b" "hook_inv opts s" "hook_step opts e s = Some s'" shows "hook_inv opts s'"
proof (cases e)
  case (GoToReview now v)
  then have s': "s' = go_to_review opts now v s" using assms(3) by simp
  have d: "drafts_of s' = drafts_of s" unfolding s' by (simp add: go_to_review_def Let_def drafts_of_def)
  have "list_all (form_valid opts) (ss_reviews s')"
    using assms(2) form_ok_valid [OF assms(1), of now v] unfolding s' by (simp add: go_to_review_def Let_def hook_inv_def)
  with d assms(2) show ?thesis by (simp add: hook_inv_def)
next
  case (ReviewSettled k a)
  let ?v = "ss_reviews s ! k"
  have s: "settle_review opts k a s = Some s'" and k: "k < length (ss_reviews s)"
    using assms(3) ReviewSettled by (auto simp: settle_review_def split: if_splits)
  have v: "form_valid opts ?v" using assms(2) k by (simp add: hook_inv_def list_all_length)
  have r: "list_all (form_valid opts) (drop_nth k (ss_reviews s))"
    using assms(2) set_drop_nth [of k "ss_reviews s"] by (auto simp: hook_inv_def list_all_iff)
  have d: "drafts_of s' \<subseteq> drafts_of s \<union> {make_draft opts ?v to fee | to fee. resolve_recipient ?v a = Inr to}"
    and r': "ss_reviews s' = drop_nth k (ss_reviews s)"
    using s k by (auto simp: settle_review_def enter_review_def Let_def drafts_of_def split: sum.splits option.splits if_splits)
  have "draft_valid opts (make_draft opts ?v to fee)" if "resolve_recipient ?v a = Inr to" for to fee
    using v resolved_valid [OF v that] by (simp add: draft_valid_def form_valid_def make_draft_def)
  then have "Ball (drafts_of s') (draft_valid opts)" using d assms(2) unfolding hook_inv_def by blast
  with r r' show ?thesis by (simp add: hook_inv_def)
next
  case (SimulationSettled k a)
  then have s: "settle_simulation k a s = Some s'" using assms(3) by simp
  have same: "ss_reviews s' = ss_reviews s" "ss_confirms s' = ss_confirms s" "ss_submitted s' = ss_submitted s"
    using s by (auto simp: settle_simulation_def Let_def split: if_splits prod.splits simulation_answer.splits)
  let ?core = "map_option (\<lambda>d. (dr_to d, dr_amount d, dr_note d))"
  have "?core (ss_tx s') = ?core (ss_tx s)"
    using s by (cases "ss_tx s") (auto simp: settle_simulation_def Let_def split: if_splits prod.splits simulation_answer.splits)
  then have "draft_valid opts d" if "ss_tx s' = Some d" for d
    using that assms(2) by (cases "ss_tx s") (auto simp: hook_inv_def drafts_of_def draft_valid_def)
  then show ?thesis using assms(2) unfolding hook_inv_def drafts_of_def same by auto
next
  case (ConfirmSettled k a)
  let ?c = "ss_confirms s ! k"
  have s: "settle_confirm k a s = Some s'" and k: "k < length (ss_confirms s)"
    using assms(3) ConfirmSettled by (auto simp: settle_confirm_def split: if_splits)
  have c: "draft_valid opts d" if "fst ?c = Some d" for d
    using assms(2) nth_mem [OF k] that by (force simp: hook_inv_def drafts_of_def)
  have r: "x \<in> set (ss_confirms s)" if "x \<in> set (drop_nth k (ss_confirms s))" for x
    by (rule subsetD [OF set_drop_nth that])
  note eff = settle_confirm_effect [OF s]
  have "draft_valid opts d" if d: "d \<in> drafts_of s'" for d
  proof (cases "d \<in> drafts_of s")
    case True
    then show ?thesis using assms(2) by (simp add: hook_inv_def)
  next
    case False
    then have "d \<in> set_option (fst ?c)" using d eff(4) r unfolding drafts_of_def eff(2,3) by blast
    then show ?thesis using c by simp
  qed
  then show ?thesis using assms(2) eff(1) by (simp add: hook_inv_def)
next
  case (Tick t)
  then show ?thesis using assms(3)
    by (intro hook_inv_same [OF assms(2)]) (simp_all add: poll_tick_def drafts_of_def split: option.splits, auto)
next
  case (PollSettled k raw)
  then show ?thesis using assms(3)
    by (intro hook_inv_same [OF assms(2)]) (simp_all add: settle_poll_def drafts_of_def split: if_splits, auto)
next
  case Confirm
  then show ?thesis using assms(3)
    by (intro hook_inv_same [OF assms(2)]) (auto simp: start_confirm_def drafts_of_def)
next
  case RequestConfirm
  then show ?thesis using assms(3)
    by (intro hook_inv_same [OF assms(2)]) (auto simp: drafts_of_def)
next
  case (SetStep st)
  then show ?thesis using assms(3)
    by (intro hook_inv_same [OF assms(2)]) (auto simp: drafts_of_def)
qed

lemma hook_run_inv:
  assumes "so_balance opts = Fin b" shows "hook_inv opts s \<Longrightarrow> hook_run opts evs s = Some s' \<Longrightarrow> hook_inv opts s'"
  using assms by (induction opts evs s rule: hook_run.induct) (auto split: option.splits dest: hook_step_inv)

end
