(* ===== verification/SendSafety.thy ===== *)
theory SendSafety
  imports SendFlow
begin

text \<open>
  What the send screen guarantees over whole runs, in whatever order the answers come, and the runs
  in which it does not do what it means to.
\<close>

section \<open>Counting payments\<close>

fun confirmed_event :: "send_event \<Rightarrow> bool" where
  "confirmed_event (ConfirmSettled _ a) = (ca_auth a = Some True \<and> ca_signed a)"
| "confirmed_event _ = False"

lemma step_submitted:
  assumes "hook_step opts e s = Some s'"
  shows "length (ss_submitted s') \<le> length (ss_submitted s) + (if confirmed_event e then 1 else 0)"
proof (cases e)
  case (ConfirmSettled k a)
  then show ?thesis using settle_confirm_effect(5) [of k a s s'] assms by simp
qed (use assms in \<open>auto simp: go_to_review_def settle_review_def enter_review_def settle_simulation_def start_confirm_def
      poll_tick_def settle_poll_def Let_def split: if_splits option.splits sum.splits prod.splits simulation_answer.splits\<close>)

lemma submitted_count:
  "hook_run opts evs s = Some s' \<Longrightarrow> length (ss_submitted s') \<le> length (ss_submitted s) + length (filter confirmed_event evs)"
proof (induction opts evs s rule: hook_run.induct)
  case (2 opts e es s)
  then obtain s2 where s2: "hook_step opts e s = Some s2" "hook_run opts es s2 = Some s'" by (auto split: option.splits)
  from "2.IH" [OF s2] step_submitted [OF s2(1)] show ?case by (auto split: if_splits)
qed simp

section \<open>A sample form\<close>

definition sample_account :: string where
  "sample_account = CHR ''G'' # replicate 55 CHR ''A''"

definition sample_form :: "string \<Rightarrow> send_form" where
  "sample_form amount = \<lparr>sv_to = sample_account, sv_amount = amount, sv_note = None, sv_scheduled = False, sv_schedule = None\<rparr>"

definition sample_options :: "bool \<Rightarrow> send_options" where
  "sample_options simulates = \<lparr>so_balance = Fin 250, so_assetDecimals = 7, so_assetCode = ''XLM'',
     so_policy = DEFAULT_TRANSFER_POLICY, so_todayTotal = Fin 0, so_simulates = simulates\<rparr>"

lemma sample_account_ok:
  "js_trim sample_account = sample_account" "\<not> isHandleInput sample_account" "isStellarAddress sample_account"
  "validateRecipientAddress sample_account = None"
proof -
  have g: "\<not> is_js_space CHR ''G''" "\<not> is_js_space CHR ''A''" "is_upper_char CHR ''A''" by code_simp+
  have l: "last sample_account = CHR ''A''" by (simp add: sample_account_def)
  show t: "js_trim sample_account = sample_account"
    using g(1,2) l by (intro js_trim_inner) (simp_all add: sample_account_def)
  show h: "\<not> isHandleInput sample_account"
    unfolding isHandleInput_def t by (simp add: js_starts_with_def sample_account_def)
  show a: "isStellarAddress sample_account"
    using g(3) by (simp add: isStellarAddress_def is_strkey_text_def sample_account_def list_all_iff)
  show "validateRecipientAddress sample_account = None"
    unfolding validateRecipientAddress_def Let_def t using h a by (simp add: sample_account_def)
qed

lemma single_digit:
  assumes "is_digit_char c" "n = char_code c - 48"
  shows "amount_text [c]" "decimalToStroops [c] = n * 10 ^ 7"
proof -
  show "amount_text [c]" using assms(1) by (simp add: amount_text_def)
  have d: "c \<noteq> CHR ''.''" using digit_char_facts [OF assms(1)] by blast
  have z: "read_digits (replicate 7 CHR ''0'') = 0" by (rule read_zeros)
  have "decimalToStroops [c] = read_digits [c] * 10 ^ 7 + read_digits (replicate 7 CHR ''0'')"
    unfolding decimalToStroops_def Let_def using d by simp
  then show "decimalToStroops [c] = n * 10 ^ 7" unfolding z by (simp add: read_digits_def assms(2))
qed

lemma digit_number:
  assumes "is_digit_char c" shows "js_Number [c] = Fin (of_nat (char_code c - 48))"
    "js_parseFloat [c] = Fin (of_nat (char_code c - 48))"
proof -
  let ?n = "char_code c - 48"
  note d = single_digit [OF assms refl]
  have q: "(of_nat (?n * 10 ^ 7) / 10 ^ 7 :: rat) = of_int (int ?n)" by simp
  have "\<bar>int ?n\<bar> < 2 ^ 53" using assms by (simp add: is_digit_char_def)
  then have "f64 (of_int (int ?n)) = Fin (of_int (int ?n))" by (rule f64_int)
  then have f: "f64 (of_nat (decimalToStroops [c]) / 10 ^ 7) = Fin (of_nat ?n)" unfolding d(2) q by simp
  show "js_Number [c] = Fin (of_nat ?n)" unfolding number_of_amount [OF d(1)] by (rule f)
  show "js_parseFloat [c] = Fin (of_nat ?n)" unfolding parse_of_amount [OF d(1)] by (rule f)
qed

lemma sample_valid:
  assumes "is_digit_char c" "c \<noteq> CHR ''0''"
  shows "form_ok (validateForm (sample_options sim) now (sample_form [c]))"
proof -
  let ?n = "of_nat (char_code c - 48) :: rat"
  have n: "0 < ?n" "?n \<le> 9"
  proof -
    have "char_code c \<noteq> 48" using assms(2) char_code_inj [of c "CHR ''0''"] by (auto simp: char_code_def)
    then show "0 < ?n" using assms(1) by (simp add: is_digit_char_def)
    have "char_code c - 48 \<le> 9" using assms(1) unfolding is_digit_char_def by linarith
    then show "?n \<le> 9" by (metis of_nat_le_iff of_nat_numeral)
  qed
  have f: "f64 ?n = Fin ?n"
  proof -
    have "\<bar>int (char_code c - 48)\<bar> < 2 ^ 53" using assms(1) by (simp add: is_digit_char_def)
    from f64_int [OF this] show ?thesis by simp
  qed
  define x where "x = ?n"
  note n = n [folded x_def] and f = f [folded x_def]
  note num = digit_number [OF assms(1), folded x_def]
  have p: "getDecimalPlaces [c] = 0" using assms(1) by (simp add: getDecimalPlaces_def)
  have a: "validateAmount [c] (Fin 250) 7 = None"
    using n by (simp add: validateAmount_def amount_schema_def validateAmountPrecision_def num
        single_digit(1) [OF assms(1) refl] p)
  show ?thesis using n
    by (simp add: form_ok_def validateForm_def Let_def sample_form_def sample_options_def sample_account_ok a num
        validateTransferPolicy_def DEFAULT_TRANSFER_POLICY_def f num_leq_def not_le)
qed

definition good_answer :: review_answer where
  "good_answer = \<lparr>ra_resolved = None, ra_fee = Some (default_fee False), ra_listed = False\<rparr>"

definition submitted_as :: "string option \<Rightarrow> confirm_answer" where
  "submitted_as txId = \<lparr>ca_auth = Some True, ca_created = None, ca_signed = True, ca_submitted = txId\<rparr>"

definition sample_draft :: "bool \<Rightarrow> string \<Rightarrow> draft" where
  "sample_draft sim amount = make_draft (sample_options sim) (sample_form amount) sample_account (default_fee False)"

lemma sample_review:
  assumes "is_digit_char c" "c \<noteq> CHR ''0''" "ss_reviews s = []"
  shows "hook_run (sample_options sim) [GoToReview now (sample_form [c]), ReviewSettled 0 good_answer] s
    = Some (enter_review (sample_options sim) (sample_form [c]) sample_account (default_fee False)
        (s\<lparr>ss_timing := False, ss_schedule := None, ss_errors := (validateForm (sample_options sim) now (sample_form [c]))\<lparr>er_simulation := None\<rparr>,
           ss_reviews := [], ss_submitting := False\<rparr>))"
proof -
  have r: "resolve_recipient (sample_form [c]) good_answer = Inr sample_account"
    by (simp add: resolve_recipient_def Let_def sample_form_def sample_account_ok)
  have f: "sv_scheduled (sample_form [c]) = False" "sv_schedule (sample_form [c]) = None" by (simp_all add: sample_form_def)
  have g: "go_to_review (sample_options sim) now (sample_form [c]) s
      = s\<lparr>ss_timing := False, ss_schedule := None, ss_errors := (validateForm (sample_options sim) now (sample_form [c]))\<lparr>er_simulation := None\<rparr>,
           ss_submitting := True, ss_reviews := [sample_form [c]]\<rparr>"
    unfolding go_to_review_def Let_def using sample_valid [OF assms(1,2), of sim now] assms(3) by (simp add: f)
  have m: "fe_mainnet (default_fee False) = False" by (simp add: default_fee_def)
  show ?thesis
    by (simp add: g settle_review_def Let_def r good_answer_def [THEN arg_cong [where f = ra_fee]] m drop_nth_def)
qed

section \<open>Properties\<close>

text \<open>
  C1. Whatever the user does and in whatever order the answers come, every payment handed to the service
  is to a well-formed account address, its amount is positive and within the balance, the transfer
  policy does not block it and its note fits; and there are no more payments than confirmations that
  passed the password check and were signed.
\<close>

theorem sent_payments_validated:
  assumes "so_balance opts = Fin b" "hook_run opts evs send_start = Some s"
  shows "list_all (\<lambda>d. isStellarAddress (dr_to d)
      \<and> (\<exists>x. js_Number (dr_amount d) = Fin x \<and> 0 < x \<and> x \<le> b)
      \<and> policy_action_of (js_Number (dr_amount d)) (so_todayTotal opts) (so_policy opts) \<noteq> Block
      \<and> length (coalesce (dr_note d) []) \<le> MAX_NOTE_LENGTH) (ss_submitted s)
    \<and> length (ss_submitted s) \<le> length (filter confirmed_event evs)"
proof
  have "hook_inv opts send_start" by (simp add: hook_inv_def drafts_of_def send_start_def)
  then have "hook_inv opts s" by (rule hook_run_inv [OF assms(1) _ assms(2)])
  then have "draft_valid opts d" if "d \<in> set (ss_submitted s)" for d using that by (simp add: hook_inv_def drafts_of_def)
  then show "list_all (\<lambda>d. isStellarAddress (dr_to d)
      \<and> (\<exists>x. js_Number (dr_amount d) = Fin x \<and> 0 < x \<and> x \<le> b)
      \<and> policy_action_of (js_Number (dr_amount d)) (so_todayTotal opts) (so_policy opts) \<noteq> Block
      \<and> length (coalesce (dr_note d) []) \<le> MAX_NOTE_LENGTH) (ss_submitted s)"
    unfolding list_all_iff draft_valid_def amount_valid_def using amount_number assms(1) by metis
  show "length (ss_submitted s) \<le> length (filter confirmed_event evs)"
    using submitted_count [OF assms(2)] by (simp add: send_start_def)
qed

lemma hook_run_append:
  "hook_run opts (es @ es') s = (case hook_run opts es s of None \<Rightarrow> None | Some s' \<Rightarrow> hook_run opts es' s')"
  by (induction opts es s rule: hook_run.induct) (auto split: option.splits)

lemma hook_run_then:
  "hook_run opts es s = Some s' \<Longrightarrow> hook_run opts es' s' = Some s'' \<Longrightarrow> hook_run opts (es @ es') s = Some s''"
  by (simp add: hook_run_append)

lemma sample_run:
  assumes "is_digit_char c" "c \<noteq> CHR ''0''"
  shows "\<exists>s. hook_run (sample_options sim) [GoToReview 0 (sample_form [c]), ReviewSettled 0 good_answer] send_start = Some s
    \<and> ss_tx s = Some (sample_draft sim [c]) \<and> ss_step s = StepReview \<and> ss_reviews s = [] \<and> ss_timing s = False
    \<and> ss_confirms s = [] \<and> ss_timers s = [] \<and> ss_polls s = [] \<and> ss_submitted s = []
    \<and> ss_simulations s = (if sim then [([c], default_fee False)] else [])"
proof -
  have "ss_reviews send_start = []" by (simp add: send_start_def)
  from sample_review [OF assms this, of sim 0] show ?thesis
    by (simp add: enter_review_def sample_draft_def send_start_def sample_form_def sample_options_def)
qed

lemma sent_payments_validated_witness:
  "\<exists>s. hook_run (sample_options False) [GoToReview 0 (sample_form ''5''), ReviewSettled 0 good_answer, Confirm,
      ConfirmSettled 0 (submitted_as (Some ''tx''))] send_start = Some s
    \<and> ss_submitted s = [sample_draft False ''5'']
    \<and> (\<exists>x. js_Number (dr_amount (sample_draft False ''5'')) = Fin x \<and> 0 < x \<and> x \<le> 250)"
proof -
  let ?evs = "[GoToReview 0 (sample_form ''5''), ReviewSettled 0 good_answer, Confirm, ConfirmSettled 0 (submitted_as (Some ''tx''))]"
  have d: "is_digit_char CHR ''5''" "CHR ''5'' \<noteq> CHR ''0''" by code_simp+
  obtain s0 where s0: "hook_run (sample_options False) [GoToReview 0 (sample_form ''5''), ReviewSettled 0 good_answer] send_start = Some s0"
    "ss_tx s0 = Some (sample_draft False ''5'')" "ss_timing s0 = False" "ss_confirms s0 = []" "ss_submitted s0 = []"
    using sample_run [OF d, of False] by blast
  have "\<exists>s. hook_run (sample_options False) [Confirm, ConfirmSettled 0 (submitted_as (Some ''tx''))] s0 = Some s
      \<and> ss_submitted s = [sample_draft False ''5'']"
    using s0(2-5) by (simp add: start_confirm_def settle_confirm_def start_polling_def submitted_as_def Let_def)
  then obtain s where s': "hook_run (sample_options False) [Confirm, ConfirmSettled 0 (submitted_as (Some ''tx''))] s0 = Some s"
    "ss_submitted s = [sample_draft False ''5'']" by blast
  from hook_run_then [OF s0(1) s'(1)] have s: "hook_run (sample_options False) ?evs send_start = Some s"
    by (simp only: append.simps)
  have "so_balance (sample_options False) = Fin 250" by (simp add: sample_options_def)
  from sent_payments_validated [OF this s] s s'(2) show ?thesis by (simp del: hook_run.simps)
qed

text \<open>
  The total of a draft is exact, to the stroop, for amounts and fees that together stay within two
  hundred million units.
\<close>

theorem review_total_exact:
  assumes "amount_text (sv_amount v)" "amount_text (fe_totalFee fee)"
    and "decimalToStroops (sv_amount v) + decimalToStroops (fe_totalFee fee) \<le> 2 * 10 ^ 15"
  shows "amount_text (dr_total (make_draft opts v to fee))
    \<and> decimalToStroops (dr_total (make_draft opts v to fee)) = decimalToStroops (sv_amount v) + decimalToStroops (fe_totalFee fee)"
proof -
  have "dr_total (make_draft opts v to fee) = fixed_text 7 (decimalToStroops (sv_amount v) + decimalToStroops (fe_totalFee fee))"
    using fixed_sum [OF assms(3)]
    by (simp add: make_draft_def amount_total_def number_of_amount [OF assms(1)] number_of_amount [OF assms(2)])
  then show ?thesis by (simp only: fixed_amount)
qed

lemma review_total_exact_witness:
  "decimalToStroops (dr_total (make_draft (sample_options False) (sample_form ''5'') sample_account (default_fee False))) = 50000100"
proof -
  have "is_digit_char CHR ''5''" "char_code CHR ''5'' = 53" by code_simp+
  then have d: "amount_text (sv_amount (sample_form ''5''))" "decimalToStroops (sv_amount (sample_form ''5'')) = 50000000"
    using single_digit [of "CHR ''5''" 5] by (simp_all add: sample_form_def)
  have "decimalToStroops (sv_amount (sample_form ''5'')) + decimalToStroops (fe_totalFee (default_fee False)) \<le> 2 * 10 ^ 15"
    unfolding d(2) default_fee_stroops(2) by simp
  from review_total_exact [OF d(1) default_fee_stroops(1) this] show ?thesis
    unfolding d(2) default_fee_stroops(2) by simp
qed

text \<open>
  A simulation that answers late overwrites the review it does not belong to: the form was sent with
  5, then changed to 1, and the review of 1 shows the total of 5.
\<close>

theorem stale_simulation_total:
  "\<exists>s d. hook_run (sample_options True) [GoToReview 0 (sample_form ''5''), ReviewSettled 0 good_answer, SetStep StepForm,
      GoToReview 0 (sample_form ''1''), ReviewSettled 0 good_answer, SimulationSettled 0 (SimAnswered None ''0.0000100'')] send_start = Some s
    \<and> ss_step s = StepReview \<and> ss_tx s = Some d \<and> dr_amount d = ''1'' \<and> decimalToStroops (dr_total d) = 50000100"
proof -
  have d: "is_digit_char CHR ''5''" "CHR ''5'' \<noteq> CHR ''0''" "is_digit_char CHR ''1''" "CHR ''1'' \<noteq> CHR ''0''"
    "char_code CHR ''5'' = 53" by code_simp+
  obtain s0 where s0: "hook_run (sample_options True) [GoToReview 0 (sample_form ''5''), ReviewSettled 0 good_answer] send_start = Some s0"
    "ss_reviews s0 = []" "ss_simulations s0 = [(''5'', default_fee False)]"
    using sample_run [OF d(1,2), of True] by auto
  have "ss_reviews (s0\<lparr>ss_step := StepForm\<rparr>) = []" using s0(2) by simp
  note second = sample_review [OF d(3,4) this, of True 0]
  have five: "decimalToStroops (amount_total ''5'' ''0.0000100'') = 50000100"
  proof -
    have a: "amount_text ''5''" "decimalToStroops ''5'' = 50000000" using single_digit [of "CHR ''5''" 5] d(1,5) by simp_all
    have f: "amount_text ''0.0000100''" "decimalToStroops ''0.0000100'' = 100"
      using default_fee_stroops [of False] by (simp_all add: default_fee_def)
    have "(50000000 :: nat) + 100 \<le> 2 * 10 ^ 15" by simp
    from fixed_sum [OF this] have "amount_total ''5'' ''0.0000100'' = fixed_text 7 (50000000 + 100)"
      unfolding amount_total_def number_of_amount [OF a(1)] number_of_amount [OF f(1)] a(2) f(2) .
    then show ?thesis by (simp only: fixed_amount)
  qed
  have "\<exists>s d. hook_run (sample_options True) [SetStep StepForm, GoToReview 0 (sample_form ''1''), ReviewSettled 0 good_answer,
        SimulationSettled 0 (SimAnswered None ''0.0000100'')] s0 = Some s
      \<and> ss_step s = StepReview \<and> ss_tx s = Some d \<and> dr_amount d = ''1'' \<and> decimalToStroops (dr_total d) = 50000100"
  proof -
    have split: "hook_run (sample_options True) [SetStep StepForm, GoToReview 0 (sample_form ''1''), ReviewSettled 0 good_answer,
        SimulationSettled 0 (SimAnswered None ''0.0000100'')] s0
      = hook_run (sample_options True) ([GoToReview 0 (sample_form ''1''), ReviewSettled 0 good_answer]
          @ [SimulationSettled 0 (SimAnswered None ''0.0000100'')]) (s0\<lparr>ss_step := StepForm\<rparr>)" by simp
    show ?thesis unfolding split hook_run_append second
      by (simp add: settle_simulation_def enter_review_def s0(3) Let_def five make_draft_def sample_form_def sample_options_def)
  qed
  then obtain s d where s: "hook_run (sample_options True) [SetStep StepForm, GoToReview 0 (sample_form ''1''), ReviewSettled 0 good_answer,
        SimulationSettled 0 (SimAnswered None ''0.0000100'')] s0 = Some s"
    "ss_step s = StepReview \<and> ss_tx s = Some d \<and> dr_amount d = ''1'' \<and> decimalToStroops (dr_total d) = 50000100" by blast
  from hook_run_then [OF s0(1) s(1)] s(2) show ?thesis unfolding append.simps by blast
qed

definition quiet :: "tx_status \<Rightarrow> send_state \<Rightarrow> bool" where
  "quiet st s = (ss_status s = st \<and> ss_timers s = [] \<and> ss_polls s = [] \<and> ss_confirms s = [])"

lemma quiet_step:
  assumes "quiet st s" "e \<noteq> Confirm" "hook_step opts e s = Some s'" shows "quiet st s'"
  using assms by (cases e) (auto simp: quiet_def go_to_review_def settle_review_def enter_review_def settle_simulation_def settle_confirm_def
      poll_tick_def settle_poll_def Let_def split: if_splits option.splits sum.splits prod.splits simulation_answer.splits)

lemma quiet_run: "quiet st s \<Longrightarrow> Confirm \<notin> set evs \<Longrightarrow> hook_run opts evs s = Some s' \<Longrightarrow> ss_status s' = st"
proof (induction opts evs s rule: hook_run.induct)
  case (2 opts e es s)
  then obtain s2 where s2: "hook_step opts e s = Some s2" "hook_run opts es s2 = Some s'" by (auto split: option.splits)
  have "quiet st s2" using quiet_step [OF "2.prems"(1) _ s2(1)] "2.prems"(2) by auto
  with "2.IH" [OF s2(1) _ _ s2(2)] "2.prems"(2) show ?case by simp
qed (simp add: quiet_def)

text \<open>
  A verdict that arrives while no other poll is under way is final: the timer is cleared and, unless
  another payment is confirmed, nothing changes the status again.
\<close>

theorem lone_poll_verdict_final:
  assumes "ss_timers s = [(t, txId)]" "ss_pollRef s = Some t" "ss_polls s = [txId]" "ss_confirms s = []"
    and "verdict = TxConfirmed \<or> verdict = TxFailed" "hook_run opts (PollSettled 0 verdict # evs) s = Some s'" "Confirm \<notin> set evs"
  shows "ss_status s' = verdict"
proof -
  obtain s2 where s2: "settle_poll 0 verdict s = Some s2" "hook_run opts evs s2 = Some s'"
    using assms(6) by (auto split: option.splits)
  have "quiet verdict s2" using s2(1) assms(1-5) verdict_terminal [of verdict]
    by (auto simp: settle_poll_def quiet_def drop_nth_def)
  then show ?thesis by (rule quiet_run [OF _ assms(7) s2(2)])
qed

definition polling_state :: send_state where
  "polling_state = send_start\<lparr>ss_timers := [(0, ''tx'')], ss_pollRef := Some 0, ss_status := TxPending\<rparr>"

lemma lone_poll_verdict_final_witness:
  "case hook_run (sample_options False) [PollSettled 0 TxConfirmed, RequestConfirm] (polling_state\<lparr>ss_polls := [''tx'']\<rparr>) of
     None \<Rightarrow> False | Some s' \<Rightarrow> ss_status s' = TxConfirmed"
proof -
  let ?s = "polling_state\<lparr>ss_polls := [''tx'']\<rparr>"
  have st: "ss_timers ?s = [(0, ''tx'')]" "ss_pollRef ?s = Some 0" "ss_polls ?s = [''tx'']" "ss_confirms ?s = []"
    by (simp_all add: polling_state_def send_start_def)
  have "\<exists>s'. hook_run (sample_options False) [PollSettled 0 TxConfirmed, RequestConfirm] ?s = Some s'" by (simp add: settle_poll_def)
  then obtain s' where s': "hook_run (sample_options False) [PollSettled 0 TxConfirmed, RequestConfirm] ?s = Some s'" by blast
  have "ss_status s' = TxConfirmed" by (rule lone_poll_verdict_final [OF st _ s']) simp_all
  then show ?thesis unfolding s' by simp
qed

text \<open>
  Polls overlap, as the timer does not wait for their answers: a poll that fails after a later one
  has seen the transaction confirmed overwrites the verdict, and as the timer is gone by then, the
  screen shows the transaction as unreachable for good.
\<close>

theorem late_poll_overwrites_verdict:
  assumes "ss_timers s = [(t, txId)]" "ss_pollRef s = Some t" "ss_polls s = []" "ss_confirms s = []" "Confirm \<notin> set evs"
  shows "\<exists>s'. hook_run opts [Tick t, Tick t, PollSettled 1 TxConfirmed] s = Some s' \<and> ss_status s' = TxConfirmed
    \<and> (case hook_run opts (PollSettled 0 TxUnreachable # evs) s' of None \<Rightarrow> True | Some s'' \<Rightarrow> ss_status s'' = TxUnreachable)"
proof -
  let ?s = "s\<lparr>ss_polls := [txId], ss_status := TxConfirmed, ss_failures := 0, ss_timers := []\<rparr>"
  have "hook_run opts [Tick t, Tick t, PollSettled 1 TxConfirmed] s = Some ?s"
    using assms(1-4) verdict_terminal [of TxConfirmed]
    by (simp add: poll_tick_def settle_poll_def drop_nth_def)
  moreover have "ss_status s'' = TxUnreachable" if r: "hook_run opts (PollSettled 0 TxUnreachable # evs) ?s = Some s''" for s''
  proof -
    obtain s2 where s2: "settle_poll 0 TxUnreachable ?s = Some s2" "hook_run opts evs s2 = Some s''"
      using r by (auto split: option.splits)
    have "quiet TxUnreachable s2" using s2(1) assms(4) by (auto simp: settle_poll_def quiet_def drop_nth_def)
    then show ?thesis by (rule quiet_run [OF _ assms(5) s2(2)])
  qed
  ultimately show ?thesis by (intro exI [of _ ?s]) (auto split: option.splits simp del: hook_run.simps)
qed

lemma late_poll_overwrites_verdict_witness:
  "\<exists>s'. hook_run (sample_options False) [Tick 0, Tick 0, PollSettled 1 TxConfirmed] polling_state = Some s' \<and> ss_status s' = TxConfirmed
    \<and> (case hook_run (sample_options False) (PollSettled 0 TxUnreachable # []) s' of None \<Rightarrow> True | Some s'' \<Rightarrow> ss_status s'' = TxUnreachable)"
  by (rule late_poll_overwrites_verdict [where txId = "''tx''"]) (simp_all add: polling_state_def send_start_def)

text \<open>
  Nothing remembers a submission whose outcome is unknown: when it fails, say by a timeout after the
  network took it, the same draft can be confirmed again and is signed and submitted once more.
\<close>

theorem failed_submission_resubmitted:
  assumes "ss_tx s = Some d" "\<not> ss_timing s" "ss_confirms s = []"
  shows "\<exists>s'. hook_run opts [Confirm, ConfirmSettled 0 (submitted_as None), Confirm, ConfirmSettled 0 (submitted_as (Some txId))] s = Some s'
    \<and> ss_submitted s' = d # d # ss_submitted s"
  using assms by (simp add: start_confirm_def settle_confirm_def start_polling_def submitted_as_def Let_def drop_nth_def)

lemma failed_submission_resubmitted_witness:
  "\<exists>s'. hook_run (sample_options False) [Confirm, ConfirmSettled 0 (submitted_as None), Confirm, ConfirmSettled 0 (submitted_as (Some ''tx''))]
      (send_start\<lparr>ss_tx := Some (sample_draft False ''5'')\<rparr>) = Some s' \<and> ss_submitted s' = [sample_draft False ''5'', sample_draft False ''5'']"
  using failed_submission_resubmitted [of "send_start\<lparr>ss_tx := Some (sample_draft False ''5'')\<rparr>"]
  by (simp add: send_start_def del: hook_run.simps)

end
