(* ===== verification/WebPolling.thy ===== *)
theory WebPolling
  imports Recipients
begin

text \<open>
  How the dashboard learns the fate of a payment: \<open>apps/web-dashboard/src/services/tx-polling.ts\<close> and the
  polling half of \<open>hooks/useSendTransaction.ts\<close>. The n-th request is what it answers; the clock's reading
  at a confirmation, which only dates it, is part of the answer. Sleeps are left out: between two attempts
  the loops wait a fixed interval.
\<close>

section \<open>One check\<close>

datatype poll_status = PollConfirmed int time | PollPending | PollFailed "string option"

text \<open>
  What a fetch comes to: it throws (or its body is no JSON), or a status that is not ok, or an ok answer with
  the fields the check reads.
\<close>

record horizon_tx =
  hz_successful :: bool
  hz_ledger :: int
  hz_created :: time

datatype 'b web_answer = WebThrew | WebStatus nat | WebOk 'b

text \<open>\<open>checkHorizonStatus\<close>; absent when it throws.\<close>

fun checkHorizonStatus :: "horizon_tx web_answer \<Rightarrow> poll_status option" where
  "checkHorizonStatus WebThrew = None"
| "checkHorizonStatus (WebStatus _) = Some PollPending"
| "checkHorizonStatus (WebOk tx) = Some
     (if hz_successful tx then PollConfirmed (hz_ledger tx) (hz_created tx)
      else PollFailed (Some ''Transaction failed on network''))"

record relay_job =
  rj_status :: string
  rj_ledger :: "int option"
  rj_error :: "string option"
  rj_now :: time

text \<open>One look at a relayer job; without a way to a token it throws before any request.\<close>

definition check_relay_job :: "bool \<Rightarrow> relay_job web_answer \<Rightarrow> poll_status option" where
  "check_relay_job has_token answer =
     (if \<not> has_token then None
      else case answer of
        WebThrew \<Rightarrow> None
      | WebStatus _ \<Rightarrow> Some PollPending
      | WebOk job \<Rightarrow> Some
          (if rj_status job = ''confirmed'' \<or> rj_status job = ''success'' then PollConfirmed (coalesce (rj_ledger job) 0) (rj_now job)
           else if rj_status job = ''failed'' then PollFailed (Some (coalesce (rj_error job) ''Relayer job failed''))
           else PollPending))"

section \<open>The loops\<close>

fun poll_verdict :: "poll_status option \<Rightarrow> bool" where
  "poll_verdict (Some (PollConfirmed _ _)) = True"
| "poll_verdict (Some (PollFailed _)) = True"
| "poll_verdict _ = False"

text \<open>
  The loop both pollers share, from attempt \<open>n\<close> on, with the message of a timeout. A check that throws
  counts as pending.
\<close>

function poll_from :: "(int \<Rightarrow> poll_status option) \<Rightarrow> string \<Rightarrow> int \<Rightarrow> int \<Rightarrow> poll_status \<times> int" where
  "poll_from check timeout maxAttempts n =
     (if n < maxAttempts
      then (if poll_verdict (check n) then (the (check n), n + 1) else poll_from check timeout maxAttempts (n + 1))
      else (if maxAttempts \<le> 1 then PollPending else PollFailed (Some timeout), maxAttempts))"
  by pat_completeness auto
termination by (relation "measure (\<lambda>(_, _, maxAttempts, n). nat (maxAttempts - n))") auto

declare poll_from.simps [simp del]

definition pollHorizonTransaction :: "(int \<Rightarrow> horizon_tx web_answer) \<Rightarrow> int \<Rightarrow> poll_status \<times> int" where
  "pollHorizonTransaction answer maxAttempts =
     poll_from (\<lambda>n. checkHorizonStatus (answer n)) ''Transaction polling timed out'' maxAttempts 0"

definition pollRelayerJob :: "bool \<Rightarrow> (int \<Rightarrow> relay_job web_answer) \<Rightarrow> int \<Rightarrow> poll_status \<times> int" where
  "pollRelayerJob has_token answer maxAttempts =
     poll_from (\<lambda>n. check_relay_job has_token (answer n)) ''Relayer job polling timed out'' maxAttempts 0"

text \<open>\<open>pollTransactionConfirmation\<close>, by where the payment went.\<close>

datatype poll_source = AtHorizon "int \<Rightarrow> horizon_tx web_answer" | AtRelayer bool "int \<Rightarrow> relay_job web_answer"

fun pollTransactionConfirmation :: "poll_source \<Rightarrow> int \<Rightarrow> poll_status \<times> int" where
  "pollTransactionConfirmation (AtHorizon answer) maxAttempts = pollHorizonTransaction answer maxAttempts"
| "pollTransactionConfirmation (AtRelayer has_token answer) maxAttempts = pollRelayerJob has_token answer maxAttempts"

text \<open>A single attempt of a later round: the requests of the source from the k-th on.\<close>

fun source_from :: "int \<Rightarrow> poll_source \<Rightarrow> poll_source" where
  "source_from k (AtHorizon answer) = AtHorizon (\<lambda>n. answer (k + n))"
| "source_from k (AtRelayer has_token answer) = AtRelayer has_token (\<lambda>n. answer (k + n))"

text \<open>
  \<open>runPollLoop\<close>: rounds of one attempt with a stop flag, \<open>stopped k\<close> before the k-th round and \<open>reported k\<close>
  after its answer; the statuses passed to the callback come along.
\<close>

function run_poll_loop ::
  "poll_source \<Rightarrow> (int \<Rightarrow> bool) \<Rightarrow> (int \<Rightarrow> bool) \<Rightarrow> int \<Rightarrow> int \<Rightarrow> (poll_status \<times> int) \<times> poll_status list" where
  "run_poll_loop src stopped reported maxAttempts k =
     (if k < maxAttempts \<and> \<not> stopped k
      then (let result = pollTransactionConfirmation (source_from k src) 1;
                seen = (if reported k then [] else [fst result])
            in if poll_verdict (Some (fst result)) then (result, seen)
               else (case run_poll_loop src stopped reported maxAttempts (k + 1) of (r, later) \<Rightarrow> (r, seen @ later)))
      else ((PollFailed (Some ''Polling stopped or timed out''), 0), []))"
  by pat_completeness auto
termination by (relation "measure (\<lambda>(_, _, _, maxAttempts, k). nat (maxAttempts - k))") auto

declare run_poll_loop.simps [simp del]

text \<open>\<open>startPolling\<close> of the send hook: the same rounds without a callback, and without a token to pass on.\<close>

definition hook_source :: "bool \<Rightarrow> (int \<Rightarrow> horizon_tx web_answer) \<Rightarrow> (int \<Rightarrow> relay_job web_answer) \<Rightarrow> poll_source" where
  "hook_source isRelayerJob horizon relayer = (if isRelayerJob then AtRelayer False relayer else AtHorizon horizon)"

function start_polling_from :: "poll_source \<Rightarrow> (int \<Rightarrow> bool) \<Rightarrow> int \<Rightarrow> int \<Rightarrow> poll_status" where
  "start_polling_from src stopped maxAttempts k =
     (if k < maxAttempts \<and> \<not> stopped k
      then (let result = fst (pollTransactionConfirmation (source_from k src) 1)
            in if poll_verdict (Some result) then result else start_polling_from src stopped maxAttempts (k + 1))
      else PollFailed (Some ''Polling timed out''))"
  by pat_completeness auto
termination by (relation "measure (\<lambda>(_, _, maxAttempts, k). nat (maxAttempts - k))") auto

declare start_polling_from.simps [simp del]

section \<open>The transaction on screen\<close>

datatype shown_status = Submitting | ShownPending | ShownConfirmed | ShownFailed

fun mapPollStatus :: "poll_status \<Rightarrow> shown_status" where
  "mapPollStatus (PollConfirmed _ _) = ShownConfirmed"
| "mapPollStatus (PollFailed _) = ShownFailed"
| "mapPollStatus PollPending = ShownPending"

record shown_transaction =
  st_hash :: "string option"
  st_status :: shown_status
  st_error :: "string option"

text \<open>The end of a poll updates the transaction it was started for, if it is still the one shown.\<close>

definition poll_ended :: "string \<Rightarrow> poll_status \<Rightarrow> shown_transaction option \<Rightarrow> shown_transaction option" where
  "poll_ended hash result shown = (case shown of
       None \<Rightarrow> None
     | Some t \<Rightarrow> if st_hash t \<noteq> Some hash then shown
         else Some (t\<lparr>st_status := mapPollStatus result,
           st_error := (case result of PollFailed e \<Rightarrow> Some (coalesce e ''Transaction failed'') | _ \<Rightarrow> None)\<rparr>))"

definition submitted_transaction :: "string \<Rightarrow> shown_transaction" where
  "submitted_transaction hash = \<lparr>st_hash = Some hash, st_status = ShownPending, st_error = None\<rparr>"

section \<open>A reference\<close>

text \<open>What every loop is after: the first attempt that gets a verdict.\<close>

fun check_at :: "poll_source \<Rightarrow> int \<Rightarrow> poll_status option" where
  "check_at (AtHorizon answer) k = checkHorizonStatus (answer k)"
| "check_at (AtRelayer has_token answer) k = check_relay_job has_token (answer k)"

definition first_verdict :: "(int \<Rightarrow> poll_status option) \<Rightarrow> int \<Rightarrow> int \<Rightarrow> int option" where
  "first_verdict check n maxAttempts = (case filter (\<lambda>k. poll_verdict (check k)) [n..maxAttempts - 1] of
       [] \<Rightarrow> None | k # _ \<Rightarrow> Some k)"

lemma first_verdict_step:
  "first_verdict check n m = (if n < m then (if poll_verdict (check n) then Some n else first_verdict check (n + 1) m) else None)"
  unfolding first_verdict_def by (subst upto.simps) simp

lemma poll_from_reference:
  "poll_from check timeout m n = (case first_verdict check n m of
      Some k \<Rightarrow> (the (check k), k + 1)
    | None \<Rightarrow> (if m \<le> 1 then PollPending else PollFailed (Some timeout), m))"
proof (induction check timeout m n rule: poll_from.induct)
  case (1 check timeout m n)
  then show ?case by (subst poll_from.simps, subst first_verdict_step) simp
qed

lemma one_attempt: "fst (pollTransactionConfirmation (source_from k src) 1)
    = (if poll_verdict (check_at src k) then the (check_at src k) else PollPending)"
  by (cases src) (simp_all add: pollHorizonTransaction_def pollRelayerJob_def poll_from_reference first_verdict_step [of _ 0 1]
      first_verdict_step [of _ 1 1])

lemma verdict_of_attempt: "poll_verdict (Some (if poll_verdict c then the c else PollPending)) = poll_verdict c"
  by (cases c) auto

lemma hook_poll_reference:
  "start_polling_from src (\<lambda>_. False) m n = (case first_verdict (check_at src) n m of
      Some k \<Rightarrow> the (check_at src k) | None \<Rightarrow> PollFailed (Some ''Polling timed out''))"
proof (induction src "\<lambda>_ :: int. False" m n rule: start_polling_from.induct)
  case (1 src m n)
  then show ?case
    by (subst start_polling_from.simps, subst first_verdict_step) (simp add: one_attempt verdict_of_attempt Let_def)
qed

lemma controller_reference:
  "fst (run_poll_loop src (\<lambda>_. False) reported m n) = (case first_verdict (check_at src) n m of
      Some k \<Rightarrow> (the (check_at src k), 1) | None \<Rightarrow> (PollFailed (Some ''Polling stopped or timed out''), 0))"
proof (induction src "\<lambda>_ :: int. False" reported m n rule: run_poll_loop.induct)
  case (1 src reported m n)
  have a: "snd (pollTransactionConfirmation (source_from n src) 1) = 1"
    by (cases src) (simp_all add: pollHorizonTransaction_def pollRelayerJob_def poll_from_reference first_verdict_step [of _ 0 1]
        first_verdict_step [of _ 1 1])
  show ?case
  proof (cases "n < m")
    case False
    then show ?thesis by (subst run_poll_loop.simps, subst first_verdict_step) simp
  next
    case True
    let ?result = "pollTransactionConfirmation (source_from n src) 1"
    have p: "?result = (if poll_verdict (check_at src n) then the (check_at src n) else PollPending, 1)"
      using one_attempt [of n src] a by (metis prod.collapse)
    have v: "poll_verdict (Some (fst ?result)) = poll_verdict (check_at src n)"
      unfolding p fst_conv by (rule verdict_of_attempt)
    show ?thesis
    proof (cases "poll_verdict (check_at src n)")
      case yes: True
      then show ?thesis using True v p by (subst run_poll_loop.simps, subst first_verdict_step) (simp add: Let_def)
    next
      case no: False
      from 1 [of ?result "if reported n then [] else [fst ?result]"] True no v show ?thesis
        by (subst run_poll_loop.simps, subst first_verdict_step) (simp add: Let_def case_prod_beta)
    qed
  qed
qed

fun timeout_message :: "poll_source \<Rightarrow> string" where
  "timeout_message (AtHorizon _) = ''Transaction polling timed out''"
| "timeout_message (AtRelayer _ _) = ''Relayer job polling timed out''"

lemma confirmation_reference:
  "pollTransactionConfirmation src m = (case first_verdict (check_at src) 0 m of
      Some k \<Rightarrow> (the (check_at src k), k + 1)
    | None \<Rightarrow> (if m \<le> 1 then PollPending else PollFailed (Some (timeout_message src)), m))"
proof (cases src)
  case (AtHorizon a)
  have "check_at src = (\<lambda>n. checkHorizonStatus (a n))" by (rule ext) (simp add: AtHorizon)
  then show ?thesis by (simp add: AtHorizon pollHorizonTransaction_def poll_from_reference split: option.split)
next
  case (AtRelayer t a)
  have "check_at src = (\<lambda>n. check_relay_job t (a n))" by (rule ext) (simp add: AtRelayer)
  then show ?thesis by (simp add: AtRelayer pollRelayerJob_def poll_from_reference split: option.split)
qed

lemma no_token_no_verdict: "first_verdict (check_at (AtRelayer False relayer)) n m = None"
  by (simp add: first_verdict_def check_relay_job_def)

lemma hook_poll_without_token: "start_polling_from (AtRelayer False relayer) stopped m n = PollFailed (Some ''Polling timed out'')"
proof (induction "AtRelayer False relayer" stopped m n rule: start_polling_from.induct)
  case (1 stopped m n)
  have "fst (pollTransactionConfirmation (source_from n (AtRelayer False relayer)) 1) = PollPending"
    by (simp only: one_attempt) (simp add: check_relay_job_def)
  with 1 show ?case by (subst start_polling_from.simps) (simp add: Let_def)
qed

section \<open>Properties\<close>

text \<open>
  C3. A payment that the dashboard sends through the relayer is shown as failed in the end, whatever
  becomes of it and whatever the relayer answers: the hook polls the job without a token to
  authenticate with, so no request is ever made and every attempt counts as pending.
\<close>

theorem relayed_payment_shown_failed:
  "poll_ended hash (start_polling_from (hook_source True horizon relayer) stopped maxAttempts 0) (Some (submitted_transaction hash))
     = Some \<lparr>st_hash = Some hash, st_status = ShownFailed, st_error = Some ''Polling timed out''\<rparr>"
  by (simp add: hook_source_def hook_poll_without_token poll_ended_def submitted_transaction_def)

text \<open>
  The three polling loops of the dashboard find the same verdict: that of the first attempt that gets
  one, within the attempts allowed. They differ in what they make of none.
\<close>

theorem polling_loops_agree:
  "(case first_verdict (check_at src) 0 maxAttempts of
      Some k \<Rightarrow> pollTransactionConfirmation src maxAttempts = (the (check_at src k), k + 1)
        \<and> start_polling_from src (\<lambda>_. False) maxAttempts 0 = the (check_at src k)
        \<and> fst (run_poll_loop src (\<lambda>_. False) reported maxAttempts 0) = (the (check_at src k), 1)
    | None \<Rightarrow> fst (pollTransactionConfirmation src maxAttempts) \<in> {PollPending,
          PollFailed (Some ''Transaction polling timed out''), PollFailed (Some ''Relayer job polling timed out'')}
        \<and> start_polling_from src (\<lambda>_. False) maxAttempts 0 = PollFailed (Some ''Polling timed out'')
        \<and> fst (run_poll_loop src (\<lambda>_. False) reported maxAttempts 0) = (PollFailed (Some ''Polling stopped or timed out''), 0))"
proof -
  show ?thesis
    by (cases src) (auto simp: confirmation_reference hook_poll_reference controller_reference split: option.splits)
qed

text \<open>
  An outage is taken for a failed payment: when no request of a poll gets through, the dashboard
  reports that the transaction failed, of which it knows nothing.
\<close>

theorem outage_reported_failed:
  "pollTransactionConfirmation (AtHorizon (\<lambda>_. WebThrew)) 60 = (PollFailed (Some ''Transaction polling timed out''), 60)
   \<and> mapPollStatus (start_polling_from (AtHorizon (\<lambda>_. WebThrew)) (\<lambda>_. False) 60 0) = ShownFailed"
proof -
  have "first_verdict (check_at (AtHorizon (\<lambda>_. WebThrew))) 0 60 = None" by (simp add: first_verdict_def)
  then show ?thesis
    unfolding hook_poll_reference confirmation_reference by simp
qed

end
