(* ===== verification/BiometricLock.thy ===== *)
theory BiometricLock
  imports Prelude
begin

text \<open>
  The biometric lock of the mobile wallet, \<open>apps/mobile-wallet/src/security\<close>: the lockout manager
  (\<open>biometric-lockout-manager.ts\<close>), the unlock hook (\<open>hooks/useBiometricUnlock.ts\<close>) and the fallback
  helper (\<open>authenticateWithBiometrics.ts\<close>). The stored text is absent, a state, or something that is not
  one; counts and instants are whole numbers, as the manager writes them. Every operation takes the
  clock's reading. What runs asynchronously ends in an event; the screen stays mounted.
\<close>

section \<open>The lockout manager\<close>

definition BIOMETRIC_MAX_ATTEMPTS :: int where "BIOMETRIC_MAX_ATTEMPTS = 3"

definition LOCKOUT_DURATION_MS :: time where "LOCKOUT_DURATION_MS = 30000"

datatype failure_reason = USER_CANCEL | AUTHENTICATION_FAILED | BIOMETRIC_NOT_ENROLLED | BIOMETRIC_NOT_AVAILABLE
  | LOCKOUT | LOCKOUT_PERMANENT | UNKNOWN_FAILURE

record lockout_state =
  lo_failedAttempts :: int
  lo_lockedUntil :: "time option"
  lo_lastFailureReason :: "failure_reason option"
  lo_permanentlyLocked :: bool

definition DEFAULT_LOCKOUT_STATE :: lockout_state where
  "DEFAULT_LOCKOUT_STATE = \<lparr>lo_failedAttempts = 0, lo_lockedUntil = None, lo_lastFailureReason = None, lo_permanentlyLocked = False\<rparr>"

datatype stored_lockout = NothingStored | StoredState lockout_state | CorruptState

record lockout_manager =
  lm_state :: lockout_state
  lm_storage :: stored_lockout

definition new_manager :: "stored_lockout \<Rightarrow> lockout_manager" where
  "new_manager storage = \<lparr>lm_state = DEFAULT_LOCKOUT_STATE, lm_storage = storage\<rparr>"

definition lm_persist :: "lockout_state \<Rightarrow> lockout_manager \<Rightarrow> lockout_manager" where
  "lm_persist st m = m\<lparr>lm_state := st, lm_storage := StoredState st\<rparr>"

definition lm_reset :: "lockout_manager \<Rightarrow> lockout_manager" where
  "lm_reset m = m\<lparr>lm_state := DEFAULT_LOCKOUT_STATE, lm_storage := NothingStored\<rparr>"

definition isTimedLockoutExpired :: "time \<Rightarrow> lockout_state \<Rightarrow> bool" where
  "isTimedLockoutExpired now st = (case lo_lockedUntil st of None \<Rightarrow> False
     | Some u \<Rightarrow> \<not> lo_permanentlyLocked st \<and> now \<ge> u)"

definition clearTimedLockout :: "lockout_manager \<Rightarrow> lockout_manager" where
  "clearTimedLockout m = lm_persist ((lm_state m)\<lparr>lo_failedAttempts := 0, lo_lockedUntil := None, lo_lastFailureReason := None\<rparr>) m"

definition lm_initialize :: "time \<Rightarrow> lockout_manager \<Rightarrow> lockout_manager" where
  "lm_initialize now m = (case lm_storage m of
       NothingStored \<Rightarrow> m
     | CorruptState \<Rightarrow> lm_reset m
     | StoredState st \<Rightarrow> let m' = m\<lparr>lm_state := st\<rparr> in if isTimedLockoutExpired now st then clearTimedLockout m' else m')"

definition lm_isLocked :: "time \<Rightarrow> lockout_manager \<Rightarrow> bool" where
  "lm_isLocked now m = (lo_permanentlyLocked (lm_state m)
     \<or> (case lo_lockedUntil (lm_state m) of None \<Rightarrow> False | Some u \<Rightarrow> now < u))"

definition remainingLockoutMs :: "time \<Rightarrow> lockout_manager \<Rightarrow> time" where
  "remainingLockoutMs now m = (case lo_lockedUntil (lm_state m) of None \<Rightarrow> 0 | Some u \<Rightarrow> if u = 0 then 0 else max 0 (u - now))"

definition setTimedLockout :: "time \<Rightarrow> failure_reason \<Rightarrow> lockout_manager \<Rightarrow> lockout_manager" where
  "setTimedLockout now reason m =
     lm_persist ((lm_state m)\<lparr>lo_lockedUntil := Some (now + LOCKOUT_DURATION_MS), lo_lastFailureReason := Some reason\<rparr>) m"

definition setPermanentLockout :: "failure_reason \<Rightarrow> lockout_manager \<Rightarrow> lockout_manager" where
  "setPermanentLockout reason m =
     lm_persist ((lm_state m)\<lparr>lo_permanentlyLocked := True, lo_lockedUntil := None, lo_lastFailureReason := Some reason\<rparr>) m"

definition recordFailure :: "time \<Rightarrow> failure_reason \<Rightarrow> lockout_manager \<Rightarrow> lockout_manager" where
  "recordFailure now reason m =
     (if reason = LOCKOUT_PERMANENT then setPermanentLockout reason m
      else if reason = LOCKOUT then setTimedLockout now reason m
      else if reason = USER_CANCEL then m
      else let st = (lm_state m)\<lparr>lo_failedAttempts := lo_failedAttempts (lm_state m) + 1, lo_lastFailureReason := Some reason\<rparr> in
        if lo_failedAttempts st \<ge> BIOMETRIC_MAX_ATTEMPTS then setTimedLockout now reason (m\<lparr>lm_state := st\<rparr>)
        else lm_persist st m)"

definition recordSuccess :: "lockout_manager \<Rightarrow> lockout_manager" where
  "recordSuccess m = lm_reset m"

section \<open>The fallback helper\<close>

record biometric_result =
  bi_success :: bool
  bi_errorCode :: "failure_reason option"

record authentication_result =
  au_success :: bool
  au_errorCode :: "failure_reason option"
  au_fallbackToPin :: bool

definition authenticateWithBiometrics :: "bool \<Rightarrow> bool \<Rightarrow> biometric_result \<Rightarrow> authentication_result" where
  "authenticateWithBiometrics available fallbackToPin r =
     (if \<not> available then \<lparr>au_success = False, au_errorCode = Some BIOMETRIC_NOT_AVAILABLE, au_fallbackToPin = fallbackToPin\<rparr>
      else if bi_success r then \<lparr>au_success = True, au_errorCode = None, au_fallbackToPin = False\<rparr>
      else \<lparr>au_success = False, au_errorCode = bi_errorCode r,
            au_fallbackToPin = (fallbackToPin \<and> bi_errorCode r \<in> {Some USER_CANCEL, Some AUTHENTICATION_FAILED, Some BIOMETRIC_NOT_AVAILABLE})\<rparr>)"

section \<open>The unlock hook\<close>

datatype unlock_phase = PhaseIdle | PhasePrompting | PhaseLocked | PhaseFallback | PhaseSuccess

record unlock_hook =
  uh_manager :: lockout_manager
  uh_phase :: unlock_phase
  uh_lockout :: lockout_state
  uh_attemptsRemaining :: int
  uh_secondsRemaining :: int
  uh_available :: bool
  uh_loading :: bool
  uh_feedback :: "string option"
  uh_passwordError :: "string option"
  uh_countdown :: bool
  uh_prompts :: nat
  uh_unlocked :: nat

definition buildFeedbackMessage :: "failure_reason \<Rightarrow> lockout_state \<Rightarrow> int \<Rightarrow> string" where
  "buildFeedbackMessage reason lockout secs =
     (if lo_permanentlyLocked lockout
      then ''Biometric authentication has been permanently disabled by your device. Use your password to unlock.''
      else if lo_lockedUntil lockout \<noteq> None \<and> secs > 0
      then ''Too many failed attempts. Try again in '' @ show_int secs @ '' second'' @ (if secs = 1 then [] else ''s'') @ '', or use your password.''
      else let remaining = max 0 (BIOMETRIC_MAX_ATTEMPTS - lo_failedAttempts lockout) in
        (case reason of
           AUTHENTICATION_FAILED \<Rightarrow>
             if remaining = 1 then ''Fingerprint not recognised. 1 attempt remaining before temporary lockout.''
             else ''Fingerprint not recognised. '' @ show_int remaining @ '' attempts remaining.''
         | BIOMETRIC_NOT_ENROLLED \<Rightarrow> ''No biometrics enrolled on this device. Please use your password.''
         | BIOMETRIC_NOT_AVAILABLE \<Rightarrow> ''Biometric hardware is unavailable. Please use your password.''
         | USER_CANCEL \<Rightarrow> ''Authentication cancelled.''
         | _ \<Rightarrow> ''Biometric authentication failed. Please try again or use your password.''))"

definition attempts_left :: "lockout_state \<Rightarrow> int" where
  "attempts_left st = max 0 (BIOMETRIC_MAX_ATTEMPTS - lo_failedAttempts st)"

definition ceil_seconds :: "time \<Rightarrow> int" where
  "ceil_seconds ms = (ms + 999) div 1000"

definition hook_init :: "time \<Rightarrow> bool \<Rightarrow> unlock_hook \<Rightarrow> unlock_hook" where
  "hook_init now available h =
     (let m = lm_initialize now (uh_manager h); locked = lm_isLocked now m in
      h\<lparr>uh_manager := m, uh_available := available, uh_lockout := lm_state m, uh_attemptsRemaining := attempts_left (lm_state m),
        uh_phase := (if locked then PhaseLocked else PhaseIdle), uh_loading := False, uh_countdown := locked\<rparr>)"

definition countdown_tick :: "time \<Rightarrow> unlock_hook \<Rightarrow> unlock_hook" where
  "countdown_tick now h =
     (let remaining = remainingLockoutMs now (uh_manager h); st = lm_state (uh_manager h) in
      if \<not> uh_countdown h then h
      else if remaining \<le> 0
      then (if uh_phase h \<noteq> PhaseLocked then h\<lparr>uh_countdown := False\<rparr>
            else h\<lparr>uh_countdown := False, uh_phase := PhaseIdle, uh_secondsRemaining := 0, uh_lockout := st,
                   uh_attemptsRemaining := attempts_left st, uh_feedback := Some ''You can try again now.''\<rparr>)
      else h\<lparr>uh_secondsRemaining := ceil_seconds remaining\<rparr>)"

definition start_attempt :: "time \<Rightarrow> unlock_hook \<Rightarrow> unlock_hook" where
  "start_attempt now h =
     (if lm_isLocked now (uh_manager h) then h
      else h\<lparr>uh_phase := PhasePrompting, uh_loading := True, uh_feedback := None, uh_prompts := Suc (uh_prompts h)\<rparr>)"

text \<open>The prompt throws (absent) or answers; one prompt is over.\<close>

definition settle_attempt :: "time \<Rightarrow> biometric_result option \<Rightarrow> unlock_hook \<Rightarrow> unlock_hook option" where
  "settle_attempt now answer h0 =
     (if uh_prompts h0 = 0 then None
      else let h = h0\<lparr>uh_prompts := uh_prompts h0 - 1\<rparr> in Some (case answer of
         None \<Rightarrow> h\<lparr>uh_phase := PhaseIdle, uh_loading := False,
                   uh_feedback := Some ''Biometric authentication failed. Please try again or use your password.''\<rparr>
       | Some r \<Rightarrow>
           if bi_success r
           then h\<lparr>uh_manager := recordSuccess (uh_manager h), uh_phase := PhaseSuccess, uh_loading := False,
                  uh_feedback := Some ''Identity verified.'', uh_unlocked := Suc (uh_unlocked h)\<rparr>
           else let reason = coalesce (bi_errorCode r) UNKNOWN_FAILURE; m = recordFailure now reason (uh_manager h); st = lm_state m in
             if lo_permanentlyLocked st
             then h\<lparr>uh_manager := m, uh_phase := PhaseLocked, uh_lockout := st, uh_loading := False,
                    uh_feedback := Some (buildFeedbackMessage reason st 0)\<rparr>
             else if lm_isLocked now m
             then let secs = ceil_seconds (remainingLockoutMs now m) in
               h\<lparr>uh_manager := m, uh_countdown := True, uh_phase := PhaseLocked, uh_lockout := st, uh_attemptsRemaining := 0,
                 uh_secondsRemaining := secs, uh_loading := False, uh_feedback := Some (buildFeedbackMessage reason st secs)\<rparr>
             else h\<lparr>uh_manager := m, uh_phase := PhaseIdle, uh_lockout := st, uh_attemptsRemaining := attempts_left st,
                    uh_loading := False, uh_feedback := Some (buildFeedbackMessage reason st 0)\<rparr>))"

definition switchToPasswordFallback :: "unlock_hook \<Rightarrow> unlock_hook" where
  "switchToPasswordFallback h = h\<lparr>uh_phase := PhaseFallback, uh_feedback := None, uh_passwordError := None\<rparr>"

text \<open>The password check throws (absent) or answers.\<close>

definition submitPassword :: "bool option \<Rightarrow> unlock_hook \<Rightarrow> unlock_hook" where
  "submitPassword answer h = (case answer of
       None \<Rightarrow> h\<lparr>uh_loading := False, uh_passwordError := Some ''Unable to verify password right now. Please try again.''\<rparr>
     | Some True \<Rightarrow> h\<lparr>uh_manager := recordSuccess (uh_manager h), uh_countdown := False, uh_phase := PhaseSuccess, uh_loading := False,
         uh_passwordError := None, uh_feedback := Some ''Access granted.'', uh_unlocked := Suc (uh_unlocked h)\<rparr>
     | Some False \<Rightarrow> h\<lparr>uh_loading := False, uh_passwordError := Some ''Incorrect password. Please try again.''\<rparr>)"

definition backToBiometric :: "time \<Rightarrow> unlock_hook \<Rightarrow> unlock_hook" where
  "backToBiometric now h = h\<lparr>uh_phase := (if lm_isLocked now (uh_manager h) then PhaseLocked else PhaseIdle), uh_passwordError := None\<rparr>"

datatype unlock_event = Mounted bool | Countdown | AttemptStarted | AttemptSettled "biometric_result option"
  | Fallback | PasswordAnswered "bool option" | BackToBiometric

fun unlock_step :: "time \<Rightarrow> unlock_event \<Rightarrow> unlock_hook \<Rightarrow> unlock_hook option" where
  "unlock_step now (Mounted available) h = Some (hook_init now available h)"
| "unlock_step now Countdown h = Some (countdown_tick now h)"
| "unlock_step now AttemptStarted h = Some (start_attempt now h)"
| "unlock_step now (AttemptSettled answer) h = settle_attempt now answer h"
| "unlock_step now Fallback h = Some (switchToPasswordFallback h)"
| "unlock_step now (PasswordAnswered answer) h = Some (submitPassword answer h)"
| "unlock_step now BackToBiometric h = Some (backToBiometric now h)"

fun unlock_run :: "(time \<times> unlock_event) list \<Rightarrow> unlock_hook \<Rightarrow> unlock_hook option" where
  "unlock_run [] h = Some h"
| "unlock_run ((now, e) # es) h = (case unlock_step now e h of None \<Rightarrow> None | Some h' \<Rightarrow> unlock_run es h')"

definition new_hook :: "stored_lockout \<Rightarrow> unlock_hook" where
  "new_hook storage = \<lparr>uh_manager = new_manager storage, uh_phase = PhaseIdle, uh_lockout = DEFAULT_LOCKOUT_STATE,
     uh_attemptsRemaining = BIOMETRIC_MAX_ATTEMPTS, uh_secondsRemaining = 0, uh_available = False, uh_loading = True,
     uh_feedback = None, uh_passwordError = None, uh_countdown = False, uh_prompts = 0, uh_unlocked = 0\<rparr>"

section \<open>Guessing\<close>

text \<open>Failures one after another, none while the lock holds.\<close>

definition genuine :: "failure_reason \<Rightarrow> bool" where
  "genuine r = (r \<notin> {USER_CANCEL, LOCKOUT, LOCKOUT_PERMANENT})"

fun guess_run :: "(time \<times> failure_reason) list \<Rightarrow> lockout_manager \<Rightarrow> lockout_manager option" where
  "guess_run [] m = Some m"
| "guess_run ((now, r) # fs) m = (if lm_isLocked now m \<or> \<not> genuine r then None else guess_run fs (recordFailure now r m))"

lemma recordFailure_genuine:
  assumes "genuine r"
  shows "lo_failedAttempts (lm_state (recordFailure now r m)) = lo_failedAttempts (lm_state m) + 1"
    and "lo_failedAttempts (lm_state m) \<ge> 2 \<Longrightarrow> lo_lockedUntil (lm_state (recordFailure now r m)) = Some (now + 30000)"
  using assms by (auto simp: genuine_def recordFailure_def setTimedLockout_def lm_persist_def Let_def
      BIOMETRIC_MAX_ATTEMPTS_def LOCKOUT_DURATION_MS_def)

lemma guess_time:
  assumes "guess_run fs m = Some m'" "sorted (map fst fs)" "fs \<noteq> []" "0 \<le> lo_failedAttempts (lm_state m)"
  shows "fst (hd fs) + 30000 * (int (length fs) - 1 - max 0 (2 - lo_failedAttempts (lm_state m))) \<le> fst (last fs)"
  using assms
proof (induction fs m rule: guess_run.induct)
  case (2 now r fs m)
  let ?a = "lo_failedAttempts (lm_state m)" and ?m = "recordFailure now r m"
  have g: "genuine r" "guess_run fs ?m = Some m'" using "2.prems"(1) by (auto split: if_splits)
  note rec = recordFailure_genuine [OF g(1), where now = now and m = m]
  show ?case
  proof (cases fs)
    case Nil
    then show ?thesis by simp
  next
    case (Cons f fs')
    obtain t r' where f: "f = (t, r')" by (cases f)
    have ih: "t + 30000 * (int (length fs) - 1 - max 0 (2 - (?a + 1))) \<le> fst (last fs)"
      using "2.IH" g "2.prems" Cons f rec(1) by (auto split: if_splits)
    have le: "now \<le> t" using "2.prems"(2) Cons f by simp
    have wait: "now + 30000 \<le> t" if "?a \<ge> 2"
      using g(2) Cons f rec(2) [OF that] by (auto simp: lm_isLocked_def split: if_splits)
    show ?thesis
    proof (cases "?a \<ge> 2")
      case True
      with ih wait show ?thesis by (simp add: Cons f)
    next
      case False
      with ih le "2.prems"(4) show ?thesis by (simp add: Cons f)
    qed
  qed
qed simp

section \<open>The permanent lock\<close>

definition perm :: "unlock_hook \<Rightarrow> bool" where
  "perm h = (lo_permanentlyLocked (lm_state (uh_manager h))
     \<and> (case lm_storage (uh_manager h) of StoredState st \<Rightarrow> lo_permanentlyLocked st | _ \<Rightarrow> False))"

fun unlocking :: "unlock_event \<Rightarrow> bool" where
  "unlocking (AttemptSettled (Some r)) = bi_success r"
| "unlocking (PasswordAnswered (Some ok)) = ok"
| "unlocking _ = False"

lemma recordFailure_perm:
  "lo_permanentlyLocked (lm_state m) \<Longrightarrow> (case lm_storage m of StoredState st \<Rightarrow> lo_permanentlyLocked st | _ \<Rightarrow> False)
    \<Longrightarrow> lo_permanentlyLocked (lm_state (recordFailure now r m))
      \<and> (case lm_storage (recordFailure now r m) of StoredState st \<Rightarrow> lo_permanentlyLocked st | _ \<Rightarrow> False)"
  by (auto simp: recordFailure_def setTimedLockout_def setPermanentLockout_def lm_persist_def Let_def split: stored_lockout.splits)

lemma initialize_perm:
  "lo_permanentlyLocked (lm_state m) \<Longrightarrow> (case lm_storage m of StoredState st \<Rightarrow> lo_permanentlyLocked st | _ \<Rightarrow> False)
    \<Longrightarrow> lo_permanentlyLocked (lm_state (lm_initialize now m))
      \<and> (case lm_storage (lm_initialize now m) of StoredState st \<Rightarrow> lo_permanentlyLocked st | _ \<Rightarrow> False)"
  by (auto simp: lm_initialize_def isTimedLockoutExpired_def Let_def split: stored_lockout.splits option.splits)

lemma perm_step:
  assumes "perm h" "\<not> unlocking e" "unlock_step now e h = Some h'"
  shows "perm h' \<and> uh_prompts h' \<le> uh_prompts h"
proof (cases e)
  case (Mounted available)
  then show ?thesis using assms initialize_perm [where m = "uh_manager h" and now = now] by (auto simp: perm_def hook_init_def Let_def)
next
  case (AttemptSettled answer)
  show ?thesis
  proof (cases answer)
    case None
    then show ?thesis using assms AttemptSettled by (auto simp: settle_attempt_def perm_def split: if_splits)
  next
    case (Some r)
    then have "\<not> bi_success r" using assms(2) AttemptSettled by simp
    then show ?thesis
      using assms AttemptSettled Some recordFailure_perm [where m = "uh_manager h" and now = now]
      by (auto simp: settle_attempt_def perm_def Let_def split: if_splits)
  qed
next
  case (PasswordAnswered answer)
  then show ?thesis using assms by (cases answer) (auto simp: submitPassword_def perm_def split: bool.splits)
qed (use assms in \<open>auto simp: perm_def countdown_tick_def start_attempt_def lm_isLocked_def switchToPasswordFallback_def
      backToBiometric_def Let_def split: if_splits\<close>)

lemma perm_run:
  "perm h \<Longrightarrow> \<not> (\<exists>e \<in> set evs. unlocking (snd e)) \<Longrightarrow> unlock_run evs h = Some h' \<Longrightarrow> perm h' \<and> uh_prompts h' \<le> uh_prompts h"
proof (induction evs h rule: unlock_run.induct)
  case (2 now e es h)
  then obtain h2 where h2: "unlock_step now e h = Some h2" "unlock_run es h2 = Some h'" by (auto split: option.splits)
  have "perm h2 \<and> uh_prompts h2 \<le> uh_prompts h" using perm_step [OF "2.prems"(1) _ h2(1)] "2.prems"(2) by simp
  with "2.IH" [OF h2(1)] h2(2) "2.prems"(2) show ?case by fastforce
qed simp

section \<open>Properties\<close>

text \<open>
  Guessing is slow: any n failed attempts of one session, each made while the lock does not hold,
  take at least thirty seconds for each one after the third.
\<close>

theorem guesses_take_time:
  assumes "guess_run fs (new_manager storage) = Some m" "sorted (map fst fs)" "fs \<noteq> []"
  shows "fst (hd fs) + 30000 * (int (length fs) - 3) \<le> fst (last fs)"
  using guess_time [OF assms] by (simp add: new_manager_def DEFAULT_LOCKOUT_STATE_def)

lemma guesses_take_time_witness:
  "(0 :: time) + 30000 * (int (length [(0, UNKNOWN_FAILURE), (1, UNKNOWN_FAILURE), (2, UNKNOWN_FAILURE), (30002, UNKNOWN_FAILURE)]) - 3)
     \<le> fst (last [(0 :: time, UNKNOWN_FAILURE), (1, UNKNOWN_FAILURE), (2, UNKNOWN_FAILURE), (30002, UNKNOWN_FAILURE)])"
proof -
  let ?fs = "[(0, UNKNOWN_FAILURE), (1, UNKNOWN_FAILURE), (2, UNKNOWN_FAILURE), (30002, UNKNOWN_FAILURE)]"
  have "guess_run ?fs (new_manager NothingStored) \<noteq> None" by code_simp
  then obtain m where "guess_run ?fs (new_manager NothingStored) = Some m" by blast
  from guesses_take_time [OF this] show ?thesis by simp
qed

text \<open>
  C2. A permanent lock outlives everything but a success: through failures, remounts and expired
  countdowns it stays in memory and in storage, so that a restarted app is locked at once, and no further prompt
  is opened.
\<close>

theorem permanent_lock_holds:
  assumes "perm h" "\<not> (\<exists>e \<in> set evs. unlocking (snd e))" "unlock_run evs h = Some h'"
  shows "lo_permanentlyLocked (lm_state (uh_manager h')) \<and> lm_isLocked now (uh_manager h') \<and> uh_prompts h' \<le> uh_prompts h
    \<and> (\<exists>st. lm_storage (uh_manager h') = StoredState st \<and> lo_permanentlyLocked st)
    \<and> lm_isLocked now (lm_initialize t (new_manager (lm_storage (uh_manager h'))))"
proof -
  have p: "perm h'" "uh_prompts h' \<le> uh_prompts h" using perm_run [OF assms] by simp_all
  then obtain st where st: "lm_storage (uh_manager h') = StoredState st" "lo_permanentlyLocked st"
    by (auto simp: perm_def split: stored_lockout.splits)
  have "lo_permanentlyLocked (lm_state (lm_initialize t (new_manager (StoredState st))))"
    using st(2) by (simp add: lm_initialize_def new_manager_def isTimedLockoutExpired_def split: option.split)
  with p st show ?thesis by (simp add: perm_def lm_isLocked_def)
qed

definition locked_out :: lockout_state where
  "locked_out = DEFAULT_LOCKOUT_STATE\<lparr>lo_permanentlyLocked := True, lo_lastFailureReason := Some LOCKOUT_PERMANENT\<rparr>"

lemma permanent_lock_holds_witness:
  "case unlock_run [(5, Mounted True), (6, AttemptStarted), (7, PasswordAnswered (Some False))]
     ((new_hook (StoredState locked_out))\<lparr>uh_manager := \<lparr>lm_state = locked_out, lm_storage = StoredState locked_out\<rparr>\<rparr>) of
     None \<Rightarrow> False | Some h' \<Rightarrow> lm_isLocked 1000000 (uh_manager h') \<and> uh_prompts h' \<le> 0
       \<and> lm_isLocked 1000000 (lm_initialize 0 (new_manager (lm_storage (uh_manager h'))))"
proof -
  let ?h = "(new_hook (StoredState locked_out))\<lparr>uh_manager := \<lparr>lm_state = locked_out, lm_storage = StoredState locked_out\<rparr>\<rparr>"
  let ?evs = "[(5, Mounted True), (6, AttemptStarted), (7, PasswordAnswered (Some False))]"
  have "perm ?h" by (simp add: perm_def locked_out_def)
  moreover have "\<not> (\<exists>e \<in> set ?evs. unlocking (snd e))" by simp
  moreover obtain h' where h': "unlock_run ?evs ?h = Some h'" by simp
  ultimately have "lm_isLocked 1000000 (uh_manager h') \<and> uh_prompts h' \<le> uh_prompts ?h
    \<and> lm_isLocked 1000000 (lm_initialize 0 (new_manager (lm_storage (uh_manager h'))))" using permanent_lock_holds by blast
  moreover have "uh_prompts ?h = 0" by (simp add: new_hook_def)
  ultimately show ?thesis unfolding h' by simp
qed

text \<open>
  An expired lock leaves the count behind: within the session the next single failure locks again,
  while a restart at the same moment grants three attempts.
\<close>

theorem expired_lock_relocks_at_once:
  assumes "lo_failedAttempts (lm_state m) = 3" "lo_lockedUntil (lm_state m) = Some u" "\<not> lo_permanentlyLocked (lm_state m)"
    and "lm_storage m = StoredState (lm_state m)" "u \<le> now" "genuine r"
  shows "\<not> lm_isLocked now m \<and> lm_isLocked (now + 29999) (recordFailure now r m)
    \<and> \<not> lm_isLocked (now + 29999) (recordFailure now r (lm_initialize now (new_manager (lm_storage m))))"
  using assms by (auto simp: lm_isLocked_def recordFailure_def genuine_def setTimedLockout_def lm_persist_def Let_def BIOMETRIC_MAX_ATTEMPTS_def
      LOCKOUT_DURATION_MS_def lm_initialize_def new_manager_def isTimedLockoutExpired_def clearTimedLockout_def)

lemma expired_lock_relocks_at_once_witness:
  "lm_isLocked (40000 + 29999) (recordFailure 40000 AUTHENTICATION_FAILED
     \<lparr>lm_state = DEFAULT_LOCKOUT_STATE\<lparr>lo_failedAttempts := 3, lo_lockedUntil := Some 30000\<rparr>,
      lm_storage = StoredState (DEFAULT_LOCKOUT_STATE\<lparr>lo_failedAttempts := 3, lo_lockedUntil := Some 30000\<rparr>)\<rparr>)"
proof -
  let ?st = "DEFAULT_LOCKOUT_STATE\<lparr>lo_failedAttempts := 3, lo_lockedUntil := Some 30000\<rparr>"
  show ?thesis
    using expired_lock_relocks_at_once [of "\<lparr>lm_state = ?st, lm_storage = StoredState ?st\<rparr>" 30000 40000 AUTHENTICATION_FAILED]
    by (simp add: DEFAULT_LOCKOUT_STATE_def genuine_def)
qed

text \<open>
  Half a second after mounting with a permanent lock, the screen says that one can try again.
\<close>

theorem permanent_lock_shown_idle:
  "case unlock_run [(now, Mounted True), (now + 500, Countdown)] (new_hook (StoredState locked_out)) of
     None \<Rightarrow> False
   | Some h \<Rightarrow> uh_phase h = PhaseIdle \<and> uh_feedback h = Some ''You can try again now.'' \<and> lm_isLocked (now + 500) (uh_manager h)"
  by (simp add: hook_init_def new_hook_def new_manager_def lm_initialize_def locked_out_def DEFAULT_LOCKOUT_STATE_def
      isTimedLockoutExpired_def lm_isLocked_def countdown_tick_def remainingLockoutMs_def Let_def)

text \<open>
  Prompts that throw are not counted: any number of them leaves the manager as it was.
\<close>

theorem thrown_prompts_uncounted:
  assumes "\<not> lm_isLocked now (uh_manager h)" "uh_prompts h = 0"
  shows "\<exists>h'. unlock_run (concat (replicate n [(now, AttemptStarted), (now, AttemptSettled None)])) h = Some h'
    \<and> uh_manager h' = uh_manager h \<and> uh_prompts h' = 0"
  using assms
proof (induction n arbitrary: h)
  case (Suc n)
  let ?h = "h\<lparr>uh_phase := PhaseIdle, uh_loading := False,
    uh_feedback := Some ''Biometric authentication failed. Please try again or use your password.''\<rparr>"
  have "unlock_run [(now, AttemptStarted), (now, AttemptSettled None)] h = Some ?h"
    using Suc.prems by (simp add: start_attempt_def settle_attempt_def)
  with Suc.IH [of ?h] Suc.prems show ?case by (simp split: option.splits)
qed simp

lemma thrown_prompts_uncounted_witness:
  "\<exists>h'. unlock_run (concat (replicate 50 [(0, AttemptStarted), (0, AttemptSettled None)])) (new_hook NothingStored) = Some h'
    \<and> uh_manager h' = new_manager NothingStored \<and> uh_prompts h' = 0"
  using thrown_prompts_uncounted [of 0 "new_hook NothingStored" 50]
  by (simp add: new_hook_def new_manager_def lm_isLocked_def DEFAULT_LOCKOUT_STATE_def del: unlock_run.simps)

end
