(* ===== verification/ContractErrors.thy ===== *)
theory ContractErrors
  imports JsValue RelayErrors Codec
begin

text \<open>
  Failures of the account contract as the package \<open>packages/account-abstraction\<close> reports them: the
  error classes and the classifier of \<open>errors.ts\<close>, and the three places that run it, the execution
  and simulation of \<open>execute.ts\<close> and the reads of \<open>account-contract.ts\<close>. The encoder of arguments,
  the transaction builder and the server are what they answer; a class is kept with its message,
  the attached cause is left out.
\<close>

section \<open>Error classes\<close>

datatype account_class =
    BaseContractError | AlreadyInitialized | NotInitialized | InvalidNonce | CallerUnauthorized
  | SessionKeyNotFound | SessionKeyHasExpired | InsufficientPermission | NotImplemented
  | ContractInvocation | AccountNetworkError

fun class_code :: "account_class \<Rightarrow> string" where
  "class_code BaseContractError = ''ACCOUNT_CONTRACT_ERROR''"
| "class_code AlreadyInitialized = ''ALREADY_INITIALIZED''"
| "class_code NotInitialized = ''NOT_INITIALIZED''"
| "class_code InvalidNonce = ''INVALID_NONCE''"
| "class_code CallerUnauthorized = ''UNAUTHORIZED''"
| "class_code SessionKeyNotFound = ''SESSION_KEY_NOT_FOUND''"
| "class_code SessionKeyHasExpired = ''SESSION_KEY_EXPIRED''"
| "class_code InsufficientPermission = ''INSUFFICIENT_PERMISSION''"
| "class_code NotImplemented = ''NOT_IMPLEMENTED''"
| "class_code ContractInvocation = ''CONTRACT_INVOCATION''"
| "class_code AccountNetworkError = ''NETWORK_ERROR''"

record account_error =
  ae_class :: account_class
  ae_message :: string

definition account_err :: "account_class \<Rightarrow> string \<Rightarrow> account_error" where
  "account_err c m = \<lparr>ae_class = c, ae_message = m\<rparr>"

lemma account_err_simps [simp]: "ae_class (account_err c m) = c" "ae_message (account_err c m) = m"
  by (simp_all add: account_err_def)

text \<open>The messages the constructors fix.\<close>

fun default_message :: "account_class \<Rightarrow> string" where
  "default_message AlreadyInitialized = ''Account contract is already initialized''"
| "default_message NotInitialized = ''Account contract is not initialized''"
| "default_message InvalidNonce = ''Invalid nonce (replay or stale)''"
| "default_message CallerUnauthorized = ''Caller is not authorized''"
| "default_message SessionKeyNotFound = ''Session key not found''"
| "default_message SessionKeyHasExpired = ''Session key has expired''"
| "default_message InsufficientPermission = ''Insufficient permission for this operation''"
| "default_message _ = []"

definition fresh_error :: "account_class \<Rightarrow> account_error" where
  "fresh_error c = account_err c (default_message c)"

definition key_not_found :: "string option \<Rightarrow> account_error" where
  "key_not_found publicKey = (case publicKey of
       Some k \<Rightarrow> if k = [] then fresh_error SessionKeyNotFound
                else account_err SessionKeyNotFound (''Session key not found: '' @ k)
     | None \<Rightarrow> fresh_error SessionKeyNotFound)"

section \<open>The classifier\<close>

definition CONTRACT_ERROR_CODES :: "nat \<Rightarrow> account_class option" where
  "CONTRACT_ERROR_CODES = map_of [(1, AlreadyInitialized), (2, NotInitialized), (3, CallerUnauthorized),
     (4, InvalidNonce), (5, SessionKeyNotFound), (6, SessionKeyHasExpired), (7, InsufficientPermission)]"

text \<open>\<open>/Error\(Contract,\s*#(\d+)\)/\<close>: the number of the leftmost match.\<close>

definition code_digits :: "string \<Rightarrow> string option" where
  "code_digits s = (case dropWhile is_js_space s of
       [] \<Rightarrow> None
     | c # t \<Rightarrow>
         let ds = takeWhile is_digit_char t; rest = dropWhile is_digit_char t in
         if c = CHR ''#'' \<and> ds \<noteq> [] \<and> js_starts_with '')'' rest then Some ds else None)"

definition contract_prefix :: string where
  "contract_prefix = ''Error(Contract,''"

fun contract_code :: "string \<Rightarrow> nat option" where
  "contract_code [] = None"
| "contract_code (c # cs) =
     (case (if js_starts_with contract_prefix (c # cs) then code_digits (drop (length contract_prefix) (c # cs)) else None) of
        Some ds \<Rightarrow> Some (read_digits ds)
      | None \<Rightarrow> contract_code cs)"

text \<open>The class the text of a message stands for.\<close>

definition text_class :: "string \<Rightarrow> account_class" where
  "text_class m = (let low = js_lower m in
     if js_includes ''Already initialized'' m then AlreadyInitialized
     else if js_includes ''Not initialized'' m then NotInitialized
     else if js_includes ''Invalid nonce'' m then InvalidNonce
     else if js_includes ''Session key not found'' m
          \<or> (js_includes ''session key'' low \<and> js_includes ''not found'' low) then SessionKeyNotFound
     else if js_includes ''Session key expired'' m \<or> js_includes ''session key expired'' low
          \<or> js_includes ''sessionkeyexpired'' low then SessionKeyHasExpired
     else if js_includes ''insufficient permission'' low \<or> js_includes ''insufficientpermission'' low
          then InsufficientPermission
     else if js_includes ''auth'' low \<or> js_includes ''unauthorized'' low then CallerUnauthorized
     else ContractInvocation)"

definition text_error :: "string \<Rightarrow> string option \<Rightarrow> account_error" where
  "text_error m sessionPublicKey = (let c = text_class m in
     if c \<in> {AlreadyInitialized, NotInitialized} then fresh_error c
     else if c = SessionKeyNotFound then key_not_found sessionPublicKey
     else account_err c m)"

definition mapContractError :: "string \<Rightarrow> string option \<Rightarrow> account_error" where
  "mapContractError m sessionPublicKey =
     (case contract_code m of
        None \<Rightarrow> text_error m sessionPublicKey
      | Some n \<Rightarrow> (case CONTRACT_ERROR_CODES n of
            Some c \<Rightarrow> fresh_error c
          | None \<Rightarrow> text_error m sessionPublicKey))"

text \<open>The summary handed to other packages; another error keeps its \<open>code\<close> when it has one.\<close>

datatype caught = AccountError account_error | OtherError string string "string option" | NotAnError string

fun account_toCanonicalError :: "caught \<Rightarrow> string \<times> string" where
  "account_toCanonicalError (AccountError e) = (class_code (ae_class e), ae_message e)"
| "account_toCanonicalError (OtherError name message code) = (coalesce code ''ACCOUNT_CONTRACT_ERROR'', message)"
| "account_toCanonicalError (NotAnError shown) = (''ACCOUNT_CONTRACT_ERROR'', shown)"

text \<open>The \<open>catch\<close> of the two execution paths: whatever is an error is classified by its message.\<close>

fun caught_message :: "caught \<Rightarrow> string option" where
  "caught_message (AccountError e) = Some (ae_message e)"
| "caught_message (OtherError _ m _) = Some m"
| "caught_message (NotAnError _) = None"

definition reclassify :: "string \<Rightarrow> caught \<Rightarrow> account_error" where
  "reclassify fallback e = mapContractError (coalesce (caught_message e) fallback) None"

section \<open>Execution\<close>

text \<open>
  What the SDK and the server contribute to one call: the encoding of one argument, the building of
  invocation and transaction (the account lookup included), the server's answer, and the reading of
  a returned value. \<open>shown\<close> is \<open>String(value)\<close> and \<open>json\<close> the text of \<open>JSON.stringify\<close>. An answer is an
  object with the listed properties, present or not, or anything else; a property that was sent as
  \<open>null\<close> is present.
\<close>

record 's server_reply =
  rp_status :: "js option"
  rp_error :: "js option"
  rp_message :: "js option"
  rp_result_xdr :: "js option"
  rp_retval :: "'s option"
  rp_hash :: "js option"
  rp_id :: "js option"

record 's exec_env =
  xe_native :: "js \<Rightarrow> string + 's"
  xe_void :: 's
  xe_build :: "string \<Rightarrow> string \<Rightarrow> 's list \<Rightarrow> number \<Rightarrow> caught option"
  xe_server :: "caught + 's server_reply option"
  xe_value :: "'s \<Rightarrow> string + js"
  xe_shown :: "js \<Rightarrow> string"
  xe_json :: "js \<Rightarrow> string"

definition plain_error :: "string \<Rightarrow> caught" where
  "plain_error m = OtherError ''Error'' m None"

fun encodeContractArgs :: "'s exec_env \<Rightarrow> js list \<Rightarrow> caught + 's list" where
  "encodeContractArgs env [] = Inr []"
| "encodeContractArgs env (a # as) =
     (case (if a \<in> {JsNull, JsUndefined} then Inr (xe_void env) else xe_native env a) of
        Inl e \<Rightarrow> Inl (plain_error (''Failed to encode argument '' @ xe_json env a @ '': '' @ e))
      | Inr v \<Rightarrow> (case encodeContractArgs env as of Inl e \<Rightarrow> Inl e | Inr vs \<Rightarrow> Inr (v # vs)))"

definition parseExecuteResult :: "'s exec_env \<Rightarrow> 's \<Rightarrow> caught + js" where
  "parseExecuteResult env v = (case xe_value env v of
       Inl e \<Rightarrow> Inl (plain_error (''Failed to parse contract result: '' @ e)) | Inr r \<Rightarrow> Inr r)"

text \<open>\<open>a ?? b\<close> over properties: the first one present that is neither \<open>null\<close> nor \<open>undefined\<close>.\<close>

fun first_present :: "js option list \<Rightarrow> js option" where
  "first_present [] = None"
| "first_present (Some v # ps) = (if v \<in> {JsNull, JsUndefined} then first_present ps else Some v)"
| "first_present (None # ps) = first_present ps"

definition shown_or :: "'s exec_env \<Rightarrow> js option list \<Rightarrow> string \<Rightarrow> string" where
  "shown_or env ps other = (case first_present ps of
       Some (JsStr s) \<Rightarrow> s | Some v \<Rightarrow> xe_shown env v | None \<Rightarrow> other)"

record execute_result =
  xr_result :: js
  xr_hash :: js

definition read_submission :: "'s exec_env \<Rightarrow> 's server_reply option \<Rightarrow> caught + execute_result" where
  "read_submission env answer = (case answer of
       None \<Rightarrow> Inr \<lparr>xr_result = JsNull, xr_hash = JsStr ''unknown''\<rparr>
     | Some r \<Rightarrow>
         if rp_status r = Some (JsStr ''ERROR'') \<or> rp_error r \<noteq> None then
           Inl (AccountError (mapContractError (shown_or env [rp_error r, rp_result_xdr r] ''Transaction failed'') None))
         else (case (case rp_retval r of None \<Rightarrow> Inr JsNull | Some v \<Rightarrow> parseExecuteResult env v) of
             Inl e \<Rightarrow> Inl e
           | Inr v \<Rightarrow> Inr \<lparr>xr_result = v, xr_hash = coalesce (first_present [rp_hash r, rp_id r]) (JsStr ''unknown'')\<rparr>))"

definition executeContract :: "'s exec_env \<Rightarrow> string \<Rightarrow> string \<Rightarrow> js list \<Rightarrow> number \<Rightarrow> account_error + execute_result" where
  "executeContract env to functionName args expectedNonce =
     (case (case encodeContractArgs env args of
              Inl e \<Rightarrow> Inl e
            | Inr vs \<Rightarrow> (case xe_build env to functionName vs expectedNonce of
                  Some e \<Rightarrow> Inl e
                | None \<Rightarrow> (case xe_server env of Inl e \<Rightarrow> Inl e | Inr answer \<Rightarrow> read_submission env answer))) of
        Inl e \<Rightarrow> Inl (reclassify ''Contract execution failed'' e)
      | Inr r \<Rightarrow> Inr r)"

definition read_simulation :: "'s exec_env \<Rightarrow> 's server_reply option \<Rightarrow> caught + 's" where
  "read_simulation env answer = (case answer of
       None \<Rightarrow> Inl (AccountError (mapContractError ''No return value from simulation'' None))
     | Some r \<Rightarrow>
         if rp_error r \<noteq> None \<or> rp_message r \<noteq> None then
           Inl (AccountError (mapContractError (shown_or env [rp_error r, rp_message r] ''Simulation failed'') None))
         else (case rp_retval r of
             None \<Rightarrow> Inl (AccountError (mapContractError ''No return value from simulation'' None))
           | Some v \<Rightarrow> Inr v))"

definition simulateExecute :: "'s exec_env \<Rightarrow> string \<Rightarrow> string \<Rightarrow> js list \<Rightarrow> number \<Rightarrow> account_error + js" where
  "simulateExecute env to functionName args expectedNonce =
     (case (case encodeContractArgs env args of
              Inl e \<Rightarrow> Inl e
            | Inr vs \<Rightarrow> (case xe_build env to functionName vs expectedNonce of
                  Some e \<Rightarrow> Inl e
                | None \<Rightarrow> (case xe_server env of
                      Inl e \<Rightarrow> Inl e
                    | Inr answer \<Rightarrow> (case read_simulation env answer of
                          Inl e \<Rightarrow> Inl e | Inr v \<Rightarrow> parseExecuteResult env v)))) of
        Inl e \<Rightarrow> Inl (reclassify ''Contract simulation failed'' e)
      | Inr r \<Rightarrow> Inr r)"

text \<open>
  The reads of \<open>AccountContract\<close> classify an answer once and let everything else through as it is. An
  answer that is no object has no \<open>result\<close> to look at; taking the property of \<open>null\<close> or \<open>undefined\<close> throws,
  with a message that is the engine's.
\<close>

definition simulateRead :: "'s exec_env \<Rightarrow> caught \<Rightarrow> caught option \<Rightarrow> caught + 's" where
  "simulateRead env no_property built = (case built of
       Some e \<Rightarrow> Inl e
     | None \<Rightarrow> (case xe_server env of
           Inl e \<Rightarrow> Inl e
         | Inr None \<Rightarrow> Inl no_property
         | Inr (Some r) \<Rightarrow> read_simulation env (Some r)))"

section \<open>Reading a code back\<close>

lemma prefix_apart:
  assumes "\<not> js_includes contract_prefix pre" "s \<noteq> []" "pre = r @ s"
  shows "\<not> js_starts_with contract_prefix (s @ contract_prefix @ t)"
proof
  let ?P = contract_prefix
  assume m: "js_starts_with ?P (s @ ?P @ t)"
  then obtain u where u: "s @ ?P @ t = ?P @ u" by (auto simp: js_starts_with_append)
  show False
  proof (cases "length s < length ?P")
    case True
    with u have "(?P @ u) ! length s = ?P ! 0"
      by (metis append_Nil contract_prefix_def list.size(3) nth_append_length_plus
          nth_append add.right_neutral length_greater_0_conv list.distinct(1))
    moreover have "(?P @ u) ! length s = ?P ! length s" using True by (simp only: nth_append if_True)
    moreover have "?P ! 0 = CHR ''E''" by (simp add: contract_prefix_def)
    ultimately have "?P ! length s = CHR ''E''" by simp
    moreover have "0 < length s" "length s < 15" using True assms(2) by (simp_all add: contract_prefix_def)
    moreover have "\<forall>k \<in> {1..<15}. ?P ! k \<noteq> CHR ''E''" by code_simp
    ultimately show False by auto
  next
    case False
    with u have "s = ?P @ drop (length ?P) s"
      by (metis append_eq_append_conv_if append_take_drop_id leI)
    then have "js_includes ?P pre" using assms(3) by (metis append.assoc append_Nil2 js_includes_iff)
    with assms(1) show False ..
  qed
qed

lemma contract_code_skip:
  assumes "\<not> js_includes contract_prefix pre"
  shows "contract_code (pre @ contract_prefix @ t) = contract_code (contract_prefix @ t)"
proof -
  have "pre = r @ s \<Longrightarrow> contract_code (s @ contract_prefix @ t) = contract_code (contract_prefix @ t)" for r s
  proof (induction s arbitrary: r)
    case (Cons c cs)
    then have "\<not> js_starts_with contract_prefix ((c # cs) @ contract_prefix @ t)"
      using prefix_apart [OF assms, of "c # cs" r t] by simp
    with Cons.IH [of "r @ [c]"] Cons.prems show ?case by simp
  qed simp
  from this [of "[]"] show ?thesis by simp
qed

lemma contract_code_rendered:
  assumes "\<not> js_includes contract_prefix pre"
  shows "contract_code (pre @ contract_prefix @ '' #'' @ show_nat n @ '')'' @ post) = Some n"
proof -
  let ?ds = "show_nat n" and ?rest = "'')'' @ post"
  have digits: "\<forall>d \<in> set ?ds. is_digit_char d" using show_nat_digits [of n] by (simp add: list_all_iff)
  have stop: "\<not> is_digit_char (CHR '')'')" by code_simp
  have "takeWhile is_digit_char (?ds @ ?rest) = ?ds" "dropWhile is_digit_char (?ds @ ?rest) = ?rest"
    using digits stop by (simp_all add: takeWhile_append2 dropWhile_append2)
  moreover have "?ds \<noteq> []" using show_nat.simps [of n] by auto
  ultimately have "code_digits ('' #'' @ ?ds @ ?rest) = Some ?ds"
    by (simp add: code_digits_def js_starts_with_def Let_def is_js_space_def char_code_def)
  moreover have "code_digits t = Some ds \<Longrightarrow> contract_code (contract_prefix @ t) = Some (read_digits ds)" for t ds
    by (simp add: contract_prefix_def js_starts_with_def)
  ultimately have "contract_code (contract_prefix @ '' #'' @ ?ds @ ?rest) = Some n"
    by (simp add: read_show_nat)
  with contract_code_skip [OF assms] show ?thesis by simp
qed

section \<open>Classifying twice\<close>

lemma default_reclassified:
  "ae_class (mapContractError ''Account contract is already initialized'' None) = ContractInvocation"
  "ae_class (mapContractError ''Account contract is not initialized'' None) = ContractInvocation"
  "ae_class (mapContractError ''Session key has expired'' None) = ContractInvocation"
  "ae_class (mapContractError ''Invalid nonce (replay or stale)'' None) = InvalidNonce"
  "ae_class (mapContractError ''Caller is not authorized'' None) = CallerUnauthorized"
  "ae_class (mapContractError ''Session key not found'' None) = SessionKeyNotFound"
  "ae_class (mapContractError ''Insufficient permission for this operation'' None) = InsufficientPermission"
  by code_simp+

definition lost_in_execution :: "string \<Rightarrow> bool" where
  "lost_in_execution m =
     (ae_class (mapContractError m None) \<in> {AlreadyInitialized, NotInitialized} \<or> contract_code m = Some 6)"

lemma code_table:
  "CONTRACT_ERROR_CODES n = Some c \<Longrightarrow>
     (n, c) \<in> {(1, AlreadyInitialized), (2, NotInitialized), (3, CallerUnauthorized), (4, InvalidNonce),
       (5, SessionKeyNotFound), (6, SessionKeyHasExpired), (7, InsufficientPermission)}"
  by (auto simp: CONTRACT_ERROR_CODES_def split: if_splits)

lemma text_error_class: "ae_class (text_error m None) = text_class m"
  by (simp add: text_error_def Let_def key_not_found_def fresh_error_def)

lemma classified_twice:
  "ae_class (mapContractError (ae_message (mapContractError m None)) None) =
     (if lost_in_execution m then ContractInvocation else ae_class (mapContractError m None))"
proof (cases "\<exists>n c. contract_code m = Some n \<and> CONTRACT_ERROR_CODES n = Some c")
  case True
  then obtain n c where n: "contract_code m = Some n" "CONTRACT_ERROR_CODES n = Some c" by blast
  then have once: "mapContractError m None = fresh_error c" by (simp add: mapContractError_def)
  show ?thesis
    using code_table [OF n(2)] n(1) default_reclassified
    unfolding lost_in_execution_def once by (auto simp: fresh_error_def)
next
  case False
  then have once: "mapContractError m None = text_error m None"
    by (auto simp: mapContractError_def split: option.splits)
  have six: "contract_code m \<noteq> Some 6" using False by (auto simp: CONTRACT_ERROR_CODES_def)
  have "text_class m \<in> {AlreadyInitialized, NotInitialized, SessionKeyNotFound}
      \<or> ae_message (text_error m None) = m"
    by (auto simp: text_error_def Let_def)
  then show ?thesis
    using once six default_reclassified text_error_class [of m]
    unfolding lost_in_execution_def
    by (auto simp: text_error_def Let_def key_not_found_def fresh_error_def)
qed

section \<open>Properties\<close>

lemma execution_of_answer:
  assumes "encodeContractArgs env args = Inr vs" "xe_build env to functionName vs nonce = None"
    "xe_server env = Inr (Some r)" "rp_error r = Some (JsStr m)"
  shows "executeContract env to functionName args nonce = Inl (mapContractError (ae_message (mapContractError m None)) None)"
    and "simulateExecute env to functionName args nonce = Inl (mapContractError (ae_message (mapContractError m None)) None)"
  using assms
  by (simp_all add: executeContract_def simulateExecute_def read_submission_def read_simulation_def shown_or_def reclassify_def)

text \<open>The environment of the examples: every argument is encoded as nothing, and the server refuses.\<close>

definition refused_with :: "string \<Rightarrow> unit exec_env" where
  "refused_with m = \<lparr>xe_native = \<lambda>_. Inr (), xe_void = (), xe_build = \<lambda>_ _ _ _. None,
     xe_server = Inr (Some \<lparr>rp_status = Some (JsStr ''ERROR''), rp_error = Some (JsStr m), rp_message = None,
       rp_result_xdr = None, rp_retval = None, rp_hash = None, rp_id = None\<rparr>),
     xe_value = \<lambda>_. Inr JsNull, xe_shown = \<lambda>_. [], xe_json = \<lambda>_. []\<rparr>"

text \<open>
  A contract error the host renders as \<open>Error(Contract, #n)\<close> anywhere in its text is given the class
  of the number n, whatever else the text says before or after it.
\<close>

theorem host_error_classified:
  assumes "\<not> js_includes ''Error(Contract,'' pre" and "CONTRACT_ERROR_CODES n = Some c"
  shows "mapContractError (pre @ ''Error(Contract, #'' @ show_nat n @ '')'' @ post) key = account_err c (default_message c)"
proof -
  have "contract_code (pre @ ''Error(Contract, #'' @ show_nat n @ '')'' @ post) = Some n"
    using contract_code_rendered [of pre n post] assms(1) by (simp add: contract_prefix_def)
  with assms(2) show ?thesis by (simp add: mapContractError_def fresh_error_def)
qed

theorem host_error_classified_witness:
  "mapContractError (''HostError: '' @ ''Error(Contract, #'' @ show_nat 4 @ '')'' @ '' in auth'') None
     = account_err InvalidNonce (default_message InvalidNonce)"
  by (rule host_error_classified) code_simp+

text \<open>
  C16. An execution or a simulation that the server refuses ends in the class its message has, except
  for three classes that are lost: an account that is already or not yet initialised and a session
  key whose expiry the contract reports by its number end as an unspecific invocation failure,
  because the classified error is classified again by its own message.
\<close>

theorem execution_error_class:
  assumes "encodeContractArgs env args = Inr vs" "xe_build env to functionName vs nonce = None"
    "xe_server env = Inr (Some r)" "rp_error r = Some (JsStr m)"
  shows "(case executeContract env to functionName args nonce of Inl e \<Rightarrow> Some (ae_class e) | Inr _ \<Rightarrow> None)
      = Some (if ae_class (mapContractError m None) \<in> {AlreadyInitialized, NotInitialized} \<or> contract_code m = Some 6
              then ContractInvocation else ae_class (mapContractError m None))
    \<and> (case simulateExecute env to functionName args nonce of Inl e \<Rightarrow> Some (ae_class e) | Inr _ \<Rightarrow> None)
      = Some (if ae_class (mapContractError m None) \<in> {AlreadyInitialized, NotInitialized} \<or> contract_code m = Some 6
              then ContractInvocation else ae_class (mapContractError m None))"
  using execution_of_answer [OF assms] classified_twice [of m] by (simp add: lost_in_execution_def)

theorem execution_error_class_witness:
  "(case executeContract (refused_with ''HostError: Error(Contract, #6)'') ''C'' ''transfer'' [] (whole 3) of
        Inl e \<Rightarrow> Some (ae_class e) | Inr _ \<Rightarrow> None) = Some ContractInvocation
   \<and> (case simulateExecute (refused_with ''HostError: Error(Contract, #6)'') ''C'' ''transfer'' [] (whole 3) of
        Inl e \<Rightarrow> Some (ae_class e) | Inr _ \<Rightarrow> None) = Some ContractInvocation"
proof -
  let ?m = "''HostError: Error(Contract, #6)''"
  have "contract_code ?m = Some 6" by code_simp
  with execution_error_class [where env = "refused_with ?m" and args = "[]" and vs = "[]" and m = ?m
      and to = "''C''" and functionName = "''transfer''" and nonce = "whole 3"
      and r = "\<lparr>rp_status = Some (JsStr ''ERROR''), rp_error = Some (JsStr ?m), rp_message = None,
       rp_result_xdr = None, rp_retval = None, rp_hash = None, rp_id = None\<rparr>"]
  show ?thesis by (simp add: refused_with_def)
qed

text \<open>
  A read of the account classifies the same answer once: it keeps every class, so a read and an
  execution of the same account can report different errors for one and the same host failure.
\<close>

theorem read_error_class:
  assumes "xe_server env = Inr (Some r)" "rp_error r = Some (JsStr m)"
  shows "simulateRead env no_property None = Inl (AccountError (mapContractError m None))"
  using assms by (simp add: simulateRead_def read_simulation_def shown_or_def)

theorem read_error_class_witness:
  "simulateRead (refused_with ''Error(Contract, #2)'') (plain_error []) None
     = Inl (AccountError (mapContractError ''Error(Contract, #2)'' None))"
  by (rule read_error_class [where r = "\<lparr>rp_status = Some (JsStr ''ERROR''), rp_error = Some (JsStr ''Error(Contract, #2)''),
       rp_message = None, rp_result_xdr = None, rp_retval = None, rp_hash = None, rp_id = None\<rparr>"])
    (simp_all add: refused_with_def)

text \<open>
  An answer without an \<open>error\<close> property counts as executed whatever its status is, short of \<open>ERROR\<close>:
  a transaction the server asks to send again later is reported as done, with an empty result.
\<close>

theorem unsent_counts_as_executed:
  assumes "encodeContractArgs env args = Inr vs" "xe_build env to functionName vs nonce = None"
    "xe_server env = Inr (Some r)" "rp_error r = None" "rp_retval r = None"
    "rp_status r = Some (JsStr ''TRY_AGAIN_LATER'')" "rp_hash r = Some (JsStr h)"
  shows "executeContract env to functionName args nonce = Inr \<lparr>xr_result = JsNull, xr_hash = JsStr h\<rparr>"
  using assms by (simp add: executeContract_def read_submission_def)

theorem unsent_counts_as_executed_witness:
  "executeContract ((refused_with [])\<lparr>xe_server := Inr (Some \<lparr>rp_status = Some (JsStr ''TRY_AGAIN_LATER''), rp_error = None,
       rp_message = None, rp_result_xdr = None, rp_retval = None, rp_hash = Some (JsStr ''ab''), rp_id = None\<rparr>)\<rparr>)
     ''C'' ''transfer'' [JsStr ''x'', JsNull] (whole 3) = Inr \<lparr>xr_result = JsNull, xr_hash = JsStr ''ab''\<rparr>"
  by (rule unsent_counts_as_executed [where vs = "[(), ()]" and r = "\<lparr>rp_status = Some (JsStr ''TRY_AGAIN_LATER''), rp_error = None,
       rp_message = None, rp_result_xdr = None, rp_retval = None, rp_hash = Some (JsStr ''ab''), rp_id = None\<rparr>"])
    (simp_all add: refused_with_def)

end
