(* ===== verification/SdkErrors.thy ===== *)
theory SdkErrors
  imports ContractErrors
begin

text \<open>
  The errors of the SDK, \<open>packages/core-sdk/src/errors.ts\<close>: the classes with their codes, the guards that
  recognise an error of another layer by its properties, and \<open>normalizeError\<close>, which gives every value a
  code and a category. A value is looked at through its properties, inherited ones (\<open>name\<close>, \<open>message\<close>)
  included; whether it is an \<open>Error\<close> is told apart from them.
\<close>

section \<open>Error classes\<close>

record sdk_error =
  se_code :: string
  se_message :: string

definition sdk_err :: "string \<Rightarrow> string \<Rightarrow> sdk_error" where
  "sdk_err c m = \<lparr>se_code = c, se_message = m\<rparr>"

lemma sdk_err_simps [simp]: "se_code (sdk_err c m) = c" "se_message (sdk_err c m) = m"
  by (simp_all add: sdk_err_def)

definition BuilderValidationError :: "string \<Rightarrow> sdk_error" where
  "BuilderValidationError = sdk_err ''BUILDER_VALIDATION''"

text \<open>A text in double quotes.\<close>

definition in_quotes :: "string \<Rightarrow> string" where
  "in_quotes s = char_of (34 :: nat) # s @ [char_of (34 :: nat)]"

definition newline :: string where
  "newline = [char_of (10 :: nat)]"

definition SimulationFailed :: "string \<Rightarrow> sdk_error" where
  "SimulationFailed diagnostic = sdk_err ''SIMULATION_FAILED''
     (''Transaction simulation failed. This usually means the contract '' @ ''invocation would revert on-chain. Check the diagnostic message for ''
      @ ''details and verify that your contract parameters are correct.'' @ newline @ newline @ ''Diagnostic: '' @ diagnostic)"

definition SessionKeyManagementError :: "string \<Rightarrow> string \<Rightarrow> sdk_error" where
  "SessionKeyManagementError message code = sdk_err code message"

definition TransactionSubmissionError :: "string \<Rightarrow> sdk_error" where
  "TransactionSubmissionError message = sdk_err ''SUBMISSION_FAILED''
     (''Transaction submission failed: '' @ message @ ''. '' @ ''Ensure the signing key has sufficient XLM for fees and that the ''
      @ ''network is reachable.'')"

definition SessionKeyExecutionValidationError :: "string \<Rightarrow> sdk_error" where
  "SessionKeyExecutionValidationError = sdk_err ''SESSION_KEY_EXECUTION_VALIDATION''"

definition SessionKeyExecutionError :: "string \<Rightarrow> string \<Rightarrow> sdk_error" where
  "SessionKeyExecutionError code message = sdk_err code message"

definition PaymentRequestValidationError :: "string \<Rightarrow> sdk_error" where
  "PaymentRequestValidationError = sdk_err ''PAYMENT_REQUEST_VALIDATION''"

definition InvalidAmountError :: "string \<Rightarrow> sdk_error" where
  "InvalidAmountError = sdk_err ''INVALID_AMOUNT''"

text \<open>
  The assertions on StrKey texts, over the SDK's two checks; \<open>shown\<close> is \<open>String(value)\<close> of a value that is
  no text.
\<close>

definition key_snippet :: "(js \<Rightarrow> string) \<Rightarrow> js \<Rightarrow> string" where
  "key_snippet shown v = (case v of JsStr s \<Rightarrow> take 8 s @ ''...'' | _ \<Rightarrow> shown v)"

definition assertValidEd25519PublicKey :: "(string \<Rightarrow> bool) \<Rightarrow> (js \<Rightarrow> string) \<Rightarrow> js \<Rightarrow> sdk_error option" where
  "assertValidEd25519PublicKey isValidEd25519PublicKey shown v =
     (case v of JsStr s \<Rightarrow> if isValidEd25519PublicKey s then None
                  else Some (sdk_err ''INVALID_G_KEY'' (''Invalid Ed25519 public key: expected G... format, got '' @ key_snippet shown v))
      | _ \<Rightarrow> Some (sdk_err ''INVALID_G_KEY'' (''Invalid Ed25519 public key: expected G... format, got '' @ key_snippet shown v)))"

definition assertValidContractId :: "(string \<Rightarrow> bool) \<Rightarrow> (js \<Rightarrow> string) \<Rightarrow> js \<Rightarrow> sdk_error option" where
  "assertValidContractId isValidContract shown v =
     (case v of JsStr s \<Rightarrow> if isValidContract s then None
                  else Some (sdk_err ''INVALID_C_KEY'' (''Invalid contract id: expected C... format, got '' @ key_snippet shown v))
      | _ \<Rightarrow> Some (sdk_err ''INVALID_C_KEY'' (''Invalid contract id: expected C... format, got '' @ key_snippet shown v)))"

section \<open>Guards\<close>

text \<open>
  \<open>toUpperCase\<close> of one character as far as a list of capitals, digits and underscores can tell: the letters,
  and the sharp s, which becomes two of them; the other characters above ASCII stay outside the list.
\<close>

definition upper_text :: "char \<Rightarrow> string" where
  "upper_text c = (if is_lower_char c then [char_of (char_code c - 32)]
     else if char_code c = 223 then ''SS'' else [c])"

definition code_text :: "string \<Rightarrow> string" where
  "code_text s = map (\<lambda>c. if is_js_space c \<or> c = CHR ''-'' then CHR ''_'' else c) (concat (map upper_text s))"

definition getErrorCode :: "js \<Rightarrow> string option" where
  "getErrorCode v = (if is_object v then map_option code_text (js_string (js_get v ''code'')) else None)"

definition getErrorStatus :: "js \<Rightarrow> number option" where
  "getErrorStatus v = (if is_object v then
       case js_get v ''statusCode'' of JsNum n \<Rightarrow> Some n
       | _ \<Rightarrow> (case js_get v ''status'' of JsNum n \<Rightarrow> Some n | _ \<Rightarrow> None)
     else None)"

definition hasErrorCode :: "js \<Rightarrow> string list \<Rightarrow> int option \<Rightarrow> bool" where
  "hasErrorCode v codes status =
     ((case getErrorCode v of None \<Rightarrow> False | Some c \<Rightarrow> c \<in> set codes)
      \<or> (case status of None \<Rightarrow> False | Some s \<Rightarrow> getErrorStatus v = Some (whole s)))"

definition isRateLimitError :: "js \<Rightarrow> bool" where
  "isRateLimitError v = hasErrorCode v [''RATE_LIMITED'', ''RATE_LIMIT'', ''UNLOCK_RATE_LIMITED''] (Some 429)"

definition isInsufficientBalance :: "js \<Rightarrow> bool" where
  "isInsufficientBalance v =
     hasErrorCode v [''INSUFFICIENT_BALANCE'', ''TX_INSUFFICIENT_BALANCE'', ''OP_UNDERFUNDED'', ''TX_INSUFFICIENT_FEE''] None"

definition isInvalidSignatureError :: "js \<Rightarrow> bool" where
  "isInvalidSignatureError v = hasErrorCode v [''INVALID_SIGNATURE'', ''SIGNATURE_INVALID'', ''TX_BAD_AUTH'', ''OP_BAD_AUTH''] None"

definition isNetworkTimeoutError :: "js \<Rightarrow> bool" where
  "isNetworkTimeoutError v =
     hasErrorCode v [''NETWORK_TIMEOUT'', ''ETIMEDOUT'', ''ECONNABORTED'', ''REQUEST_TIMEOUT''] (Some 408)"

definition isVaultNotFoundError :: "js \<Rightarrow> bool" where
  "isVaultNotFoundError v = hasErrorCode v [''VAULT_NOT_FOUND'', ''WALLET_VAULT_NOT_FOUND''] None"

definition isNetworkError :: "js \<Rightarrow> bool" where
  "isNetworkError v =
     hasErrorCode v [''NETWORK_ERROR'', ''NETWORK_TIMEOUT'', ''ETIMEDOUT'', ''ECONNABORTED'', ''ECONNREFUSED''] None"

definition isContractFailed :: "js \<Rightarrow> bool" where
  "isContractFailed v = hasErrorCode v [''CONTRACT_FAILED'', ''CONTRACT_ERROR'', ''CONTRACT_NOT_FOUND''] None"

text \<open>The texts two of the guards search: code, name and message of the value, and of its \<open>data\<close>.\<close>

definition text_fields :: "js \<Rightarrow> string list" where
  "text_fields v = concat (map (\<lambda>k. case js_get v k of JsStr s \<Rightarrow> [s] | _ \<Rightarrow> []) [''code'', ''name'', ''message''])"

definition error_parts :: "js \<Rightarrow> string list" where
  "error_parts v = (case v of
       JsStr s \<Rightarrow> [s]
     | _ \<Rightarrow> if is_object v then text_fields v
             @ (case js_get v ''data'' of JsStr s \<Rightarrow> [s] | d \<Rightarrow> if is_object d then text_fields d else [])
           else [])"

fun joined_with :: "string \<Rightarrow> string list \<Rightarrow> string" where
  "joined_with sep [] = []"
| "joined_with sep [x] = x"
| "joined_with sep (x # y # ys) = x @ sep @ joined_with sep (y # ys)"

definition searched_text :: "js \<Rightarrow> string" where
  "searched_text v = js_lower (joined_with '' '' (error_parts v))"

definition names_authorization :: "string \<Rightarrow> bool" where
  "names_authorization m = (js_includes ''unauthorised'' m \<or> js_includes ''unauthorized'' m \<or> js_includes ''bad_auth'' m
     \<or> js_includes ''signature'' m \<or> js_includes ''forbidden'' m)"

definition isInsufficientFee :: "js \<Rightarrow> bool" where
  "isInsufficientFee v = (if v \<in> {JsNull, JsUndefined} then False else
     let m = searched_text v in
       if names_authorization m then False
       else hasErrorCode v [''TX_INSUFFICIENT_FEE'', ''BUDGET_EXCEEDED''] None
         \<or> js_includes ''tx_insufficient_fee'' m \<or> js_includes ''budgetexceeded'' m
         \<or> js_includes ''budget exceeded'' m \<or> js_includes ''insufficient fee'' m)"

definition isContractNotFoundError :: "js \<Rightarrow> bool" where
  "isContractNotFoundError v = (if v \<in> {JsNull, JsUndefined} then False
     else if is_object v \<and> (js_get v ''status'' = JsNum (whole 404) \<or> js_get v ''statusCode'' = JsNum (whole 404)) then True
     else let m = searched_text v in
       if names_authorization m then False
       else hasErrorCode v [''CONTRACT_NOT_FOUND'', ''CONTRACT_MISSING''] (Some 404)
         \<or> (js_includes ''hosterror'' m \<and> js_includes ''missingvalue'' m)
         \<or> js_includes ''contract not found'' m \<or> js_includes ''contract was not found'' m
         \<or> js_includes ''missing contract'' m \<or> js_includes ''contract_not_found'' m \<or> js_includes ''contract_missing'' m)"

section \<open>Normalisation\<close>

datatype error_category = NetworkCategory | ValidationCategory | ContractCategory | UnknownCategory

record normalized_error =
  nz_code :: string
  nz_message :: string
  nz_category :: error_category

definition NETWORK_PATTERNS :: "string \<Rightarrow> bool" where
  "NETWORK_PATTERNS s = (let low = js_lower s in
     js_includes ''ECONNREFUSED'' s \<or> js_includes ''ETIMEDOUT'' s \<or> js_includes ''ENOTFOUND'' s
     \<or> js_includes ''ENETUNREACH'' s \<or> js_includes ''EAI_AGAIN'' s
     \<or> js_includes ''failed to fetch'' low \<or> js_includes ''network request failed'' low \<or> js_includes ''net::err_'' low)"

definition VALIDATION_PATTERNS :: "string \<Rightarrow> bool" where
  "VALIDATION_PATTERNS s = (let low = js_lower s in
     js_includes ''validation failed'' low \<or> js_includes ''invalid'' low \<or> js_includes ''malformed'' low
     \<or> js_includes ''bad request'' low \<or> js_includes ''type error'' low)"

definition CONTRACT_PATTERNS :: "string \<Rightarrow> bool" where
  "CONTRACT_PATTERNS s = (let low = js_lower s in
     js_includes ''contract'' low \<or> js_includes ''nonce'' low \<or> js_includes ''insufficient'' low
     \<or> js_includes ''revert'' low \<or> js_includes ''execution reverted'' low \<or> js_includes ''session key'' low)"

text \<open>\<open>/^(ECONN|EAI_|ETIMEDOUT|ENOT|[45]\d{2}\b)/\<close>.\<close>

definition network_code :: "string \<Rightarrow> bool" where
  "network_code c = (js_starts_with ''ECONN'' c \<or> js_starts_with ''EAI_'' c \<or> js_starts_with ''ETIMEDOUT'' c
     \<or> js_starts_with ''ENOT'' c
     \<or> (case c of d # e # f # rest \<Rightarrow> d \<in> {CHR ''4'', CHR ''5''} \<and> is_digit_char e \<and> is_digit_char f \<and> word_boundary rest
        | _ \<Rightarrow> False))"

definition detectCategoryFromCode :: "string \<Rightarrow> error_category" where
  "detectCategoryFromCode code =
     (if code = [] then UnknownCategory
      else if network_code code then NetworkCategory
      else if list_ex (\<lambda>w. js_includes w code) [''SIMULATION'', ''SUBMISSION'', ''SESSION_KEY'', ''CONTRACT'', ''INVALID'',
          ''UNAUTHORIZED'', ''INSUFFICIENT'', ''NONCE'', ''REVOKE'', ''SESSION'', ''INITIALIZED''] then ContractCategory
      else if list_ex (\<lambda>w. js_includes w code) [''VALIDATION'', ''MALFORMED'', ''BAD_REQUEST'', ''TYPE_ERROR''] then ValidationCategory
      else UnknownCategory)"

text \<open>\<open>/\b([A-Z][A-Z0-9_]{2,})\b/\<close>: the leftmost word of three or more capitals, digits and underscores.\<close>

definition is_capital_token :: "char \<Rightarrow> bool" where
  "is_capital_token c = (is_upper_char c \<or> is_digit_char c \<or> c = CHR ''_'')"

fun find_token :: "bool \<Rightarrow> string \<Rightarrow> string option" where
  "find_token _ [] = None"
| "find_token at_start (c # cs) =
     (let run = takeWhile is_capital_token cs in
      if at_start \<and> is_upper_char c \<and> 2 \<le> length run \<and> word_boundary (dropWhile is_capital_token cs) then Some (c # run)
      else find_token (\<not> is_word_char c) cs)"

definition normalized :: "string \<Rightarrow> string \<Rightarrow> error_category \<Rightarrow> normalized_error" where
  "normalized c m k = \<lparr>nz_code = c, nz_message = m, nz_category = k\<rparr>"

lemma normalized_simps [simp]:
  "nz_code (normalized c m k) = c" "nz_message (normalized c m k) = m" "nz_category (normalized c m k) = k"
  by (simp_all add: normalized_def)

definition by_pattern :: "string \<Rightarrow> string \<Rightarrow> normalized_error" where
  "by_pattern searched m =
     (if NETWORK_PATTERNS searched then normalized ''NETWORK_ERROR'' m NetworkCategory
      else if VALIDATION_PATTERNS searched then normalized ''VALIDATION_ERROR'' m ValidationCategory
      else if CONTRACT_PATTERNS searched then normalized ''CONTRACT_ERROR'' m ContractCategory
      else normalized ''UNKNOWN'' m UnknownCategory)"

definition has_property :: "js \<Rightarrow> string \<Rightarrow> bool" where
  "has_property v k = (k \<in> set (map fst (js_entries v)))"

text \<open>The text of a property, \<open>shown\<close> being \<open>String(value)\<close> of one that is no text.\<close>

definition text_of :: "(js \<Rightarrow> string) \<Rightarrow> js \<Rightarrow> string" where
  "text_of shown v = (case v of JsStr s \<Rightarrow> s | _ \<Rightarrow> shown v)"

text \<open>
  Every instance of \<open>AncoreSdkError\<close> has a code and a message, so the first test takes it and the branch
  of its own is never reached; the same goes for the \<open>code\<close> property of an \<open>Error\<close>. \<open>printed\<close> is the JSON
  text of what is neither an error nor a text.
\<close>

definition normalizeError :: "(js \<Rightarrow> string) \<Rightarrow> (js \<Rightarrow> string) \<Rightarrow> bool \<Rightarrow> js \<Rightarrow> normalized_error" where
  "normalizeError shown printed is_error v =
     (if v \<in> {JsNull, JsUndefined} then normalized ''UNKNOWN'' ''Unknown error'' UnknownCategory
      else if is_object v \<and> has_property v ''code'' \<and> has_property v ''message'' then
        (let code = (case js_get v ''code'' of JsStr c \<Rightarrow> if c = [] then ''UNKNOWN'' else c | _ \<Rightarrow> ''UNKNOWN'') in
           normalized code (text_of shown (js_get v ''message'')) (detectCategoryFromCode code))
      else if is_error then
        (let message = text_of shown (js_get v ''message''); name = text_of shown (js_get v ''name'') in
           case find_token True message of
             Some code \<Rightarrow> normalized code message (detectCategoryFromCode code)
           | None \<Rightarrow>
               if has_property v ''resultXdr'' \<or> has_property v ''resultCode'' then normalized ''SUBMISSION_FAILED'' message ContractCategory
               else by_pattern (name @ '' '' @ message) message)
      else case v of JsStr m \<Rightarrow> by_pattern m m | _ \<Rightarrow> normalized ''UNKNOWN'' (printed v) UnknownCategory)"

section \<open>Lemmas\<close>

text \<open>The object \<open>{ code, message, category }\<close> a caller may pass on.\<close>

definition as_value :: "normalized_error \<Rightarrow> js \<Rightarrow> js" where
  "as_value n category = JsObj [(''code'', JsStr (nz_code n)), (''message'', JsStr (nz_message n)), (''category'', category)]"

lemma find_token_nonempty: "find_token b s = Some t \<Longrightarrow> t \<noteq> []"
  by (induction b s rule: find_token.induct) (auto simp: Let_def split: if_splits)

lemma fixed_categories:
  "detectCategoryFromCode ''UNKNOWN'' = UnknownCategory"
  "detectCategoryFromCode ''NETWORK_ERROR'' = UnknownCategory"
  "detectCategoryFromCode ''VALIDATION_ERROR'' = ValidationCategory"
  "detectCategoryFromCode ''CONTRACT_ERROR'' = ContractCategory"
  "detectCategoryFromCode ''SUBMISSION_FAILED'' = ContractCategory"
  by code_simp+

definition consistent :: "normalized_error \<Rightarrow> bool" where
  "consistent n = (nz_code n \<noteq> [] \<and>
     detectCategoryFromCode (nz_code n) = (if nz_code n = ''NETWORK_ERROR'' then UnknownCategory else nz_category n))"

lemma consistent_by_code: "c \<noteq> [] \<Longrightarrow> consistent (normalized c m (detectCategoryFromCode c))"
  by (simp add: consistent_def fixed_categories)

lemma consistent_fixed:
  "consistent (normalized ''UNKNOWN'' m UnknownCategory)" "consistent (normalized ''NETWORK_ERROR'' m NetworkCategory)"
  "consistent (normalized ''VALIDATION_ERROR'' m ValidationCategory)" "consistent (normalized ''CONTRACT_ERROR'' m ContractCategory)"
  "consistent (normalized ''SUBMISSION_FAILED'' m ContractCategory)"
  by (simp_all add: consistent_def fixed_categories)

lemma by_pattern_consistent: "consistent (by_pattern s m)"
  by (simp add: by_pattern_def consistent_fixed)

lemma coded_consistent:
  "consistent (let code = (case c of JsStr c \<Rightarrow> if c = [] then ''UNKNOWN'' else c | _ \<Rightarrow> ''UNKNOWN'') in
     normalized code m (detectCategoryFromCode code))"
  unfolding Let_def by (rule consistent_by_code) (simp split: js.split)

lemma uncoded_consistent:
  "consistent (case find_token True message of
       Some code \<Rightarrow> normalized code message (detectCategoryFromCode code)
     | None \<Rightarrow> if b then normalized ''SUBMISSION_FAILED'' message ContractCategory else by_pattern s message)"
  by (auto simp: by_pattern_consistent consistent_fixed dest: find_token_nonempty intro: consistent_by_code split: option.split)

lemma normalize_consistent: "consistent (normalizeError shown printed is_error v)"
  unfolding normalizeError_def
  using coded_consistent uncoded_consistent
  by (simp add: consistent_fixed by_pattern_consistent Let_def split: js.split)

lemma find_token_skip:
  "list_all (\<lambda>c. \<not> is_upper_char c) pre \<Longrightarrow>
     find_token b (pre @ s) = find_token (case rev pre of [] \<Rightarrow> b | c # _ \<Rightarrow> \<not> is_word_char c) s"
proof (induction pre arbitrary: b)
  case (Cons c pre)
  then show ?case by (cases "rev pre") (simp_all add: Let_def)
qed simp

lemma find_token_word:
  assumes "is_upper_char c" "list_all is_capital_token w" "2 \<le> length w" "word_boundary post"
  shows "find_token True (c # w @ post) = Some (c # w)"
proof -
  have stop: "post = [] \<or> \<not> is_capital_token (hd post)"
    using assms(4) by (cases post) (auto simp: word_boundary_def is_capital_token_def is_word_char_def is_alnum_char_def)
  have "\<forall>d \<in> set w. is_capital_token d" using assms(2) by (simp add: list_all_iff)
  then have "takeWhile is_capital_token (w @ post) = w" "dropWhile is_capital_token (w @ post) = post"
    using stop by (cases post; simp add: takeWhile_append2 dropWhile_append2)+
  with assms show ?thesis by (simp add: Let_def)
qed

section \<open>Properties\<close>

text \<open>
  Normalising a normalised error again keeps its code and message, and its category, except that
  a network failure becomes an unknown one: its own code is in no category.
\<close>

theorem normalize_again:
  "normalizeError shown printed b (as_value (normalizeError shown printed is_error v) category) =
     (let n = normalizeError shown printed is_error v in
        n\<lparr>nz_category := if nz_code n = ''NETWORK_ERROR'' then UnknownCategory else nz_category n\<rparr>)"
proof -
  let ?n = "normalizeError shown printed is_error v"
  have "nz_code ?n \<noteq> []" "detectCategoryFromCode (nz_code ?n) = (if nz_code ?n = ''NETWORK_ERROR'' then UnknownCategory else nz_category ?n)"
    using normalize_consistent [of shown printed is_error v] by (simp_all add: consistent_def)
  then show ?thesis
    by (simp add: normalizeError_def [of shown printed b] as_value_def js_get_def has_property_def text_of_def Let_def normalized_def)
qed

text \<open>
  The first word of three or more capitals in the message of an error decides its code and its
  category, whatever the rest of the message says.
\<close>

theorem capitals_decide:
  assumes "list_all (\<lambda>c. \<not> is_upper_char c) pre" "case rev pre of [] \<Rightarrow> True | d # _ \<Rightarrow> \<not> is_word_char d"
    "is_upper_char c" "list_all is_capital_token w" "2 \<le> length w" "word_boundary post"
  shows "normalizeError shown printed True (JsObj [(''name'', JsStr name), (''message'', JsStr (pre @ c # w @ post))]) =
     normalized (c # w) (pre @ c # w @ post) (detectCategoryFromCode (c # w))"
proof -
  have "find_token True (pre @ c # w @ post) = Some (c # w)"
    using find_token_skip [OF assms(1)] assms(2) find_token_word [OF assms(3-6)] by (simp split: list.splits)
  then show ?thesis by (simp add: normalizeError_def js_get_def has_property_def text_of_def)
qed

theorem capitals_decide_witness:
  "normalizeError (\<lambda>_. []) (\<lambda>_. []) True (JsObj [(''name'', JsStr ''TypeError''),
       (''message'', JsStr (''failed to fetch the '' @ CHR ''X'' # ''LM'' @ '' balance''))])
     = normalized ''XLM'' ''failed to fetch the XLM balance'' UnknownCategory"
proof -
  have "detectCategoryFromCode ''XLM'' = UnknownCategory" by code_simp
  with capitals_decide [where pre = "''failed to fetch the ''" and c = "CHR ''X''" and w = "''LM''" and post = "'' balance''"
      and shown = "\<lambda>_. []" and printed = "\<lambda>_. []" and name = "''TypeError''"]
  show ?thesis by (simp add: is_upper_char_def is_capital_token_def char_code_def word_boundary_def is_word_char_def
      is_alnum_char_def is_digit_char_def is_lower_char_def)
qed

text \<open>
  The errors of the account package fall into the category of the contract by their codes, except
  a failed network request and a feature that is not there, which fall into none.
\<close>

theorem account_errors_category:
  "normalizeError shown printed is_error (JsObj [(''message'', JsStr (ae_message e)), (''code'', JsStr (class_code (ae_class e)))])
     = normalized (class_code (ae_class e)) (ae_message e)
        (if ae_class e \<in> {AccountNetworkError, NotImplemented} then UnknownCategory else ContractCategory)"
proof -
  have "detectCategoryFromCode (class_code c) = (if c \<in> {AccountNetworkError, NotImplemented} then UnknownCategory else ContractCategory)" for c
    by (cases c; hypsubst; code_simp)
  moreover have "class_code (ae_class e) \<noteq> []" by (cases "ae_class e") simp_all
  ultimately show ?thesis by (simp add: normalizeError_def js_get_def has_property_def text_of_def Let_def)
qed

end
