(* ===== verification/SessionKeyOps.thy ===== *)
theory SessionKeyOps
  imports SdkErrors SessionPolicy
begin

text \<open>
  The operations on session keys a client starts: \<open>add-session-key.ts\<close>, \<open>revoke-session-key.ts\<close>,
  \<open>refresh-session-key-ttl.ts\<close>, \<open>execute-with-session-key.ts\<close> and the labels of \<open>session-key-utils.ts\<close>, all of
  \<open>packages/core-sdk/src\<close>, with \<open>initialize.ts\<close> and \<open>revoke-session-key.ts\<close> of \<open>packages/account-abstraction/src\<close>.
  Each checks its parameters, hands them to a builder or an execution layer, and gives what these throw a
  code. The builders, the layer and the simulation are what they answer; \<open>shown\<close> is \<open>String(value)\<close>.
\<close>

section \<open>What a builder throws\<close>

datatype thrown_by = SdkThrown sdk_error | LayerThrown caught

definition matches :: "string list \<Rightarrow> string \<Rightarrow> bool" where
  "matches patterns m = list_ex (\<lambda>p. js_includes p (js_lower m)) patterns"

definition normalizeAddSessionKeyError :: "thrown_by \<Rightarrow> sdk_error" where
  "normalizeAddSessionKeyError e = (case e of
       SdkThrown s \<Rightarrow> s
     | LayerThrown (AccountError a) \<Rightarrow> SessionKeyManagementError (ae_message a) (class_code (ae_class a))
     | LayerThrown (OtherError _ m _) \<Rightarrow>
         if matches [''invalid stellar public key'', ''invalid u32 value'', ''invalid u64 value'', ''permissions must''] m
         then BuilderValidationError m
         else SessionKeyManagementError (''Failed to add session key: '' @ m) ''SESSION_KEY_ADD_FAILED''
     | LayerThrown (NotAnError _) \<Rightarrow>
         SessionKeyManagementError ''Failed to add session key due to an unknown error.'' ''SESSION_KEY_ADD_FAILED'')"

definition normalizeRevokeSessionKeyError :: "thrown_by \<Rightarrow> sdk_error" where
  "normalizeRevokeSessionKeyError e = (case e of
       SdkThrown s \<Rightarrow> s
     | LayerThrown (AccountError a) \<Rightarrow> SessionKeyManagementError (ae_message a) (class_code (ae_class a))
     | LayerThrown (OtherError _ m _) \<Rightarrow>
         if matches [''invalid stellar public key'', ''invalid u32 value'', ''invalid u64 value''] m
         then BuilderValidationError m
         else SessionKeyManagementError (''Failed to revoke session key: '' @ m) ''SESSION_KEY_REVOKE_FAILED''
     | LayerThrown (NotAnError _) \<Rightarrow>
         SessionKeyManagementError ''Failed to revoke session key due to an unknown error.'' ''SESSION_KEY_REVOKE_FAILED'')"

definition normalizeRefreshSessionKeyTtlError :: "string \<Rightarrow> thrown_by \<Rightarrow> sdk_error" where
  "normalizeRefreshSessionKeyTtlError publicKey e = (case e of
       SdkThrown s \<Rightarrow> s
     | LayerThrown (AccountError a) \<Rightarrow> SessionKeyManagementError (ae_message a) (class_code (ae_class a))
     | LayerThrown (OtherError _ m _) \<Rightarrow>
         if matches [''invalid stellar public key'', ''invalid ed25519 public key''] m then BuilderValidationError m
         else (let mapped = mapContractError m (Some publicKey) in
           if ae_class mapped \<noteq> ContractInvocation
           then SessionKeyManagementError (ae_message mapped) (class_code (ae_class mapped))
           else SessionKeyManagementError (''Failed to refresh session key TTL: '' @ m) ''SESSION_KEY_TTL_REFRESH_FAILED'')
     | LayerThrown (NotAnError _) \<Rightarrow>
         SessionKeyManagementError ''Failed to refresh session key TTL due to an unknown error.'' ''SESSION_KEY_TTL_REFRESH_FAILED'')"

section \<open>Adding and revoking\<close>

definition text_field_missing :: "js \<Rightarrow> string \<Rightarrow> bool" where
  "text_field_missing params k = (case js_get params k of JsStr s \<Rightarrow> js_trim s = [] | _ \<Rightarrow> True)"

definition finite_field :: "js \<Rightarrow> string \<Rightarrow> bool" where
  "finite_field params k = (case js_get params k of JsNum n \<Rightarrow> num_is_finite n | _ \<Rightarrow> False)"

definition validateAddSessionKeyParams :: "js \<Rightarrow> sdk_error option" where
  "validateAddSessionKeyParams params =
     (if \<not> is_object params then
        Some (BuilderValidationError ''addSessionKey requires a parameter object with publicKey, permissions, and expiresAt.'')
      else if text_field_missing params ''publicKey'' then
        Some (BuilderValidationError ''addSessionKey requires a non-empty publicKey string.'')
      else if js_items (js_get params ''permissions'') = None then
        Some (BuilderValidationError ''addSessionKey requires permissions to be an array.'')
      else if \<not> finite_field params ''expiresAt'' then
        Some (BuilderValidationError ''addSessionKey requires expiresAt to be a finite number.'')
      else None)"

definition addSessionKey :: "(js \<Rightarrow> js \<Rightarrow> js \<Rightarrow> thrown_by + 'inv) \<Rightarrow> js \<Rightarrow> sdk_error + 'inv" where
  "addSessionKey build params = (case validateAddSessionKeyParams params of
       Some e \<Rightarrow> Inl e
     | None \<Rightarrow> (case build (js_get params ''publicKey'') (js_get params ''permissions'') (js_get params ''expiresAt'') of
           Inl e \<Rightarrow> Inl (normalizeAddSessionKeyError e) | Inr i \<Rightarrow> Inr i))"

definition validateRevokeSessionKeyParams :: "(string \<Rightarrow> bool) \<Rightarrow> (js \<Rightarrow> string) \<Rightarrow> js \<Rightarrow> sdk_error option" where
  "validateRevokeSessionKeyParams isValidEd25519PublicKey shown params =
     (if \<not> is_object params then
        Some (BuilderValidationError ''revokeSessionKey requires a parameter object with publicKey.'')
      else if text_field_missing params ''publicKey'' then
        Some (BuilderValidationError ''revokeSessionKey requires a non-empty publicKey string.'')
      else assertValidEd25519PublicKey isValidEd25519PublicKey shown (js_get params ''publicKey''))"

definition revokeSessionKey ::
  "(string \<Rightarrow> bool) \<Rightarrow> (js \<Rightarrow> string) \<Rightarrow> (js \<Rightarrow> thrown_by + 'inv) \<Rightarrow> js \<Rightarrow> sdk_error + 'inv" where
  "revokeSessionKey isValidEd25519PublicKey shown build params =
     (case validateRevokeSessionKeyParams isValidEd25519PublicKey shown params of
        Some e \<Rightarrow> Inl e
      | None \<Rightarrow> (case build (js_get params ''publicKey'') of
            Inl e \<Rightarrow> Inl (normalizeRevokeSessionKeyError e) | Inr i \<Rightarrow> Inr i))"

section \<open>The account package's own revocation and initialisation\<close>

text \<open>
  Both overloads of each build the invocation; the one with options adds the operation made from it. A key
  may also be 32 raw bytes.
\<close>

datatype raw_key = KeyText string | KeyBytes "byte list" | NoKey | NoParams

definition aa_validateRevoke :: "raw_key \<Rightarrow> account_error option" where
  "aa_validateRevoke k =
     (let bad_key = account_err ContractInvocation
        (''revokeSessionKey: '' @ in_quotes ''publicKey'' @ '' must be a non-empty string or Uint8Array.'') in
      case k of
        NoParams \<Rightarrow> Some (account_err ContractInvocation ''revokeSessionKey requires a params object with a publicKey field.'')
      | KeyBytes _ \<Rightarrow> None
      | KeyText s \<Rightarrow> if js_trim s = [] then Some bad_key else None
      | NoKey \<Rightarrow> Some bad_key)"

definition mapRevokeError :: "raw_key \<Rightarrow> caught \<Rightarrow> account_error" where
  "mapRevokeError k e = (case caught_message e of
       Some m \<Rightarrow> mapContractError m (case k of KeyText s \<Rightarrow> Some s | _ \<Rightarrow> None)
     | None \<Rightarrow> account_err ContractInvocation ''revokeSessionKey failed with an unknown error.'')"

definition with_operation :: "bool \<Rightarrow> ('inv \<Rightarrow> caught + 'op) \<Rightarrow> caught + 'inv \<Rightarrow> caught + 'inv \<times> 'op option" where
  "with_operation options operation built = (case built of
       Inl e \<Rightarrow> Inl e
     | Inr i \<Rightarrow> if \<not> options then Inr (i, None)
               else (case operation i of Inl e \<Rightarrow> Inl e | Inr op \<Rightarrow> Inr (i, Some op)))"

definition aa_revokeSessionKey ::
  "(raw_key \<Rightarrow> caught + 'inv) \<Rightarrow> ('inv \<Rightarrow> caught + 'op) \<Rightarrow> bool \<Rightarrow> raw_key \<Rightarrow> account_error + 'inv \<times> 'op option" where
  "aa_revokeSessionKey build operation options k = (case aa_validateRevoke k of
       Some e \<Rightarrow> Inl e
     | None \<Rightarrow> (case with_operation options operation (build k) of Inl e \<Rightarrow> Inl (mapRevokeError k e) | Inr r \<Rightarrow> Inr r))"

definition validateInitializeParams :: "js \<Rightarrow> account_error option" where
  "validateInitializeParams params =
     (if \<not> is_object params then
        Some (account_err ContractInvocation ''initialize requires a params object with an owner field.'')
      else if text_field_missing params ''owner'' then
        Some (account_err ContractInvocation (''initialize: '' @ in_quotes ''owner'' @ '' must be a non-empty Stellar address.''))
      else None)"

definition mapInitializeError :: "caught \<Rightarrow> account_error" where
  "mapInitializeError e = (case caught_message e of
       Some m \<Rightarrow> mapContractError m None
     | None \<Rightarrow> account_err ContractInvocation ''initialize failed with an unknown error.'')"

definition aa_initialize ::
  "(js \<Rightarrow> caught + 'inv) \<Rightarrow> ('inv \<Rightarrow> caught + 'op) \<Rightarrow> bool \<Rightarrow> js \<Rightarrow> account_error + 'inv \<times> 'op option" where
  "aa_initialize build operation options params = (case validateInitializeParams params of
       Some e \<Rightarrow> Inl e
     | None \<Rightarrow> (case with_operation options operation (build (js_get params ''owner'')) of
           Inl e \<Rightarrow> Inl (mapInitializeError e) | Inr r \<Rightarrow> Inr r))"

section \<open>Refreshing the storage lifetime\<close>

definition validateRefreshSessionKeyTtlParams :: "int \<Rightarrow> js \<Rightarrow> sdk_error option" where
  "validateRefreshSessionKeyTtlParams nowMs params =
     (if \<not> is_object params then
        Some (BuilderValidationError ''refreshSessionKeyTtl requires a parameter object with publicKey and expiresAt.'')
      else if text_field_missing params ''publicKey'' then
        Some (BuilderValidationError ''refreshSessionKeyTtl requires a non-empty publicKey string.'')
      else (case js_get params ''expiresAt'' of
          JsNum expiresAt \<Rightarrow>
            if \<not> num_is_finite expiresAt then
              Some (BuilderValidationError ''refreshSessionKeyTtl requires expiresAt to be a finite number.'')
            else if isSessionKeyActive nowMs expiresAt then None
            else (case getSessionKeyInactiveReason nowMs expiresAt of
                Some KeyRevoked \<Rightarrow>
                  Some (BuilderValidationError ''refreshSessionKeyTtl cannot refresh a revoked session key (expiresAt === 0).'')
              | Some KeyExpired \<Rightarrow>
                  Some (SessionKeyManagementError ''Session key has expired and cannot have its storage TTL refreshed.'' ''SESSION_KEY_EXPIRED'')
              | None \<Rightarrow>
                  Some (BuilderValidationError ''refreshSessionKeyTtl requires an active session key. Verify expiresAt with isSessionKeyActive().''))
        | _ \<Rightarrow> Some (BuilderValidationError ''refreshSessionKeyTtl requires expiresAt to be a finite number.'')))"

text \<open>
  An event as the SDK decodes it: not a contract event, or the symbol of its first topic (which may be
  missing, or throw for a topic that is no symbol) and its data, a vector or something else. Reading the
  two entries of the vector may throw as well.
\<close>

datatype topic_symbol = NoTopic | TopicThrows string | TopicSymbol string

datatype 's event_data = VectorData "'s list" | OtherData

datatype 's chain_event = NotContractEvent | ContractEvent topic_symbol "'s event_data"

record refreshed_event =
  rv_publicKey :: string
  rv_expiresAt :: number

definition parseSingleEvent ::
  "('s \<Rightarrow> string + string) \<Rightarrow> ('s \<Rightarrow> string + number) \<Rightarrow> 's chain_event \<Rightarrow> string + refreshed_event option" where
  "parseSingleEvent toKey toU64 ev = (case ev of
       NotContractEvent \<Rightarrow> Inr None
     | ContractEvent topic payload \<Rightarrow> (case topic of
           TopicThrows m \<Rightarrow> Inl m
         | NoTopic \<Rightarrow> Inr None
         | TopicSymbol s \<Rightarrow>
             if s \<noteq> ''session_key_ttl_refreshed'' then Inr None
             else (case payload of
                 VectorData (a # b # _) \<Rightarrow> (case toKey a of
                     Inl m \<Rightarrow> Inl m
                   | Inr k \<Rightarrow> (case toU64 b of Inl m \<Rightarrow> Inl m | Inr n \<Rightarrow> Inr (Some \<lparr>rv_publicKey = k, rv_expiresAt = n\<rparr>)))
               | _ \<Rightarrow> Inr None)))"

fun parseSessionKeyTtlRefreshedEvent ::
  "('s \<Rightarrow> string + string) \<Rightarrow> ('s \<Rightarrow> string + number) \<Rightarrow> 's chain_event list \<Rightarrow> string + refreshed_event option" where
  "parseSessionKeyTtlRefreshedEvent toKey toU64 [] = Inr None"
| "parseSessionKeyTtlRefreshedEvent toKey toU64 (ev # evs) =
     (case parseSingleEvent toKey toU64 ev of
        Inl m \<Rightarrow> Inl m
      | Inr (Some r) \<Rightarrow> Inr (Some r)
      | Inr None \<Rightarrow> parseSessionKeyTtlRefreshedEvent toKey toU64 evs)"

text \<open>
  One attempt at the simulation: the account lookup or the building of the transaction fails, the server
  answers in time, rejects in time, or the timer fires first.
\<close>

datatype 's simulation = SimulationError string | SimulationSuccess "'s chain_event list" | SimulationOther

datatype 's attempt = AttemptRejected net_error | AttemptAnswered "'s simulation" | AttemptTimedOut

definition simulateInvocation :: "int \<Rightarrow> 's attempt \<Rightarrow> net_error + 's simulation" where
  "simulateInvocation timeoutMs a = (case a of
       AttemptRejected e \<Rightarrow> Inl e
     | AttemptAnswered s \<Rightarrow> Inr s
     | AttemptTimedOut \<Rightarrow> Inl (ErrorInstance ''SimulationFailedError''
         (se_message (SimulationFailed (''Session key TTL simulation timed out after '' @ show_int timeoutMs @ ''ms.'')))
         (no_fields\<lparr>ef_code := Some ''SIMULATION_FAILED''\<rparr>)))"

definition mapRefreshSimulationError :: "string \<Rightarrow> string \<Rightarrow> sdk_error" where
  "mapRefreshSimulationError publicKey message = (let mapped = mapContractError message (Some publicKey) in
     if ae_class mapped \<noteq> ContractInvocation
     then SessionKeyManagementError (ae_message mapped) (class_code (ae_class mapped))
     else SimulationFailed message)"

text \<open>
  The end of a refresh: a classified error, the rejection of the last attempt as it came, an unknown retry
  preset, an error of decoding an event, or the event (or its absence).
\<close>

datatype refresh_end =
    RefreshError sdk_error | RefreshRejected net_error | RefreshPreset preset_error | RefreshUndefined
  | RefreshDecoding string | Refreshed "refreshed_event option"

text \<open>
  \<open>re_build\<close> is the call of the contract client that makes the invocation, the one inside the \<open>try\<close>;
  \<open>buildInvokeOperation\<close>, which comes after it, is taken to accept what that call has built.
\<close>

record ('inv, 's) refresh_env =
  re_build :: "js \<Rightarrow> thrown_by + 'inv"
  re_attempt :: "nat \<Rightarrow> 's attempt"
  re_toKey :: "'s \<Rightarrow> string + string"
  re_toU64 :: "'s \<Rightarrow> string + number"
  re_random :: "nat \<Rightarrow> rat"

definition read_refresh :: "('inv, 's) refresh_env \<Rightarrow> string \<Rightarrow> (net_error, 's simulation) retry_end \<Rightarrow> refresh_end" where
  "read_refresh env publicKey r = (case r of
       Threw e \<Rightarrow> RefreshRejected e
     | ThrewUndefined \<Rightarrow> RefreshUndefined
     | Returned (SimulationError m) \<Rightarrow> RefreshError (mapRefreshSimulationError publicKey m)
     | Returned SimulationOther \<Rightarrow> RefreshError (SimulationFailed ''Unexpected simulation response for refresh_session_key_ttl.'')
     | Returned (SimulationSuccess evs) \<Rightarrow> (case parseSessionKeyTtlRefreshedEvent (re_toKey env) (re_toU64 env) evs of
           Inl m \<Rightarrow> RefreshDecoding m | Inr r \<Rightarrow> Refreshed r))"

definition public_key_of :: "js \<Rightarrow> string" where
  "public_key_of params = (case js_get params ''publicKey'' of JsStr s \<Rightarrow> s | _ \<Rightarrow> [])"

definition refreshSessionKeyTtl ::
  "('inv, 's) refresh_env \<Rightarrow> int \<Rightarrow> int \<Rightarrow> policy_choice \<Rightarrow> bool \<Rightarrow> retry_given \<Rightarrow> jitter_choice \<Rightarrow> js \<Rightarrow> refresh_end" where
  "refreshSessionKeyTtl env nowMs timeoutMs retry retryJitter retryOptions jitter params =
     (case validateRefreshSessionKeyTtlParams nowMs params of
        Some e \<Rightarrow> RefreshError e
      | None \<Rightarrow> (case re_build env (js_get params ''publicKey'') of
            Inl e \<Rightarrow> RefreshError (normalizeRefreshSessionKeyTtlError (public_key_of params) e)
          | Inr _ \<Rightarrow>
              (let out = (\<lambda>n. simulateInvocation timeoutMs (re_attempt env n)) in
                 if retry \<in> {NoPolicy, PolicyName []} then
                   read_refresh env (public_key_of params) (fst (withRetry retryOptions jitter (re_random env) core_isTransient out))
                 else (case withNetworkRetry retry retryJitter (re_random env) policy_isTransient out of
                     Inl e \<Rightarrow> RefreshPreset e
                   | Inr (r, _) \<Rightarrow> read_refresh env (public_key_of params) r))))"

section \<open>Executing with a session key\<close>

definition mapExecuteWithSessionKeyError :: "thrown_by \<Rightarrow> sdk_error" where
  "mapExecuteWithSessionKeyError e = (case e of
       SdkThrown s \<Rightarrow> s
     | LayerThrown (AccountError a) \<Rightarrow> SessionKeyExecutionError
         (case ae_class a of
            CallerUnauthorized \<Rightarrow> ''SESSION_KEY_EXECUTION_UNAUTHORIZED''
          | InvalidNonce \<Rightarrow> ''SESSION_KEY_EXECUTION_INVALID_NONCE''
          | NotInitialized \<Rightarrow> ''SESSION_KEY_EXECUTION_NOT_INITIALIZED''
          | _ \<Rightarrow> ''SESSION_KEY_EXECUTION_CONTRACT'') (ae_message a)
     | LayerThrown (OtherError _ m _) \<Rightarrow> SessionKeyExecutionError ''SESSION_KEY_EXECUTION_FAILED'' m
     | LayerThrown (NotAnError _) \<Rightarrow>
         SessionKeyExecutionError ''SESSION_KEY_EXECUTION_FAILED'' ''Session key execution failed with an unknown error.'')"

record execution_params =
  ep_target :: string
  ep_function :: string
  ep_args :: js
  ep_expectedNonce :: number
  ep_publicKey :: "js option"
  ep_has_signer_function :: bool

text \<open>The signer itself is missing when \<open>ep_publicKey\<close> is absent.\<close>

definition validateExecuteWithSessionKeyParams ::
  "(string \<Rightarrow> bool) \<Rightarrow> (string \<Rightarrow> bool) \<Rightarrow> (js \<Rightarrow> string) \<Rightarrow> execution_params \<Rightarrow> sdk_error option" where
  "validateExecuteWithSessionKeyParams is_address isValidEd25519PublicKey shown p =
     (if \<not> is_address (ep_target p) then
        Some (SessionKeyExecutionValidationError ''target must be a valid Stellar address in G... or C... format.'')
      else if js_trim (ep_function p) = [] then Some (SessionKeyExecutionValidationError ''function is required.'')
      else if js_items (ep_args p) = None then
        Some (SessionKeyExecutionValidationError ''args must be an array of ScVal values.'')
      else if \<not> num_is_integer (ep_expectedNonce p) \<or> num_less (ep_expectedNonce p) (whole 0) then
        Some (SessionKeyExecutionValidationError ''expectedNonce must be a non-negative integer.'')
      else (case ep_publicKey p of
          None \<Rightarrow> Some (SessionKeyExecutionValidationError ''signer.publicKey must be a valid Stellar Ed25519 public key.'')
        | Some k \<Rightarrow> (case assertValidEd25519PublicKey isValidEd25519PublicKey shown k of
              Some e \<Rightarrow> Some (SessionKeyExecutionValidationError (se_message e))
            | None \<Rightarrow>
                if \<not> ep_has_signer_function p then
                  Some (SessionKeyExecutionValidationError ''signer.signAuthEntryXdr must be a function.'')
                else None)))"

definition executeWithSessionKey ::
  "(string \<Rightarrow> bool) \<Rightarrow> (string \<Rightarrow> bool) \<Rightarrow> (js \<Rightarrow> string) \<Rightarrow> (execution_params \<Rightarrow> thrown_by + 'inv)
     \<Rightarrow> (execution_params \<Rightarrow> 'inv \<Rightarrow> thrown_by + 'r) \<Rightarrow> execution_params \<Rightarrow> sdk_error + 'r" where
  "executeWithSessionKey is_address isValidEd25519PublicKey shown build layer p =
     (case validateExecuteWithSessionKeyParams is_address isValidEd25519PublicKey shown p of
        Some e \<Rightarrow> Inl e
      | None \<Rightarrow> (case build p of
            Inl e \<Rightarrow> Inl (mapExecuteWithSessionKeyError e)
          | Inr i \<Rightarrow> (case layer p i of Inl e \<Rightarrow> Inl (mapExecuteWithSessionKeyError e) | Inr r \<Rightarrow> Inr r)))"

section \<open>Labels\<close>

definition permissionToLabel :: "(number \<Rightarrow> string) \<Rightarrow> number \<Rightarrow> string" where
  "permissionToLabel shown_number p =
     (if p = whole 0 then ''Send Payment'' else if p = whole 1 then ''Manage Data''
      else if p = whole 2 then ''Invoke Contract'' else ''Unknown Permission ('' @ shown_number p @ '')'')"

definition formatPermissions :: "(number \<Rightarrow> string) \<Rightarrow> number list \<Rightarrow> string" where
  "formatPermissions shown_number ps = joined_with '', '' (map (permissionToLabel shown_number) ps)"

section \<open>Lemmas\<close>

text \<open>For a finite expiry exactly one of the three holds: active, expired, revoked.\<close>

lemma inactive_reason:
  "num_is_finite t \<Longrightarrow> getSessionKeyInactiveReason nowMs t = None \<longleftrightarrow> isSessionKeyActive nowMs t"
  by (cases t; cases "f64 (of_int nowMs / 1000)")
    (auto simp: getSessionKeyInactiveReason_def isSessionKeyActive_def num_leq_def f64_def Let_def split: if_splits)

lemma first_attempt_answers:
  assumes "out 0 = Inr v"
  shows "fst (withRetry no_options jitter rnd retryable out) = Returned v"
  using assms by (subst withRetry_def, subst core_retry.simps)
    (simp add: fill_options_def no_options_def DEFAULT_RETRY_OPTIONS_def Let_def)

lemma includes_too_long: "length s < length p \<Longrightarrow> \<not> js_includes p s"
proof
  assume "length s < length p" "js_includes p s"
  then obtain a b where "s = a @ p @ b" by (auto simp: js_includes_iff)
  then have "length p \<le> length s" by simp
  with \<open>length s < length p\<close> show False by simp
qed

text \<open>What the account package throws for a text that is no key.\<close>

definition bad_key_error :: "string \<Rightarrow> caught" where
  "bad_key_error k = OtherError ''StrKeyValidationError''
     (''Invalid Ed25519 public key: expected G... format, got '' @ take 8 k @ ''...'') (Some ''INVALID_G_KEY'')"

lemma no_long_pattern:
  assumes "length t \<le> 11" "p \<in> {''invalid stellar public key'', ''invalid u32 value'', ''invalid u64 value'', ''permissions must''}"
  shows "\<not> js_includes p (''invalid ed25519 public key: expected g... format, got '' @ t)"
proof -
  have "\<not> js_includes p t" using assms by (intro includes_too_long) auto
  with assms(2) show ?thesis by (auto simp: js_starts_with_def)
qed

section \<open>Properties\<close>

text \<open>
  The parameters of a refresh pass exactly when they name a key and a finite expiry at which the key is
  active; an inactive key is refused as expired or as revoked, the last of the three refusals never happens.
\<close>

theorem refresh_needs_active_key:
  "validateRefreshSessionKeyTtlParams nowMs params =
     (if is_object params \<and> \<not> text_field_missing params ''publicKey'' \<and> finite_field params ''expiresAt'' then
        (case js_get params ''expiresAt'' of JsNum t \<Rightarrow>
           if isSessionKeyActive nowMs t then None
           else if t = whole 0 then
             Some (BuilderValidationError ''refreshSessionKeyTtl cannot refresh a revoked session key (expiresAt === 0).'')
           else Some (SessionKeyManagementError ''Session key has expired and cannot have its storage TTL refreshed.'' ''SESSION_KEY_EXPIRED'')
         | _ \<Rightarrow> None)
      else Some (BuilderValidationError
        (if \<not> is_object params then ''refreshSessionKeyTtl requires a parameter object with publicKey and expiresAt.''
         else if text_field_missing params ''publicKey'' then ''refreshSessionKeyTtl requires a non-empty publicKey string.''
         else ''refreshSessionKeyTtl requires expiresAt to be a finite number.'')))"
proof (cases "js_get params ''expiresAt''")
  case (JsNum t)
  have "num_is_finite t \<Longrightarrow> \<not> isSessionKeyActive nowMs t \<Longrightarrow>
      getSessionKeyInactiveReason nowMs t = Some (if t = whole 0 then KeyRevoked else KeyExpired)"
    using inactive_reason [of t nowMs] by (auto simp: getSessionKeyInactiveReason_def split: if_splits)
  with JsNum show ?thesis by (simp add: validateRefreshSessionKeyTtlParams_def finite_field_def)
qed (simp_all add: validateRefreshSessionKeyTtlParams_def finite_field_def)

text \<open>
  C30. A refresh whose simulation fails with the contract's error number n ends with the code of that error,
  whatever surrounds the number in the text of the failure.
\<close>

theorem refresh_reports_contract_error:
  assumes "validateRefreshSessionKeyTtlParams nowMs params = None" and "re_build env (js_get params ''publicKey'') = Inr built"
    and "re_attempt env 0 = AttemptAnswered (SimulationError (pre @ ''Error(Contract, #'' @ show_nat n @ '')'' @ post))"
    and "\<not> js_includes ''Error(Contract,'' pre" and "CONTRACT_ERROR_CODES n = Some c"
  shows "refreshSessionKeyTtl env nowMs timeoutMs NoPolicy retryJitter no_options jitter params =
    RefreshError (SessionKeyManagementError (default_message c) (class_code c))"
proof -
  let ?m = "pre @ ''Error(Contract, #'' @ show_nat n @ '')'' @ post"
  have "contract_code ?m = Some n"
    using contract_code_rendered [of pre n post] assms(4) by (simp add: contract_prefix_def)
  with assms(5) have mapped: "mapContractError ?m key = fresh_error c" for key by (simp add: mapContractError_def)
  have "c \<noteq> ContractInvocation" using code_table [OF assms(5)] by auto
  with mapped have "mapRefreshSimulationError key ?m = SessionKeyManagementError (default_message c) (class_code c)" for key
    by (simp add: mapRefreshSimulationError_def fresh_error_def del: append_assoc)
  moreover have "simulateInvocation timeoutMs (re_attempt env 0) = Inr (SimulationError ?m)"
    using assms(3) by (simp add: simulateInvocation_def)
  ultimately show ?thesis
    using first_attempt_answers [where out = "\<lambda>k. simulateInvocation timeoutMs (re_attempt env k)" and v = "SimulationError ?m"]
      assms(1,2) by (simp add: refreshSessionKeyTtl_def read_refresh_def)
qed

definition expiring_params :: js where
  "expiring_params = JsObj [(''publicKey'', JsStr ''GKEY''), (''expiresAt'', JsNum (whole 2000))]"

definition refusing_env :: "(unit, unit) refresh_env" where
  "refusing_env = \<lparr>re_build = \<lambda>_. Inr (),
     re_attempt = \<lambda>_. AttemptAnswered (SimulationError (''HostError: '' @ ''Error(Contract, #'' @ show_nat 6 @ '')'' @ [])),
     re_toKey = \<lambda>_. Inl [], re_toU64 = \<lambda>_. Inl [], re_random = \<lambda>_. 0\<rparr>"

theorem refresh_reports_contract_error_witness:
  "refreshSessionKeyTtl refusing_env 0 15000 NoPolicy False no_options JitterOn expiring_params =
     RefreshError (SessionKeyManagementError (default_message SessionKeyHasExpired) (class_code SessionKeyHasExpired))"
proof (rule refresh_reports_contract_error [where built = "()" and pre = "''HostError: ''" and n = 6 and post = "[]"])
  show "validateRefreshSessionKeyTtlParams 0 expiring_params = None"
    by (simp add: validateRefreshSessionKeyTtlParams_def expiring_params_def js_get_def text_field_missing_def js_trim_def
        is_js_space_def char_code_def isSessionKeyActive_def whole_def f64_def Let_def pow2_def)
  show "\<not> js_includes ''Error(Contract,'' ''HostError: ''" by code_simp
  show "CONTRACT_ERROR_CODES 6 = Some SessionKeyHasExpired" by (simp add: CONTRACT_ERROR_CODES_def)
qed (simp_all add: refusing_env_def)

text \<open>
  A text that is no Stellar key is refused by the builder with the same error in both operations, but
  only a refresh reports it as a mistake of the caller: adding a key reports a failed operation.
\<close>

theorem bad_key_reported_differently:
  "se_code (normalizeAddSessionKeyError (LayerThrown (bad_key_error k))) = ''SESSION_KEY_ADD_FAILED''
   \<and> se_code (normalizeRefreshSessionKeyTtlError k (LayerThrown (bad_key_error k))) = ''BUILDER_VALIDATION''"
proof -
  let ?m = "''Invalid Ed25519 public key: expected G... format, got '' @ take 8 k @ ''...''"
  have low: "js_lower ?m = ''invalid ed25519 public key: expected g... format, got '' @ js_lower (take 8 k @ ''...'')"
  proof -
    have "js_lower ''Invalid Ed25519 public key: expected G... format, got '' = ''invalid ed25519 public key: expected g... format, got ''"
      by code_simp
    then show ?thesis by (simp only: js_lower_def map_append)
  qed
  have short: "length (js_lower (take 8 k @ ''...'')) \<le> 11" by (simp add: js_lower_def)
  have "\<not> matches [''invalid stellar public key'', ''invalid u32 value'', ''invalid u64 value'', ''permissions must''] ?m"
    unfolding matches_def low using no_long_pattern [OF short] by simp
  moreover have "matches [''invalid stellar public key'', ''invalid ed25519 public key''] ?m"
    unfolding matches_def low by (simp add: js_starts_with_def)
  ultimately show ?thesis
    by (simp add: normalizeAddSessionKeyError_def normalizeRefreshSessionKeyTtlError_def bad_key_error_def
        SessionKeyManagementError_def BuilderValidationError_def)
qed

definition execution_codes :: "string set" where
  "execution_codes = {''SESSION_KEY_EXECUTION_VALIDATION'', ''SESSION_KEY_EXECUTION_UNAUTHORIZED'',
     ''SESSION_KEY_EXECUTION_INVALID_NONCE'', ''SESSION_KEY_EXECUTION_NOT_INITIALIZED'', ''SESSION_KEY_EXECUTION_CONTRACT'',
     ''SESSION_KEY_EXECUTION_FAILED''}"

lemma validation_code:
  "validateExecuteWithSessionKeyParams is_address valid shown p = Some e \<Longrightarrow> se_code e = ''SESSION_KEY_EXECUTION_VALIDATION''"
  by (auto simp: validateExecuteWithSessionKeyParams_def SessionKeyExecutionValidationError_def split: if_splits option.splits)

lemma mapped_code:
  "mapExecuteWithSessionKeyError t = e \<Longrightarrow> se_code e \<in> execution_codes \<or> t = SdkThrown e"
  by (cases t) (auto simp: mapExecuteWithSessionKeyError_def execution_codes_def SessionKeyExecutionError_def
      split: caught.split account_class.split)

lemma sound_parameters:
  "validateExecuteWithSessionKeyParams is_address valid shown p = None \<Longrightarrow>
     is_address (ep_target p) \<and> num_is_integer (ep_expectedNonce p) \<and> \<not> num_less (ep_expectedNonce p) (whole 0)
     \<and> (\<exists>k. ep_publicKey p = Some (JsStr k) \<and> valid k)"
  by (auto simp: validateExecuteWithSessionKeyParams_def assertValidEd25519PublicKey_def split: if_splits option.splits js.splits)

text \<open>
  An execution with a session key returns a result only when its parameters are sound, and every
  error it ends with carries one of the codes of session key execution, or is an SDK error of the layer.
\<close>

theorem execution_outcome:
  "(case executeWithSessionKey is_address valid shown build layer p of
      Inr r \<Rightarrow> is_address (ep_target p) \<and> num_is_integer (ep_expectedNonce p) \<and> \<not> num_less (ep_expectedNonce p) (whole 0)
        \<and> (\<exists>k. ep_publicKey p = Some (JsStr k) \<and> valid k)
    | Inl e \<Rightarrow> se_code e \<in> execution_codes \<or> build p = Inl (SdkThrown e) \<or> (\<exists>i. layer p i = Inl (SdkThrown e)))"
proof (cases "validateExecuteWithSessionKeyParams is_address valid shown p")
  case None
  show ?thesis
    using sound_parameters [OF None]
    by (auto simp: executeWithSessionKey_def None split: sum.split) (metis mapped_code)+
next
  case (Some e)
  then show ?thesis using validation_code [OF Some] by (simp add: executeWithSessionKey_def execution_codes_def)
qed

end
