(* ===== verification/AccountClient.thy ===== *)
theory AccountClient
  imports SessionPolicy JsDecimal ContractErrors
begin

text \<open>
  The network client of the account package, \<open>packages/account-abstraction/src/client.ts\<close>: which failures
  it retries, its retry loop, and the question whether an account is deployed; with the remaining time
  of a session key from \<open>session-keys.ts\<close>. A rejection is looked at through its properties, whether it is
  an \<open>Error\<close> is told apart; \<open>shown\<close> is \<open>String(value)\<close>. The server is the outcome of its n-th call.
\<close>

section \<open>Which failures are transient\<close>

record rpc_rejection =
  rj_is_error :: bool
  rj_value :: js

definition TRANSIENT_ERROR_CODES :: "string list" where
  "TRANSIENT_ERROR_CODES = [''TIMEOUT'', ''ETIMEDOUT'', ''ESOCKETTIMEDOUT'', ''ECONNRESET'', ''ECONNREFUSED'',
     ''ENOTFOUND'', ''ENETUNREACH'', ''EAI_AGAIN'', ''NETWORK_ERROR'']"

definition TRANSIENT_PATTERNS :: "string \<Rightarrow> bool" where
  "TRANSIENT_PATTERNS m = (let low = js_lower m in
     list_ex (\<lambda>w. js_includes w low) [''timeout'', ''econnreset'', ''econnrefused'', ''enotfound'', ''enetunreach'',
        ''failed to fetch'', ''socket hung up'', ''service unavailable'', ''gateway timeout'', ''bad gateway'']
     \<or> find_after (spaces_then ''out'') ''timed'' low \<or> find_after network_failed ''network'' low \<or> status_word True m)"

text \<open>A property that is a number.\<close>

definition number_field :: "js \<Rightarrow> string \<Rightarrow> number option" where
  "number_field v k = (case js_get v k of JsNum n \<Rightarrow> Some n | _ \<Rightarrow> None)"

definition error_status :: "js \<Rightarrow> number option" where
  "error_status v = first_some [number_field v ''status'', number_field v ''statusCode'',
     number_field (js_get v ''response'') ''status'', number_field (js_get v ''response'') ''statusCode'']"

definition rejection_text :: "(js \<Rightarrow> string) \<Rightarrow> rpc_rejection \<Rightarrow> string" where
  "rejection_text shown r = (if rj_is_error r then
       (case (js_get (rj_value r) ''name'', js_get (rj_value r) ''message'') of
          (JsStr n, JsStr m) \<Rightarrow> n @ '': '' @ m | _ \<Rightarrow> shown (rj_value r))
     else case rj_value r of JsStr s \<Rightarrow> s | v \<Rightarrow> shown v)"

definition isTransientError :: "(js \<Rightarrow> string) \<Rightarrow> rpc_rejection \<Rightarrow> bool" where
  "isTransientError shown r = (let v = rj_value r in
     if \<not> js_truthy v then False
     else if is_object v \<and> (case error_status v of None \<Rightarrow> False
         | Some s \<Rightarrow> between 500 600 s \<or> s = whole 429 \<or> s = whole 408) then True
     else if is_object v \<and> (case js_get v ''code'' of JsStr c \<Rightarrow> has_code TRANSIENT_ERROR_CODES c | _ \<Rightarrow> False) then True
     else TRANSIENT_PATTERNS (rejection_text shown r))"

text \<open>\<open>/not\s*found|absent|entry\s*not\s*found/i\<close>; the third alternative adds nothing to the first.\<close>

definition absent_pattern :: "string \<Rightarrow> bool" where
  "absent_pattern m = (let low = js_lower m in
     find_after (spaces_then ''found'') ''not'' low \<or> js_includes ''absent'' low)"

definition isNotFoundError :: "js \<Rightarrow> bool" where
  "isNotFoundError v =
     (if \<not> js_truthy v then False
      else if is_object v then
        (if js_get v ''status'' = JsNum (whole 404) \<or> js_get v ''statusCode'' = JsNum (whole 404)
            \<or> js_get (js_get v ''response'') ''status'' = JsNum (whole 404)
            \<or> js_get (js_get v ''response'') ''statusCode'' = JsNum (whole 404) then True
         else case js_get v ''message'' of JsStr m \<Rightarrow> absent_pattern m | _ \<Rightarrow> False)
      else case v of JsStr s \<Rightarrow> absent_pattern s | _ \<Rightarrow> False)"

section \<open>The retry loop\<close>

definition calculateBackoff :: "jitter_choice \<Rightarrow> rat \<Rightarrow> nat \<Rightarrow> int \<Rightarrow> bool \<Rightarrow> int \<Rightarrow> number" where
  "calculateBackoff jitter rnd attempt base ex cap =
     (let delay = (if ex then min (base * 2 ^ attempt) cap else min base cap);
          jittered = (case jitter_factor jitter of
             None \<Rightarrow> whole delay
           | Some factor \<Rightarrow>
               num_mul (whole delay) (num_add (Fin 1) (num_mul (num_add (f64 (rnd * 2)) (Fin (-1))) (Fin factor))))
      in num_max (whole 0) (num_min (math_round jittered) (whole cap)))"

definition CLIENT_RETRY_DEFAULTS :: retry_options where
  "CLIENT_RETRY_DEFAULTS = \<lparr>ro_maxRetries = 3, ro_baseDelayMs = 500, ro_maxDelayMs = 10000, ro_exponential = True\<rparr>"

function client_retry ::
  "retry_options \<Rightarrow> ('e \<Rightarrow> bool) \<Rightarrow> (nat \<Rightarrow> number) \<Rightarrow> (nat \<Rightarrow> 'e + 'a) \<Rightarrow> int \<Rightarrow> 'e option
     \<Rightarrow> ('e, 'a) retry_end \<times> number list" where
  "client_retry opts retryable delay out attempt lastError =
     (if attempt \<le> ro_maxRetries opts
      then case out (nat attempt) of
        Inr v \<Rightarrow> (Returned v, [])
      | Inl e \<Rightarrow>
          if attempt \<ge> ro_maxRetries opts then (Threw e, [])
          else if \<not> retryable e then (Threw e, [])
          else (case client_retry opts retryable delay out (attempt + 1) (Some e) of
                  (r, ds) \<Rightarrow> (r, delay (nat attempt) # ds))
      else (case lastError of None \<Rightarrow> ThrewUndefined | Some e \<Rightarrow> Threw e, []))"
  by pat_completeness auto
termination by (relation "measure (\<lambda>(opts, retryable, delay, out, attempt, lastError). nat (ro_maxRetries opts + 1 - attempt))") auto

declare client_retry.simps [simp del]

text \<open>The client's own options come first, those of the call override them.\<close>

definition client_withRetry ::
  "retry_given \<Rightarrow> retry_given \<Rightarrow> jitter_choice \<Rightarrow> (nat \<Rightarrow> rat) \<Rightarrow> ('e \<Rightarrow> bool) \<Rightarrow> (nat \<Rightarrow> 'e + 'a)
     \<Rightarrow> ('e, 'a) retry_end \<times> number list" where
  "client_withRetry own override jitter rnd retryable out =
     (let opts = fill_options (fill_options CLIENT_RETRY_DEFAULTS own) override in
      client_retry opts retryable
        (\<lambda>n. calculateBackoff jitter (rnd n) n (ro_baseDelayMs opts) (ro_exponential opts) (ro_maxDelayMs opts)) out 0 None)"

section \<open>Whether an account is deployed\<close>

text \<open>The lookup the server offers, the first of three that is a function; it may offer none.\<close>

datatype lookup = ByContractData | ByLedgerEntries | ByAccount | NoLookup

definition instance_present :: "lookup \<Rightarrow> js \<Rightarrow> bool" where
  "instance_present l res = (case l of
       ByLedgerEntries \<Rightarrow>
         if \<not> js_truthy res then False
         else (case js_get res ''entries'' of
             JsArr es \<Rightarrow> es \<noteq> []
           | JsUndefined \<Rightarrow> False | JsNull \<Rightarrow> False
           | v \<Rightarrow> js_truthy v)
     | NoLookup \<Rightarrow> False
     | _ \<Rightarrow> res \<notin> {JsNull, JsUndefined})"

definition deployment_attempt :: "lookup \<Rightarrow> rpc_rejection + js \<Rightarrow> rpc_rejection + bool" where
  "deployment_attempt l answer =
     (if l = NoLookup then Inr False
      else case answer of
        Inr res \<Rightarrow> Inr (instance_present l res)
      | Inl r \<Rightarrow> if isNotFoundError (rj_value r) then Inr False else Inl r)"

datatype deployment = Deployed bool | NoContractId | CheckFailed account_error | CheckRejected rpc_rejection | NoAttempt

definition error_message_of :: "(js \<Rightarrow> string) \<Rightarrow> rpc_rejection \<Rightarrow> string" where
  "error_message_of shown r = (if rj_is_error r then
       case js_get (rj_value r) ''message'' of JsStr m \<Rightarrow> m | _ \<Rightarrow> shown (rj_value r)
     else case rj_value r of JsStr s \<Rightarrow> s | v \<Rightarrow> shown v)"

definition deployment_end :: "(js \<Rightarrow> string) \<Rightarrow> (rpc_rejection, bool) retry_end \<Rightarrow> deployment" where
  "deployment_end shown e = (case e of
       Returned b \<Rightarrow> Deployed b
     | Threw r \<Rightarrow>
         if isNotFoundError (rj_value r) then Deployed False
         else (let m = error_message_of shown r in
           if isTransientError shown r \<or> js_includes ''timeout'' (js_lower m)
              \<or> (is_object (rj_value r) \<and> js_get (rj_value r) ''name'' = JsStr ''NetworkError'')
           then CheckFailed (account_err AccountNetworkError (''Network timeout or failure while checking account deployment: '' @ m))
           else CheckRejected r)
     | ThrewUndefined \<Rightarrow> NoAttempt)"

text \<open>
  The filter of the call comes first, then the client's own, then \<open>isTransientError\<close>: \<open>isRetryable\<close> is an option
  of either. The jitter is the one option of the two that applies.
\<close>

type_synonym retry_filter = "(rpc_rejection \<Rightarrow> bool) option"

definition client_filter :: "(js \<Rightarrow> string) \<Rightarrow> retry_filter \<Rightarrow> retry_filter \<Rightarrow> rpc_rejection \<Rightarrow> bool" where
  "client_filter shown ownFilter overrideFilter =
     (case overrideFilter of Some p \<Rightarrow> p | None \<Rightarrow> (case ownFilter of Some p \<Rightarrow> p | None \<Rightarrow> isTransientError shown))"

definition isAccountDeployed ::
  "(js \<Rightarrow> string) \<Rightarrow> retry_given \<Rightarrow> retry_filter \<Rightarrow> retry_given \<Rightarrow> retry_filter \<Rightarrow> jitter_choice \<Rightarrow> (nat \<Rightarrow> rat) \<Rightarrow> lookup
     \<Rightarrow> (nat \<Rightarrow> rpc_rejection + js) \<Rightarrow> string \<Rightarrow> deployment \<times> number list" where
  "isAccountDeployed shown own ownFilter override overrideFilter jitter rnd l answers contractId =
     (if contractId = [] then (NoContractId, [])
      else (case client_withRetry own override jitter rnd (client_filter shown ownFilter overrideFilter) (\<lambda>n. deployment_attempt l (answers n)) of
              (e, sleeps) \<Rightarrow> (deployment_end shown e, sleeps)))"

section \<open>Remaining time of a session key\<close>

definition getSessionKeyRemainingTimeMs :: "int \<Rightarrow> number \<Rightarrow> number" where
  "getSessionKeyRemainingTimeMs nowMs expiresAt =
     (if \<not> num_is_finite expiresAt then whole 0
      else (let size = (if num_less expiresAt (whole 0) then num_neg expiresAt else expiresAt);
                expiresAtMs = (if num_leq (whole (10 ^ 12)) size then expiresAt else num_mul expiresAt (whole 1000))
            in num_max (whole 0) (num_sub expiresAtMs (whole nowMs))))"

section \<open>Lemmas\<close>

lemma client_loop_core:
  "client_retry opts retryable delay out attempt lastError = core_retry opts retryable delay out attempt lastError"
proof (induction opts retryable delay out attempt lastError rule: client_retry.induct)
  case (1 opts retryable delay out attempt lastError)
  show ?case
    by (subst client_retry.simps, subst core_retry.simps) (auto simp: 1 split: sum.split)
qed

lemma backoff_core: "calculateBackoff = calculateBackoffDelay"
  by (intro ext) (simp only: calculateBackoff_def calculateBackoffDelay_def)

text \<open>How the loop ends when it makes an attempt at all: with the first that it does not repeat.\<close>

lemma client_ends:
  assumes "ro_maxRetries (fill_options (fill_options CLIENT_RETRY_DEFAULTS own) override) = int m"
  shows "\<exists>k \<le> m. (k = m \<or> gives_up retryable (out k)) \<and> (\<forall>j < k. \<not> gives_up retryable (out j))
    \<and> fst (client_withRetry own override jitter rnd retryable out) = ends_with (out k)
    \<and> length (snd (client_withRetry own override jitter rnd retryable out)) = k"
proof -
  let ?o = "fill_options (fill_options CLIENT_RETRY_DEFAULTS own) override"
  have o: "?o\<lparr>ro_maxRetries := int m\<rparr> = ?o" using assms by (cases ?o) simp
  show ?thesis
    using core.first_stop [of m retryable out ?o
        "\<lambda>n. calculateBackoff jitter (rnd n) n (ro_baseDelayMs ?o) (ro_exponential ?o) (ro_maxDelayMs ?o)"]
    unfolding o client_withRetry_def Let_def client_loop_core by auto
qed

lemma transient_not_finished: "Inl r = deployment_attempt l a \<Longrightarrow> \<not> isNotFoundError (rj_value r)"
  by (auto simp: deployment_attempt_def split: if_splits sum.splits)

lemma num_mul_whole: "\<bar>a * b\<bar> < 2 ^ 53 \<Longrightarrow> num_mul (whole a) (whole b) = whole (a * b)"
  using f64_int [of "a * b"] by (simp add: whole_def)

lemma num_sub_whole: "\<bar>a - b\<bar> < 2 ^ 53 \<Longrightarrow> num_sub (whole a) (whole b) = whole (a - b)"
  using num_add_safe_int [of a "- b"] by (simp add: num_sub_def whole_def)

lemma max_zero: "num_max (whole 0) (whole k) = whole (max 0 k)"
  by (auto simp: num_max_def whole_def)

text \<open>Milliseconds as seconds, compared with a whole number of them: the rounding does not matter.\<close>

lemma seconds_compare:
  assumes "0 \<le> now" "now < 10 ^ 15" "0 < e" "e < 10 ^ 12"
  shows "num_less (f64 (of_int now / 1000)) (whole e) \<longleftrightarrow> now < 1000 * e"
proof (cases "now < 1000 * e")
  case True
  let ?x = "of_int now / 1000 :: rat"
  have le: "?x \<le> of_int e - 1 / 1000"
  proof -
    have "(of_int now :: rat) \<le> of_int (1000 * e - 1)" using True by (simp only: of_int_le_iff)
    then show ?thesis by (simp add: field_simps)
  qed
  have norm: "normal_mag ?x"
  proof (cases "now = 0")
    case False
    have "pow2 (- 1022) \<le> pow2 (- 10)" by (intro pow2_mono) simp
    also have "\<dots> \<le> 1 / 1000" by (simp add: pow2_def)
    also have "\<dots> \<le> ?x" using False assms(1) by simp
    finally show ?thesis by (simp add: normal_mag_def)
  qed (simp add: normal_mag_def)
  have e: "(of_int e :: rat) \<le> of_int (10 ^ 12)" using assms(4) by (simp only: of_int_le_iff)
  obtain y where y: "f64 ?x = Fin y" "\<bar>y - ?x\<bar> \<le> ?x / 2 ^ 53"
    using f64_near [OF norm, of e] le assms(4) by auto
  have "?x / 2 ^ 53 \<le> 10 ^ 12 / 2 ^ 53" using le e by (intro divide_right_mono) simp_all
  also have "\<dots> < (1 / 1000 :: rat)" by simp
  finally have "y < of_int e" using y(2) le by linarith
  with True y(1) show ?thesis by (simp add: whole_def)
next
  case False
  let ?x = "of_int now / 1000 :: rat"
  have "(of_int (1000 * e) :: rat) \<le> of_int now" using False by (simp only: of_int_le_iff)
  then have ge: "of_int e \<le> ?x" by (simp add: field_simps)
  have e: "0 \<le> (of_int e :: rat)" using assms(3) by simp
  have mono: "round_mag (of_int e) \<le> round_mag ?x" using ge e by (rule round_mag_mono [rotated])
  have same: "round_mag (of_int e) = of_int e" using assms(3,4) by (intro round_mag_int) simp_all
  have "f64 ?x = PosInf \<or> f64 ?x = Fin (round_mag ?x)" using assms(1) by (simp add: f64_def Let_def)
  with mono same False show ?thesis by (auto simp: whole_def)
qed

section \<open>Properties\<close>

text \<open>
  C25. A check of the deployment makes at most one attempt more than the retries allowed and repeats exactly the
  failures its filter lets through, which are the transient ones unless the call or the client brings a filter
  of its own. It answers that the account is deployed exactly if the server's last answer says so.
\<close>

theorem deployment_from_answer:
  assumes "contractId \<noteq> []" "ro_maxRetries (fill_options (fill_options CLIENT_RETRY_DEFAULTS own) override) = int m"
  shows "\<exists>k. k \<le> m \<and> length (snd (isAccountDeployed shown own ownf override ovf jitter rnd l answers contractId)) = k
    \<and> list_all (\<lambda>j. case deployment_attempt l (answers j) of Inl r \<Rightarrow> client_filter shown ownf ovf r | Inr _ \<Rightarrow> False) [0..<k]
    \<and> (k = m \<or> (case deployment_attempt l (answers k) of Inl r \<Rightarrow> \<not> client_filter shown ownf ovf r | Inr _ \<Rightarrow> True))
    \<and> (fst (isAccountDeployed shown own ownf override ovf jitter rnd l answers contractId) = Deployed True
       \<longleftrightarrow> l \<noteq> NoLookup \<and> (\<exists>res. answers k = Inr res \<and> instance_present l res))"
proof -
  let ?out = "\<lambda>n. deployment_attempt l (answers n)" and ?p = "client_filter shown ownf ovf"
  obtain k where k: "k \<le> m" "k = m \<or> gives_up ?p (?out k)" "\<forall>j < k. \<not> gives_up ?p (?out j)"
    "fst (client_withRetry own override jitter rnd ?p ?out) = ends_with (?out k)"
    "length (snd (client_withRetry own override jitter rnd ?p ?out)) = k"
    using client_ends [OF assms(2), of ?p ?out jitter rnd] by blast
  have "list_all (\<lambda>j. case ?out j of Inl r \<Rightarrow> ?p r | Inr _ \<Rightarrow> False) [0..<k]"
    using k(3) by (auto simp: list_all_iff gives_up_def split: sum.splits)
  moreover have "fst (isAccountDeployed shown own ownf override ovf jitter rnd l answers contractId) = deployment_end shown (ends_with (?out k))"
    "length (snd (isAccountDeployed shown own ownf override ovf jitter rnd l answers contractId)) = k"
    using assms(1) k(4,5) by (simp_all add: isAccountDeployed_def case_prod_beta)
  moreover have "deployment_end shown (ends_with (?out k)) = Deployed True \<longleftrightarrow> ?out k = Inr True"
    by (cases "?out k") (simp_all add: deployment_end_def ends_with_def Let_def)
  moreover have "?out k = Inr True \<longleftrightarrow> l \<noteq> NoLookup \<and> (\<exists>res. answers k = Inr res \<and> instance_present l res)"
    by (auto simp: deployment_attempt_def split: sum.splits)
  moreover have "k = m \<or> (case ?out k of Inl r \<Rightarrow> \<not> ?p r | Inr _ \<Rightarrow> True)"
    using k(2) by (auto simp: gives_up_def split: sum.splits)
  ultimately show ?thesis using k(1) by auto
qed

definition dns_failure :: rpc_rejection where
  "dns_failure = \<lparr>rj_is_error = True, rj_value = JsObj [(''name'', JsStr ''Error''),
     (''message'', JsStr (''getaddrinfo '' @ ''ENOTFOUND'' @ '' rpc.example'')), (''code'', JsStr ''ENOTFOUND'')]\<rparr>"

definition second_answer :: "nat \<Rightarrow> rpc_rejection + js" where
  "second_answer n = (if n = 0 then Inl \<lparr>rj_is_error = False, rj_value = JsStr ''odd''\<rparr> else Inr (JsStr ''C''))"

lemma odd_rejection: "\<not> isNotFoundError (JsStr ''odd'')" "\<not> isTransientError (\<lambda>_. []) \<lparr>rj_is_error = False, rj_value = JsStr ''odd''\<rparr>"
  by code_simp+

theorem deployment_from_answer_witness:
  "(case isAccountDeployed (\<lambda>_. []) no_options None no_options (Some (\<lambda>_. True)) JitterOff (\<lambda>_. 0) ByAccount second_answer ''C'' of
      (result, sleeps) \<Rightarrow> result = Deployed True \<and> length sleeps = 1)"
proof -
  let ?p = "client_filter (\<lambda>_. []) None (Some (\<lambda>_. True))"
  have r: "ro_maxRetries (fill_options (fill_options CLIENT_RETRY_DEFAULTS no_options) no_options) = int 3"
    by (simp add: fill_options_def no_options_def CLIENT_RETRY_DEFAULTS_def)
  have first: "\<exists>x. deployment_attempt ByAccount (second_answer 0) = Inl x \<and> ?p x"
    using odd_rejection(1) by (simp add: deployment_attempt_def second_answer_def client_filter_def)
  have later: "deployment_attempt ByAccount (second_answer (Suc n)) = Inr True" for n
    by (simp add: deployment_attempt_def second_answer_def instance_present_def)
  from deployment_from_answer [OF _ r, of "''C''" "\<lambda>_. []" None "Some (\<lambda>_. True)" JitterOff "\<lambda>_. 0" ByAccount second_answer]
  obtain k where k: "k \<le> 3" "length (snd (isAccountDeployed (\<lambda>_. []) no_options None no_options (Some (\<lambda>_. True)) JitterOff (\<lambda>_. 0) ByAccount second_answer ''C'')) = k"
    "\<And>j. j < k \<Longrightarrow> case deployment_attempt ByAccount (second_answer j) of Inl r \<Rightarrow> ?p r | Inr _ \<Rightarrow> False"
    "k = 3 \<or> (case deployment_attempt ByAccount (second_answer k) of Inl r \<Rightarrow> \<not> ?p r | Inr _ \<Rightarrow> True)"
    "fst (isAccountDeployed (\<lambda>_. []) no_options None no_options (Some (\<lambda>_. True)) JitterOff (\<lambda>_. 0) ByAccount second_answer ''C'') = Deployed True
       \<longleftrightarrow> ByAccount \<noteq> NoLookup \<and> (\<exists>res. second_answer k = Inr res \<and> instance_present ByAccount res)"
    by (auto simp: list_all_iff)
  have "k \<noteq> 0"
  proof
    assume "k = 0"
    then show False using k(4) first by auto
  qed
  moreover have "\<not> 1 < k" using k(3) [of 1] later [of 0] by auto
  ultimately have "k = 1" by linarith
  then show ?thesis using k(2,5) by (simp add: second_answer_def instance_present_def case_prod_beta)
qed

text \<open>
  A host name that cannot be resolved is answered as "not deployed", at once and without a retry,
  although the client lists the same failure among those it retries.
\<close>

theorem dns_failure_reads_as_absent:
  assumes "contractId \<noteq> []" "l \<noteq> NoLookup" "0 \<le> ro_maxRetries (fill_options (fill_options CLIENT_RETRY_DEFAULTS own) override)"
    and "answers 0 = Inl \<lparr>rj_is_error = True, rj_value = JsObj [(''name'', JsStr name), (''message'', JsStr (pre @ ''ENOTFOUND'' @ post)),
           (''code'', JsStr ''ENOTFOUND'')]\<rparr>"
  shows "isAccountDeployed shown own ownf override ovf jitter rnd l answers contractId = (Deployed False, [])
    \<and> (case answers 0 of Inl r \<Rightarrow> isTransientError shown r | Inr _ \<Rightarrow> False)"
proof -
  let ?m = "pre @ ''ENOTFOUND'' @ post"
  have "js_lower ''ENOTFOUND'' = ''enotfound''" by code_simp
  then have low: "js_lower ?m = (js_lower pre @ ''e'') @ ''not'' @ (''found'' @ js_lower post)"
    by (simp add: js_lower_def)
  have "spaces_then ''found'' (''found'' @ js_lower post)"
    by (simp add: spaces_then_def is_js_space_def char_code_def js_starts_with_def)
  then have "absent_pattern ?m"
    unfolding absent_pattern_def Let_def low by (simp only: find_after_append simp_thms)
  then have "isNotFoundError (JsObj [(''name'', JsStr name), (''message'', JsStr ?m), (''code'', JsStr ''ENOTFOUND'')])"
    by (simp add: isNotFoundError_def js_get_def)
  then have "deployment_attempt l (answers 0) = Inr False"
    using assms(2,4) by (simp add: deployment_attempt_def)
  then have "client_withRetry own override jitter rnd (client_filter shown ownf ovf) (\<lambda>n. deployment_attempt l (answers n)) = (Returned False, [])"
    using assms(3) by (subst client_withRetry_def, subst client_retry.simps) (simp add: Let_def)
  moreover have "has_code TRANSIENT_ERROR_CODES ''ENOTFOUND''" by code_simp
  ultimately show ?thesis
    using assms(1,4) by (simp add: isAccountDeployed_def deployment_end_def isTransientError_def Let_def js_get_def)
qed

theorem dns_failure_reads_as_absent_witness:
  "isAccountDeployed (\<lambda>_. []) no_options None no_options None JitterOff (\<lambda>_. 0) ByContractData (\<lambda>_. Inl dns_failure) ''C'' = (Deployed False, [])
    \<and> isTransientError (\<lambda>_. []) dns_failure"
  using dns_failure_reads_as_absent [where contractId = "''C''" and l = ByContractData and own = no_options and override = no_options
      and answers = "\<lambda>_. Inl dns_failure" and name = "''Error''" and pre = "''getaddrinfo ''" and post = "'' rpc.example''"
      and shown = "\<lambda>_. []" and ownf = None and ovf = None and jitter = JitterOff and rnd = "\<lambda>_. 0"]
  by (simp add: dns_failure_def fill_options_def no_options_def CLIENT_RETRY_DEFAULTS_def)

text \<open>
  The client's retry loop and its delays are those of the core SDK: for all options, outcomes and
  random numbers both end alike after the same sleeps.
\<close>

theorem client_loop_equivalent:
  "client_withRetry own override jitter rnd retryable out =
     withRetry (all_given (fill_options (fill_options CLIENT_RETRY_DEFAULTS own) override)) jitter rnd retryable out"
  by (simp add: client_withRetry_def withRetry_def client_loop_core backoff_core Let_def)

text \<open>
  For an expiry in whole seconds the remaining time is what is left until it, to the millisecond, so
  that it is positive exactly while the key counts as active.
\<close>

theorem remaining_time_exact:
  assumes "0 \<le> now" "now < 10 ^ 15" "0 < e" "e < 10 ^ 12"
  shows "getSessionKeyRemainingTimeMs now (whole e) = whole (max 0 (1000 * e - now))
    \<and> (isSessionKeyActive now (whole e) \<longleftrightarrow> num_less (whole 0) (getSessionKeyRemainingTimeMs now (whole e)))"
proof -
  have "\<not> num_leq (whole (10 ^ 12)) (whole e)" "\<not> num_less (whole e) (whole 0)"
    using assms(3,4) by (simp_all add: whole_def num_leq_def)
  moreover have "num_mul (whole e) (whole 1000) = whole (1000 * e)"
    using num_mul_whole [of e 1000] assms(3,4) by (simp add: mult.commute)
  moreover have "num_sub (whole (1000 * e)) (whole now) = whole (1000 * e - now)"
    using assms by (intro num_sub_whole) simp
  ultimately have "getSessionKeyRemainingTimeMs now (whole e) = whole (max 0 (1000 * e - now))"
    unfolding getSessionKeyRemainingTimeMs_def by (simp add: max_zero Let_def whole_def [of e])
  moreover have "isSessionKeyActive now (whole e) \<longleftrightarrow> now < 1000 * e"
    using seconds_compare [OF assms] assms(3) by (simp add: isSessionKeyActive_def whole_def)
  ultimately show ?thesis by (simp add: whole_def max_def)
qed

theorem remaining_time_exact_witness:
  "getSessionKeyRemainingTimeMs 1500 (whole 2) = whole (max 0 (1000 * 2 - 1500))
    \<and> (isSessionKeyActive 1500 (whole 2) \<longleftrightarrow> num_less (whole 0) (getSessionKeyRemainingTimeMs 1500 (whole 2)))"
  by (rule remaining_time_exact) simp_all

text \<open>
  An expiry kept in milliseconds is understood by the remaining time but not by the activity check:
  once it has passed, no time remains and the key still counts as active.
\<close>

theorem expired_milliseconds_active:
  assumes "10 ^ 12 \<le> e" "e \<le> now" "now < 10 ^ 14"
  shows "getSessionKeyRemainingTimeMs now (whole e) = whole 0 \<and> isSessionKeyActive now (whole e)"
proof -
  have "num_leq (whole (10 ^ 12)) (whole e)" "\<not> num_less (whole e) (whole 0)"
    using assms(1) by (auto simp: whole_def num_leq_def order_le_less)
  moreover have "num_sub (whole e) (whole now) = whole (e - now)" using assms by (intro num_sub_whole) simp
  ultimately have rest: "getSessionKeyRemainingTimeMs now (whole e) = whole 0"
    unfolding getSessionKeyRemainingTimeMs_def using assms(2) by (simp add: max_zero Let_def whole_def [of e])
  have now: "(of_int now :: rat) \<le> of_int (10 ^ 14)" "0 \<le> (of_int now :: rat)" using assms by (simp_all only: of_int_le_iff) simp
  then have "\<bar>of_int now / 1000 :: rat\<bar> \<le> of_int (10 ^ 11)" by simp
  then obtain y where "f64 (of_int now / 1000) = Fin y" "\<bar>y\<bar> \<le> of_int (10 ^ 11)"
    using f64_bounded [of "of_int now / 1000" "10 ^ 11"] by auto
  moreover have "(of_int (10 ^ 12) :: rat) \<le> of_int e" using assms(1) by (simp only: of_int_le_iff)
  ultimately have "isSessionKeyActive now (whole e)" by (auto simp: isSessionKeyActive_def whole_def)
  with rest show ?thesis ..
qed

theorem expired_milliseconds_active_witness:
  "getSessionKeyRemainingTimeMs 1700000000001 (whole 1700000000000) = whole 0 \<and> isSessionKeyActive 1700000000001 (whole 1700000000000)"
  by (rule expired_milliseconds_active) simp_all

end
