(* ===== verification/SplitBill.thy ===== *)
theory SplitBill
  imports JsDecimal
begin

text \<open>
  Split bills of the dashboard: the check of the shares (\<open>lib/split-bill-validation.ts\<close>), the bills and their
  states (\<open>services/splitBillStorage.ts\<close>) and the hook that keeps them stored (\<open>hooks/useSplitBill.ts\<close>), all of
  \<open>apps/web-dashboard/src\<close>. Messages are constructors with the numbers they show. An object keyed by row is
  the ordered map of theory Prelude; keys and identifiers are fresh texts, as the form makes them.
\<close>

section \<open>Reading and writing amounts\<close>

datatype split_mode = AmountMode | PercentageMode

definition AMOUNT_DECIMALS :: nat where
  "AMOUNT_DECIMALS = 7"

definition TOLERANCE :: number where
  "TOLERANCE = num_div (f64 (1 / 2)) (whole (10 ^ 7))"

definition PERCENTAGE_TOTAL :: number where
  "PERCENTAGE_TOTAL = whole 100"

text \<open>\<open>/^-?\d*\.?\d+$/\<close>.\<close>

definition decimal_pattern :: "string \<Rightarrow> bool" where
  "decimal_pattern s =
     (let r = (case s of [] \<Rightarrow> [] | c # t \<Rightarrow> if c = CHR ''-'' then t else s)
      in case dropWhile is_digit_char r of
           [] \<Rightarrow> r \<noteq> []
         | c # f \<Rightarrow> c = CHR ''.'' \<and> f \<noteq> [] \<and> list_all is_digit_char f)"

definition parseDecimal :: "string \<Rightarrow> number option" where
  "parseDecimal raw =
     (let trimmed = js_trim raw in
      if trimmed = [] then None
      else if \<not> decimal_pattern trimmed then None
      else let v = js_Number trimmed in if num_is_finite v then Some v else None)"

text \<open>\<open>replace(/\.?0+$/, '')\<close>.\<close>

definition strip_zeros :: "string \<Rightarrow> string" where
  "strip_zeros s =
     (let body = dropWhile (\<lambda>c. c = CHR ''0'') (rev s)
      in if length body = length s then s
         else rev (case body of [] \<Rightarrow> [] | c # r \<Rightarrow> if c = CHR ''.'' then r else body))"

definition split_formatAmount :: "number \<Rightarrow> string" where
  "split_formatAmount v = (let fixed = toFixed AMOUNT_DECIMALS v in
     if js_includes ''.'' fixed then strip_zeros fixed else fixed)"

definition amountsEqual :: "number \<Rightarrow> number \<Rightarrow> bool" where
  "amountsEqual a b = num_less (num_abs (num_sub a b)) TOLERANCE"

definition roundToPrecision :: "number \<Rightarrow> number" where
  "roundToPrecision v = js_Number (toFixed AMOUNT_DECIMALS v)"

definition num_sum :: "number list \<Rightarrow> number" where
  "num_sum vs = foldl num_add (whole 0) vs"

definition percent_part :: "number \<Rightarrow> number \<Rightarrow> number" where
  "percent_part owed weight = roundToPrecision (num_div (num_mul owed weight) PERCENTAGE_TOTAL)"

definition allocate :: "number \<Rightarrow> number list \<Rightarrow> number list" where
  "allocate owed weights =
     (if weights = [] then []
      else let parts = map (percent_part owed) (butlast weights)
           in parts @ [roundToPrecision (num_sub owed (num_sum parts))])"

section \<open>The check of the shares\<close>

datatype share_message =
    AddParticipant | TotalNotNumber | TotalNotPositive | TotalRequired
  | EnterShare split_mode | SharePositive split_mode | ShareTooLarge
  | PercentShort string string | PercentOver string string
  | AmountsShort string string string | AmountsOver string string string

type_synonym share_error = "string option \<times> share_message"

record shares_result =
  vr_valid :: bool
  vr_errors :: "share_error list"
  vr_sum :: number
  vr_amounts :: "(string, string) jsmap"

definition total_errors :: "split_mode \<Rightarrow> string option \<Rightarrow> share_error list" where
  "total_errors mode totalAmount =
     (let parsed = (case totalAmount of None \<Rightarrow> None | Some t \<Rightarrow> parseDecimal t);
          provided = (case totalAmount of None \<Rightarrow> False | Some t \<Rightarrow> js_trim t \<noteq> [])
      in (if provided \<and> parsed = None then [(None, TotalNotNumber)]
          else case parsed of None \<Rightarrow> [] | Some v \<Rightarrow> if num_leq v (whole 0) then [(None, TotalNotPositive)] else [])
         @ (if mode = PercentageMode \<and> \<not> provided then [(None, TotalRequired)] else []))"

definition share_check :: "split_mode \<Rightarrow> string \<times> string \<Rightarrow> share_error list \<times> number" where
  "share_check mode p = (case parseDecimal (snd p) of
       None \<Rightarrow> ([(Some (fst p), EnterShare mode)], whole 0)
     | Some v \<Rightarrow>
         if num_leq v (whole 0) then ([(Some (fst p), SharePositive mode)], whole 0)
         else if mode = PercentageMode \<and> num_less PERCENTAGE_TOTAL v then ([(Some (fst p), ShareTooLarge)], whole 0)
         else ([], v))"

definition sum_errors :: "split_mode \<Rightarrow> number \<Rightarrow> number option \<Rightarrow> share_error list" where
  "sum_errors mode added parsed = (case mode of
       PercentageMode \<Rightarrow>
         if amountsEqual added PERCENTAGE_TOTAL then []
         else let delta = roundToPrecision (num_sub PERCENTAGE_TOTAL added) in
           [(None, if num_less (whole 0) delta then PercentShort (split_formatAmount added) (split_formatAmount delta)
                   else PercentOver (split_formatAmount added) (split_formatAmount (num_neg delta)))]
     | AmountMode \<Rightarrow> (case parsed of
           None \<Rightarrow> []
         | Some t \<Rightarrow>
             if \<not> num_less (whole 0) t then []
             else if amountsEqual added t then []
             else let delta = roundToPrecision (num_sub t added) in
               [(None, if num_less (whole 0) delta
                       then AmountsShort (split_formatAmount added) (split_formatAmount delta) (split_formatAmount t)
                       else AmountsOver (split_formatAmount added) (split_formatAmount (num_neg delta)) (split_formatAmount t))]))"

definition resolved_shares :: "split_mode \<Rightarrow> number option \<Rightarrow> number list \<Rightarrow> number list" where
  "resolved_shares mode parsed values = (case (mode, parsed) of
       (PercentageMode, Some t) \<Rightarrow> allocate t values | _ \<Rightarrow> values)"

definition validateShares :: "split_mode \<Rightarrow> (string \<times> string) list \<Rightarrow> string option \<Rightarrow> shares_result" where
  "validateShares mode participants totalAmount =
     (if participants = [] then \<lparr>vr_valid = False, vr_errors = [(None, AddParticipant)], vr_sum = whole 0, vr_amounts = []\<rparr>
      else
        let parsed = (case totalAmount of None \<Rightarrow> None | Some t \<Rightarrow> parseDecimal t);
            checks = map (share_check mode) participants;
            share_errors = concat (map fst checks);
            values = map snd checks;
            added = roundToPrecision (num_sum values);
            errors = total_errors mode totalAmount @ share_errors
              @ (if list_ex (\<lambda>e. fst e \<noteq> None) (total_errors mode totalAmount @ share_errors) then [] else sum_errors mode added parsed)
        in if errors \<noteq> [] then \<lparr>vr_valid = False, vr_errors = errors, vr_sum = added, vr_amounts = []\<rparr>
           else \<lparr>vr_valid = True, vr_errors = [], vr_sum = added,
             vr_amounts = foldl (\<lambda>m (p, v). map_set (fst p) (split_formatAmount v) m) []
               (zip participants (resolved_shares mode parsed values))\<rparr>)"

definition errorsByKey :: "share_error list \<Rightarrow> (string, share_message) jsmap" where
  "errorsByKey errors = foldl (\<lambda>m (k, msg). case k of None \<Rightarrow> m
     | Some key \<Rightarrow> if map_has m key then m else map_set key msg m) [] errors"

definition formError :: "share_error list \<Rightarrow> share_message option" where
  "formError errors = map_option snd (find (\<lambda>e. fst e = None) errors)"

section \<open>Bills\<close>

datatype bill_status = BillOpen | BillCompleted | BillExpired | BillCancelled

datatype participant_status = PPending | PPaid | PFailed | PExpired

record participant =
  pa_id :: string
  pa_address :: string
  pa_alias :: "string option"
  pa_amount :: string
  pa_assetCode :: string
  pa_status :: participant_status
  pa_paidAt :: "time option"
  pa_txHash :: "string option"
  pa_failedReason :: "string option"

record bill =
  bi_id :: string
  bi_title :: string
  bi_creatorAddress :: string
  bi_participants :: "participant list"
  bi_note :: "string option"
  bi_status :: bill_status
  bi_expiresAt :: time
  bi_createdAt :: time
  bi_updatedAt :: time

record bill_input =
  bn_title :: string
  bn_creatorAddress :: string
  bn_note :: "string option"
  bn_ttlSeconds :: "int option"
  bn_participants :: "(string \<times> string option \<times> string \<times> string) list"

definition new_participant :: "string \<Rightarrow> string \<times> string option \<times> string \<times> string \<Rightarrow> participant" where
  "new_participant i p = (case p of (address, alias, amount, assetCode) \<Rightarrow>
     \<lparr>pa_id = i, pa_address = address, pa_alias = alias, pa_amount = amount, pa_assetCode = assetCode,
      pa_status = PPending, pa_paidAt = None, pa_txHash = None, pa_failedReason = None\<rparr>)"

definition createSplitBill :: "time \<Rightarrow> string \<Rightarrow> string list \<Rightarrow> bill list \<Rightarrow> bill_input \<Rightarrow> bill list \<times> bill" where
  "createSplitBill now i ids bills input =
     (let ttl = coalesce (bn_ttlSeconds input) 86400 * 1000;
          b = \<lparr>bi_id = i, bi_title = js_trim (bn_title input), bi_creatorAddress = bn_creatorAddress input,
               bi_participants = map2 new_participant ids (bn_participants input),
               bi_note = map_option js_trim (bn_note input), bi_status = BillOpen,
               bi_expiresAt = now + ttl, bi_createdAt = now, bi_updatedAt = now\<rparr>
      in (bills @ [b], b))"

definition updated_participant ::
  "time \<Rightarrow> participant_status \<Rightarrow> string option \<Rightarrow> string option \<Rightarrow> participant \<Rightarrow> participant" where
  "updated_participant now status failedReason txHash p =
     p\<lparr>pa_status := status, pa_paidAt := (if status = PPaid then Some now else pa_paidAt p),
       pa_txHash := (if txHash \<noteq> None then txHash else pa_txHash p),
       pa_failedReason := (if failedReason \<noteq> None then failedReason else pa_failedReason p)\<rparr>"

definition updateParticipantStatus ::
  "time \<Rightarrow> string \<Rightarrow> string \<Rightarrow> participant_status \<Rightarrow> string option \<Rightarrow> string option \<Rightarrow> bill list \<Rightarrow> bill list" where
  "updateParticipantStatus now billId participantId status failedReason txHash bills =
     map (\<lambda>b. if bi_id b \<noteq> billId then b
       else let participants = map (\<lambda>p. if pa_id p \<noteq> participantId then p
                                   else updated_participant now status failedReason txHash p) (bi_participants b)
            in b\<lparr>bi_participants := participants,
                 bi_status := (if list_all (\<lambda>p. pa_status p = PPaid) participants then BillCompleted else bi_status b),
                 bi_updatedAt := now\<rparr>) bills"

definition cancelSplitBill :: "time \<Rightarrow> string \<Rightarrow> bill list \<Rightarrow> bill list" where
  "cancelSplitBill now billId bills =
     map (\<lambda>b. if bi_id b = billId then b\<lparr>bi_status := BillCancelled, bi_updatedAt := now\<rparr> else b) bills"

definition expired_bill :: "time \<Rightarrow> bill \<Rightarrow> bill" where
  "expired_bill now b =
     (if bi_status b \<noteq> BillOpen \<or> bi_expiresAt b > now then b
      else b\<lparr>bi_status := BillExpired, bi_updatedAt := now,
             bi_participants := map (\<lambda>p. if pa_status p = PPending then p\<lparr>pa_status := PExpired\<rparr> else p) (bi_participants b)\<rparr>)"

definition applyExpirations :: "time \<Rightarrow> bill list \<Rightarrow> bill list" where
  "applyExpirations now bills = map (expired_bill now) bills"

text \<open>
  The hook: the stored bills and those shown. A store that refuses a write keeps what it had, which the hook
  does not notice. Opening the page applies the expiries; every other operation starts from the store.
\<close>

record split_page =
  sp_stored :: "bill list"
  sp_shown :: "bill list"

datatype page_event =
    OpenPage time
  | CreateBill time string "string list" bill_input
  | UpdateParticipant time string string participant_status "string option" "string option"
  | CancelBill time string

definition page_write :: "bool \<Rightarrow> bill list \<Rightarrow> split_page \<Rightarrow> split_page" where
  "page_write stores bills s = \<lparr>sp_stored = (if stores then bills else sp_stored s), sp_shown = bills\<rparr>"

fun page_step :: "bool \<Rightarrow> page_event \<Rightarrow> split_page \<Rightarrow> split_page" where
  "page_step stores (OpenPage now) s = page_write stores (applyExpirations now (sp_stored s)) s"
| "page_step stores (CreateBill now i ids input) s = page_write stores (fst (createSplitBill now i ids (sp_stored s) input)) s"
| "page_step stores (UpdateParticipant now b p status reason hash) s =
     page_write stores (updateParticipantStatus now b p status reason hash (sp_stored s)) s"
| "page_step stores (CancelBill now b) s = page_write stores (cancelSplitBill now b (sp_stored s)) s"

section \<open>Rounding errors\<close>

lemma f64_abs_error:
  assumes "\<bar>x\<bar> \<le> m" "pow2 (- 1022) \<le> m" "m \<le> of_int k" "k < 2 ^ 53"
  shows "\<exists>y. f64 x = Fin y \<and> \<bar>y - x\<bar> \<le> m / 2 ^ 53 \<and> (0 \<le> x \<longrightarrow> 0 \<le> y)"
proof -
  have m: "0 < m" using assms(2) pow2_pos [of "- 1022"] by linarith
  have small: "\<bar>round_mag a - a\<bar> \<le> m / 2 ^ 53" if a: "0 \<le> a" "a \<le> m" for a
  proof (cases "a = 0")
    case True
    with m show ?thesis by simp
  next
    case False
    then have a0: "0 < a" using a by simp
    let ?u = "ulp_exp a"
    have "round_mag a - a = (of_int (round_even (a / pow2 ?u)) - a / pow2 ?u) * pow2 ?u"
      using a0 by (simp add: round_mag_def field_simps)
    then have "\<bar>round_mag a - a\<bar> = \<bar>of_int (round_even (a / pow2 ?u)) - a / pow2 ?u\<bar> * pow2 ?u"
      by (simp only: abs_mult abs_of_pos [OF pow2_pos])
    also have "\<dots> \<le> 1 / 2 * pow2 ?u" by (intro mult_right_mono round_even_error less_imp_le [OF pow2_pos])
    also have "\<dots> \<le> m / 2 ^ 53"
    proof -
      have "pow2 ?u * 2 ^ 52 \<le> m"
      proof (cases "ilog2 a - 52 \<ge> - 1074")
        case True
        then have "pow2 ?u * 2 ^ 52 = pow2 (ilog2 a)" using pow2_add_nat [of ?u 52] by (simp add: ulp_exp_def)
        with ilog2_bounds(1) [OF a0] a(2) show ?thesis by linarith
      next
        case False
        then have "pow2 ?u * 2 ^ 52 = pow2 (- 1022)" using pow2_add_nat [of ?u 52] by (simp add: ulp_exp_def)
        with assms(2) show ?thesis by simp
      qed
      then show ?thesis by (simp add: field_simps)
    qed
    finally show ?thesis .
  qed
  obtain y where y: "f64 x = Fin y" "0 \<le> x \<longrightarrow> 0 \<le> y" using f64_bounded [of x k] assms by auto
  then have "y = (if x < 0 then - round_mag \<bar>x\<bar> else round_mag \<bar>x\<bar>)" by (auto simp: f64_def Let_def split: if_splits)
  then have "\<bar>y - x\<bar> \<le> m / 2 ^ 53" using small [of "\<bar>x\<bar>"] assms(1) by (auto simp: abs_if split: if_splits)
  with y show ?thesis by blast
qed

text \<open>A number of stroops as a number, and its neighbourhood in which \<open>toFixed\<close> finds it again.\<close>

definition stroop_number :: "int \<Rightarrow> number" where
  "stroop_number k = f64 (of_int k / 10 ^ 7)"

lemma toFixed_nearest:
  assumes "\<bar>y\<bar> < 10 ^ 21" "\<bar>\<bar>y\<bar> * 10 ^ 7 - of_nat n\<bar> < 1 / 2"
  shows "toFixed 7 (Fin y) = (if y < 0 then ''-'' else []) @ fixed_text 7 n"
proof -
  have "\<lfloor>\<bar>y\<bar> * 10 ^ 7 + 1 / 2\<rfloor> = int n"
    using assms(2) unfolding abs_less_iff by (intro floor_unique) simp_all
  then show ?thesis using assms(1) by (simp add: toFixed_def)
qed

lemma signed_minus:
  assumes "amount_text a"
  shows "signed_decimal (CHR ''-'' # a) = Some (f64 (- (of_nat (decimalToStroops a) / 10 ^ 7)), [])"
proof -
  obtain w f where wf: "list_all is_digit_char w" "w \<noteq> []" "list_all is_digit_char f" "length f \<le> 7"
    "a = (if f = [] then w else w @ CHR ''.'' # f)" using amount_text_cases [OF assms] .
  obtain c r where a: "a = c # r" "is_digit_char c" using amount_ends [OF assms] by (cases a) auto
  have "\<not> js_starts_with ''Infinity'' a" using digit_char_facts [OF a(2)] by (simp add: js_starts_with_def a(1))
  then show ?thesis
    using amount_literal [OF wf(1,2,3,5)] amount_stroops [OF wf(1,4,5)] by (simp add: signed_decimal_def split_sign_def)
qed

lemma number_of_minus:
  assumes "amount_text a"
  shows "js_Number (CHR ''-'' # a) = f64 (- (of_nat (decimalToStroops a) / 10 ^ 7))"
proof -
  note e = amount_ends [OF assms]
  have sp: "\<not> is_js_space CHR ''-''" by code_simp
  have t: "js_trim (CHR ''-'' # a) = CHR ''-'' # a" using e digit_char_facts sp by (intro js_trim_inner) simp_all
  have "lower_char CHR ''-'' = CHR ''-''" by code_simp
  then have low: "js_lower (take 2 (CHR ''-'' # a)) = CHR ''-'' # js_lower (take 1 a)" by (simp add: js_lower_def)
  show ?thesis unfolding js_Number_def Let_def t low by (simp add: signed_minus [OF assms])
qed

lemma round_to_stroops:
  assumes "\<bar>y - of_int k / 10 ^ 7\<bar> < 1 / (2 * 10 ^ 7)" "\<bar>y\<bar> < 10 ^ 21"
  shows "roundToPrecision (Fin y) = stroop_number k"
proof (cases "y < 0")
  case True
  have "(of_int k :: rat) < 1" using assms(1) True unfolding abs_less_iff by (simp add: field_simps)
  then have k: "k \<le> 0" by simp
  have "toFixed 7 (Fin y) = ''-'' @ fixed_text 7 (nat (- k))"
    using toFixed_nearest [of y "nat (- k)"] assms True k unfolding abs_less_iff by (simp add: field_simps)
  then show ?thesis
    using number_of_minus [OF fixed_amount(1)] k
    by (simp add: roundToPrecision_def AMOUNT_DECIMALS_def fixed_amount stroop_number_def)
next
  case False
  have "(- 1 :: rat) < of_int k" using assms(1) False unfolding abs_less_iff by (simp add: field_simps)
  then have k: "0 \<le> k" by simp
  have "toFixed 7 (Fin y) = fixed_text 7 (nat k)"
    using toFixed_nearest [of y "nat k"] assms False k unfolding abs_less_iff by (simp add: field_simps)
  then show ?thesis
    using number_of_amount [OF fixed_amount(1)] k
    by (simp add: roundToPrecision_def AMOUNT_DECIMALS_def fixed_amount stroop_number_def)
qed

text \<open>
  Adding stroop numbers: with \<open>M\<close> above everything that occurs, each addition is off by at most two units of
  \<open>M / 2^53\<close>.
\<close>

lemma num_sum_error:
  fixes M :: rat
  assumes "\<forall>k \<in> set ks. 0 \<le> k \<and> of_int k / 10 ^ 7 \<le> M" and "of_int (sum_list ks) / 10 ^ 7 + of_nat (length ks) * (2 * M / 2 ^ 53) \<le> M"
    and "pow2 (- 1022) \<le> M" "M \<le> 2 ^ 52"
  shows "\<exists>s. num_sum (map stroop_number ks) = Fin s \<and> 0 \<le> s
    \<and> \<bar>s - of_int (sum_list ks) / 10 ^ 7\<bar> \<le> of_nat (length ks) * (2 * M / 2 ^ 53)"
  using assms(1,2)
proof (induction ks rule: rev_induct)
  case Nil
  then show ?case by (simp add: num_sum_def whole_def)
next
  case (snoc k ks)
  define e where "e = 2 * M / 2 ^ 53"
  define L where "L = (of_nat (length ks) :: rat)"
  have M0: "0 < M" using assms(3) pow2_pos [of "- 1022"] by linarith
  let ?S = "of_int (sum_list ks) / 10 ^ 7 :: rat" and ?k = "of_int k / 10 ^ 7 :: rat"
  have e0: "0 \<le> e" "0 \<le> L * e" using M0 by (simp_all add: e_def L_def)
  have half: "M / 2 ^ 53 = e / 2" by (simp add: e_def)
  have k: "0 \<le> ?k" "?k \<le> M" using snoc.prems(1) by simp_all
  have sum_eq: "of_int (sum_list (ks @ [k])) / 10 ^ 7 = ?S + ?k" by (simp add: add_divide_distrib)
  have len_eq: "of_nat (length (ks @ [k])) * (2 * M / 2 ^ 53) = L * e + e"
    unfolding L_def e_def by (simp add: algebra_simps)
  from snoc.prems(2) have added: "?S + ?k + (L * e + e) \<le> M" unfolding sum_eq len_eq .
  then have "?S + L * e \<le> M" using k(1) e0 by linarith
  then obtain s where s: "num_sum (map stroop_number ks) = Fin s" "0 \<le> s" "\<bar>s - ?S\<bar> \<le> L * e"
    using snoc.IH snoc.prems(1) unfolding L_def e_def by auto
  have lim: "M \<le> of_int (2 ^ 52)" "(2 :: int) ^ 52 < 2 ^ 53" using assms(4) by simp_all
  obtain x where x: "f64 ?k = Fin x" "\<bar>x - ?k\<bar> \<le> M / 2 ^ 53" "0 \<le> x"
    using f64_abs_error [of ?k M "2 ^ 52"] k assms(3) lim by auto
  have "s + x \<le> M" using s(3) x(2) added e0 unfolding half abs_le_iff by linarith
  then have "\<bar>s + x\<bar> \<le> M" using s(2) x(3) by simp
  then obtain z where z: "f64 (s + x) = Fin z" "\<bar>z - (s + x)\<bar> \<le> M / 2 ^ 53" "0 \<le> z"
    using f64_abs_error [of "s + x" M "2 ^ 52"] s(2) x(3) assms(3) lim by auto
  have "num_sum (map stroop_number (ks @ [k])) = Fin z"
    using s(1) x(1) z(1) by (simp add: num_sum_def stroop_number_def)
  moreover have "\<bar>z - (?S + ?k)\<bar> \<le> L * e + e"
    using s(3) x(2) z(2) unfolding half abs_le_iff by linarith
  ultimately show ?case unfolding sum_eq len_eq using z(3) by blast
qed

section \<open>The percentage split\<close>

lemma round_nonneg:
  assumes "0 \<le> y" "y < 10 ^ 21"
  shows "roundToPrecision (Fin y) = stroop_number \<lfloor>y * 10 ^ 7 + 1 / 2\<rfloor>"
proof -
  have "0 \<le> \<lfloor>y * 10 ^ 7 + 1 / 2\<rfloor>" using assms(1) by simp
  moreover have "toFixed 7 (Fin y) = fixed_text 7 (nat \<lfloor>y * 10 ^ 7 + 1 / 2\<rfloor>)" using assms by (simp add: toFixed_def)
  ultimately show ?thesis
    using number_of_amount [OF fixed_amount(1)]
    by (simp add: roundToPrecision_def AMOUNT_DECIMALS_def fixed_amount stroop_number_def)
qed

text \<open>A stroop count that numbers of this size tell apart.\<close>

definition payable :: "nat \<Rightarrow> int \<Rightarrow> bool" where
  "payable n k = (0 < k \<and> (int n + 1)\<^sup>2 * k \<le> 10 ^ 15)"

lemma payable_bounds:
  assumes "payable n k"
  shows "0 < k" "k \<le> 10 ^ 15" "(int n + 1) * k \<le> 10 ^ 15"
proof -
  show k: "0 < k" using assms by (simp add: payable_def)
  have le: "(int n + 1)\<^sup>2 * k \<le> 10 ^ 15" using assms by (simp add: payable_def)
  have "(int n + 1) * k \<le> (int n + 1)\<^sup>2 * k" using k by (intro mult_right_mono) (simp_all add: power2_eq_square)
  with le show n1: "(int n + 1) * k \<le> 10 ^ 15" by (rule order_trans [rotated])
  have "1 * k \<le> (int n + 1) * k" using k by (intro mult_right_mono) simp_all
  with n1 show "k \<le> 10 ^ 15" by linarith
qed

lemma scaled_part_error:
  fixes T u x w y z :: rat
  assumes "\<bar>x - T\<bar> \<le> T * u" "\<bar>y - x * w\<bar> \<le> 101 * T * u" "\<bar>z - y / 100\<bar> \<le> 2 * T * u" "0 \<le> w" "w \<le> 100" "0 \<le> T * u"
  shows "\<bar>z - T * w / 100\<bar> \<le> 5 * (T * u)"
proof -
  have "\<bar>x * w - T * w\<bar> = \<bar>x - T\<bar> * w" using assms(4) by (simp add: abs_mult flip: left_diff_distrib)
  also have "\<dots> \<le> T * u * 100" using assms(1,4,5,6) by (intro mult_mono) simp_all
  finally have xw: "\<bar>x * w - T * w\<bar> \<le> 100 * (T * u)" by simp
  have "\<bar>y - x * w\<bar> \<le> 101 * (T * u)" "\<bar>z - y / 100\<bar> \<le> 2 * (T * u)" using assms(2,3) by (simp_all add: mult.assoc)
  with xw assms(6) show ?thesis unfolding abs_le_iff by simp
qed

lemma part_stroops:
  assumes "0 < n" "n \<le> 25 * 10 ^ 13" "0 \<le> w" "w \<le> 100"
  shows "\<exists>k. percent_part (stroop_number n) (Fin w) = stroop_number k \<and> 0 \<le> k \<and> k \<le> n
    \<and> \<bar>of_int k - of_int n * w / 100\<bar> \<le> 1 / 2 + 5 * of_int n / 2 ^ 53"
proof -
  define T where "T = (of_int n / 10 ^ 7 :: rat)"
  define u where "u = (1 / 2 ^ 53 :: rat)"
  have n: "(1 :: rat) \<le> of_int n" using assms(1) by simp
  have n': "of_int n \<le> (25 * 10 ^ 13 :: rat)" using assms(2) by simp
  have T: "1 / 10 ^ 7 \<le> T" "T \<le> 10 ^ 8" using n n' by (simp_all add: T_def)
  have tiny: "pow2 (- 1022) \<le> 1 / 10 ^ 7"
  proof -
    have "pow2 (- 1022) \<le> pow2 (- 24)" by (intro pow2_mono) simp
    also have "\<dots> \<le> 1 / 10 ^ 7" by (simp add: pow2_def)
    finally show ?thesis .
  qed
  obtain x where x: "f64 T = Fin x" "\<bar>x - T\<bar> \<le> T * u" "0 \<le> x"
    using f64_abs_error [of T T "10 ^ 9"] T tiny by (auto simp: u_def)
  have Tu: "0 \<le> T * u" "T * u \<le> T / 1000000" using T by (simp_all add: u_def)
  have T0: "0 \<le> T" using T(1) by (rule order_trans [rotated]) simp
  have xw: "0 \<le> x * w" "x * w \<le> 101 * T"
  proof -
    have "x * w \<le> x * 100" using assms(4) x(3) by (rule mult_left_mono)
    also have "\<dots> \<le> 101 * T" using x(2) Tu T0 unfolding abs_le_iff by linarith
    finally show "x * w \<le> 101 * T" .
  qed (simp add: x(3) assms(3))
  obtain y where y: "f64 (x * w) = Fin y" "\<bar>y - x * w\<bar> \<le> 101 * T * u" "0 \<le> y"
    using f64_abs_error [of "x * w" "101 * T" "10 ^ 11"] xw T tiny by (auto simp: u_def)
  have "101 * T * u = 101 * (T * u)" by simp
  then have y100: "0 \<le> y / 100" "y / 100 \<le> 2 * T"
    using y(2,3) xw Tu T0 unfolding abs_le_iff by linarith+
  obtain z where z: "f64 (y / 100) = Fin z" "\<bar>z - y / 100\<bar> \<le> 2 * T * u" "0 \<le> z"
    using f64_abs_error [of "y / 100" "2 * T" "10 ^ 9"] y100 T tiny by (auto simp: u_def)
  have err: "\<bar>z - T * w / 100\<bar> \<le> 5 * (T * u)"
    by (rule scaled_part_error [OF x(2) y(2) z(2) assms(3,4) Tu(1)])
  have scaled: "\<bar>z * 10 ^ 7 - of_int n * w / 100\<bar> \<le> 5 * of_int n / 2 ^ 53"
    using err unfolding T_def u_def abs_le_iff by (simp add: field_simps)
  have "of_int n * w \<le> of_int n * 100" using assms(4) n by (intro mult_left_mono) simp_all
  then have "of_int n * w / 100 \<le> of_int n" by simp
  moreover have "5 * of_int n / 2 ^ 53 < (1 / 2 :: rat)" using n' by simp
  ultimately have top: "z * 10 ^ 7 + 1 / 2 < of_int n + 1" using scaled unfolding abs_le_iff by linarith
  then have zbig: "z < 10 ^ 21" using n' by simp
  define k where "k = \<lfloor>z * 10 ^ 7 + 1 / 2\<rfloor>"
  have "percent_part (stroop_number n) (Fin w) = stroop_number k"
    using round_nonneg [OF z(3) zbig] x(1) y(1) z(1)
    by (simp add: percent_part_def PERCENTAGE_TOTAL_def whole_def stroop_number_def T_def k_def)
  moreover have "0 \<le> k" using z(3) by (simp add: k_def)
  moreover have "k \<le> n" using top unfolding k_def by linarith
  moreover have "\<bar>of_int k - of_int n * w / 100\<bar> \<le> 1 / 2 + 5 * of_int n / 2 ^ 53"
  proof -
    have "\<bar>of_int k - z * 10 ^ 7\<bar> \<le> 1 / 2" unfolding k_def abs_le_iff by linarith
    with scaled show ?thesis unfolding abs_le_iff by linarith
  qed
  ultimately show ?thesis by blast
qed

lemma parts_stroops:
  assumes "0 < n" "n \<le> 25 * 10 ^ 13" "\<forall>v \<in> set ws. \<exists>w. v = Fin w \<and> 0 \<le> w \<and> w \<le> 100"
  shows "\<exists>ks. map (percent_part (stroop_number n)) ws = map stroop_number ks \<and> (\<forall>k \<in> set ks. 0 \<le> k \<and> k \<le> n)"
  using assms(3)
proof (induction ws)
  case (Cons v ws)
  from Cons.prems obtain w where w: "v = Fin w" "0 \<le> w" "w \<le> 100" by auto
  obtain k where k: "percent_part (stroop_number n) v = stroop_number k" "0 \<le> k" "k \<le> n"
    using part_stroops [OF assms(1,2) w(2,3)] w(1) by blast
  from Cons obtain ks where "map (percent_part (stroop_number n)) ws = map stroop_number ks" "\<forall>k \<in> set ks. 0 \<le> k \<and> k \<le> n"
    by auto
  with k show ?case by (intro exI [of _ "k # ks"]) simp
qed simp

lemma sum_list_upper: "\<forall>k \<in> set ks. 0 \<le> k \<and> k \<le> (n :: int) \<Longrightarrow> 0 \<le> sum_list ks \<and> sum_list ks \<le> int (length ks) * n"
  by (induction ks) (auto simp: algebra_simps)

lemma allocated_exactly:
  assumes "payable (length ws) n" "ws \<noteq> []" "\<forall>v \<in> set ws. \<exists>w. v = Fin w \<and> 0 \<le> w \<and> w \<le> 100"
  shows "\<exists>ks. allocate (stroop_number n) ws = map stroop_number (ks @ [n - sum_list ks])
    \<and> map (percent_part (stroop_number n)) (butlast ws) = map stroop_number ks \<and> (\<forall>k \<in> set ks. 0 \<le> k \<and> k \<le> n)"
proof -
  note n = payable_bounds [OF assms(1)]
  have "1 \<le> length ws" using assms(2) by (cases ws) simp_all
  then have "2 * 2 \<le> (int (length ws) + 1) * (int (length ws) + 1)" by (intro mult_mono) simp_all
  then have "4 * n \<le> (int (length ws) + 1)\<^sup>2 * n"
    using n(1) by (intro mult_right_mono) (simp_all add: power2_eq_square)
  also have "\<dots> \<le> 10 ^ 15" using assms(1) unfolding payable_def by (rule conjunct2)
  finally have n4: "n \<le> 25 * 10 ^ 13" by simp
  have bl: "\<forall>v \<in> set (butlast ws). \<exists>w. v = Fin w \<and> 0 \<le> w \<and> w \<le> 100" using assms(3) by (auto dest: in_set_butlastD)
  obtain ks where ks: "map (percent_part (stroop_number n)) (butlast ws) = map stroop_number ks" "\<forall>k \<in> set ks. 0 \<le> k \<and> k \<le> n"
    using parts_stroops [OF n(1) n4 bl] by blast
  have "length ks = length ws - 1" using arg_cong [OF ks(1), of length] by (simp only: length_map length_butlast)
  with assms(2) have len: "Suc (length ks) = length ws" by (cases ws) simp_all
  define N where "N = (of_nat (length ws) :: rat)"
  define T where "T = (of_int n / 10 ^ 7 :: rat)"
  define M where "M = (N + 1) * T"
  define e where "e = 2 * M / 2 ^ 53"
  define L where "L = (of_nat (length ks) :: rat)"
  have NL: "N = L + 1" "0 \<le> L" unfolding N_def L_def len [symmetric] by simp_all
  have T: "1 / 10000000 \<le> T" "0 \<le> T" using n(1) by (simp_all add: T_def)
  have M2: "M = L * T + 2 * T" by (simp add: M_def NL algebra_simps)
  have MT: "2 * T \<le> M" using mult_nonneg_nonneg [OF NL(2) T(2)] M2 by linarith
  have NM: "(N + 1) * M \<le> 100000000"
  proof -
    have "(of_int ((int (length ws) + 1)\<^sup>2 * n) :: rat) \<le> of_int (10 ^ 15)"
      using assms(1) unfolding payable_def of_int_le_iff by blast
    then have "(N + 1)\<^sup>2 * of_int n \<le> 10 ^ 15" by (simp add: N_def)
    then show ?thesis by (simp add: M_def T_def power2_eq_square field_simps)
  qed
  have M0: "0 \<le> M" using MT T by linarith
  have "1 * M \<le> (N + 1) * M" using NL M0 by (intro mult_right_mono) simp_all
  with NM have M8: "M \<le> 100000000" by linarith
  have "(L + 2) * e = 2 / 2 ^ 53 * ((N + 1) * M)" by (simp add: e_def NL field_simps)
  also have "\<dots> \<le> 2 / 2 ^ 53 * 100000000" by (intro mult_left_mono NM) simp
  also have "\<dots> \<le> 1 / 40000000" by simp
  finally have Le: "L * e + 2 * e \<le> 1 / 40000000" by (simp add: algebra_simps)
  have e0: "0 \<le> e" "0 \<le> L * e" using M0 NL(2) by (simp_all add: e_def)
  have tiny: "pow2 (- 1022) \<le> M"
  proof -
    have "pow2 (- 1022) \<le> pow2 (- 24)" by (intro pow2_mono) simp
    also have "\<dots> \<le> 1 / 10000000" by (simp add: pow2_def)
    finally show ?thesis using MT T by linarith
  qed
  have lim: "M \<le> of_int (10 ^ 9)" "(10 :: int) ^ 9 < 2 ^ 53" "M \<le> 2 ^ 52" using M8 by simp_all
  let ?S = "of_int (sum_list ks) / 10 ^ 7 :: rat"
  have "of_int (sum_list ks) \<le> (of_int (int (length ks) * n) :: rat)" using sum_list_upper [OF ks(2)] by (simp only: of_int_le_iff)
  then have S: "?S \<le> L * T" by (simp add: L_def T_def divide_right_mono)
  have "\<forall>k \<in> set ks. 0 \<le> k \<and> of_int k / 10 ^ 7 \<le> M"
  proof (intro ballI conjI)
    fix k assume "k \<in> set ks"
    then have k: "0 \<le> k" "k \<le> n" using ks(2) by simp_all
    then show "0 \<le> k" by simp
    have "(of_int k :: rat) / 10 ^ 7 \<le> T" using k(2) by (simp add: T_def divide_right_mono)
    then show "of_int k / 10 ^ 7 \<le> M" using MT T(2) by linarith
  qed
  moreover have "?S + of_nat (length ks) * (2 * M / 2 ^ 53) \<le> M"
    using S M2 Le e0 T(1) unfolding L_def [symmetric] e_def [symmetric] by linarith
  ultimately obtain s where s: "num_sum (map stroop_number ks) = Fin s" "0 \<le> s" "\<bar>s - ?S\<bar> \<le> L * e"
    using num_sum_error [of ks M] tiny lim(3) unfolding L_def e_def by blast
  have half: "M / 2 ^ 53 = e / 2" by (simp add: e_def)
  obtain x where x: "f64 T = Fin x" "\<bar>x - T\<bar> \<le> e / 2" "0 \<le> x"
    using f64_abs_error [of T M "10 ^ 9"] MT T tiny lim unfolding half by auto
  have "0 \<le> ?S" using sum_list_upper [OF ks(2)] by simp
  then have "\<bar>x - s\<bar> \<le> M"
    using x(2,3) s(2,3) S M2 Le e0 T unfolding abs_le_iff by linarith
  then obtain d where d: "f64 (x - s) = Fin d" "\<bar>d - (x - s)\<bar> \<le> e / 2"
    using f64_abs_error [of "x - s" M "10 ^ 9"] tiny lim unfolding half by blast
  have near: "\<bar>d - (T - ?S)\<bar> \<le> 1 / 40000000"
    using x(2) s(3) d(2) Le e0 unfolding abs_le_iff by linarith
  have diff: "of_int (n - sum_list ks) / 10 ^ 7 = T - ?S" by (simp add: T_def diff_divide_distrib)
  have last: "roundToPrecision (Fin d) = stroop_number (n - sum_list ks)"
  proof (rule round_to_stroops)
    show "\<bar>d - of_int (n - sum_list ks) / 10 ^ 7\<bar> < 1 / (2 * 10 ^ 7)" unfolding diff using near by simp
    have "\<bar>d\<bar> \<le> M + 1" using near \<open>0 \<le> ?S\<close> S M2 T unfolding abs_le_iff by linarith
    then show "\<bar>d\<bar> < 10 ^ 21" using M8 by simp
  qed
  have "num_sub (stroop_number n) (num_sum (map stroop_number ks)) = Fin d"
    using x(1) s(1) d(1) by (simp add: num_sub_def stroop_number_def T_def)
  then have "allocate (stroop_number n) ws = map stroop_number ks @ [stroop_number (n - sum_list ks)]"
    using assms(2) last by (simp add: allocate_def Let_def ks(1))
  with ks show ?thesis by (intro exI [of _ ks]) simp
qed

section \<open>Amounts as text\<close>

text \<open>The stroops a text stands for, with its sign.\<close>

definition signed_stroops :: "string \<Rightarrow> int" where
  "signed_stroops a = (case a of [] \<Rightarrow> 0 | c # r \<Rightarrow>
     if c = CHR ''-'' then - int (decimalToStroops r) else int (decimalToStroops a))"

definition bare_fraction :: "string \<Rightarrow> string" where
  "bare_fraction f = rev (dropWhile (\<lambda>c. c = CHR ''0'') (rev f))"

lemma strip_zeros_amount:
  assumes "list_all is_digit_char f" "f \<noteq> []"
  shows "strip_zeros (w @ CHR ''.'' # f) = (if bare_fraction f = [] then w else w @ CHR ''.'' # bare_fraction f)"
proof -
  let ?z = "\<lambda>c. c = CHR ''0''"
  let ?body = "dropWhile ?z (rev (w @ CHR ''.'' # f))"
  have split: "?body = (if \<forall>c \<in> set f. ?z c then CHR ''.'' # rev w else dropWhile ?z (rev f) @ CHR ''.'' # rev w)"
    by (auto simp: dropWhile_append)
  have nil: "bare_fraction f = [] \<longleftrightarrow> (\<forall>c \<in> set f. ?z c)" by (simp add: bare_fraction_def)
  show ?thesis
  proof (cases "bare_fraction f = []")
    case True
    then have "?body = CHR ''.'' # rev w" using split nil by simp
    with assms(2) True show ?thesis by (simp add: strip_zeros_def)
  next
    case False
    then have b: "?body = dropWhile ?z (rev f) @ CHR ''.'' # rev w" "dropWhile ?z (rev f) \<noteq> []"
      using split nil by (auto simp: bare_fraction_def)
    then obtain c r where cr: "dropWhile ?z (rev f) = c # r" by (cases "dropWhile ?z (rev f)") auto
    then have "c \<in> set f" by (metis list.set_intros(1) set_dropWhileD set_rev)
    then have "c \<noteq> CHR ''.''" using assms(1) digit_char_facts by (auto simp: list_all_iff)
    moreover have "rev (dropWhile ?z (rev f)) = bare_fraction f" by (simp add: bare_fraction_def)
    moreover have "length ?body = length (w @ CHR ''.'' # f) \<Longrightarrow> bare_fraction f = f"
    proof -
      assume "length ?body = length (w @ CHR ''.'' # f)"
      with b(1) have "length (dropWhile ?z (rev f)) = length (rev f)" by simp
      then have "dropWhile ?z (rev f) = rev f" by (metis append_Nil length_append length_0_conv add_cancel_left_left takeWhile_dropWhile_id)
      then show "bare_fraction f = f" by (simp add: bare_fraction_def)
    qed
    ultimately show ?thesis using False b(1) cr by (auto simp: strip_zeros_def Let_def)
  qed
qed

lemma stripped_amount:
  "js_includes ''.'' (fixed_text 7 n) \<and> decimalToStroops (strip_zeros (fixed_text 7 n)) = n
    \<and> strip_zeros (CHR ''-'' # fixed_text 7 n) = CHR ''-'' # strip_zeros (fixed_text 7 n)
    \<and> (\<exists>c r. strip_zeros (fixed_text 7 n) = c # r \<and> is_digit_char c)"
proof -
  have "(0 :: nat) < 7" by simp
  then obtain w f where wf: "fixed_text 7 n = w @ CHR ''.'' # f" "list_all is_digit_char w" "w \<noteq> []"
    "list_all is_digit_char f" "length f = 7" "read_digits (w @ f) = n" by (rule fixed_parts)
  then have f: "f \<noteq> []" by auto
  have pad: "bare_fraction f @ replicate (7 - length (bare_fraction f)) CHR ''0'' = f"
    using strip_then_pad [of "CHR ''0''" f] by (simp only: bare_fraction_def wf(5))
  have n: "read_digits w * 10 ^ 7 + read_digits f = n" using read_digits_append [of w f] wf(5,6) by simp
  have val: "decimalToStroops (strip_zeros (fixed_text 7 n)) = n"
  proof (cases "bare_fraction f = []")
    case True
    then have "read_digits f = read_digits (replicate 7 CHR ''0'')" using pad by simp
    moreover have tw: "takeWhile (\<lambda>c. c \<noteq> CHR ''.'') w = w" using digits_no_dot [OF wf(2)] by blast
    have "decimalToStroops w = read_digits w * 10 ^ 7 + read_digits (replicate 7 CHR ''0'')"
      unfolding decimalToStroops_def Let_def tw by simp
    moreover have "strip_zeros (fixed_text 7 n) = w" using True by (simp add: wf(1) strip_zeros_amount [OF wf(4) f])
    ultimately show ?thesis using n by simp
  next
    case False
    with pad n show ?thesis
      using digits_no_dot [OF wf(2), of "bare_fraction f"]
      by (simp add: wf(1) strip_zeros_amount [OF wf(4) f] decimalToStroops_def Let_def)
  qed
  have "js_includes ''.'' (fixed_text 7 n)" unfolding js_includes_iff wf(1) by (intro exI [of _ w] exI [of _ f]) simp
  moreover have "strip_zeros (CHR ''-'' # fixed_text 7 n) = CHR ''-'' # strip_zeros (fixed_text 7 n)"
    using strip_zeros_amount [OF wf(4) f, of "CHR ''-'' # w"] strip_zeros_amount [OF wf(4) f, of w] by (simp add: wf(1))
  moreover have "\<exists>c r. strip_zeros (fixed_text 7 n) = c # r \<and> is_digit_char c"
    using wf(2,3) strip_zeros_amount [OF wf(4) f, of w] unfolding wf(1) by (cases w) auto
  ultimately show ?thesis using val by blast
qed

lemma stroop_number_value:
  assumes "\<bar>k\<bar> \<le> 10 ^ 15"
  shows "\<exists>y. stroop_number k = Fin y \<and> \<bar>y - of_int k / 10 ^ 7\<bar> \<le> 1 / 80000000"
proof -
  have "\<bar>of_int k :: rat\<bar> \<le> of_int (10 ^ 15)" using assms by (simp only: of_int_abs [symmetric] of_int_le_iff)
  then have "\<bar>of_int k / 10 ^ 7 :: rat\<bar> \<le> 10 ^ 8" by simp
  moreover have "pow2 (- 1022) \<le> 10 ^ 8"
  proof -
    have "pow2 (- 1022) \<le> pow2 0" by (intro pow2_mono) simp
    then show ?thesis by simp
  qed
  ultimately obtain y where "f64 (of_int k / 10 ^ 7) = Fin y" "\<bar>y - of_int k / 10 ^ 7\<bar> \<le> 10 ^ 8 / 2 ^ 53"
    using f64_abs_error [of "of_int k / 10 ^ 7" "10 ^ 8" "10 ^ 8"] by auto
  moreover have "(10 ^ 8 / 2 ^ 53 :: rat) \<le> 1 / 80000000" by simp
  ultimately show ?thesis unfolding stroop_number_def by (meson order_trans)
qed

lemma formatted_stroops:
  assumes "\<bar>k\<bar> \<le> 10 ^ 15"
  shows "signed_stroops (split_formatAmount (stroop_number k)) = k"
proof -
  obtain y where y: "stroop_number k = Fin y" "\<bar>y - of_int k / 10 ^ 7\<bar> \<le> 1 / 80000000"
    using stroop_number_value [OF assms] by blast
  have k: "\<bar>of_int k :: rat\<bar> \<le> 10 ^ 15" using assms by (metis of_int_abs of_int_le_iff of_int_numeral of_int_power)
  have big: "\<bar>y\<bar> < 10 ^ 21" using y(2) k unfolding abs_le_iff abs_less_iff by simp
  note st = stripped_amount [of "nat \<bar>k\<bar>"]
  have dash: "\<not> is_digit_char CHR ''-''" by code_simp
  show ?thesis
  proof (cases "k < 0")
    case True
    then have "(of_int k :: rat) \<le> - 1" by simp
    then have neg: "y < 0" using y(2) unfolding abs_le_iff by simp
    have "toFixed 7 (Fin y) = ''-'' @ fixed_text 7 (nat \<bar>k\<bar>)"
      using toFixed_nearest [OF big, of "nat \<bar>k\<bar>"] y(2) True neg unfolding abs_le_iff abs_less_iff by simp
    then show ?thesis
      using st True by (simp add: split_formatAmount_def AMOUNT_DECIMALS_def y(1) signed_stroops_def Let_def)
  next
    case False
    show ?thesis
    proof (cases "y < 0")
      case True
      then have "of_int k < (1 :: rat)" using y(2) unfolding abs_le_iff by simp
      then have k0: "k = 0" using False by simp
      then have "stroop_number k = Fin 0" by (simp add: stroop_number_def f64_def Let_def not_le)
      with y(1) True show ?thesis by simp
    next
      case y0: False
      have "toFixed 7 (Fin y) = fixed_text 7 (nat \<bar>k\<bar>)"
        using toFixed_nearest [OF big, of "nat \<bar>k\<bar>"] y(2) False y0 unfolding abs_le_iff abs_less_iff by simp
      then show ?thesis
        using st False dash by (auto simp: split_formatAmount_def AMOUNT_DECIMALS_def y(1) signed_stroops_def Let_def)
    qed
  qed
qed

section \<open>What a valid form has\<close>

lemma valid_form:
  assumes "vr_valid (validateShares mode ps t)"
  shows "ps \<noteq> [] \<and> total_errors mode t = [] \<and> (\<forall>p \<in> set ps. fst (share_check mode p) = [])
    \<and> sum_errors mode (roundToPrecision (num_sum (map (snd \<circ> share_check mode) ps)))
        (case t of None \<Rightarrow> None | Some s \<Rightarrow> parseDecimal s) = []
    \<and> vr_amounts (validateShares mode ps t) = foldl (\<lambda>m (p, v). map_set (fst p) (split_formatAmount v) m) []
        (zip ps (resolved_shares mode (case t of None \<Rightarrow> None | Some s \<Rightarrow> parseDecimal s) (map (snd \<circ> share_check mode) ps)))"
proof -
  have ps: "ps \<noteq> []" using assms by (auto simp: validateShares_def)
  define vals where "vals = map (snd \<circ> share_check mode) ps"
  define parsed where "parsed = (case t of None \<Rightarrow> None | Some s \<Rightarrow> parseDecimal s)"
  define te where "te = total_errors mode t"
  define se where "se = concat (map fst (map (share_check mode) ps))"
  define tail where "tail = (if list_ex (\<lambda>e. fst e \<noteq> None) (te @ se) then []
    else sum_errors mode (roundToPrecision (num_sum vals)) parsed)"
  have V: "validateShares mode ps t = (if te @ se @ tail \<noteq> []
      then \<lparr>vr_valid = False, vr_errors = te @ se @ tail, vr_sum = roundToPrecision (num_sum vals), vr_amounts = []\<rparr>
      else \<lparr>vr_valid = True, vr_errors = [], vr_sum = roundToPrecision (num_sum vals),
        vr_amounts = foldl (\<lambda>m (p, v). map_set (fst p) (split_formatAmount v) m) [] (zip ps (resolved_shares mode parsed vals))\<rparr>)"
    unfolding validateShares_def Let_def tail_def te_def se_def vals_def parsed_def
    by (simp only: ps if_False map_map)
  have "te @ se @ tail = []" using assms unfolding V by (cases "te @ se @ tail = []") simp_all
  then have parts: "te = []" "se = []" "tail = []" by simp_all
  then have "sum_errors mode (roundToPrecision (num_sum vals)) parsed = []" by (simp add: tail_def)
  moreover have "\<forall>p \<in> set ps. fst (share_check mode p) = []" using parts(2) by (simp add: se_def)
  ultimately show ?thesis
    using ps parts unfolding V te_def [symmetric] vals_def [symmetric] parsed_def [symmetric] by simp
qed

lemma share_value:
  assumes "fst (share_check mode p) = []"
  shows "\<exists>w. parseDecimal (snd p) = Some (Fin w) \<and> snd (share_check mode p) = Fin w \<and> 0 < w \<and> (mode = PercentageMode \<longrightarrow> w \<le> 100)"
proof (cases "parseDecimal (snd p)")
  case (Some v)
  then obtain w where v: "v = Fin w"
    by (cases v) (auto simp: parseDecimal_def Let_def split: if_splits)
  with Some assms show ?thesis
    by (auto simp: share_check_def num_leq_def whole_def PERCENTAGE_TOTAL_def split: if_splits)
qed (use assms in \<open>simp add: share_check_def\<close>)

lemma map_set_new: "k \<notin> fst ` set m \<Longrightarrow> map_set k v m = m @ [(k, v)]"
  by (induction m) (auto simp: map_set_def)

lemma collected_amounts:
  assumes "distinct (map fst ps)" "length vs = length ps"
  shows "foldl (\<lambda>m (p, v). map_set (fst p) (f v) m) [] (zip ps vs) = zip (map fst ps) (map f vs)"
  using assms
proof (induction ps arbitrary: vs rule: rev_induct)
  case (snoc p ps)
  then obtain us u where vs: "vs = us @ [u]" "length us = length ps" by (cases vs rule: rev_cases) auto
  have "fst p \<notin> fst ` set (zip (map fst ps) (map f us))"
    using snoc.prems(1) by (auto dest: set_zip_leftD)
  then have "map_set (fst p) (f u) (zip (map fst ps) (map f us)) = zip (map fst ps) (map f us) @ [(fst p, f u)]"
    by (rule map_set_new)
  with snoc vs show ?case by simp
qed simp

lemma parsed_amount: "amount_text a \<Longrightarrow> parseDecimal a = Some v \<Longrightarrow> v = stroop_number (int (decimalToStroops a))"
proof -
  assume a: "amount_text a" and v: "parseDecimal a = Some v"
  have t: "js_trim a = a" using amount_ends [OF a] digit_char_facts by (intro js_trim_inner) blast+
  show ?thesis using v by (auto simp: parseDecimal_def Let_def t number_of_amount [OF a] stroop_number_def split: if_splits)
qed

lemma tolerance: "\<exists>e. TOLERANCE = Fin e \<and> \<bar>e - 1 / 20000000\<bar> \<le> 1 / 20000000 / 2 ^ 53"
proof -
  have "pow2 (- 1022) \<le> pow2 (- 25)" by (intro pow2_mono) simp
  also have "\<dots> \<le> 1 / 20000000" by (simp add: pow2_def)
  finally obtain e where e: "f64 (1 / 20000000) = Fin e" "\<bar>e - 1 / 20000000\<bar> \<le> 1 / 20000000 / 2 ^ 53"
    using f64_abs_error [of "1 / 20000000" "1 / 20000000" 1] by auto
  have "f64 (1 / 2) = Fin (1 / 2)" using f64_value [of "- 1" "1 / 2" "2 ^ 52"] by (simp add: pow2_def)
  with e show ?thesis by (intro exI [of _ e]) (simp add: TOLERANCE_def whole_def)
qed

lemma stroop_limit: "n \<le> 10 ^ 15 \<Longrightarrow> \<bar>int n\<bar> \<le> 10 ^ 15"
  by (metis abs_of_nat of_nat_le_iff of_nat_numeral of_nat_power)

lemma stroop_numbers_apart:
  assumes "\<bar>a\<bar> \<le> 10 ^ 15" "\<bar>b\<bar> \<le> 10 ^ 15" "amountsEqual (stroop_number a) (stroop_number b)"
  shows "a = b"
proof -
  obtain x y where xy: "stroop_number a = Fin x" "\<bar>x - of_int a / 10 ^ 7\<bar> \<le> 1 / 80000000"
    "stroop_number b = Fin y" "\<bar>y - of_int b / 10 ^ 7\<bar> \<le> 1 / 80000000"
    using stroop_number_value [OF assms(1)] stroop_number_value [OF assms(2)] by blast
  have "\<bar>of_int a :: rat\<bar> \<le> 10 ^ 15" "\<bar>of_int b :: rat\<bar> \<le> 10 ^ 15"
    using assms(1,2) by (metis of_int_abs of_int_le_iff of_int_numeral of_int_power)+
  then have "\<bar>x - y\<bar> \<le> 200000001" using xy(2,4) unfolding abs_le_iff by simp
  moreover have "pow2 (- 1022) \<le> pow2 0" by (intro pow2_mono) simp
  ultimately obtain d where d: "f64 (x - y) = Fin d" "\<bar>d - (x - y)\<bar> \<le> 200000001 / 2 ^ 53"
    using f64_abs_error [of "x - y" 200000001 200000001] by auto
  obtain e where e: "TOLERANCE = Fin e" "\<bar>e - 1 / 20000000\<bar> \<le> 1 / 20000000 / 2 ^ 53" using tolerance by blast
  have "num_sub (Fin x) (Fin y) = Fin d" using d(1) by (simp add: num_sub_def)
  then have "num_less (num_abs (Fin d)) (Fin e)"
    using assms(3) unfolding amountsEqual_def xy(1,3) e(1) by (simp only:)
  then have "\<bar>d\<bar> < e" by (simp add: num_abs_def whole_def split: if_splits)
  then have "\<bar>of_int a / 10 ^ 7 - of_int b / 10 ^ 7 :: rat\<bar> < 1 / 10 ^ 7"
    using d(2) e(2) xy(2,4) unfolding abs_le_iff abs_less_iff by simp
  then have "\<bar>of_int (a - b) :: rat\<bar> < 1" unfolding abs_less_iff by (simp add: field_simps)
  then have "\<bar>a - b\<bar> < 1" by (metis of_int_abs of_int_less_iff of_int_1)
  then show ?thesis by simp
qed

section \<open>The amounts of a valid form\<close>

lemma stated_total:
  assumes "total_errors mode (Some t) = []" "mode = PercentageMode \<or> js_trim t \<noteq> []" "amount_text t"
  shows "parseDecimal t = Some (stroop_number (int (decimalToStroops t)))"
proof (cases "parseDecimal t")
  case None
  then have "js_trim t = []" using assms(1) by (auto simp: total_errors_def split: if_splits)
  with assms(1,2) show ?thesis by (auto simp: total_errors_def split: if_splits)
next
  case (Some v)
  with parsed_amount [OF assms(3) Some] show ?thesis by simp
qed

lemma formatted_list:
  "\<forall>k \<in> set ks. \<bar>k\<bar> \<le> 10 ^ 15 \<Longrightarrow> map (\<lambda>v. signed_stroops (split_formatAmount v)) (map stroop_number ks) = ks"
  by (induction ks) (simp_all add: formatted_stroops)

lemma zip_snd: "length xs = length ys \<Longrightarrow> map (f \<circ> snd) (zip xs ys) = map f ys"
  by (metis map_map map_snd_zip)

lemma percentage_stroops:
  assumes "vr_valid (validateShares PercentageMode ps (Some t))" "amount_text t" "distinct (map fst ps)"
    "payable (length ps) (int (decimalToStroops t))"
  shows "\<exists>ks. vr_amounts (validateShares PercentageMode ps (Some t))
      = zip (map fst ps) (map (\<lambda>k. split_formatAmount (stroop_number k)) (ks @ [int (decimalToStroops t) - sum_list ks]))
    \<and> length ks + 1 = length ps
    \<and> map stroop_number ks = map (percent_part (stroop_number (int (decimalToStroops t)))) (butlast (map (snd \<circ> share_check PercentageMode) ps))
    \<and> (\<forall>k \<in> set (ks @ [int (decimalToStroops t) - sum_list ks]). \<bar>k\<bar> \<le> 10 ^ 15)"
proof -
  let ?n = "int (decimalToStroops t)" and ?ws = "map (snd \<circ> share_check PercentageMode) ps"
  note form = valid_form [OF assms(1), simplified]
  have ws: "\<forall>v \<in> set ?ws. \<exists>w. v = Fin w \<and> 0 \<le> w \<and> w \<le> 100"
  proof
    fix v assume "v \<in> set ?ws"
    then obtain p where "p \<in> set ps" "v = snd (share_check PercentageMode p)" by auto
    with form share_value [of PercentageMode p] show "\<exists>w. v = Fin w \<and> 0 \<le> w \<and> w \<le> 100" by auto
  qed
  have tot: "parseDecimal t = Some (stroop_number ?n)" using form by (intro stated_total [OF _ _ assms(2)]) auto
  obtain ks where ks: "allocate (stroop_number ?n) ?ws = map stroop_number (ks @ [?n - sum_list ks])"
    "map (percent_part (stroop_number ?n)) (butlast ?ws) = map stroop_number ks" "\<forall>k \<in> set ks. 0 \<le> k \<and> k \<le> ?n"
    using allocated_exactly [of ?ws ?n] assms(4) form ws by auto
  have "length ks = length ps - 1" using arg_cong [OF ks(2), of length] by simp
  then have len: "length ks + 1 = length ps" using form by (simp add: Suc_diff_le)
  have "vr_amounts (validateShares PercentageMode ps (Some t)) = zip (map fst ps) (map split_formatAmount (map stroop_number (ks @ [?n - sum_list ks])))"
    using form len by (simp add: resolved_shares_def tot ks(1) collected_amounts [OF assms(3)] del: map_append)
  moreover have "\<forall>k \<in> set (ks @ [?n - sum_list ks]). \<bar>k\<bar> \<le> 10 ^ 15"
  proof -
    note b = payable_bounds [OF assms(4)]
    have s: "0 \<le> sum_list ks" "sum_list ks \<le> int (length ks) * ?n" using sum_list_upper [OF ks(3)] by simp_all
    have "int (length ks) * ?n \<le> (int (length ps) + 1) * ?n" using b(1) len by (intro mult_right_mono) simp_all
    then have "\<bar>?n - sum_list ks\<bar> \<le> 10 ^ 15" using s b unfolding abs_le_iff by linarith
    then show ?thesis using ks(3) b by fastforce
  qed
  ultimately show ?thesis using ks(2) len by (intro exI [of _ ks]) (simp add: comp_def)
qed

text \<open>
  C15. Percentage shares of a valid form are turned into amounts, one per participant, that add up exactly to the
  stated total, to the stroop and whatever the shares: the rounding of doubles on the way never shows while
  the total times the square of the number of participants stays below \<open>10 ^ 15\<close> stroops.
\<close>

theorem percentage_amounts_sum:
  assumes "vr_valid (validateShares PercentageMode ps (Some t))" "amount_text t" "distinct (map fst ps)"
    "payable (length ps) (int (decimalToStroops t))"
  shows "map fst (vr_amounts (validateShares PercentageMode ps (Some t))) = map fst ps
    \<and> sum_list (map (signed_stroops \<circ> snd) (vr_amounts (validateShares PercentageMode ps (Some t)))) = int (decimalToStroops t)"
proof -
  let ?n = "int (decimalToStroops t)"
  obtain ks where ks: "vr_amounts (validateShares PercentageMode ps (Some t))
      = zip (map fst ps) (map (\<lambda>k. split_formatAmount (stroop_number k)) (ks @ [?n - sum_list ks]))"
    "length ks + 1 = length ps" "\<forall>k \<in> set (ks @ [?n - sum_list ks]). \<bar>k\<bar> \<le> 10 ^ 15"
    using percentage_stroops [OF assms] by blast
  have "map signed_stroops (map (\<lambda>k. split_formatAmount (stroop_number k)) (ks @ [?n - sum_list ks])) = ks @ [?n - sum_list ks]"
    using formatted_list [OF ks(3)] by (simp add: comp_def)
  moreover have "length (map fst ps) = length (map (\<lambda>k. split_formatAmount (stroop_number k)) (ks @ [?n - sum_list ks]))"
    using ks(2) by simp
  ultimately have "map (signed_stroops \<circ> snd) (vr_amounts (validateShares PercentageMode ps (Some t))) = ks @ [?n - sum_list ks]"
    unfolding ks(1) by (simp only: zip_snd)
  then show ?thesis using ks(1,2) by simp
qed

lemma read_amount:
  assumes "amount_text a" "decimal_pattern a" "decimalToStroops a \<le> 10 ^ 15"
  shows "parseDecimal a = Some (stroop_number (int (decimalToStroops a)))"
proof -
  have t: "js_trim a = a" "a \<noteq> []" using amount_ends [OF assms(1)] digit_char_facts by (auto intro!: js_trim_inner)
  obtain y where "stroop_number (int (decimalToStroops a)) = Fin y"
    using stroop_number_value [OF stroop_limit [OF assms(3)]] by blast
  then show ?thesis
    using number_of_amount [OF assms(1)] t assms(2) by (simp add: parseDecimal_def Let_def stroop_number_def)
qed

lemma stroop_number_positive:
  assumes "0 < k" "k \<le> 10 ^ 15"
  shows "\<exists>y. stroop_number k = Fin y \<and> 0 < y"
proof -
  obtain y where y: "stroop_number k = Fin y" "\<bar>y - of_int k / 10 ^ 7\<bar> \<le> 1 / 80000000"
    using stroop_number_value [of k] assms by auto
  have "(1 :: rat) \<le> of_int k" using assms(1) by simp
  with y show ?thesis unfolding abs_le_iff by (intro exI [of _ y]) simp
qed

lemma stated_total_accepted:
  assumes "amount_text t" "decimal_pattern t" "0 < decimalToStroops t" "decimalToStroops t \<le> 10 ^ 15"
  shows "total_errors mode (Some t) = []"
proof -
  have "js_trim t \<noteq> []" using amount_ends [OF assms(1)] digit_char_facts js_trim_inner [of t] by auto
  moreover have "int (decimalToStroops t) \<le> 10 ^ 15" using stroop_limit [OF assms(4)] by linarith
  then obtain y where "stroop_number (int (decimalToStroops t)) = Fin y" "0 < y"
    using stroop_number_positive [of "int (decimalToStroops t)"] assms(3) by auto
  ultimately show ?thesis
    by (simp add: total_errors_def read_amount [OF assms(1,2,4)] num_leq_def whole_def)
qed

lemma amountsEqual_same [simp]: "amountsEqual (Fin x) (Fin x)"
proof -
  obtain e where e: "TOLERANCE = Fin e" "\<bar>e - 1 / 20000000\<bar> \<le> 1 / 20000000 / 2 ^ 53" using tolerance by blast
  have "num_less (Fin 0) (Fin e)" using e(2) unfolding abs_le_iff by simp
  moreover have "f64 0 = Fin 0" using f64_int [of 0] by simp
  ultimately show ?thesis unfolding amountsEqual_def e(1) by (simp add: num_abs_def num_sub_def whole_def)
qed

lemma whole_share:
  assumes "amount_text (snd p)" "decimal_pattern (snd p)" "decimalToStroops (snd p) = m * 10 ^ 7" "0 < m" "m \<le> 100"
  shows "share_check mode p = ([], Fin (of_nat m))"
proof -
  have "stroop_number (int (m * 10 ^ 7)) = Fin (of_nat m)"
    using f64_int [of "int m"] assms(5) by (simp add: stroop_number_def)
  moreover have "m * 10 ^ 7 \<le> 100 * 10 ^ 7" using assms(5) by (intro mult_right_mono) simp_all
  then have "m * 10 ^ 7 \<le> 10 ^ 15" by (rule order_trans) simp
  ultimately have "parseDecimal (snd p) = Some (Fin (of_nat m))" using read_amount [OF assms(1,2)] unfolding assms(3) by simp
  moreover have "(of_nat m :: rat) \<le> 100" using assms(5) by (simp add: of_nat_le_iff [of _ 100, simplified])
  ultimately show ?thesis using assms(4) by (simp add: share_check_def num_leq_def whole_def PERCENTAGE_TOTAL_def)
qed

lemma whole_sum: "sum_list ms < 2 ^ 53 \<Longrightarrow> num_sum (map (\<lambda>m. Fin (of_nat m)) ms) = Fin (of_nat (sum_list ms))"
proof (induction ms rule: rev_induct)
  case (snoc m ms)
  have "int (sum_list ms + m) < 2 ^ 53" using snoc.prems by (simp add: of_nat_less_iff [symmetric] del: of_nat_add)
  then have "f64 (of_int (int (sum_list ms + m))) = Fin (of_int (int (sum_list ms + m)))" by (intro f64_int) simp
  with snoc show ?case by (simp add: num_sum_def)
qed (simp add: num_sum_def whole_def)

lemma whole_percentages_valid:
  assumes "map (share_check PercentageMode) ps = map (\<lambda>m. ([], Fin (of_nat m))) ms" "sum_list ms = 100" "ps \<noteq> []"
    "total_errors PercentageMode t = []"
  shows "vr_valid (validateShares PercentageMode ps t)"
proof -
  have 1: "concat (map fst (map (share_check PercentageMode) ps)) = []" unfolding assms(1) by (simp add: comp_def)
  have 2: "map snd (map (share_check PercentageMode) ps) = map (\<lambda>m. Fin (of_nat m)) ms" unfolding assms(1) by (simp add: comp_def)
  have "f64 100 = Fin 100" using f64_int [of 100] by simp
  then have "roundToPrecision (Fin 100) = Fin 100" using round_to_stroops [of 100 "10 ^ 9"] by (simp add: stroop_number_def)
  moreover have "num_sum (map (\<lambda>m. Fin (of_nat m)) ms) = Fin 100" using whole_sum [of ms] assms(2) by simp
  ultimately have "sum_errors PercentageMode (roundToPrecision (num_sum (map (\<lambda>m. Fin (of_nat m)) ms))) q = []" for q
    by (simp add: sum_errors_def PERCENTAGE_TOTAL_def whole_def)
  then show ?thesis using assms(3,4) unfolding validateShares_def Let_def 1 2 by simp
qed

lemma whole_stroops:
  assumes "list_all is_digit_char w"
  shows "decimalToStroops w = read_digits w * 10 ^ 7"
proof -
  have tw: "takeWhile (\<lambda>c. c \<noteq> CHR ''.'') w = w" using digits_no_dot [OF assms] by blast
  have "decimalToStroops w = read_digits w * 10 ^ 7 + read_digits (replicate 7 CHR ''0'')"
    unfolding decimalToStroops_def Let_def tw by simp
  moreover have "read_digits (replicate 7 CHR ''0'') = 0" by code_simp
  ultimately show ?thesis by simp
qed

theorem percentage_amounts_sum_witness:
  "sum_list (map (signed_stroops \<circ> snd) (vr_amounts (validateShares PercentageMode [(''a'', ''50''), (''b'', ''50'')] (Some ''10'')))) = 100000000"
proof -
  have t: "amount_text ''10''" "amount_text ''50''" "decimal_pattern ''10''" "decimal_pattern ''50''" by code_simp+
  have d: "decimalToStroops ''10'' = 10 * 10 ^ 7" "decimalToStroops ''50'' = 50 * 10 ^ 7"
    by (subst whole_stroops, code_simp, rule arg_cong [where f = "\<lambda>n. n * 10 ^ 7"], code_simp)+
  have sh: "map (share_check PercentageMode) [(''a'', ''50''), (''b'', ''50'')] = map (\<lambda>m. ([], Fin (of_nat m))) [50, 50]"
    using t d(2) by (simp add: whole_share [where m = 50])
  have "total_errors PercentageMode (Some ''10'') = []" by (rule stated_total_accepted [OF t(1,3)]) (simp_all only: d, simp_all)
  then have "vr_valid (validateShares PercentageMode [(''a'', ''50''), (''b'', ''50'')] (Some ''10''))"
    by (intro whole_percentages_valid [OF sh]) simp_all
  then show ?thesis
    using percentage_amounts_sum [of "[(''a'', ''50''), (''b'', ''50'')]" "''10''"] t d by (simp add: payable_def)
qed

text \<open>
  The remainder goes to the last participant whatever its sign: of two stroops split thirty, thirty, thirty
  and ten percent, the first three participants owe one stroop each and the last one owes minus one. The form
  counts as valid.
\<close>

theorem last_share_negative:
  "vr_valid (validateShares PercentageMode [(''a'', ''30''), (''b'', ''30''), (''c'', ''30''), (''d'', ''10'')] (Some ''0.0000002''))
   \<and> map (signed_stroops \<circ> snd) (vr_amounts
        (validateShares PercentageMode [(''a'', ''30''), (''b'', ''30''), (''c'', ''30''), (''d'', ''10'')] (Some ''0.0000002''))) = [1, 1, 1, - 1]"
proof -
  let ?ps = "[(''a'', ''30''), (''b'', ''30''), (''c'', ''30''), (''d'', ''10'')]" and ?t = "''0.0000002''"
  have t: "amount_text ?t" "decimal_pattern ?t" "amount_text ''30''" "decimal_pattern ''30''" "amount_text ''10''" "decimal_pattern ''10''"
    by code_simp+
  have "read_digits ''0'' = 0" "read_digits ''0000002'' = 2" by code_simp+
  then have d: "decimalToStroops ?t = 2" by (simp add: decimalToStroops_def)
  have d': "decimalToStroops ''10'' = 10 * 10 ^ 7" "decimalToStroops ''30'' = 30 * 10 ^ 7"
    by (subst whole_stroops, code_simp, rule arg_cong [where f = "\<lambda>n. n * 10 ^ 7"], code_simp)+
  have sh: "map (share_check PercentageMode) ?ps = map (\<lambda>m. ([], Fin (of_nat m))) [30, 30, 30, 10]"
    using t d' by (simp add: whole_share [where m = 30] whole_share [where m = 10])
  have v: "vr_valid (validateShares PercentageMode ?ps (Some ?t))"
    by (rule whole_percentages_valid [OF sh _ _ stated_total_accepted [OF t(1,2)]]) (simp_all only: d, simp_all)
  have "distinct (map fst ?ps)" "payable (length ?ps) (int (decimalToStroops ?t))" by (simp_all add: d payable_def)
  note exact = percentage_stroops [OF v t(1) this, unfolded d of_nat_numeral]
  obtain ks where ks: "vr_amounts (validateShares PercentageMode ?ps (Some ?t))
      = zip (map fst ?ps) (map (\<lambda>k. split_formatAmount (stroop_number k)) (ks @ [2 - sum_list ks]))"
    "map stroop_number ks = map (percent_part (stroop_number 2)) (butlast (map (snd \<circ> share_check PercentageMode) ?ps))"
    "\<forall>k \<in> set (ks @ [2 - sum_list ks]). \<bar>k\<bar> \<le> 10 ^ 15"
    using exact by blast
  obtain k where k: "percent_part (stroop_number 2) (Fin 30) = stroop_number k" "0 \<le> k" "k \<le> 2"
    "\<bar>of_int k - 2 * 30 / 100 :: rat\<bar> \<le> 1 / 2 + 5 * 2 / 2 ^ 53"
    using part_stroops [of 2 30] by auto
  have "k \<noteq> 0" "k \<noteq> 2" using k(4) by auto
  then have k1: "k = 1" using k(2,3) by linarith
  have "map (snd \<circ> share_check PercentageMode) ?ps = [Fin 30, Fin 30, Fin 30, Fin 10]"
    using arg_cong [OF sh, of "map snd"] by simp
  then have "map stroop_number ks = map stroop_number [1, 1, 1]" using ks(2) k(1) k1 by simp
  then have "map (\<lambda>v. signed_stroops (split_formatAmount v)) (map stroop_number ks) = [1, 1, 1]"
    using formatted_list [of "[1, 1, 1]"] by simp
  then have "ks = [1, 1, 1]" using formatted_list [of ks] ks(3) by simp
  then show ?thesis using v formatted_list [of "[1, 1, 1, - 1]"] by (simp add: ks(1))
qed

section \<open>Amounts given one by one\<close>

lemma entered_amounts:
  assumes "\<forall>p \<in> set ps. amount_text (snd p) \<and> fst (share_check AmountMode p) = []"
  shows "map (snd \<circ> share_check AmountMode) ps = map stroop_number (map (\<lambda>p. int (decimalToStroops (snd p))) ps)"
  using assms
proof (induction ps)
  case (Cons p ps)
  then obtain w where "parseDecimal (snd p) = Some (Fin w)" "snd (share_check AmountMode p) = Fin w"
    using share_value [of AmountMode p] by auto
  moreover have "Fin w = stroop_number (int (decimalToStroops (snd p)))"
    using parsed_amount [OF _ \<open>parseDecimal (snd p) = Some (Fin w)\<close>] Cons.prems by simp
  ultimately show ?case using Cons by simp
qed simp

lemma amounts_added:
  assumes "\<forall>k \<in> set ks. payable (length ks) k" "ks \<noteq> []"
  shows "roundToPrecision (num_sum (map stroop_number ks)) = stroop_number (sum_list ks) \<and> 0 \<le> sum_list ks \<and> sum_list ks \<le> 10 ^ 15"
proof -
  define m where "m = Max (set ks)"
  define L where "L = int (length ks)"
  have m: "payable (length ks) m" "\<forall>k \<in> set ks. 0 \<le> k \<and> k \<le> m"
    using assms payable_bounds(1) by (auto simp: m_def intro: less_imp_le)
  note b = payable_bounds [OF m(1), folded L_def]
  have sum: "0 \<le> sum_list ks" "sum_list ks \<le> L * m" using sum_list_upper [OF m(2)] by (simp_all add: L_def)
  have L1: "1 \<le> L" using assms(2) by (cases ks) (simp_all add: L_def)
  have sum': "sum_list ks \<le> 10 ^ 15" using sum b(1,3) by (simp add: algebra_simps)
  have sq: "(L + 1) * ((L + 1) * m) \<le> 10 ^ 15" using m(1) by (simp add: payable_def L_def power2_eq_square mult.assoc)
  define M where "M = (of_int ((L + 1) * m) / 10 ^ 7 :: rat)"
  have sqM: "(of_int L + 1) * M \<le> 10 ^ 8"
  proof -
    have "(of_int ((L + 1) * ((L + 1) * m)) :: rat) \<le> of_int (10 ^ 15)" using sq by (simp only: of_int_le_iff)
    then show ?thesis by (simp add: M_def)
  qed
  have M1: "1 / 10 ^ 7 \<le> M"
  proof -
    have "1 * 1 \<le> (L + 1) * m" using L1 b(1) by (intro mult_mono) simp_all
    then have "of_int 1 \<le> (of_int ((L + 1) * m) :: rat)" by (simp only: of_int_le_iff)
    then show ?thesis by (simp add: M_def)
  qed
  have M2: "M \<le> 10 ^ 8" using sqM order_trans [OF mult_right_mono [of 1 "of_int L + 1" M]] M1 L1 by simp
  define u where "u = (of_nat (length ks) * (2 * M / 2 ^ 53) :: rat)"
  have "u \<le> 2 / 2 ^ 53 * ((of_int L + 1) * M)" using M1 by (simp add: u_def L_def field_simps)
  also have "\<dots> \<le> 2 / 2 ^ 53 * 10 ^ 8" using sqM by (intro mult_left_mono) simp_all
  also have "\<dots> \<le> 1 / 40000000" by simp
  finally have u: "u \<le> 1 / 40000000" .
  let ?S = "of_int (sum_list ks) / 10 ^ 7 :: rat"
  have "(of_int (sum_list ks) :: rat) \<le> of_int ((L + 1) * m - m)" using sum(2) by (simp only: of_int_le_iff algebra_simps)
  then have "?S \<le> M - of_int m / 10 ^ 7" by (simp add: M_def field_simps)
  moreover have "(1 :: rat) \<le> of_int m" using b(1) by simp
  ultimately have S: "?S \<le> M - 1 / 10 ^ 7" by (simp add: field_simps)
  have "\<forall>k \<in> set ks. 0 \<le> k \<and> of_int k / 10 ^ 7 \<le> M"
  proof (intro ballI conjI)
    fix k assume "k \<in> set ks"
    then have k: "0 \<le> k" "k \<le> m" using m(2) by simp_all
    then show "0 \<le> k" by simp
    have "1 * m \<le> (L + 1) * m" using L1 b(1) by (intro mult_right_mono) simp_all
    then have "(of_int k :: rat) \<le> of_int ((L + 1) * m)" using k(2) by (simp only: of_int_le_iff)
    then show "of_int k / 10 ^ 7 \<le> M" by (simp add: M_def divide_right_mono)
  qed
  moreover have "?S + u \<le> M" using S u by simp
  moreover have "pow2 (- 1022) \<le> M"
  proof -
    have "pow2 (- 1022) \<le> pow2 (- 24)" by (intro pow2_mono) simp
    also have "\<dots> \<le> 1 / 10000000" by (simp add: pow2_def)
    finally show ?thesis using M1 by simp
  qed
  ultimately obtain s where s: "num_sum (map stroop_number ks) = Fin s" "\<bar>s - ?S\<bar> \<le> u"
    using num_sum_error [of ks M] M2 unfolding u_def by auto
  have "0 \<le> ?S" using sum(1) by simp
  then have "\<bar>s\<bar> < 10 ^ 21" using s(2) S u M2 unfolding abs_le_iff abs_less_iff by simp
  moreover have "\<bar>s - ?S\<bar> < 1 / (2 * 10 ^ 7)" using s(2) u by simp
  ultimately show ?thesis using round_to_stroops s(1) sum(1) sum' by simp
qed

lemma signed_zip: "map (\<lambda>(k, a). (k, signed_stroops a)) (zip xs ys) = zip xs (map signed_stroops ys)"
  by (simp add: zip_map2)

text \<open>
  Amounts entered one by one and accepted against a stated total are the amounts owed, unchanged, and add up
  to the total exactly: the tolerance of half a stroop never lets a difference through and the rounding of
  doubles never makes one, within the same bound.
\<close>

theorem entered_amounts_sum:
  assumes "vr_valid (validateShares AmountMode ps (Some t))" "amount_text t" "decimalToStroops t \<le> 10 ^ 15"
    "distinct (map fst ps)" "\<forall>p \<in> set ps. amount_text (snd p) \<and> payable (length ps) (int (decimalToStroops (snd p)))"
  shows "map (\<lambda>(k, a). (k, signed_stroops a)) (vr_amounts (validateShares AmountMode ps (Some t)))
       = map (\<lambda>(k, a). (k, int (decimalToStroops a))) ps
    \<and> sum_list (map (\<lambda>p. int (decimalToStroops (snd p))) ps) = int (decimalToStroops t)"
proof -
  define ks where "ks = map (\<lambda>p. int (decimalToStroops (snd p))) ps"
  let ?n = "int (decimalToStroops t)"
  note form = valid_form [OF assms(1), simplified]
  have tot: "parseDecimal t = Some (stroop_number ?n)"
  proof (cases "js_trim t = []")
    case True
    have "js_trim t = t" "t \<noteq> []" using amount_ends [OF assms(2)] digit_char_facts by (auto intro!: js_trim_inner)
    with True show ?thesis by simp
  next
    case False
    with form show ?thesis by (intro stated_total [OF _ _ assms(2)]) auto
  qed
  have vals: "map (snd \<circ> share_check AmountMode) ps = map stroop_number ks"
    unfolding ks_def using assms(5) form by (intro entered_amounts) blast
  have ksp: "\<forall>k \<in> set ks. payable (length ks) k" "ks \<noteq> []" using assms(5) form by (simp_all add: ks_def)
  note add = amounts_added [OF ksp]
  obtain x where x: "stroop_number ?n = Fin x" "0 < x"
    using form tot stroop_number_value [OF stroop_limit [OF assms(3)]]
    by (auto simp: total_errors_def num_leq_def whole_def split: if_splits)
  have "sum_errors AmountMode (stroop_number (sum_list ks)) (Some (stroop_number ?n)) = []"
    using form vals add tot by simp
  then have "amountsEqual (stroop_number (sum_list ks)) (stroop_number ?n)"
    using x by (auto simp: sum_errors_def whole_def Let_def split: if_splits)
  then have sum: "sum_list ks = ?n"
    using stroop_numbers_apart [of "sum_list ks" ?n] add stroop_limit [OF assms(3)] by simp
  have "\<forall>k \<in> set ks. \<bar>k\<bar> \<le> 10 ^ 15" using ksp(1) payable_bounds(1,2) by fastforce
  then have B: "map signed_stroops (map split_formatAmount (map stroop_number ks)) = ks"
    using formatted_list [of ks] by (simp add: comp_def)
  have A: "vr_amounts (validateShares AmountMode ps (Some t)) = zip (map fst ps) (map split_formatAmount (map stroop_number ks))"
    using form vals by (simp add: resolved_shares_def collected_amounts [OF assms(4)] ks_def)
  have "map (\<lambda>(k, a). (k, signed_stroops a)) (vr_amounts (validateShares AmountMode ps (Some t))) = zip (map fst ps) ks"
    unfolding A signed_zip B ..
  also have "\<dots> = map (\<lambda>(k, a). (k, int (decimalToStroops a))) ps"
    by (simp add: ks_def zip_map_map zip_same_conv_map split_def)
  finally show ?thesis using sum by (simp add: ks_def)
qed

lemma parsed_whole:
  assumes "list_all is_digit_char w" "w \<noteq> []" "read_digits w = m" "m \<le> 10 ^ 8"
  shows "parseDecimal w = Some (Fin (of_nat m))"
proof -
  have tw: "takeWhile is_digit_char w = w" "dropWhile is_digit_char w = []" using assms(1) by (simp_all add: list_all_iff)
  have a: "amount_text w" using assms(2) by (simp add: amount_text_def tw)
  obtain c r where w: "w = c # r" "is_digit_char c" using assms(1,2) by (cases w) auto
  then have "c \<noteq> CHR ''-''" using digit_char_facts by blast
  then have p: "decimal_pattern w" using tw(2) w(1) by (simp add: decimal_pattern_def)
  have d: "decimalToStroops w = m * 10 ^ 7" using whole_stroops [OF assms(1)] assms(3) by simp
  have "m * 10 ^ 7 \<le> 10 ^ 8 * 10 ^ 7" using assms(4) by (rule mult_right_mono) simp
  then have "m * 10 ^ 7 \<le> 10 ^ 15" by (rule order_trans) simp
  moreover have "stroop_number (int (m * 10 ^ 7)) = Fin (of_nat m)"
    using f64_int [of "int m"] assms(4) by (simp add: stroop_number_def)
  ultimately show ?thesis using read_amount [OF a p] unfolding d by simp
qed

theorem entered_amounts_sum_witness:
  "sum_list (map (\<lambda>p. int (decimalToStroops (snd p))) [(''a'', ''1''), (''b'', ''2'')]) = int (decimalToStroops ''3'')"
proof -
  let ?ps = "[(''a'', ''1''), (''b'', ''2'')]"
  have r: "read_digits ''1'' = 1" "read_digits ''2'' = 2" "read_digits ''3'' = 3" by code_simp+
  have g: "list_all is_digit_char ''1''" "list_all is_digit_char ''2''" "list_all is_digit_char ''3''" by code_simp+
  have a: "amount_text ''1''" "amount_text ''2''" "amount_text ''3''" by code_simp+
  note d = g [THEN whole_stroops, unfolded r]
  have p: "parseDecimal ''1'' = Some (Fin 1)" "parseDecimal ''2'' = Some (Fin 2)" "parseDecimal ''3'' = Some (Fin 3)"
    using g [THEN parsed_whole] r by simp_all
  have "f64 3 = Fin 3" using f64_int [of 3] by simp
  then have "roundToPrecision (Fin 3) = Fin 3" using round_to_stroops [of 3 "3 * 10 ^ 7"] by (simp add: stroop_number_def)
  moreover have "num_sum [Fin 1, Fin 2] = Fin 3" using whole_sum [of "[1, 2]"] by simp
  ultimately have "vr_valid (validateShares AmountMode ?ps (Some ''3''))"
    using p by (simp add: validateShares_def total_errors_def share_check_def sum_errors_def num_leq_def whole_def Let_def)
  then show ?thesis using entered_amounts_sum [of ?ps "''3''"] a d by (simp add: payable_def)
qed

section \<open>The states of a bill\<close>

fun page_run :: "(bool \<times> page_event) list \<Rightarrow> split_page \<Rightarrow> split_page" where
  "page_run [] s = s"
| "page_run ((stores, e) # es) s = page_run es (page_step stores e s)"

definition no_bills :: split_page where
  "no_bills = \<lparr>sp_stored = [], sp_shown = []\<rparr>"

text \<open>An open bill with participants waits for one of them.\<close>

definition waits :: "bill \<Rightarrow> bool" where
  "waits b = (bi_status b = BillOpen \<and> bi_participants b \<noteq> [] \<longrightarrow> list_ex (\<lambda>p. pa_status p \<noteq> PPaid) (bi_participants b))"

lemma created_waits:
  "list_all waits bills \<Longrightarrow> length ids = length (bn_participants input) \<Longrightarrow> list_all waits (fst (createSplitBill now i ids bills input))"
  by (cases ids; cases "bn_participants input")
    (auto simp: createSplitBill_def Let_def waits_def new_participant_def split: prod.splits)

lemma updated_waits: "list_all waits bills \<Longrightarrow> list_all waits (updateParticipantStatus now b p status reason hash bills)"
  by (auto simp: updateParticipantStatus_def Let_def list_all_iff waits_def list_ex_iff split: if_split_asm)

lemma cancelled_waits: "list_all waits bills \<Longrightarrow> list_all waits (cancelSplitBill now b bills)"
  by (auto simp: cancelSplitBill_def list_all_iff waits_def)

lemma expired_waits: "list_all waits bills \<Longrightarrow> list_all waits (applyExpirations now bills)"
  by (auto simp: applyExpirations_def expired_bill_def list_all_iff waits_def)

definition event_ids_ok :: "page_event \<Rightarrow> bool" where
  "event_ids_ok e = (case e of CreateBill now i ids input \<Rightarrow> length ids = length (bn_participants input) | _ \<Rightarrow> True)"

lemma page_step_waits:
  assumes "list_all waits (sp_stored s) \<and> list_all waits (sp_shown s)" "event_ids_ok e"
  shows "list_all waits (sp_stored (page_step stores e s)) \<and> list_all waits (sp_shown (page_step stores e s))"
  using assms
  by (cases e) (auto simp: page_write_def event_ids_ok_def intro: created_waits updated_waits cancelled_waits expired_waits)

text \<open>
  Whatever is done on the page and however often the browser refuses a write, an open bill with participants
  always has one who has not paid: a bill is completed with its last payment.
\<close>

theorem open_bill_waits:
  assumes "list_all (\<lambda>(stores, e). event_ids_ok e) es"
  shows "list_all waits (sp_shown (page_run es no_bills))"
proof -
  have "list_all waits (sp_stored s) \<and> list_all waits (sp_shown s) \<Longrightarrow> list_all (\<lambda>(stores, e). event_ids_ok e) es
    \<Longrightarrow> list_all waits (sp_shown (page_run es s))" for s
    by (induction es s rule: page_run.induct) (use page_step_waits in \<open>auto simp del: page_step.simps\<close>)
  then show ?thesis using assms by (simp add: no_bills_def)
qed

definition lunch :: bill_input where
  "lunch = \<lparr>bn_title = ''Lunch'', bn_creatorAddress = ''G'', bn_note = None, bn_ttlSeconds = None,
    bn_participants = [(''A'', None, ''5'', ''XLM'')]\<rparr>"

theorem open_bill_waits_witness:
  "list_all waits (sp_shown (page_run [(True, CreateBill 0 ''b'' [''p''] lunch), (False, CancelBill 1 ''b'')] no_bills))"
  by (rule open_bill_waits) (simp add: event_ids_ok_def lunch_def)

text \<open>
  After the page was opened, no bill it shows is open and past its expiry, and no participant of a bill that
  expired then is still pending.
\<close>

theorem expiry_complete:
  "list_all (\<lambda>b. \<not> (bi_status b = BillOpen \<and> bi_expiresAt b \<le> now)) (sp_shown (page_step stores (OpenPage now) s))
   \<and> list_all (\<lambda>b. bi_status (expired_bill now b) = bi_status b
        \<or> list_all (\<lambda>p. pa_status p \<noteq> PPending) (bi_participants (expired_bill now b))) (sp_stored s)"
  by (auto simp: page_write_def applyExpirations_def expired_bill_def list_all_iff)

text \<open>
  A payment completes a cancelled or expired bill all the same: once every other participant has paid, the
  last payment makes the bill completed whatever its state was, and a payment that is later reported as failed
  leaves it completed.
\<close>

theorem cancelled_bill_completes:
  assumes "b \<in> set bills" "bi_id b = i" "bi_participants b = [p]" "bi_status b = BillCancelled"
  shows "\<exists>c \<in> set (updateParticipantStatus now i (pa_id p) PPaid reason hash bills). bi_id c = i \<and> bi_status c = BillCompleted
    \<and> (\<exists>d \<in> set (updateParticipantStatus now i (pa_id p) PFailed reason hash (updateParticipantStatus now i (pa_id p) PPaid reason hash bills)).
         bi_id d = i \<and> bi_status d = BillCompleted \<and> map pa_status (bi_participants d) = [PFailed])"
proof -
  let ?u = "\<lambda>st q. updated_participant now st reason hash q"
  let ?c = "b\<lparr>bi_participants := [?u PPaid p], bi_status := BillCompleted, bi_updatedAt := now\<rparr>"
  let ?d = "?c\<lparr>bi_participants := [?u PFailed (?u PPaid p)]\<rparr>"
  have st: "pa_status (?u st q) = st" "pa_id (?u st q) = pa_id q" for st q by (simp_all add: updated_participant_def)
  have c: "?c \<in> set (updateParticipantStatus now i (pa_id p) PPaid reason hash bills)"
    unfolding updateParticipantStatus_def set_map using assms st by (intro image_eqI [of _ _ b]) simp_all
  then have "?d \<in> set (updateParticipantStatus now i (pa_id p) PFailed reason hash (updateParticipantStatus now i (pa_id p) PPaid reason hash bills))"
    unfolding updateParticipantStatus_def [of now i "pa_id p" PFailed] set_map using assms st
    by (intro image_eqI [of _ _ ?c]) simp_all
  with c st assms(2) show ?thesis by (intro bexI [of _ ?c] conjI bexI [of _ ?d]) simp_all
qed

theorem cancelled_bill_completes_witness:
  "\<exists>c. c \<in> set (updateParticipantStatus 2 ''b'' ''p'' PPaid None None
      (sp_stored (page_run [(True, CreateBill 0 ''b'' [''p''] lunch), (True, CancelBill 1 ''b'')] no_bills)))
    \<and> bi_status c = BillCompleted"
proof -
  let ?bills = "sp_stored (page_run [(True, CreateBill 0 ''b'' [''p''] lunch), (True, CancelBill 1 ''b'')] no_bills)"
  have b: "?bills = [hd ?bills]" "bi_id (hd ?bills) = ''b''" "bi_status (hd ?bills) = BillCancelled"
    "bi_participants (hd ?bills) = [new_participant ''p'' (''A'', None, ''5'', ''XLM'')]"
    by (simp_all add: no_bills_def page_write_def createSplitBill_def cancelSplitBill_def lunch_def Let_def)
  have "pa_id (new_participant ''p'' (''A'', None, ''5'', ''XLM'')) = ''p''" by (simp add: new_participant_def)
  with cancelled_bill_completes [OF _ b(2,4,3), of ?bills 2 None None] b(1) show ?thesis
    by (metis list.set_intros(1))
qed

end
