(* ===== verification/Contacts.thy ===== *)
theory Contacts
  imports JsValue Recipients
begin

text \<open>
  Saved recipients: the store of the extension (\<open>apps/extension-wallet/src/stores/contacts.ts\<close>) with its
  backups (\<open>utils/contactsIO.ts\<close>), and the storage and hook of the dashboard
  (\<open>apps/web-dashboard/src/services/contactsStorage.ts\<close>, \<open>hooks/useContacts.ts\<close>). The check of an address and the
  parser of JSON are parameters; the clock and the fresh identifiers are arguments.
\<close>

section \<open>Contacts and their operations\<close>

record contact =
  ct_id :: string
  ct_alias :: string
  ct_address :: string
  ct_isFavorite :: bool
  ct_createdAt :: time
  ct_updatedAt :: "time option"

record contact_payload =
  cp_alias :: string
  cp_address :: string
  cp_isFavorite :: "bool option"

record contact_patch =
  cx_alias :: "string option"
  cx_address :: "string option"
  cx_isFavorite :: "bool option"

datatype contact_error = DuplicateAlias string | InvalidContactAddress string

definition alias_taken :: "string \<Rightarrow> contact list \<Rightarrow> bool" where
  "alias_taken a cs = list_ex (\<lambda>c. js_lower (ct_alias c) = js_lower a) cs"

definition new_contact :: "time \<Rightarrow> string \<Rightarrow> contact_payload \<Rightarrow> contact" where
  "new_contact now i p = \<lparr>ct_id = i, ct_alias = js_trim (cp_alias p), ct_address = cp_address p,
     ct_isFavorite = coalesce (cp_isFavorite p) False, ct_createdAt = now, ct_updatedAt = None\<rparr>"

definition patched_contact :: "time \<Rightarrow> contact_patch \<Rightarrow> contact \<Rightarrow> contact" where
  "patched_contact now x c = c\<lparr>ct_alias := (case cx_alias x of None \<Rightarrow> ct_alias c | Some a \<Rightarrow> js_trim a),
     ct_address := coalesce (cx_address x) (ct_address c), ct_isFavorite := coalesce (cx_isFavorite x) (ct_isFavorite c),
     ct_updatedAt := Some now\<rparr>"

definition others :: "string \<Rightarrow> contact list \<Rightarrow> contact list" where
  "others i cs = filter (\<lambda>c. ct_id c \<noteq> i) cs"

definition getContact :: "string \<Rightarrow> contact list \<Rightarrow> contact option" where
  "getContact i cs = find (\<lambda>c. ct_id c = i) cs"

definition getFavorites :: "contact list \<Rightarrow> contact list" where
  "getFavorites cs = filter ct_isFavorite cs"

definition removeContact :: "string \<Rightarrow> contact list \<Rightarrow> contact list" where
  "removeContact i cs = filter (\<lambda>c. ct_id c \<noteq> i) cs"

definition toggleFavorite :: "time \<Rightarrow> string \<Rightarrow> contact list \<Rightarrow> contact list" where
  "toggleFavorite now i cs =
     map (\<lambda>c. if ct_id c = i then c\<lparr>ct_isFavorite := \<not> ct_isFavorite c, ct_updatedAt := Some now\<rparr> else c) cs"

text \<open>The extension checks addresses; \<open>valid\<close> is the SDK's check of a public key.\<close>

definition addContact ::
  "(string \<Rightarrow> bool) \<Rightarrow> time \<Rightarrow> string \<Rightarrow> contact_payload \<Rightarrow> contact list \<Rightarrow> contact_error + contact list \<times> contact" where
  "addContact valid now i p cs =
     (if \<not> valid (cp_address p) then Inl (InvalidContactAddress (cp_address p))
      else if alias_taken (js_trim (cp_alias p)) cs then Inl (DuplicateAlias (js_trim (cp_alias p)))
      else Inr (cs @ [new_contact now i p], new_contact now i p))"

definition updateContact ::
  "(string \<Rightarrow> bool) \<Rightarrow> time \<Rightarrow> string \<Rightarrow> contact_patch \<Rightarrow> contact list \<Rightarrow> contact_error + contact list \<times> contact option" where
  "updateContact valid now i x cs = (case getContact i cs of
       None \<Rightarrow> Inr (cs, None)
     | Some c \<Rightarrow>
         if (case cx_alias x of None \<Rightarrow> False | Some a \<Rightarrow> alias_taken (js_trim a) (others i cs))
         then Inl (DuplicateAlias (coalesce (map_option js_trim (cx_alias x)) []))
         else if (case cx_address x of None \<Rightarrow> False | Some a \<Rightarrow> \<not> valid a)
         then Inl (InvalidContactAddress (coalesce (cx_address x) []))
         else Inr (map (\<lambda>d. if ct_id d = i then patched_contact now x c else d) cs, Some (patched_contact now x c)))"

text \<open>The dashboard leaves the address to its form.\<close>

definition web_addContact ::
  "time \<Rightarrow> string \<Rightarrow> contact_payload \<Rightarrow> contact list \<Rightarrow> contact_error + contact list \<times> contact" where
  "web_addContact now i p cs =
     (if alias_taken (js_trim (cp_alias p)) cs then Inl (DuplicateAlias (js_trim (cp_alias p)))
      else Inr (cs @ [new_contact now i p], new_contact now i p))"

definition web_updateContact ::
  "time \<Rightarrow> string \<Rightarrow> contact_patch \<Rightarrow> contact list \<Rightarrow> contact_error + contact list \<times> contact option" where
  "web_updateContact now i x cs = (case getContact i cs of
       None \<Rightarrow> Inr (cs, None)
     | Some c \<Rightarrow>
         if (case cx_alias x of None \<Rightarrow> False | Some a \<Rightarrow> alias_taken (js_trim a) (others i cs))
         then Inl (DuplicateAlias (coalesce (map_option js_trim (cx_alias x)) []))
         else Inr (map (\<lambda>d. if ct_id d = i then patched_contact now x c else d) cs, Some (patched_contact now x c)))"

text \<open>\<open>/^[a-zA-Z0-9 _-]{1,32}$/\<close> of the trimmed alias.\<close>

definition isValidAlias :: "string \<Rightarrow> bool" where
  "isValidAlias a = (let t = js_trim a in
     1 \<le> length t \<and> length t \<le> 32 \<and> list_all (\<lambda>c. is_alnum_char c \<or> c \<in> {CHR '' '', CHR ''_'', CHR ''-''}) t)"

text \<open>The dashboard's forms take classic accounts only.\<close>

definition contact_address_ok :: "string \<Rightarrow> bool" where
  "contact_address_ok a = isValidStellarAddress a [AccountKind]"

text \<open>What the dashboard takes for a stored contact.\<close>

definition stored_contact_ok :: "js \<Rightarrow> bool" where
  "stored_contact_ok v = (is_object v
     \<and> (case js_get v ''id'' of JsStr _ \<Rightarrow> True | _ \<Rightarrow> False) \<and> (case js_get v ''alias'' of JsStr _ \<Rightarrow> True | _ \<Rightarrow> False)
     \<and> (case js_get v ''address'' of JsStr _ \<Rightarrow> True | _ \<Rightarrow> False)
     \<and> (case js_get v ''isFavorite'' of JsBool _ \<Rightarrow> True | _ \<Rightarrow> False)
     \<and> (case js_get v ''createdAt'' of JsNum _ \<Rightarrow> True | _ \<Rightarrow> False))"

definition loadContacts :: "(string \<Rightarrow> js option) \<Rightarrow> string option \<Rightarrow> js list" where
  "loadContacts json_parse item = (case item of
       None \<Rightarrow> []
     | Some t \<Rightarrow> if t = [] then []
         else (case json_parse t of Some (JsArr vs) \<Rightarrow> filter stored_contact_ok vs | _ \<Rightarrow> []))"

section \<open>The hook of the dashboard\<close>

text \<open>Every operation starts from the stored contacts; a refused write goes unnoticed.\<close>

record contact_page =
  cg_stored :: "contact list"
  cg_shown :: "contact list"
  cg_error :: "contact_error option"

datatype contact_event =
    AddContact time string contact_payload
  | UpdateContact time string contact_patch
  | RemoveContact string
  | ToggleFavorite time string

fun useContacts_step :: "bool \<Rightarrow> contact_event \<Rightarrow> contact_page \<Rightarrow> contact_page" where
  "useContacts_step stores (AddContact now i p) s = (case web_addContact now i p (cg_stored s) of
       Inl e \<Rightarrow> s\<lparr>cg_error := None\<rparr>
     | Inr (cs, _) \<Rightarrow> s\<lparr>cg_stored := (if stores then cs else cg_stored s), cg_shown := cs, cg_error := None\<rparr>)"
| "useContacts_step stores (UpdateContact now i x) s = (case web_updateContact now i x (cg_stored s) of
       Inl e \<Rightarrow> s\<lparr>cg_error := Some e\<rparr>
     | Inr (cs, _) \<Rightarrow> s\<lparr>cg_stored := (if stores then cs else cg_stored s), cg_shown := cs, cg_error := None\<rparr>)"
| "useContacts_step stores (RemoveContact i) s = (let cs = removeContact i (cg_stored s) in
     s\<lparr>cg_stored := (if stores then cs else cg_stored s), cg_shown := cs, cg_error := None\<rparr>)"
| "useContacts_step stores (ToggleFavorite now i) s = (let cs = toggleFavorite now i (cg_stored s) in
     s\<lparr>cg_stored := (if stores then cs else cg_stored s), cg_shown := cs, cg_error := None\<rparr>)"

section \<open>Backups\<close>

datatype io_error =
    EmptyBackup | InvalidJson | BadFormat | EntryNotObject nat | MissingAlias nat | MissingAddress string
  | InvalidBackupAddress string string

definition export_item :: "contact \<Rightarrow> js" where
  "export_item c = JsObj [(''alias'', JsStr (ct_alias c)), (''address'', JsStr (ct_address c)),
     (''isFavorite'', JsBool (ct_isFavorite c))]"

definition exportContactsAsJSON :: "string \<Rightarrow> contact list \<Rightarrow> js" where
  "exportContactsAsJSON exportedAt cs = JsObj [(''version'', JsNum (whole 1)), (''exportedAt'', JsStr exportedAt),
     (''count'', JsNum (whole (int (length cs)))), (''contacts'', JsArr (map export_item cs))]"

definition parse_entry :: "(string \<Rightarrow> bool) \<Rightarrow> nat \<Rightarrow> js \<Rightarrow> io_error + contact_payload" where
  "parse_entry valid i item =
     (if \<not> is_object item then Inl (EntryNotObject i)
      else (case js_get item ''alias'' of
        JsStr a \<Rightarrow>
          if js_trim a = [] then Inl (MissingAlias i)
          else (case js_get item ''address'' of
            JsStr k \<Rightarrow>
              if js_trim k = [] then Inl (MissingAddress a)
              else if \<not> valid (js_trim k) then Inl (InvalidBackupAddress a k)
              else Inr \<lparr>cp_alias = js_trim a, cp_address = js_trim k,
                cp_isFavorite = Some (case js_get item ''isFavorite'' of JsBool b \<Rightarrow> b | _ \<Rightarrow> False)\<rparr>
          | _ \<Rightarrow> Inl (MissingAddress a))
      | _ \<Rightarrow> Inl (MissingAlias i)))"

fun parse_entries :: "(string \<Rightarrow> bool) \<Rightarrow> nat \<Rightarrow> js list \<Rightarrow> io_error + contact_payload list" where
  "parse_entries valid i [] = Inr []"
| "parse_entries valid i (v # vs) = (case parse_entry valid i v of
       Inl e \<Rightarrow> Inl e
     | Inr p \<Rightarrow> (case parse_entries valid (Suc i) vs of Inl e \<Rightarrow> Inl e | Inr ps \<Rightarrow> Inr (p # ps)))"

definition parseContactsJSON :: "(string \<Rightarrow> bool) \<Rightarrow> (string \<Rightarrow> js option) \<Rightarrow> string \<Rightarrow> io_error + contact_payload list" where
  "parseContactsJSON valid json_parse raw =
     (if js_trim raw = [] then Inl EmptyBackup
      else (case json_parse raw of
          None \<Rightarrow> Inl InvalidJson
        | Some (JsArr vs) \<Rightarrow> parse_entries valid 0 vs
        | Some v \<Rightarrow> (if is_object v then (case js_get v ''contacts'' of JsArr vs \<Rightarrow> parse_entries valid 0 vs | _ \<Rightarrow> Inl BadFormat)
                     else Inl BadFormat)))"

datatype import_mode = MergeMode | ReplaceMode

record import_result =
  ir_imported :: nat
  ir_updated :: nat
  ir_skipped :: nat

record import_state =
  is_contacts :: "contact list"
  is_result :: import_result

definition count_imported :: "import_result \<Rightarrow> import_result" where
  "count_imported r = r\<lparr>ir_imported := ir_imported r + 1\<rparr>"

definition count_updated :: "import_result \<Rightarrow> import_result" where
  "count_updated r = r\<lparr>ir_updated := ir_updated r + 1\<rparr>"

definition count_skipped :: "import_result \<Rightarrow> import_result" where
  "count_skipped r = r\<lparr>ir_skipped := ir_skipped r + 1\<rparr>"

definition import_new ::
  "(string \<Rightarrow> bool) \<Rightarrow> time \<Rightarrow> string \<Rightarrow> contact_payload \<Rightarrow> import_state \<Rightarrow> import_state" where
  "import_new valid now i p s = (case addContact valid now i p (is_contacts s) of
       Inl _ \<Rightarrow> s\<lparr>is_result := count_skipped (is_result s)\<rparr>
     | Inr (cs, _) \<Rightarrow> \<lparr>is_contacts = cs, is_result = count_imported (is_result s)\<rparr>)"

text \<open>
  A merge looks an alias up in the contacts the import began with. An update that throws ends the import with
  that error.
\<close>

definition import_merged ::
  "(string \<Rightarrow> bool) \<Rightarrow> time \<Rightarrow> string \<Rightarrow> contact list \<Rightarrow> contact_payload \<Rightarrow> import_state \<Rightarrow> contact_error + import_state" where
  "import_merged valid now i snapshot p s =
     (case find (\<lambda>c. js_lower (ct_alias c) = js_lower (cp_alias p)) snapshot of
        Some c \<Rightarrow>
          if ct_address c \<noteq> cp_address p \<or> Some (ct_isFavorite c) \<noteq> cp_isFavorite p then
            (case updateContact valid now (ct_id c)
                \<lparr>cx_alias = None, cx_address = Some (cp_address p), cx_isFavorite = cp_isFavorite p\<rparr> (is_contacts s) of
               Inl e \<Rightarrow> Inl e
             | Inr (cs, _) \<Rightarrow> Inr \<lparr>is_contacts = cs, is_result = count_updated (is_result s)\<rparr>)
          else Inr (s\<lparr>is_result := count_skipped (is_result s)\<rparr>)
      | None \<Rightarrow> Inr (import_new valid now i p s))"

fun import_all ::
  "(contact_payload \<Rightarrow> nat \<Rightarrow> import_state \<Rightarrow> contact_error + import_state) \<Rightarrow> nat \<Rightarrow> contact_payload list \<Rightarrow> import_state
     \<Rightarrow> contact_error + import_state" where
  "import_all one n [] s = Inr s"
| "import_all one n (p # ps) s = (case one p n s of Inl e \<Rightarrow> Inl e | Inr s' \<Rightarrow> import_all one (Suc n) ps s')"

datatype import_end = BackupRefused io_error | ImportThrew contact_error | Imported import_state

definition importContacts ::
  "(string \<Rightarrow> bool) \<Rightarrow> (string \<Rightarrow> js option) \<Rightarrow> (nat \<Rightarrow> time) \<Rightarrow> (nat \<Rightarrow> string) \<Rightarrow> import_mode \<Rightarrow> string \<Rightarrow> contact list
     \<Rightarrow> import_end" where
  "importContacts valid json_parse clock ids mode raw cs = (case parseContactsJSON valid json_parse raw of
       Inl e \<Rightarrow> BackupRefused e
     | Inr incoming \<Rightarrow>
         (case import_all (\<lambda>p n s. case mode of
                  ReplaceMode \<Rightarrow> Inr (import_new valid (clock n) (ids n) p s)
                | MergeMode \<Rightarrow> import_merged valid (clock n) (ids n) cs p s) 0 incoming
             \<lparr>is_contacts = (case mode of ReplaceMode \<Rightarrow> [] | MergeMode \<Rightarrow> cs),
              is_result = \<lparr>ir_imported = 0, ir_updated = 0, ir_skipped = 0\<rparr>\<rparr> of
            Inl e \<Rightarrow> ImportThrew e | Inr s \<Rightarrow> Imported s))"

section \<open>Books of contacts\<close>

definition book_wf :: "contact list \<Rightarrow> bool" where
  "book_wf cs = (distinct (map ct_id cs) \<and> distinct (map (js_lower \<circ> ct_alias) cs))"

lemma book_wf_Nil [simp]: "book_wf []" by (simp add: book_wf_def)

lemma alias_taken_iff: "alias_taken a cs \<longleftrightarrow> js_lower a \<in> set (map (js_lower \<circ> ct_alias) cs)"
  by (simp add: alias_taken_def list_ex_iff image_iff eq_commute)

lemma new_contact_simps [simp]:
  "ct_id (new_contact now i p) = i" "ct_alias (new_contact now i p) = js_trim (cp_alias p)"
  "ct_address (new_contact now i p) = cp_address p" "ct_isFavorite (new_contact now i p) = coalesce (cp_isFavorite p) False"
  by (simp_all add: new_contact_def)

lemma patched_simps [simp]:
  "ct_id (patched_contact now x c) = ct_id c"
  "ct_alias (patched_contact now x c) = (case cx_alias x of None \<Rightarrow> ct_alias c | Some a \<Rightarrow> js_trim a)"
  by (simp_all add: patched_contact_def)

lemma getContact_Some: "getContact i cs = Some c \<Longrightarrow> c \<in> set cs \<and> ct_id c = i"
  by (auto simp: getContact_def find_Some_iff)

lemma wf_patched:
  assumes "book_wf cs" "getContact i cs = Some c" "\<And>a. cx_alias x = Some a \<Longrightarrow> \<not> alias_taken (js_trim a) (others i cs)"
  shows "book_wf (map (\<lambda>d. if ct_id d = i then patched_contact now x c else d) cs)"
proof -
  note c = getContact_Some [OF assms(2)]
  have same: "d = c" if "d \<in> set cs" "ct_id d = i" for d
    using assms(1) c that by (auto simp: book_wf_def distinct_map dest: inj_onD)
  have ids: "map ct_id (map (\<lambda>d. if ct_id d = i then patched_contact now x c else d) cs) = map ct_id cs"
    using c by simp
  have "distinct (map (js_lower \<circ> ct_alias) (map (\<lambda>d. if ct_id d = i then patched_contact now x c else d) cs))"
    unfolding map_map distinct_map
  proof (intro conjI inj_onI)
    show "distinct cs" using assms(1) by (simp add: book_wf_def distinct_map)
    fix d e assume de: "d \<in> set cs" "e \<in> set cs"
      and eq: "(js_lower \<circ> ct_alias \<circ> (\<lambda>d. if ct_id d = i then patched_contact now x c else d)) d
        = (js_lower \<circ> ct_alias \<circ> (\<lambda>d. if ct_id d = i then patched_contact now x c else d)) e"
    have apart: "js_lower (ct_alias f) \<noteq> js_lower (ct_alias (patched_contact now x c))" if "f \<in> set cs" "ct_id f \<noteq> i" for f
    proof (cases "cx_alias x")
      case None
      with that c assms(1) show ?thesis by (auto simp: book_wf_def distinct_map inj_on_def)
    next
      case (Some a)
      with assms(3) [OF Some] that show ?thesis by (auto simp: alias_taken_def list_ex_iff others_def)
    qed
    show "d = e"
    proof (cases "ct_id d = i \<longleftrightarrow> ct_id e = i")
      case True
      with de eq same assms(1) show ?thesis
        by (cases "ct_id d = i") (auto simp: book_wf_def distinct_map inj_on_def)
    next
      case False
      with de eq apart show ?thesis by (cases "ct_id d = i") force+
    qed
  qed
  with ids assms(1) show ?thesis by (simp only: book_wf_def)
qed

lemma wf_removed: "book_wf cs \<Longrightarrow> book_wf (removeContact i cs)"
  by (auto simp: book_wf_def removeContact_def distinct_map inj_on_def)

lemma toggled_maps:
  "map ct_id (toggleFavorite now i cs) = map ct_id cs" "map ct_alias (toggleFavorite now i cs) = map ct_alias cs"
  by (simp_all add: toggleFavorite_def)

lemma wf_toggled: "book_wf cs \<Longrightarrow> book_wf (toggleFavorite now i cs)"
  using toggled_maps [of now i cs] by (simp add: book_wf_def flip: map_map)

fun added_id :: "contact_event \<Rightarrow> string list" where
  "added_id (AddContact now i p) = [i]"
| "added_id _ = []"

fun book_step ::
  "(time \<Rightarrow> string \<Rightarrow> contact_payload \<Rightarrow> contact list \<Rightarrow> contact_error + contact list \<times> contact)
    \<Rightarrow> (time \<Rightarrow> string \<Rightarrow> contact_patch \<Rightarrow> contact list \<Rightarrow> contact_error + contact list \<times> contact option)
    \<Rightarrow> contact_event \<Rightarrow> contact list \<Rightarrow> contact list" where
  "book_step add update (AddContact now i p) cs = (case add now i p cs of Inl _ \<Rightarrow> cs | Inr (cs', _) \<Rightarrow> cs')"
| "book_step add update (UpdateContact now i x) cs = (case update now i x cs of Inl _ \<Rightarrow> cs | Inr (cs', _) \<Rightarrow> cs')"
| "book_step add update (RemoveContact i) cs = removeContact i cs"
| "book_step add update (ToggleFavorite now i) cs = toggleFavorite now i cs"

text \<open>What the two stores promise of their additions and changes.\<close>

locale contact_book =
  fixes add :: "time \<Rightarrow> string \<Rightarrow> contact_payload \<Rightarrow> contact list \<Rightarrow> contact_error + contact list \<times> contact"
    and update :: "time \<Rightarrow> string \<Rightarrow> contact_patch \<Rightarrow> contact list \<Rightarrow> contact_error + contact list \<times> contact option"
  assumes added: "add now i p cs = Inr (cs', c) \<Longrightarrow>
      cs' = cs @ [new_contact now i p] \<and> \<not> alias_taken (js_trim (cp_alias p)) cs"
    and updated: "update now i x cs = Inr (cs', u) \<Longrightarrow>
      cs' = cs \<or> (\<exists>c. getContact i cs = Some c \<and> cs' = map (\<lambda>d. if ct_id d = i then patched_contact now x c else d) cs
        \<and> (\<forall>a. cx_alias x = Some a \<longrightarrow> \<not> alias_taken (js_trim a) (others i cs)))"
begin

lemma step_wf:
  assumes "book_wf cs" "set (added_id e) \<inter> set (map ct_id cs) = {}"
  shows "book_wf (book_step add update e cs)"
proof (cases e)
  case (AddContact now i p)
  with assms show ?thesis
    by (auto simp: book_wf_def alias_taken_iff dest: added split: sum.splits)
next
  case (UpdateContact now i x)
  then show ?thesis
  proof (cases "update now i x cs")
    case (Inr r)
    then obtain cs' u where r: "update now i x cs = Inr (cs', u)" by (cases r) auto
    with updated [OF r] assms(1) wf_patched have "book_wf cs'" by blast
    with r UpdateContact show ?thesis by simp
  qed (use assms(1) in simp)
qed (use assms(1) wf_removed wf_toggled in simp_all)

lemma step_ids: "set (map ct_id (book_step add update e cs)) \<subseteq> set (map ct_id cs) \<union> set (added_id e)"
proof (cases e)
  case (UpdateContact now i x)
  then show ?thesis
  proof (cases "update now i x cs")
    case (Inr r)
    then obtain cs' u where r: "update now i x cs = Inr (cs', u)" by (cases r) auto
    have keep: "map ct_id (map (\<lambda>d. if ct_id d = i then patched_contact now x c else d) cs) = map ct_id cs" if "getContact i cs = Some c" for c
      using getContact_Some [OF that] by simp
    with updated [OF r] have "map ct_id cs' = map ct_id cs"
      by (elim disjE exE conjE) (simp_all only: keep)
    with r UpdateContact show ?thesis by simp
  qed simp
next
  case (AddContact now i p)
  then show ?thesis by (auto split: sum.splits dest!: added)
qed (auto simp: removeContact_def toggleFavorite_def)

lemma run_wf:
  assumes "book_wf cs" "distinct (concat (map added_id es))" "set (concat (map added_id es)) \<inter> set (map ct_id cs) = {}"
  shows "book_wf (fold (book_step add update) es cs)"
  using assms
proof (induction es arbitrary: cs)
  case (Cons e es)
  have "book_wf (book_step add update e cs)" using Cons.prems by (intro step_wf) auto
  moreover have "set (concat (map added_id es)) \<inter> set (map ct_id (book_step add update e cs)) = {}"
  proof -
    have "set (added_id e) \<inter> set (concat (map added_id es)) = {}" "set (concat (map added_id es)) \<inter> set (map ct_id cs) = {}"
      using Cons.prems(2,3) by auto
    then show ?thesis using step_ids [of e cs] by blast
  qed
  ultimately show ?case using Cons by simp
qed simp

end

interpretation ext_book: contact_book "addContact valid" "updateContact valid"
  by unfold_locales (auto simp: addContact_def updateContact_def split: if_splits option.splits)

interpretation web_book: contact_book web_addContact web_updateContact
  by unfold_locales (auto simp: web_addContact_def web_updateContact_def split: if_splits option.splits)

text \<open>
  C28. Names are unique whatever is done: from an empty book, over any additions, changes, removals and favourites
  with fresh identifiers, no two contacts share an identifier or an alias up to case, in the extension and on
  the page of the dashboard, also when the browser refuses writes there.
\<close>

theorem aliases_stay_unique:
  assumes "distinct (concat (map added_id es))"
  shows "book_wf (fold (book_step (addContact valid) (updateContact valid)) es [])
    \<and> book_wf (fold (book_step web_addContact web_updateContact) es [])"
  using ext_book.run_wf [of "[]" es valid] web_book.run_wf [of "[]" es] assms by simp

definition anna :: contact_payload where
  "anna = \<lparr>cp_alias = '' Anna '', cp_address = ''GA'', cp_isFavorite = None\<rparr>"

theorem aliases_stay_unique_witness:
  "book_wf (fold (book_step (addContact (\<lambda>_. True)) (updateContact (\<lambda>_. True)))
       [AddContact 1 ''a'' anna, AddContact 2 ''b'' (anna\<lparr>cp_alias := ''ANNA''\<rparr>), ToggleFavorite 3 ''a''] [])
   \<and> book_wf (fold (book_step web_addContact web_updateContact)
       [AddContact 1 ''a'' anna, AddContact 2 ''b'' (anna\<lparr>cp_alias := ''ANNA''\<rparr>), ToggleFavorite 3 ''a''] [])"
  by (rule aliases_stay_unique) simp

section \<open>Backups and their import\<close>

definition shown_contact :: "contact \<Rightarrow> string \<times> string \<times> bool" where
  "shown_contact c = (ct_alias c, ct_address c, ct_isFavorite c)"

definition payload_of :: "contact \<Rightarrow> contact_payload" where
  "payload_of c = \<lparr>cp_alias = ct_alias c, cp_address = ct_address c, cp_isFavorite = Some (ct_isFavorite c)\<rparr>"

text \<open>A contact the backup can carry: trimmed, named, with a valid address.\<close>

definition portable :: "(string \<Rightarrow> bool) \<Rightarrow> contact \<Rightarrow> bool" where
  "portable valid c = (ct_alias c \<noteq> [] \<and> js_trim (ct_alias c) = ct_alias c
     \<and> ct_address c \<noteq> [] \<and> js_trim (ct_address c) = ct_address c \<and> valid (ct_address c))"

lemma entry_exported: "portable valid c \<Longrightarrow> parse_entry valid i (export_item c) = Inr (payload_of c)"
  by (simp add: portable_def parse_entry_def export_item_def js_get_def payload_of_def)

lemma entries_exported: "list_all (portable valid) cs \<Longrightarrow> parse_entries valid i (map export_item cs) = Inr (map payload_of cs)"
  by (induction cs arbitrary: i) (simp_all add: entry_exported)

lemma exported_entries:
  assumes "js_trim raw \<noteq> []" "json_parse raw = Some (exportContactsAsJSON stamp cs)"
  shows "parseContactsJSON valid json_parse raw = parse_entries valid 0 (map export_item cs)"
  using assms by (simp add: parseContactsJSON_def exportContactsAsJSON_def js_get_def)

definition restored :: "(nat \<Rightarrow> time) \<Rightarrow> (nat \<Rightarrow> string) \<Rightarrow> nat \<Rightarrow> contact \<Rightarrow> contact" where
  "restored clock ids n c = new_contact (clock n) (ids n) (payload_of c)"

lemma restored_shown: "portable valid c \<Longrightarrow> shown_contact (restored clock ids n c) = shown_contact c"
  by (simp add: restored_def shown_contact_def portable_def payload_of_def)

lemma import_new_accepted:
  assumes "valid (cp_address p)" "\<not> alias_taken (js_trim (cp_alias p)) (is_contacts s)"
  shows "import_new valid now i p s = \<lparr>is_contacts = is_contacts s @ [new_contact now i p], is_result = count_imported (is_result s)\<rparr>"
  using assms by (simp add: import_new_def addContact_def)

lemma replace_all:
  assumes "list_all (portable valid) cs" "distinct (map (js_lower \<circ> ct_alias) (done_cs @ cs))"
    "map shown_contact (is_contacts s) = map shown_contact done_cs"
  shows "\<exists>s'. import_all (\<lambda>p n s. Inr (import_new valid (clock n) (ids n) p s)) k (map payload_of cs) s = Inr s'
    \<and> map shown_contact (is_contacts s') = map shown_contact (done_cs @ cs)
    \<and> is_result s' = (is_result s)\<lparr>ir_imported := ir_imported (is_result s) + length cs\<rparr>"
  using assms
proof (induction cs arbitrary: s k done_cs)
  case (Cons c cs)
  have al: "map (js_lower \<circ> ct_alias) (is_contacts s) = map (js_lower \<circ> ct_alias) done_cs"
    using arg_cong [OF Cons.prems(3), of "map (js_lower \<circ> fst)"] by (simp add: shown_contact_def comp_def)
  have c: "portable valid c" using Cons.prems(1) by simp
  have "\<not> alias_taken (js_trim (cp_alias (payload_of c))) (is_contacts s)"
    using Cons.prems(2) c unfolding alias_taken_iff al by (auto simp: payload_of_def portable_def)
  then have step: "import_new valid (clock k) (ids k) (payload_of c) s
      = \<lparr>is_contacts = is_contacts s @ [restored clock ids k c], is_result = count_imported (is_result s)\<rparr>"
    using c by (simp add: import_new_accepted restored_def portable_def payload_of_def)
  have "\<exists>s'. import_all (\<lambda>p n s. Inr (import_new valid (clock n) (ids n) p s)) (Suc k) (map payload_of cs)
        \<lparr>is_contacts = is_contacts s @ [restored clock ids k c], is_result = count_imported (is_result s)\<rparr> = Inr s'
    \<and> map shown_contact (is_contacts s') = map shown_contact ((done_cs @ [c]) @ cs)
    \<and> is_result s' = (count_imported (is_result s))\<lparr>ir_imported := ir_imported (count_imported (is_result s)) + length cs\<rparr>"
    using Cons.IH [of "done_cs @ [c]" "\<lparr>is_contacts = is_contacts s @ [restored clock ids k c], is_result = count_imported (is_result s)\<rparr>" "Suc k"]
      Cons.prems restored_shown [OF c] by simp
  with step show ?case by (auto simp: count_imported_def)
qed simp

text \<open>
  C27. A backup restores the book: a book with unique names whose contacts a backup can carry comes back from its
  own export, in place of whatever was there, with every alias, address and favourite in the same order and
  every contact counted as imported. Identifiers and dates are new.
\<close>

theorem backup_restores:
  assumes "book_wf cs" "list_all (portable valid) cs" "js_trim raw \<noteq> []" "json_parse raw = Some (exportContactsAsJSON stamp cs)"
  shows "\<exists>s. importContacts valid json_parse clock ids ReplaceMode raw old = Imported s
    \<and> map shown_contact (is_contacts s) = map shown_contact cs
    \<and> is_result s = \<lparr>ir_imported = length cs, ir_updated = 0, ir_skipped = 0\<rparr>"
  using replace_all [of valid cs "[]" "\<lparr>is_contacts = [], is_result = \<lparr>ir_imported = 0, ir_updated = 0, ir_skipped = 0\<rparr>\<rparr>" clock ids 0]
    assms(1,2) exported_entries [of raw json_parse, OF assms(3,4), of valid]
  by (auto simp: importContacts_def entries_exported book_wf_def)

definition saved_anna :: contact where
  "saved_anna = \<lparr>ct_id = ''a'', ct_alias = ''Anna'', ct_address = ''GA'', ct_isFavorite = True, ct_createdAt = 1, ct_updatedAt = None\<rparr>"

theorem backup_restores_witness:
  "\<exists>s. importContacts (\<lambda>_. True) (\<lambda>_. Some (exportContactsAsJSON ''2026'' [saved_anna])) (\<lambda>_. 5) (\<lambda>_. ''b'') ReplaceMode ''{}'' [] = Imported s
    \<and> map shown_contact (is_contacts s) = map shown_contact [saved_anna]
    \<and> is_result s = \<lparr>ir_imported = length [saved_anna], ir_updated = 0, ir_skipped = 0\<rparr>"
  by (rule backup_restores [where stamp = "''2026''"])
    (simp_all add: book_wf_def portable_def saved_anna_def js_trim_def is_js_space_def char_code_def)

lemma blank_refused:
  assumes "list_ex (\<lambda>c. js_trim (ct_alias c) = []) cs"
  shows "\<exists>e. parse_entries valid i (map export_item cs) = Inl e"
  using assms
proof (induction cs arbitrary: i)
  case (Cons c cs)
  show ?case
  proof (cases "parse_entry valid i (export_item c)")
    case (Inr p)
    then have "js_trim (ct_alias c) \<noteq> []" by (auto simp: parse_entry_def export_item_def js_get_def split: if_splits)
    with Cons obtain e where "parse_entries valid (Suc i) (map export_item cs) = Inl e" by auto
    with Inr show ?thesis by simp
  qed simp
qed simp

text \<open>
  One contact whose alias is blank, which the store accepts, makes every backup of the book useless: it is
  refused as a whole.
\<close>

theorem blank_alias_spoils_backup:
  assumes "valid a" "\<not> alias_taken [] cs" "js_trim raw \<noteq> []"
    "json_parse raw = Some (exportContactsAsJSON stamp (cs @ [new_contact now i \<lparr>cp_alias = '' '', cp_address = a, cp_isFavorite = None\<rparr>]))"
  shows "addContact valid now i \<lparr>cp_alias = '' '', cp_address = a, cp_isFavorite = None\<rparr> cs
      = Inr (cs @ [new_contact now i \<lparr>cp_alias = '' '', cp_address = a, cp_isFavorite = None\<rparr>],
             new_contact now i \<lparr>cp_alias = '' '', cp_address = a, cp_isFavorite = None\<rparr>)
    \<and> (\<exists>e. importContacts valid json_parse clock ids mode raw old = BackupRefused e)"
proof -
  have t: "js_trim '' '' = []" by code_simp
  let ?c = "new_contact now i \<lparr>cp_alias = '' '', cp_address = a, cp_isFavorite = None\<rparr>"
  have "list_ex (\<lambda>c. js_trim (ct_alias c) = []) (cs @ [?c])" using t by simp
  from blank_refused [OF this, of valid 0] obtain e where "parse_entries valid 0 (map export_item (cs @ [?c])) = Inl e" by blast
  then have "importContacts valid json_parse clock ids mode raw old = BackupRefused e"
    unfolding importContacts_def exported_entries [of raw json_parse, OF assms(3,4)] by simp
  then show ?thesis using assms(1,2) t by (simp add: addContact_def)
qed

theorem blank_alias_spoils_backup_witness:
  "\<exists>e. importContacts (\<lambda>_. True) (\<lambda>_. Some (exportContactsAsJSON ''2026''
       ([] @ [new_contact 1 ''a'' \<lparr>cp_alias = '' '', cp_address = ''GA'', cp_isFavorite = None\<rparr>]))) (\<lambda>_. 5) (\<lambda>_. ''b'') ReplaceMode ''{}'' []
     = BackupRefused e"
proof -
  have "js_trim ''{}'' \<noteq> []" by code_simp
  then show ?thesis
    using blank_alias_spoils_backup [where valid = "\<lambda>_. True" and cs = "[]" and raw = "''{}''" and stamp = "''2026''" and now = 1 and i = "''a''"
      and a = "''GA''" and clock = "\<lambda>_. 5" and ids = "\<lambda>_. ''b''" and mode = ReplaceMode and old = "[]"
      and json_parse = "\<lambda>_. Some (exportContactsAsJSON ''2026'' ([] @ [new_contact 1 ''a'' \<lparr>cp_alias = '' '', cp_address = ''GA'', cp_isFavorite = None\<rparr>]))"]
    by (simp add: alias_taken_def)
qed

section \<open>Merging\<close>

lemma parsed_valid: "parse_entries valid i vs = Inr ps \<Longrightarrow> \<forall>p \<in> set ps. valid (cp_address p)"
proof (induction vs arbitrary: i ps)
  case (Cons v vs)
  then show ?case
    by (auto simp: parse_entry_def split: sum.splits if_splits js.splits)
qed simp

lemma parsed_backup_valid: "parseContactsJSON valid json_parse raw = Inr ps \<Longrightarrow> \<forall>p \<in> set ps. valid (cp_address p)"
  by (auto simp: parseContactsJSON_def dest: parsed_valid split: if_splits option.splits js.splits)

lemma trim_twice [simp]: "js_trim (js_trim s) = js_trim s"
proof -
  have "dropWhile is_js_space (js_trim s) = js_trim s"
  proof (cases "dropWhile is_js_space s")
    case Nil
    show ?thesis unfolding js_trim_def Nil by simp
  next
    case (Cons d t)
    then have d: "\<not> is_js_space d" by (metis dropWhile_eq_Cons_conv)
    have "js_trim s = rev (dropWhile is_js_space (rev t @ [d]))" unfolding js_trim_def Cons by simp
    also have "\<dots> = d # rev (dropWhile is_js_space (rev t))" using d by (auto simp: dropWhile_append)
    finally show ?thesis using d by simp
  qed
  then show ?thesis by (simp add: js_trim_def)
qed

lemma parsed_trimmed: "parse_entries valid i vs = Inr ps \<Longrightarrow> \<forall>p \<in> set ps. js_trim (cp_alias p) = cp_alias p"
proof (induction vs arbitrary: i ps)
  case (Cons v vs)
  then show ?case by (auto simp: parse_entry_def split: sum.splits if_splits js.splits)
qed simp

definition aliases :: "contact list \<Rightarrow> string set" where
  "aliases cs = set (map (js_lower \<circ> ct_alias) cs)"

definition counted :: "import_result \<Rightarrow> nat" where
  "counted r = ir_imported r + ir_updated r + ir_skipped r"

text \<open>What a step of a merge keeps: the names of the book it began with stay, and no update ever fails.\<close>

definition merge_inv :: "contact list \<Rightarrow> import_state \<Rightarrow> string set \<Rightarrow> bool" where
  "merge_inv old s used = (book_wf (is_contacts s) \<and> set (map ct_id (is_contacts s)) \<subseteq> set (map ct_id old) \<union> used
     \<and> (\<forall>c \<in> set old. \<exists>d \<in> set (is_contacts s). ct_id d = ct_id c \<and> ct_alias d = ct_alias c))"

lemma merged_step:
  assumes "book_wf old" "merge_inv old s used" "valid (cp_address p)" "js_trim (cp_alias p) = cp_alias p" "i \<notin> used" "i \<notin> set (map ct_id old)"
  shows "\<exists>s'. import_merged valid now i old p s = Inr s' \<and> merge_inv old s' (insert i used)
    \<and> aliases (is_contacts s') = insert (js_lower (cp_alias p)) (aliases (is_contacts s))
    \<and> counted (is_result s') = counted (is_result s) + 1"
proof (cases "find (\<lambda>c. js_lower (ct_alias c) = js_lower (cp_alias p)) old")
  case None
  have wf: "book_wf (is_contacts s)" using assms(2) by (simp add: merge_inv_def)
  show ?thesis
  proof (cases "alias_taken (cp_alias p) (is_contacts s)")
    case True
    then have "import_new valid now i p s = s\<lparr>is_result := count_skipped (is_result s)\<rparr>"
      using assms(3,4) by (simp add: import_new_def addContact_def)
    moreover have "js_lower (cp_alias p) \<in> aliases (is_contacts s)" using True by (simp add: alias_taken_iff aliases_def)
    ultimately show ?thesis
      using None assms(2) by (auto simp: import_merged_def merge_inv_def counted_def count_skipped_def)
  next
    case False
    then have new: "import_new valid now i p s = \<lparr>is_contacts = is_contacts s @ [new_contact now i p], is_result = count_imported (is_result s)\<rparr>"
      using assms(3,4) import_new_accepted by simp
    have "i \<notin> set (map ct_id (is_contacts s))" using assms(2,5,6) by (auto simp: merge_inv_def)
    then have "book_wf (is_contacts s @ [new_contact now i p])"
      using wf False assms(4) by (auto simp: book_wf_def alias_taken_iff)
    moreover have "\<exists>d \<in> set (is_contacts s @ [new_contact now i p]). ct_id d = ct_id c \<and> ct_alias d = ct_alias c" if "c \<in> set old" for c
      using assms(2) that unfolding merge_inv_def by (metis UnI1 set_append)
    ultimately have "merge_inv old \<lparr>is_contacts = is_contacts s @ [new_contact now i p], is_result = count_imported (is_result s)\<rparr> (insert i used)"
      using assms(2) by (auto simp: merge_inv_def)
    then show ?thesis
      using None new assms(4) by (simp add: import_merged_def aliases_def counted_def count_imported_def)
  qed
next
  case (Some c)
  then have c: "c \<in> set old" "js_lower (ct_alias c) = js_lower (cp_alias p)" by (auto simp: find_Some_iff)
  obtain d where d: "d \<in> set (is_contacts s)" "ct_id d = ct_id c" "ct_alias d = ct_alias c"
    using assms(2) c(1) by (auto simp: merge_inv_def)
  have al: "js_lower (cp_alias p) \<in> aliases (is_contacts s)" using d c(2) by (auto simp: aliases_def image_iff intro!: bexI [of _ d])
  show ?thesis
  proof (cases "ct_address c \<noteq> cp_address p \<or> Some (ct_isFavorite c) \<noteq> cp_isFavorite p")
    case False
    then show ?thesis
      using Some assms(2) al by (auto simp: import_merged_def merge_inv_def counted_def count_skipped_def)
  next
    case True
    let ?x = "\<lparr>cx_alias = None, cx_address = Some (cp_address p), cx_isFavorite = cp_isFavorite p\<rparr>"
    have wf: "book_wf (is_contacts s)" using assms(2) by (simp add: merge_inv_def)
    obtain e where e: "getContact (ct_id c) (is_contacts s) = Some e"
      using d by (cases "getContact (ct_id c) (is_contacts s)") (auto simp: getContact_def find_None_iff)
    have e': "e \<in> set (is_contacts s)" "ct_id e = ct_id c" using getContact_Some [OF e] by simp_all
    let ?cs = "map (\<lambda>f. if ct_id f = ct_id c then patched_contact now ?x e else f) (is_contacts s)"
    have up: "updateContact valid now (ct_id c) ?x (is_contacts s) = Inr (?cs, Some (patched_contact now ?x e))"
      using assms(3) by (simp add: updateContact_def e)
    have inj: "inj_on ct_id (set (is_contacts s))" using wf by (simp add: book_wf_def distinct_map)
    have same: "f = e" if "f \<in> set (is_contacts s)" "ct_id f = ct_id c" for f
      by (rule inj_onD [OF inj]) (use that e' in simp_all)
    have als: "map ct_alias ?cs = map ct_alias (is_contacts s)" using same by auto
    have ids: "map ct_id ?cs = map ct_id (is_contacts s)" using e' by simp
    have "book_wf ?cs" using wf_patched [OF wf e, of ?x] by simp
    moreover have "\<exists>g \<in> set ?cs. ct_id g = ct_id f \<and> ct_alias g = ct_alias f" if f: "f \<in> set old" for f
    proof -
      obtain g where g: "g \<in> set (is_contacts s)" "ct_id g = ct_id f" "ct_alias g = ct_alias f"
        using assms(2) f unfolding merge_inv_def by blast
      let ?g = "if ct_id g = ct_id c then patched_contact now ?x e else g"
      have "?g \<in> set ?cs" using g(1) by auto
      moreover have "ct_id ?g = ct_id f \<and> ct_alias ?g = ct_alias f" using g same e' by auto
      ultimately show ?thesis by blast
    qed
    moreover have "set (map ct_id ?cs) \<subseteq> set (map ct_id old) \<union> used" unfolding ids using assms(2) by (simp add: merge_inv_def)
    ultimately have "merge_inv old \<lparr>is_contacts = ?cs, is_result = count_updated (is_result s)\<rparr> (insert i used)"
      by (auto simp: merge_inv_def)
    moreover have "aliases ?cs = insert (js_lower (cp_alias p)) (aliases (is_contacts s))"
      using al arg_cong [OF als, of "\<lambda>xs. set (map js_lower xs)"] by (auto simp: aliases_def comp_def)
    moreover have "import_merged valid now i old p s = Inr \<lparr>is_contacts = ?cs, is_result = count_updated (is_result s)\<rparr>"
      using Some True up by (simp add: import_merged_def)
    ultimately show ?thesis by (auto simp: counted_def count_updated_def)
  qed
qed

lemma merged_all:
  assumes "book_wf old" "merge_inv old s used" "\<forall>p \<in> set ps. valid (cp_address p)" "\<forall>p \<in> set ps. js_trim (cp_alias p) = cp_alias p"
    "inj ids" "range ids \<inter> set (map ct_id old) = {}" "\<forall>n \<ge> k. ids n \<notin> used"
  shows "\<exists>s'. import_all (\<lambda>p n s. import_merged valid (clock n) (ids n) old p s) k ps s = Inr s' \<and> book_wf (is_contacts s')
    \<and> aliases (is_contacts s') = aliases (is_contacts s) \<union> (js_lower \<circ> cp_alias) ` set ps
    \<and> counted (is_result s') = counted (is_result s) + length ps"
  using assms(2,3,4,7)
proof (induction ps arbitrary: s used k)
  case Nil
  then show ?case by (simp add: merge_inv_def)
next
  case (Cons p ps)
  have "ids k \<notin> used" "ids k \<notin> set (map ct_id old)" using Cons.prems(4) assms(6) by auto
  then obtain s1 where s1: "import_merged valid (clock k) (ids k) old p s = Inr s1" "merge_inv old s1 (insert (ids k) used)"
    "aliases (is_contacts s1) = insert (js_lower (cp_alias p)) (aliases (is_contacts s))"
    "counted (is_result s1) = counted (is_result s) + 1"
    using merged_step [OF assms(1) Cons.prems(1), of valid p "ids k" "clock k"] Cons.prems(2,3) by auto
  have later: "\<forall>n \<ge> Suc k. ids n \<notin> insert (ids k) used"
    using Cons.prems(4) injD [OF assms(5)] by (metis Suc_leD insertE not_less_eq_eq order_refl)
  then obtain s2 where "import_all (\<lambda>p n s. import_merged valid (clock n) (ids n) old p s) (Suc k) ps s1 = Inr s2" "book_wf (is_contacts s2)"
    "aliases (is_contacts s2) = aliases (is_contacts s1) \<union> (js_lower \<circ> cp_alias) ` set ps"
    "counted (is_result s2) = counted (is_result s1) + length ps"
    using Cons.IH [OF s1(2) _ _ later] Cons.prems(2,3) by auto
  with s1 show ?case by auto
qed

text \<open>
  A merge never fails and loses nobody: it ends with a book of unique names whose names are those that were
  there and those of the backup, and every entry of the backup is counted once as imported, updated or
  skipped.
\<close>

theorem merge_exact:
  assumes "book_wf cs" "parseContactsJSON valid json_parse raw = Inr incoming" "inj ids" "range ids \<inter> set (map ct_id cs) = {}"
  shows "\<exists>s. importContacts valid json_parse clock ids MergeMode raw cs = Imported s \<and> book_wf (is_contacts s)
    \<and> aliases (is_contacts s) = aliases cs \<union> (js_lower \<circ> cp_alias) ` set incoming
    \<and> counted (is_result s) = length incoming"
proof -
  let ?s = "\<lparr>is_contacts = cs, is_result = \<lparr>ir_imported = 0, ir_updated = 0, ir_skipped = 0\<rparr>\<rparr>"
  have "merge_inv cs ?s {}" using assms(1) by (auto simp: merge_inv_def)
  moreover have "\<forall>p \<in> set incoming. js_trim (cp_alias p) = cp_alias p"
    using assms(2) parsed_trimmed by (auto simp: parseContactsJSON_def split: if_splits option.splits js.splits)
  ultimately show ?thesis
    using merged_all [OF assms(1) _ parsed_backup_valid [OF assms(2)] _ assms(3,4), of ?s "{}" 0 clock] assms(2)
    by (auto simp: importContacts_def counted_def)
qed

theorem merge_exact_witness:
  "\<exists>s. importContacts (\<lambda>_. True) (\<lambda>_. Some (exportContactsAsJSON ''2026'' [saved_anna])) (\<lambda>_. 5) (\<lambda>n. replicate n CHR ''x'') MergeMode ''{}'' [saved_anna]
      = Imported s \<and> book_wf (is_contacts s)
    \<and> aliases (is_contacts s) = aliases [saved_anna] \<union> (js_lower \<circ> cp_alias) ` set [payload_of saved_anna]
    \<and> counted (is_result s) = length [payload_of saved_anna]"
proof (rule merge_exact)
  have "js_trim ''{}'' \<noteq> []" by code_simp
  then show "parseContactsJSON (\<lambda>_. True) (\<lambda>_. Some (exportContactsAsJSON ''2026'' [saved_anna])) ''{}'' = Inr [payload_of saved_anna]"
    using exported_entries [of "''{}''" "\<lambda>_. Some (exportContactsAsJSON ''2026'' [saved_anna])" "''2026''" "[saved_anna]" "\<lambda>_. True"]
      entries_exported [of "\<lambda>_. True" "[saved_anna]" 0]
    by (simp add: portable_def saved_anna_def js_trim_def is_js_space_def char_code_def)
  show "inj (\<lambda>n. replicate n CHR ''x'')" by (rule injI) (metis length_replicate)
  show "range (\<lambda>n. replicate n CHR ''x'') \<inter> set (map ct_id [saved_anna]) = {}"
    by (auto simp: saved_anna_def Cons_replicate_eq)
qed (simp add: book_wf_def)

text \<open>
  The page of the dashboard notices a refused change of a contact but not a refused addition: after a second
  contact of the same name it shows no error.
\<close>

theorem refused_addition_unseen:
  assumes "alias_taken (js_trim (cp_alias p)) (cg_stored s)"
  shows "useContacts_step stores (AddContact now i p) s = s\<lparr>cg_error := None\<rparr>
    \<and> (\<forall>c. getContact j (cg_stored s) = Some c \<and> alias_taken (js_trim (cp_alias p)) (others j (cg_stored s)) \<longrightarrow>
        cg_error (useContacts_step stores (UpdateContact now j \<lparr>cx_alias = Some (cp_alias p), cx_address = None, cx_isFavorite = None\<rparr>) s)
          = Some (DuplicateAlias (js_trim (cp_alias p))))"
  using assms by (simp add: web_addContact_def web_updateContact_def)

theorem refused_addition_unseen_witness:
  "useContacts_step True (AddContact 2 ''b'' (anna\<lparr>cp_alias := ''anna''\<rparr>)) \<lparr>cg_stored = [saved_anna], cg_shown = [saved_anna], cg_error = None\<rparr>
     = \<lparr>cg_stored = [saved_anna], cg_shown = [saved_anna], cg_error = None\<rparr>"
proof -
  have "alias_taken (js_trim (cp_alias (anna\<lparr>cp_alias := ''anna''\<rparr>))) [saved_anna]"
    by (simp add: anna_def saved_anna_def alias_taken_def) code_simp
  then show ?thesis
    using refused_addition_unseen [of "anna\<lparr>cp_alias := ''anna''\<rparr>" "\<lparr>cg_stored = [saved_anna], cg_shown = [saved_anna], cg_error = None\<rparr>" True 2 "''b''" "''z''"]
    by simp
qed

end
