(* ===== verification/PaymentRequests.thy ===== *)
theory PaymentRequests
  imports SplitBill SdkErrors AccountSequence
begin

text \<open>
  Amounts and payment requests from outside: \<open>packages/core-sdk/src/amount.ts\<close>,
  \<open>packages/core-sdk/src/payment-request.ts\<close>, and the requests a wallet hands out
  (\<open>apps/extension-wallet/src/hooks/usePaymentRequest.ts\<close>). The check of a key is the SDK's; \<open>shown\<close> is
  \<open>String(value)\<close>. A bound given as a number is the text \<open>String\<close> makes of it.
\<close>

section \<open>Normal amounts\<close>

record normalization_options =
  no_precision :: nat
  no_min :: string
  no_max :: "string option"
  no_allowZero :: bool

definition DEFAULT_NORMALIZATION :: normalization_options where
  "DEFAULT_NORMALIZATION = \<lparr>no_precision = 7, no_min = ''0'', no_max = None, no_allowZero = False\<rparr>"

datatype amount_input = NoAmount | AmountText string | AmountNumber number

text \<open>\<open>/^-?\d+(\.\d+)?$/\<close>.\<close>

definition plain_decimal :: "string \<Rightarrow> bool" where
  "plain_decimal s =
     (let r = (case s of [] \<Rightarrow> [] | c # t \<Rightarrow> if c = CHR ''-'' then t else s)
      in takeWhile is_digit_char r \<noteq> [] \<and> (case dropWhile is_digit_char r of
           [] \<Rightarrow> True | c # f \<Rightarrow> c = CHR ''.'' \<and> f \<noteq> [] \<and> list_all is_digit_char f))"

text \<open>The first two parts of \<open>split('.')\<close>.\<close>

definition split_point :: "string \<Rightarrow> string \<times> string" where
  "split_point s = (let w = takeWhile (\<lambda>c. c \<noteq> CHR ''.'') s
     in (w, takeWhile (\<lambda>c. c \<noteq> CHR ''.'') (drop (Suc (length w)) s)))"

definition toScaledBigInt :: "string \<Rightarrow> nat \<Rightarrow> sdk_error + int" where
  "toScaledBigInt val precision = (case split_point val of (w, f) \<Rightarrow>
     (case js_bigint (w @ take precision (f @ replicate (precision - length f) CHR ''0'')) of
        None \<Rightarrow> Inl (InvalidAmountError (''Failed to parse numeric value: '' @ val))
      | Some n \<Rightarrow> Inr n))"

definition amount_shown :: "(number \<Rightarrow> string) \<Rightarrow> amount_input \<Rightarrow> string" where
  "amount_shown shown a = (case a of NoAmount \<Rightarrow> ''undefined'' | AmountText s \<Rightarrow> s | AmountNumber n \<Rightarrow> shown n)"

text \<open>\<open>slice(0, -0)\<close> is empty and \<open>slice(-0)\<close> is the whole text.\<close>

definition scaled_text :: "nat \<Rightarrow> int \<Rightarrow> string" where
  "scaled_text precision k =
     (let digits = show_nat (nat \<bar>k\<bar>);
          raw = replicate (Suc precision - length digits) CHR ''0'' @ digits;
          head = (if precision = 0 then [] else take (length raw - precision) raw);
          finalInteger = (if head = [] then ''0'' else head);
          finalFraction = rev (dropWhile (\<lambda>c. c = CHR ''0'')
             (rev (if precision = 0 then raw else drop (length raw - precision) raw)))
      in (if k < 0 then ''-'' else [])
         @ (if finalFraction \<noteq> [] then finalInteger @ CHR ''.'' # finalFraction else finalInteger))"

definition normalizeAmount ::
  "(number \<Rightarrow> string) \<Rightarrow> normalization_options \<Rightarrow> amount_input \<Rightarrow> sdk_error + string" where
  "normalizeAmount shown opts a =
     (let p = no_precision opts;
          str = (case a of NoAmount \<Rightarrow> [] | AmountNumber n \<Rightarrow> toFixed (p + 1) n | AmountText s \<Rightarrow> js_trim s)
      in if a = NoAmount \<or> (case a of AmountText s \<Rightarrow> js_trim s = [] | _ \<Rightarrow> False)
         then Inl (InvalidAmountError ''Amount is required and cannot be empty.'')
         else if \<not> plain_decimal str \<or> \<not> num_is_finite (js_Number str)
         then Inl (InvalidAmountError (''Invalid amount: '' @ in_quotes (amount_shown shown a) @ ''. Must be a valid numeric value.''))
         else if p < length (snd (split_point str)) \<and> list_ex (\<lambda>c. is_digit_char c \<and> c \<noteq> CHR ''0'') (drop p (snd (split_point str)))
         then Inl (InvalidAmountError (''Amount exceeds maximum precision of '' @ show_nat p @ '' decimal places.''))
         else (case toScaledBigInt str p of Inl e \<Rightarrow> Inl e | Inr k \<Rightarrow>
           (case toScaledBigInt (no_min opts) p of Inl e \<Rightarrow> Inl e | Inr lo \<Rightarrow>
              if k < lo then Inl (InvalidAmountError (''Amount is below the minimum allowed value of '' @ no_min opts @ ''.''))
              else (case (case no_max opts of None \<Rightarrow> Inr None | Some m \<Rightarrow>
                      (case toScaledBigInt m p of Inl e \<Rightarrow> Inl e | Inr hi \<Rightarrow> Inr (if hi < k then Some m else None))) of
                  Inl e \<Rightarrow> Inl e
                | Inr (Some m) \<Rightarrow> Inl (InvalidAmountError (''Amount exceeds the maximum allowed value of '' @ m @ ''.''))
                | Inr None \<Rightarrow>
                    if \<not> no_allowZero opts \<and> k = 0 then Inl (InvalidAmountError ''Amount must be greater than zero.'')
                    else Inr (scaled_text p k)))))"

section \<open>Payment requests\<close>

datatype request_asset = NativeAsset | IssuedAsset string string

record payment_request =
  pr_destination :: string
  pr_amount :: string
  pr_asset :: request_asset
  pr_memo :: "string option"
  pr_memoType :: "string option"
  pr_label :: "string option"
  pr_message :: "string option"
  pr_callbackUrl :: "string option"
  pr_extra :: "js option"

definition request_error :: "string \<Rightarrow> sdk_error + 'a" where
  "request_error m = Inl (PaymentRequestValidationError m)"

definition parse_asset :: "(string \<Rightarrow> bool) \<Rightarrow> js \<Rightarrow> sdk_error + request_asset" where
  "parse_asset valid v =
     (if \<not> js_truthy v \<or> v = JsStr ''native'' then Inr NativeAsset
      else if is_object v then
        (case (js_get v ''code'', js_get v ''issuer'') of
           (JsStr c, JsStr i) \<Rightarrow>
             if valid i then Inr (IssuedAsset c i) else request_error ''Asset issuer must be a valid Stellar public key.''
         | _ \<Rightarrow> request_error (''Asset object must contain '' @ in_quotes ''code'' @ '' and '' @ in_quotes ''issuer'' @ '' strings.''))
      else request_error (''Asset must be '' @ in_quotes ''native'' @ '' or an asset object.''))"

definition MEMO_TYPES :: "string list" where
  "MEMO_TYPES = [''text'', ''id'', ''hash'', ''return'']"

definition memo_fault :: "string option \<Rightarrow> string option \<Rightarrow> string option" where
  "memo_fault memo memoType =
     (if (case memoType of None \<Rightarrow> False | Some t \<Rightarrow> t \<noteq> [] \<and> t \<notin> set MEMO_TYPES)
      then Some ''memoType must be one of: text, id, hash, return.''
      else (case memo of None \<Rightarrow> None | Some m \<Rightarrow>
        if (case memoType of None \<Rightarrow> True | Some t \<Rightarrow> t = [] \<or> t = ''text'') \<and> 28 < length (utf8 m)
        then Some ''Text memo must be 28 bytes or less.'' else None))"

definition nonempty :: "string option \<Rightarrow> string option" where
  "nonempty s = (case s of Some t \<Rightarrow> if t = [] then None else Some t | None \<Rightarrow> None)"

definition amount_of_js :: "js \<Rightarrow> amount_input option" where
  "amount_of_js v = (case v of JsStr s \<Rightarrow> Some (AmountText s) | JsNum n \<Rightarrow> Some (AmountNumber n) | _ \<Rightarrow> None)"

definition parsePaymentRequest ::
  "(string \<Rightarrow> bool) \<Rightarrow> (js \<Rightarrow> string) \<Rightarrow> (number \<Rightarrow> string) \<Rightarrow> js \<Rightarrow> sdk_error + payment_request" where
  "parsePaymentRequest valid shown shown_number raw =
     (if \<not> is_object raw then request_error ''Payment request payload must be an object.''
      else (case js_get raw ''destination'' of
        JsStr d \<Rightarrow> (case assertValidEd25519PublicKey valid shown (JsStr d) of
            Some e \<Rightarrow> request_error (se_message e)
          | None \<Rightarrow> (case amount_of_js (js_get raw ''amount'') of
              None \<Rightarrow> request_error ''amount is required and must be a string or number.''
            | Some a \<Rightarrow> (case normalizeAmount shown_number DEFAULT_NORMALIZATION a of
                Inl e \<Rightarrow> request_error (se_message e)
              | Inr amount \<Rightarrow> (case parse_asset valid (js_get raw ''asset'') of
                  Inl e \<Rightarrow> Inl e
                | Inr asset \<Rightarrow>
                    (let memo = js_string (js_get raw ''memo''); memoType = js_string (js_get raw ''memoType'') in
                      (case memo_fault memo memoType of
                        Some m \<Rightarrow> request_error m
                      | None \<Rightarrow> Inr \<lparr>pr_destination = d, pr_amount = amount, pr_asset = asset,
                          pr_memo = nonempty memo, pr_memoType = nonempty memoType,
                          pr_label = js_string (js_get raw ''label''), pr_message = js_string (js_get raw ''message''),
                          pr_callbackUrl = js_string (js_get raw ''callbackUrl''),
                          pr_extra = (if is_object (js_get raw ''extra'') then Some (js_get raw ''extra'') else None)\<rparr>))))))
      | _ \<Rightarrow> request_error ''destination is required and must be a valid Stellar public key.''))"

section \<open>Requests a wallet hands out\<close>

record shared_request =
  sr_id :: string
  sr_requesterAddress :: string
  sr_amount :: string
  sr_assetCode :: string
  sr_note :: "string option"
  sr_expiresAt :: int
  sr_createdAt :: int

record shared_payload =
  sp_id :: string
  sp_to :: string
  sp_amount :: string
  sp_asset :: string
  sp_note :: "string option"
  sp_exp :: int

definition create_request ::
  "int \<Rightarrow> string \<Rightarrow> string \<Rightarrow> string \<Rightarrow> string \<Rightarrow> string option \<Rightarrow> int option \<Rightarrow> shared_request list \<Rightarrow> shared_request list" where
  "create_request nowMs i requester amount assetCode note ttlSeconds requests =
     (let now = nowMs div 1000 in
      \<lparr>sr_id = i, sr_requesterAddress = requester, sr_amount = amount, sr_assetCode = assetCode, sr_note = note,
       sr_expiresAt = now + coalesce ttlSeconds 86400, sr_createdAt = now\<rparr> # requests)"

definition encode_request :: "shared_request \<Rightarrow> shared_payload" where
  "encode_request r = \<lparr>sp_id = sr_id r, sp_to = sr_requesterAddress r, sp_amount = sr_amount r, sp_asset = sr_assetCode r,
     sp_note = sr_note r, sp_exp = sr_expiresAt r\<rparr>"

definition decode_request :: "shared_payload \<Rightarrow> shared_request" where
  "decode_request p = \<lparr>sr_id = sp_id p, sr_requesterAddress = sp_to p, sr_amount = sp_amount p, sr_assetCode = sp_asset p,
     sr_note = sp_note p, sr_expiresAt = sp_exp p, sr_createdAt = 0\<rparr>"

definition isExpired :: "int \<Rightarrow> shared_request \<Rightarrow> bool" where
  "isExpired nowMs r = (nowMs div 1000 > sr_expiresAt r)"

section \<open>Reading an amount as an integer\<close>

lemma hex_digit_value: "is_digit_char c \<Longrightarrow> hex_val c = Some (char_code c - 48) \<and> char_code c - 48 < 10"
  by (auto simp: hex_val_def is_digit_char_def Let_def)

lemma digits_value_list: "list_all is_digit_char s \<Longrightarrow>
    List.map_filter hex_val s = map (\<lambda>c. char_code c - 48) s \<and> list_all (\<lambda>d. d < 10) (map (\<lambda>c. char_code c - 48) s)"
  by (induction s) (simp_all add: List.map_filter_simps hex_digit_value)

lemma numeral_read: "numeral_of 10 (map (\<lambda>c. char_code c - 48) s) = read_digits s"
  by (simp add: numeral_of_def read_digits_def foldl_map mult.commute)

lemma digits_in_ten: "list_all is_digit_char s \<Longrightarrow> s \<noteq> [] \<Longrightarrow> digits_in 10 s = Some (int (read_digits s))"
  using digits_value_list [of s] by (simp add: digits_in_def numeral_read)

lemma digit_chars:
  assumes "is_digit_char c"
  shows "c \<noteq> CHR ''-''" "c \<noteq> CHR ''+''" "c \<notin> set ''xX''" "c \<notin> set ''oO''" "c \<notin> set ''bB''" "c \<noteq> CHR ''.''" "\<not> is_js_space c"
proof -
  have "\<not> is_digit_char CHR ''-''" "\<not> is_digit_char CHR ''+''" "\<not> is_digit_char CHR ''x''" "\<not> is_digit_char CHR ''X''"
    "\<not> is_digit_char CHR ''o''" "\<not> is_digit_char CHR ''O''" "\<not> is_digit_char CHR ''b''" "\<not> is_digit_char CHR ''B''" "\<not> is_digit_char CHR ''.''"
    by code_simp+
  with assms show "c \<noteq> CHR ''-''" "c \<noteq> CHR ''+''" "c \<notin> set ''xX''" "c \<notin> set ''oO''" "c \<notin> set ''bB''" "c \<noteq> CHR ''.''" by auto
  show "\<not> is_js_space c" using digit_char_facts [OF assms] by blast
qed

lemma digits_trimmed: "list_all is_digit_char s \<Longrightarrow> js_trim s = s"
proof (cases "s = []")
  case False
  assume "list_all is_digit_char s"
  with False have "is_digit_char (hd s)" "is_digit_char (last s)" by (simp_all add: list_all_iff)
  with False show ?thesis using digit_chars(7) by (intro js_trim_inner) blast+
qed simp

lemma bigint_digits:
  assumes "list_all is_digit_char s" "s \<noteq> []"
  shows "js_bigint s = Some (int (read_digits s))"
proof -
  obtain c r where s: "s = c # r" using assms(2) by (cases s) auto
  have c: "is_digit_char c" using assms(1) s by simp
  have hd: "r \<noteq> [] \<Longrightarrow> is_digit_char (hd r)" using assms(1) s by (cases r) simp_all
  have t: "js_trim (c # r) = c # r" using digits_trimmed [OF assms(1)] s by simp
  have "\<not> (c = CHR ''0'' \<and> r \<noteq> [] \<and> hd r \<in> set ''xX'')" "\<not> (c = CHR ''0'' \<and> r \<noteq> [] \<and> hd r \<in> set ''oO'')"
    "\<not> (c = CHR ''0'' \<and> r \<noteq> [] \<and> hd r \<in> set ''bB'')" using digit_chars(3-5) [OF hd] by blast+
  then have "js_bigint s = digits_in 10 s"
    unfolding js_bigint_def s t by (simp only: list.case if_False digit_chars(1,2) [OF c])
  then show ?thesis using digits_in_ten [OF assms] by simp
qed

text \<open>The digits of an amount, its fraction filled up to seven.\<close>

lemma amount_parts:
  assumes "amount_text t"
  obtains w f where "split_point t = (w, f)" "list_all is_digit_char w" "w \<noteq> []" "list_all is_digit_char f" "length f \<le> 7"
    "plain_decimal t" "read_digits w * 10 ^ 7 + read_digits (f @ replicate (7 - length f) CHR ''0'') = decimalToStroops t"
proof -
  obtain w f where wf: "list_all is_digit_char w" "w \<noteq> []" "list_all is_digit_char f" "length f \<le> 7"
    "t = (if f = [] then w else w @ CHR ''.'' # f)" using amount_text_cases [OF assms] .
  have nodot: "takeWhile (\<lambda>c. c \<noteq> CHR ''.'') (w @ CHR ''.'' # f) = w" "takeWhile (\<lambda>c. c \<noteq> CHR ''.'') w = w"
    using digits_no_dot [OF wf(1), of f] by blast+
  have nodot': "takeWhile (\<lambda>c. c \<noteq> CHR ''.'') f = f" using digits_no_dot [OF wf(3)] by blast
  have sp: "split_point t = (w, f)"
  proof (cases "f = []")
    case True
    then have t: "t = w" using wf(5) by simp
    show ?thesis unfolding split_point_def Let_def t nodot(2) using True by simp
  next
    case False
    then have t: "t = w @ CHR ''.'' # f" using wf(5) by simp
    show ?thesis unfolding split_point_def Let_def t nodot(1) using nodot' by simp
  qed
  obtain c r where c: "w = c # r" "is_digit_char c" using wf(1,2) by (cases w) auto
  have r: "(case w of [] \<Rightarrow> [] | c # t \<Rightarrow> if c = CHR ''-'' then t else w) = w"
    "(case w @ g of [] \<Rightarrow> [] | c # t \<Rightarrow> if c = CHR ''-'' then t else w @ g) = w @ g" for g
    using c(1) digit_chars(1) [OF c(2)] by simp_all
  have "plain_decimal t"
  proof (cases "f = []")
    case True
    then have t: "t = w" using wf(5) by simp
    show ?thesis using wf(2) unfolding t plain_decimal_def Let_def r(1) all_digits [OF wf(1), THEN conjunct1] all_digits [OF wf(1), THEN conjunct2] by simp
  next
    case False
    then have t: "t = w @ CHR ''.'' # f" using wf(5) by simp
    show ?thesis using wf(2,3) False unfolding t plain_decimal_def Let_def r(2) digit_not_dot [OF wf(1), THEN conjunct1] digit_not_dot [OF wf(1), THEN conjunct2] by simp
  qed
  moreover have "decimalToStroops t = read_digits w * 10 ^ 7 + read_digits (f @ replicate (7 - length f) CHR ''0'')"
  proof (cases "f = []")
    case True
    then have t: "t = w" using wf(5) by simp
    show ?thesis unfolding t decimalToStroops_def Let_def nodot(2) using True by simp
  next
    case False
    then have t: "t = w @ CHR ''.'' # f" using wf(5) by simp
    show ?thesis unfolding t decimalToStroops_def Let_def nodot(1) by simp
  qed
  ultimately show ?thesis using that sp wf by simp
qed

lemma scaled_amount:
  assumes "amount_text t"
  shows "toScaledBigInt t 7 = Inr (int (decimalToStroops t))"
proof -
  obtain w f where wf: "split_point t = (w, f)" "list_all is_digit_char w" "w \<noteq> []" "list_all is_digit_char f" "length f \<le> 7"
    "read_digits w * 10 ^ 7 + read_digits (f @ replicate (7 - length f) CHR ''0'') = decimalToStroops t"
    using amount_parts [OF assms] by metis
  let ?d = "w @ f @ replicate (7 - length f) CHR ''0''"
  have "is_digit_char CHR ''0''" by code_simp
  then have "list_all is_digit_char ?d" using wf(2,4) by (auto simp: list_all_iff)
  then have "js_bigint ?d = Some (int (read_digits ?d))" using wf(3) by (intro bigint_digits) simp_all
  moreover have "read_digits ?d = decimalToStroops t"
    using read_digits_append [of w "f @ replicate (7 - length f) CHR ''0''"] wf(5,6) by simp
  ultimately show ?thesis using wf(5) by (simp add: toScaledBigInt_def wf(1))
qed

lemma scaled_zero: "toScaledBigInt ''0'' 7 = Inr 0"
proof -
  have "amount_text ''0''" by code_simp
  moreover have "decimalToStroops ''0'' = 0"
  proof -
    have "read_digits ''0'' = 0" by code_simp
    then show ?thesis using whole_stroops [of "''0''"] by (simp add: is_digit_char_def char_code_def)
  qed
  ultimately show ?thesis using scaled_amount [of "''0''"] by simp
qed

lemma amount_text_digits:
  assumes "list_all is_digit_char w" "w \<noteq> []"
  shows "amount_text w" "f \<noteq> [] \<Longrightarrow> length f \<le> 7 \<Longrightarrow> list_all is_digit_char f \<Longrightarrow> amount_text (w @ CHR ''.'' # f)"
proof -
  show "amount_text w"
    unfolding amount_text_def all_digits [OF assms(1), THEN conjunct1] all_digits [OF assms(1), THEN conjunct2] using assms(2) by simp
  show "f \<noteq> [] \<Longrightarrow> length f \<le> 7 \<Longrightarrow> list_all is_digit_char f \<Longrightarrow> amount_text (w @ CHR ''.'' # f)"
    unfolding amount_text_def digit_not_dot [OF assms(1), THEN conjunct1] digit_not_dot [OF assms(1), THEN conjunct2] using assms(2) by simp
qed

lemma scaled_text_amount: "scaled_text 7 (int n) = strip_zeros (fixed_text 7 n) \<and> amount_text (strip_zeros (fixed_text 7 n))"
proof -
  let ?m = "show_nat n"
  let ?p = "replicate (Suc 7 - length ?m) CHR ''0'' @ ?m"
  let ?k = "length ?p - 7"
  have "is_digit_char CHR ''0''" by code_simp
  then have digits: "list_all is_digit_char ?p" using show_nat_digits by (auto simp: list_all_iff)
  have w: "list_all is_digit_char (take ?k ?p)" and f: "list_all is_digit_char (drop ?k ?p)"
    using digits by (auto simp only: list_all_iff dest: in_set_takeD in_set_dropD)
  have k: "0 < ?k" by simp
  have kl: "length (take ?k ?p) = ?k" by simp
  have w0: "take ?k ?p \<noteq> []" by (rule notI, use kl k in \<open>simp only: list.size\<close>)
  have f7: "length (drop ?k ?p) = 7" by simp
  then have f0: "drop ?k ?p \<noteq> []" by (metis list.size(3) zero_neq_numeral)
  have fixed: "fixed_text 7 n = take ?k ?p @ CHR ''.'' # drop ?k ?p" by (simp add: fixed_text_def Let_def)
  have st: "strip_zeros (fixed_text 7 n) = (if bare_fraction (drop ?k ?p) = [] then take ?k ?p else take ?k ?p @ CHR ''.'' # bare_fraction (drop ?k ?p))"
    unfolding fixed by (rule strip_zeros_amount [OF f f0])
  have e: "nat \<bar>int n\<bar> = n" by simp
  define p where "p = ?p"
  have "scaled_text 7 (int n) = (if bare_fraction (drop ?k ?p) \<noteq> [] then take ?k ?p @ CHR ''.'' # bare_fraction (drop ?k ?p) else take ?k ?p)"
    using w0 unfolding scaled_text_def Let_def bare_fraction_def e p_def [symmetric] by simp
  moreover have bf: "list_all is_digit_char (bare_fraction (drop ?k ?p))" "length (bare_fraction (drop ?k ?p)) \<le> 7"
  proof -
    show "list_all is_digit_char (bare_fraction (drop ?k ?p))"
      using f by (auto simp only: bare_fraction_def list_all_iff set_rev dest: set_dropWhileD)
    have "length (bare_fraction (drop ?k ?p)) \<le> length (drop ?k ?p)" unfolding bare_fraction_def by (metis length_dropWhile_le length_rev)
    then show "length (bare_fraction (drop ?k ?p)) \<le> 7" using f7 by simp
  qed
  moreover have "amount_text (strip_zeros (fixed_text 7 n))"
  proof (cases "bare_fraction (drop ?k ?p) = []")
    case True
    show ?thesis unfolding st if_P [OF True] by (rule amount_text_digits [OF w w0])
  next
    case False
    show ?thesis unfolding st if_not_P [OF False] by (rule amount_text_digits(2) [OF w w0 False bf(2,1)])
  qed
  ultimately show ?thesis using st by simp
qed

section \<open>Normal forms\<close>

lemma plain_cases:
  assumes "plain_decimal s"
  obtains (unsigned) w f where "list_all is_digit_char w" "w \<noteq> []" "list_all is_digit_char f" "s = (if f = [] then w else w @ CHR ''.'' # f)"
    | (minus) w f where "list_all is_digit_char w" "w \<noteq> []" "list_all is_digit_char f" "s = CHR ''-'' # (if f = [] then w else w @ CHR ''.'' # f)"
proof -
  let ?r = "case s of [] \<Rightarrow> [] | c # t \<Rightarrow> if c = CHR ''-'' then t else s"
  let ?w = "takeWhile is_digit_char ?r"
  have w: "list_all is_digit_char ?w" by (auto simp: list_all_iff dest: set_takeWhileD)
  have w0: "?w \<noteq> []" using assms by (simp add: plain_decimal_def Let_def)
  obtain f where f: "list_all is_digit_char f" "?r = (if f = [] then ?w else ?w @ CHR ''.'' # f)"
  proof (cases "dropWhile is_digit_char ?r")
    case Nil
    then have "?r = ?w" by (metis append_Nil2 takeWhile_dropWhile_id)
    then show ?thesis using that [of "[]"] by simp
  next
    case (Cons c f)
    then have "c = CHR ''.''" "f \<noteq> []" "list_all is_digit_char f" using assms by (simp_all add: plain_decimal_def Let_def)
    moreover have "?r = ?w @ c # f" using Cons by (metis takeWhile_dropWhile_id)
    ultimately show ?thesis using that [of f] by simp
  qed
  show ?thesis
  proof (cases "s = ?r")
    case True
    have "s = (if f = [] then ?w else ?w @ CHR ''.'' # f)" using True f(2) by argo
    then show ?thesis by (rule unsigned [OF w w0 f(1)])
  next
    case False
    then have "s = CHR ''-'' # ?r" by (cases s) (auto split: if_splits)
    then have "s = CHR ''-'' # (if f = [] then ?w else ?w @ CHR ''.'' # f)" using f(2) by argo
    then show ?thesis by (rule minus [OF w w0 f(1)])
  qed
qed

lemma split_plain:
  assumes "list_all is_digit_char w" "list_all is_digit_char f" "s = (if f = [] then w else w @ CHR ''.'' # f)"
  shows "split_point s = (w, f)"
proof -
  have nodot: "takeWhile (\<lambda>c. c \<noteq> CHR ''.'') (w @ CHR ''.'' # f) = w" "takeWhile (\<lambda>c. c \<noteq> CHR ''.'') w = w"
    "takeWhile (\<lambda>c. c \<noteq> CHR ''.'') f = f"
    using digits_no_dot [OF assms(1), of f] digits_no_dot [OF assms(2)] by blast+
  show ?thesis
  proof (cases "f = []")
    case True
    then have s: "s = w" using assms(3) by simp
    show ?thesis unfolding split_point_def Let_def s nodot(2) using True by simp
  next
    case False
    then have s: "s = w @ CHR ''.'' # f" using assms(3) by simp
    show ?thesis unfolding split_point_def Let_def s nodot(1) using nodot(3) by simp
  qed
qed

lemma plain_number:
  assumes "list_all is_digit_char w" "w \<noteq> []" "list_all is_digit_char f" "s = (if f = [] then w else w @ CHR ''.'' # f)"
  shows "js_Number s = f64 (of_nat (read_digits (w @ f)) * pow10 (- int (length f)))"
proof -
  obtain c r where w: "w = c # r" "is_digit_char c" using assms(1,2) by (cases w) auto
  obtain r' where s: "s = c # r'" using assms(4) w(1) by (cases "f = []") auto
  have last: "is_digit_char (last s)" using assms by (cases "f = []") (auto simp: list_all_iff)
  have t: "js_trim s = s" using w(2) last s digit_chars(7) by (intro js_trim_inner) simp_all
  have sec: "r' \<noteq> [] \<Longrightarrow> is_digit_char (hd r') \<or> hd r' = CHR ''.''"
    using assms(1,4) w(1) s by (cases r; cases "f = []") auto
  have b: "js_lower (take 2 s) \<notin> {''0x'', ''0o'', ''0b''}"
  proof (cases r')
    case Nil
    then show ?thesis by (simp add: s js_lower_def)
  next
    case (Cons d q)
    have "lower_char d \<notin> {CHR ''x'', CHR ''o'', CHR ''b''}"
    proof (cases "d = CHR ''.''")
      case True
      have "lower_char CHR ''.'' \<notin> {CHR ''x'', CHR ''o'', CHR ''b''}" by code_simp
      with True show ?thesis by simp
    next
      case False
      then have "is_digit_char d" using sec Cons by simp
      then have "lower_char d = d" by (auto simp: lower_char_def is_digit_char_def Let_def)
      moreover have "\<not> is_digit_char CHR ''x''" "\<not> is_digit_char CHR ''o''" "\<not> is_digit_char CHR ''b''" by code_simp+
      ultimately show ?thesis using \<open>is_digit_char d\<close> by auto
    qed
    then show ?thesis by (simp add: s Cons js_lower_def numeral_2_eq_2)
  qed
  have "split_sign s = (False, s)" using digit_chars [OF w(2)] by (simp add: split_sign_def s)
  moreover have "\<not> js_starts_with ''Infinity'' s" using digit_char_facts [OF w(2)] by (simp add: js_starts_with_def s)
  ultimately have "signed_decimal s = Some (f64 (of_nat (read_digits (w @ f)) * pow10 (- int (length f))), [])"
    using amount_literal [OF assms] by (simp add: signed_decimal_def)
  with b s show ?thesis unfolding js_Number_def Let_def t by simp
qed

lemma normal_form:
  assumes "normalizeAmount shown DEFAULT_NORMALIZATION a = Inr r"
  shows "\<exists>n. 0 < n \<and> r = strip_zeros (fixed_text 7 n) \<and> num_is_finite (f64 (of_nat n / 10 ^ 7))"
proof -
  define s where "s = (case a of NoAmount \<Rightarrow> [] | AmountNumber n \<Rightarrow> toFixed (7 + 1) n | AmountText t \<Rightarrow> js_trim t)"
  have s8: "(case a of NoAmount \<Rightarrow> [] | AmountNumber n \<Rightarrow> toFixed (7 + 1) n | AmountText t \<Rightarrow> js_trim t) = s"
    by (simp only: s_def)
  have facts: "plain_decimal s" "num_is_finite (js_Number s)"
    "7 < length (snd (split_point s)) \<longrightarrow> \<not> list_ex (\<lambda>c. is_digit_char c \<and> c \<noteq> CHR ''0'') (drop 7 (snd (split_point s)))"
    "\<exists>k. toScaledBigInt s 7 = Inr k \<and> 0 < k \<and> r = scaled_text 7 k"
    using assms unfolding normalizeAmount_def DEFAULT_NORMALIZATION_def Let_def normalization_options.simps s8 scaled_zero
    by (auto split: if_splits sum.splits)
  from facts(4) obtain k where k: "toScaledBigInt s 7 = Inr k" "0 < k" "r = scaled_text 7 k" by blast
  have zero: "is_digit_char CHR ''0''" by code_simp
  from facts(1) show ?thesis
  proof (cases s rule: plain_cases)
    case (unsigned w f)
    have sp: "split_point s = (w, f)" by (rule split_plain [OF unsigned(1,3,4)])
    let ?d = "w @ take 7 (f @ replicate (7 - length f) CHR ''0'')"
    have "list_all is_digit_char ?d" using unsigned(1,3) zero by (auto simp: list_all_iff dest: in_set_takeD)
    then have bd: "js_bigint ?d = Some (int (read_digits ?d))" using unsigned(2) by (intro bigint_digits) simp_all
    then have kn: "k = int (read_digits ?d)" using k(1) by (simp add: toScaledBigInt_def sp)
    define n where "n = read_digits ?d"
    have "of_nat (read_digits (w @ f)) * pow10 (- int (length f)) = (of_nat n / 10 ^ 7 :: rat)"
    proof (cases "length f \<le> 7")
      case True
      have "n = read_digits (w @ f) * 10 ^ (7 - length f)"
        using True read_digits_append [of "w @ f" "replicate (7 - length f) CHR ''0''"] by (simp add: n_def read_zeros)
      moreover have seven: "(10 :: rat) ^ 7 = 10 ^ (7 - length f) * 10 ^ length f" unfolding power_add [symmetric] using True by simp
      have "of_nat (read_digits (w @ f) * 10 ^ (7 - length f)) / (10 ^ (7 - length f) * 10 ^ length f) =
          (of_nat (read_digits (w @ f)) / 10 ^ length f :: rat)" by simp
      ultimately have "of_nat n / 10 ^ 7 = (of_nat (read_digits (w @ f)) / 10 ^ length f :: rat)" by (simp only: seven)
      then show ?thesis by (cases "length f = 0") (simp_all add: pow10_def)
    next
      case False
      have "\<forall>c \<in> set (drop 7 f). c = CHR ''0''"
        using facts(3) False unsigned(3) by (auto simp: sp list_ex_iff list_all_iff dest: in_set_dropD)
      then have z: "drop 7 f = replicate (length f - 7) CHR ''0''" by (intro replicate_eqI) auto
      have f: "f = take 7 f @ replicate (length f - 7) CHR ''0''" using z by (metis append_take_drop_id)
      have "read_digits (w @ f) = read_digits ((w @ take 7 f) @ replicate (length f - 7) CHR ''0'')" using f by simp
      also have "\<dots> = n * 10 ^ (length f - 7)" using False unfolding read_digits_append [of "w @ take 7 f"] by (simp add: n_def read_zeros)
      finally have "read_digits (w @ f) = n * 10 ^ (length f - 7)" .
      moreover have "(10 :: rat) ^ length f = 10 ^ (length f - 7) * 10 ^ 7" unfolding power_add [symmetric] using False by simp
      moreover have "f \<noteq> []" using False by auto
      ultimately show ?thesis by (simp add: pow10_def)
    qed
    then have "num_is_finite (f64 (of_nat n / 10 ^ 7))"
      using facts(2) plain_number [OF unsigned] by (simp only:)
    then show ?thesis using k kn scaled_text_amount [of n] by (intro exI [of _ n]) (simp add: n_def)
  next
    case (minus w f)
    have tail: "split_point (CHR ''-'' # r) = (case split_point r of (w, f) \<Rightarrow> (CHR ''-'' # w, f))" for r
      by (simp add: split_point_def Let_def)
    have sp: "split_point s = (CHR ''-'' # w, f)"
      unfolding minus(4) tail split_plain [OF minus(1,3) refl] by simp
    define g where "g = w @ take 7 (f @ replicate (7 - length f) CHR ''0'')"
    have dg: "list_all is_digit_char g" using minus(1,3) zero by (auto simp: g_def list_all_iff dest: in_set_takeD)
    have g0: "g \<noteq> []" using minus(2) by (simp add: g_def)
    have tr: "js_trim (CHR ''-'' # g) = CHR ''-'' # g"
    proof (rule js_trim_inner)
      show "\<not> is_js_space (hd (CHR ''-'' # g))" by (simp add: is_js_space_def char_code_def)
      show "\<not> is_js_space (last (CHR ''-'' # g))" using dg g0 digit_chars(7) by (simp add: list_all_iff)
    qed simp
    have b: "js_bigint (CHR ''-'' # g) = map_option uminus (digits_in 10 g)" by (simp add: js_bigint_def tr)
    have "toScaledBigInt s 7 = Inr (- int (read_digits g))"
      by (simp only: toScaledBigInt_def sp prod.case append_Cons g_def [symmetric] b digits_in_ten [OF dg g0] option.map option.case)
    then have "k \<le> 0" using k(1) by simp
    with k(2) show ?thesis by simp
  qed
qed

section \<open>The amounts\<close>

lemma normalize_text:
  assumes "amount_text t" "num_is_finite (js_Number t)"
  shows "normalizeAmount shown DEFAULT_NORMALIZATION (AmountText t) =
      (if decimalToStroops t = 0 then Inl (InvalidAmountError ''Amount must be greater than zero.'')
       else Inr (strip_zeros (fixed_text 7 (decimalToStroops t))))"
proof -
  obtain w f where wf: "split_point t = (w, f)" "length f \<le> 7" "plain_decimal t" using amount_parts [OF assms(1)] by metis
  have tr: "js_trim t = t" "t \<noteq> []" using amount_ends [OF assms(1)] digit_char_facts by (auto intro!: js_trim_inner)
  show ?thesis
    using wf(2,3) assms(2) scaled_text_amount [of "decimalToStroops t"]
    by (simp add: normalizeAmount_def DEFAULT_NORMALIZATION_def Let_def tr wf(1) scaled_amount [OF assms(1)] scaled_zero)
qed

lemma normalized_again:
  assumes "normalizeAmount shown DEFAULT_NORMALIZATION a = Inr r"
  shows "normalizeAmount shown DEFAULT_NORMALIZATION (AmountText r) = Inr r"
proof -
  obtain n where n: "0 < n" "r = strip_zeros (fixed_text 7 n)" "num_is_finite (f64 (of_nat n / 10 ^ 7))" using normal_form [OF assms] by blast
  have a: "amount_text r" using scaled_text_amount [of n] n(2) by blast
  have d: "decimalToStroops r = n" using stripped_amount [of n] n(2) by blast
  have "num_is_finite (js_Number r)" unfolding number_of_amount [OF a] d by (rule n(3))
  then show ?thesis using normalize_text [OF a] d n(1,2) by simp
qed

text \<open>
  Whatever text of at most seven places a positive amount is entered as, the answer is the decimal text of its
  stroops without zeros at the end, which stands for the same stroops; an amount of zero is refused.
\<close>

theorem normal_amount:
  assumes "amount_text t" "num_is_finite (js_Number t)"
  shows "(if decimalToStroops t = 0 then normalizeAmount shown DEFAULT_NORMALIZATION (AmountText t) = Inl (InvalidAmountError ''Amount must be greater than zero.'')
    else \<exists>r. normalizeAmount shown DEFAULT_NORMALIZATION (AmountText t) = Inr r
      \<and> r = strip_zeros (fixed_text 7 (decimalToStroops t)) \<and> decimalToStroops r = decimalToStroops t)"
  using normalize_text [OF assms] stripped_amount [of "decimalToStroops t"] by simp

lemma five_amount: "amount_text ''5''" "decimalToStroops ''5'' = 50000000" "num_is_finite (js_Number ''5'')"
proof -
  have "is_digit_char CHR ''5''" "read_digits ''5'' = 5" by code_simp+
  then show "decimalToStroops ''5'' = 50000000" using whole_stroops [of "''5''"] by simp
qed code_simp+

theorem normal_amount_witness:
  "\<exists>r. normalizeAmount (\<lambda>n. []) DEFAULT_NORMALIZATION (AmountText ''5'') = Inr r
     \<and> r = strip_zeros (fixed_text 7 50000000) \<and> decimalToStroops r = 50000000"
  using normal_amount [OF five_amount(1,3), of "\<lambda>n. []"] by (simp add: five_amount(2))

text \<open>
  With a precision of zero the cut \<open>slice(-0)\<close> takes the whole number for the fraction: every whole amount
  comes back as a fraction of one (5 as 0.5, 10 as 0.1).
\<close>

theorem no_places_spoil_amount:
  assumes "0 < n" "num_is_finite (js_Number (show_nat n))"
  shows "normalizeAmount shown (DEFAULT_NORMALIZATION\<lparr>no_precision := 0\<rparr>) (AmountText (show_nat n)) = Inr (''0.'' @ bare_fraction (show_nat n))"
proof -
  let ?t = "show_nat n"
  have n: "read_digits ?t = n" by (rule read_show_nat)
  then have dg: "list_all is_digit_char ?t" "?t \<noteq> []" using show_nat_digits assms(1) by (auto simp: read_digits_def)
  have sp: "split_point ?t = (?t, [])" using split_plain [OF dg(1), of "[]" ?t] by simp
  have a: "amount_text ?t" by (rule amount_text_digits [OF dg])
  have pd: "plain_decimal ?t" using amount_parts [OF a] by metis
  have tr: "js_trim ?t = ?t" by (rule digits_trimmed [OF dg(1)])
  have k: "toScaledBigInt ?t 0 = Inr (int n)" using bigint_digits [OF dg] by (simp add: toScaledBigInt_def sp read_show_nat)
  have z: "toScaledBigInt ''0'' 0 = Inr 0" by code_simp
  have "bare_fraction ?t \<noteq> []"
  proof
    assume "bare_fraction ?t = []"
    then have "?t = replicate (length ?t) CHR ''0''" by (intro replicate_eqI) (auto simp: bare_fraction_def)
    then have "read_digits ?t = 0" using read_zeros by metis
    with n assms(1) show False by simp
  qed
  moreover have "1 - length ?t = 0" using dg(2) by (cases ?t) simp_all
  ultimately have "scaled_text 0 (int n) = ''0.'' @ bare_fraction ?t"
    by (simp add: scaled_text_def Let_def bare_fraction_def)
  with assms dg(2) pd show ?thesis
    by (simp add: normalizeAmount_def DEFAULT_NORMALIZATION_def Let_def tr sp k z)
qed

theorem no_places_spoil_amount_witness:
  "normalizeAmount (\<lambda>n. []) (DEFAULT_NORMALIZATION\<lparr>no_precision := 0\<rparr>) (AmountText ''10'') = Inr ''0.1''"
proof -
  have "show_nat 10 = ''10''" "bare_fraction ''10'' = ''1''" by code_simp+
  moreover have "num_is_finite (js_Number ''10'')" by code_simp
  ultimately show ?thesis using no_places_spoil_amount [of 10 "\<lambda>n. []"] by simp
qed

section \<open>The requests\<close>

definition js_asset :: "request_asset \<Rightarrow> js" where
  "js_asset a = (case a of NativeAsset \<Rightarrow> JsStr ''native''
     | IssuedAsset c i \<Rightarrow> JsObj [(''code'', JsStr c), (''issuer'', JsStr i)])"

definition js_text :: "string option \<Rightarrow> js" where
  "js_text t = (case t of None \<Rightarrow> JsUndefined | Some s \<Rightarrow> JsStr s)"

definition js_request :: "payment_request \<Rightarrow> js" where
  "js_request r = JsObj [(''destination'', JsStr (pr_destination r)), (''amount'', JsStr (pr_amount r)), (''asset'', js_asset (pr_asset r)),
     (''memo'', js_text (pr_memo r)), (''memoType'', js_text (pr_memoType r)), (''label'', js_text (pr_label r)),
     (''message'', js_text (pr_message r)), (''callbackUrl'', js_text (pr_callbackUrl r)), (''extra'', coalesce (pr_extra r) JsUndefined)]"

lemma js_text_string [simp]: "js_string (js_text t) = t"
  by (simp add: js_text_def split: option.split)

lemma asset_again: "parse_asset valid v = Inr a \<Longrightarrow> parse_asset valid (js_asset a) = Inr a"
  by (auto simp: parse_asset_def js_asset_def js_get_def request_error_def split: if_splits js.splits)

lemma memo_again: "memo_fault m t = None \<Longrightarrow> memo_fault (nonempty m) (nonempty t) = None"
  by (auto simp: memo_fault_def nonempty_def split: option.splits if_splits)

lemma parsed_request:
  assumes "parsePaymentRequest valid shown shownn raw = Inr r"
  shows "\<exists>a. js_get raw ''destination'' = JsStr (pr_destination r) \<and> valid (pr_destination r)
      \<and> normalizeAmount shownn DEFAULT_NORMALIZATION a = Inr (pr_amount r)
      \<and> parse_asset valid (js_get raw ''asset'') = Inr (pr_asset r)
      \<and> memo_fault (js_string (js_get raw ''memo'')) (js_string (js_get raw ''memoType'')) = None
      \<and> pr_memo r = nonempty (js_string (js_get raw ''memo'')) \<and> pr_memoType r = nonempty (js_string (js_get raw ''memoType''))
      \<and> (\<forall>e. pr_extra r = Some e \<longrightarrow> is_object e)"
  using assms
  by (auto simp: parsePaymentRequest_def request_error_def assertValidEd25519PublicKey_def Let_def
      split: if_splits js.splits option.splits sum.splits)

text \<open>
  C29. A parsed request stands for itself: written as an object again, it is accepted and read as the same request
  (the amount is already normal, an empty memo is already gone, unknown fields too).
\<close>

theorem request_reparsed:
  assumes "parsePaymentRequest valid shown shownn raw = Inr r"
  shows "parsePaymentRequest valid shown shownn (js_request r) = Inr r"
proof -
  obtain a where f: "valid (pr_destination r)" "normalizeAmount shownn DEFAULT_NORMALIZATION a = Inr (pr_amount r)"
    "parse_asset valid (js_get raw ''asset'') = Inr (pr_asset r)"
    "memo_fault (js_string (js_get raw ''memo'')) (js_string (js_get raw ''memoType'')) = None"
    "pr_memo r = nonempty (js_string (js_get raw ''memo''))" "pr_memoType r = nonempty (js_string (js_get raw ''memoType''))"
    "\<And>e. pr_extra r = Some e \<Longrightarrow> is_object e"
    using parsed_request [OF assms] by auto
  have g: "js_get (js_request r) ''destination'' = JsStr (pr_destination r)" "js_get (js_request r) ''amount'' = JsStr (pr_amount r)"
    "js_get (js_request r) ''asset'' = js_asset (pr_asset r)" "js_get (js_request r) ''memo'' = js_text (pr_memo r)"
    "js_get (js_request r) ''memoType'' = js_text (pr_memoType r)" "js_get (js_request r) ''label'' = js_text (pr_label r)"
    "js_get (js_request r) ''message'' = js_text (pr_message r)" "js_get (js_request r) ''callbackUrl'' = js_text (pr_callbackUrl r)"
    "js_get (js_request r) ''extra'' = coalesce (pr_extra r) JsUndefined" "is_object (js_request r)"
    by (simp_all add: js_get_def js_request_def)
  have twice: "nonempty (pr_memo r) = pr_memo r" "nonempty (pr_memoType r) = pr_memoType r"
    unfolding f(5,6) by (simp_all add: nonempty_def split: option.split)
  have m: "memo_fault (pr_memo r) (pr_memoType r) = None" unfolding f(5,6) by (rule memo_again [OF f(4)])
  have e: "(if is_object (coalesce (pr_extra r) JsUndefined) then Some (coalesce (pr_extra r) JsUndefined) else None) = pr_extra r"
    using f(7) by (cases "pr_extra r") auto
  have k: "assertValidEd25519PublicKey valid shown (JsStr (pr_destination r)) = None" using f(1) by (simp add: assertValidEd25519PublicKey_def)
  show ?thesis
    unfolding parsePaymentRequest_def g(1-9) g(10) [THEN eqTrueI] not_True_eq_False if_False e js.case k amount_of_js_def option.case normalized_again [OF f(2)] sum.case
      asset_again [OF f(3)] js_text_string m twice Let_def
    by (cases r) simp
qed

definition sample_payload :: js where
  "sample_payload = JsObj [(''destination'', JsStr ''GABC''), (''amount'', JsStr ''5''), (''memo'', JsStr []), (''label'', JsStr ''Coffee''), (''tip'', JsBool True)]"

definition sample_request :: payment_request where
  "sample_request = \<lparr>pr_destination = ''GABC'', pr_amount = strip_zeros (fixed_text 7 50000000), pr_asset = NativeAsset,
      pr_memo = None, pr_memoType = None, pr_label = Some ''Coffee'', pr_message = None, pr_callbackUrl = None, pr_extra = None\<rparr>"

theorem request_reparsed_witness:
  "parsePaymentRequest (\<lambda>k. k = ''GABC'') (\<lambda>v. []) (\<lambda>n. []) (js_request sample_request) = Inr sample_request"
proof (rule request_reparsed)
  have "normalizeAmount (\<lambda>n. []) DEFAULT_NORMALIZATION (AmountText ''5'') = Inr (strip_zeros (fixed_text 7 50000000))"
    using normalize_text [OF five_amount(1,3), of "\<lambda>n. []"] by (simp add: five_amount(2))
  then show "parsePaymentRequest (\<lambda>k. k = ''GABC'') (\<lambda>v. []) (\<lambda>n. []) sample_payload = Inr sample_request"
    by (simp add: parsePaymentRequest_def sample_payload_def js_get_def assertValidEd25519PublicKey_def amount_of_js_def parse_asset_def
        memo_fault_def nonempty_def sample_request_def MEMO_TYPES_def utf8_def)
qed

text \<open>
  A link read back gives the request it was made of, except the time of creation: that one is lost (it comes
  back as 0), and a request past its time is expired on both sides alike.
\<close>

theorem shared_link_read:
  "decode_request (encode_request r) = r\<lparr>sr_createdAt := 0\<rparr>
    \<and> isExpired t (decode_request (encode_request r)) = isExpired t r"
  by (simp add: decode_request_def encode_request_def isExpired_def)

end
