(* ===== verification/SecureBackup.thy ===== *)
theory SecureBackup
  imports JsValue Codec "HOL-Library.Char_ord" "HOL-Library.List_Lexorder"
begin

text \<open>
  Encrypted backups: \<open>packages/core-sdk/src/storage/encryption-primitives.ts\<close> with its base64 text, and
  \<open>packages/core-sdk/src/storage/backup.ts\<close>. PBKDF2, AES-GCM (with the text encoder around it), SHA-256 and JSON
  are a record of functions; random salts and vectors are arguments; a backup and what the storage holds are
  values of unknown shape.
\<close>

section \<open>Base64\<close>

definition base64_alphabet :: string where
  "base64_alphabet = ''ABCDEFGHIJKLMNOPQRSTUVWXYZabcdefghijklmnopqrstuvwxyz0123456789+'' @ [CHR 0x2F]"

definition base64_char :: "nat \<Rightarrow> char" where
  "base64_char n = base64_alphabet ! n"

definition base64_value :: "char \<Rightarrow> nat option" where
  "base64_value = map_of (zip base64_alphabet [0..<64])"

fun btoa :: "nat list \<Rightarrow> string" where
  "btoa [] = []"
| "btoa [a] = [base64_char (a div 4), base64_char (a mod 4 * 16), CHR ''='', CHR ''='']"
| "btoa [a, b] = [base64_char (a div 4), base64_char (a mod 4 * 16 + b div 16), base64_char (b mod 16 * 4), CHR ''='']"
| "btoa (a # b # c # r) = [base64_char (a div 4), base64_char (a mod 4 * 16 + b div 16),
     base64_char (b mod 16 * 4 + c div 64), base64_char (c mod 64)] @ btoa r"

text \<open>
  \<open>atob\<close> drops white space and, from a text of whole groups, up to two closing signs; a lone last character or
  a strange one is an error.
\<close>

definition html_spaces :: string where
  "html_spaces = [CHR 0x09, CHR 0x0A, CHR 0x0C, CHR 0x0D, CHR 0x20]"

definition strip_padding :: "string \<Rightarrow> string" where
  "strip_padding s = (if length s mod 4 \<noteq> 0 then s
     else if 2 \<le> length s \<and> drop (length s - 2) s = ''=='' then take (length s - 2) s
     else if s \<noteq> [] \<and> last s = CHR ''='' then butlast s else s)"

fun sextets :: "nat list \<Rightarrow> nat list" where
  "sextets (a # b # c # d # r) = [a * 4 + b div 16, b mod 16 * 16 + c div 4, c mod 4 * 64 + d] @ sextets r"
| "sextets [a, b, c] = [a * 4 + b div 16, b mod 16 * 16 + c div 4]"
| "sextets [a, b] = [a * 4 + b div 16]"
| "sextets _ = []"

definition atob :: "string \<Rightarrow> nat list option" where
  "atob s = (let t = strip_padding (filter (\<lambda>c. c \<notin> set html_spaces) s) in
     if length t mod 4 = 1 \<or> list_ex (\<lambda>c. base64_value c = None) t then None
     else Some (sextets (map (\<lambda>c. coalesce (base64_value c) 0) t)))"

section \<open>Encryption under a password\<close>

record 'k backup_cipher =
  bc_derive :: "string \<Rightarrow> nat list \<Rightarrow> 'k"
  bc_seal :: "'k \<Rightarrow> nat list \<Rightarrow> string \<Rightarrow> nat list"
  bc_open :: "'k \<Rightarrow> nat list \<Rightarrow> nat list \<Rightarrow> string option"

definition encrypt :: "'k backup_cipher \<Rightarrow> nat list \<times> nat list \<Rightarrow> string \<Rightarrow> string \<Rightarrow> string + js" where
  "encrypt c rnd plaintext password =
     (if password = [] then Inl ''Password must be a non-empty string''
      else case rnd of (salt, iv) \<Rightarrow> Inr (JsObj [(''salt'', JsStr (btoa salt)), (''iv'', JsStr (btoa iv)),
        (''ciphertext'', JsStr (btoa (bc_seal c (bc_derive c password salt) iv plaintext)))]))"

definition decrypt :: "'k backup_cipher \<Rightarrow> (js \<Rightarrow> string) \<Rightarrow> js \<Rightarrow> string \<Rightarrow> string + string" where
  "decrypt c shown payload password =
     (if password = [] then Inl ''Password must be a non-empty string''
      else let bytes = (\<lambda>k. case js_get payload k of JsStr s \<Rightarrow> atob s | v \<Rightarrow> atob (shown v))
        in (case (bytes ''salt'', bytes ''iv'', bytes ''ciphertext'') of
          (Some salt, Some iv, Some ciphertext) \<Rightarrow> (case bc_open c (bc_derive c password salt) iv ciphertext of
              Some text \<Rightarrow> Inr text
            | None \<Rightarrow> Inl ''Invalid password or corrupted encrypted payload'')
        | _ \<Rightarrow> Inl ''Invalid password or corrupted encrypted payload''))"

section \<open>Backups\<close>

datatype backup_code = INVALID_VERSION | MALFORMED_BACKUP | CHECKSUM_MISMATCH | ENCRYPTION_ERROR | MIGRATION_ERROR

record backup_error =
  bk_code :: backup_code
  bk_message :: string

definition backup_fault :: "backup_code \<Rightarrow> string \<Rightarrow> backup_error" where
  "backup_fault c m = \<lparr>bk_code = c, bk_message = m\<rparr>"

record 'k backup_env =
  be_cipher :: "'k backup_cipher"
  be_digest :: "string \<Rightarrow> string"
  be_stringify :: "js \<Rightarrow> string"
  be_parse :: "string \<Rightarrow> js option"
  be_shown :: "js \<Rightarrow> string"

text \<open>
  \<open>JSON.stringify(data, names)\<close>: at every depth an object keeps the named members only, in the order of the
  names.
\<close>

definition named_members :: "string list \<Rightarrow> (string \<times> js) list \<Rightarrow> (string \<times> js) list" where
  "named_members names ps = List.map_filter (\<lambda>k. case map_of ps k of
       None \<Rightarrow> None | Some v \<Rightarrow> if v = JsUndefined then None else Some (k, v)) names"

primrec picked :: "string list \<Rightarrow> js \<Rightarrow> js" where
  "picked names JsUndefined = JsUndefined"
| "picked names JsNull = JsNull"
| "picked names (JsBool b) = JsBool b"
| "picked names (JsNum n) = JsNum n"
| "picked names (JsStr s) = JsStr s"
| "picked names (JsArr xs) = JsArr (map (picked names) xs)"
| "picked names (JsObj ps) = JsObj (named_members names (map (map_prod id (picked names)) ps))"

definition calculateChecksum :: "'k backup_env \<Rightarrow> (string \<times> js) list \<Rightarrow> string" where
  "calculateChecksum env data = be_digest env (be_stringify env (picked (sort (map fst data)) (JsObj data)))"

definition stored_js :: "(string, js) jsmap \<Rightarrow> string \<Rightarrow> js" where
  "stored_js storage k = coalesce (map_get storage k) JsNull"

definition sealed_member ::
  "'k backup_env \<Rightarrow> nat list \<times> nat list \<Rightarrow> string \<Rightarrow> (string, js) jsmap \<Rightarrow> string \<Rightarrow> (string \<times> js) list" where
  "sealed_member env rnd password storage k =
     (if js_truthy (stored_js storage k)
      then (case encrypt (be_cipher env) rnd (be_stringify env (stored_js storage k)) password of Inr p \<Rightarrow> [(k, p)] | Inl _ \<Rightarrow> [])
      else [])"

definition exportBackup ::
  "'k backup_env \<Rightarrow> nat list \<times> nat list \<Rightarrow> nat list \<times> nat list \<Rightarrow> string \<Rightarrow> js \<Rightarrow> (string, js) jsmap \<Rightarrow> string
     \<Rightarrow> backup_error + js" where
  "exportBackup env rnd1 rnd2 createdAt createdBy storage password =
     (if password = [] then Inl (backup_fault MALFORMED_BACKUP ''Password must be a non-empty string'')
      else let backupData = [(''version'', JsNum (whole 1))] @ sealed_member env rnd1 password storage ''account''
               @ sealed_member env rnd2 password storage ''sessionKeys''
        in Inr (JsObj (backupData @ [(''metadata'', JsObj [(''version'', JsNum (whole 1)), (''createdAt'', JsStr createdAt),
             (''createdBy'', createdBy), (''checksum'', JsStr (calculateChecksum env backupData))])])))"

definition is_version :: "js \<Rightarrow> bool" where
  "is_version v = (case v of JsNum (Fin q) \<Rightarrow> q \<in> \<int> \<and> 1 \<le> q | _ \<Rightarrow> False)"

definition SUPPORTED_BACKUP_VERSIONS :: "js list" where
  "SUPPORTED_BACKUP_VERSIONS = [JsNum (whole 1)]"

definition validateBackupStructure :: "'k backup_env \<Rightarrow> js \<Rightarrow> backup_error option" where
  "validateBackupStructure env backup =
     (if \<not> is_object backup then Some (backup_fault MALFORMED_BACKUP ''Invalid backup payload: must be an object'')
      else if \<not> is_object (js_get backup ''metadata'')
      then Some (backup_fault MALFORMED_BACKUP ''Invalid backup payload: missing metadata'')
      else let v = js_get (js_get backup ''metadata'') ''version'' in
        if \<not> is_version v then Some (backup_fault INVALID_VERSION (''Invalid backup version: '' @ be_shown env v))
        else if v \<notin> set SUPPORTED_BACKUP_VERSIONS
        then Some (backup_fault INVALID_VERSION (''Unsupported backup version: '' @ be_shown env v @ ''. Supported versions: 1''))
        else None)"

definition backup_members :: "js \<Rightarrow> (string \<times> js) list" where
  "backup_members backup = [(''version'', js_get backup ''version''), (''account'', js_get backup ''account''),
     (''sessionKeys'', js_get backup ''sessionKeys'')]"

definition verifyBackupIntegrity :: "'k backup_env \<Rightarrow> js \<Rightarrow> backup_error option" where
  "verifyBackupIntegrity env backup = (case js_get (js_get backup ''metadata'') ''checksum'' of
       JsStr checksum \<Rightarrow>
         if checksum = [] then Some (backup_fault MALFORMED_BACKUP ''Missing or invalid checksum in backup metadata'')
         else if checksum \<noteq> calculateChecksum env (backup_members backup)
         then Some (backup_fault CHECKSUM_MISMATCH
           ''Backup integrity check failed: checksum mismatch. Backup may be corrupted or tampered with.'')
         else None
     | _ \<Rightarrow> Some (backup_fault MALFORMED_BACKUP ''Missing or invalid checksum in backup metadata''))"

record migration =
  mg_from :: js
  mg_to :: nat
  mg_warnings :: "string list option"

definition migrateBackup :: "js \<Rightarrow> migration" where
  "migrateBackup v = \<lparr>mg_from = v, mg_to = 1, mg_warnings = (if v = JsNum (whole 1) then None else Some [])\<rparr>"

definition validateAccountData :: "js \<Rightarrow> string option" where
  "validateAccountData v =
     (if \<not> is_object v then Some ''Invalid account data: must be an object''
      else case js_get v ''privateKey'' of
        JsStr s \<Rightarrow> if s = [] then Some ''Invalid account data: missing or invalid privateKey'' else None
      | _ \<Rightarrow> Some ''Invalid account data: missing or invalid privateKey'')"

definition validateSessionKeysData :: "js \<Rightarrow> string option" where
  "validateSessionKeysData v =
     (if \<not> is_object v then Some ''Invalid session keys data: must be an object''
      else if \<not> is_object (js_get v ''keys'') then Some ''Invalid session keys data: missing or invalid keys object''
      else None)"

text \<open>
  One member restored: decrypted, parsed, checked, written. \<open>parse_fault\<close> is the message of a failed
  \<open>JSON.parse\<close>, \<open>refuse k\<close> that of a refused write.
\<close>

definition restore_member ::
  "'k backup_env \<Rightarrow> (string \<Rightarrow> string) \<Rightarrow> (string \<Rightarrow> string option) \<Rightarrow> (js \<Rightarrow> string option) \<Rightarrow> string \<Rightarrow> string \<Rightarrow> string \<Rightarrow> js
     \<Rightarrow> (string, js) jsmap \<Rightarrow> (string, js) jsmap \<times> backup_error option" where
  "restore_member env parse_fault refuse check what k password sealed storage =
     (let failed = (\<lambda>m. (storage, Some (backup_fault ENCRYPTION_ERROR (''Failed to restore '' @ what @ '': '' @ m))))
      in (case decrypt (be_cipher env) (be_shown env) sealed password of
        Inl m \<Rightarrow> failed m
      | Inr text \<Rightarrow> (case be_parse env text of
          None \<Rightarrow> failed (parse_fault text)
        | Some v \<Rightarrow> (case check v of
            Some m \<Rightarrow> failed m
          | None \<Rightarrow> (case refuse k of Some m \<Rightarrow> failed m | None \<Rightarrow> (map_set k v storage, None))))))"

definition importBackup ::
  "'k backup_env \<Rightarrow> (string \<Rightarrow> string) \<Rightarrow> (string \<Rightarrow> string option) \<Rightarrow> js \<Rightarrow> (string, js) jsmap \<Rightarrow> string
     \<Rightarrow> (string, js) jsmap \<times> (backup_error + migration option)" where
  "importBackup env parse_fault refuse backup storage password =
     (if password = [] then (storage, Inl (backup_fault MALFORMED_BACKUP ''Password must be a non-empty string''))
      else (case validateBackupStructure env backup of
        Some e \<Rightarrow> (storage, Inl e)
      | None \<Rightarrow> (case verifyBackupIntegrity env backup of
          Some e \<Rightarrow> (storage, Inl e)
        | None \<Rightarrow>
            (let result = (if js_get backup ''version'' = JsNum (whole 1) then None else Some (migrateBackup (js_get backup ''version'')))
             in (case (if js_truthy (js_get backup ''account'')
                       then restore_member env parse_fault refuse validateAccountData ''account data'' ''account'' password
                         (js_get backup ''account'') storage
                       else (storage, None)) of
                 (s1, Some e) \<Rightarrow> (s1, Inl e)
               | (s1, None) \<Rightarrow> (case (if js_truthy (js_get backup ''sessionKeys'')
                       then restore_member env parse_fault refuse validateSessionKeysData ''session keys'' ''sessionKeys'' password
                         (js_get backup ''sessionKeys'') s1
                       else (s1, None)) of
                     (s2, Some e) \<Rightarrow> (s2, Inl e)
                   | (s2, None) \<Rightarrow> (s2, Inr result)))))))"

section \<open>Base64 reads back\<close>

lemma alphabet_facts: "length base64_alphabet = 64" "distinct base64_alphabet"
  "list_all (\<lambda>c. c \<notin> set html_spaces \<and> c \<noteq> CHR ''='') base64_alphabet"
  by code_simp+

lemma base64_char_value:
  assumes "n < 64"
  shows "base64_value (base64_char n) = Some n" "base64_char n \<notin> set html_spaces" "base64_char n \<noteq> CHR ''=''"
proof -
  have "map_of (zip base64_alphabet [0..<64]) (base64_alphabet ! n) = Some ([0..<64] ! n)"
    using assms alphabet_facts(1,2) by (intro map_of_zip_nth) simp_all
  with assms show "base64_value (base64_char n) = Some n" by (simp add: base64_value_def base64_char_def)
  have "base64_char n \<in> set base64_alphabet" using assms alphabet_facts(1) by (simp add: base64_char_def)
  then show "base64_char n \<notin> set html_spaces" "base64_char n \<noteq> CHR ''=''" using alphabet_facts(3) by (auto simp: list_all_iff)
qed

definition byte_list :: "nat list \<Rightarrow> bool" where
  "byte_list bs = list_all (\<lambda>b. b < 256) bs"

text \<open>The sextets a text stands for, before its padding.\<close>

fun to_sextets :: "nat list \<Rightarrow> nat list" where
  "to_sextets (a # b # c # r) = [a div 4, a mod 4 * 16 + b div 16, b mod 16 * 4 + c div 64, c mod 64] @ to_sextets r"
| "to_sextets [a, b] = [a div 4, a mod 4 * 16 + b div 16, b mod 16 * 4]"
| "to_sextets [a] = [a div 4, a mod 4 * 16]"
| "to_sextets [] = []"

definition base64_padding :: "nat list \<Rightarrow> string" where
  "base64_padding bs = (if length bs mod 3 = 1 then ''=='' else if length bs mod 3 = 2 then ''='' else [])"

lemma btoa_sextets: "btoa bs = map base64_char (to_sextets bs) @ base64_padding bs"
  by (induction bs rule: btoa.induct) (simp_all add: base64_padding_def)

lemma sextets_small: "byte_list bs \<Longrightarrow> list_all (\<lambda>n. n < 64) (to_sextets bs)"
proof (induction bs rule: to_sextets.induct)
  case (1 a b c r)
  then have "a < 256" "b < 256" "c < 256" by (simp_all add: byte_list_def)
  then have "a div 4 < 64" "a mod 4 * 16 + b div 16 < 64" "b mod 16 * 4 + c div 64 < 64" by auto
  with 1 show ?case by (simp add: byte_list_def)
qed (auto simp: byte_list_def)

lemma sextet_parts:
  assumes "(b :: nat) < 256" "c < 256"
  shows "a div 4 * 4 + (a mod 4 * 16 + b div 16) div 16 = a"
    "(a mod 4 * 16 + b div 16) mod 16 * 16 + (b mod 16 * 4 + c div 64) div 4 = b"
    "(b mod 16 * 4 + c div 64) mod 4 * 64 + c mod 64 = c"
proof -
  have "b div 16 < 16" "c div 64 < 4" using assms by simp_all
  then have "(a mod 4 * 16 + b div 16) div 16 = a mod 4" "(a mod 4 * 16 + b div 16) mod 16 = b div 16"
    "(b mod 16 * 4 + c div 64) div 4 = b mod 16" "(b mod 16 * 4 + c div 64) mod 4 = c div 64" by simp_all
  then show "a div 4 * 4 + (a mod 4 * 16 + b div 16) div 16 = a"
    "(a mod 4 * 16 + b div 16) mod 16 * 16 + (b mod 16 * 4 + c div 64) div 4 = b"
    "(b mod 16 * 4 + c div 64) mod 4 * 64 + c mod 64 = c" by simp_all
qed

lemma sextets_read: "byte_list bs \<Longrightarrow> sextets (to_sextets bs) = bs"
proof (induction bs rule: to_sextets.induct)
  case (1 a b c r)
  then have "b < 256" "c < 256" "byte_list r" by (simp_all add: byte_list_def)
  with 1 show ?case using sextet_parts(1,2) [of b c a] sextet_parts(3) [of b c] by simp
next
  case (2 a b)
  then have "b < 256" by (simp add: byte_list_def)
  then show ?case using sextet_parts(1,2) [of b 0 a] by simp
next
  case (3 a)
  show ?case using sextet_parts(1) [of 0 0 a] by simp
qed simp

lemma sextets_length: "length (to_sextets bs) mod 4 = (if length bs mod 3 = 0 then 0 else length bs mod 3 + 1)"
proof (induction bs rule: to_sextets.induct)
  case (1 a b c r)
  have "(4 + m) mod 4 = m mod 4" "(3 + k) mod 3 = k mod 3" for m k :: nat by simp_all
  with 1 show ?case by (simp add: add.commute [of _ 4] add.commute [of _ 3])
qed simp_all

lemma padding_stripped:
  assumes "byte_list bs"
  shows "strip_padding (btoa bs) = map base64_char (to_sextets bs)"
proof -
  let ?t = "map base64_char (to_sextets bs)"
  have ne: "c \<noteq> CHR ''=''" if "c \<in> set ?t" for c
    using that sextets_small [OF assms] base64_char_value(3) by (auto simp: list_all_iff)
  consider (whole) "length bs mod 3 = 0" | (one) "length bs mod 3 = 1" | (two) "length bs mod 3 = 2" by linarith
  then show ?thesis
  proof cases
    case whole
    then have l: "length ?t mod 4 = 0" and b: "btoa bs = ?t" using sextets_length [of bs] by (simp_all add: btoa_sextets base64_padding_def)
    have "\<not> (?t \<noteq> [] \<and> last ?t = CHR ''='')" using ne last_in_set by metis
    moreover have "drop (length ?t - 2) ?t \<noteq> ''==''"
    proof
      assume "drop (length ?t - 2) ?t = ''==''"
      then have "CHR ''='' \<in> set (drop (length ?t - 2) ?t)" by simp
      then show False using ne in_set_dropD by fastforce
    qed
    ultimately show ?thesis unfolding b strip_padding_def by (simp only: l) simp
  next
    case one
    then have l: "length ?t mod 4 = 2" and b: "btoa bs = ?t @ ''==''" using sextets_length [of bs] by (simp_all add: btoa_sextets base64_padding_def)
    have "length (?t @ ''=='') mod 4 = 0" using l by (simp add: mod_add_left_eq [symmetric, of "length ?t"]) presburger
    then show ?thesis unfolding b by (simp add: strip_padding_def)
  next
    case two
    then have l: "length ?t mod 4 = 3" and b: "btoa bs = ?t @ ''=''" using sextets_length [of bs] by (simp_all add: btoa_sextets base64_padding_def)
    have l0: "length (?t @ ''='') mod 4 = 0" using l by simp presburger
    have "?t \<noteq> []" using l by auto
    then have "last ?t \<noteq> CHR ''=''" using ne last_in_set by metis
    then have "drop (length ?t - 1) ?t \<noteq> ''=''" using \<open>?t \<noteq> []\<close> by (metis append_butlast_last_id append_eq_conv_conj last_ConsL length_butlast)
    then show ?thesis unfolding b strip_padding_def using l0 by (simp add: Suc_le_eq)
  qed
qed

text \<open>Base64 reads back: any bytes written by \<open>btoa\<close> are those that \<open>atob\<close> gives.\<close>

lemma atob_btoa:
  assumes "byte_list bs"
  shows "atob (btoa bs) = Some bs"
proof -
  have small: "n < 64" if "n \<in> set (to_sextets bs)" for n using sextets_small [OF assms] that by (simp add: list_all_iff)
  have "set (base64_padding bs) \<inter> set html_spaces = {}" by (simp add: base64_padding_def html_spaces_def)
  then have f: "filter (\<lambda>c. c \<notin> set html_spaces) (btoa bs) = btoa bs"
    using small base64_char_value(2) by (auto simp: btoa_sextets filter_id_conv)
  have "\<not> list_ex (\<lambda>c. base64_value c = None) (map base64_char (to_sextets bs))"
    "map (\<lambda>c. coalesce (base64_value c) 0) (map base64_char (to_sextets bs)) = to_sextets bs"
    using small base64_char_value(1) by (auto simp: list_ex_iff map_idI)
  moreover have "length (to_sextets bs) mod 4 \<noteq> 1" using sextets_length [of bs] by simp
  ultimately show ?thesis
    by (simp add: atob_def f padding_stripped [OF assms] sextets_read [OF assms] Let_def)
qed

section \<open>What the checksum covers\<close>

definition cipher_sound :: "'k backup_cipher \<Rightarrow> bool" where
  "cipher_sound c \<longleftrightarrow> (\<forall>k iv m. byte_list (bc_seal c k iv m) \<and> bc_open c k iv (bc_seal c k iv m) = Some m)
     \<and> (\<forall>k k' iv m. k' \<noteq> k \<longrightarrow> bc_open c k' iv (bc_seal c k iv m) = None)
     \<and> (\<forall>p q s. bc_derive c p s = bc_derive c q s \<longrightarrow> p = q)"

definition nonce_ok :: "nat list \<times> nat list \<Rightarrow> bool" where
  "nonce_ok rnd = (byte_list (fst rnd) \<and> byte_list (snd rnd))"

text \<open>What \<open>encrypt\<close> makes, as an object.\<close>

definition sealed_with :: "'k backup_cipher \<Rightarrow> nat list \<times> nat list \<Rightarrow> string \<Rightarrow> string \<Rightarrow> js" where
  "sealed_with c rnd password text = JsObj [(''salt'', JsStr (btoa (fst rnd))), (''iv'', JsStr (btoa (snd rnd))),
     (''ciphertext'', JsStr (btoa (bc_seal c (bc_derive c password (fst rnd)) (snd rnd) text)))]"

lemma encrypt_sealed: "password \<noteq> [] \<Longrightarrow> encrypt c rnd text password = Inr (sealed_with c rnd password text)"
  by (cases rnd) (simp add: encrypt_def sealed_with_def)

lemma decrypt_sealed:
  assumes "cipher_sound c" "nonce_ok rnd" "q \<noteq> []"
  shows "decrypt c shown (sealed_with c rnd p text) q =
    (if q = p then Inr text else Inl ''Invalid password or corrupted encrypted payload'')"
proof -
  have b: "atob (btoa (fst rnd)) = Some (fst rnd)" "atob (btoa (snd rnd)) = Some (snd rnd)"
    using assms(2) atob_btoa by (auto simp: nonce_ok_def)
  have s: "byte_list (bc_seal c k iv m)" "bc_open c k' iv (bc_seal c k iv m) = (if k' = k then Some m else None)"
    for k k' iv m using assms(1) by (auto simp: cipher_sound_def)
  have d: "bc_derive c q (fst rnd) = bc_derive c p (fst rnd) \<longleftrightarrow> q = p" using assms(1) unfolding cipher_sound_def by blast
  show ?thesis using assms(3) by (simp add: decrypt_def sealed_with_def js_get_def b atob_btoa [OF s(1)] s(2) d Let_def)
qed

definition plain_members :: "(string \<times> js) list \<Rightarrow> bool" where
  "plain_members ps = list_all (\<lambda>p. fst p \<notin> {''account'', ''sessionKeys'', ''version''}) ps"

lemma no_members: "(\<And>k. k \<in> set names \<Longrightarrow> map_of ps k = None) \<Longrightarrow> named_members names ps = []"
  by (induction names) (simp_all add: named_members_def List.map_filter_simps)

lemma picked_plain: "plain_members ps \<Longrightarrow> set names \<subseteq> {''account'', ''sessionKeys'', ''version''} \<Longrightarrow> picked names (JsObj ps) = JsObj []"
proof -
  assume p: "plain_members ps" and n: "set names \<subseteq> {''account'', ''sessionKeys'', ''version''}"
  have "map_of (map (map_prod id (picked names)) ps) k = None" if "k \<in> set names" for k
  proof -
    have "k \<notin> fst ` set ps" using p n that by (force simp: plain_members_def list_all_iff)
    then show ?thesis by (simp add: map_of_eq_None_iff image_image)
  qed
  then have "named_members names (map (map_prod id (picked names)) ps) = []"
    by (rule no_members)
  then show "picked names (JsObj ps) = JsObj []" by simp
qed

lemma sealed_plain: "\<exists>ps. sealed_with c rnd p text = JsObj ps \<and> plain_members ps"
  by (simp add: sealed_with_def plain_members_def)

lemma sorted_names:
  "sort [''version''] = [''version'']" "sort [''version'', ''account''] = [''account'', ''version'']"
  "sort [''version'', ''sessionKeys''] = [''sessionKeys'', ''version'']"
  "sort [''version'', ''account'', ''sessionKeys''] = [''account'', ''sessionKeys'', ''version'']"
  by code_simp+

text \<open>The text the checksum is made of: the version, and an empty object for every encrypted member.\<close>

definition presence :: "string \<Rightarrow> bool \<Rightarrow> (string \<times> js) list" where
  "presence k b = (if b then [(k, JsObj [])] else [])"

lemma checksum_text:
  assumes "plain_members ps" "plain_members qs"
  shows "calculateChecksum env [(''version'', JsNum n), (''account'', if a then JsObj ps else JsUndefined), (''sessionKeys'', if k then JsObj qs else JsUndefined)]
    = be_digest env (be_stringify env (JsObj (presence ''account'' a @ presence ''sessionKeys'' k @ [(''version'', JsNum n)])))"
  by (cases a; cases k)
     (simp_all add: calculateChecksum_def sorted_names picked_plain [OF assms(1)] picked_plain [OF assms(2)] named_members_def
       List.map_filter_simps presence_def del: picked.simps(7) add: picked.simps(7) [of _ "_ # _"])

lemma json_members: "js_get (JsObj ps) k = coalesce (map_of ps k) JsUndefined"
  by (simp add: js_get_def)

lemma member_set: "js_get (JsObj (map_set k v ms)) k' = (if k' = k then v else js_get (JsObj ms) k')"
  using map_get_set [of k v ms k'] by (simp add: json_members map_get_def)

text \<open>
  C22. The checksum is meant to show that a backup was tampered with. It covers no content: the list of names given
  to \<open>JSON.stringify\<close> drops the members of the encrypted parts, so that any other salt, vector and ciphertext
  in their place passes the check as well.
\<close>

theorem checksum_ignores_content:
  assumes "k \<in> {''account'', ''sessionKeys''}" "js_get (JsObj ms) k = JsObj ps" "plain_members ps" "plain_members qs"
  shows "verifyBackupIntegrity env (JsObj (map_set k (JsObj qs) ms)) = verifyBackupIntegrity env (JsObj ms)"
proof -
  have names: "map fst (backup_members b) = [''version'', ''account'', ''sessionKeys'']" for b by (simp add: backup_members_def)
  let ?n = "[''account'', ''sessionKeys'', ''version'']"
  have n: "set ?n \<subseteq> {''account'', ''sessionKeys'', ''version''}" by simp
  have "picked ?n (js_get (JsObj (map_set k (JsObj qs) ms)) k') = picked ?n (js_get (JsObj ms) k')" for k'
    using assms(2) picked_plain [OF assms(3) n] picked_plain [OF assms(4) n] by (simp add: member_set del: picked.simps)
  then have m: "map (map_prod id (picked ?n)) (backup_members (JsObj (map_set k (JsObj qs) ms)))
      = map (map_prod id (picked ?n)) (backup_members (JsObj ms))"
    by (simp only: backup_members_def list.map map_prod_simp)
  have "calculateChecksum env (backup_members (JsObj (map_set k (JsObj qs) ms))) = calculateChecksum env (backup_members (JsObj ms))"
    unfolding calculateChecksum_def names sorted_names(4) picked.simps(7) m ..
  moreover have "js_get (JsObj (map_set k (JsObj qs) ms)) ''metadata'' = js_get (JsObj ms) ''metadata''"
    using assms(1) by (auto simp: member_set)
  ultimately show ?thesis by (simp only: verifyBackupIntegrity_def)
qed

section \<open>Backups come back\<close>

definition holds_account :: "(string, js) jsmap \<Rightarrow> bool" where
  "holds_account s = (case map_get s ''account'' of None \<Rightarrow> True | Some v \<Rightarrow> validateAccountData v = None)"

definition holds_keys :: "(string, js) jsmap \<Rightarrow> bool" where
  "holds_keys s = (case map_get s ''sessionKeys'' of None \<Rightarrow> True | Some v \<Rightarrow> validateSessionKeysData v = None)"

definition json_kept :: "'k backup_env \<Rightarrow> (string, js) jsmap \<Rightarrow> bool" where
  "json_kept env s = (\<forall>k v. map_get s k = Some v \<longrightarrow> be_parse env (be_stringify env v) = Some v)"

text \<open>A backup by its parts.\<close>

definition member_of :: "string \<Rightarrow> js option \<Rightarrow> (string \<times> js) list" where
  "member_of k x = (case x of None \<Rightarrow> [] | Some v \<Rightarrow> [(k, v)])"

definition made_backup :: "js option \<Rightarrow> js option \<Rightarrow> string \<Rightarrow> string \<Rightarrow> js \<Rightarrow> js" where
  "made_backup x y checksum stamp author = JsObj ([(''version'', JsNum (whole 1))] @ member_of ''account'' x @ member_of ''sessionKeys'' y
     @ [(''metadata'', JsObj [(''version'', JsNum (whole 1)), (''createdAt'', JsStr stamp), (''createdBy'', author), (''checksum'', JsStr checksum)])])"

definition presence_sum :: "'k backup_env \<Rightarrow> js option \<Rightarrow> js option \<Rightarrow> string" where
  "presence_sum env x y = be_digest env (be_stringify env (JsObj (presence ''account'' (x \<noteq> None) @ presence ''sessionKeys'' (y \<noteq> None)
     @ [(''version'', JsNum (whole 1))])))"

definition sealed_member_of :: "'k backup_env \<Rightarrow> nat list \<times> nat list \<Rightarrow> string \<Rightarrow> (string, js) jsmap \<Rightarrow> string \<Rightarrow> js option" where
  "sealed_member_of env rnd p s k = (if js_truthy (stored_js s k)
     then Some (sealed_with (be_cipher env) rnd p (be_stringify env (stored_js s k))) else None)"

definition plain_sealed :: "js option \<Rightarrow> bool" where
  "plain_sealed x = (case x of None \<Rightarrow> True | Some v \<Rightarrow> (\<exists>ps. v = JsObj ps \<and> plain_members ps))"

lemma sealed_member_plain: "plain_sealed (sealed_member_of env rnd p s k)"
  by (auto simp: plain_sealed_def sealed_member_of_def sealed_plain)

lemma made_sum:
  assumes "plain_sealed x" "plain_sealed y"
  shows "calculateChecksum env ([(''version'', JsNum (whole 1))] @ member_of ''account'' x @ member_of ''sessionKeys'' y) = presence_sum env x y"
    "calculateChecksum env [(''version'', JsNum (whole 1)), (''account'', coalesce x JsUndefined), (''sessionKeys'', coalesce y JsUndefined)] = presence_sum env x y"
proof -
  have "set ns \<subseteq> {''account'', ''sessionKeys'', ''version''} \<Longrightarrow> x = Some v \<Longrightarrow> picked ns v = JsObj []"
    "set ns \<subseteq> {''account'', ''sessionKeys'', ''version''} \<Longrightarrow> y = Some v \<Longrightarrow> picked ns v = JsObj []" for ns v
    using assms picked_plain by (auto simp: plain_sealed_def)
  then show "calculateChecksum env ([(''version'', JsNum (whole 1))] @ member_of ''account'' x @ member_of ''sessionKeys'' y) = presence_sum env x y"
    "calculateChecksum env [(''version'', JsNum (whole 1)), (''account'', coalesce x JsUndefined), (''sessionKeys'', coalesce y JsUndefined)] = presence_sum env x y"
    by (cases x; cases y; simp add: calculateChecksum_def sorted_names named_members_def member_of_def List.map_filter_simps presence_def presence_sum_def)+
qed

lemma export_made:
  assumes "p \<noteq> []"
  shows "exportBackup env r1 r2 stamp author s p = Inr (let x = sealed_member_of env r1 p s ''account''; y = sealed_member_of env r2 p s ''sessionKeys''
     in made_backup x y (presence_sum env x y) stamp author)"
proof -
  have m: "sealed_member env r p s k = member_of k (sealed_member_of env r p s k)" for r k
    by (simp add: sealed_member_def member_of_def sealed_member_of_def encrypt_sealed [OF assms])
  show ?thesis using assms made_sum(1) [OF sealed_member_plain sealed_member_plain]
    by (simp add: exportBackup_def Let_def made_backup_def m)
qed

lemma made_get:
  "js_get (made_backup x y chk stamp author) ''version'' = JsNum (whole 1)"
  "js_get (made_backup x y chk stamp author) ''account'' = coalesce x JsUndefined"
  "js_get (made_backup x y chk stamp author) ''sessionKeys'' = coalesce y JsUndefined"
  "js_get (js_get (made_backup x y chk stamp author) ''metadata'') ''checksum'' = JsStr chk"
  "js_get (js_get (made_backup x y chk stamp author) ''metadata'') ''version'' = JsNum (whole 1)"
  "is_object (js_get (made_backup x y chk stamp author) ''metadata'')" "is_object (made_backup x y chk stamp author)"
  by (auto simp: made_backup_def member_of_def json_members split: option.split)

lemma made_accepted:
  assumes "plain_sealed x" "plain_sealed y" "presence_sum env x y \<noteq> []"
  shows "validateBackupStructure env (made_backup x y (presence_sum env x y) stamp author) = None"
    "verifyBackupIntegrity env (made_backup x y (presence_sum env x y) stamp author) = None"
proof -
  show "validateBackupStructure env (made_backup x y (presence_sum env x y) stamp author) = None"
    by (simp add: validateBackupStructure_def made_get is_version_def SUPPORTED_BACKUP_VERSIONS_def whole_def Let_def)
  show "verifyBackupIntegrity env (made_backup x y (presence_sum env x y) stamp author) = None"
    using assms(3) by (simp add: verifyBackupIntegrity_def made_get backup_members_def made_sum(2) [OF assms(1,2)])
qed

lemma restored_member:
  assumes "cipher_sound (be_cipher env)" "nonce_ok rnd" "q \<noteq> []" "be_parse env (be_stringify env v) = Some v" "check v = None"
  shows "restore_member env pf (\<lambda>_. None) check what k q (sealed_with (be_cipher env) rnd p (be_stringify env v)) t =
    (if q = p then (map_set k v t, None)
     else (t, Some (backup_fault ENCRYPTION_ERROR (''Failed to restore '' @ what @ '': Invalid password or corrupted encrypted payload''))))"
  using assms(4,5) by (simp add: restore_member_def decrypt_sealed [OF assms(1-3)] Let_def)

lemma stored_account: "holds_account s \<Longrightarrow> map_get s ''account'' = Some v \<Longrightarrow> validateAccountData v = None \<and> js_truthy v"
  by (cases v) (auto simp: holds_account_def validateAccountData_def)

lemma stored_keys: "holds_keys s \<Longrightarrow> map_get s ''sessionKeys'' = Some v \<Longrightarrow> validateSessionKeysData v = None \<and> js_truthy v"
  by (cases v) (auto simp: holds_keys_def validateSessionKeysData_def)

text \<open>The members of a storage as a backup carries them, and how each is restored.\<close>

definition restored_with :: "string \<Rightarrow> (string, js) jsmap \<Rightarrow> (string, js) jsmap \<Rightarrow> (string, js) jsmap" where
  "restored_with k s t = (case map_get s k of None \<Rightarrow> t | Some v \<Rightarrow> map_set k v t)"

lemma import_member:
  assumes "cipher_sound (be_cipher env)" "nonce_ok rnd" "p \<noteq> []" "json_kept env s"
    and "\<And>v. map_get s k = Some v \<Longrightarrow> check v = None \<and> js_truthy v"
  shows "(if js_truthy (coalesce (sealed_member_of env rnd p s k) JsUndefined)
      then restore_member env pf (\<lambda>_. None) check what k p (coalesce (sealed_member_of env rnd p s k) JsUndefined) t else (t, None))
    = (restored_with k s t, None)"
proof (cases "map_get s k")
  case None
  then show ?thesis by (simp add: sealed_member_of_def stored_js_def restored_with_def)
next
  case (Some v)
  have "js_truthy (sealed_with c rnd p m)" for c :: "'a backup_cipher" and m by (simp add: sealed_with_def)
  moreover have "be_parse env (be_stringify env v) = Some v" using assms(4) Some by (simp add: json_kept_def)
  ultimately show ?thesis using Some assms(5) [OF Some] restored_member [OF assms(1-3), of v check pf what k p t]
    by (simp add: sealed_member_of_def stored_js_def restored_with_def)
qed

lemma import_made:
  assumes "cipher_sound (be_cipher env)" "nonce_ok r1" "nonce_ok r2" "p \<noteq> []" "json_kept env s" "json_kept env s2"
    "holds_account s" "holds_keys s2" "\<And>t. be_digest env t \<noteq> []"
  shows "importBackup env pf (\<lambda>_. None) (made_backup (sealed_member_of env r1 p s ''account'') (sealed_member_of env r2 p s2 ''sessionKeys'')
      (presence_sum env (sealed_member_of env r1 p s ''account'') (sealed_member_of env r2 p s2 ''sessionKeys'')) stamp author) t p
    = (restored_with ''sessionKeys'' s2 (restored_with ''account'' s t), Inr None)"
proof -
  let ?x = "sealed_member_of env r1 p s ''account''" and ?y = "sealed_member_of env r2 p s2 ''sessionKeys''"
  have ne: "presence_sum env ?x ?y \<noteq> []" using assms(9) by (simp add: presence_sum_def)
  note ok = made_accepted [OF sealed_member_plain sealed_member_plain ne, of stamp author]
  have a: "(if js_truthy (coalesce ?x JsUndefined) then restore_member env pf (\<lambda>_. None) validateAccountData ''account data'' ''account'' p
      (coalesce ?x JsUndefined) t else (t, None)) = (restored_with ''account'' s t, None)"
    using stored_account [OF assms(7)] by (rule import_member [OF assms(1,2,4,5)])
  have k: "(if js_truthy (coalesce ?y JsUndefined) then restore_member env pf (\<lambda>_. None) validateSessionKeysData ''session keys'' ''sessionKeys'' p
      (coalesce ?y JsUndefined) u else (u, None)) = (restored_with ''sessionKeys'' s2 u, None)" for u
    using stored_keys [OF assms(8)] by (rule import_member [OF assms(1,3,4,6)])
  show ?thesis
    unfolding importBackup_def if_not_P [OF assms(4)] ok option.case made_get Let_def a prod.case k by simp
qed

text \<open>
  C17. A backup taken from a storage restores it: read with its password into any storage, it puts the account and
  the session keys back as they were and touches nothing else. Another password changes nothing, as long as the
  backup has an account.
\<close>

theorem vault_backup_roundtrip:
  assumes "cipher_sound (be_cipher env)" "nonce_ok r1" "nonce_ok r2" "p \<noteq> []" "json_kept env s"
    "holds_account s" "holds_keys s" "\<And>t. be_digest env t \<noteq> []"
  shows "\<exists>b t. exportBackup env r1 r2 stamp author s p = Inr b \<and> importBackup env pf (\<lambda>_. None) b s' p = (t, Inr None)
    \<and> (\<forall>k. map_get t k = (if k \<in> {''account'', ''sessionKeys''} \<and> map_get s k \<noteq> None then map_get s k else map_get s' k))
    \<and> (q \<noteq> p \<and> q \<noteq> [] \<and> map_get s ''account'' \<noteq> None \<longrightarrow>
        importBackup env pf (\<lambda>_. None) b s' q
          = (s', Inl (backup_fault ENCRYPTION_ERROR ''Failed to restore account data: Invalid password or corrupted encrypted payload'')))"
proof -
  let ?x = "sealed_member_of env r1 p s ''account''" and ?y = "sealed_member_of env r2 p s ''sessionKeys''"
  let ?b = "made_backup ?x ?y (presence_sum env ?x ?y) stamp author"
  have e: "exportBackup env r1 r2 stamp author s p = Inr ?b" using export_made [OF assms(4)] by (simp add: Let_def)
  have i: "importBackup env pf (\<lambda>_. None) ?b s' p = (restored_with ''sessionKeys'' s (restored_with ''account'' s s'), Inr None)"
    by (rule import_made [OF assms(1-5) assms(5-8)])
  have g: "map_get (restored_with ''sessionKeys'' s (restored_with ''account'' s s')) k
      = (if k \<in> {''account'', ''sessionKeys''} \<and> map_get s k \<noteq> None then map_get s k else map_get s' k)" for k
    by (auto simp: restored_with_def jsmap_simps split: option.split)
  have w: "importBackup env pf (\<lambda>_. None) ?b s' q
      = (s', Inl (backup_fault ENCRYPTION_ERROR ''Failed to restore account data: Invalid password or corrupted encrypted payload''))"
    if q: "q \<noteq> p" "q \<noteq> []" "map_get s ''account'' \<noteq> None"
  proof -
    have ne: "presence_sum env ?x ?y \<noteq> []" using assms(8) by (simp add: presence_sum_def)
    note ok = made_accepted [OF sealed_member_plain sealed_member_plain ne, of stamp author]
    obtain v where v: "map_get s ''account'' = Some v" using q(3) by auto
    have x: "?x = Some (sealed_with (be_cipher env) r1 p (be_stringify env v))"
      using v stored_account [OF assms(6) v] by (simp add: sealed_member_of_def stored_js_def)
    have t: "js_truthy (sealed_with c rnd p m)" for c :: "'a backup_cipher" and rnd m by (simp add: sealed_with_def)
    have "be_parse env (be_stringify env v) = Some v" using assms(5) v by (simp add: json_kept_def)
    note r = restored_member [OF assms(1,2) q(2) this, of validateAccountData pf "''account data''" "''account''" p s']
    show ?thesis using q(1,2) r stored_account [OF assms(6) v] ok x t by (simp add: importBackup_def made_get Let_def)
  qed
  show ?thesis by (intro exI conjI) (use e i g w in \<open>blast+\<close>)
qed

text \<open>A cipher that writes the key as a JSON text in front of the message, for the witnesses.\<close>

definition symbolic_cipher :: "string backup_cipher" where
  "symbolic_cipher = \<lparr>bc_derive = (\<lambda>p s. p), bc_seal = (\<lambda>k iv m. map of_char (json_string k @ m)),
     bc_open = (\<lambda>k iv d. let h = json_string k; t = map char_of d in if js_starts_with h t then Some (drop (length h) t) else None)\<rparr>"

lemma symbolic_cipher_sound: "cipher_sound symbolic_cipher"
proof -
  have id: "map char_of (map of_char s :: nat list) = s" for s :: string by (induction s) simp_all
  have b: "byte_list (map of_char s)" for s :: string by (induction s) (simp_all add: byte_list_def)
  have "\<not> js_starts_with (json_string k') (json_string k @ m)" if "k' \<noteq> k" for k k' m
  proof
    assume "js_starts_with (json_string k') (json_string k @ m)"
    then obtain t where "json_string k @ m = json_string k' @ t" unfolding js_starts_with_append by blast
    then have "k = k'" using json_string_prefix_free by blast
    with that show False by simp
  qed
  moreover have "js_starts_with (json_string k) (json_string k @ m)" for k m by (auto simp: js_starts_with_append)
  ultimately show ?thesis by (simp add: cipher_sound_def symbolic_cipher_def id b Let_def del: map_append)
qed

definition demo_account :: js where
  "demo_account = JsObj [(''privateKey'', JsStr ''S'')]"

definition demo_keys :: js where
  "demo_keys = JsObj [(''keys'', JsObj [(''G'', JsStr ''K'')])]"

definition other_keys :: js where
  "other_keys = JsObj [(''keys'', JsObj [])]"

definition demo_env :: "string backup_env" where
  "demo_env = \<lparr>be_cipher = symbolic_cipher, be_digest = (\<lambda>t. ''0'' @ t),
     be_stringify = (\<lambda>v. if v = demo_account then ''a'' else if v = demo_keys then ''k'' else ''o''),
     be_parse = (\<lambda>t. Some (if t = ''a'' then demo_account else if t = ''k'' then demo_keys else other_keys)),
     be_shown = (\<lambda>v. [])\<rparr>"

definition demo_storage :: "(string, js) jsmap" where
  "demo_storage = [(''account'', demo_account), (''sessionKeys'', demo_keys)]"

definition other_storage :: "(string, js) jsmap" where
  "other_storage = [(''sessionKeys'', other_keys)]"

lemma demo_holds: "holds_account demo_storage" "holds_keys demo_storage" "json_kept demo_env demo_storage" "be_digest demo_env t \<noteq> []"
  "cipher_sound (be_cipher demo_env)" "nonce_ok ([1], [2])" "holds_keys other_storage" "json_kept demo_env other_storage"
proof -
  show "holds_account demo_storage" "holds_keys demo_storage" "nonce_ok ([1], [2])" "holds_keys other_storage" by code_simp+
  show "json_kept demo_env other_storage"
    by (auto simp: json_kept_def demo_env_def other_storage_def map_get_def demo_account_def demo_keys_def other_keys_def split: if_splits)
  show "json_kept demo_env demo_storage"
    by (auto simp: json_kept_def demo_env_def demo_storage_def map_get_def demo_account_def demo_keys_def split: if_splits)
  show "be_digest demo_env t \<noteq> []" by (simp add: demo_env_def)
  show "cipher_sound (be_cipher demo_env)" by (simp add: demo_env_def symbolic_cipher_sound)
qed

theorem checksum_ignores_content_witness:
  "verifyBackupIntegrity demo_env (JsObj [(''account'', JsObj [(''salt'', JsStr ''forged'')])]) = verifyBackupIntegrity demo_env (JsObj [(''account'', JsObj [(''salt'', JsStr ''true'')])])"
proof -
  have "verifyBackupIntegrity demo_env (JsObj (map_set ''account'' (JsObj [(''salt'', JsStr ''forged'')]) [(''account'', JsObj [(''salt'', JsStr ''true'')])]))
      = verifyBackupIntegrity demo_env (JsObj [(''account'', JsObj [(''salt'', JsStr ''true'')])])"
    by (rule checksum_ignores_content [where ps = "[(''salt'', JsStr ''true'')]"]) (simp_all add: js_get_def plain_members_def)
  then show ?thesis by (simp add: map_set_def)
qed

theorem vault_backup_roundtrip_witness:
  "\<exists>b t. exportBackup demo_env ([1], [2]) ([1], [2]) ''now'' JsUndefined demo_storage ''pw'' = Inr b
    \<and> importBackup demo_env (\<lambda>m. m) (\<lambda>_. None) b [] ''pw'' = (t, Inr None)
    \<and> map_get t ''account'' = Some demo_account \<and> map_get t ''sessionKeys'' = Some demo_keys
    \<and> importBackup demo_env (\<lambda>m. m) (\<lambda>_. None) b [] ''px''
        = ([], Inl (backup_fault ENCRYPTION_ERROR ''Failed to restore account data: Invalid password or corrupted encrypted payload''))"
  using vault_backup_roundtrip [OF demo_holds(5) demo_holds(6) demo_holds(6) _ demo_holds(3) demo_holds(1) demo_holds(2) demo_holds(4),
      of "''pw''" "''now''" JsUndefined "\<lambda>m. m" "[]" "''px''"]
  by (auto simp: demo_storage_def map_get_def)

text \<open>
  The session keys of one backup can be put into another made under the same password: the mixture passes the
  integrity check and is restored without an error.
\<close>

theorem mixed_backup_restored:
  assumes "cipher_sound (be_cipher env)" "nonce_ok r1" "nonce_ok r2" "p \<noteq> []" "json_kept env s1" "json_kept env s2"
    "holds_account s1" "holds_keys s1" "holds_keys s2" "\<And>t. be_digest env t \<noteq> []"
    "map_get s1 ''sessionKeys'' = Some k1" "map_get s2 ''sessionKeys'' = Some k2" "map_get s1 ''account'' = Some a"
    and "exportBackup env r1 r1 stamp author s1 p = Inr (JsObj ms)" "exportBackup env r2 r2 stamp' author' s2 p = Inr b2"
  shows "\<exists>t. importBackup env pf (\<lambda>_. None) (JsObj (map_set ''sessionKeys'' (js_get b2 ''sessionKeys'') ms)) s' p = (t, Inr None)
    \<and> map_get t ''account'' = Some a \<and> map_get t ''sessionKeys'' = Some k2"
proof -
  let ?x = "sealed_member_of env r1 p s1 ''account''" and ?y1 = "sealed_member_of env r1 p s1 ''sessionKeys''"
    and ?y2 = "sealed_member_of env r2 p s2 ''sessionKeys''"
  have some: "?x = Some (sealed_with (be_cipher env) r1 p (be_stringify env a))" "?y1 = Some (sealed_with (be_cipher env) r1 p (be_stringify env k1))"
    "?y2 = Some (sealed_with (be_cipher env) r2 p (be_stringify env k2))"
    using stored_account [OF assms(7,13)] stored_keys [OF assms(8,11)] stored_keys [OF assms(9,12)] assms(11-13)
    by (simp_all add: sealed_member_of_def stored_js_def)
  have b2: "js_get b2 ''sessionKeys'' = sealed_with (be_cipher env) r2 p (be_stringify env k2)"
    using assms(15) export_made [OF assms(4), of env r2 r2 stamp' author' s2] some(3) by (auto simp: made_get Let_def)
  have "JsObj ms = made_backup ?x ?y1 (presence_sum env ?x ?y1) stamp author"
    using assms(14) export_made [OF assms(4), of env r1 r1 stamp author s1] by (simp add: Let_def)
  moreover have "presence_sum env ?x ?y1 = presence_sum env ?x ?y2" by (simp add: presence_sum_def some)
  ultimately have "JsObj (map_set ''sessionKeys'' (js_get b2 ''sessionKeys'') ms) = made_backup ?x ?y2 (presence_sum env ?x ?y2) stamp author"
    by (simp add: made_backup_def b2 some member_of_def map_set_def)
  then have "importBackup env pf (\<lambda>_. None) (JsObj (map_set ''sessionKeys'' (js_get b2 ''sessionKeys'') ms)) s' p
      = (restored_with ''sessionKeys'' s2 (restored_with ''account'' s1 s'), Inr None)"
    using import_made [OF assms(1-7) assms(9,10), of pf stamp author s'] by simp
  then show ?thesis using assms(12,13) by (simp add: restored_with_def jsmap_simps)
qed

theorem mixed_backup_restored_witness:
  "\<exists>ms b2 t. exportBackup demo_env ([1], [2]) ([1], [2]) ''now'' JsUndefined demo_storage ''pw'' = Inr (JsObj ms)
    \<and> exportBackup demo_env ([1], [2]) ([1], [2]) ''now'' JsUndefined other_storage ''pw'' = Inr b2
    \<and> importBackup demo_env (\<lambda>m. m) (\<lambda>_. None) (JsObj (map_set ''sessionKeys'' (js_get b2 ''sessionKeys'') ms)) [] ''pw'' = (t, Inr None)
    \<and> map_get t ''sessionKeys'' = Some other_keys"
proof -
  obtain ms where ms: "exportBackup demo_env ([1], [2]) ([1], [2]) ''now'' JsUndefined demo_storage ''pw'' = Inr (JsObj ms)"
    using export_made [of "''pw''" demo_env] by (simp add: made_backup_def Let_def)
  obtain b2 where b2: "exportBackup demo_env ([1], [2]) ([1], [2]) ''now'' JsUndefined other_storage ''pw'' = Inr b2"
    using export_made [of "''pw''" demo_env] by (simp add: Let_def)
  have g: "map_get demo_storage ''sessionKeys'' = Some demo_keys" "map_get other_storage ''sessionKeys'' = Some other_keys"
    "map_get demo_storage ''account'' = Some demo_account" "''pw'' \<noteq> []" by (simp_all add: demo_storage_def other_storage_def map_get_def)
  show ?thesis
    using mixed_backup_restored [OF demo_holds(5) demo_holds(6) demo_holds(6) g(4) demo_holds(3) demo_holds(8) demo_holds(1) demo_holds(2)
        demo_holds(7) demo_holds(4) g(1,2,3) ms b2, of "\<lambda>m. m" "[]"] ms b2 by blast
qed

text \<open>
  A restore is not all or nothing: when the session keys of a backup cannot be read, the import fails, but the
  account was already replaced.
\<close>

theorem failed_import_replaces_account:
  assumes "cipher_sound (be_cipher env)" "nonce_ok r" "p \<noteq> []" "json_kept env s" "holds_account s" "map_get s ''account'' = Some a"
    and "js_truthy y" "plain_sealed (Some y)" "decrypt (be_cipher env) (be_shown env) y p = Inl m" "\<And>t. be_digest env t \<noteq> []"
  shows "importBackup env pf (\<lambda>_. None) (made_backup (sealed_member_of env r p s ''account'') (Some y)
      (presence_sum env (sealed_member_of env r p s ''account'') (Some y)) stamp author) s' p
    = (map_set ''account'' a s', Inl (backup_fault ENCRYPTION_ERROR (''Failed to restore session keys: '' @ m)))"
proof -
  let ?x = "sealed_member_of env r p s ''account''"
  have ne: "presence_sum env ?x (Some y) \<noteq> []" using assms(10) by (simp add: presence_sum_def)
  note ok = made_accepted [OF sealed_member_plain assms(8) ne, of stamp author]
  have a: "(if js_truthy (coalesce ?x JsUndefined) then restore_member env pf (\<lambda>_. None) validateAccountData ''account data'' ''account'' p
      (coalesce ?x JsUndefined) s' else (s', None)) = (restored_with ''account'' s s', None)"
    using stored_account [OF assms(5)] by (rule import_member [OF assms(1,2,3,4)])
  show ?thesis
    unfolding importBackup_def if_not_P [OF assms(3)] ok option.case made_get Let_def a prod.case
    using assms(6,7,9) by (simp add: restore_member_def restored_with_def Let_def)
qed

theorem failed_import_replaces_account_witness:
  "importBackup demo_env (\<lambda>m. m) (\<lambda>_. None) (made_backup (sealed_member_of demo_env ([1], [2]) ''pw'' demo_storage ''account'') (Some (JsObj []))
      (presence_sum demo_env (sealed_member_of demo_env ([1], [2]) ''pw'' demo_storage ''account'') (Some (JsObj []))) ''now'' JsUndefined)
      [(''account'', JsObj [(''privateKey'', JsStr ''mine'')])] ''pw''
    = ([(''account'', demo_account)], Inl (backup_fault ENCRYPTION_ERROR ''Failed to restore session keys: Invalid password or corrupted encrypted payload''))"
proof -
  have d: "decrypt (be_cipher demo_env) (be_shown demo_env) (JsObj []) ''pw'' = Inl ''Invalid password or corrupted encrypted payload''"
    by (simp add: decrypt_def js_get_def demo_env_def symbolic_cipher_def atob_def strip_padding_def js_starts_with_def json_string_def)
  have "map_get demo_storage ''account'' = Some demo_account" "plain_sealed (Some (JsObj []))" "''pw'' \<noteq> []" "js_truthy (JsObj [])"
    by (simp_all add: demo_storage_def map_get_def plain_sealed_def plain_members_def)
  then show ?thesis
    using failed_import_replaces_account [OF demo_holds(5,6) _ demo_holds(3,1) _ _ _ d demo_holds(4), of demo_account "\<lambda>m. m" "''now''" JsUndefined
        "[(''account'', JsObj [(''privateKey'', JsStr ''mine'')])]"] by (simp add: map_set_def)
qed

end
