(* ===== verification/VaultAccounts.thy ===== *)
theory VaultAccounts
  imports SecureVault JsValue Codec
begin

text \<open>
  What the wallets keep in the vault of \<open>SecureVault\<close>. The accounts of the mobile wallet:
  \<open>packages/core-sdk/src/storage/account-persistence.ts\<close>, the older
  \<open>apps/mobile-wallet/src/security/mobile-secure-vault.ts\<close>, the migration between them
  (\<open>security/vault-migration.ts\<close>, \<open>security/storage-manager.ts\<close>) and onboarding
  (\<open>onboarding/persist-wallet.ts\<close>). The secrets of the extension:
  \<open>apps/extension-wallet/src/security/vault-export.ts\<close>. The JSON texts of tables and values are
  parameters, as are the clock and the comparison of dates; the payload of an account is its JSON text.
\<close>

section \<open>Accounts\<close>

record account_metadata =
  am_id :: string
  am_address :: string
  am_label :: "string option"
  am_createdAt :: string
  am_updatedAt :: string

record account_secret =
  as_keyMaterial :: string
  as_accountPayload :: string

record account_record =
  rec_metadata :: account_metadata
  rec_secret :: account_secret

record account_input =
  ai_id :: string
  ai_address :: string
  ai_label :: "string option"
  ai_keyMaterial :: string
  ai_accountPayload :: string

type_synonym account_table = "(string, account_record) jsmap"

record table_text =
  tt_write :: "account_table \<Rightarrow> string"
  tt_read :: "string \<Rightarrow> account_table option"

definition DEFAULT_ACCOUNTS_STORAGE_KEY :: string where
  "DEFAULT_ACCOUNTS_STORAGE_KEY = ''vault_accounts''"

definition VAULT_ACCOUNTS_KEY :: string where
  "VAULT_ACCOUNTS_KEY = ''mobile_vault_accounts''"

text \<open>\<open>None\<close>: the vault is locked and the call throws.\<close>

definition loadAccountRecords ::
  "('k, 'd) vault_crypto \<Rightarrow> table_text \<Rightarrow> time \<Rightarrow> string \<Rightarrow> ('k, 'd) vault \<Rightarrow> (account_table \<times> ('k, 'd) vault) option" where
  "loadAccountRecords c codec now key v =
     map_option (\<lambda>(r, v'). (case r of None \<Rightarrow> [] | Some t \<Rightarrow> coalesce (tt_read codec t) [], v')) (vault_getItem c now key v)"

definition account_entry :: "account_metadata \<Rightarrow> account_input \<Rightarrow> account_record" where
  "account_entry m input = \<lparr>rec_metadata = m,
     rec_secret = \<lparr>as_keyMaterial = ai_keyMaterial input, as_accountPayload = ai_accountPayload input\<rparr>\<rparr>"

definition persistAccount ::
  "('k, 'd) vault_crypto \<Rightarrow> table_text \<Rightarrow> nat list \<times> nat list \<Rightarrow> time \<Rightarrow> string \<Rightarrow> string \<Rightarrow> account_input \<Rightarrow> ('k, 'd) vault
     \<Rightarrow> (account_metadata \<times> ('k, 'd) vault) option" where
  "persistAccount c codec rnd now stamp key input v = (case loadAccountRecords c codec now key v of
       None \<Rightarrow> None
     | Some (records, v1) \<Rightarrow>
         (let old = map_get records (ai_id input);
              m = \<lparr>am_id = ai_id input, am_address = ai_address input,
                am_label = (case ai_label input of Some l \<Rightarrow> Some l | None \<Rightarrow> Option.bind old (am_label \<circ> rec_metadata)),
                am_createdAt = (case old of Some r \<Rightarrow> am_createdAt (rec_metadata r) | None \<Rightarrow> stamp), am_updatedAt = stamp\<rparr>
          in map_option (Pair m) (vault_saveItem c rnd now key (tt_write codec (map_set (ai_id input) (account_entry m input) records)) v1)))"

definition listAccountMetadata ::
  "('k, 'd) vault_crypto \<Rightarrow> table_text \<Rightarrow> (string \<Rightarrow> 'o :: linorder) \<Rightarrow> time \<Rightarrow> string \<Rightarrow> ('k, 'd) vault
     \<Rightarrow> (account_metadata list \<times> ('k, 'd) vault) option" where
  "listAccountMetadata c codec coll now key v =
     map_option (\<lambda>(records, v1). (sort_key (coll \<circ> am_createdAt) (map rec_metadata (map_values records)), v1))
       (loadAccountRecords c codec now key v)"

definition loadAccount ::
  "('k, 'd) vault_crypto \<Rightarrow> table_text \<Rightarrow> time \<Rightarrow> string \<Rightarrow> string \<Rightarrow> ('k, 'd) vault \<Rightarrow> (account_record option \<times> ('k, 'd) vault) option" where
  "loadAccount c codec now key accountId v =
     map_option (\<lambda>(records, v1). (case map_get records accountId of None \<Rightarrow> (None, v1) | Some r \<Rightarrow> (Some r, vault_touch now v1)))
       (loadAccountRecords c codec now key v)"

definition deleteAccount ::
  "('k, 'd) vault_crypto \<Rightarrow> table_text \<Rightarrow> nat list \<times> nat list \<Rightarrow> time \<Rightarrow> string \<Rightarrow> string \<Rightarrow> ('k, 'd) vault \<Rightarrow> ('k, 'd) vault option" where
  "deleteAccount c codec rnd now key accountId v = (case loadAccountRecords c codec now key v of
       None \<Rightarrow> None
     | Some (records, v1) \<Rightarrow> vault_saveItem c rnd now key (tt_write codec (map_delete accountId records)) v1)"

definition clearAllAccounts :: "string \<Rightarrow> ('k, 'd) vault \<Rightarrow> ('k, 'd) vault" where
  "clearAllAccounts key v = vault_reset [key] v"

definition getAccountCount ::
  "('k, 'd) vault_crypto \<Rightarrow> table_text \<Rightarrow> time \<Rightarrow> string \<Rightarrow> ('k, 'd) vault \<Rightarrow> (nat \<times> ('k, 'd) vault) option" where
  "getAccountCount c codec now key v = map_option (\<lambda>(records, v1). (length (map_keys records), v1)) (loadAccountRecords c codec now key v)"

text \<open>The older vault of the mobile wallet differs in its key and forgets a label that is not given again.\<close>

definition mobile_persistAccount ::
  "('k, 'd) vault_crypto \<Rightarrow> table_text \<Rightarrow> nat list \<times> nat list \<Rightarrow> time \<Rightarrow> string \<Rightarrow> account_input \<Rightarrow> ('k, 'd) vault
     \<Rightarrow> (account_metadata \<times> ('k, 'd) vault) option" where
  "mobile_persistAccount c codec rnd now stamp input v = (case loadAccountRecords c codec now VAULT_ACCOUNTS_KEY v of
       None \<Rightarrow> None
     | Some (records, v1) \<Rightarrow>
         (let m = \<lparr>am_id = ai_id input, am_address = ai_address input, am_label = ai_label input,
                am_createdAt = (case map_get records (ai_id input) of Some r \<Rightarrow> am_createdAt (rec_metadata r) | None \<Rightarrow> stamp),
                am_updatedAt = stamp\<rparr>
          in map_option (Pair m) (vault_saveItem c rnd now VAULT_ACCOUNTS_KEY
               (tt_write codec (map_set (ai_id input) (account_entry m input) records)) v1)))"

section \<open>Migration and onboarding of the mobile wallet\<close>

definition stored_table ::
  "('k, 'd) vault_crypto \<Rightarrow> table_text \<Rightarrow> time \<Rightarrow> string \<Rightarrow> ('k, 'd) vault \<Rightarrow> (account_table option \<times> ('k, 'd) vault) option" where
  "stored_table c codec now key v = map_option (\<lambda>(r, v'). (Option.bind r (tt_read codec), v')) (vault_getItem c now key v)"

definition migrateLegacyMobileVault ::
  "('k, 'd) vault_crypto \<Rightarrow> table_text \<Rightarrow> nat list \<times> nat list \<Rightarrow> time \<Rightarrow> ('k, 'd) vault \<Rightarrow> (bool \<times> ('k, 'd) vault) option" where
  "migrateLegacyMobileVault c codec rnd now v = (case stored_table c codec now VAULT_ACCOUNTS_KEY v of
       None \<Rightarrow> None
     | Some (None, v1) \<Rightarrow> Some (False, v1)
     | Some (Some legacy, v1) \<Rightarrow> (case stored_table c codec now DEFAULT_ACCOUNTS_STORAGE_KEY v1 of
           None \<Rightarrow> None
         | Some (Some _, v2) \<Rightarrow> Some (False, v2)
         | Some (None, v2) \<Rightarrow>
             map_option (\<lambda>v3. (True, vault_deleteItem VAULT_ACCOUNTS_KEY v3))
               (vault_saveItem c rnd now DEFAULT_ACCOUNTS_STORAGE_KEY (tt_write codec legacy) v2)))"

text \<open>A failed migration is swallowed.\<close>

definition unlockSharedStorageManager ::
  "('k, 'd) vault_crypto \<Rightarrow> table_text \<Rightarrow> nat list \<Rightarrow> nat list \<times> nat list \<Rightarrow> nat list \<times> nat list \<Rightarrow> time \<Rightarrow> string \<Rightarrow> ('k, 'd) vault
     \<Rightarrow> bool \<times> ('k, 'd) vault" where
  "unlockSharedStorageManager c codec new_salt r1 r2 now password v = (case vault_unlock c new_salt r1 now password v of
       (False, v1) \<Rightarrow> (False, v1)
     | (True, v1) \<Rightarrow> (case migrateLegacyMobileVault c codec r2 now v1 of None \<Rightarrow> (True, v1) | Some (_, v2) \<Rightarrow> (True, v2)))"

record imported_wallet =
  iw_publicKey :: string
  iw_contractId :: string
  iw_accountIndex :: nat
  iw_encryptedMnemonic :: "string option"

datatype onboarding_fault = ImportFault string | UnlockFault | EncryptFault | LockedFault

definition wallet_payload :: "imported_wallet \<Rightarrow> js" where
  "wallet_payload w = JsObj [(''publicKey'', JsStr (iw_publicKey w)), (''contractId'', JsStr (iw_contractId w)),
     (''accountIndex'', JsNum (whole (int (iw_accountIndex w))))]"

definition persistOnboardedWallet ::
  "('k, 'd) vault_crypto \<Rightarrow> table_text \<Rightarrow> (js \<Rightarrow> string) \<Rightarrow> (string \<Rightarrow> string \<Rightarrow> string + imported_wallet) \<Rightarrow> nat list
     \<Rightarrow> nat list \<times> nat list \<Rightarrow> nat list \<times> nat list \<Rightarrow> nat list \<times> nat list \<Rightarrow> time \<Rightarrow> string \<Rightarrow> string \<Rightarrow> string
     \<Rightarrow> string option \<Rightarrow> string option \<Rightarrow> ('k, 'd) vault \<Rightarrow> (onboarding_fault option) \<times> ('k, 'd) vault" where
  "persistOnboardedWallet c codec stringify importWallet new_salt r1 r2 r3 now stamp mnemonic password label accountId v =
     (case importWallet mnemonic password of
        Inl m \<Rightarrow> (Some (ImportFault m), v)
      | Inr w \<Rightarrow> (case unlockSharedStorageManager c codec new_salt r1 r2 now password v of
          (False, v1) \<Rightarrow> (Some UnlockFault, v1)
        | (True, v1) \<Rightarrow> (case iw_encryptedMnemonic w of
            None \<Rightarrow> (Some EncryptFault, v1)
          | Some e \<Rightarrow> (case persistAccount c codec r3 now stamp DEFAULT_ACCOUNTS_STORAGE_KEY
                \<lparr>ai_id = coalesce accountId ''primary'', ai_address = iw_publicKey w, ai_label = Some (coalesce label ''Ancore Wallet''),
                 ai_keyMaterial = e, ai_accountPayload = stringify (wallet_payload w)\<rparr> v1 of
              None \<Rightarrow> (Some LockedFault, v1)
            | Some (_, v2) \<Rightarrow> (None, v2)))))"

section \<open>The secrets of the extension\<close>

definition verifyVaultPassword ::
  "('k, 'd) vault_crypto \<Rightarrow> nat list \<Rightarrow> nat list \<times> nat list \<Rightarrow> time \<Rightarrow> string \<Rightarrow> 'd vault_storage \<Rightarrow> bool \<times> 'd vault_storage" where
  "verifyVaultPassword c new_salt rnd now password storage = (case vault_unlock c new_salt rnd now password (new_vault storage None) of
       (unlocked, v) \<Rightarrow> (unlocked, vt_storage (vault_lock v)))"

definition changeVaultPassword ::
  "('k, 'd) vault_crypto \<Rightarrow> nat list \<Rightarrow> (string \<Rightarrow> nat list \<times> nat list) \<Rightarrow> time \<Rightarrow> string \<Rightarrow> string
     \<Rightarrow> ('k, 'd) vault \<Rightarrow> change_result \<times> ('k, 'd) vault" where
  "changeVaultPassword c new_salt rnd now currentPassword newPassword v = changePassword c new_salt rnd now currentPassword newPassword [] v"

datatype export_kind = PrivateKey | Mnemonic

datatype export_fault =
    EnterPassword | IncorrectPassword | WalletIsLocked | NoWalletFound | PrivateKeyUnavailable | RecoveryPhraseUnavailable
  | EnterPasswordToDecrypt

definition ensureStorageAccess ::
  "('k, 'd) vault_crypto \<Rightarrow> nat list \<Rightarrow> nat list \<times> nat list \<Rightarrow> time \<Rightarrow> string \<Rightarrow> bool \<Rightarrow> ('k, 'd) vault
     \<Rightarrow> export_fault option \<times> ('k, 'd) vault" where
  "ensureStorageAccess c new_salt rnd now password requirePassword v =
     (if requirePassword then
        (if password = [] then (Some EnterPassword, v)
         else (case vault_unlock c new_salt rnd now password (if vault_isUnlocked v then vault_lock v else v) of
             (True, w) \<Rightarrow> (None, w) | (False, w) \<Rightarrow> (Some IncorrectPassword, w)))
      else if \<not> vault_isUnlocked v then (Some WalletIsLocked, v) else (None, v))"

definition secret_of :: "(js \<Rightarrow> string \<Rightarrow> string option) \<Rightarrow> export_kind \<Rightarrow> string \<Rightarrow> js \<Rightarrow> export_fault + string" where
  "secret_of decryptSecretKey kind password account = (case kind of
       PrivateKey \<Rightarrow> (case js_get account ''privateKey'' of
           JsStr s \<Rightarrow> if s = [] then Inl PrivateKeyUnavailable else Inr s | _ \<Rightarrow> Inl PrivateKeyUnavailable)
     | Mnemonic \<Rightarrow>
         (if (case js_get account ''mnemonic'' of JsStr s \<Rightarrow> s \<noteq> [] | _ \<Rightarrow> False) then Inr (coalesce (js_string (js_get account ''mnemonic'')) [])
          else if \<not> js_truthy (js_get account ''encryptedMnemonic'') then Inl RecoveryPhraseUnavailable
          else if password = [] then Inl EnterPasswordToDecrypt
          else (case decryptSecretKey (js_get account ''encryptedMnemonic'') password of
              None \<Rightarrow> Inl IncorrectPassword | Some m \<Rightarrow> Inr m)))"

text \<open>The account is the JSON text under \<open>account\<close>; an unreadable one reads as none.\<close>

definition revealVaultSecret ::
  "('k, 'd) vault_crypto \<Rightarrow> (string \<Rightarrow> js option) \<Rightarrow> (js \<Rightarrow> string \<Rightarrow> string option) \<Rightarrow> nat list \<Rightarrow> nat list \<times> nat list \<Rightarrow> time
     \<Rightarrow> export_kind \<Rightarrow> string \<Rightarrow> bool \<Rightarrow> ('k, 'd) vault \<Rightarrow> (export_fault + string) \<times> ('k, 'd) vault" where
  "revealVaultSecret c json_parse decryptSecretKey new_salt rnd now kind password requirePassword v =
     (case ensureStorageAccess c new_salt rnd now password requirePassword v of
        (Some e, w) \<Rightarrow> (Inl e, w)
      | (None, w) \<Rightarrow> (case getAccount c now w of
          None \<Rightarrow> (Inl WalletIsLocked, w)
        | Some (r, w') \<Rightarrow> (case Option.bind r json_parse of
            None \<Rightarrow> (Inl NoWalletFound, w')
          | Some account \<Rightarrow>
              (if \<not> js_truthy account then Inl NoWalletFound else secret_of decryptSecretKey kind password account, w'))))"

section \<open>Reading back\<close>

lemma get_unlocked:
  assumes "vt_key v = Some key"
  shows "map_option fst (vault_getItem c now k v) = Some (Option.bind (readEncryptedPayload (vt_storage v) k) (decryptData c key))"
    "vault_getItem c now k v = Some (r, w) \<Longrightarrow> vt_key w = Some key \<and> vt_storage w = vt_storage v"
  using assms by (auto simp: vault_getItem_def split: option.splits)

text \<open>What an unlocked vault holds under a key, in the clear.\<close>

definition clear_text :: "('k, 'd) vault_crypto \<Rightarrow> ('k, 'd) vault \<Rightarrow> string \<Rightarrow> string option" where
  "clear_text c v k = (case vt_key v of None \<Rightarrow> None
     | Some key \<Rightarrow> Option.bind (readEncryptedPayload (vt_storage v) k) (decryptData c key))"

definition clear_table :: "('k, 'd) vault_crypto \<Rightarrow> table_text \<Rightarrow> ('k, 'd) vault \<Rightarrow> string \<Rightarrow> account_table option" where
  "clear_table c codec v k = Option.bind (clear_text c v k) (tt_read codec)"

definition same_vault :: "('k, 'd) vault \<Rightarrow> ('k, 'd) vault \<Rightarrow> bool" where
  "same_vault v w = (vt_key w = vt_key v \<and> vt_storage w = vt_storage v)"

lemma same_clear: "same_vault v w \<Longrightarrow> clear_text c w k = clear_text c v k"
  by (simp add: same_vault_def clear_text_def split: option.split)

lemma load_clear:
  assumes "vault_isUnlocked v"
  obtains w where "loadAccountRecords c codec now key v = Some (coalesce (clear_table c codec v key) [], w)" "same_vault v w"
proof -
  obtain k where k: "vt_key v = Some k" using assms by (auto simp: vault_isUnlocked_def)
  obtain r w where g: "vault_getItem c now key v = Some (r, w)" using get_unlocked(1) [OF k, of c now key] by auto
  then have "r = clear_text c v key" using get_unlocked(1) [OF k, of c now key] by (simp add: clear_text_def k)
  then have "loadAccountRecords c codec now key v = Some (coalesce (clear_table c codec v key) [], w)"
    by (simp add: loadAccountRecords_def g clear_table_def split: option.split)
  with get_unlocked(2) [OF k g] k that show ?thesis by (simp add: same_vault_def)
qed

lemma save_clear:
  assumes "crypto_sound c" "vault_isUnlocked v"
  obtains w where "vault_saveItem c rnd now k t v = Some w" "vt_key w = vt_key v"
    "\<And>k'. clear_text c w k' = (if k' = k then Some t else clear_text c v k')"
    "\<And>k'. k' \<noteq> k \<Longrightarrow> map_get (vt_storage w) k' = map_get (vt_storage v) k'"
proof -
  obtain key where key: "vt_key v = Some key" using assms(2) by (auto simp: vault_isUnlocked_def)
  then obtain w where w: "vault_saveItem c rnd now k t v = Some w" by (simp add: vault_saveItem_def)
  then have f: "vt_key w = Some key" "vt_storage w = map_set k (StPayload (encryptData c key rnd t)) (vt_storage v)"
    using key by (auto simp: vault_saveItem_def)
  have "clear_text c w k' = (if k' = k then Some t else clear_text c v k')" for k'
    by (simp add: clear_text_def f key read_set decrypt_encrypt [OF assms(1)])
  with w f key that show ?thesis by (simp add: jsmap_simps)
qed

definition texts_kept :: "table_text \<Rightarrow> bool" where
  "texts_kept codec \<longleftrightarrow> (\<forall>t. tt_read codec (tt_write codec t) = Some t)"

text \<open>
  C18. An account persisted in an unlocked vault is loaded again with its key material and payload; the date of
  creation and a label not given again are those it had; every other account, and every other item of the vault,
  is as it was.
\<close>

theorem persisted_account_loaded:
  assumes "crypto_sound c" "texts_kept codec" "vault_isUnlocked v"
  shows "\<exists>m w. persistAccount c codec rnd now stamp key input v = Some (m, w)
    \<and> map_option fst (loadAccount c codec now' key (ai_id input) w) = Some (Some (account_entry m input))
    \<and> (\<forall>r. map_option fst (loadAccount c codec now key (ai_id input) v) = Some (Some r) \<longrightarrow>
        am_createdAt m = am_createdAt (rec_metadata r) \<and> (ai_label input = None \<longrightarrow> am_label m = am_label (rec_metadata r)))
    \<and> (\<forall>i. i \<noteq> ai_id input \<longrightarrow> map_option fst (loadAccount c codec now' key i w) = map_option fst (loadAccount c codec now' key i v))
    \<and> (\<forall>k. k \<noteq> key \<longrightarrow> clear_text c w k = clear_text c v k)"
proof -
  obtain v1 where l: "loadAccountRecords c codec now key v = Some (coalesce (clear_table c codec v key) [], v1)" "same_vault v v1"
    using load_clear [OF assms(3)] .
  define recs where "recs = coalesce (clear_table c codec v key) []"
  have u1: "vault_isUnlocked v1" using l(2) assms(3) by (simp add: same_vault_def vault_isUnlocked_def)
  obtain m where m: "persistAccount c codec rnd now stamp key input v
      = map_option (Pair m) (vault_saveItem c rnd now key (tt_write codec (map_set (ai_id input) (account_entry m input) recs)) v1)"
    "\<And>r. map_get recs (ai_id input) = Some r \<Longrightarrow> am_createdAt m = am_createdAt (rec_metadata r) \<and> (ai_label input = None \<longrightarrow> am_label m = am_label (rec_metadata r))"
    by (simp add: persistAccount_def l(1) recs_def [symmetric] Let_def)
  obtain w where w: "vault_saveItem c rnd now key (tt_write codec (map_set (ai_id input) (account_entry m input) recs)) v1 = Some w"
    "vt_key w = vt_key v1" "\<And>k'. clear_text c w k' = (if k' = key then Some (tt_write codec (map_set (ai_id input) (account_entry m input) recs)) else clear_text c v1 k')"
    using save_clear [OF assms(1) u1] by metis
  have uw: "vault_isUnlocked w" using w(2) u1 by (simp add: vault_isUnlocked_def)
  have found: "map_option fst (loadAccount c codec t key i x) = Some (map_get (coalesce (clear_table c codec x key) []) i)"
    if u: "vault_isUnlocked x" for x i t
  proof -
    obtain x1 where "loadAccountRecords c codec t key x = Some (coalesce (clear_table c codec x key) [], x1)" using load_clear [OF u] .
    then show ?thesis by (simp add: loadAccount_def split: option.split)
  qed
  have tw: "coalesce (clear_table c codec w key) [] = map_set (ai_id input) (account_entry m input) recs"
    using assms(2) by (simp add: clear_table_def w(3) texts_kept_def)
  show ?thesis
  proof (intro exI conjI allI impI)
    show "persistAccount c codec rnd now stamp key input v = Some (m, w)" by (simp add: m(1) w(1))
    show "map_option fst (loadAccount c codec now' key (ai_id input) w) = Some (Some (account_entry m input))"
      by (simp add: found [OF uw] tw jsmap_simps)
    show "am_createdAt m = am_createdAt (rec_metadata r)" if "map_option fst (loadAccount c codec now key (ai_id input) v) = Some (Some r)" for r
      using that m(2) by (simp add: found [OF assms(3)] recs_def)
    show "am_label m = am_label (rec_metadata r)" if "map_option fst (loadAccount c codec now key (ai_id input) v) = Some (Some r)" "ai_label input = None" for r
      using that m(2) by (simp add: found [OF assms(3)] recs_def)
    show "map_option fst (loadAccount c codec now' key i w) = map_option fst (loadAccount c codec now' key i v)" if "i \<noteq> ai_id input" for i
      using that by (simp add: found [OF uw] found [OF assms(3)] tw jsmap_simps recs_def)
    show "clear_text c w k = clear_text c v k" if "k \<noteq> key" for k using that same_clear [OF l(2)] by (simp add: w(3))
  qed
qed

lemma table_clear:
  assumes "vault_isUnlocked v"
  obtains w where "stored_table c codec now key v = Some (clear_table c codec v key, w)" "same_vault v w"
proof -
  obtain k where k: "vt_key v = Some k" using assms by (auto simp: vault_isUnlocked_def)
  obtain r w where g: "vault_getItem c now key v = Some (r, w)" using get_unlocked(1) [OF k, of c now key] by auto
  then have "r = clear_text c v key" using get_unlocked(1) [OF k, of c now key] by (simp add: clear_text_def k)
  with g get_unlocked(2) [OF k g] k that show ?thesis by (simp add: stored_table_def clear_table_def same_vault_def)
qed

lemma same_table: "same_vault v w \<Longrightarrow> clear_table c codec w k = clear_table c codec v k"
  by (simp add: clear_table_def same_clear)

lemma same_unlocked: "same_vault v w \<Longrightarrow> vault_isUnlocked w = vault_isUnlocked v"
  by (simp add: same_vault_def vault_isUnlocked_def)

lemma migration_idle:
  assumes "vault_isUnlocked v" "clear_table c codec v VAULT_ACCOUNTS_KEY = None \<or> clear_table c codec v DEFAULT_ACCOUNTS_STORAGE_KEY \<noteq> None"
  obtains w where "migrateLegacyMobileVault c codec rnd now v = Some (False, w)" "same_vault v w"
proof -
  obtain w1 where w1: "stored_table c codec now VAULT_ACCOUNTS_KEY v = Some (clear_table c codec v VAULT_ACCOUNTS_KEY, w1)" "same_vault v w1"
    using table_clear [OF assms(1)] .
  have "vault_isUnlocked w1" using assms(1) same_unlocked [OF w1(2)] by simp
  then obtain w2 where w2: "stored_table c codec now DEFAULT_ACCOUNTS_STORAGE_KEY w1 = Some (clear_table c codec v DEFAULT_ACCOUNTS_STORAGE_KEY, w2)" "same_vault w1 w2"
    using table_clear same_table [OF w1(2)] by metis
  have "same_vault v w2" using w1(2) w2(2) by (simp add: same_vault_def)
  with w1 w2(1) assms(2) that show ?thesis
    by (cases "clear_table c codec v VAULT_ACCOUNTS_KEY") (auto simp: migrateLegacyMobileVault_def)
qed

text \<open>
  The migration of the mobile wallet moves every account and is done once: what was under the old key is under
  the new one, the old one is gone, and running it again changes nothing. Accounts that turn up under the old
  key when the new one exists are never moved.
\<close>

theorem migration_moves_accounts:
  assumes "crypto_sound c" "texts_kept codec" "vault_isUnlocked v" "clear_table c codec v VAULT_ACCOUNTS_KEY = Some accounts"
  shows "(if clear_table c codec v DEFAULT_ACCOUNTS_STORAGE_KEY = None
     then (\<exists>w w'. migrateLegacyMobileVault c codec rnd now v = Some (True, w)
       \<and> clear_table c codec w DEFAULT_ACCOUNTS_STORAGE_KEY = Some accounts \<and> map_get (vt_storage w) VAULT_ACCOUNTS_KEY = None
       \<and> migrateLegacyMobileVault c codec rnd' now' w = Some (False, w') \<and> same_vault w w')
     else (\<exists>w. migrateLegacyMobileVault c codec rnd now v = Some (False, w) \<and> same_vault v w))"
proof (cases "clear_table c codec v DEFAULT_ACCOUNTS_STORAGE_KEY")
  case (Some t)
  then obtain w where "migrateLegacyMobileVault c codec rnd now v = Some (False, w)" "same_vault v w"
    using migration_idle [OF assms(3), of c codec rnd now] by auto
  with Some show ?thesis by auto
next
  case None
  have keys: "VAULT_ACCOUNTS_KEY \<noteq> DEFAULT_ACCOUNTS_STORAGE_KEY" by (simp add: VAULT_ACCOUNTS_KEY_def DEFAULT_ACCOUNTS_STORAGE_KEY_def)
  obtain w1 where w1: "stored_table c codec now VAULT_ACCOUNTS_KEY v = Some (clear_table c codec v VAULT_ACCOUNTS_KEY, w1)" "same_vault v w1"
    using table_clear [OF assms(3)] .
  have u1: "vault_isUnlocked w1" using assms(3) same_unlocked [OF w1(2)] by simp
  then obtain w2 where w2: "stored_table c codec now DEFAULT_ACCOUNTS_STORAGE_KEY w1 = Some (None, w2)" "same_vault w1 w2"
    using table_clear same_table [OF w1(2)] None by metis
  have u2: "vault_isUnlocked w2" using u1 same_unlocked [OF w2(2)] by simp
  obtain w3 where w3: "vault_saveItem c rnd now DEFAULT_ACCOUNTS_STORAGE_KEY (tt_write codec accounts) w2 = Some w3" "vt_key w3 = vt_key w2"
    "\<And>k'. clear_text c w3 k' = (if k' = DEFAULT_ACCOUNTS_STORAGE_KEY then Some (tt_write codec accounts) else clear_text c w2 k')"
    using save_clear [OF assms(1) u2] by metis
  define w where "w = vault_deleteItem VAULT_ACCOUNTS_KEY w3"
  have m: "migrateLegacyMobileVault c codec rnd now v = Some (True, w)"
    by (simp add: migrateLegacyMobileVault_def w1(1) assms(4) w2(1) w3(1) w_def)
  have gone: "map_get (vt_storage w) VAULT_ACCOUNTS_KEY = None" by (simp add: w_def vault_deleteItem_def jsmap_simps)
  have "clear_text c w k = (if k = VAULT_ACCOUNTS_KEY then None else clear_text c w3 k)" for k
    by (simp add: clear_text_def w_def vault_deleteItem_def readEncryptedPayload_def jsmap_simps split: option.split)
  then have t: "clear_table c codec w DEFAULT_ACCOUNTS_STORAGE_KEY = Some accounts" "clear_table c codec w VAULT_ACCOUNTS_KEY = None"
    using keys assms(2) by (simp_all add: clear_table_def w3(3) texts_kept_def)
  have uw: "vault_isUnlocked w" using u2 w3(2) by (simp add: w_def vault_isUnlocked_def vault_deleteItem_def)
  obtain w' where "migrateLegacyMobileVault c codec rnd' now' w = Some (False, w')" "same_vault w w'"
    using migration_idle [OF uw, of c codec rnd' now'] t(2) by auto
  with None m gone t(1) show ?thesis by auto
qed

text \<open>
  C23. A password change covers the account, the session keys and the recent recipients. A table of accounts
  is left under the old key: afterwards it reads as empty, no error is raised, and the next account persisted
  takes its place for good.
\<close>

theorem password_change_forgets_accounts:
  assumes "crypto_sound c" "texts_kept codec" "vault_for c cur (vt_storage v)" "loadMasterSalt (vt_storage v) = Some salt"
    and "decrypt_all c (vc_derive c cur salt) (vt_storage v) (change_keys []) = Some items" "ns \<noteq> salt"
    and "readEncryptedPayload (vt_storage v) DEFAULT_ACCOUNTS_STORAGE_KEY = Some (encryptData c (vc_derive c cur salt) r (tt_write codec accounts))"
  shows "\<exists>w m w'. changeVaultPassword c ns rnd now cur new v = (Changed True, w)
    \<and> map_option fst (listAccountMetadata c codec coll now' DEFAULT_ACCOUNTS_STORAGE_KEY w) = Some []
    \<and> persistAccount c codec rnd' now' stamp DEFAULT_ACCOUNTS_STORAGE_KEY input w = Some (m, w')
    \<and> map_option fst (listAccountMetadata c codec coll now' DEFAULT_ACCOUNTS_STORAGE_KEY w') = Some [m]"
proof -
  obtain r' m where ver: "readEncryptedPayload (vt_storage v) VERIFICATION_PAYLOAD_STORAGE_KEY = Some (encryptData c (vc_derive c cur salt) r' m)"
    using assms(3,4) by (auto simp: vault_for_def)
  have ok: "fst (verifyPassword c (vt_storage v) (vc_derive c cur salt))" using ver assms(1) by (auto simp: verifyPassword_def decrypt_encrypt)
  let ?ws = "change_writes c ns rnd now new items"
  define w where "w = vault_touch now ((vault_lock v)\<lparr>vt_key := Some (vc_derive c new ns), vt_storage := apply_writes ?ws (vt_storage v)\<rparr>)"
  have ch: "changeVaultPassword c ns rnd now cur new v = (Changed True, w)"
    using assms(4,5) ok by (simp add: changeVaultPassword_def changePassword_def Let_def w_def)
  have nr: "set [] \<inter> reserved_keys = {}" by simp
  have d: "distinct (map fst items)" "set (map fst items) \<inter> reserved_keys = {}"
    using items_distinct [OF assms(5)] items_unreserved [OF assms(5) nr] by blast+
  have "set (map fst items) \<subseteq> set DEFAULT_DATA_KEYS"
    using decrypt_all_keys [OF assms(5)] filter_is_subset by (fastforce simp: change_keys_def)
  then have k: "DEFAULT_ACCOUNTS_STORAGE_KEY \<notin> set (map fst items)" "DEFAULT_ACCOUNTS_STORAGE_KEY \<noteq> MASTER_SALT_STORAGE_KEY"
    "DEFAULT_ACCOUNTS_STORAGE_KEY \<noteq> VERIFICATION_PAYLOAD_STORAGE_KEY"
    by (auto simp: DEFAULT_ACCOUNTS_STORAGE_KEY_def DEFAULT_DATA_KEYS_def MASTER_SALT_STORAGE_KEY_def VERIFICATION_PAYLOAD_STORAGE_KEY_def)
  have "map_of items DEFAULT_ACCOUNTS_STORAGE_KEY = None" using k(1) by (simp add: map_of_eq_None_iff)
  then have "readEncryptedPayload (vt_storage w) DEFAULT_ACCOUNTS_STORAGE_KEY = Some (encryptData c (vc_derive c cur salt) r (tt_write codec accounts))"
    using assms(7) k by (simp add: w_def readEncryptedPayload_def writes_read [OF change_distinct [OF d]] change_map_of [OF d])
  moreover have "vc_derive c new ns \<noteq> vc_derive c cur salt" using derive_eq [OF assms(1)] assms(6) by blast
  ultimately have "clear_text c w DEFAULT_ACCOUNTS_STORAGE_KEY = None"
    by (simp add: clear_text_def w_def decrypt_encrypt [OF assms(1)])
  then have none: "clear_table c codec w DEFAULT_ACCOUNTS_STORAGE_KEY = None" by (simp add: clear_table_def)
  have u: "vault_isUnlocked w" by (simp add: vault_isUnlocked_def w_def)
  obtain w1 where l: "loadAccountRecords c codec now' DEFAULT_ACCOUNTS_STORAGE_KEY w = Some ([], w1)" "same_vault w w1"
    using load_clear [OF u, of c codec now' DEFAULT_ACCOUNTS_STORAGE_KEY] none by auto
  have u1: "vault_isUnlocked w1" using u same_unlocked [OF l(2)] by simp
  obtain m where m: "persistAccount c codec rnd' now' stamp DEFAULT_ACCOUNTS_STORAGE_KEY input w
      = map_option (Pair m) (vault_saveItem c rnd' now' DEFAULT_ACCOUNTS_STORAGE_KEY (tt_write codec [(ai_id input, account_entry m input)]) w1)"
    by (simp add: persistAccount_def l(1) Let_def map_set_def)
  obtain w' where w': "vault_saveItem c rnd' now' DEFAULT_ACCOUNTS_STORAGE_KEY (tt_write codec [(ai_id input, account_entry m input)]) w1 = Some w'"
    "vt_key w' = vt_key w1" "clear_text c w' DEFAULT_ACCOUNTS_STORAGE_KEY = Some (tt_write codec [(ai_id input, account_entry m input)])"
    using save_clear [OF assms(1) u1] by metis
  have u': "vault_isUnlocked w'" using w'(2) u1 by (simp add: vault_isUnlocked_def)
  have "clear_table c codec w' DEFAULT_ACCOUNTS_STORAGE_KEY = Some [(ai_id input, account_entry m input)]"
    using w'(3) assms(2) by (simp add: clear_table_def texts_kept_def)
  then obtain w2 where l': "loadAccountRecords c codec now' DEFAULT_ACCOUNTS_STORAGE_KEY w' = Some ([(ai_id input, account_entry m input)], w2)"
    using load_clear [OF u', of c codec now' DEFAULT_ACCOUNTS_STORAGE_KEY] by auto
  show ?thesis
    using ch l l' m w'(1) by (auto simp: listAccountMetadata_def map_values_def account_entry_def)
qed

text \<open>
  C21. With the password asked for, a secret comes out for the right password only: any other one is refused and
  leaves the vault locked.
\<close>

theorem reveal_needs_password:
  assumes "crypto_sound c" "vault_for c p (vt_storage v)"
  shows "(case revealVaultSecret c json_parse dec ns r now kind q True v of (res, w) \<Rightarrow>
      (q = [] \<longrightarrow> res = Inl EnterPassword) \<and> (q \<noteq> [] \<and> q \<noteq> p \<longrightarrow> res = Inl IncorrectPassword \<and> \<not> vault_isUnlocked w)
      \<and> (\<forall>secret. res = Inr secret \<longrightarrow> q = p \<and> (\<exists>t account. vault_content c p (vt_storage v) ''account'' = Some t \<and> json_parse t = Some account
            \<and> secret_of dec kind q account = Inr secret)))"
proof (cases "q = []")
  case True
  then show ?thesis by (simp add: revealVaultSecret_def ensureStorageAccess_def)
next
  case False
  let ?v = "if vault_isUnlocked v then vault_lock v else v"
  have v: "vt_key ?v = None" "vt_storage ?v = vt_storage v" by (auto simp: vault_isUnlocked_def)
  obtain salt where u: "loadMasterSalt (vt_storage v) = Some salt" "fst (vault_unlock c ns r now q ?v) = (q = p)"
    "vt_key (snd (vault_unlock c ns r now q ?v)) = (if q = p then Some (vc_derive c p salt) else None)"
    "vt_storage (snd (vault_unlock c ns r now q ?v)) = vt_storage v"
    using unlock_vault [OF assms(1), of p ?v ns r now q] assms(2) v by metis
  obtain ok w where w: "vault_unlock c ns r now q ?v = (ok, w)" by (cases "vault_unlock c ns r now q ?v")
  show ?thesis
  proof (cases "q = p")
    case True
    have g: "map_option fst (vault_getItem c now ''account'' w) = Some (vault_content c p (vt_storage v) ''account'')"
      using get_content [where v = w and c = c and q = p and salt = salt and now = now and k = "''account''"] u w True by simp
    then obtain x where "vault_getItem c now ''account'' w = Some (vault_content c p (vt_storage v) ''account'', x)" by auto
    with u w True False show ?thesis
      by (auto simp: revealVaultSecret_def ensureStorageAccess_def getAccount_def bind_eq_Some_conv split: option.splits if_splits)
  next
    case wrong: False
    with u w False show ?thesis by (auto simp: revealVaultSecret_def ensureStorageAccess_def vault_isUnlocked_def)
  qed
qed

section \<open>Witnesses\<close>

text \<open>A plain text of tables: every field after its length.\<close>

definition field_text :: "string \<Rightarrow> string" where
  "field_text s = show_nat (length s) @ CHR '':'' # s"

definition take_field :: "string \<Rightarrow> string \<times> string" where
  "take_field s = (let d = takeWhile is_digit_char s; r = drop (Suc (length d)) s; n = read_digits d in (take n r, drop n r))"

definition label_text :: "string option \<Rightarrow> string" where
  "label_text l = (case l of None \<Rightarrow> [] | Some t \<Rightarrow> CHR ''s'' # t)"

definition label_of :: "string \<Rightarrow> string option" where
  "label_of t = (case t of [] \<Rightarrow> None | c # r \<Rightarrow> Some r)"

definition entry_text :: "string \<times> account_record \<Rightarrow> string" where
  "entry_text e = (case e of (k, r) \<Rightarrow> let m = rec_metadata r; x = rec_secret r in
     field_text k @ field_text (am_id m) @ field_text (am_address m) @ field_text (label_text (am_label m)) @ field_text (am_createdAt m)
     @ field_text (am_updatedAt m) @ field_text (as_keyMaterial x) @ field_text (as_accountPayload x))"

definition take_entry :: "string \<Rightarrow> (string \<times> account_record) \<times> string" where
  "take_entry s0 = (let (k, s1) = take_field s0; (i, s2) = take_field s1; (a, s3) = take_field s2; (l, s4) = take_field s3;
      (ca, s5) = take_field s4; (ua, s6) = take_field s5; (km, s7) = take_field s6; (ap, s8) = take_field s7
    in ((k, \<lparr>rec_metadata = \<lparr>am_id = i, am_address = a, am_label = label_of l, am_createdAt = ca, am_updatedAt = ua\<rparr>,
             rec_secret = \<lparr>as_keyMaterial = km, as_accountPayload = ap\<rparr>\<rparr>), s8))"

fun take_entries :: "nat \<Rightarrow> string \<Rightarrow> account_table" where
  "take_entries 0 s = []"
| "take_entries (Suc n) s = (if s = [] then [] else case take_entry s of (e, r) \<Rightarrow> e # take_entries n r)"

definition plain_codec :: table_text where
  "plain_codec = \<lparr>tt_write = (\<lambda>t. concat (map entry_text t)), tt_read = (\<lambda>s. Some (take_entries (length s) s))\<rparr>"

lemma field_taken: "take_field (field_text s @ r) = (s, r)"
proof -
  have "\<not> is_digit_char CHR '':''" by code_simp
  then have "takeWhile is_digit_char (show_nat n @ CHR '':'' # t) = show_nat n" for n t
    using show_nat_digits [of n] by (simp add: takeWhile_append list_all_iff)
  then show ?thesis by (simp add: take_field_def field_text_def Let_def read_show_nat)
qed

lemma entry_taken: "take_entry (entry_text e @ r) = (e, r)"
  by (cases e, cases "snd e", cases "rec_metadata (snd e)", cases "rec_secret (snd e)")
     (simp add: take_entry_def entry_text_def field_taken Let_def label_text_def label_of_def split: option.split)

lemma entries_taken: "length t \<le> n \<Longrightarrow> take_entries n (concat (map entry_text t)) = t"
proof (induction t arbitrary: n)
  case Nil
  then show ?case by (cases n) simp_all
next
  case (Cons e t)
  then obtain m where n: "n = Suc m" "length t \<le> m" by (cases n) auto
  have "entry_text e \<noteq> []" by (cases e) (simp add: entry_text_def field_text_def Let_def)
  with n Cons.IH [OF n(2)] show ?case by (simp add: entry_taken)
qed

lemma plain_codec_kept: "texts_kept plain_codec"
proof -
  have "length t \<le> length (concat (map entry_text t))" for t
  proof (induction t)
    case (Cons e t)
    have "entry_text e \<noteq> []" by (cases e) (simp add: entry_text_def field_text_def Let_def)
    then have "Suc 0 \<le> length (entry_text e)" by (cases "entry_text e") simp_all
    with Cons show ?case by simp
  qed simp
  then show ?thesis by (simp add: texts_kept_def plain_codec_def entries_taken)
qed

definition demo_input :: account_input where
  "demo_input = \<lparr>ai_id = ''primary'', ai_address = ''G'', ai_label = None, ai_keyMaterial = ''secret'', ai_accountPayload = ''{}''\<rparr>"

lemma saved_unlocked: "vault_saveItem c rnd now k t v = Some w \<Longrightarrow> vault_isUnlocked w"
  by (auto simp: vault_saveItem_def vault_isUnlocked_def split: option.splits)

lemma saved_key: "vault_saveItem c rnd now k t v = Some w \<Longrightarrow> vt_key w = vt_key v"
  by (auto simp: vault_saveItem_def split: option.splits)

lemma saved_storage: "vault_saveItem c rnd now k t v = Some w \<Longrightarrow> vt_key v = Some key \<Longrightarrow>
    vt_storage w = map_set k (StPayload (encryptData c key rnd t)) (vt_storage v)"
  by (auto simp: vault_saveItem_def)

lemma decrypt_same: "(\<And>k. k \<in> set ks \<Longrightarrow> readEncryptedPayload s k = readEncryptedPayload s' k) \<Longrightarrow> decrypt_all c key s ks = decrypt_all c key s' ks"
  by (induction ks) (auto split: option.splits)

lemma demo_unlocked: "vault_isUnlocked demo_vault"
  by (rule saved_unlocked [OF demo_saved])

theorem persisted_account_loaded_witness:
  "\<exists>m w. persistAccount symbolic_crypto plain_codec ([1], [2]) 7 ''d7'' DEFAULT_ACCOUNTS_STORAGE_KEY demo_input demo_vault = Some (m, w)
    \<and> map_option fst (loadAccount symbolic_crypto plain_codec 8 DEFAULT_ACCOUNTS_STORAGE_KEY ''primary'' w) = Some (Some (account_entry m demo_input))"
  using persisted_account_loaded [OF symbolic_sound plain_codec_kept demo_unlocked,
      of "([1], [2])" 7 "''d7''" DEFAULT_ACCOUNTS_STORAGE_KEY demo_input 8] by (auto simp: demo_input_def)

text \<open>A vault with a table of accounts under a key.\<close>

definition demo_table :: account_table where
  "demo_table = [(''primary'', account_entry \<lparr>am_id = ''primary'', am_address = ''G'', am_label = None, am_createdAt = ''d1'', am_updatedAt = ''d1''\<rparr> demo_input)]"

definition vault_with_table :: "string \<Rightarrow> (string \<times> nat list, (string \<times> nat list) \<times> nat list \<times> nat list \<times> string) vault" where
  "vault_with_table k = the (vault_saveItem symbolic_crypto ([1], [2]) 6 k (tt_write plain_codec demo_table) demo_vault)"

lemma table_saved: "vault_saveItem symbolic_crypto ([1], [2]) 6 k (tt_write plain_codec demo_table) demo_vault = Some (vault_with_table k)"
proof -
  obtain w where "vault_saveItem symbolic_crypto ([1], [2]) 6 k (tt_write plain_codec demo_table) demo_vault = Some w"
    using save_clear [OF symbolic_sound demo_unlocked] by metis
  then show ?thesis by (simp add: vault_with_table_def)
qed

lemma demo_clear: "clear_text symbolic_crypto (vault_with_table k) k' = (if k' = k then Some (tt_write plain_codec demo_table) else clear_text symbolic_crypto demo_vault k')"
proof -
  obtain w where w: "vault_saveItem symbolic_crypto ([1], [2]) 6 k (tt_write plain_codec demo_table) demo_vault = Some w"
    "\<And>k'. clear_text symbolic_crypto w k' = (if k' = k then Some (tt_write plain_codec demo_table) else clear_text symbolic_crypto demo_vault k')"
    using save_clear [OF symbolic_sound demo_unlocked, where rnd = "([1], [2])" and now = 6 and k = k and t = "tt_write plain_codec demo_table"] by metis
  then show ?thesis using table_saved [of k] by simp
qed

lemma demo_storage_keys: "readEncryptedPayload (vt_storage demo_vault) ''vault_accounts'' = None"
  "readEncryptedPayload (vt_storage demo_vault) ''mobile_vault_accounts'' = None"
  by (simp_all add: demo_vault_eq readEncryptedPayload_def map_get_def)

theorem migration_moves_accounts_witness:
  "\<exists>w w'. migrateLegacyMobileVault symbolic_crypto plain_codec ([5], [6]) 7 (vault_with_table VAULT_ACCOUNTS_KEY) = Some (True, w)
     \<and> clear_table symbolic_crypto plain_codec w DEFAULT_ACCOUNTS_STORAGE_KEY = Some demo_table \<and> map_get (vt_storage w) VAULT_ACCOUNTS_KEY = None
     \<and> migrateLegacyMobileVault symbolic_crypto plain_codec ([7], [8]) 9 w = Some (False, w') \<and> same_vault w w'"
proof -
  have t: "clear_table symbolic_crypto plain_codec (vault_with_table VAULT_ACCOUNTS_KEY) VAULT_ACCOUNTS_KEY = Some demo_table"
    using plain_codec_kept by (simp add: clear_table_def demo_clear texts_kept_def)
  have "clear_text symbolic_crypto demo_vault DEFAULT_ACCOUNTS_STORAGE_KEY = None"
    using demo_storage_keys(1) by (simp add: clear_text_def DEFAULT_ACCOUNTS_STORAGE_KEY_def split: option.split)
  then have n: "clear_table symbolic_crypto plain_codec (vault_with_table VAULT_ACCOUNTS_KEY) DEFAULT_ACCOUNTS_STORAGE_KEY = None"
    by (simp add: clear_table_def demo_clear VAULT_ACCOUNTS_KEY_def DEFAULT_ACCOUNTS_STORAGE_KEY_def)
  show ?thesis
    using migration_moves_accounts [OF symbolic_sound plain_codec_kept saved_unlocked [OF table_saved] t,
        where rnd = "([5], [6])" and now = 7 and rnd' = "([7], [8])" and now' = 9] n by simp
qed

theorem password_change_forgets_accounts_witness:
  "\<exists>w m w'. changeVaultPassword symbolic_crypto fresh_salt demo_random 20 ''pw'' ''next'' (vault_with_table DEFAULT_ACCOUNTS_STORAGE_KEY) = (Changed True, w)
    \<and> map_option fst (listAccountMetadata symbolic_crypto plain_codec length 21 DEFAULT_ACCOUNTS_STORAGE_KEY w) = Some []
    \<and> persistAccount symbolic_crypto plain_codec ([9], [9]) 21 ''d21'' DEFAULT_ACCOUNTS_STORAGE_KEY demo_input w = Some (m, w')
    \<and> map_option fst (listAccountMetadata symbolic_crypto plain_codec length 21 DEFAULT_ACCOUNTS_STORAGE_KEY w') = Some [m]"
proof -
  let ?v = "vault_with_table DEFAULT_ACCOUNTS_STORAGE_KEY"
  have nr: "DEFAULT_ACCOUNTS_STORAGE_KEY \<notin> reserved_keys"
    by (simp add: reserved_keys_def DEFAULT_ACCOUNTS_STORAGE_KEY_def MASTER_SALT_STORAGE_KEY_def VERIFICATION_PAYLOAD_STORAGE_KEY_def)
  note keep = save_keeps [OF table_saved nr]
  have vf: "vault_for symbolic_crypto ''pw'' (vt_storage ?v)" "loadMasterSalt (vt_storage ?v) = Some demo_salt"
    using demo_vault_for keep by (simp_all add: vault_for_def)
  have "vt_key demo_vault = Some (vc_derive symbolic_crypto ''pw'' demo_salt)"
    by (subst saved_key [OF demo_saved], rule first_unlock(3)) (simp_all add: new_vault_def loadMasterSalt_def demo_salt_def)
  then have k: "vt_key demo_vault = Some (''pw'', demo_salt)" by (simp add: symbolic_crypto_def)
  have st: "vt_storage ?v = map_set DEFAULT_ACCOUNTS_STORAGE_KEY (StPayload (encryptData symbolic_crypto (''pw'', demo_salt) ([1], [2]) (tt_write plain_codec demo_table))) (vt_storage demo_vault)"
    by (rule saved_storage [OF table_saved k])
  have r: "readEncryptedPayload (vt_storage ?v) k = readEncryptedPayload (vt_storage demo_vault) k" if "k \<noteq> DEFAULT_ACCOUNTS_STORAGE_KEY" for k
    using that by (simp add: st read_set)
  have items: "decrypt_all symbolic_crypto (vc_derive symbolic_crypto ''pw'' demo_salt) (vt_storage ?v) (change_keys []) = Some [(''account'', ''A1'')]"
    by (subst decrypt_same [where s' = "vt_storage demo_vault"], rule r)
      (auto simp: demo_items, simp add: change_keys_def DEFAULT_DATA_KEYS_def DEFAULT_ACCOUNTS_STORAGE_KEY_def)
  have ne: "fresh_salt \<noteq> demo_salt" by (simp add: fresh_salt_def demo_salt_def)
  have p: "readEncryptedPayload (vt_storage ?v) DEFAULT_ACCOUNTS_STORAGE_KEY
      = Some (encryptData symbolic_crypto (vc_derive symbolic_crypto ''pw'' demo_salt) ([1], [2]) (tt_write plain_codec demo_table))"
    by (simp add: st read_set symbolic_crypto_def)
  show ?thesis by (rule password_change_forgets_accounts [OF symbolic_sound plain_codec_kept vf items ne p])
qed

theorem reveal_needs_password_witness:
  "fst (revealVaultSecret symbolic_crypto (\<lambda>t. None) (\<lambda>v p. None) [] ([], []) 9 PrivateKey ''guess'' True demo_vault) = Inl IncorrectPassword"
  using reveal_needs_password [OF symbolic_sound demo_vault_for(1), where json_parse = "\<lambda>t. None" and dec = "\<lambda>v p. None" and ns = "[]"
      and r = "([], [])" and now = 9 and kind = PrivateKey and q = "''guess''"]
  by (simp add: split_def)

end
