(* ===== verification/Onboarding.thy ===== *)
theory Onboarding
  imports VaultAccounts
begin

text \<open>
  Onboarding in the extension: the hook \<open>apps/extension-wallet/src/hooks/useOnboarding.ts\<close> and the deployment of the
  smart account, \<open>services/deploy-account.ts\<close>. The ledger is a parameter: what the network answers to a read and
  what an operation makes of it, a refused operation failing in its simulation. Wallet creation and import
  (Web Crypto) are outcomes.
\<close>

section \<open>Deploying the account\<close>

datatype deploy_op = UploadWasm | CreateContract | InitializeOwner

record 'c deploy_ledger =
  dl_owner_known :: "'c \<Rightarrow> bool"
  dl_wasm :: "'c \<Rightarrow> bool"
  dl_apply :: "deploy_op \<Rightarrow> 'c \<Rightarrow> 'c option"

datatype poll_reply = PollThrew string | PollNotOk | PollStatus "string option"

text \<open>One submission: a failed read of the source account, a rejection, whether it lands, and the polls.\<close>

record submission_io =
  su_account :: "string option"
  su_refusal :: string
  su_rejected :: "string option"
  su_hash :: string
  su_lands :: bool
  su_poll :: "nat \<Rightarrow> poll_reply"

definition POLL_ATTEMPTS :: nat where
  "POLL_ATTEMPTS = 30"

fun pollTransactionStatus :: "(nat \<Rightarrow> poll_reply) \<Rightarrow> nat \<Rightarrow> nat \<Rightarrow> string + string" where
  "pollTransactionStatus poll i 0 = Inl ''Timed out waiting for transaction confirmation''"
| "pollTransactionStatus poll i (Suc n) = (case poll i of
       PollThrew m \<Rightarrow> Inl m
     | PollStatus (Some s) \<Rightarrow> if s = ''SUCCESS'' \<or> s = ''FAILED'' then Inr s else pollTransactionStatus poll (Suc i) n
     | _ \<Rightarrow> pollTransactionStatus poll (Suc i) n)"

definition submitAndConfirm ::
  "'c deploy_ledger \<Rightarrow> submission_io \<Rightarrow> deploy_op \<Rightarrow> 'c \<Rightarrow> (string + string) \<times> 'c" where
  "submitAndConfirm ledger io op c = (case su_account io of
       Some m \<Rightarrow> (Inl m, c)
     | None \<Rightarrow> (case dl_apply ledger op c of
         None \<Rightarrow> (Inl (su_refusal io), c)
       | Some c' \<Rightarrow> (case su_rejected io of
           Some m \<Rightarrow> (Inl (''Transaction rejected: '' @ m), c)
         | None \<Rightarrow> (case pollTransactionStatus (su_poll io) 0 POLL_ATTEMPTS of
               Inl m \<Rightarrow> Inl m
             | Inr s \<Rightarrow> if s \<noteq> ''SUCCESS'' then Inl (''Transaction did not succeed: '' @ s) else Inr (su_hash io),
             if su_lands io then c' else c))))"

datatype deploy_network = Testnet | Mainnet | Futurenet | LocalNet

record deploy_io =
  di_owner_read :: bool
  di_fund :: "string option"
  di_wasm_fetch :: "string option"
  di_wasm_read :: bool
  di_step :: "deploy_op \<Rightarrow> submission_io"

record deploy_result =
  dr_contractId :: string
  dr_txHash :: "string option"

definition toUserMessage :: "string \<Rightarrow> string" where
  "toUserMessage m = (if m = [] then ''Smart account deployment failed. Please try again.'' else m)"

definition getDeployedContractId :: "'c deploy_ledger \<Rightarrow> deploy_io \<Rightarrow> string \<Rightarrow> 'c \<Rightarrow> string option" where
  "getDeployedContractId ledger io contractId c = (if di_owner_read io \<and> dl_owner_known ledger c then Some contractId else None)"

definition ensure_wasm :: "'c deploy_ledger \<Rightarrow> deploy_io \<Rightarrow> 'c \<Rightarrow> (string + string) \<times> 'c" where
  "ensure_wasm ledger io c =
     (if di_wasm_read io \<and> dl_wasm ledger c then (Inr [], c) else submitAndConfirm ledger (di_step io UploadWasm) UploadWasm c)"

definition deployAccount ::
  "'c deploy_ledger \<Rightarrow> deploy_network \<Rightarrow> deploy_io \<Rightarrow> string \<Rightarrow> 'c \<Rightarrow> (string + deploy_result) \<times> 'c" where
  "deployAccount ledger network io contractId c =
     (case getDeployedContractId ledger io contractId c of
        Some i \<Rightarrow> (Inr \<lparr>dr_contractId = i, dr_txHash = None\<rparr>, c)
      | None \<Rightarrow> (case (if network = Testnet then di_fund io else None) of
          Some m \<Rightarrow> (Inl (toUserMessage m), c)
        | None \<Rightarrow> (case di_wasm_fetch io of
            Some m \<Rightarrow> (Inl (toUserMessage m), c)
          | None \<Rightarrow>
              (case ensure_wasm ledger io c of
                (Inl m, c1) \<Rightarrow> (Inl (toUserMessage m), c1)
              | (Inr _, c1) \<Rightarrow> (case submitAndConfirm ledger (di_step io CreateContract) CreateContract c1 of
                  (Inl m, c2) \<Rightarrow> (Inl (toUserMessage m), c2)
                | (Inr _, c2) \<Rightarrow> (case submitAndConfirm ledger (di_step io InitializeOwner) InitializeOwner c2 of
                    (Inl m, c3) \<Rightarrow> (Inl (toUserMessage m), c3)
                  | (Inr h, c3) \<Rightarrow> (Inr \<lparr>dr_contractId = contractId, dr_txHash = Some h\<rparr>, c3)))))))"

section \<open>The hook\<close>

datatype onboarding_step = WelcomeStep | GenerateStep | VerifyStep | PasswordStep | DeployStep | SuccessStep

record onboarded_account =
  oa_publicKey :: string
  oa_contractId :: string
  oa_txHash :: "string option"
  oa_alreadyDeployed :: bool
  oa_encryptedMnemonic :: string

record onboarding_state =
  ob_step :: onboarding_step
  ob_mnemonic :: "string option"
  ob_verified :: bool
  ob_password :: "string option"
  ob_account :: "onboarded_account option"
  ob_error :: "string option"
  ob_isLoading :: bool

definition DEFAULT_STATE :: onboarding_state where
  "DEFAULT_STATE = \<lparr>ob_step = WelcomeStep, ob_mnemonic = None, ob_verified = False, ob_password = None, ob_account = None,
     ob_error = None, ob_isLoading = False\<rparr>"

definition onboarding_steps :: "onboarding_step list" where
  "onboarding_steps = [WelcomeStep, GenerateStep, VerifyStep, PasswordStep, DeployStep, SuccessStep]"

fun step_index :: "onboarding_step \<Rightarrow> nat" where
  "step_index WelcomeStep = 0"
| "step_index GenerateStep = 1"
| "step_index VerifyStep = 2"
| "step_index PasswordStep = 3"
| "step_index DeployStep = 4"
| "step_index SuccessStep = 5"

definition goToNextStep :: "onboarding_state \<Rightarrow> onboarding_state" where
  "goToNextStep s = (let i = step_index (ob_step s) in
     if i < length onboarding_steps - 1 then s\<lparr>ob_step := onboarding_steps ! (i + 1)\<rparr> else s)"

definition goToStep :: "onboarding_step \<Rightarrow> onboarding_state \<Rightarrow> onboarding_state" where
  "goToStep t s = (if t = WelcomeStep then DEFAULT_STATE else s\<lparr>ob_step := t, ob_error := None\<rparr>)"

definition goToPreviousStep :: "onboarding_state \<Rightarrow> onboarding_state" where
  "goToPreviousStep s = (let i = step_index (ob_step s) in if 0 < i then goToStep (onboarding_steps ! (i - 1)) s else s)"

text \<open>A thrown value that is no error has no message of its own.\<close>

definition onboarding_message :: "string option \<Rightarrow> string \<Rightarrow> string" where
  "onboarding_message m text = coalesce m text"

datatype onboarding_event =
    GoNext | GoPrevious | GoTo onboarding_step | StartOnboarding
  | GenerateCalled | Generated string | GenerateFailed "string option"
  | VerifyMnemonic | SetPassword string | EncryptFailed "string option"
  | DeployCalled | ImportRejected | Deployed onboarded_account | DeployFailed "string option"
  | ImportMnemonic string | ResetOnboarding | ClearError

definition can_deploy :: "onboarding_state \<Rightarrow> bool" where
  "can_deploy s = ((case ob_mnemonic s of Some m \<Rightarrow> m \<noteq> [] | None \<Rightarrow> False) \<and> (case ob_password s of Some p \<Rightarrow> p \<noteq> [] | None \<Rightarrow> False))"

fun onboarding :: "onboarding_event \<Rightarrow> onboarding_state \<Rightarrow> onboarding_state" where
  "onboarding GoNext s = goToNextStep s"
| "onboarding GoPrevious s = goToPreviousStep s"
| "onboarding (GoTo t) s = goToStep t s"
| "onboarding StartOnboarding s = s\<lparr>ob_step := WelcomeStep\<rparr>"
| "onboarding GenerateCalled s = s\<lparr>ob_isLoading := True, ob_error := None\<rparr>"
| "onboarding (Generated m) s = s\<lparr>ob_mnemonic := Some m, ob_step := GenerateStep, ob_isLoading := False, ob_error := None\<rparr>"
| "onboarding (GenerateFailed m) s = s\<lparr>ob_isLoading := False, ob_error := Some (onboarding_message m ''Failed to generate mnemonic'')\<rparr>"
| "onboarding VerifyMnemonic s = s\<lparr>ob_verified := True\<rparr>"
| "onboarding (SetPassword p) s = s\<lparr>ob_password := Some p\<rparr>"
| "onboarding (EncryptFailed m) s = s\<lparr>ob_error := Some (onboarding_message m ''Failed to encrypt mnemonic'')\<rparr>"
| "onboarding DeployCalled s =
     (if (case ob_mnemonic s of None \<Rightarrow> True | Some m \<Rightarrow> m = []) then s\<lparr>ob_error := Some ''No mnemonic generated''\<rparr>
      else if (case ob_password s of None \<Rightarrow> True | Some p \<Rightarrow> p = []) then s\<lparr>ob_error := Some ''No password set''\<rparr>
      else s\<lparr>ob_isLoading := True, ob_error := None\<rparr>)"
| "onboarding ImportRejected s = s"
| "onboarding (Deployed a) s = s\<lparr>ob_account := Some a, ob_mnemonic := None, ob_isLoading := False, ob_step := SuccessStep\<rparr>"
| "onboarding (DeployFailed m) s = s\<lparr>ob_isLoading := False, ob_error := Some (onboarding_message m ''Failed to deploy account'')\<rparr>"
| "onboarding (ImportMnemonic m) s = s\<lparr>ob_mnemonic := Some m, ob_step := DeployStep\<rparr>"
| "onboarding ResetOnboarding s = DEFAULT_STATE"
| "onboarding ClearError s = s\<lparr>ob_error := None\<rparr>"

text \<open>
  A whole call of \<open>deployAccount\<close>: the import, the deployment, the best-effort write to the vault (\<open>None\<close> stands for
  a storage that throws), the account store. The state is that at the call.
\<close>

definition vault_account :: "string \<Rightarrow> string \<Rightarrow> string \<Rightarrow> js" where
  "vault_account phrase publicKey contractId =
     JsObj [(''privateKey'', JsStr phrase), (''publicKey'', JsStr publicKey), (''contractId'', JsStr contractId)]"

definition keep_secret ::
  "('k, 'd) vault_crypto \<Rightarrow> (js \<Rightarrow> string) \<Rightarrow> nat list \<Rightarrow> nat list \<times> nat list \<Rightarrow> nat list \<times> nat list \<Rightarrow> time \<Rightarrow> string \<Rightarrow> js
     \<Rightarrow> ('k, 'd) vault \<Rightarrow> ('k, 'd) vault" where
  "keep_secret c stringify new_salt r1 r2 now password account v = (case vault_unlock c new_salt r1 now password v of
       (False, w) \<Rightarrow> w
     | (True, w) \<Rightarrow> (case saveAccount c r2 now (stringify account) w of None \<Rightarrow> w | Some w' \<Rightarrow> w'))"

record store_entry =
  sa_id :: string
  sa_address :: string
  sa_label :: string
  sa_contractId :: string

record ('k, 'd) onboarding_world =
  ow_state :: onboarding_state
  ow_vault :: "('k, 'd) vault"
  ow_store :: "store_entry option"

definition deploy_call ::
  "('k, 'd) vault_crypto \<Rightarrow> (js \<Rightarrow> string) \<Rightarrow> nat list \<Rightarrow> nat list \<times> nat list \<Rightarrow> nat list \<times> nat list \<Rightarrow> time
     \<Rightarrow> (string \<Rightarrow> string \<Rightarrow> imported_wallet option) \<Rightarrow> string + deploy_result \<Rightarrow> ('k, 'd) onboarding_world \<Rightarrow> ('k, 'd) onboarding_world" where
  "deploy_call c stringify new_salt r1 r2 now importWallet outcome x =
     (let s = onboarding DeployCalled (ow_state x) in
      if \<not> can_deploy (ow_state x) then x\<lparr>ow_state := s\<rparr>
      else let phrase = coalesce (ob_mnemonic (ow_state x)) []; password = coalesce (ob_password (ow_state x)) [] in
        (case importWallet phrase password of
          None \<Rightarrow> x\<lparr>ow_state := onboarding ImportRejected s\<rparr>
        | Some w \<Rightarrow> (case outcome of
            Inl m \<Rightarrow> x\<lparr>ow_state := onboarding (DeployFailed (Some m)) s\<rparr>
          | Inr d \<Rightarrow> \<lparr>ow_state = onboarding (Deployed \<lparr>oa_publicKey = iw_publicKey w, oa_contractId = dr_contractId d,
                  oa_txHash = dr_txHash d, oa_alreadyDeployed = (dr_txHash d = None),
                  oa_encryptedMnemonic = coalesce (iw_encryptedMnemonic w) []\<rparr>) s,
                ow_vault = keep_secret c stringify new_salt r1 r2 now password
                  (vault_account phrase (iw_publicKey w) (dr_contractId d)) (ow_vault x),
                ow_store = Some \<lparr>sa_id = iw_publicKey w, sa_address = iw_publicKey w, sa_label = ''Ancore Wallet'',
                  sa_contractId = dr_contractId d\<rparr>\<rparr>)))"

section \<open>Polling\<close>

definition poll_waits :: "poll_reply \<Rightarrow> bool" where
  "poll_waits r = (case r of PollThrew _ \<Rightarrow> False | PollNotOk \<Rightarrow> True | PollStatus s \<Rightarrow> s \<noteq> Some ''SUCCESS'' \<and> s \<noteq> Some ''FAILED'')"

lemma poll_wait: "poll_waits (poll i) \<Longrightarrow> pollTransactionStatus poll i (Suc n) = pollTransactionStatus poll (Suc i) n"
  by (auto simp: poll_waits_def split: poll_reply.splits option.splits)

lemma poll_stop: "\<not> poll_waits (poll i) \<Longrightarrow> pollTransactionStatus poll i (Suc n) =
    (case poll i of PollThrew m \<Rightarrow> Inl m | PollStatus s \<Rightarrow> Inr (coalesce s []) | PollNotOk \<Rightarrow> Inl [])"
  by (auto simp: poll_waits_def split: poll_reply.splits option.splits)

text \<open>
  A confirmation ends after at most thirty reads, and says what the first conclusive one says: a status only
  when one of the thirty gave it and every read before was inconclusive.
\<close>

lemma poll_status_iff:
  "pollTransactionStatus poll i n = Inr s \<longleftrightarrow> (\<exists>k < n. (\<forall>j < k. poll_waits (poll (i + j))) \<and> poll (i + k) = PollStatus (Some s) \<and> s \<in> {''SUCCESS'', ''FAILED''})"
proof (induction n arbitrary: i)
  case (Suc n)
  show ?case
  proof (cases "poll_waits (poll i)")
    case True
    have "(\<exists>k < Suc n. (\<forall>j < k. poll_waits (poll (i + j))) \<and> poll (i + k) = PollStatus (Some s) \<and> s \<in> {''SUCCESS'', ''FAILED''})
      \<longleftrightarrow> (\<exists>k < n. (\<forall>j < k. poll_waits (poll (Suc i + j))) \<and> poll (Suc i + k) = PollStatus (Some s) \<and> s \<in> {''SUCCESS'', ''FAILED''})" (is "?a \<longleftrightarrow> ?b")
    proof
      assume ?a
      then obtain k where k: "k < Suc n" "\<forall>j < k. poll_waits (poll (i + j))" "poll (i + k) = PollStatus (Some s)" "s \<in> {''SUCCESS'', ''FAILED''}" by blast
      have "k \<noteq> 0" using True k(3,4) by (cases k) (auto simp: poll_waits_def)
      then obtain k' where k': "k = Suc k'" by (cases k) auto
      with k show ?b by (intro exI [of _ k']) fastforce
    next
      assume ?b
      then obtain k where k: "k < n" "\<forall>j < k. poll_waits (poll (Suc i + j))" "poll (Suc i + k) = PollStatus (Some s)" "s \<in> {''SUCCESS'', ''FAILED''}" by blast
      have "poll_waits (poll (i + j))" if "j < Suc k" for j using that True k(2) by (cases j) auto
      with k show ?a by (intro exI [of _ "Suc k"]) auto
    qed
    with Suc.IH [of "Suc i"] poll_wait [of poll i n] True show ?thesis by (simp del: pollTransactionStatus.simps)
  next
    case False
    have z: "k = 0" if "\<forall>j < k. poll_waits (poll (i + j))" for k using that False by (cases k) auto
    show ?thesis
    proof
      assume "pollTransactionStatus poll i (Suc n) = Inr s"
      then have "poll i = PollStatus (Some s) \<and> s \<in> {''SUCCESS'', ''FAILED''}"
        using False poll_stop [of poll i n] by (auto simp: poll_waits_def simp del: pollTransactionStatus.simps split: poll_reply.splits)
      then show "\<exists>k < Suc n. (\<forall>j < k. poll_waits (poll (i + j))) \<and> poll (i + k) = PollStatus (Some s) \<and> s \<in> {''SUCCESS'', ''FAILED''}"
        by (intro exI [of _ 0]) simp
    next
      assume "\<exists>k < Suc n. (\<forall>j < k. poll_waits (poll (i + j))) \<and> poll (i + k) = PollStatus (Some s) \<and> s \<in> {''SUCCESS'', ''FAILED''}"
      then have "poll i = PollStatus (Some s)" using z by force
      then show "pollTransactionStatus poll i (Suc n) = Inr s" using poll_stop [of poll i n] False by simp
    qed
  qed
qed simp

section \<open>Interrupted deployments\<close>

text \<open>
  What is relied on of the ledger, \<open>exists\<close> telling whether the instance does: an address is created once, an
  instance just created has no owner, and installing code concerns neither.
\<close>

definition ledger_laws :: "'c deploy_ledger \<Rightarrow> ('c \<Rightarrow> bool) \<Rightarrow> bool" where
  "ledger_laws ledger exists \<longleftrightarrow>
     (\<forall>c. exists c \<longrightarrow> dl_apply ledger CreateContract c = None)
     \<and> (\<forall>c c'. dl_apply ledger CreateContract c = Some c' \<longrightarrow> exists c' \<and> \<not> dl_owner_known ledger c')
     \<and> (\<forall>c c'. dl_apply ledger UploadWasm c = Some c' \<longrightarrow> dl_owner_known ledger c' = dl_owner_known ledger c \<and> exists c' = exists c)"

definition ownerless :: "'c deploy_ledger \<Rightarrow> ('c \<Rightarrow> bool) \<Rightarrow> 'c \<Rightarrow> bool" where
  "ownerless ledger exists c = (exists c \<and> \<not> dl_owner_known ledger c)"

fun deploy_attempts :: "'c deploy_ledger \<Rightarrow> string \<Rightarrow> (deploy_network \<times> deploy_io) list \<Rightarrow> 'c \<Rightarrow> (string + deploy_result) list" where
  "deploy_attempts ledger contractId [] c = []"
| "deploy_attempts ledger contractId ((n, io) # rest) c = (case deployAccount ledger n io contractId c of
     (r, c') \<Rightarrow> r # deploy_attempts ledger contractId rest c')"

lemma submission_effect:
  "snd (submitAndConfirm ledger io op c) \<in> {c, the (dl_apply ledger op c)} \<and> (snd (submitAndConfirm ledger io op c) \<noteq> c \<longrightarrow> dl_apply ledger op c \<noteq> None)"
  "dl_apply ledger op c = None \<Longrightarrow> \<exists>m. submitAndConfirm ledger io op c = (Inl m, c)"
  by (auto simp: submitAndConfirm_def split: option.splits)

lemma ownerless_attempt:
  assumes "ledger_laws ledger exists" "ownerless ledger exists c"
  shows "\<exists>m. fst (deployAccount ledger n io contractId c) = Inl m" "ownerless ledger exists (snd (deployAccount ledger n io contractId c))"
proof -
  define up where "up = ensure_wasm ledger io c"
  have kept: "ownerless ledger exists (snd up)"
  proof (cases "snd up = c")
    case False
    then have "snd up = snd (submitAndConfirm ledger (di_step io UploadWasm) UploadWasm c)" by (auto simp: up_def ensure_wasm_def)
    with False have "dl_apply ledger UploadWasm c = Some (snd up)" using submission_effect(1) [of ledger "di_step io UploadWasm" UploadWasm c] by auto
    with assms show ?thesis unfolding ledger_laws_def ownerless_def by blast
  qed (use assms(2) in simp)
  then have "dl_apply ledger CreateContract (snd up) = None" using assms(1) by (simp add: ownerless_def ledger_laws_def)
  then obtain m where m: "submitAndConfirm ledger (di_step io CreateContract) CreateContract (snd up) = (Inl m, snd up)"
    using submission_effect(2) by metis
  have g: "getDeployedContractId ledger io contractId c = None" using assms(2) by (simp add: getDeployedContractId_def ownerless_def)
  have d: "deployAccount ledger n io contractId c =
    (case (if n = Testnet then di_fund io else None) of Some m \<Rightarrow> (Inl (toUserMessage m), c)
     | None \<Rightarrow> (case di_wasm_fetch io of Some m \<Rightarrow> (Inl (toUserMessage m), c)
       | None \<Rightarrow> (case up of (Inl m, c1) \<Rightarrow> (Inl (toUserMessage m), c1) | (Inr _, c1) \<Rightarrow> (Inl (toUserMessage m), c1))))"
    using m by (cases up) (simp add: deployAccount_def g up_def [symmetric] split: option.split sum.split)
  show "\<exists>m. fst (deployAccount ledger n io contractId c) = Inl m"
    unfolding d by (simp split: option.split prod.split sum.split)
  show "ownerless ledger exists (snd (deployAccount ledger n io contractId c))"
    using kept assms(2) unfolding d by (auto split: option.split prod.split sum.split)
qed

lemma ownerless_attempts:
  assumes "ledger_laws ledger exists" "ownerless ledger exists c"
  shows "list_all (\<lambda>r. \<not> is_ok r) (deploy_attempts ledger contractId attempts c)"
  using assms(2)
proof (induction attempts arbitrary: c)
  case (Cons a rest)
  obtain k io where a: "a = (k, io)" by (cases a)
  obtain r d where r: "deployAccount ledger k io contractId c = (r, d)" by (cases "deployAccount ledger k io contractId c")
  have "\<exists>m. r = Inl m" "ownerless ledger exists d" using ownerless_attempt [OF assms(1) Cons.prems, of k io contractId] r by simp_all
  with Cons.IH [of d] show ?case by (auto simp: a r)
qed simp

text \<open>What a deployment leaves behind when only its last step fails.\<close>

lemma stopped_at_owner:
  assumes "ledger_laws ledger exists" "getDeployedContractId ledger io contractId c = None" "network = Testnet \<longrightarrow> di_fund io = None"
    "di_wasm_fetch io = None" "ensure_wasm ledger io c = (Inr h, c1)"
    "submitAndConfirm ledger (di_step io CreateContract) CreateContract c1 = (res, c2)" "c2 \<noteq> c1"
    "submitAndConfirm ledger (di_step io InitializeOwner) InitializeOwner c2 = (Inl m, c2)"
  shows "fst (deployAccount ledger network io contractId c) \<in> range Inl" "snd (deployAccount ledger network io contractId c) = c2"
    "ownerless ledger exists c2"
proof -
  have "dl_apply ledger CreateContract c1 = Some c2"
    using submission_effect(1) [of ledger "di_step io CreateContract" CreateContract c1] assms(6,7) by auto
  with assms(1) show "ownerless ledger exists c2" unfolding ledger_laws_def ownerless_def by blast
  show "fst (deployAccount ledger network io contractId c) \<in> range Inl" "snd (deployAccount ledger network io contractId c) = c2"
    using assms(2-8) by (cases res; simp add: deployAccount_def)+
qed

text \<open>
  C20. A deployment whose contract was created but not initialised cannot be completed: whether the confirmation of
  the creation was missed or the last step failed, every later attempt asks for the owner, finds none, tries to
  create the contract a second time and fails.
\<close>

theorem partial_deployment_stuck:
  assumes "ledger_laws ledger exists" "getDeployedContractId ledger io contractId c = None" "network = Testnet \<longrightarrow> di_fund io = None"
    "di_wasm_fetch io = None" "ensure_wasm ledger io c = (Inr h, c1)"
    "submitAndConfirm ledger (di_step io CreateContract) CreateContract c1 = (res, c2)" "c2 \<noteq> c1"
    "submitAndConfirm ledger (di_step io InitializeOwner) InitializeOwner c2 = (Inl m, c2)"
  shows "list_all (\<lambda>r. \<not> is_ok r) (deploy_attempts ledger contractId ((network, io) # attempts) c)"
proof -
  obtain x where "deployAccount ledger network io contractId c = (Inl x, c2)"
    using stopped_at_owner(1,2) [OF assms] by (cases "deployAccount ledger network io contractId c") auto
  then show ?thesis using ownerless_attempts [OF assms(1) stopped_at_owner(3) [OF assms]] by simp
qed

text \<open>
  A deployment none of whose steps fails ends with the contract and the hash of its last transaction, and from
  then on the contract is found and nothing is submitted.
\<close>

theorem deployment_completes:
  assumes "getDeployedContractId ledger io contractId c = None" "network = Testnet \<longrightarrow> di_fund io = None" "di_wasm_fetch io = None"
    "ensure_wasm ledger io c = (Inr h, c1)" "submitAndConfirm ledger (di_step io CreateContract) CreateContract c1 = (Inr h1, c2)"
    "submitAndConfirm ledger (di_step io InitializeOwner) InitializeOwner c2 = (Inr h2, c3)" "dl_owner_known ledger c3" "di_owner_read io'"
  shows "deployAccount ledger network io contractId c = (Inr \<lparr>dr_contractId = contractId, dr_txHash = Some h2\<rparr>, c3)
    \<and> deployAccount ledger network' io' contractId c3 = (Inr \<lparr>dr_contractId = contractId, dr_txHash = None\<rparr>, c3)"
  using assms by (simp add: deployAccount_def getDeployedContractId_def)

text \<open>A ledger of one account: whether its code is installed, and whether it exists and has an owner.\<close>

definition demo_ledger :: "(bool \<times> nat) deploy_ledger" where
  "demo_ledger = \<lparr>dl_owner_known = (\<lambda>c. snd c = 2), dl_wasm = fst,
     dl_apply = (\<lambda>op c. case op of UploadWasm \<Rightarrow> Some (True, snd c)
       | CreateContract \<Rightarrow> if fst c \<and> snd c = 0 then Some (fst c, 1) else None
       | InitializeOwner \<Rightarrow> if snd c = 1 then Some (fst c, 2) else None)\<rparr>"

definition good_submission :: submission_io where
  "good_submission = \<lparr>su_account = None, su_refusal = ''refused'', su_rejected = None, su_hash = ''h'', su_lands = True,
     su_poll = (\<lambda>i. if i < 2 then PollStatus (Some ''NOT_FOUND'') else PollStatus (Some ''SUCCESS''))\<rparr>"

definition good_io :: deploy_io where
  "good_io = \<lparr>di_owner_read = True, di_fund = None, di_wasm_fetch = None, di_wasm_read = True, di_step = (\<lambda>op. good_submission)\<rparr>"

definition cut_io :: deploy_io where
  "cut_io = good_io\<lparr>di_step := (\<lambda>op. if op = InitializeOwner then good_submission\<lparr>su_account := Some ''offline''\<rparr> else good_submission)\<rparr>"

theorem partial_deployment_stuck_witness:
  "deploy_attempts demo_ledger ''C1'' [(Testnet, cut_io), (Testnet, good_io), (Mainnet, good_io)] (False, 0)
     = [Inl ''offline'', Inl ''refused'', Inl ''refused''] \<and>
   list_all (\<lambda>r. \<not> is_ok r) (deploy_attempts demo_ledger ''C1'' ((Testnet, cut_io) # [(Testnet, good_io), (Mainnet, good_io)]) (False, 0))"
proof -
  have "ledger_laws demo_ledger (\<lambda>c. snd c \<noteq> 0)" by (auto simp: ledger_laws_def demo_ledger_def split: if_splits)
  then have "list_all (\<lambda>r. \<not> is_ok r) (deploy_attempts demo_ledger ''C1'' ((Testnet, cut_io) # [(Testnet, good_io), (Mainnet, good_io)]) (False, 0))"
    by (rule partial_deployment_stuck [where ?c1.0 = "(True, 0)" and ?c2.0 = "(True, 1)" and h = "''h''" and res = "Inr ''h''" and m = "''offline''"]) code_simp+
  moreover have "deploy_attempts demo_ledger ''C1'' [(Testnet, cut_io), (Testnet, good_io), (Mainnet, good_io)] (False, 0)
     = [Inl ''offline'', Inl ''refused'', Inl ''refused'']" by code_simp
  ultimately show ?thesis by simp
qed

theorem deployment_completes_witness:
  "deployAccount demo_ledger Testnet good_io ''C1'' (False, 0) = (Inr \<lparr>dr_contractId = ''C1'', dr_txHash = Some ''h''\<rparr>, (True, 2))
    \<and> deployAccount demo_ledger Testnet good_io ''C1'' (True, 2) = (Inr \<lparr>dr_contractId = ''C1'', dr_txHash = None\<rparr>, (True, 2))"
  by (rule deployment_completes [where ?c1.0 = "(True, 0)" and ?c2.0 = "(True, 1)" and h = "''h''" and ?h1.0 = "''h''"]) code_simp+

section \<open>Where the phrase goes\<close>

lemma deploy_called: "can_deploy s \<Longrightarrow> onboarding DeployCalled s = s\<lparr>ob_isLoading := True, ob_error := None\<rparr>
    \<and> (\<exists>m p. ob_mnemonic s = Some m \<and> ob_password s = Some p \<and> m \<noteq> [] \<and> p \<noteq> [])"
  by (auto simp: can_deploy_def split: option.splits)

text \<open>
  C19. When a locked vault of another password is already there, onboarding still succeeds, and no storage gets
  the phrase: the vault's storage is what it was and stays locked, the account store gets the key, the label and the
  contract, and the page forgets the phrase. What is left of it is the encrypted phrase in the page's memory, which
  goes with the page: a reset leaves the default state.
\<close>

theorem onboarding_loses_phrase:
  assumes "crypto_sound c" "vault_for c p (vt_storage (ow_vault x))" "vt_key (ow_vault x) = None"
    "can_deploy (ow_state x)" "ob_password (ow_state x) \<noteq> Some p" "importWallet (coalesce (ob_mnemonic (ow_state x)) []) (coalesce (ob_password (ow_state x)) []) = Some w"
  shows "(case deploy_call c stringify ns r1 r2 now importWallet (Inr d) x of y \<Rightarrow>
     ow_state y = (ow_state x)\<lparr>ob_mnemonic := None, ob_step := SuccessStep, ob_isLoading := False, ob_error := None,
        ob_account := Some \<lparr>oa_publicKey = iw_publicKey w, oa_contractId = dr_contractId d, oa_txHash = dr_txHash d,
          oa_alreadyDeployed = (dr_txHash d = None), oa_encryptedMnemonic = coalesce (iw_encryptedMnemonic w) []\<rparr>\<rparr>
     \<and> ow_store y = Some \<lparr>sa_id = iw_publicKey w, sa_address = iw_publicKey w, sa_label = ''Ancore Wallet'', sa_contractId = dr_contractId d\<rparr>
     \<and> vt_storage (ow_vault y) = vt_storage (ow_vault x) \<and> \<not> vault_isUnlocked (ow_vault y)
     \<and> onboarding ResetOnboarding (ow_state y) = DEFAULT_STATE)"
proof -
  obtain m q where mq: "ob_mnemonic (ow_state x) = Some m" "ob_password (ow_state x) = Some q" using deploy_called [OF assms(4)] by blast
  obtain salt where u: "fst (vault_unlock c ns r1 now q (ow_vault x)) = (q = p)"
    "vt_key (snd (vault_unlock c ns r1 now q (ow_vault x))) = (if q = p then Some (vc_derive c p salt) else None)"
    "vt_storage (snd (vault_unlock c ns r1 now q (ow_vault x))) = vt_storage (ow_vault x)"
    using unlock_vault [OF assms(1,2,3), of ns r1 now q] by metis
  have k: "keep_secret c stringify ns r1 r2 now q a (ow_vault x) = snd (vault_unlock c ns r1 now q (ow_vault x))" for a
    using u(1) assms(5) mq(2) by (cases "vault_unlock c ns r1 now q (ow_vault x)") (simp add: keep_secret_def)
  show ?thesis
    using assms(4,5,6) mq u k deploy_called [OF assms(4)] by (simp add: deploy_call_def Let_def vault_isUnlocked_def)
qed

text \<open>
  An unlocked vault takes any password: onboarding writes the new account over the old one, under the key the
  vault was opened with.
\<close>

theorem onboarding_overwrites_account:
  assumes "crypto_sound c" "vt_key (ow_vault x) = Some key" "can_deploy (ow_state x)"
    "importWallet (coalesce (ob_mnemonic (ow_state x)) []) (coalesce (ob_password (ow_state x)) []) = Some w"
  shows "(case deploy_call c stringify ns r1 r2 now importWallet (Inr d) x of y \<Rightarrow>
     vt_key (ow_vault y) = Some key
     \<and> clear_text c (ow_vault y) ''account'' = Some (stringify (vault_account (coalesce (ob_mnemonic (ow_state x)) []) (iw_publicKey w) (dr_contractId d))))"
proof -
  obtain m q where mq: "ob_mnemonic (ow_state x) = Some m" "ob_password (ow_state x) = Some q" using deploy_called [OF assms(3)] by blast
  have u: "vault_unlock c ns r1 now q (ow_vault x) = (True, vault_touch now (ow_vault x))" using assms(2) by (simp add: vault_unlock_def)
  have t: "vault_isUnlocked (vault_touch now (ow_vault x))" using assms(2) by (simp add: vault_isUnlocked_def)
  let ?a = "stringify (vault_account m (iw_publicKey w) (dr_contractId d))"
  obtain v where v: "saveAccount c r2 now ?a (vault_touch now (ow_vault x)) = Some v" "vt_key v = Some key" "clear_text c v ''account'' = Some ?a"
    using save_clear [OF assms(1) t, where rnd = r2 and now = now and k = "''account''" and t = ?a] assms(2) unfolding saveAccount_def by force
  show ?thesis
    using assms(3,4) mq v u deploy_called [OF assms(3)] by (simp add: deploy_call_def keep_secret_def Let_def)
qed

text \<open>
  The vault keeps the phrase as the private key. After onboarding with a fresh vault the settings answer, for
  the right password, that the recovery phrase is unavailable, and show the phrase as the private key.
\<close>

theorem onboarded_phrase_misfiled:
  assumes "crypto_sound c" "vt_key (ow_vault x) = None" "loadMasterSalt (vt_storage (ow_vault x)) = None" "length ns = 16"
    "can_deploy (ow_state x)" "ob_mnemonic (ow_state x) = Some phrase" "ob_password (ow_state x) = Some p" "importWallet phrase p = Some w"
    "json_parse (stringify (vault_account phrase (iw_publicKey w) (dr_contractId d))) = Some (vault_account phrase (iw_publicKey w) (dr_contractId d))"
  shows "(case deploy_call c stringify ns r1 r2 now importWallet (Inr d) x of y \<Rightarrow>
     fst (revealVaultSecret c json_parse dec ns' r' now' Mnemonic p True (ow_vault y)) = Inl RecoveryPhraseUnavailable
     \<and> fst (revealVaultSecret c json_parse dec ns' r' now' PrivateKey p True (ow_vault y)) = Inr phrase)"
proof -
  note mp = deploy_called [OF assms(5)] 
  let ?a = "vault_account phrase (iw_publicKey w) (dr_contractId d)"
  obtain u where u: "vault_unlock c ns r1 now p (ow_vault x) = (True, u)" "vault_for c p (vt_storage u)" "vt_key u = Some (vc_derive c p ns)"
    "loadMasterSalt (vt_storage u) = Some ns"
    using first_unlock [OF assms(3,2,4), where c = c and r = r1 and now = now and p = p] by (cases "vault_unlock c ns r1 now p (ow_vault x)") auto
  have nr: "''account'' \<notin> reserved_keys" by (rule demo_unreserved)
  obtain v where v: "vault_saveItem c r2 now ''account'' (stringify ?a) u = Some v" using u(3) by (simp add: vault_saveItem_def)
  note keep = save_keeps [OF v nr]
  have vf: "vault_for c p (vt_storage v)" using u(2) keep by (simp add: vault_for_def)
  have st: "vt_storage v = map_set ''account'' (StPayload (encryptData c (vc_derive c p ns) r2 (stringify ?a))) (vt_storage u)"
    by (rule saved_storage [OF v u(3)])
  have content: "vault_content c p (vt_storage v) ''account'' = Some (stringify ?a)"
    using keep u(4) by (simp add: vault_content_def st read_set decrypt_encrypt [OF assms(1)])
  have ov: "ow_vault (deploy_call c stringify ns r1 r2 now importWallet (Inr d) x) = v"
    using assms(5-8) mp u(1) v by (simp add: deploy_call_def keep_secret_def saveAccount_def Let_def)
  have reveal: "fst (revealVaultSecret c json_parse dec ns' r' now' kind p True v) = secret_of dec kind p ?a" for kind
  proof -
    let ?v = "if vault_isUnlocked v then vault_lock v else v"
    have lv: "vt_key ?v = None" "vt_storage ?v = vt_storage v" by (auto simp: vault_isUnlocked_def)
    define y where "y = snd (vault_unlock c ns' r' now' p ?v)"
    obtain salt where y': "loadMasterSalt (vt_storage y) = Some salt" "fst (vault_unlock c ns' r' now' p ?v)"
      "vt_key y = Some (vc_derive c p salt)" "vt_storage y = vt_storage v"
      using unlock_vault [OF assms(1), of p ?v ns' r' now' p] vf lv unfolding y_def by metis
    then have y: "vault_unlock c ns' r' now' p ?v = (True, y)" "loadMasterSalt (vt_storage y) = Some salt"
      "vt_key y = Some (vc_derive c p salt)" "vt_storage y = vt_storage v" by (simp_all add: y_def prod_eq_iff)
    have "map_option fst (vault_getItem c now' ''account'' y) = Some (Some (stringify ?a))"
      using get_content [OF y(3,2), where now = now' and k = "''account''"] content y(4) by simp
    then obtain z where "vault_getItem c now' ''account'' y = Some (Some (stringify ?a), z)" by auto
    moreover have "p \<noteq> []" "js_truthy ?a" using mp assms(7) by (auto simp: vault_account_def)
    ultimately show ?thesis using y(1) assms(9) by (simp add: revealVaultSecret_def ensureStorageAccess_def getAccount_def)
  qed
  have "phrase \<noteq> []" using mp assms(6) by auto
  then show ?thesis unfolding ov reveal by (simp add: secret_of_def vault_account_def js_get_def)
qed

text \<open>What ends a loading page.\<close>

definition settles :: "onboarding_event \<Rightarrow> bool" where
  "settles e = (case e of Generated _ \<Rightarrow> True | GenerateFailed _ \<Rightarrow> True | Deployed _ \<Rightarrow> True | DeployFailed _ \<Rightarrow> True
     | ResetOnboarding \<Rightarrow> True | GoTo t \<Rightarrow> t = WelcomeStep | GoPrevious \<Rightarrow> True | _ \<Rightarrow> False)"

text \<open>
  An import that throws leaves the page loading with no error, and so it stays until another call of the hook
  ends or the page is reset.
\<close>

theorem rejected_import_keeps_loading:
  assumes "can_deploy (ow_state x)" "\<And>m p. importWallet m p = None" "list_all (\<lambda>e. \<not> settles e) es"
  shows "ob_isLoading (fold onboarding es (ow_state (deploy_call c stringify ns r1 r2 now importWallet outcome x)))
    \<and> ob_error (ow_state (deploy_call c stringify ns r1 r2 now importWallet outcome x)) = None"
proof -
  have step: "ob_isLoading s \<Longrightarrow> \<not> settles e \<Longrightarrow> ob_isLoading (onboarding e s)" for e s
    by (cases e) (auto simp: settles_def goToNextStep_def goToStep_def Let_def)
  have s: "ow_state (deploy_call c stringify ns r1 r2 now importWallet outcome x) = onboarding DeployCalled (ow_state x)"
    using assms(1,2) by (simp add: deploy_call_def Let_def)
  have l: "ob_isLoading (onboarding DeployCalled (ow_state x))" using deploy_called [OF assms(1)] by simp
  have "ob_isLoading (fold onboarding es (ow_state (deploy_call c stringify ns r1 r2 now importWallet outcome x)))"
    using assms(3) l unfolding s
  proof (induction es rule: rev_induct)
    case (snoc e es)
    then show ?case using step by simp
  qed simp
  moreover have "ob_error (ow_state (deploy_call c stringify ns r1 r2 now importWallet outcome x)) = None"
    using deploy_called [OF assms(1)] by (simp add: s)
  ultimately show ?thesis by blast
qed

definition demo_page :: onboarding_state where
  "demo_page = DEFAULT_STATE\<lparr>ob_step := DeployStep, ob_mnemonic := Some ''words'', ob_password := Some ''fresh''\<rparr>"

definition demo_wallet :: imported_wallet where
  "demo_wallet = \<lparr>iw_publicKey = ''G2'', iw_contractId = ''C2'', iw_accountIndex = 0, iw_encryptedMnemonic = Some ''sealed''\<rparr>"

definition demo_deployed :: deploy_result where
  "demo_deployed = \<lparr>dr_contractId = ''C2'', dr_txHash = Some ''h''\<rparr>"

lemma demo_page_ready: "can_deploy demo_page"
  by (simp add: demo_page_def can_deploy_def)

theorem onboarding_loses_phrase_witness:
  "case deploy_call symbolic_crypto (\<lambda>v. ''new'') [] ([], []) ([], []) 9 (\<lambda>m p. Some demo_wallet) (Inr demo_deployed)
       \<lparr>ow_state = demo_page, ow_vault = vault_lock demo_vault, ow_store = None\<rparr> of y \<Rightarrow>
     ob_step (ow_state y) = SuccessStep \<and> ob_error (ow_state y) = None \<and> ob_mnemonic (ow_state y) = None
     \<and> map_option sa_address (ow_store y) = Some ''G2'' \<and> vt_storage (ow_vault y) = vt_storage demo_vault \<and> \<not> vault_isUnlocked (ow_vault y)"
proof -
  let ?x = "\<lparr>ow_state = demo_page, ow_vault = vault_lock demo_vault, ow_store = None\<rparr>"
  have "vault_for symbolic_crypto ''pw'' (vt_storage (ow_vault ?x))" "vt_key (ow_vault ?x) = None" "can_deploy (ow_state ?x)"
    "ob_password (ow_state ?x) \<noteq> Some ''pw''"
    using demo_vault_for(1) demo_page_ready by (simp_all add: demo_page_def)
  from onboarding_loses_phrase [where x = ?x, OF symbolic_sound this, where importWallet = "\<lambda>m p. Some demo_wallet" and w = demo_wallet
      and d = demo_deployed and stringify = "\<lambda>v. ''new''" and ns = "[]" and ?r1.0 = "([], [])" and ?r2.0 = "([], [])" and now = 9]
  show ?thesis by (simp add: demo_wallet_def)
qed

theorem onboarding_overwrites_account_witness:
  "clear_text symbolic_crypto demo_vault ''account'' = Some ''A1''
   \<and> clear_text symbolic_crypto (ow_vault (deploy_call symbolic_crypto (\<lambda>v. ''new'') [] ([], []) ([], []) 9 (\<lambda>m p. Some demo_wallet) (Inr demo_deployed)
       \<lparr>ow_state = demo_page, ow_vault = demo_vault, ow_store = None\<rparr>)) ''account'' = Some ''new''"
proof -
  let ?x = "\<lparr>ow_state = demo_page, ow_vault = demo_vault, ow_store = None\<rparr>"
  have "vt_key demo_vault = Some (vc_derive symbolic_crypto ''pw'' demo_salt)"
    by (subst saved_key [OF demo_saved], rule first_unlock(3)) (simp_all add: new_vault_def loadMasterSalt_def demo_salt_def)
  then have k: "vt_key (ow_vault ?x) = Some (''pw'', demo_salt)" by (simp add: symbolic_crypto_def)
  have r: "can_deploy (ow_state ?x)" using demo_page_ready by simp
  have "clear_text symbolic_crypto demo_vault ''account'' = Some ''A1''"
    using k by (simp add: clear_text_def demo_vault_eq readEncryptedPayload_def map_get_def decryptData_def encryptData_def symbolic_crypto_def)
  with onboarding_overwrites_account [where x = ?x, OF symbolic_sound k r, where importWallet = "\<lambda>m p. Some demo_wallet" and w = demo_wallet
      and d = demo_deployed and stringify = "\<lambda>v. ''new''" and ns = "[]" and ?r1.0 = "([], [])" and ?r2.0 = "([], [])" and now = 9]
  show ?thesis by simp
qed

theorem onboarded_phrase_misfiled_witness:
  "case deploy_call symbolic_crypto (\<lambda>v. ''new'') demo_salt ([], []) ([], []) 9 (\<lambda>m p. Some demo_wallet) (Inr demo_deployed)
       \<lparr>ow_state = demo_page, ow_vault = new_vault [] None, ow_store = None\<rparr> of y \<Rightarrow>
     fst (revealVaultSecret symbolic_crypto (\<lambda>t. Some (vault_account ''words'' ''G2'' ''C2'')) (\<lambda>v p. None) [] ([], []) 10 Mnemonic ''fresh'' True (ow_vault y))
       = Inl RecoveryPhraseUnavailable
     \<and> fst (revealVaultSecret symbolic_crypto (\<lambda>t. Some (vault_account ''words'' ''G2'' ''C2'')) (\<lambda>v p. None) [] ([], []) 10 PrivateKey ''fresh'' True (ow_vault y))
       = Inr ''words''"
  by (rule onboarded_phrase_misfiled [OF symbolic_sound, where w = demo_wallet])
     (simp_all add: demo_page_ready demo_page_def demo_wallet_def demo_deployed_def new_vault_def loadMasterSalt_def demo_salt_def DEFAULT_STATE_def can_deploy_def)

theorem rejected_import_keeps_loading_witness:
  "ob_isLoading (fold onboarding [ClearError, SetPassword ''other'', GoTo PasswordStep]
      (ow_state (deploy_call symbolic_crypto (\<lambda>v. []) [] ([], []) ([], []) 9 (\<lambda>m p. None) (Inl [])
         \<lparr>ow_state = demo_page, ow_vault = demo_vault, ow_store = None\<rparr>)))"
proof -
  have "can_deploy (ow_state \<lparr>ow_state = demo_page, ow_vault = demo_vault, ow_store = None\<rparr>)" using demo_page_ready by simp
  then show ?thesis
    by (rule rejected_import_keeps_loading [THEN conjunct1]) (simp_all add: settles_def)
qed

end
