(* ===== verification/Spec2Isabelle.thy ===== *)
theory Spec2Isabelle
  imports TransferPolicy RelayErrors NonceStore Idempotency CanonicalPayload JobQueue QueueWorker RelayService
    ScheduleUtils Scheduler Middleware Shutdown SecureVault WalletLock ApprovalSafety SessionPolicy StatementCsv PayoutBatch SendSafety WebPolling BiometricLock
    SessionKeyOps AccountClient SplitBill Contacts PaymentRequests
    SecureBackup VaultAccounts Onboarding
begin

text \<open>
  Ancore, a wallet platform on Stellar: smart accounts with session keys, a relayer that submits signed
  payments, a browser extension, a mobile wallet and a web dashboard, over shared TypeScript packages. This
  library models the logic of the TypeScript parts, file by file, and proves what makes it correct; where the
  code does something else than it means to, the theorem states what it does.

  The ground. \<open>Prelude\<close>: JavaScript's string operations, its insertion-ordered Map, the collections of
  hints, the interface \<open>keyed_store\<close> of maps. \<open>JsNumber\<close>, \<open>JsDecimal\<close>, \<open>Stroops\<close>: binary64 numbers as rationals
  rounded to nearest, their decimal text in both directions, and amounts of seven decimals. \<open>JsValue\<close>: values
  of unknown shape. \<open>Codec\<close>: hex, UTF-8, JSON of strings and integers.

  The relayer, \<open>services/relayer/src\<close>. \<open>RelayErrors\<close> (types/errorCodes.ts and the error classes of
  packages/stellar), \<open>NonceStore\<close> (store/nonceStore.ts), \<open>Idempotency\<close> (store/idempotency.ts and its
  middleware), \<open>StrKey\<close> and \<open>CanonicalPayload\<close> (services/signatureService.ts, payload/builder.ts, with the client's
  relay-payload.ts), \<open>TransferPolicy\<close> (packages/types/src/transfer-policy.ts), \<open>RelayService\<close>
  (services/relayService.ts), \<open>Middleware\<close> (middleware/ and the routes it guards), \<open>JobQueue\<close> and \<open>QueueWorker\<close>
  (queue/, workers/), \<open>ScheduleUtils\<close> and \<open>Scheduler\<close> (scheduler/), \<open>Shutdown\<close> (shutdown.ts). A request
  passes \<open>Middleware\<close>, is checked by \<open>RelayService\<close> over \<open>NonceStore\<close>, \<open>TransferPolicy\<close> and \<open>StrKey\<close>, and is
  answered once per idempotency key; the scheduler feeds the same service. The lemmas show which requests are
  accepted, that a payment is sent at most once under sequential use and where concurrent use breaks that,
  that the queue loses no job and bounds its deliveries, and when a recurring transfer runs. The scheduler is
  also a relation of the steps between its \<open>await\<close>s, in which pauses, cancels and runs overlap.

  The client packages, \<open>packages/\<close>. \<open>RetryLoops\<close> (core-sdk/src/utils/retry.ts, retry-policy.ts, retry-presets.ts,
  stellar/src/retry.ts), \<open>AccountSequence\<close> (stellar/src/account-sequence.ts), \<open>SessionPolicy\<close> (the session key
  policy and the nonce drift of account-abstraction), \<open>ContractErrors\<close> (account-abstraction/src/errors.ts and
  execute.ts), \<open>SdkErrors\<close> (core-sdk/src/errors.ts), \<open>SessionKeyOps\<close> (adding, revoking, refreshing and using a
  session key), \<open>AccountClient\<close> (account-abstraction/src/client.ts), \<open>SecureVault\<close>
  (core-sdk/src/storage/secure-storage-manager.ts), \<open>SecureBackup\<close> (storage/backup.ts, encryption-primitives.ts),
  \<open>VaultAccounts\<close> (storage/account-persistence.ts, with the mobile wallet's security/ and onboarding/ above it and the
  extension's security/vault-export.ts), \<open>Recipients\<close> (types/src/handle-resolution.ts and the
  addresses of the dashboard), \<open>PaymentRequests\<close> (core-sdk/src/amount.ts, payment-request.ts and the requests a wallet
  hands out). The lemmas relate the three retry loops, show which error a caller is
  told, that the vault gives back what was stored, also after a change of the password, and what a backup and
  the table of accounts keep and lose.

  The extension, \<open>apps/extension-wallet/src\<close>. \<open>Allowlist\<close> (stores/allowlist.ts), \<open>Contacts\<close> (stores/contacts.ts with
  its backups, and the dashboard's contacts), \<open>DappApi\<close>,
  \<open>ApprovalQueue\<close>, \<open>ApprovalSafety\<close> (content-script, background/), \<open>WalletLock\<close> (unlocking and the inactivity
  timer), \<open>SendService\<close>, \<open>SendFlow\<close>, \<open>SendSafety\<close> (services/send-service.ts, hooks/useSendTransaction.ts),
  \<open>Onboarding\<close> (hooks/useOnboarding.ts, services/deploy-account.ts). The asynchronous parts are step
  relations over the events that may come in any order; the theorems are invariants of every history: no
  signature without an approval, every request answered once, only validated payments sent. Of onboarding they
  show when a deployment completes and what becomes of the recovery phrase.

  The dashboard, \<open>apps/web-dashboard/src\<close>. \<open>PayoutCsv\<close> and \<open>PayoutBatch\<close> (services/bulk-payouts.ts),
  \<open>StatementCsv\<close> (features/statements/statement-export.ts), \<open>WebPolling\<close> (services/tx-polling.ts), \<open>SplitBill\<close>
  (lib/split-bill-validation.ts, services/splitBillStorage.ts). The mobile wallet, \<open>apps/mobile-wallet/src\<close>:
  \<open>BiometricLock\<close> (security/).

  Conventions. A thrown error is the left side of a sum. Time, randomness and identifiers are arguments. A
  network call, a library (the Stellar SDK, Web Crypto, the URL parser) or a storage is a parameter: the outcome
  of its n-th call, an event, or a function with its documented laws as hypotheses. Strings are lists of
  characters below 256. Integers the code guards to be safe are \<open>int\<close>; numbers it computes with are \<open>number\<close>,
  with their rounding. \<open>while\<close> loops are recursive functions with a measure; the polling and worker loops that
  end by an outcome take the outcomes as a list or are bounded by the attempts the code counts.

  Bounds. Amounts are exact up to 10 ^ 15 stroops, as long as the number of parts squared times the total stays
  below it (\<open>payable\<close>); nonces and times are exact below 2 ^ 53, as in the code.

  Not modelled: rendering (the .tsx files of the apps and of ui-kit); the Rust contracts and the indexer; the
  Postgres stores, whose logic is SQL run by the database; telemetry, metrics, logging, tracing and
  configuration; the derivations and ciphers of \<open>packages/crypto\<close>, which are calls of Web Crypto and of
  noble; the builders of transactions and of XDR values, which are calls of the Stellar SDK; passkeys
  and the Ledger adapter, which are calls of the browser; the ai-agent, whose answers a model decides.
\<close>

end
